(* ===== verification/Prelude.thy ===== *)
theory Prelude
  imports Complex_Main "HOL-Library.AList"
begin

text \<open>
  Shared vocabulary of the development: the JavaScript numbers the configuration code
  sanitises, the insertion-ordered \<^verbatim>\<open>Map\<close> of JavaScript as an association list, the
  \<open>named_theorems\<close> the component proofs use, and the two interfaces every stateful component
  is an instance of (a machine with an invariant, a store with a size bound).
\<close>

section \<open>Collections of facts\<close>

named_theorems step_defs \<open>definitions of the operations a step function dispatches to\<close>
named_theorems inv_intros \<open>one preservation lemma per operation\<close>

section \<open>JavaScript numbers\<close>

text \<open>
  A JavaScript number is a double. Configuration values reach the code unvalidated, so the
  sanitisers test \<^verbatim>\<open>Number.isFinite\<close>; the model keeps the three non-finite values and takes
  the finite ones as rationals (every finite double is one; rounding of sums is not modelled).
  Clock readings (\<^verbatim>\<open>Date.now()\<close>) are whole milliseconds and are \<open>int\<close>.
\<close>

datatype jsnum = JNaN | JNegInf | JPosInf | JFin rat

fun is_finite_num :: "jsnum \<Rightarrow> bool" where
  "is_finite_num (JFin _) = True"
| "is_finite_num _ = False"

fun fin_val :: "jsnum \<Rightarrow> rat" where
  "fin_val (JFin q) = q"
| "fin_val _ = 0"

section \<open>JavaScript maps\<close>

text \<open>
  \<^verbatim>\<open>Map.set\<close> on a present key keeps the key's place in the iteration order and on an absent
  key appends; \<^verbatim>\<open>Map.delete\<close> removes the key. These are \<open>AList.update\<close> and
  \<open>AList.delete\<close> of the library, and \<^verbatim>\<open>Map.get\<close> is \<open>map_of\<close>. A list is a proper map when
  its keys are distinct.
\<close>

type_synonym ('k, 'v) jsmap = "('k \<times> 'v) list"

abbreviation jm_get :: "('k, 'v) jsmap \<Rightarrow> 'k \<Rightarrow> 'v option" where
  "jm_get m k \<equiv> map_of m k"

abbreviation jm_set :: "'k \<Rightarrow> 'v \<Rightarrow> ('k, 'v) jsmap \<Rightarrow> ('k, 'v) jsmap" where
  "jm_set k v m \<equiv> AList.update k v m"

abbreviation jm_del :: "'k \<Rightarrow> ('k, 'v) jsmap \<Rightarrow> ('k, 'v) jsmap" where
  "jm_del k m \<equiv> AList.delete k m"

abbreviation jm_keys :: "('k, 'v) jsmap \<Rightarrow> 'k list" where
  "jm_keys m \<equiv> map fst m"

abbreviation jm_vals :: "('k, 'v) jsmap \<Rightarrow> 'v list" where
  "jm_vals m \<equiv> map snd m"

abbreviation jm_wf :: "('k, 'v) jsmap \<Rightarrow> bool" where
  "jm_wf m \<equiv> distinct (map fst m)"

lemma jm_get_set [simp]: "map_of (AList.update k v m) k' = (if k' = k then Some v else map_of m k')"
  by (simp add: update_conv')

lemma jm_get_del [simp]: "map_of (AList.delete k m) k' = (if k' = k then None else map_of m k')"
  by (simp add: delete_conv')

lemma jm_wf_set [simp]: "jm_wf m \<Longrightarrow> jm_wf (AList.update k v m)"
  by (rule distinct_update)

lemma jm_wf_del [simp]: "jm_wf m \<Longrightarrow> jm_wf (AList.delete k m)"
  by (rule distinct_delete)

lemma jm_wf_filter [simp]: "jm_wf m \<Longrightarrow> jm_wf (filter P m)"
  by (induction m) auto

lemma length_jm_set_new:
  "k \<notin> set (map fst m) \<Longrightarrow> length (AList.update k v m) = Suc (length m)"
  by (induction m) auto

lemma jm_set_new: "k \<notin> set (map fst m) \<Longrightarrow> AList.update k v m = m @ [(k, v)]"
  by (induction m) auto

lemma jm_set_new': "map_of m k = None \<Longrightarrow> AList.update k v m = m @ [(k, v)]"
  by (simp add: jm_set_new map_of_eq_None_iff)

lemma length_jm_set_old:
  "k \<in> set (map fst m) \<Longrightarrow> length (AList.update k v m) = length m"
  by (induction m) auto

lemma length_jm_set_le: "length (AList.update k v m) \<le> Suc (length m)"
  by (induction m) auto

lemma length_jm_del_le: "length (AList.delete k m) \<le> length m"
  by (simp add: AList.delete_eq)

lemma set_jm_del: "set (AList.delete k m) = {p \<in> set m. fst p \<noteq> k}"
  by (auto simp: AList.delete_eq)

lemma keys_jm_del: "map fst (AList.delete k m) = filter (\<lambda>x. x \<noteq> k) (map fst m)"
  by (induction m) auto

lemma length_jm_del_present:
  "jm_wf m \<Longrightarrow> k \<in> set (map fst m) \<Longrightarrow> Suc (length (AList.delete k m)) = length m"
proof (induction m)
  case (Cons p m)
  show ?case
  proof (cases "fst p = k")
    case True
    with Cons.prems have "AList.delete k m = m"
      by (auto intro!: delete_idem)
    with True show ?thesis by (cases p) simp
  next
    case False
    with Cons show ?thesis by (cases p) auto
  qed
qed simp

lemma jm_get_filter:
  "jm_wf m \<Longrightarrow> map_of (filter P m) k =
     (case map_of m k of None \<Rightarrow> None | Some v \<Rightarrow> if P (k, v) then Some v else None)"
proof (induction m)
  case (Cons p m)
  obtain a b where p: "p = (a, b)" by (cases p)
  have "a \<notin> set (map fst m)" using Cons.prems p by simp
  then have "map_of m a = None" by (simp add: map_of_eq_None_iff)
  with Cons p show ?case by auto
qed simp

lemma jm_set_mem:
  "jm_wf m \<Longrightarrow> set (AList.update k v m) = insert (k, v) {p \<in> set m. fst p \<noteq> k}"
proof (induction m)
  case (Cons p m)
  then show ?case by (cases p) (auto simp: image_iff)
qed simp

lemma ball_jm_set:
  "\<forall>e \<in> set m. P (fst e) (snd e) \<Longrightarrow> P k v \<Longrightarrow> \<forall>e \<in> set (AList.update k v m). P (fst e) (snd e)"
  by (induction m) auto

lemma ball_jm_del:
  "\<forall>e \<in> set m. P e \<Longrightarrow> \<forall>e \<in> set (AList.delete k m). P e"
  by (simp add: set_jm_del)

lemma jm_get_mem: "map_of m k = Some v \<Longrightarrow> (k, v) \<in> set m"
  by (rule map_of_SomeD)

lemma jm_get_key: "map_of m k = Some v \<Longrightarrow> k \<in> set (map fst m)"
  by (force dest: map_of_SomeD)

lemma length_jm_set_present: "map_of m k = Some v' \<Longrightarrow> length (AList.update k v m) = length m"
  by (rule length_jm_set_old [OF jm_get_key])

lemma find_mem: "find P xs = Some x \<Longrightarrow> x \<in> set xs \<and> P x"
  by (induction xs) (auto split: if_splits)

section \<open>Sorting\<close>

text \<open>\<^verbatim>\<open>Array.prototype.toSorted\<close> with a comparison function, which is stable.\<close>

fun insertItem :: "('a \<Rightarrow> 'a \<Rightarrow> rat) \<Rightarrow> 'a \<Rightarrow> 'a list \<Rightarrow> 'a list" where
  "insertItem cmp x [] = [x]"
| "insertItem cmp x (y # ys) = (if cmp x y \<le> 0 then x # y # ys else y # insertItem cmp x ys)"

definition toSorted :: "('a \<Rightarrow> 'a \<Rightarrow> rat) \<Rightarrow> 'a list \<Rightarrow> 'a list" where
  "toSorted cmp xs = foldr (insertItem cmp) xs []"

lemma insertItem_set: "set (insertItem cmp x xs) = insert x (set xs)"
  by (induction xs) auto

lemma toSorted_set: "set (toSorted cmp xs) = set xs"
  by (induction xs) (simp_all add: toSorted_def insertItem_set)

section \<open>Sequences of operations\<close>

text \<open>
  A component with state is a step function over its operations; a history is a list of them.
  The laws of this interface are that the initial state satisfies the invariant and that every
  step keeps it; the client's lemma is that every history does.
\<close>

locale machine =
  fixes step :: "'s \<Rightarrow> 'e \<Rightarrow> 's"
    and init :: "'s"
    and inv :: "'s \<Rightarrow> bool"
  assumes init_inv: "inv init"
    and step_inv: "inv s \<Longrightarrow> inv (step s e)"
begin

lemma run_inv_from: "inv s \<Longrightarrow> inv (foldl step s es)"
  by (induction es arbitrary: s) (auto intro: step_inv)

lemma run_inv: "inv (foldl step init es)"
  by (rule run_inv_from [OF init_inv])

end

text \<open>A machine one of whose measurements never decreases (generations, tokens, counters).\<close>

locale monotone_machine =
  fixes step :: "'s \<Rightarrow> 'e \<Rightarrow> 's"
    and stamp :: "'s \<Rightarrow> nat"
  assumes stamp_step: "stamp s \<le> stamp (step s e)"
begin

lemma stamp_run: "stamp s \<le> stamp (foldl step s es)"
  by (induction es arbitrary: s) (auto intro: le_trans stamp_step)

end

end
