(* ===== verification/NumberCoercion.thy ===== *)
theory NumberCoercion
  imports Prelude
begin

text \<open>
  \<^verbatim>\<open>packages/normalization-core/src/number-coercion.ts\<close>: the sanitisers every timeout, TTL and
  timestamp of the gateway goes through. An \<^verbatim>\<open>unknown\<close> argument is a \<open>jsval\<close>: a number, a
  string or anything else. \<^verbatim>\<open>undefined\<close> is \<open>None\<close>. \<^verbatim>\<open>Date.now()\<close> is the argument
  \<open>clock\<close>. The ISO rendering of a timestamp is not modelled, only whether it exists.
\<close>

section \<open>Values and strings\<close>

datatype jsval = VNum jsnum | VStr string | VOther

text \<open>The white space \<^verbatim>\<open>String.prototype.trim\<close> removes, among the characters of \<open>char\<close>.\<close>

definition is_js_space :: "char \<Rightarrow> bool" where
  "is_js_space c \<longleftrightarrow> c \<in> {CHR 0x09, CHR 0x0A, CHR 0x0B, CHR 0x0C, CHR 0x0D, CHR '' '', CHR 0xA0}"

definition js_trim :: "string \<Rightarrow> string" where
  "js_trim s = rev (dropWhile is_js_space (rev (dropWhile is_js_space s)))"

definition is_digit :: "char \<Rightarrow> bool" where
  "is_digit c \<longleftrightarrow> 48 \<le> (of_char c :: nat) \<and> (of_char c :: nat) \<le> 57"

definition digit_val :: "char \<Rightarrow> int" where
  "digit_val c = int (of_char c) - 48"

definition digits_val :: "string \<Rightarrow> int" where
  "digits_val ds = foldl (\<lambda>n c. 10 * n + digit_val c) 0 ds"

text \<open>\<^verbatim>\<open>/^[+-]?\d+$/\<close> and the value \<^verbatim>\<open>Number\<close> gives a string that matches it.\<close>

definition all_digits :: "string \<Rightarrow> bool" where
  "all_digits ds \<longleftrightarrow> ds \<noteq> [] \<and> list_all is_digit ds"

definition read_signed :: "string \<Rightarrow> int option" where
  "read_signed s = (case s of
      [] \<Rightarrow> None
    | c # cs \<Rightarrow>
        if c = CHR ''+'' then (if all_digits cs then Some (digits_val cs) else None)
        else if c = CHR ''-'' then (if all_digits cs then Some (- digits_val cs) else None)
        else (if all_digits s then Some (digits_val s) else None))"

section \<open>Finite numbers, safe integers, ranges\<close>

definition MAX_SAFE :: int where "MAX_SAFE = 2 ^ 53 - 1"

definition MAX_TIMER_TIMEOUT_MS :: int where "MAX_TIMER_TIMEOUT_MS = 2147000000"

definition MAX_DATE_TIMESTAMP_MS :: int where "MAX_DATE_TIMESTAMP_MS = 8640000000000000"

fun asFiniteNumber :: "jsval \<Rightarrow> rat option" where
  "asFiniteNumber (VNum (JFin q)) = Some q"
| "asFiniteNumber _ = None"

text \<open>\<^verbatim>\<open>Number.isSafeInteger\<close> on a finite number.\<close>

definition is_safe_integer :: "rat \<Rightarrow> bool" where
  "is_safe_integer q \<longleftrightarrow> of_int \<lfloor>q\<rfloor> = q \<and> \<bar>\<lfloor>q\<rfloor>\<bar> \<le> MAX_SAFE"

text \<open>
  A sum or product of doubles whose exact value is at least \<open>2 ^ 1024 - 2 ^ 970\<close> in size rounds
  to an infinity; \<^verbatim>\<open>Number.isFinite\<close> of a computed value is the negation of this.
\<close>

definition overflows :: "rat \<Rightarrow> bool" where
  "overflows q \<longleftrightarrow> \<bar>q\<bar> \<ge> 2 ^ 1024 - 2 ^ 970"

record num_range =
  rmin :: "rat option"
  rmax :: "rat option"
  minExclusive :: bool
  maxExclusive :: bool

definition asFiniteNumberInRange :: "jsval \<Rightarrow> num_range \<Rightarrow> rat option" where
  "asFiniteNumberInRange v r =
     (case asFiniteNumber v of
        None \<Rightarrow> None
      | Some n \<Rightarrow>
          if (case rmin r of None \<Rightarrow> False
              | Some lo \<Rightarrow> if minExclusive r then n \<le> lo else n < lo) then None
          else if (case rmax r of None \<Rightarrow> False
              | Some hi \<Rightarrow> if maxExclusive r then n \<ge> hi else n > hi) then None
          else Some n)"

definition asSafeIntegerInRange :: "jsval \<Rightarrow> rat option \<Rightarrow> rat option \<Rightarrow> int option" where
  "asSafeIntegerInRange v lo hi =
     (case asFiniteNumber v of
        None \<Rightarrow> None
      | Some n \<Rightarrow>
          if \<not> is_safe_integer n then None
          else if (case lo of None \<Rightarrow> False | Some l \<Rightarrow> n < l) then None
          else if (case hi of None \<Rightarrow> False | Some h \<Rightarrow> n > h) then None
          else Some \<lfloor>n\<rfloor>)"

definition normalizeNumericString :: "string \<Rightarrow> string option" where
  "normalizeNumericString s = (let t = js_trim s in if t = [] then None else Some t)"

fun parseStrictInteger :: "jsval \<Rightarrow> int option" where
  "parseStrictInteger (VNum (JFin q)) = (if is_safe_integer q then Some \<lfloor>q\<rfloor> else None)"
| "parseStrictInteger (VStr s) =
     (case normalizeNumericString s of
        None \<Rightarrow> None
      | Some t \<Rightarrow> (case read_signed t of
            None \<Rightarrow> None
          | Some n \<Rightarrow> if \<bar>n\<bar> \<le> MAX_SAFE then Some n else None))"
| "parseStrictInteger _ = None"

definition parseStrictPositiveInteger :: "jsval \<Rightarrow> int option" where
  "parseStrictPositiveInteger v =
     (case parseStrictInteger v of Some n \<Rightarrow> if n > 0 then Some n else None | None \<Rightarrow> None)"

definition parseStrictNonNegativeInteger :: "jsval \<Rightarrow> int option" where
  "parseStrictNonNegativeInteger v =
     (case parseStrictInteger v of Some n \<Rightarrow> if n \<ge> 0 then Some n else None | None \<Rightarrow> None)"

fun asPositiveSafeInteger :: "jsval \<Rightarrow> int option" where
  "asPositiveSafeInteger (VNum (JFin q)) =
     (if is_safe_integer q \<and> q > 0 then Some \<lfloor>q\<rfloor> else None)"
| "asPositiveSafeInteger _ = None"

section \<open>Timestamps\<close>

definition asDateTimestampMs :: "jsval \<Rightarrow> rat option" where
  "asDateTimestampMs v = asFiniteNumberInRange v
     \<lparr>rmin = Some (- of_int MAX_DATE_TIMESTAMP_MS), rmax = Some (of_int MAX_DATE_TIMESTAMP_MS),
      minExclusive = False, maxExclusive = False\<rparr>"

abbreviation int_val :: "int \<Rightarrow> jsval" where
  "int_val n \<equiv> VNum (JFin (of_int n))"

definition isFutureDateTimestampMs :: "jsval \<Rightarrow> jsval option \<Rightarrow> int \<Rightarrow> bool" where
  "isFutureDateTimestampMs v nowMs clock =
     (case (asDateTimestampMs v,
            asDateTimestampMs (case nowMs of None \<Rightarrow> int_val clock | Some n \<Rightarrow> n)) of
        (Some t, Some n) \<Rightarrow> t > n
      | _ \<Rightarrow> False)"

definition resolveDateTimestampMs :: "jsval \<Rightarrow> jsval option \<Rightarrow> int \<Rightarrow> rat" where
  "resolveDateTimestampMs v fallback clock =
     (case asDateTimestampMs v of
        Some t \<Rightarrow> t
      | None \<Rightarrow>
          (case asDateTimestampMs (case fallback of None \<Rightarrow> int_val clock | Some f \<Rightarrow> f) of
             Some t \<Rightarrow> t
           | None \<Rightarrow> 0))"

section \<open>Timers and integer options\<close>

definition clampTimerTimeoutMs :: "jsval \<Rightarrow> rat \<Rightarrow> int option" where
  "clampTimerTimeoutMs valueMs minMs =
     (case asFiniteNumber valueMs of
        None \<Rightarrow> None
      | Some v \<Rightarrow>
          let mn = max 1 \<lfloor>minMs\<rfloor> in Some (min (max \<lfloor>v\<rfloor> mn) MAX_TIMER_TIMEOUT_MS))"

definition clampPositiveTimerTimeoutMs :: "jsval \<Rightarrow> int option" where
  "clampPositiveTimerTimeoutMs valueMs =
     (case asFiniteNumber valueMs of
        None \<Rightarrow> None
      | Some v \<Rightarrow> if v \<le> 0 then None else clampTimerTimeoutMs (VNum (JFin v)) 1)"

definition resolveTimerTimeoutMs :: "jsval \<Rightarrow> jsnum \<Rightarrow> rat \<Rightarrow> int" where
  "resolveTimerTimeoutMs valueMs fallbackMs minMs =
     (let mn = max 0 \<lfloor>minMs\<rfloor> in
      case (case asFiniteNumber valueMs of
              None \<Rightarrow> asFiniteNumber (VNum fallbackMs) | Some v \<Rightarrow> Some v) of
        None \<Rightarrow> mn
      | Some v \<Rightarrow> min (max \<lfloor>v\<rfloor> mn) MAX_TIMER_TIMEOUT_MS)"

definition resolvePositiveTimerTimeoutMs :: "jsval \<Rightarrow> jsnum \<Rightarrow> int" where
  "resolvePositiveTimerTimeoutMs valueMs fallbackMs =
     (case clampPositiveTimerTimeoutMs valueMs of
        Some t \<Rightarrow> t
      | None \<Rightarrow> resolveTimerTimeoutMs (VNum fallbackMs) (JFin 1) 1)"

definition addTimerTimeoutGraceMs :: "jsval \<Rightarrow> jsval \<Rightarrow> int option" where
  "addTimerTimeoutGraceMs timeoutMs graceMs =
     (case (asFiniteNumber timeoutMs, asFiniteNumber graceMs) of
        (Some t, Some g) \<Rightarrow>
          if overflows (t + g) then Some MAX_TIMER_TIMEOUT_MS
          else clampTimerTimeoutMs (VNum (JFin (t + g))) 1
      | _ \<Rightarrow> None)"

definition finiteSecondsToTimerSafeMilliseconds :: "jsval \<Rightarrow> bool \<Rightarrow> int option" where
  "finiteSecondsToTimerSafeMilliseconds v floorSeconds =
     (case asFiniteNumber v of
        None \<Rightarrow> None
      | Some seconds \<Rightarrow>
          if seconds \<le> 0 then None
          else
            let boundedSeconds = (if floorSeconds then of_int \<lfloor>seconds\<rfloor> else seconds);
                milliseconds = \<lfloor>boundedSeconds * 1000\<rfloor>
            in if overflows (boundedSeconds * 1000) \<or> milliseconds \<le> 0 then None
               else Some (min milliseconds MAX_TIMER_TIMEOUT_MS))"

definition resolveIntegerOption :: "jsval \<Rightarrow> rat \<Rightarrow> int option \<Rightarrow> int option \<Rightarrow> int" where
  "resolveIntegerOption v fallback lo hi =
     (let candidate = (case asFiniteNumber v of Some q \<Rightarrow> q | None \<Rightarrow> fallback);
          floored = \<lfloor>candidate\<rfloor>;
          minBounded = (case lo of None \<Rightarrow> floored | Some l \<Rightarrow> max l floored)
      in case hi of None \<Rightarrow> minBounded | Some h \<Rightarrow> min h minBounded)"

definition resolveOptionalIntegerOption :: "jsval \<Rightarrow> int option \<Rightarrow> int option \<Rightarrow> int option" where
  "resolveOptionalIntegerOption v lo hi =
     (case asFiniteNumber v of
        None \<Rightarrow> None
      | Some q \<Rightarrow> Some (resolveIntegerOption v q lo hi))"

definition resolveNonNegativeIntegerOption :: "jsval \<Rightarrow> rat \<Rightarrow> int" where
  "resolveNonNegativeIntegerOption v fallback = resolveIntegerOption v fallback (Some 0) None"

section \<open>Expiration instants\<close>

definition positiveSecondsToSafeMilliseconds :: "jsval \<Rightarrow> int option" where
  "positiveSecondsToSafeMilliseconds v =
     (case parseStrictPositiveInteger v of
        None \<Rightarrow> None
      | Some s \<Rightarrow> if \<bar>s * 1000\<bar> \<le> MAX_SAFE then Some (s * 1000) else None)"

definition nonNegativeSecondsToSafeMilliseconds :: "jsval \<Rightarrow> int option" where
  "nonNegativeSecondsToSafeMilliseconds v =
     (case parseStrictNonNegativeInteger v of
        None \<Rightarrow> None
      | Some s \<Rightarrow> if \<bar>s * 1000\<bar> \<le> MAX_SAFE then Some (s * 1000) else None)"

text \<open>\<^verbatim>\<open>timestampMsToIsoString(x) !== undefined\<close>.\<close>

definition has_iso :: "rat \<Rightarrow> bool" where
  "has_iso q \<longleftrightarrow> asDateTimestampMs (VNum (JFin q)) \<noteq> None"

record expiry_opts =
  eo_nowMs :: "jsnum option"
  eo_bufferMs :: "jsnum option"
  eo_minRemainingMs :: "jsnum option"

definition resolveExpiresAtMsFromDurationMs :: "jsval \<Rightarrow> expiry_opts \<Rightarrow> int \<Rightarrow> rat option" where
  "resolveExpiresAtMsFromDurationMs v opts clock =
     (case asPositiveSafeInteger v of
        None \<Rightarrow> None
      | Some durationMs \<Rightarrow>
          (case (asDateTimestampMs (case eo_nowMs opts of None \<Rightarrow> int_val clock | Some n \<Rightarrow> VNum n),
                 asFiniteNumber (case eo_bufferMs opts of None \<Rightarrow> int_val 0 | Some b \<Rightarrow> VNum b)) of
             (Some nowMs, Some bufferMs) \<Rightarrow>
               (let expiresAt = nowMs + of_int durationMs - bufferMs in
                if \<not> is_safe_integer expiresAt \<or> \<not> has_iso expiresAt then None
                else
                  (case eo_minRemainingMs opts of
                     None \<Rightarrow> Some expiresAt
                   | Some m \<Rightarrow>
                       (case m of
                          JFin r \<Rightarrow>
                            (let minExpiresAt = nowMs + r in
                             if \<not> is_safe_integer minExpiresAt \<or> \<not> has_iso minExpiresAt
                             then Some expiresAt
                             else Some (max expiresAt minExpiresAt))
                        | _ \<Rightarrow> Some expiresAt)))
           | _ \<Rightarrow> None))"

definition resolveExpiresAtMsFromDurationSeconds :: "jsval \<Rightarrow> expiry_opts \<Rightarrow> int \<Rightarrow> rat option" where
  "resolveExpiresAtMsFromDurationSeconds v opts clock =
     (case positiveSecondsToSafeMilliseconds v of
        None \<Rightarrow> None
      | Some d \<Rightarrow> resolveExpiresAtMsFromDurationMs (int_val d) opts clock)"

text \<open>\<^verbatim>\<open>Math.trunc\<close>.\<close>

definition js_trunc :: "rat \<Rightarrow> int" where
  "js_trunc q = (if q < 0 then \<lceil>q\<rceil> else \<lfloor>q\<rfloor>)"

definition resolveExpiresAtMsFromEpochSeconds ::
    "jsval \<Rightarrow> rat option \<Rightarrow> rat option \<Rightarrow> rat option" where
  "resolveExpiresAtMsFromEpochSeconds v bufferMs maxMs =
     (case (case asFiniteNumber v of
              Some q \<Rightarrow> if q > 0 then Some (js_trunc q * 1000)
                        else positiveSecondsToSafeMilliseconds v
            | None \<Rightarrow> positiveSecondsToSafeMilliseconds v) of
        None \<Rightarrow> None
      | Some epochMs \<Rightarrow>
          (let expiresAt = of_int epochMs - (case bufferMs of None \<Rightarrow> 0 | Some b \<Rightarrow> b) in
           if \<not> is_safe_integer expiresAt then None
           else if \<not> has_iso expiresAt then None
           else (case maxMs of
                   None \<Rightarrow> Some expiresAt
                 | Some mx \<Rightarrow> if expiresAt \<le> mx then Some expiresAt else None)))"

record epoch_opts =
  ep_nowMs :: "jsnum option"
  ep_relativeSecondsThreshold :: "rat option"
  ep_absoluteMillisecondsThreshold :: "rat option"

definition resolveExpiresAtMsFromDurationOrEpoch :: "jsval \<Rightarrow> epoch_opts \<Rightarrow> int \<Rightarrow> rat option" where
  "resolveExpiresAtMsFromDurationOrEpoch v opts clock =
     (case parseStrictPositiveInteger v of
        None \<Rightarrow> None
      | Some parsed \<Rightarrow>
          if of_int parsed <
             (case ep_relativeSecondsThreshold opts of None \<Rightarrow> 1000000000 | Some t \<Rightarrow> t)
          then resolveExpiresAtMsFromDurationSeconds (int_val parsed)
                 \<lparr>eo_nowMs = ep_nowMs opts, eo_bufferMs = None, eo_minRemainingMs = None\<rparr> clock
          else if of_int parsed <
             (case ep_absoluteMillisecondsThreshold opts of None \<Rightarrow> 1000000000000 | Some t \<Rightarrow> t)
          then resolveExpiresAtMsFromEpochSeconds (int_val parsed) None None
          else asDateTimestampMs (int_val parsed))"

section \<open>Facts the clients use\<close>

lemma asFiniteNumber_Some: "asFiniteNumber v = Some q \<longleftrightarrow> v = VNum (JFin q)"
  by (cases v rule: asFiniteNumber.cases) auto

lemma asDateTimestampMs_Some:
  "asDateTimestampMs v = Some q \<longleftrightarrow>
     v = VNum (JFin q) \<and> \<bar>q\<bar> \<le> of_int MAX_DATE_TIMESTAMP_MS"
  by (cases v rule: asFiniteNumber.cases)
    (auto simp: asDateTimestampMs_def asFiniteNumberInRange_def abs_le_iff not_less)

lemma asDateTimestampMs_int:
  "\<bar>n\<bar> \<le> MAX_DATE_TIMESTAMP_MS \<Longrightarrow> asDateTimestampMs (int_val n) = Some (of_int n)"
  unfolding asDateTimestampMs_Some by (simp flip: of_int_abs)

lemma has_iso_iff: "has_iso q \<longleftrightarrow> \<bar>q\<bar> \<le> of_int MAX_DATE_TIMESTAMP_MS"
  unfolding has_iso_def by (auto simp: asDateTimestampMs_Some not_None_eq [symmetric] simp del: not_None_eq)

lemma is_safe_integer_int [simp]: "is_safe_integer (of_int n) \<longleftrightarrow> \<bar>n\<bar> \<le> MAX_SAFE"
  by (simp add: is_safe_integer_def)

lemma resolveIntegerOption_ge: "lo \<le> resolveIntegerOption v fb (Some lo) None"
  by (simp add: resolveIntegerOption_def Let_def)

lemma resolveNonNegativeIntegerOption_ge [simp]: "0 \<le> resolveNonNegativeIntegerOption v fb"
  by (simp add: resolveNonNegativeIntegerOption_def resolveIntegerOption_ge)

subsection \<open>Decimal notation\<close>

text \<open>\<^verbatim>\<open>String(n)\<close> for a safe integer.\<close>

definition digit_char :: "nat \<Rightarrow> char" where
  "digit_char d = char_of (48 + d)"

fun show_nat :: "nat \<Rightarrow> string" where
  "show_nat n = (if n < 10 then [digit_char n] else show_nat (n div 10) @ [digit_char (n mod 10)])"

declare show_nat.simps [simp del]

definition show_int :: "int \<Rightarrow> string" where
  "show_int n = (if n < 0 then CHR ''-'' # show_nat (nat (- n)) else show_nat (nat n))"

lemma of_char_digit: "d < 10 \<Longrightarrow> (of_char (digit_char d) :: nat) = 48 + d"
  by (simp add: digit_char_def)

lemma digits_val_snoc: "digits_val (ds @ [c]) = 10 * digits_val ds + digit_val c"
  by (simp add: digits_val_def)

lemma all_digits_show_nat: "all_digits (show_nat n)"
proof (induction n rule: show_nat.induct)
  case (1 n)
  then show ?case
    by (subst show_nat.simps) (auto simp: all_digits_def is_digit_def of_char_digit)
qed

lemma digits_val_show_nat: "digits_val (show_nat n) = int n"
proof (induction n rule: show_nat.induct)
  case (1 n)
  show ?case
  proof (cases "n < 10")
    case True
    then show ?thesis
      by (subst show_nat.simps) (simp add: digits_val_def digit_val_def of_char_digit)
  next
    case False
    with 1 show ?thesis
      by (subst show_nat.simps) (simp add: digits_val_snoc digit_val_def of_char_digit zdiv_int zmod_int)
  qed
qed

lemma digit_not_sign: "is_digit c \<Longrightarrow> c \<noteq> CHR ''+'' \<and> c \<noteq> CHR ''-''"
  by (auto simp: is_digit_def)

lemma digit_not_space: "is_digit c \<Longrightarrow> \<not> is_js_space c"
  by (auto simp: is_digit_def is_js_space_def)

lemma read_signed_digits: "all_digits ds \<Longrightarrow> read_signed ds = Some (digits_val ds)"
  using digit_not_sign by (cases ds) (auto simp: read_signed_def all_digits_def)

lemma read_signed_show_int: "read_signed (show_int n) = Some n"
  by (auto simp: show_int_def read_signed_digits all_digits_show_nat digits_val_show_nat)
    (simp add: read_signed_def all_digits_show_nat digits_val_show_nat)

lemma js_trim_pad:
  assumes "list_all is_js_space l" "list_all is_js_space r"
    and "s \<noteq> []" "\<not> is_js_space (hd s)" "\<not> is_js_space (last s)"
  shows "js_trim (l @ s @ r) = s"
proof -
  have l: "dropWhile is_js_space (l @ s @ r) = s @ r"
    using assms by (cases s) (auto simp: list_all_iff dropWhile_append2)
  have "dropWhile is_js_space (rev (s @ r)) = rev s"
    using assms dropWhile_append2 [of "rev r" is_js_space "rev s"]
    by (cases s rule: rev_cases) (simp_all add: list_all_iff)
  with l show ?thesis by (simp add: js_trim_def)
qed

lemma show_int_edges:
  "show_int n \<noteq> [] \<and> \<not> is_js_space (hd (show_int n)) \<and> \<not> is_js_space (last (show_int n))"
proof -
  have "show_nat m \<noteq> [] \<and> is_digit (hd (show_nat m)) \<and> is_digit (last (show_nat m))" for m
    using all_digits_show_nat [of m] by (simp add: all_digits_def list_all_iff)
  then show ?thesis
    by (auto simp: show_int_def digit_not_space is_js_space_def [of "CHR ''-''"])
qed

section \<open>Properties\<close>

text \<open>
  A whole number printed in decimal and padded with white space on either side is parsed
  back exactly when it is a safe integer, and rejected otherwise.
\<close>

theorem parseStrictInteger_show:
  assumes "list_all is_js_space l" and "list_all is_js_space r"
  shows "parseStrictInteger (VStr (l @ show_int n @ r)) =
           (if \<bar>n\<bar> \<le> MAX_SAFE then Some n else None)"
  using js_trim_pad [OF assms, of "show_int n"] show_int_edges [of n]
  by (simp add: normalizeNumericString_def read_signed_show_int)

theorem parseStrictInteger_show_witness:
  "parseStrictInteger (VStr ('' '' @ show_int (- 42) @ [CHR 0x0A])) = Some (- 42)"
proof -
  have l: "list_all is_js_space '' ''" and r: "list_all is_js_space [CHR 0x0A]"
    by (simp_all add: is_js_space_def)
  show ?thesis
    using parseStrictInteger_show [OF l r, of "- 42"] by (simp add: MAX_SAFE_def)
qed

text \<open>
  Every timer delay the sanitisers produce fits Node's timer range, and clamping an
  already clamped delay changes nothing.
\<close>

theorem clampTimerTimeoutMs_range:
  assumes "clampTimerTimeoutMs v mn = Some r"
  shows "1 \<le> r \<and> r \<le> MAX_TIMER_TIMEOUT_MS \<and> clampTimerTimeoutMs (int_val r) mn = Some r"
proof -
  from assms obtain q where q: "v = VNum (JFin q)"
    and r: "r = min (max \<lfloor>q\<rfloor> (max 1 \<lfloor>mn\<rfloor>)) MAX_TIMER_TIMEOUT_MS"
    by (auto simp: clampTimerTimeoutMs_def Let_def asFiniteNumber_Some split: option.splits)
  define k where "k = max 1 \<lfloor>mn\<rfloor>"
  have "1 \<le> r" "r \<le> MAX_TIMER_TIMEOUT_MS" and again: "min (max r k) MAX_TIMER_TIMEOUT_MS = r"
    unfolding r k_def [symmetric] by (auto simp: MAX_TIMER_TIMEOUT_MS_def k_def)
  from this(1,2) again show ?thesis by (simp add: clampTimerTimeoutMs_def k_def)
qed

theorem clampTimerTimeoutMs_range_witness:
  "clampTimerTimeoutMs (VNum (JFin (5 / 2))) 1 = Some 2 \<and>
   clampTimerTimeoutMs (int_val 2) 1 = Some 2"
proof -
  have h: "clampTimerTimeoutMs (VNum (JFin (5 / 2))) 1 = Some 2"
    by (simp add: clampTimerTimeoutMs_def MAX_TIMER_TIMEOUT_MS_def floor_unique)
  show ?thesis using h clampTimerTimeoutMs_range [OF h] by simp
qed

text \<open>
  An expiration instant computed from a duration is a safe whole millisecond that a
  JavaScript date can represent; without a buffer it lies strictly after the clock reading, by
  the whole duration and by at least the requested remaining time when that instant is itself
  representable.
\<close>

theorem resolveExpiresAt_sound:
  assumes "resolveExpiresAtMsFromDurationMs v opts clock = Some e"
    and "eo_nowMs opts = None" and "eo_bufferMs opts = None"
  shows "is_safe_integer e \<and> \<bar>e\<bar> \<le> of_int MAX_DATE_TIMESTAMP_MS
    \<and> (\<exists>d > 0. asPositiveSafeInteger v = Some d \<and> of_int (clock + d) \<le> e)
    \<and> of_int clock < e"
proof -
  from assms obtain d where d: "asPositiveSafeInteger v = Some d"
    by (auto simp: resolveExpiresAtMsFromDurationMs_def split: option.splits)
  then have pos: "d > 0"
    by (cases v rule: asPositiveSafeInteger.cases)
      (auto simp: is_safe_integer_def split: if_splits)
  have e: "is_safe_integer e \<and> has_iso e \<and> of_int (clock + d) \<le> e"
    using assms d
    by (auto simp: resolveExpiresAtMsFromDurationMs_def Let_def asDateTimestampMs_Some max_def
        split: option.splits jsnum.splits if_splits)
  with d pos show ?thesis by (auto simp: has_iso_iff)
qed

theorem resolveExpiresAt_sound_witness:
  "resolveExpiresAtMsFromDurationMs (int_val 500)
     \<lparr>eo_nowMs = None, eo_bufferMs = None, eo_minRemainingMs = None\<rparr> 1000 = Some 1500
   \<and> (1000::rat) < 1500"
proof -
  have h: "resolveExpiresAtMsFromDurationMs (int_val 500)
     \<lparr>eo_nowMs = None, eo_bufferMs = None, eo_minRemainingMs = None\<rparr> 1000 = Some 1500"
    by (simp add: resolveExpiresAtMsFromDurationMs_def is_safe_integer_def MAX_SAFE_def has_iso_def
        asDateTimestampMs_def asFiniteNumberInRange_def MAX_DATE_TIMESTAMP_MS_def)
  show ?thesis using h resolveExpiresAt_sound [OF h] by simp
qed

end
