(* ===== verification/StringCoerce.thy ===== *)
theory StringCoerce
  imports NumberCoercion
begin

text \<open>
  \<^verbatim>\<open>packages/normalization-core/src/string-coerce.ts\<close>: the normalisers for optional strings, flags and
  thread ids. Values are \<open>jsval\<close>s; booleans, which only the fast-mode parser reads, and the
  objects of \<^verbatim>\<open>resolvePrimaryStringValue\<close> have a datatype of their own.
\<close>

section \<open>Operations\<close>

fun readStringValue :: "jsval \<Rightarrow> string option" where
  "readStringValue (VStr s) = Some s"
| "readStringValue _ = None"

fun normalizeNullableString :: "jsval \<Rightarrow> string option" where
  "normalizeNullableString (VStr s) = (let t = js_trim s in if t \<noteq> [] then Some t else None)"
| "normalizeNullableString _ = None"

definition normalizeOptionalString :: "jsval \<Rightarrow> string option" where
  "normalizeOptionalString v = normalizeNullableString v"

definition opt_string :: "string option \<Rightarrow> jsval" where
  "opt_string s = (case s of Some x \<Rightarrow> VStr x | None \<Rightarrow> VOther)"

text \<open>\<^verbatim>\<open>toLowerCase\<close> on the characters of \<open>char\<close>.\<close>

definition js_lower :: "char \<Rightarrow> char" where
  "js_lower c =
     (let n = of_char c :: nat in
      if 65 \<le> n \<and> n \<le> 90 \<or> 192 \<le> n \<and> n \<le> 222 \<and> n \<noteq> 215 then char_of (n + 32) else c)"

definition toLowerCase :: "string \<Rightarrow> string" where
  "toLowerCase s = map js_lower s"

definition normalizeOptionalLowercaseString :: "jsval \<Rightarrow> string option" where
  "normalizeOptionalLowercaseString v = map_option toLowerCase (normalizeOptionalString v)"

definition normalizeLowercaseStringOrEmpty :: "jsval \<Rightarrow> string" where
  "normalizeLowercaseStringOrEmpty v =
     (case normalizeOptionalLowercaseString v of Some s \<Rightarrow> s | None \<Rightarrow> [])"

datatype fast_mode = FastBool bool | FastAuto

datatype raw_flag = FlagBool bool | FlagValue jsval

definition normalizeFastMode :: "raw_flag \<Rightarrow> fast_mode option" where
  "normalizeFastMode raw =
     (case raw of
        FlagBool b \<Rightarrow> Some (FastBool b)
      | FlagValue v \<Rightarrow>
          let key = normalizeLowercaseStringOrEmpty v in
          if key \<in> {''off'', ''false'', ''no'', ''0'', ''disable'', ''disabled'', ''normal''}
          then Some (FastBool False)
          else if key \<in> {''on'', ''true'', ''yes'', ''1'', ''enable'', ''enabled'', ''fast''}
          then Some (FastBool True)
          else if key \<in> {''auto'', ''automatic''} then Some FastAuto
          else None)"

datatype primary_value = PlainValue jsval | PrimaryObject jsval

fun resolvePrimaryStringValue :: "primary_value \<Rightarrow> string option" where
  "resolvePrimaryStringValue (PlainValue (VStr s)) = normalizeOptionalString (VStr s)"
| "resolvePrimaryStringValue (PlainValue _) = None"
| "resolvePrimaryStringValue (PrimaryObject p) = normalizeOptionalString p"

fun normalizeOptionalThreadValue :: "jsval \<Rightarrow> (int + string) option" where
  "normalizeOptionalThreadValue (VNum (JFin q)) = Some (Inl (js_trunc q))"
| "normalizeOptionalThreadValue (VNum _) = None"
| "normalizeOptionalThreadValue v = map_option Inr (normalizeOptionalString v)"

definition hasNonEmptyString :: "jsval \<Rightarrow> bool" where
  "hasNonEmptyString v \<longleftrightarrow> normalizeOptionalString v \<noteq> None"

section \<open>Lemmas\<close>

lemma dropWhile_last:
  "xs \<noteq> [] \<Longrightarrow> \<not> P (last xs) \<Longrightarrow> dropWhile P xs \<noteq> [] \<and> last (dropWhile P xs) = last xs"
proof (induction xs)
  case (Cons a xs)
  then show ?case by (cases "xs = []") auto
qed simp

lemma dropWhile_id: "xs = [] \<or> \<not> P (hd xs) \<Longrightarrow> dropWhile P xs = xs"
  by (cases xs) auto

lemma js_trim_ends:
  "js_trim s = [] \<or> \<not> is_js_space (hd (js_trim s)) \<and> \<not> is_js_space (last (js_trim s))"
proof (cases "dropWhile is_js_space s = []")
  case False
  let ?d = "dropWhile is_js_space s"
  have "\<not> is_js_space (last (rev ?d))" using False hd_dropWhile [OF False] by (simp add: last_rev)
  from dropWhile_last [of _ is_js_space, OF _ this] False
  have r: "dropWhile is_js_space (rev ?d) \<noteq> []" "last (dropWhile is_js_space (rev ?d)) = hd ?d"
    by (auto simp: last_rev)
  with hd_dropWhile [OF r(1)] hd_dropWhile [OF False] show ?thesis
    by (simp add: js_trim_def hd_rev last_rev)
qed (simp only: js_trim_def rev.simps dropWhile.simps simp_thms)

lemma js_trim_idem [simp]: "js_trim (js_trim s) = js_trim s"
  using js_trim_ends [of s] dropWhile_id [of "js_trim s" is_js_space]
    dropWhile_id [of "rev (js_trim s)" is_js_space]
  by (auto simp: js_trim_def [of "js_trim s"] hd_rev)

text \<open>A normalised string is its own normal form, and is never empty.\<close>

lemma normalized_fixed:
  "normalizeOptionalString v = Some s \<Longrightarrow> normalizeOptionalString (VStr s) = Some s \<and> s \<noteq> []"
  by (cases v) (auto simp: normalizeOptionalString_def Let_def split: if_splits)

end
