(* ===== verification/StringLists.thy ===== *)
theory StringLists
  imports StringCoerce "HOL-Library.List_Lexorder" "HOL-Library.Char_ord"
begin

text \<open>
  \<^verbatim>\<open>packages/normalization-core/src/string-normalization.ts\<close>: lists of strings that come from a
  configuration. An entry of such a list is modelled by its text \<^verbatim>\<open>String(entry)\<close>: every reader of
  an entry takes that text first. Two strings compare by their character codes, which is the
  lexicographic order of the library. The slug functions (Unicode classes and normal forms) are left out.
\<close>

section \<open>Operations\<close>

definition normalizeStringEntries :: "string list \<Rightarrow> string list" where
  "normalizeStringEntries xs =
     filter (\<lambda>s. s \<noteq> [])
       (map (\<lambda>entry. case normalizeOptionalString (VStr entry) of Some s \<Rightarrow> s | None \<Rightarrow> []) xs)"

definition normalizeStringEntriesLower :: "string list \<Rightarrow> string list" where
  "normalizeStringEntriesLower xs =
     map (\<lambda>entry. case normalizeOptionalLowercaseString (VStr entry) of Some s \<Rightarrow> s | None \<Rightarrow> [])
       (normalizeStringEntries xs)"

text \<open>A \<^verbatim>\<open>Set\<close> keeps the first occurrence of a value, in the order of insertion.\<close>

definition addUnique :: "'a \<Rightarrow> 'a list \<Rightarrow> 'a list" where
  "addUnique x acc = (if x \<in> set acc then acc else acc @ [x])"

definition uniqueValues :: "'a list \<Rightarrow> 'a list" where
  "uniqueValues xs = fold addUnique xs []"

definition uniqueStrings :: "string list \<Rightarrow> string list" where
  "uniqueStrings xs = uniqueValues xs"

definition compareStrings :: "string \<Rightarrow> string \<Rightarrow> rat" where
  "compareStrings left right = (if left < right then - 1 else if left > right then 1 else 0)"

definition sortUniqueStrings :: "string list \<Rightarrow> string list" where
  "sortUniqueStrings xs = toSorted compareStrings (uniqueStrings xs)"

definition normalizeUniqueStringEntries :: "string list \<Rightarrow> string list" where
  "normalizeUniqueStringEntries xs = uniqueStrings (normalizeStringEntries xs)"

definition normalizeUniqueStringEntriesLower :: "string list \<Rightarrow> string list" where
  "normalizeUniqueStringEntriesLower xs =
     uniqueStrings (filter (\<lambda>s. s \<noteq> []) (normalizeStringEntriesLower xs))"

definition normalizeSortedUniqueStringEntries :: "string list \<Rightarrow> string list" where
  "normalizeSortedUniqueStringEntries xs = sortUniqueStrings (normalizeUniqueStringEntries xs)"

text \<open>A value that may be an array or a single value.\<close>

datatype loose_value = LooseArray "jsval list" | LooseValue jsval

definition trimmedEntry :: "jsval \<Rightarrow> string list" where
  "trimmedEntry entry = (case normalizeOptionalString entry of Some s \<Rightarrow> [s] | None \<Rightarrow> [])"

fun normalizeTrimmedStringList :: "loose_value \<Rightarrow> string list" where
  "normalizeTrimmedStringList (LooseArray es) = concat (map trimmedEntry es)"
| "normalizeTrimmedStringList (LooseValue _) = []"

definition normalizeUniqueTrimmedStringList :: "loose_value \<Rightarrow> string list" where
  "normalizeUniqueTrimmedStringList v = uniqueStrings (normalizeTrimmedStringList v)"

definition normalizeSortedUniqueTrimmedStringList :: "loose_value \<Rightarrow> string list" where
  "normalizeSortedUniqueTrimmedStringList v = sortUniqueStrings (normalizeTrimmedStringList v)"

definition normalizeOptionalTrimmedStringList :: "loose_value \<Rightarrow> string list option" where
  "normalizeOptionalTrimmedStringList v =
     (let normalized = normalizeTrimmedStringList v in
      if length normalized > 0 then Some normalized else None)"

fun normalizeArrayBackedTrimmedStringList :: "loose_value \<Rightarrow> string list option" where
  "normalizeArrayBackedTrimmedStringList (LooseArray es) = Some (normalizeTrimmedStringList (LooseArray es))"
| "normalizeArrayBackedTrimmedStringList (LooseValue _) = None"

fun normalizeSingleOrTrimmedStringList :: "loose_value \<Rightarrow> string list" where
  "normalizeSingleOrTrimmedStringList (LooseArray es) = normalizeTrimmedStringList (LooseArray es)"
| "normalizeSingleOrTrimmedStringList (LooseValue v) = trimmedEntry v"

definition normalizeUniqueSingleOrTrimmedStringList :: "loose_value \<Rightarrow> string list" where
  "normalizeUniqueSingleOrTrimmedStringList v = uniqueStrings (normalizeSingleOrTrimmedStringList v)"

section \<open>Lemmas\<close>

lemma normalizeStringEntries_eq:
  "normalizeStringEntries xs = filter (\<lambda>s. s \<noteq> []) (map js_trim xs)"
  by (induction xs) (auto simp: normalizeStringEntries_def normalizeOptionalString_def Let_def)

lemma normalizeStringEntries_nil [simp]: "normalizeStringEntries [] = []"
  by (simp add: normalizeStringEntries_eq)

lemma normalizeStringEntries_append [simp]:
  "normalizeStringEntries (xs @ ys) = normalizeStringEntries xs @ normalizeStringEntries ys"
  by (simp add: normalizeStringEntries_eq)

lemma set_normalizeStringEntries:
  "s \<in> set (normalizeStringEntries xs) \<longleftrightarrow> s \<noteq> [] \<and> (\<exists>x \<in> set xs. s = js_trim x)"
  by (auto simp: normalizeStringEntries_eq)

text \<open>Normalising a second time changes nothing, so the lists may be normalised at every layer.\<close>

lemma normalizeStringEntries_idem [simp]:
  "normalizeStringEntries (normalizeStringEntries xs) = normalizeStringEntries xs"
proof (induction xs)
  case (Cons x xs)
  show ?case
  proof (cases "js_trim x = []")
    case True
    then have "normalizeStringEntries (x # xs) = normalizeStringEntries xs"
      by (simp add: normalizeStringEntries_eq)
    then show ?thesis using Cons by simp
  next
    case False
    then have *: "normalizeStringEntries (x # xs) = js_trim x # normalizeStringEntries xs"
      by (simp add: normalizeStringEntries_eq)
    have "normalizeStringEntries (js_trim x # ys) = js_trim x # normalizeStringEntries ys" for ys
      using False by (simp add: normalizeStringEntries_eq)
    then show ?thesis using * Cons by simp
  qed
qed simp

lemma set_addUnique [simp]: "set (addUnique x acc) = insert x (set acc)"
  by (auto simp: addUnique_def)

lemma fold_addUnique:
  "set (fold addUnique xs acc) = set xs \<union> set acc"
  "distinct acc \<Longrightarrow> distinct (fold addUnique xs acc)"
  by (induction xs arbitrary: acc) (auto simp: addUnique_def)

lemma set_uniqueValues [simp]: "set (uniqueValues xs) = set xs"
  by (simp add: uniqueValues_def fold_addUnique)

lemma distinct_uniqueValues [simp]: "distinct (uniqueValues xs)"
  by (simp add: uniqueValues_def fold_addUnique)

lemma set_uniqueStrings [simp]: "set (uniqueStrings xs) = set xs"
  by (simp add: uniqueStrings_def)

lemma uniqueStrings_nil [simp]: "uniqueStrings xs = [] \<longleftrightarrow> xs = []"
  by (metis set_uniqueStrings set_empty)

lemma fold_addUnique_id:
  "distinct xs \<Longrightarrow> set xs \<inter> set acc = {} \<Longrightarrow> fold addUnique xs acc = acc @ xs"
  by (induction xs arbitrary: acc) (auto simp: addUnique_def)

lemma uniqueStrings_id: "distinct xs \<Longrightarrow> uniqueStrings xs = xs"
  by (simp add: uniqueStrings_def uniqueValues_def fold_addUnique_id)

lemma insertItem_insort: "insertItem compareStrings x xs = insort x xs"
  by (induction xs) (auto simp: compareStrings_def)

lemma strings_sort: "toSorted compareStrings xs = sort xs"
  by (induction xs) (simp_all add: toSorted_def sort_key_def insertItem_insort)

lemma insertItem_distinct:
  "distinct xs \<Longrightarrow> x \<notin> set xs \<Longrightarrow> distinct (insertItem cmp x xs)"
  by (induction xs) (auto simp: insertItem_set)

lemma toSorted_strings: "sorted (toSorted compareStrings xs)"
  by (simp add: strings_sort)

lemma toSorted_distinct: "distinct xs \<Longrightarrow> distinct (toSorted cmp xs)"
proof (induction xs)
  case (Cons x xs)
  then show ?case
    using toSorted_set [of cmp xs] by (simp add: toSorted_def insertItem_distinct)
qed (simp add: toSorted_def)

text \<open>
  The sorted unique list is the one strictly increasing list of the values: two callers that name the same
  strings, in any order and with any repetition, get the same list.
\<close>

lemma sortUniqueStrings_spec:
  "sorted (sortUniqueStrings xs) \<and> distinct (sortUniqueStrings xs) \<and> set (sortUniqueStrings xs) = set xs"
  by (simp add: sortUniqueStrings_def toSorted_strings toSorted_distinct toSorted_set uniqueStrings_def)

lemma sortUniqueStrings_canonical:
  "set xs = set ys \<Longrightarrow> sortUniqueStrings xs = sortUniqueStrings ys"
  using sortUniqueStrings_spec [of xs] sortUniqueStrings_spec [of ys]
  by (simp add: sorted_distinct_set_unique)

end
