(* ===== verification/MergePatch.thy ===== *)
theory MergePatch
  imports Prelude
begin

text \<open>
  \<^verbatim>\<open>src/config/merge-patch.ts\<close>: the RFC 7396 style patch the gateway applies to its configuration,
  with its guard against prototype keys and its merge of id-keyed arrays. A JavaScript object made
  of JSON data is a map from its own keys; the iteration order is the order of insertion (the
  runtime moves integer-like keys to the front, which no result below depends on as a map). The
  path of an object is a string that is empty at the root, where the code has \<^verbatim>\<open>undefined\<close>: the code
  tests its truth only.
\<close>

section \<open>JSON data\<close>

datatype json =
    JNull
  | JBool bool
  | JNum jsnum
  | JStr string
  | JArr "json list"
  | JObj "(string \<times> json) list"

fun isPlainObject :: "json \<Rightarrow> bool" where
  "isPlainObject (JObj m) = True"
| "isPlainObject _ = False"

definition isBlockedObjectKey :: "string \<Rightarrow> bool" where
  "isBlockedObjectKey key \<longleftrightarrow> key \<in> {''__proto__'', ''prototype'', ''constructor''}"

section \<open>Merge patch\<close>

record merge_options =
  mergeObjectArraysById :: bool
  replaceArrayPaths :: "string list"

fun stringId :: "json \<Rightarrow> string option" where
  "stringId (JObj m) =
     (case jm_get m ''id'' of
        Some (JStr s) \<Rightarrow> if s = [] then None else Some s
      | _ \<Rightarrow> None)"
| "stringId _ = None"

definition isObjectWithStringId :: "json \<Rightarrow> bool" where
  "isObjectWithStringId v \<longleftrightarrow> stringId v \<noteq> None"

definition formatMergePatchPath :: "string \<Rightarrow> string \<Rightarrow> string" where
  "formatMergePatchPath parentPath key = (if parentPath \<noteq> [] then parentPath @ ''.'' @ key else key)"

definition formatMergePatchArrayEntryPath :: "string \<Rightarrow> string" where
  "formatMergePatchArrayEntryPath arrayPath = arrayPath @ ''[]''"

definition isMergePatchObjectKeyAllowed :: "string \<Rightarrow> string \<Rightarrow> bool" where
  "isMergePatchObjectKeyAllowed key parentPath \<longleftrightarrow>
     \<not> isBlockedObjectKey key \<or>
     parentPath = ''browser.profiles'' \<and> (key = ''constructor'' \<or> key = ''prototype'')"

text \<open>The map from ids to positions built from the base array; a later duplicate wins.\<close>

definition indexIds :: "json list \<Rightarrow> (string, nat) jsmap" where
  "indexIds base = foldl (\<lambda>m (i, e). jm_set (the (stringId e)) i m) [] (zip [0 ..< length base] base)"

definition baseObject :: "json \<Rightarrow> (string \<times> json) list" where
  "baseObject base = (case base of JObj m \<Rightarrow> m | _ \<Rightarrow> [])"

definition jsonArray :: "json \<Rightarrow> json list" where
  "jsonArray v = (case v of JArr xs \<Rightarrow> xs | _ \<Rightarrow> [])"

text \<open>What the body of the loop over a patch object does with one key and the value it has so far.\<close>

datatype merge_action = SkipKey | DeleteKey | ReplaceValue | MergeArrays "json list" | MergeObjects json

definition mergeAction :: "merge_options \<Rightarrow> string \<Rightarrow> json option \<Rightarrow> string \<Rightarrow> json \<Rightarrow> merge_action" where
  "mergeAction opts parent existing key v =
     (if \<not> isMergePatchObjectKeyAllowed key parent then SkipKey
      else if v = JNull then DeleteKey
      else
        case v of
          JArr new \<Rightarrow>
            (case existing of
               Some (JArr old) \<Rightarrow>
                 if mergeObjectArraysById opts \<and>
                    formatMergePatchPath parent key \<notin> set (replaceArrayPaths opts) \<and>
                    list_all isObjectWithStringId old
                 then MergeArrays old else ReplaceValue
             | _ \<Rightarrow> ReplaceValue)
        | JObj _ \<Rightarrow>
            MergeObjects (case existing of Some b \<Rightarrow> if isPlainObject b then b else JObj [] | None \<Rightarrow> JObj [])
        | _ \<Rightarrow> ReplaceValue)"

text \<open>
  The three loops: the patch itself, the entries of a patch object over the result so far, and the
  entries of a patch array over the merged array and the index. The recursion descends the patch.
\<close>

function applyMergePatch :: "merge_options \<Rightarrow> string \<Rightarrow> json \<Rightarrow> json \<Rightarrow> json"
  and mergeEntries :: "merge_options \<Rightarrow> string \<Rightarrow> (string \<times> json) list \<Rightarrow> (string \<times> json) list \<Rightarrow> (string \<times> json) list"
  and mergeArrayEntries :: "merge_options \<Rightarrow> string \<Rightarrow> json list \<Rightarrow> (string, nat) jsmap \<Rightarrow> json list \<Rightarrow> json list"
where
  "applyMergePatch opts parent base patch =
     (if isPlainObject patch then JObj (mergeEntries opts parent (baseObject base) (baseObject patch)) else patch)"
| "mergeEntries opts parent result [] = result"
| "mergeEntries opts parent result ((key, v) # entries) =
     mergeEntries opts parent
       (case mergeAction opts parent (jm_get result key) key v of
          SkipKey \<Rightarrow> result
        | DeleteKey \<Rightarrow> jm_del key result
        | ReplaceValue \<Rightarrow> jm_set key v result
        | MergeArrays old \<Rightarrow>
            jm_set key (JArr (mergeArrayEntries opts (formatMergePatchPath parent key) old (indexIds old) (jsonArray v))) result
        | MergeObjects b \<Rightarrow> jm_set key (applyMergePatch opts (formatMergePatchPath parent key) b v) result)
       entries"
| "mergeArrayEntries opts arrayPath merged ids [] = merged"
| "mergeArrayEntries opts arrayPath merged ids (e # es) =
     (case stringId e of
        None \<Rightarrow> mergeArrayEntries opts arrayPath (merged @ [e]) ids es
      | Some i \<Rightarrow>
          (case jm_get ids i of
             None \<Rightarrow> mergeArrayEntries opts arrayPath (merged @ [e]) (jm_set i (length merged) ids) es
           | Some j \<Rightarrow>
               mergeArrayEntries opts arrayPath
                 (merged[j := applyMergePatch opts (formatMergePatchArrayEntryPath arrayPath) (merged ! j) e]) ids es))"
  by pat_completeness auto

lemma object_smaller: "isPlainObject v \<Longrightarrow> size_list (size_prod (\<lambda>_. 0) size) (baseObject v) < size v"
  by (cases v) (simp_all add: baseObject_def)

lemma array_smaller: "size_list size (jsonArray v) \<le> size v"
  by (cases v) (simp_all add: jsonArray_def)

lemma array_smaller': "size_list size (jsonArray v) < Suc (Suc (size v + n))"
  using array_smaller [of v] by simp

termination applyMergePatch
  by (relation "measure (\<lambda>x. case x of
        Inl (_, _, _, patch) \<Rightarrow> size patch
      | Inr (Inl (_, _, _, entries)) \<Rightarrow> size_list (size_prod (\<lambda>_. 0) size) entries
      | Inr (Inr (_, _, _, _, es)) \<Rightarrow> size_list size es)")
    (simp_all add: object_smaller array_smaller')

declare applyMergePatch.simps [simp del] mergeEntries.simps(2) [simp del] mergeArrayEntries.simps(2) [simp del]

section \<open>The result as a map\<close>

declare map_of_eq_Some_iff [simp del] Some_eq_map_of_iff [simp del]

definition mergedValue :: "merge_options \<Rightarrow> string \<Rightarrow> json option \<Rightarrow> string \<Rightarrow> json \<Rightarrow> json option" where
  "mergedValue opts parent existing key v =
     (case mergeAction opts parent existing key v of
        SkipKey \<Rightarrow> existing
      | DeleteKey \<Rightarrow> None
      | ReplaceValue \<Rightarrow> Some v
      | MergeArrays old \<Rightarrow>
          Some (JArr (mergeArrayEntries opts (formatMergePatchPath parent key) old (indexIds old) (jsonArray v)))
      | MergeObjects b \<Rightarrow> Some (applyMergePatch opts (formatMergePatchPath parent key) b v))"

definition set_or_del :: "string \<Rightarrow> json option \<Rightarrow> (string \<times> json) list \<Rightarrow> (string \<times> json) list" where
  "set_or_del key v m = (case v of Some x \<Rightarrow> jm_set key x m | None \<Rightarrow> jm_del key m)"

lemma get_set_or_del [simp]: "jm_get (set_or_del k v m) k' = (if k' = k then v else jm_get m k')"
  by (simp add: set_or_del_def split: option.split)

lemma jm_set_same: "jm_get m k = Some v \<Longrightarrow> jm_set k v m = m"
  by (induction m) (auto split: if_splits)

lemma jm_del_absent: "jm_get m k = None \<Longrightarrow> jm_del k m = m"
  by (simp add: map_of_eq_None_iff delete_idem)

lemma set_or_del_same [simp]: "set_or_del k (jm_get m k) m = m"
  by (simp add: set_or_del_def jm_set_same jm_del_absent split: option.split)

lemma mergeEntries_Cons:
  "mergeEntries opts parent m ((k, v) # es) =
     mergeEntries opts parent (set_or_del k (mergedValue opts parent (jm_get m k) k v) m) es"
  by (simp add: mergeEntries.simps(2) mergedValue_def split: merge_action.split)
    (simp add: set_or_del_def)

lemma merge_lookup:
  "jm_wf es \<Longrightarrow> jm_get (mergeEntries opts parent m es) k =
     (case jm_get es k of None \<Rightarrow> jm_get m k | Some v \<Rightarrow> mergedValue opts parent (jm_get m k) k v)"
proof (induction es arbitrary: m)
  case (Cons e es)
  obtain a v where e: "e = (a, v)" by (cases e)
  with Cons.prems have "jm_get es a = None" by (simp add: map_of_eq_None_iff)
  with Cons e show ?case by (simp add: mergeEntries_Cons split: option.split)
qed simp

section \<open>The standard\<close>

text \<open>RFC 7396, section 2: the reference algorithm, over objects as maps.\<close>

function rfcMerge :: "json \<Rightarrow> json \<Rightarrow> json"
  and rfcEntries :: "(string \<times> json) list \<Rightarrow> (string \<times> json) list \<Rightarrow> (string \<times> json) list"
where
  "rfcMerge target patch =
     (if isPlainObject patch
      then JObj (rfcEntries (if isPlainObject target then baseObject target else []) (baseObject patch))
      else patch)"
| "rfcEntries m [] = m"
| "rfcEntries m ((k, v) # es) =
     rfcEntries (if v = JNull then jm_del k m
                 else jm_set k (rfcMerge (case jm_get m k of Some t \<Rightarrow> t | None \<Rightarrow> JNull) v) m) es"
  by pat_completeness auto
termination
  by (relation "measure (\<lambda>x. case x of
        Inl (_, patch) \<Rightarrow> size patch
      | Inr (_, entries) \<Rightarrow> size_list (size_prod (\<lambda>_. 0) size) entries)")
    (simp_all add: object_smaller)

declare rfcMerge.simps [simp del]

text \<open>A patch without the keys the guard ignores, at whatever depth of nested objects.\<close>

fun stripBlocked :: "string \<Rightarrow> json \<Rightarrow> json"
  and stripEntries :: "string \<Rightarrow> (string \<times> json) list \<Rightarrow> (string \<times> json) list"
where
  "stripBlocked path (JObj m) = JObj (stripEntries path m)"
| "stripBlocked path v = v"
| "stripEntries path [] = []"
| "stripEntries path ((k, v) # es) =
     (if isMergePatchObjectKeyAllowed k path
      then (k, stripBlocked (formatMergePatchPath path k) v) # stripEntries path es
      else stripEntries path es)"

definition rfc_options :: "string list \<Rightarrow> merge_options" where
  "rfc_options ps = \<lparr>mergeObjectArraysById = False, replaceArrayPaths = ps\<rparr>"

lemma strip_simps [simp]:
  "isPlainObject (stripBlocked path v) = isPlainObject v"
  "baseObject (stripBlocked path v) = stripEntries path (baseObject v)"
  "stripBlocked path v = JNull \<longleftrightarrow> v = JNull"
  by (cases v; simp add: baseObject_def)+

lemma strip_atom: "\<not> isPlainObject v \<Longrightarrow> stripBlocked path v = v"
  by (cases v) auto

lemma baseObject_or_empty [simp]:
  "(if isPlainObject b then baseObject b else []) = baseObject b"
  by (cases b) (simp_all add: baseObject_def)

lemma rfc_target: "rfcMerge (if isPlainObject t then t else JObj []) v = rfcMerge t v"
  by (cases t) (simp_all add: rfcMerge.simps baseObject_def)

lemma rfc_action:
  "mergeAction (rfc_options ps) path existing k v =
     (if \<not> isMergePatchObjectKeyAllowed k path then SkipKey
      else if v = JNull then DeleteKey
      else if isPlainObject v
      then MergeObjects (case existing of Some b \<Rightarrow> if isPlainObject b then b else JObj [] | None \<Rightarrow> JObj [])
      else ReplaceValue)"
  by (cases v) (auto simp: mergeAction_def rfc_options_def split: option.split json.split)

lemma merge_is_rfc:
  "applyMergePatch (rfc_options ps) path base patch = rfcMerge base (stripBlocked path patch)"
  "mergeEntries (rfc_options ps) path m es = rfcEntries m (stripEntries path es)"
  "mergeArrayEntries opts a b c d = mergeArrayEntries opts a b c d"
proof (induction "rfc_options ps" path base patch and "rfc_options ps" path m es and opts a b c d
    rule: applyMergePatch_mergeEntries_mergeArrayEntries.induct)
  case (1 path base patch)
  then show ?case by (simp add: applyMergePatch.simps [of _ path base] rfcMerge.simps strip_atom)
next
  case (3 path result key v entries)
  let ?p = "formatMergePatchPath path key" and ?t = "case jm_get result key of Some t \<Rightarrow> t | None \<Rightarrow> JNull"
  show ?case
  proof (cases "isMergePatchObjectKeyAllowed key path \<and> isPlainObject v")
    case True
    have t: "(case jm_get result key of Some b \<Rightarrow> if isPlainObject b then b else JObj [] | None \<Rightarrow> JObj []) =
        (if isPlainObject ?t then ?t else JObj [])"
      by (auto split: option.split)
    from True have "v \<noteq> JNull" by auto
    with True 3 show ?thesis
      by (simp add: mergeEntries.simps(2) rfc_action t rfc_target)
  next
    case False
    with 3 show ?thesis
      by (simp add: mergeEntries.simps(2) rfc_action rfcMerge.simps [of ?t v] strip_atom)
  qed
qed auto

text \<open>
  C32. Without the merging of id-keyed arrays, the patch routine computes exactly what the
  algorithm of RFC 7396 computes on the patch stripped of the prototype keys its guard ignores, for
  every base, every patch and every path, and whatever array paths are marked for replacement.
\<close>

theorem applyMergePatch_is_rfc7396:
  "applyMergePatch (rfc_options ps) path base patch = rfcMerge base (stripBlocked path patch)"
  by (rule merge_is_rfc(1))

section \<open>Prototype keys\<close>

text \<open>Every key of the object, and of the objects nested in it, is allowed where it stands.\<close>

fun keys_safe :: "string \<Rightarrow> json \<Rightarrow> bool"
  and entries_safe :: "string \<Rightarrow> (string \<times> json) list \<Rightarrow> bool"
where
  "keys_safe path (JObj m) = entries_safe path m"
| "keys_safe path v = True"
| "entries_safe path [] = True"
| "entries_safe path ((k, v) # es) \<longleftrightarrow>
     isMergePatchObjectKeyAllowed k path \<and> keys_safe (formatMergePatchPath path k) v \<and> entries_safe path es"

lemma keys_safe_baseObject: "keys_safe path b \<Longrightarrow> entries_safe path (baseObject b)"
  by (cases b) (simp_all add: baseObject_def)

lemma keys_safe_atom: "\<not> isPlainObject v \<Longrightarrow> keys_safe path v"
  by (cases v) auto

lemma entries_safe_set:
  "entries_safe path m \<Longrightarrow> isMergePatchObjectKeyAllowed k path \<Longrightarrow> keys_safe (formatMergePatchPath path k) v \<Longrightarrow>
     entries_safe path (jm_set k v m)"
  by (induction m) auto

lemma entries_safe_del: "entries_safe path m \<Longrightarrow> entries_safe path (jm_del k m)"
  by (induction m) auto

lemma entries_safe_get:
  "entries_safe path m \<Longrightarrow> jm_get m k = Some v \<Longrightarrow> keys_safe (formatMergePatchPath path k) v"
  by (induction m) (auto split: if_splits)

lemma merge_safe:
  "keys_safe path base \<Longrightarrow> keys_safe path (applyMergePatch opts path base patch)"
  "entries_safe path m \<Longrightarrow> entries_safe path (mergeEntries opts path m es)"
  "mergeArrayEntries opts a b c d = mergeArrayEntries opts a b c d"
proof (induction opts path base patch and opts path m es and opts a b c d
    rule: applyMergePatch_mergeEntries_mergeArrayEntries.induct)
  case (1 opts path base patch)
  then show ?case
    by (simp add: applyMergePatch.simps [of opts path base] keys_safe_baseObject keys_safe_atom)
next
  case (3 opts path result key v entries)
  let ?p = "formatMergePatchPath path key"
  let ?r = "case mergeAction opts path (jm_get result key) key v of
          SkipKey \<Rightarrow> result
        | DeleteKey \<Rightarrow> jm_del key result
        | ReplaceValue \<Rightarrow> jm_set key v result
        | MergeArrays old \<Rightarrow>
            jm_set key (JArr (mergeArrayEntries opts ?p old (indexIds old) (jsonArray v))) result
        | MergeObjects b \<Rightarrow> jm_set key (applyMergePatch opts ?p b v) result"
  have "entries_safe path ?r"
  proof (cases "mergeAction opts path (jm_get result key) key v")
    case SkipKey
    with 3 show ?thesis by simp
  next
    case DeleteKey
    with 3 show ?thesis by (simp add: entries_safe_del)
  next
    case ReplaceValue
    then have "isMergePatchObjectKeyAllowed key path" "\<not> isPlainObject v"
      by (auto simp: mergeAction_def split: if_splits json.splits)
    with ReplaceValue 3 show ?thesis by (simp add: entries_safe_set keys_safe_atom)
  next
    case (MergeArrays old)
    then have "isMergePatchObjectKeyAllowed key path" by (auto simp: mergeAction_def split: if_splits)
    with MergeArrays 3 show ?thesis by (simp add: entries_safe_set)
  next
    case (MergeObjects b)
    then have ok: "isMergePatchObjectKeyAllowed key path" by (auto simp: mergeAction_def split: if_splits)
    have "keys_safe ?p b" using MergeObjects entries_safe_get [OF 3(4)]
      by (auto simp: mergeAction_def split: if_splits json.splits option.splits)
    with ok MergeObjects 3 show ?thesis by (simp add: entries_safe_set)
  qed
  with 3 show ?case by (simp add: mergeEntries.simps(2))
qed auto

text \<open>
  The guard stops at arrays, so the keys inside them are a second matter: \<^verbatim>\<open>deep_safe\<close> looks into
  arrays as well, at the path the code gives their entries, and \<^verbatim>\<open>arrays_safe\<close> says it of the
  arrays of a patch the guard lets in.
\<close>

fun deep_safe :: "string \<Rightarrow> json \<Rightarrow> bool"
  and deep_entries :: "string \<Rightarrow> (string \<times> json) list \<Rightarrow> bool"
  and deep_items :: "string \<Rightarrow> json list \<Rightarrow> bool"
where
  "deep_safe path (JObj m) = deep_entries path m"
| "deep_safe path (JArr xs) = deep_items (formatMergePatchArrayEntryPath path) xs"
| "deep_safe path v = True"
| "deep_entries path [] = True"
| "deep_entries path ((k, v) # es) \<longleftrightarrow>
     isMergePatchObjectKeyAllowed k path \<and> deep_safe (formatMergePatchPath path k) v \<and> deep_entries path es"
| "deep_items path [] = True"
| "deep_items path (x # xs) \<longleftrightarrow> deep_safe path x \<and> deep_items path xs"

fun arrays_safe :: "string \<Rightarrow> json \<Rightarrow> bool"
  and arrays_entries :: "string \<Rightarrow> (string \<times> json) list \<Rightarrow> bool"
where
  "arrays_safe path (JObj m) = arrays_entries path m"
| "arrays_safe path v = deep_safe path v"
| "arrays_entries path [] = True"
| "arrays_entries path ((k, v) # es) \<longleftrightarrow>
     (isMergePatchObjectKeyAllowed k path \<longrightarrow> arrays_safe (formatMergePatchPath path k) v) \<and> arrays_entries path es"

lemma deep_is_arrays_safe:
  "deep_safe path v \<Longrightarrow> arrays_safe path v"
  "deep_entries path es \<Longrightarrow> arrays_entries path es"
  by (induction path v and path es rule: arrays_safe_arrays_entries.induct) auto

lemma arrays_safe_plain:
  "isPlainObject v \<Longrightarrow> arrays_safe path v = arrays_entries path (baseObject v)"
  "\<not> isPlainObject v \<Longrightarrow> arrays_safe path v = deep_safe path v"
  by (cases v; simp add: baseObject_def)+

lemma deep_items_all: "deep_items path xs \<longleftrightarrow> (\<forall>x \<in> set xs. deep_safe path x)"
  by (induction xs) auto

lemma deep_items_nth: "deep_items path xs \<Longrightarrow> j < length xs \<Longrightarrow> deep_safe path (xs ! j)"
  by (simp add: deep_items_all)

lemma deep_items_snoc: "deep_items path (xs @ [x]) \<longleftrightarrow> deep_items path xs \<and> deep_safe path x"
  by (auto simp: deep_items_all)

lemma deep_items_update:
  "deep_items path xs \<Longrightarrow> (j < length xs \<Longrightarrow> deep_safe path x) \<Longrightarrow> deep_items path (xs[j := x])"
  by (cases "j < length xs") (auto simp: deep_items_all list_update_beyond dest!: subsetD [OF set_update_subset_insert])

lemma deep_safe_baseObject: "deep_safe path b \<Longrightarrow> deep_entries path (baseObject b)"
  by (cases b) (simp_all add: baseObject_def)

lemma deep_entries_set:
  "deep_entries path m \<Longrightarrow> isMergePatchObjectKeyAllowed k path \<Longrightarrow> deep_safe (formatMergePatchPath path k) v \<Longrightarrow>
     deep_entries path (jm_set k v m)"
  by (induction m) auto

lemma deep_entries_del: "deep_entries path m \<Longrightarrow> deep_entries path (jm_del k m)"
  by (induction m) auto

lemma deep_entries_get:
  "deep_entries path m \<Longrightarrow> jm_get m k = Some v \<Longrightarrow> deep_safe (formatMergePatchPath path k) v"
  by (induction m) (auto split: if_splits)

lemma deep_merged_value:
  assumes existing: "\<And>b. existing = Some b \<Longrightarrow> deep_safe (formatMergePatchPath path key) b"
    and v: "isMergePatchObjectKeyAllowed key path \<Longrightarrow> arrays_safe (formatMergePatchPath path key) v"
    and arrays: "\<And>old. mergeAction opts path existing key v = MergeArrays old \<Longrightarrow>
       deep_items (formatMergePatchArrayEntryPath (formatMergePatchPath path key)) old \<Longrightarrow>
       deep_items (formatMergePatchArrayEntryPath (formatMergePatchPath path key)) (jsonArray v) \<Longrightarrow>
       deep_items (formatMergePatchArrayEntryPath (formatMergePatchPath path key))
         (mergeArrayEntries opts (formatMergePatchPath path key) old (indexIds old) (jsonArray v))"
    and objects: "\<And>b. mergeAction opts path existing key v = MergeObjects b \<Longrightarrow>
       deep_safe (formatMergePatchPath path key) b \<Longrightarrow> arrays_safe (formatMergePatchPath path key) v \<Longrightarrow>
       deep_safe (formatMergePatchPath path key) (applyMergePatch opts (formatMergePatchPath path key) b v)"
    and result: "mergedValue opts path existing key v = Some x"
  shows "deep_safe (formatMergePatchPath path key) x"
proof (cases "mergeAction opts path existing key v")
  case SkipKey
  with result existing show ?thesis by (simp add: mergedValue_def)
next
  case DeleteKey
  with result show ?thesis by (simp add: mergedValue_def)
next
  case ReplaceValue
  then have "isMergePatchObjectKeyAllowed key path" "\<not> isPlainObject v"
    by (auto simp: mergeAction_def split: if_splits json.splits)
  with ReplaceValue v result show ?thesis by (simp add: mergedValue_def arrays_safe_plain)
next
  case (MergeArrays old)
  then have *: "isMergePatchObjectKeyAllowed key path" "existing = Some (JArr old)" "v = JArr (jsonArray v)"
    by (auto simp: mergeAction_def jsonArray_def split: if_splits json.splits option.splits)
  from v [OF *(1)] *(3) have "deep_items (formatMergePatchArrayEntryPath (formatMergePatchPath path key)) (jsonArray v)"
    by (metis arrays_safe.simps(6) deep_safe.simps(2))
  with MergeArrays arrays existing [OF *(2)] result show ?thesis by (simp add: mergedValue_def) (auto)
next
  case (MergeObjects b)
  then have *: "isMergePatchObjectKeyAllowed key path" by (auto simp: mergeAction_def split: if_splits)
  have "deep_safe (formatMergePatchPath path key) b" using MergeObjects existing
    by (auto simp: mergeAction_def split: if_splits json.splits option.splits)
  with MergeObjects objects v * result show ?thesis by (simp add: mergedValue_def)
qed

lemma merge_deep_safe:
  "deep_safe path base \<Longrightarrow> arrays_safe path patch \<Longrightarrow> deep_safe path (applyMergePatch opts path base patch)"
  "deep_entries path m \<Longrightarrow> arrays_entries path es \<Longrightarrow> deep_entries path (mergeEntries opts path m es)"
  "deep_items (formatMergePatchArrayEntryPath arr) merged \<Longrightarrow> deep_items (formatMergePatchArrayEntryPath arr) new \<Longrightarrow>
     deep_items (formatMergePatchArrayEntryPath arr) (mergeArrayEntries opts arr merged ids new)"
proof (induction opts path base patch and opts path m es and opts arr merged ids new
    rule: applyMergePatch_mergeEntries_mergeArrayEntries.induct)
  case (1 opts path base patch)
  then show ?case
    by (cases "isPlainObject patch")
      (simp_all add: applyMergePatch.simps [of opts path base] deep_safe_baseObject arrays_safe_plain)
next
  case (3 opts path result key v entries)
  have new: "deep_safe (formatMergePatchPath path key) x" if "mergedValue opts path (jm_get result key) key v = Some x" for x
  proof (rule deep_merged_value [OF _ _ _ _ that])
    show "deep_safe (formatMergePatchPath path key) b" if "jm_get result key = Some b" for b
      using deep_entries_get [OF 3(4) that] .
  qed (use 3 in simp_all)
  have "deep_entries path (set_or_del key (mergedValue opts path (jm_get result key) key v) result)"
  proof (cases "isMergePatchObjectKeyAllowed key path")
    case True
    with new 3(4) show ?thesis
      by (simp add: set_or_del_def deep_entries_set deep_entries_del split: option.split)
  next
    case False
    with 3(4) show ?thesis by (simp add: mergedValue_def mergeAction_def)
  qed
  with 3 show ?case
    by (simp add: mergeEntries.simps(2) mergedValue_def set_or_del_def split: merge_action.splits option.splits)
next
  case (5 opts arr merged ids e es)
  let ?p = "formatMergePatchArrayEntryPath arr"
  from 5(5,6) have e: "deep_items ?p (merged @ [e])" "deep_safe ?p e" "deep_items ?p es" "arrays_safe ?p e"
    by (simp_all add: deep_items_snoc deep_is_arrays_safe)
  show ?case
  proof (cases "stringId e")
    case None
    with 5(1) e show ?thesis by (simp add: mergeArrayEntries.simps(2))
  next
    case (Some i)
    show ?thesis
    proof (cases "jm_get ids i")
      case None
      with Some 5(2) e show ?thesis by (simp add: mergeArrayEntries.simps(2))
    next
      case j: (Some j)
      have "deep_items ?p (merged[j := applyMergePatch opts ?p (merged ! j) e])"
        using 5(3) [OF Some j] 5(5) e(4) by (intro deep_items_update) (simp_all add: deep_items_nth)
      with Some j 5(4) e(3) show ?thesis by (simp add: mergeArrayEntries.simps(2))
    qed
  qed
qed auto

text \<open>
  C33. Let the object keys of a configuration be safe: no \<^verbatim>\<open>__proto__\<close>, \<^verbatim>\<open>prototype\<close> or
  \<^verbatim>\<open>constructor\<close> at any depth of objects directly nested in objects, except \<^verbatim>\<open>prototype\<close> and
  \<^verbatim>\<open>constructor\<close> as names of browser profiles. Then they stay safe in this sense whatever the patch and the
  options. The guard does not look into arrays, so for the objects inside arrays more is needed: when the
  base is safe inside its arrays too and so are the arrays the patch brings in, the result is safe
  everywhere, inside arrays and entries merged by id included, even if the objects of the patch hold such keys.
\<close>

theorem patch_keeps_keys_safe:
  assumes "keys_safe path base"
  shows "keys_safe path (applyMergePatch opts path base patch) \<and>
    (deep_safe path base \<and> arrays_safe path patch \<longrightarrow> deep_safe path (applyMergePatch opts path base patch))"
  using merge_safe(1) [OF assms] merge_deep_safe(1) by blast

lemma patch_keeps_keys_safe_witness:
  "deep_safe [] (applyMergePatch \<lparr>mergeObjectArraysById = True, replaceArrayPaths = []\<rparr> []
     (JObj [(''list'', JArr [JObj [(''id'', JStr ''x'')]])])
     (JObj [(''__proto__'', JObj []), (''list'', JArr [JObj [(''id'', JStr ''x''), (''n'', JNull)]])]))"
proof -
  let ?b = "JObj [(''list'', JArr [JObj [(''id'', JStr ''x'')]])]"
  let ?p = "JObj [(''__proto__'', JObj []), (''list'', JArr [JObj [(''id'', JStr ''x''), (''n'', JNull)]])]"
  have "keys_safe [] ?b" "deep_safe [] ?b" "arrays_safe [] ?p"
    by (simp_all add: isMergePatchObjectKeyAllowed_def isBlockedObjectKey_def formatMergePatchPath_def)
  then show ?thesis using patch_keeps_keys_safe [of "[]" ?b _ ?p] by blast
qed

text \<open>
  The hypothesis on the arrays of the patch is needed: an entry of a new array keeps such a key. So the
  result is safe in the first sense only.
\<close>

lemma array_entries_unguarded:
  "applyMergePatch opts [] (JObj []) (JObj [(''a'', JArr [JObj [(''__proto__'', JObj [])]])]) =
     JObj [(''a'', JArr [JObj [(''__proto__'', JObj [])]])]"
  by (simp add: applyMergePatch.simps mergeEntries.simps(2) mergeAction_def baseObject_def
      isMergePatchObjectKeyAllowed_def isBlockedObjectKey_def)

section \<open>Arrays of entries with ids\<close>

definition ids_of :: "json list \<Rightarrow> string list" where
  "ids_of xs = map the (filter (\<lambda>i. i \<noteq> None) (map stringId xs))"

definition index_ok :: "json list \<Rightarrow> (string, nat) jsmap \<Rightarrow> bool" where
  "index_ok xs ids \<longleftrightarrow>
     (\<forall>i j. jm_get ids i = Some j \<longleftrightarrow> j < length xs \<and> stringId (xs ! j) = Some i)"

lemma stringId_merge:
  assumes "stringId e = Some i" and "jm_wf (baseObject e)"
  shows "stringId (applyMergePatch opts p b e) = Some i"
proof -
  obtain m where e: "e = JObj m" using assms(1) by (cases e) auto
  with assms(1) have "jm_get m ''id'' = Some (JStr i)" "i \<noteq> []"
    by (auto split: option.splits json.splits if_splits)
  with assms(2) e show ?thesis
    by (simp add: applyMergePatch.simps baseObject_def merge_lookup mergedValue_def mergeAction_def
        isMergePatchObjectKeyAllowed_def isBlockedObjectKey_def)
qed

lemma ids_of_simps [simp]:
  "ids_of [] = []"
  "ids_of (xs @ ys) = ids_of xs @ ids_of ys"
  "ids_of (x # xs) = (case stringId x of Some i \<Rightarrow> [i] | None \<Rightarrow> []) @ ids_of xs"
  by (simp_all add: ids_of_def split: option.split)

lemma ids_of_nth: "i \<in> set (ids_of xs) \<longleftrightarrow> (\<exists>j < length xs. stringId (xs ! j) = Some i)"
proof -
  have "i \<in> set (ids_of xs) \<longleftrightarrow> Some i \<in> stringId ` set xs"
    by (induction xs) (auto split: option.splits)
  also have "\<dots> \<longleftrightarrow> (\<exists>j < length xs. stringId (xs ! j) = Some i)"
    unfolding image_iff Bex_def in_set_conv_nth by fastforce
  finally show ?thesis .
qed

lemma unique_ids:
  "(\<And>i j k. j < length xs \<Longrightarrow> k < length xs \<Longrightarrow> stringId (xs ! j) = Some i \<Longrightarrow> stringId (xs ! k) = Some i \<Longrightarrow> j = k)
     \<Longrightarrow> distinct (ids_of xs)"
proof (induction xs rule: rev_induct)
  case (snoc x xs)
  have "distinct (ids_of xs)"
  proof (rule snoc.IH)
    fix i j k
    assume "j < length xs" "k < length xs" "stringId (xs ! j) = Some i" "stringId (xs ! k) = Some i"
    with snoc.prems [of j k i] show "j = k" by (simp add: nth_append)
  qed
  moreover have "i \<notin> set (ids_of xs)" if "stringId x = Some i" for i
  proof
    assume "i \<in> set (ids_of xs)"
    then obtain j where "j < length xs" "stringId (xs ! j) = Some i" by (auto simp: ids_of_nth)
    with snoc.prems [of j "length xs" i] that show False by (simp add: nth_append)
  qed
  ultimately show ?case by (simp split: option.split)
qed simp

lemma index_unique: "index_ok xs ids \<Longrightarrow> distinct (ids_of xs)"
proof (rule unique_ids)
  fix i j k
  assume ok: "index_ok xs ids" and "j < length xs" "k < length xs" "stringId (xs ! j) = Some i" "stringId (xs ! k) = Some i"
  then have "jm_get ids i = Some j" "jm_get ids i = Some k" unfolding index_ok_def by blast+
  then show "j = k" by simp
qed

lemma index_initial:
  "list_all isObjectWithStringId xs \<Longrightarrow> distinct (map stringId xs) \<Longrightarrow> index_ok xs (indexIds xs)"
proof (induction xs rule: rev_induct)
  case Nil
  show ?case by (simp add: index_ok_def indexIds_def)
next
  case (snoc x xs)
  then obtain i where i: "stringId x = Some i" by (auto simp: isObjectWithStringId_def)
  have "indexIds (xs @ [x]) = jm_set i (length xs) (indexIds xs)"
    by (simp add: indexIds_def i)
  moreover have "stringId (xs ! j) \<noteq> Some i" if "j < length xs" for j
  proof
    assume "stringId (xs ! j) = Some i"
    then have "stringId x \<in> stringId ` set xs" using that i by (metis image_eqI nth_mem)
    with snoc.prems(2) show False by simp
  qed
  ultimately show ?case using snoc i
    by (auto simp: index_ok_def nth_append less_Suc_eq)
qed

text \<open>What one pass over a patch array keeps.\<close>

lemma merge_array_ids:
  "index_ok merged ids \<Longrightarrow> list_all (\<lambda>e. jm_wf (baseObject e)) es \<Longrightarrow>
     (\<exists>ids'. index_ok (mergeArrayEntries opts p merged ids es) ids') \<and>
     set (ids_of (mergeArrayEntries opts p merged ids es)) = set (ids_of merged) \<union> set (ids_of es) \<and>
     length merged \<le> length (mergeArrayEntries opts p merged ids es) \<and>
     (\<forall>j < length merged. stringId (mergeArrayEntries opts p merged ids es ! j) = stringId (merged ! j))"
proof (induction es arbitrary: merged ids)
  case (Cons e es)
  show ?case
  proof (cases "stringId e")
    case None
    then have "index_ok (merged @ [e]) ids"
      using Cons.prems(1) by (auto simp: index_ok_def nth_append less_Suc_eq)
    with Cons.IH [of "merged @ [e]" ids] Cons.prems(2) None show ?thesis
      by (auto simp: mergeArrayEntries.simps(2) nth_append)
  next
    case (Some i)
    show ?thesis
    proof (cases "jm_get ids i")
      case None
      have "stringId (merged ! j) \<noteq> Some i" if "j < length merged" for j
        using that None Cons.prems(1) unfolding index_ok_def by (metis option.distinct(1))
      then have "index_ok (merged @ [e]) (jm_set i (length merged) ids)"
        using Cons.prems(1) Some by (auto simp: index_ok_def nth_append less_Suc_eq)
      with Cons.IH [of "merged @ [e]" "jm_set i (length merged) ids"] Cons.prems(2) Some None show ?thesis
        by (auto simp: mergeArrayEntries.simps(2) nth_append)
    next
      case j: (Some j)
      let ?v = "applyMergePatch opts (formatMergePatchArrayEntryPath p) (merged ! j) e"
      have at: "j < length merged" "stringId (merged ! j) = Some i"
        using j Cons.prems(1) unfolding index_ok_def by blast+
      have v: "stringId ?v = Some i" using Some Cons.prems(2) by (simp add: stringId_merge)
      have same: "stringId (merged[j := ?v] ! k) = stringId (merged ! k)" if "k < length merged" for k
        using that at v by (cases "k = j") auto
      then have ok: "index_ok (merged[j := ?v]) ids"
        using Cons.prems(1) unfolding index_ok_def by auto
      have "map stringId (merged[j := ?v]) = map stringId merged"
        using at v by (simp add: map_update list_update_same_conv)
      then have ids: "ids_of (merged[j := ?v]) = ids_of merged" "i \<in> set (ids_of merged)"
        using at by (auto simp: ids_of_nth) (simp add: ids_of_def)
      from Cons.IH [OF ok] Cons.prems(2) Some j same ids show ?thesis
        by (auto simp: mergeArrayEntries.simps(2))
    qed
  qed
qed auto

text \<open>
  Patching an id-keyed array is never destructive: every entry keeps its place and its id,
  the entries with a new id come after them, and the result has exactly the ids of the two arrays,
  each once.
\<close>

theorem merge_by_id_keeps_entries:
  assumes "list_all isObjectWithStringId old" and "distinct (map stringId old)"
    and "list_all (\<lambda>e. jm_wf (baseObject e)) new"
    and merged: "merged = mergeArrayEntries opts path old (indexIds old) new"
  shows "map stringId (take (length old) merged) = map stringId old \<and>
    distinct (ids_of merged) \<and> set (ids_of merged) = set (ids_of old) \<union> set (ids_of new)"
proof -
  from merge_array_ids [OF index_initial [OF assms(1,2)] assms(3), of opts path, folded merged]
  obtain ids where r: "index_ok merged ids" "set (ids_of merged) = set (ids_of old) \<union> set (ids_of new)"
    "length old \<le> length merged" "\<forall>j < length old. stringId (merged ! j) = stringId (old ! j)"
    by blast
  have "map stringId (take (length old) merged) = map stringId old"
    using r(3,4) by (intro nth_equalityI) auto
  with r index_unique show ?thesis by blast
qed

definition agent :: "string \<Rightarrow> json \<Rightarrow> json" where
  "agent i v = JObj [(''id'', JStr i), (''model'', v)]"

lemma merge_by_id_keeps_entries_witness:
  "distinct (ids_of (mergeArrayEntries (rfc_options []) ''agents'' [agent ''a'' JNull, agent ''b'' JNull]
     (indexIds [agent ''a'' JNull, agent ''b'' JNull]) [agent ''c'' JNull, agent ''b'' (JStr ''m'')]))"
proof -
  have "list_all isObjectWithStringId [agent ''a'' JNull, agent ''b'' JNull]"
    "distinct (map stringId [agent ''a'' JNull, agent ''b'' JNull])"
    "list_all (\<lambda>e. jm_wf (baseObject e)) [agent ''c'' JNull, agent ''b'' (JStr ''m'')]"
    by (simp_all add: agent_def isObjectWithStringId_def baseObject_def)
  from merge_by_id_keeps_entries [OF this refl] show ?thesis by blast
qed

end
