(* ===== verification/RouteIds.thy ===== *)
theory RouteIds
  imports StringLists MergePatch
begin

text \<open>
  The identifiers that routing compares: account ids (\<^verbatim>\<open>src/routing/account-id.ts\<close>,
  \<^verbatim>\<open>src/routing/account-lookup.ts\<close>), agent ids (\<^verbatim>\<open>packages/normalization-core/src/agent-id.ts\<close>), the kinds
  of a chat (\<^verbatim>\<open>src/channels/chat-type.ts\<close>, \<^verbatim>\<open>src/routing/peer-kind-match.ts\<close>).
\<close>

section \<open>Canonical ids\<close>

definition isIdLower :: "char \<Rightarrow> bool" where
  "isIdLower c =
     (let n = of_char c :: nat in 97 \<le> n \<and> n \<le> 122 \<or> 48 \<le> n \<and> n \<le> 57 \<or> n = 95 \<or> n = 45)"

definition isIdStart :: "char \<Rightarrow> bool" where
  "isIdStart c = (let n = of_char c :: nat in 97 \<le> n \<and> n \<le> 122 \<or> 65 \<le> n \<and> n \<le> 90 \<or> 48 \<le> n \<and> n \<le> 57)"

definition isIdChar :: "char \<Rightarrow> bool" where
  "isIdChar c \<longleftrightarrow> isIdStart c \<or> c = CHR ''_'' \<or> c = CHR ''-''"

text \<open>\<^verbatim>\<open>VALID_ID_RE\<close>.\<close>

fun isValidId :: "string \<Rightarrow> bool" where
  "isValidId [] = False"
| "isValidId (c # cs) = (isIdStart c \<and> list_all isIdChar cs \<and> length cs \<le> 63)"

text \<open>Replacing \<^verbatim>\<open>INVALID_CHARS_RE\<close>: every longest run of other characters becomes one dash.\<close>

function replaceInvalid :: "string \<Rightarrow> string" where
  "replaceInvalid [] = []"
| "replaceInvalid (c # cs) =
     (if isIdLower c then c # replaceInvalid cs
      else CHR ''-'' # replaceInvalid (dropWhile (\<lambda>d. \<not> isIdLower d) cs))"
  by pat_completeness auto
termination
  by (relation "measure length") (auto simp: le_imp_less_Suc length_dropWhile_le)

definition dropLeadingDashes :: "string \<Rightarrow> string" where
  "dropLeadingDashes s = dropWhile (\<lambda>c. c = CHR ''-'') s"

definition dropTrailingDashes :: "string \<Rightarrow> string" where
  "dropTrailingDashes s = rev (dropWhile (\<lambda>c. c = CHR ''-'') (rev s))"

section \<open>Account ids\<close>

definition DEFAULT_ACCOUNT_ID :: string where "DEFAULT_ACCOUNT_ID = ''default''"

definition ACCOUNT_ID_CACHE_MAX :: nat where "ACCOUNT_ID_CACHE_MAX = 512"

definition canonicalizeAccountId :: "string \<Rightarrow> string" where
  "canonicalizeAccountId value =
     (let normalized = normalizeLowercaseStringOrEmpty (VStr value) in
      if isValidId value then normalized
      else take 64 (dropTrailingDashes (dropLeadingDashes (replaceInvalid normalized))))"

definition normalizeCanonicalAccountId :: "string \<Rightarrow> string option" where
  "normalizeCanonicalAccountId value =
     (let canonical = canonicalizeAccountId value in
      if canonical = [] \<or> isBlockedObjectKey canonical then None else Some canonical)"

text \<open>The results of the two normalisers, without their caches, and the caches.\<close>

definition normalizeAccountId :: "string option \<Rightarrow> string" where
  "normalizeAccountId value =
     (let trimmed = js_trim (case value of Some v \<Rightarrow> v | None \<Rightarrow> []) in
      if trimmed = [] then DEFAULT_ACCOUNT_ID
      else (case normalizeCanonicalAccountId trimmed of Some c \<Rightarrow> c | None \<Rightarrow> DEFAULT_ACCOUNT_ID))"

definition normalizeOptionalAccountId :: "string option \<Rightarrow> string option" where
  "normalizeOptionalAccountId value =
     (let trimmed = js_trim (case value of Some v \<Rightarrow> v | None \<Rightarrow> []) in
      if trimmed = [] then None else normalizeCanonicalAccountId trimmed)"

definition setNormalizeCache :: "(string, 'v) jsmap \<Rightarrow> string \<Rightarrow> 'v \<Rightarrow> (string, 'v) jsmap" where
  "setNormalizeCache cache key v =
     (let c = jm_set key v cache in
      if length c \<le> ACCOUNT_ID_CACHE_MAX then c
      else (case c of [] \<Rightarrow> c | (oldest, _) # _ \<Rightarrow> jm_del oldest c))"

definition normalizeAccountIdCached ::
    "(string, string) jsmap \<Rightarrow> string option \<Rightarrow> string \<times> (string, string) jsmap" where
  "normalizeAccountIdCached cache value =
     (let trimmed = js_trim (case value of Some v \<Rightarrow> v | None \<Rightarrow> []) in
      if trimmed = [] then (DEFAULT_ACCOUNT_ID, cache)
      else
        (let normalized = (case normalizeCanonicalAccountId trimmed of Some c \<Rightarrow> c | None \<Rightarrow> DEFAULT_ACCOUNT_ID) in
         case jm_get cache trimmed of
           Some cached \<Rightarrow>
             if cached \<noteq> [] then (cached, cache) else (normalized, setNormalizeCache cache trimmed normalized)
         | None \<Rightarrow> (normalized, setNormalizeCache cache trimmed normalized)))"

definition normalizeOptionalAccountIdCached ::
    "(string, string option) jsmap \<Rightarrow> string option \<Rightarrow> string option \<times> (string, string option) jsmap" where
  "normalizeOptionalAccountIdCached cache value =
     (let trimmed = js_trim (case value of Some v \<Rightarrow> v | None \<Rightarrow> []) in
      if trimmed = [] then (None, cache)
      else
        (case jm_get cache trimmed of
           Some cached \<Rightarrow> (cached, cache)
         | None \<Rightarrow>
             (let normalized = normalizeCanonicalAccountId trimmed
              in (normalized, setNormalizeCache cache trimmed normalized))))"

section \<open>Account lookup\<close>

text \<open>The accounts of a channel, a record in the order of its own keys.\<close>

definition resolveAccountEntry :: "(string, 'a) jsmap option \<Rightarrow> string \<Rightarrow> 'a option" where
  "resolveAccountEntry accounts accountId =
     (case accounts of
        None \<Rightarrow> None
      | Some m \<Rightarrow>
          (case jm_get m accountId of
             Some e \<Rightarrow> Some e
           | None \<Rightarrow>
               (let normalized = normalizeLowercaseStringOrEmpty (VStr accountId) in
                case find (\<lambda>key. normalizeLowercaseStringOrEmpty (VStr key) = normalized) (jm_keys m) of
                  None \<Rightarrow> None
                | Some matchKey \<Rightarrow> if matchKey = [] then None else jm_get m matchKey)))"

definition resolveNormalizedAccountEntry ::
    "(string, 'a) jsmap option \<Rightarrow> string \<Rightarrow> (string \<Rightarrow> string) \<Rightarrow> 'a option" where
  "resolveNormalizedAccountEntry accounts accountId canon =
     (case accounts of
        None \<Rightarrow> None
      | Some m \<Rightarrow>
          if accountId \<in> set (jm_keys m) \<and> \<not> isBlockedObjectKey accountId then jm_get m accountId
          else
            (let normalized = canon accountId in
             case find (\<lambda>key.
                      \<not> isBlockedObjectKey key \<and> normalizeOptionalAccountId (Some key) \<noteq> None \<and>
                      \<not> isBlockedObjectKey (canon key) \<and> canon key = normalized)
                    (jm_keys m) of
               None \<Rightarrow> None
             | Some matchKey \<Rightarrow> if matchKey = [] then None else jm_get m matchKey))"

section \<open>Agent ids\<close>

definition DEFAULT_AGENT_ID :: string where "DEFAULT_AGENT_ID = ''main''"

definition normalizeAgentId :: "string option \<Rightarrow> string" where
  "normalizeAgentId value =
     (let trimmed = js_trim (case value of Some v \<Rightarrow> v | None \<Rightarrow> []) in
      if trimmed = [] then DEFAULT_AGENT_ID
      else
        (let normalized = normalizeLowercaseStringOrEmpty (VStr trimmed) in
         if isValidId trimmed then normalized
         else
           (let cleaned = take 64 (dropTrailingDashes (dropLeadingDashes (replaceInvalid normalized)))
            in if cleaned = [] then DEFAULT_AGENT_ID else cleaned)))"

definition isValidAgentId :: "string option \<Rightarrow> bool" where
  "isValidAgentId value =
     (let trimmed = js_trim (case value of Some v \<Rightarrow> v | None \<Rightarrow> []) in trimmed \<noteq> [] \<and> isValidId trimmed)"

section \<open>Kinds of a chat\<close>

datatype chat_type = DirectChat | GroupChat | ChannelChat

fun chatTypeText :: "chat_type \<Rightarrow> string" where
  "chatTypeText DirectChat = ''direct''"
| "chatTypeText GroupChat = ''group''"
| "chatTypeText ChannelChat = ''channel''"

definition normalizeChatType :: "string option \<Rightarrow> chat_type option" where
  "normalizeChatType raw =
     (case normalizeOptionalLowercaseString (opt_string raw) of
        None \<Rightarrow> None
      | Some v \<Rightarrow>
          if v = ''direct'' \<or> v = ''dm'' then Some DirectChat
          else if v = ''group'' then Some GroupChat
          else if v = ''channel'' then Some ChannelChat
          else None)"

definition peerKindMatches :: "chat_type \<Rightarrow> chat_type \<Rightarrow> bool" where
  "peerKindMatches bindingKind scopeKind \<longleftrightarrow>
     (if bindingKind = scopeKind then True
      else bindingKind = GroupChat \<and> scopeKind = ChannelChat \<or> bindingKind = ChannelChat \<and> scopeKind = GroupChat)"

section \<open>Lemmas\<close>

lemma is_id_lower: "isIdChar c \<Longrightarrow> isIdLower (js_lower c)"
  by (auto simp: isIdChar_def isIdStart_def isIdLower_def js_lower_def Let_def of_char_of split: if_splits)

lemma id_char_no_space: "isIdChar c \<Longrightarrow> \<not> is_js_space c"
  by (auto simp: isIdChar_def isIdStart_def is_js_space_def Let_def)

lemma replaced_chars: "list_all isIdLower (replaceInvalid s)"
  by (induction s rule: replaceInvalid.induct) (auto simp: isIdLower_def)

lemma dropped_chars:
  "list_all P s \<Longrightarrow> list_all P (take n (dropTrailingDashes (dropLeadingDashes s)))"
  by (auto simp: list_all_iff dropTrailingDashes_def dropLeadingDashes_def dest!: in_set_takeD set_dropWhileD)

lemma valid_chars: "isValidId s \<Longrightarrow> list_all isIdChar s \<and> length s \<le> 64 \<and> s \<noteq> []"
  by (cases s) (auto simp: isIdChar_def)

lemma valid_lowered:
  assumes "isValidId s"
  shows "normalizeLowercaseStringOrEmpty (VStr s) = toLowerCase s"
proof -
  have "s \<noteq> []" "\<forall>c \<in> set s. \<not> is_js_space c"
    using valid_chars [OF assms] id_char_no_space by (auto simp: list_all_iff)
  then have "js_trim s = s"
    using dropWhile_id [of s is_js_space] dropWhile_id [of "rev s" is_js_space]
    by (simp add: js_trim_def hd_rev)
  with \<open>s \<noteq> []\<close> show ?thesis
    by (simp add: normalizeLowercaseStringOrEmpty_def normalizeOptionalLowercaseString_def
        normalizeOptionalString_def Let_def)
qed

lemma valid_lower_chars:
  "isValidId s \<Longrightarrow>
     list_all isIdLower (normalizeLowercaseStringOrEmpty (VStr s)) \<and>
     length (normalizeLowercaseStringOrEmpty (VStr s)) \<le> 64 \<and> normalizeLowercaseStringOrEmpty (VStr s) \<noteq> []"
  using valid_chars [of s] by (auto simp: valid_lowered toLowerCase_def list_all_iff is_id_lower)

text \<open>What an id of a session is made of: lower-case letters, digits, underscores and dashes.\<close>

definition canonicalId :: "string \<Rightarrow> bool" where
  "canonicalId s \<longleftrightarrow> s \<noteq> [] \<and> length s \<le> 64 \<and> list_all isIdLower s"

lemma canonicalizeAccountId_chars:
  "list_all isIdLower (canonicalizeAccountId v) \<and> length (canonicalizeAccountId v) \<le> 64"
  using valid_lower_chars [of v] by (simp add: canonicalizeAccountId_def Let_def dropped_chars replaced_chars)

lemma default_canonical: "canonicalId DEFAULT_ACCOUNT_ID" "canonicalId DEFAULT_AGENT_ID"
  by code_simp+

lemma normalizeAccountId_canonical: "canonicalId (normalizeAccountId v)"
  using canonicalizeAccountId_chars default_canonical
  by (auto simp: normalizeAccountId_def normalizeCanonicalAccountId_def Let_def canonicalId_def split: option.splits)

lemma normalizeAgentId_canonical: "canonicalId (normalizeAgentId v)"
  using valid_lower_chars default_canonical
  by (auto simp: normalizeAgentId_def Let_def canonicalId_def dropped_chars replaced_chars split: option.splits)

lemma canonical_not_in: "canonicalId s \<Longrightarrow> \<not> isIdLower c \<Longrightarrow> c \<notin> set s"
  by (auto simp: canonicalId_def list_all_iff)

lemma normalizeAccountId_trim: "normalizeAccountId (Some (js_trim v)) = normalizeAccountId (Some v)"
  by (simp add: normalizeAccountId_def)

lemma chat_type_text [simp]: "normalizeChatType (Some (chatTypeText k)) = Some k"
  by (induction k) code_simp+

lemma peerKindMatches_equiv:
  "peerKindMatches a b = (a = b \<or> {a, b} = {GroupChat, ChannelChat})"
  by (cases a; cases b) (auto simp: peerKindMatches_def doubleton_eq_iff)

section \<open>The caches\<close>

lemma jm_set_from: "p \<in> set (AList.update k v m) \<Longrightarrow> p = (k, v) \<or> p \<in> set m"
  by (induction m) (auto split: if_splits)

lemma set_cache_mem: "p \<in> set (setNormalizeCache cache k v) \<Longrightarrow> p = (k, v) \<or> p \<in> set cache"
  using jm_set_from [of p k v cache]
  by (cases "jm_set k v cache") (auto simp: setNormalizeCache_def Let_def set_jm_del split: if_splits)

lemma set_cache_length:
  assumes "length cache \<le> ACCOUNT_ID_CACHE_MAX"
  shows "length (setNormalizeCache cache k v) \<le> ACCOUNT_ID_CACHE_MAX"
proof (cases "length (jm_set k v cache) \<le> ACCOUNT_ID_CACHE_MAX")
  case False
  then obtain o' v' r where c: "jm_set k v cache = (o', v') # r" by (cases "jm_set k v cache") auto
  have "length (jm_set k v cache) \<le> Suc ACCOUNT_ID_CACHE_MAX"
    using assms length_jm_set_le [of k v cache] by simp
  moreover have "length (jm_del o' ((o', v') # r)) \<le> length r"
    using length_jm_del_le [of o' r] by simp
  ultimately show ?thesis using False c by (simp add: setNormalizeCache_def)
qed (simp add: setNormalizeCache_def)

definition account_cache_ok :: "(string, string) jsmap \<Rightarrow> bool" where
  "account_cache_ok cache \<longleftrightarrow>
     length cache \<le> ACCOUNT_ID_CACHE_MAX \<and>
     (\<forall>(k, v) \<in> set cache. v = (case normalizeCanonicalAccountId k of Some c \<Rightarrow> c | None \<Rightarrow> DEFAULT_ACCOUNT_ID))"

lemma cached_account:
  assumes "account_cache_ok cache"
  shows "fst (normalizeAccountIdCached cache v) = normalizeAccountId v \<and>
    account_cache_ok (snd (normalizeAccountIdCached cache v))"
proof -
  let ?t = "js_trim (case v of Some x \<Rightarrow> x | None \<Rightarrow> [])"
  let ?n = "case normalizeCanonicalAccountId ?t of Some c \<Rightarrow> c | None \<Rightarrow> DEFAULT_ACCOUNT_ID"
  have hit: "c = ?n" if "jm_get cache ?t = Some c" for c
    using jm_get_mem [OF that] assms by (auto simp: account_cache_ok_def)
  have "account_cache_ok (setNormalizeCache cache ?t ?n)"
    using assms set_cache_length [of cache ?t ?n]
    by (auto simp: account_cache_ok_def dest!: set_cache_mem)
  then show ?thesis
    using assms hit by (auto simp: normalizeAccountIdCached_def normalizeAccountId_def Let_def split: option.split)
qed

interpretation account_ids: machine "\<lambda>cache v. snd (normalizeAccountIdCached cache v)" "[]" account_cache_ok
  by unfold_locales (simp add: account_cache_ok_def, simp add: cached_account)

text \<open>
  The cache of account ids never changes an answer and stays bounded: after any history of lookups
  the answer for a value is the one computed afresh, and it is a nonempty canonical id of at most 64
  characters that is no key of the object prototype, whatever the channel sent.
\<close>

theorem account_ids_are_canonical:
  assumes "cache = foldl (\<lambda>cache v. snd (normalizeAccountIdCached cache v)) [] history"
  shows "fst (normalizeAccountIdCached cache v) = normalizeAccountId v \<and> length cache \<le> ACCOUNT_ID_CACHE_MAX \<and>
    canonicalId (normalizeAccountId v) \<and> \<not> isBlockedObjectKey (normalizeAccountId v)"
proof -
  have "account_cache_ok cache" unfolding assms by (rule account_ids.run_inv)
  moreover have "\<not> isBlockedObjectKey (normalizeAccountId v)"
    by (auto simp: normalizeAccountId_def normalizeCanonicalAccountId_def Let_def isBlockedObjectKey_def
        DEFAULT_ACCOUNT_ID_def split: option.splits)
  ultimately show ?thesis
    using cached_account normalizeAccountId_canonical by (auto simp: account_cache_ok_def)
qed

lemma account_ids_are_canonical_witness:
  "fst (normalizeAccountIdCached (foldl (\<lambda>cache v. snd (normalizeAccountIdCached cache v)) []
      [Some '' My Bot! '', Some ''__proto__'', None]) (Some ''My Bot!'')) = ''my-bot''"
  using account_ids_are_canonical [OF refl, of "[Some '' My Bot! '', Some ''__proto__'', None]" "Some ''My Bot!''"]
  by code_simp

text \<open>
  The cut to 64 characters comes after the dashes at the end are dropped, and an underscore in front makes the
  id fail \<^verbatim>\<open>VALID_ID_RE\<close>, so normalising twice may drop a further character.
\<close>

lemma normalize_not_idempotent:
  "\<exists>v. normalizeAccountId (Some (normalizeAccountId (Some v))) \<noteq> normalizeAccountId (Some v)"
proof -
  let ?v = "''_'' @ replicate 62 CHR ''a'' @ ''-b''"
  have "normalizeAccountId (Some (normalizeAccountId (Some ?v))) \<noteq> normalizeAccountId (Some ?v)"
    by code_simp
  then show ?thesis by blast
qed

end
