(* ===== verification/SessionKeyUtils.thy ===== *)
theory SessionKeyUtils
  imports RouteIds
begin

text \<open>
  \<^verbatim>\<open>src/sessions/session-key-utils.ts\<close>: the normal form of a session key, which is lower case except for the
  peer ids of channels whose ids are case sensitive, and the parsers of a key. The regular expressions are
  written as functions over the text: every one of them is deterministic.
\<close>

section \<open>Texts\<close>

fun splitOn :: "char \<Rightarrow> string \<Rightarrow> string list" where
  "splitOn c [] = [[]]"
| "splitOn c (x # xs) =
     (if x = c then [] # splitOn c xs else (case splitOn c xs of p # ps \<Rightarrow> (x # p) # ps | [] \<Rightarrow> [[x]]))"

abbreviation splitColon :: "string \<Rightarrow> string list" where
  "splitColon \<equiv> splitOn CHR '':''"

fun joinColon :: "string list \<Rightarrow> string" where
  "joinColon [] = []"
| "joinColon [p] = p"
| "joinColon (p # q # ps) = p @ CHR '':'' # joinColon (q # ps)"

text \<open>\<^verbatim>\<open>parts[i]\<close>, undefined out of range, read by a normaliser.\<close>

definition partAt :: "string list \<Rightarrow> nat \<Rightarrow> string option" where
  "partAt parts i = (if i < length parts then Some (parts ! i) else None)"

definition optString :: "string option \<Rightarrow> string option" where
  "optString v = normalizeOptionalString (opt_string v)"

definition optLower :: "string option \<Rightarrow> string option" where
  "optLower v = normalizeOptionalLowercaseString (opt_string v)"

definition lowerOrEmpty :: "string option \<Rightarrow> string" where
  "lowerOrEmpty v = normalizeLowercaseStringOrEmpty (opt_string v)"

definition startsWith :: "string \<Rightarrow> string \<Rightarrow> bool" where
  "startsWith p s \<longleftrightarrow> take (length p) s = p"

definition startsWithNoCase :: "string \<Rightarrow> string \<Rightarrow> bool" where
  "startsWithNoCase p s \<longleftrightarrow> toLowerCase (take (length p) s) = p"

definition includesText :: "string \<Rightarrow> string \<Rightarrow> bool" where
  "includesText p s \<longleftrightarrow> list_ex (\<lambda>i. startsWith p (drop i s)) [0 ..< Suc (length s)]"

definition lastIndexOf :: "string \<Rightarrow> string \<Rightarrow> nat option" where
  "lastIndexOf p s = find (\<lambda>i. startsWith p (drop i s)) (rev [0 ..< Suc (length s)])"

section \<open>Case-sensitive peers\<close>

datatype peer_span = SegmentSpan | TailSpan

record case_peer =
  casePeerChannel :: string
  casePeerKinds :: "string list"
  casePeerSpan :: peer_span
  casePeerUnscoped :: bool

definition CASE_PRESERVING_PEERS :: "case_peer list" where
  "CASE_PRESERVING_PEERS =
     [\<lparr>casePeerChannel = ''signal'', casePeerKinds = [''group''], casePeerSpan = SegmentSpan, casePeerUnscoped = True\<rparr>,
      \<lparr>casePeerChannel = ''matrix'', casePeerKinds = [''channel'', ''group''], casePeerSpan = TailSpan,
       casePeerUnscoped = True\<rparr>]"

definition findCasePreservingPeerDescriptor :: "string option \<Rightarrow> string option \<Rightarrow> case_peer option" where
  "findCasePreservingPeerDescriptor channel peerKind =
     find (\<lambda>d. casePeerChannel d = lowerOrEmpty channel \<and> lowerOrEmpty peerKind \<in> set (casePeerKinds d))
       CASE_PRESERVING_PEERS"

definition isCasePreservingPeer :: "string option \<Rightarrow> string option \<Rightarrow> bool" where
  "isCasePreservingPeer channel peerKind \<longleftrightarrow>
     findCasePreservingPeerDescriptor (Some (lowerOrEmpty channel)) (Some (lowerOrEmpty peerKind)) \<noteq> None"

text \<open>The index behind the ownership wrappers of a key, and whether there is one.\<close>

fun skipAgentParts :: "string list \<Rightarrow> bool \<Rightarrow> bool \<times> string list" where
  "skipAgentParts (a # b # c # rest) wrapped =
     (if optLower (Some a) = Some ''agent'' then skipAgentParts (c # rest) True else (wrapped, a # b # c # rest))"
| "skipAgentParts parts wrapped = (wrapped, parts)"

definition requiresFoldedSessionKeyAliasProof :: "string option \<Rightarrow> bool" where
  "requiresFoldedSessionKeyAliasProof sessionKey =
     (case optString sessionKey of
        None \<Rightarrow> False
      | Some raw \<Rightarrow>
          (case skipAgentParts (splitColon raw) False of
             (hasAgentWrapper, parts) \<Rightarrow>
               (let body = (if hasAgentWrapper then dropWhile (\<lambda>p. optString (Some p) = None) parts else parts) in
                case findCasePreservingPeerDescriptor (partAt body 0) (partAt body 1) of
                  None \<Rightarrow> False
                | Some descriptor \<Rightarrow> casePeerSpan descriptor = TailSpan)))"

definition normalizeSessionPeerId :: "string option \<Rightarrow> string option \<Rightarrow> string option \<Rightarrow> string" where
  "normalizeSessionPeerId channel peerKind peerId =
     (let p = js_trim (case peerId of Some x \<Rightarrow> x | None \<Rightarrow> []) in
      if p = [] then []
      else if isCasePreservingPeer channel peerKind then p
      else lowerOrEmpty (Some p))"

section \<open>The normal form of a key\<close>

record preserved_span =
  spanStart :: nat
  spanEnd :: nat
  spanTrim :: bool

text \<open>
  The matches of \<^verbatim>\<open>(^|:)literal([^:]+)\<close> from left to right, without overlaps; \<open>pos\<close> is the index of the text
  left to scan.
\<close>

function segmentSpans :: "string \<Rightarrow> bool \<Rightarrow> nat \<Rightarrow> string \<Rightarrow> preserved_span list" where
  "segmentSpans lit atStart pos [] = []"
| "segmentSpans lit atStart pos (c # cs) =
     (let skip = (if atStart \<and> startsWithNoCase lit (c # cs) then Some 0
                  else if c = CHR '':'' \<and> startsWithNoCase lit cs then Some (1 :: nat) else None)
      in case skip of
           None \<Rightarrow> segmentSpans lit False (pos + 1) cs
         | Some k \<Rightarrow>
             (let body = drop (k + length lit) (c # cs);
                  segment = takeWhile (\<lambda>d. d \<noteq> CHR '':'') body;
                  segStart = pos + k + length lit
              in if segment = [] then segmentSpans lit False (pos + 1) cs
                 else \<lparr>spanStart = segStart, spanEnd = segStart + length segment, spanTrim = True\<rparr> #
                      segmentSpans lit False (segStart + length segment) (drop (length segment) body)))"
  by pat_completeness auto
termination
proof (relation "measure (\<lambda>(lit, atStart, pos, s). length s)", goal_cases)
  case (4 lit atStart pos c cs skip k body segment segStart)
  then have "0 < length segment" "length body \<le> Suc (length cs)" by simp_all
  then have "length body - length segment < Suc (length cs)" by linarith
  then show ?case by simp
qed auto

definition tailSpans :: "string \<Rightarrow> nat \<Rightarrow> preserved_span list" where
  "tailSpans raw tailStart =
     (if tailStart \<ge> length raw then []
      else
        (let tail = drop tailStart raw;
             threadMarker = '':thread:'' in
         case lastIndexOf threadMarker (lowerOrEmpty (Some tail)) of
           None \<Rightarrow> [\<lparr>spanStart = tailStart, spanEnd = length raw, spanTrim = False\<rparr>]
         | Some markerIndex \<Rightarrow>
             (let threadIdStart = tailStart + markerIndex + length threadMarker in
              \<lparr>spanStart = tailStart, spanEnd = tailStart + markerIndex, spanTrim = False\<rparr> #
              (if threadIdStart < length raw
               then [\<lparr>spanStart = threadIdStart, spanEnd = length raw, spanTrim = False\<rparr>] else []))))"

text \<open>The wrappers \<^verbatim>\<open>(?:agent:[^:]*:)+\<close>: how many there are and what follows them.\<close>

function agentWrappers :: "string \<Rightarrow> nat \<times> string" where
  "agentWrappers s =
     (if startsWithNoCase ''agent:'' s then
        (case dropWhile (\<lambda>c. c \<noteq> CHR '':'') (drop 6 s) of
           [] \<Rightarrow> (0, s)
         | _ # rest \<Rightarrow> (case agentWrappers rest of (n, r) \<Rightarrow> (Suc n, r)))
      else (0, s))"
  by pat_completeness auto
termination
proof (relation "measure length", goal_cases)
  case (2 s c rest)
  then have "Suc (length rest) \<le> length (drop 6 s)"
    by (metis length_Cons length_dropWhile_le)
  then show ?case by simp
qed simp

definition scopedTailStart :: "string \<Rightarrow> string \<Rightarrow> nat option" where
  "scopedTailStart lit raw =
     (case agentWrappers raw of
        (wrappers, rest) \<Rightarrow>
          (let body = dropWhile (\<lambda>c. c = CHR '':'') rest in
           if wrappers > 0 \<and> startsWithNoCase lit body
           then Some (length raw - length body + length lit) else None))"

definition kindSpans :: "string \<Rightarrow> case_peer \<Rightarrow> string \<Rightarrow> preserved_span list" where
  "kindSpans raw descriptor kind =
     (let lit = casePeerChannel descriptor @ '':'' @ kind @ '':'' in
      case casePeerSpan descriptor of
        SegmentSpan \<Rightarrow> segmentSpans lit True 0 raw
      | TailSpan \<Rightarrow>
          (case scopedTailStart lit raw of
             Some tailStart \<Rightarrow> tailSpans raw tailStart
           | None \<Rightarrow>
               if casePeerUnscoped descriptor \<and> startsWithNoCase lit raw then tailSpans raw (length lit) else []))"

definition collectCasePreservedSpans :: "string \<Rightarrow> preserved_span list" where
  "collectCasePreservedSpans raw =
     concat (map (\<lambda>d. concat (map (kindSpans raw d) (casePeerKinds d))) CASE_PRESERVING_PEERS)"

definition mayContainCasePreservingPeer :: "string \<Rightarrow> bool" where
  "mayContainCasePreservingPeer raw \<longleftrightarrow>
     list_ex (\<lambda>d. includesText (casePeerChannel d @ '':'') (toLowerCase raw)) CASE_PRESERVING_PEERS"

definition sliceText :: "string \<Rightarrow> nat \<Rightarrow> nat \<Rightarrow> string" where
  "sliceText s a b = drop a (take b s)"

fun emitSpans :: "string \<Rightarrow> nat \<Rightarrow> preserved_span list \<Rightarrow> string" where
  "emitSpans raw cursor [] = lowerOrEmpty (Some (drop cursor raw))"
| "emitSpans raw cursor (sp # rest) =
     (if spanStart sp < cursor then emitSpans raw cursor rest
      else
        (let preserved = sliceText raw (spanStart sp) (spanEnd sp) in
         lowerOrEmpty (Some (sliceText raw cursor (spanStart sp))) @
         (if spanTrim sp then js_trim preserved else preserved) @
         emitSpans raw (spanEnd sp) rest))"

definition normalizeSessionKeyPreservingOpaquePeerIds :: "string option \<Rightarrow> string" where
  "normalizeSessionKeyPreservingOpaquePeerIds sessionKey =
     (case optString sessionKey of
        None \<Rightarrow> []
      | Some raw \<Rightarrow>
          if \<not> mayContainCasePreservingPeer raw then toLowerCase raw
          else emitSpans raw 0
                 (toSorted (\<lambda>a b. of_nat (spanStart a) - of_nat (spanStart b))
                   (filter (\<lambda>sp. spanEnd sp > spanStart sp) (collectCasePreservedSpans raw))))"

text \<open>The cache of normal forms.\<close>

definition NORMALIZED_SESSION_KEY_CACHE_MAX_ENTRIES :: nat where
  "NORMALIZED_SESSION_KEY_CACHE_MAX_ENTRIES = 2048"

definition NORMALIZED_SESSION_KEY_CACHE_MAX_LENGTH :: nat where
  "NORMALIZED_SESSION_KEY_CACHE_MAX_LENGTH = 4096"

definition readNormalizedSessionKeyCache :: "(string, string) jsmap \<Rightarrow> string \<Rightarrow> string option" where
  "readNormalizedSessionKeyCache cache raw =
     (if length raw \<le> NORMALIZED_SESSION_KEY_CACHE_MAX_LENGTH then jm_get cache raw else None)"

function evictOldestKeys :: "(string, string) jsmap \<Rightarrow> (string, string) jsmap" where
  "evictOldestKeys cache =
     (if length cache \<le> NORMALIZED_SESSION_KEY_CACHE_MAX_ENTRIES then cache
      else (case cache of [] \<Rightarrow> cache | (oldest, _) # _ \<Rightarrow> evictOldestKeys (jm_del oldest cache)))"
  by pat_completeness auto
termination
  by (relation "measure length") (auto simp: le_imp_less_Suc length_jm_del_le)

definition writeNormalizedSessionKeyCache ::
    "(string, string) jsmap \<Rightarrow> string \<Rightarrow> string \<Rightarrow> (string, string) jsmap" where
  "writeNormalizedSessionKeyCache cache raw normalized =
     (if length raw > NORMALIZED_SESSION_KEY_CACHE_MAX_LENGTH then cache
      else evictOldestKeys (jm_set raw normalized cache))"

definition normalizeSessionKeyCached ::
    "(string, string) jsmap \<Rightarrow> string option \<Rightarrow> string \<times> (string, string) jsmap" where
  "normalizeSessionKeyCached cache sessionKey =
     (case optString sessionKey of
        None \<Rightarrow> ([], cache)
      | Some raw \<Rightarrow>
          (case readNormalizedSessionKeyCache cache raw of
             Some cached \<Rightarrow> (cached, cache)
           | None \<Rightarrow>
               (let normalized = normalizeSessionKeyPreservingOpaquePeerIds (Some raw)
                in (normalized, writeNormalizedSessionKeyCache cache raw normalized))))"

declare agentWrappers.simps [simp del] evictOldestKeys.simps [simp del]

section \<open>The parsers of a key\<close>

record parsed_agent_key =
  parsedAgentId :: string
  parsedRest :: string

definition parseAgentSessionKey :: "string option \<Rightarrow> parsed_agent_key option" where
  "parseAgentSessionKey sessionKey =
     (let raw = normalizeSessionKeyPreservingOpaquePeerIds sessionKey in
      if raw = [] then None
      else
        (let parts = splitColon raw in
         if length parts < 3 \<or> parts ! 1 = [] \<or> parts ! 2 = [] then None
         else if parts ! 0 \<noteq> ''agent'' then None
         else
           (let rest = joinColon (drop 2 parts) in
            case optString (Some (parts ! 1)) of
              None \<Rightarrow> None
            | Some agentId \<Rightarrow>
                if rest = [] then None else Some \<lparr>parsedAgentId = agentId, parsedRest = rest\<rparr>)))"

text \<open>\<^verbatim>\<open>^cron:[^:]+:run:[^:]+\<close> over the parts of the text.\<close>

definition cronRunParts :: "string list \<Rightarrow> bool" where
  "cronRunParts parts \<longleftrightarrow>
     length parts \<ge> 4 \<and> parts ! 0 = ''cron'' \<and> parts ! 1 \<noteq> [] \<and> parts ! 2 = ''run'' \<and> parts ! 3 \<noteq> []"

definition isCronRunSessionKey :: "string option \<Rightarrow> bool" where
  "isCronRunSessionKey sessionKey =
     (case parseAgentSessionKey sessionKey of
        None \<Rightarrow> False
      | Some parsed \<Rightarrow> cronRunParts (splitColon (parsedRest parsed)))"

definition parseCronRunScopeSuffix :: "string option \<Rightarrow> string option \<times> string option" where
  "parseCronRunScopeSuffix sessionKey =
     (case optString sessionKey of
        None \<Rightarrow> (None, None)
      | Some raw \<Rightarrow>
          (let unchanged = (Some raw, None) in
           case parseAgentSessionKey (Some raw) of
             None \<Rightarrow> unchanged
           | Some parsed \<Rightarrow>
               (let parts = splitColon (parsedRest parsed) in
                if \<not> (cronRunParts parts \<and> length parts = 4) then unchanged
                else
                  (case lastIndexOf '':run:'' (toLowerCase raw) of
                     None \<Rightarrow> unchanged
                   | Some markerIndex \<Rightarrow>
                       (Some (take markerIndex raw), Some (drop (markerIndex + length '':run:'') raw))))))"

definition restStartsWith :: "string \<Rightarrow> string option \<Rightarrow> bool" where
  "restStartsWith p sessionKey =
     (case parseAgentSessionKey sessionKey of
        None \<Rightarrow> False
      | Some parsed \<Rightarrow>
          (case optLower (Some (parsedRest parsed)) of Some r \<Rightarrow> startsWith p r | None \<Rightarrow> False))"

definition isCronSessionKey :: "string option \<Rightarrow> bool" where
  "isCronSessionKey sessionKey = restStartsWith ''cron:'' sessionKey"

definition isSubagentSessionKey :: "string option \<Rightarrow> bool" where
  "isSubagentSessionKey sessionKey =
     (case optString sessionKey of
        None \<Rightarrow> False
      | Some raw \<Rightarrow>
          (case optLower (Some raw) of
             Some l \<Rightarrow> startsWith ''subagent:'' l \<or> restStartsWith ''subagent:'' (Some raw)
           | None \<Rightarrow> restStartsWith ''subagent:'' (Some raw)))"

text \<open>The number of matches of \<^verbatim>\<open>(^|:)subagent:\<close>, without overlaps.\<close>

function countMarks :: "string \<Rightarrow> bool \<Rightarrow> string \<Rightarrow> nat" where
  "countMarks lit atStart [] = 0"
| "countMarks lit atStart (c # cs) =
     (if atStart \<and> startsWith lit (c # cs) then Suc (countMarks lit False (drop (length lit - 1) cs))
      else if c = CHR '':'' \<and> startsWith lit cs then Suc (countMarks lit False (drop (length lit) cs))
      else countMarks lit False cs)"
  by pat_completeness auto
termination
  by (relation "measure (\<lambda>(lit, atStart, s). length s)") auto

definition getSubagentDepth :: "string option \<Rightarrow> nat" where
  "getSubagentDepth sessionKey =
     (case optLower sessionKey of
        None \<Rightarrow> 0
      | Some raw \<Rightarrow>
          (let scoped = (case parseAgentSessionKey (Some raw) of Some parsed \<Rightarrow> parsedRest parsed | None \<Rightarrow> raw)
           in countMarks ''subagent:'' True (toLowerCase scoped)))"

definition isAcpSessionKey :: "string option \<Rightarrow> bool" where
  "isAcpSessionKey sessionKey =
     (case optString sessionKey of
        None \<Rightarrow> False
      | Some raw \<Rightarrow> startsWith ''acp:'' (lowerOrEmpty (Some raw)) \<or> restStartsWith ''acp:'' (Some raw))"

record thread_suffix =
  suffixBaseKey :: "string option"
  suffixThreadId :: "string option"

definition parseThreadSessionSuffix :: "string option \<Rightarrow> thread_suffix" where
  "parseThreadSessionSuffix sessionKey =
     (case optString sessionKey of
        None \<Rightarrow> \<lparr>suffixBaseKey = None, suffixThreadId = None\<rparr>
      | Some raw \<Rightarrow>
          (let threadMarker = '':thread:'' in
           case lastIndexOf threadMarker (lowerOrEmpty (Some raw)) of
             None \<Rightarrow> \<lparr>suffixBaseKey = Some raw, suffixThreadId = optString None\<rparr>
           | Some markerIndex \<Rightarrow>
               \<lparr>suffixBaseKey = Some (take markerIndex raw),
                suffixThreadId = optString (Some (drop (markerIndex + length threadMarker) raw))\<rparr>))"

record delivery_route =
  deliveryAccountId :: "string option"
  deliveryChannel :: string
  deliveryPeerId :: string
  deliveryPeerKind :: string
  deliveryThreadId :: "string option"

definition SESSION_DELIVERY_PEER_KINDS :: "string list" where
  "SESSION_DELIVERY_PEER_KINDS = [''channel'', ''direct'', ''dm'', ''group'']"

definition parseSessionDeliveryRoute :: "string option \<Rightarrow> delivery_route option" where
  "parseSessionDeliveryRoute sessionKey =
     (let parsedThread = parseThreadSessionSuffix sessionKey in
      case parseAgentSessionKey
             (case suffixBaseKey parsedThread of Some b \<Rightarrow> Some b | None \<Rightarrow> sessionKey) of
        None \<Rightarrow> None
      | Some parsed \<Rightarrow>
          (let parts = splitColon (parsedRest parsed) in
           if parts ! 0 = ''agent'' \<or> length parts < 3 then None
           else
             (case optLower (Some (parts ! 0)) of
                None \<Rightarrow> None
              | Some channel \<Rightarrow>
                  if length parts \<ge> 4 \<and> (parts ! 2 = ''direct'' \<or> parts ! 2 = ''dm'') then
                    (case (optString (Some (parts ! 1)), optString (Some (parts ! 3)),
                           optString (Some (joinColon (drop 3 parts)))) of
                       (Some accountId, Some _, Some peerId) \<Rightarrow>
                         Some \<lparr>deliveryAccountId = Some accountId, deliveryChannel = channel, deliveryPeerId = peerId,
                               deliveryPeerKind = parts ! 2, deliveryThreadId = suffixThreadId parsedThread\<rparr>
                     | _ \<Rightarrow> None)
                  else
                    (case (optString (Some (parts ! 2)), optString (Some (joinColon (drop 2 parts)))) of
                       (Some _, Some peerId) \<Rightarrow>
                         if parts ! 1 \<in> set SESSION_DELIVERY_PEER_KINDS
                         then Some \<lparr>deliveryAccountId = None, deliveryChannel = channel, deliveryPeerId = peerId,
                                    deliveryPeerKind = parts ! 1, deliveryThreadId = suffixThreadId parsedThread\<rparr>
                         else None
                     | _ \<Rightarrow> None))))"

record conversation_ref =
  refChannel :: string
  refKind :: string
  refRawId :: string
  refPrefix :: string

definition parseRawSessionConversationRef :: "string option \<Rightarrow> conversation_ref option" where
  "parseRawSessionConversationRef sessionKey =
     (case optString sessionKey of
        None \<Rightarrow> None
      | Some raw \<Rightarrow>
          (let rawParts = splitColon raw;
               hasAgentWrapper = (optLower (partAt rawParts 0) = Some ''agent'')
           in
           if hasAgentWrapper \<and> (optString (partAt rawParts 1) = None \<or> length rawParts < 3) then None
           else
             (let bodyStartIndex = (if hasAgentWrapper then 2 else 0);
                  parts = drop bodyStartIndex rawParts
              in
              if optLower (partAt parts 0) = Some ''agent'' then None
              else if length parts < 3 \<or> optString (partAt parts 2) = None then None
              else
                (case (optLower (partAt parts 0), optLower (partAt parts 1)) of
                   (Some channel, Some kind) \<Rightarrow>
                     if kind \<noteq> ''group'' \<and> kind \<noteq> ''channel'' then None
                     else
                       (case (optString (Some (joinColon (drop 2 parts))),
                              optString (Some (joinColon (take (bodyStartIndex + 2) rawParts)))) of
                          (Some rawId, Some prefix) \<Rightarrow>
                            Some \<lparr>refChannel = channel, refKind = kind, refRawId = rawId, refPrefix = prefix\<rparr>
                        | _ \<Rightarrow> None)
                 | _ \<Rightarrow> None))))"

end
