(* ===== verification/SessionKeys.thy ===== *)
theory SessionKeys
  imports SessionKeyUtils
begin

text \<open>
  \<^verbatim>\<open>src/routing/session-key.ts\<close>: the session keys that routing builds, and how requests name them. The identity
  links of a configuration are its entries in the order of \<^verbatim>\<open>Object.entries\<close>; a value that is no array is \<open>None\<close>.
\<close>

section \<open>Keys of an agent\<close>

definition DEFAULT_MAIN_KEY :: string where "DEFAULT_MAIN_KEY = ''main''"

definition normalizeMainKey :: "string option \<Rightarrow> string" where
  "normalizeMainKey value = (let v = lowerOrEmpty value in if v = [] then DEFAULT_MAIN_KEY else v)"

definition agentKey :: "string \<Rightarrow> string \<Rightarrow> string" where
  "agentKey agentId rest = ''agent:'' @ agentId @ '':'' @ rest"

definition buildAgentMainSessionKey :: "string \<Rightarrow> string option \<Rightarrow> string" where
  "buildAgentMainSessionKey agentId mainKey =
     agentKey (normalizeAgentId (Some agentId)) (normalizeMainKey mainKey)"

definition sanitizeAgentId :: "string option \<Rightarrow> string" where
  "sanitizeAgentId value = normalizeAgentId value"

definition normalizeOptionalAgentId :: "jsval \<Rightarrow> string option" where
  "normalizeOptionalAgentId value = map_option (\<lambda>t. normalizeAgentId (Some t)) (normalizeOptionalString value)"

definition resolveAgentIdFromSessionKey :: "string option \<Rightarrow> string" where
  "resolveAgentIdFromSessionKey sessionKey =
     normalizeAgentId (Some (case parseAgentSessionKey sessionKey of
        Some parsed \<Rightarrow> parsedAgentId parsed | None \<Rightarrow> DEFAULT_AGENT_ID))"

datatype key_shape = MissingKey | AgentKey | LegacyOrAlias | MalformedAgent

definition trimmedOr :: "string option \<Rightarrow> string" where
  "trimmedOr value = js_trim (case value of Some v \<Rightarrow> v | None \<Rightarrow> [])"

definition classifySessionKeyShape :: "string option \<Rightarrow> key_shape" where
  "classifySessionKeyShape sessionKey =
     (let raw = trimmedOr sessionKey in
      if raw = [] then MissingKey
      else if parseAgentSessionKey (Some raw) \<noteq> None then AgentKey
      else if startsWith ''agent:'' (lowerOrEmpty (Some raw)) then MalformedAgent
      else LegacyOrAlias)"

definition isUnscopedSessionKeySentinel :: "string option \<Rightarrow> bool" where
  "isUnscopedSessionKeySentinel sessionKey \<longleftrightarrow> lowerOrEmpty sessionKey \<in> {''global'', ''unknown''}"

section \<open>Requests\<close>

definition toAgentRequestSessionKey :: "string option \<Rightarrow> string option" where
  "toAgentRequestSessionKey storeKey =
     (let raw = trimmedOr storeKey in
      if raw = [] then None
      else Some (case parseAgentSessionKey (Some raw) of Some parsed \<Rightarrow> parsedRest parsed | None \<Rightarrow> raw))"

definition agentSessionKeysMatchByRequestKey :: "string option \<Rightarrow> string option \<Rightarrow> bool" where
  "agentSessionKeysMatchByRequestKey left right =
     (let leftRaw = trimmedOr left; rightRaw = trimmedOr right in
      if leftRaw = [] \<or> rightRaw = [] then False
      else leftRaw = rightRaw \<or> toAgentRequestSessionKey (Some leftRaw) = toAgentRequestSessionKey (Some rightRaw))"

definition toAgentStoreSessionKey :: "string \<Rightarrow> string option \<Rightarrow> string option \<Rightarrow> string" where
  "toAgentStoreSessionKey agentId requestKey mainKey =
     (let raw = trimmedOr requestKey;
          lowered = lowerOrEmpty (Some raw)
      in if raw = [] \<or> lowered = DEFAULT_MAIN_KEY then buildAgentMainSessionKey agentId mainKey
         else
           (case parseAgentSessionKey (Some raw) of
              Some parsed \<Rightarrow> agentKey (parsedAgentId parsed) (parsedRest parsed)
            | None \<Rightarrow>
                (let normalized = normalizeSessionKeyPreservingOpaquePeerIds (Some raw) in
                 if startsWith ''agent:'' lowered then normalized
                 else agentKey (normalizeAgentId (Some agentId)) normalized)))"

definition scopeLegacySessionKeyToAgent :: "string option \<Rightarrow> string option \<Rightarrow> string option \<Rightarrow> string option" where
  "scopeLegacySessionKeyToAgent agentId sessionKey mainKey =
     (let raw = trimmedOr sessionKey in
      if raw = [] then None
      else
        (let agent = trimmedOr agentId in
         if agent = [] \<or> classifySessionKeyShape (Some raw) \<noteq> LegacyOrAlias then Some raw
         else Some (toAgentStoreSessionKey agent (Some raw) mainKey)))"

text \<open>What is added to the options of a heartbeat wake, and the queue an event goes to.\<close>

datatype wake_target = WakeUntargeted | WakeAgent string | WakeSession string

definition scopedHeartbeatWakeOptions :: "string \<Rightarrow> string option \<Rightarrow> bool \<Rightarrow> wake_target" where
  "scopedHeartbeatWakeOptions sessionKey mainKey globalScope =
     (case parseAgentSessionKey (Some sessionKey) of
        None \<Rightarrow> WakeUntargeted
      | Some parsed \<Rightarrow>
          if isCronRunSessionKey (Some sessionKey) then
            (if globalScope then WakeAgent (parsedAgentId parsed)
             else WakeSession (buildAgentMainSessionKey (parsedAgentId parsed) mainKey))
          else WakeSession sessionKey)"

definition resolveEventSessionKey :: "string \<Rightarrow> string option \<Rightarrow> bool \<Rightarrow> string" where
  "resolveEventSessionKey sessionKey mainKey globalScope =
     (case parseAgentSessionKey (Some sessionKey) of
        None \<Rightarrow> sessionKey
      | Some parsed \<Rightarrow>
          if \<not> isCronRunSessionKey (Some sessionKey) then sessionKey
          else if globalScope then ''global''
          else buildAgentMainSessionKey (parsedAgentId parsed) mainKey)"

section \<open>Keys of a peer\<close>

datatype dm_scope = MainScope | PerPeer | PerChannelPeer | PerAccountChannelPeer

type_synonym identity_links = "(string \<times> string list option) list"

definition linkCandidates :: "string \<Rightarrow> string \<Rightarrow> string list" where
  "linkCandidates channel peerId =
     (let rawCandidate = lowerOrEmpty (Some peerId);
          channelToken = lowerOrEmpty (Some channel);
          scopedCandidate = lowerOrEmpty (Some (channelToken @ '':'' @ peerId))
      in (if rawCandidate \<noteq> [] then [rawCandidate] else []) @
         (if channelToken \<noteq> [] \<and> scopedCandidate \<noteq> [] then [scopedCandidate] else []))"

fun findLink :: "string list \<Rightarrow> identity_links \<Rightarrow> string option" where
  "findLink candidates [] = None"
| "findLink candidates ((canonical, ids) # rest) =
     (let canonicalName = js_trim canonical in
      if canonicalName = [] then findLink candidates rest
      else
        (case ids of
           None \<Rightarrow> findLink candidates rest
         | Some list \<Rightarrow>
             if list_ex (\<lambda>i. lowerOrEmpty (Some i) \<noteq> [] \<and> lowerOrEmpty (Some i) \<in> set candidates) list
             then Some canonicalName else findLink candidates rest))"

definition resolveLinkedPeerId :: "identity_links option \<Rightarrow> string \<Rightarrow> string \<Rightarrow> string option" where
  "resolveLinkedPeerId identityLinks channel rawPeerId =
     (case identityLinks of
        None \<Rightarrow> None
      | Some links \<Rightarrow>
          (let peerId = js_trim rawPeerId in
           if peerId = [] then None
           else
             (let candidates = linkCandidates channel peerId in
              if candidates = [] then None else findLink candidates links)))"

definition channelToken :: "string \<Rightarrow> string" where
  "channelToken channel = (let c = lowerOrEmpty (Some channel) in if c = [] then ''unknown'' else c)"

definition directPeerId :: "string \<Rightarrow> string option \<Rightarrow> identity_links option \<Rightarrow> dm_scope \<Rightarrow> string" where
  "directPeerId channel peerId identityLinks dmScope =
     (let p = trimmedOr peerId;
          linkedPeerId = (if dmScope = MainScope then None else resolveLinkedPeerId identityLinks channel p)
      in lowerOrEmpty (Some (case linkedPeerId of Some l \<Rightarrow> if l \<noteq> [] then l else p | None \<Rightarrow> p)))"

definition buildAgentPeerSessionKey ::
    "string \<Rightarrow> string option \<Rightarrow> string \<Rightarrow> string option \<Rightarrow> chat_type option \<Rightarrow> string option \<Rightarrow> identity_links option
      \<Rightarrow> dm_scope option \<Rightarrow> string" where
  "buildAgentPeerSessionKey agentId mainKey channel accountId peerKind peerId identityLinks dmScope =
     (let kind = (case peerKind of Some k \<Rightarrow> k | None \<Rightarrow> DirectChat);
          agent = normalizeAgentId (Some agentId)
      in if kind = DirectChat then
           (let scope = (case dmScope of Some d \<Rightarrow> d | None \<Rightarrow> MainScope);
                peer = directPeerId channel peerId identityLinks scope
            in if scope = PerAccountChannelPeer \<and> peer \<noteq> [] then
                 agentKey agent (channelToken channel @ '':'' @ normalizeAccountId accountId @ '':direct:'' @ peer)
               else if scope = PerChannelPeer \<and> peer \<noteq> [] then
                 agentKey agent (channelToken channel @ '':direct:'' @ peer)
               else if scope = PerPeer \<and> peer \<noteq> [] then agentKey agent (''direct:'' @ peer)
               else buildAgentMainSessionKey agentId mainKey)
         else
           (let peer = normalizeSessionPeerId (Some channel) (Some (chatTypeText kind)) peerId
            in agentKey agent
                 (channelToken channel @ '':'' @ chatTypeText kind @ '':'' @ (if peer = [] then ''unknown'' else peer))))"

definition buildGroupHistoryKey :: "string \<Rightarrow> string option \<Rightarrow> chat_type \<Rightarrow> string \<Rightarrow> string" where
  "buildGroupHistoryKey rawChannel accountId peerKind peerId =
     (let channel = channelToken rawChannel;
          peer = normalizeSessionPeerId (Some channel) (Some (chatTypeText peerKind)) (Some peerId)
      in channel @ '':'' @ normalizeAccountId accountId @ '':'' @ chatTypeText peerKind @ '':'' @
         (if peer = [] then ''unknown'' else peer))"

definition resolveThreadSessionKeys ::
    "string \<Rightarrow> string option \<Rightarrow> string option \<Rightarrow> bool option \<Rightarrow> (string \<Rightarrow> string) option \<Rightarrow> string \<times> string option" where
  "resolveThreadSessionKeys baseSessionKey rawThreadId parentSessionKey useSuffix normalizeThreadId =
     (let threadId = trimmedOr rawThreadId in
      if threadId = [] then (baseSessionKey, None)
      else
        (let normalizedThread =
               (case normalizeThreadId of Some f \<Rightarrow> f threadId | None \<Rightarrow> lowerOrEmpty (Some threadId))
         in (if (case useSuffix of Some u \<Rightarrow> u | None \<Rightarrow> True)
             then baseSessionKey @ '':thread:'' @ normalizedThread else baseSessionKey,
             parentSessionKey)))"

end
