(* ===== verification/SessionKeyProps.thy ===== *)
theory SessionKeyProps
  imports SessionKeys
begin

text \<open>
  What the keys of SessionKeys separate: two conversations have one session exactly when their identities,
  taken at the scope of direct messages, are the same.
\<close>

section \<open>The identity of a conversation\<close>

record conversation =
  convChannel :: string
  convAccount :: "string option"
  convKind :: chat_type
  convPeer :: "string option"

definition conversationKey :: "string \<Rightarrow> string option \<Rightarrow> identity_links option \<Rightarrow> dm_scope \<Rightarrow> conversation \<Rightarrow> string" where
  "conversationKey agentId mainKey links scope c =
     buildAgentPeerSessionKey agentId mainKey (convChannel c) (convAccount c) (Some (convKind c)) (convPeer c) links
       (Some scope)"

datatype session_identity =
    MainSession
  | PeerSession string
  | ChannelPeerSession string string
  | AccountPeerSession string string string
  | SpaceSession string chat_type string

definition sessionIdentity :: "identity_links option \<Rightarrow> dm_scope \<Rightarrow> conversation \<Rightarrow> session_identity" where
  "sessionIdentity links scope c =
     (if convKind c = DirectChat then
        (let peer = directPeerId (convChannel c) (convPeer c) links scope in
         if peer = [] then MainSession
         else
           (case scope of
              MainScope \<Rightarrow> MainSession
            | PerPeer \<Rightarrow> PeerSession peer
            | PerChannelPeer \<Rightarrow> ChannelPeerSession (channelToken (convChannel c)) peer
            | PerAccountChannelPeer \<Rightarrow>
                AccountPeerSession (channelToken (convChannel c)) (normalizeAccountId (convAccount c)) peer))
      else
        (let peer = normalizeSessionPeerId (Some (convChannel c)) (Some (chatTypeText (convKind c))) (convPeer c)
         in SpaceSession (channelToken (convChannel c)) (convKind c) (if peer = [] then ''unknown'' else peer)))"

text \<open>The peer of a group or channel.\<close>

definition spacePeer :: "conversation \<Rightarrow> string" where
  "spacePeer c =
     (let peer = normalizeSessionPeerId (Some (convChannel c)) (Some (chatTypeText (convKind c))) (convPeer c)
      in if peer = [] then ''unknown'' else peer)"

fun identityText :: "string option \<Rightarrow> session_identity \<Rightarrow> string" where
  "identityText mainKey MainSession = normalizeMainKey mainKey"
| "identityText mainKey (PeerSession p) = chatTypeText DirectChat @ CHR '':'' # p"
| "identityText mainKey (ChannelPeerSession c p) = c @ CHR '':'' # chatTypeText DirectChat @ CHR '':'' # p"
| "identityText mainKey (AccountPeerSession c a p) = c @ CHR '':'' # a @ CHR '':'' # chatTypeText DirectChat @ CHR '':'' # p"
| "identityText mainKey (SpaceSession c k p) = c @ CHR '':'' # chatTypeText k @ CHR '':'' # p"

lemma conversationKey_text:
  "conversationKey agentId mainKey links scope c =
     agentKey (normalizeAgentId (Some agentId)) (identityText mainKey (sessionIdentity links scope c))"
  by (auto simp: conversationKey_def buildAgentPeerSessionKey_def sessionIdentity_def buildAgentMainSessionKey_def
      Let_def split: dm_scope.splits)

text \<open>
  A channel whose name has no colon and is not \<^verbatim>\<open>direct\<close>, an account not named like a kind of space, and a
  main key without a colon: what the names of a gateway are.
\<close>

definition plainConversation :: "conversation \<Rightarrow> bool" where
  "plainConversation c \<longleftrightarrow>
     CHR '':'' \<notin> set (channelToken (convChannel c)) \<and> channelToken (convChannel c) \<noteq> ''direct'' \<and>
     normalizeAccountId (convAccount c) \<notin> {''direct'', ''group'', ''channel''}"

section \<open>Separation\<close>

lemma split_colon:
  "CHR '':'' \<notin> set a \<Longrightarrow> CHR '':'' \<notin> set b \<Longrightarrow> a @ CHR '':'' # r = b @ CHR '':'' # q \<longleftrightarrow> a = b \<and> r = q"
proof (induction a arbitrary: b)
  case Nil
  then show ?case by (cases b) auto
next
  case (Cons x xs)
  then show ?case by (cases b) auto
qed

lemma split_colon_end:
  "CHR '':'' \<notin> set b \<Longrightarrow> a @ CHR '':'' # r \<noteq> b"
  by auto

lemma canonical_no_colon: "canonicalId s \<Longrightarrow> CHR '':'' \<notin> set s"
  by (rule canonical_not_in) (simp_all add: isIdLower_def)

lemma kind_no_colon: "CHR '':'' \<notin> set (chatTypeText k)"
  by (cases k) simp_all

lemma kind_text_inj: "chatTypeText k = chatTypeText l \<longleftrightarrow> k = l"
  by (cases k; cases l) simp_all

lemma agentKey_inj:
  "agentKey (normalizeAgentId a) r = agentKey (normalizeAgentId b) q \<longleftrightarrow> normalizeAgentId a = normalizeAgentId b \<and> r = q"
  using split_colon [of "normalizeAgentId a" "normalizeAgentId b" r q]
    canonical_no_colon [OF normalizeAgentId_canonical]
  by (simp add: agentKey_def)

text \<open>The identities that one scope gives to plain conversations.\<close>

fun plainIdentity :: "dm_scope \<Rightarrow> session_identity \<Rightarrow> bool" where
  "plainIdentity scope MainSession = True"
| "plainIdentity scope (PeerSession p) = (scope = PerPeer)"
| "plainIdentity scope (ChannelPeerSession c p) = (scope = PerChannelPeer \<and> CHR '':'' \<notin> set c)"
| "plainIdentity scope (AccountPeerSession c a p) =
     (scope = PerAccountChannelPeer \<and> CHR '':'' \<notin> set c \<and> CHR '':'' \<notin> set a \<and> a \<notin> range chatTypeText)"
| "plainIdentity scope (SpaceSession c k p) =
     (CHR '':'' \<notin> set c \<and> c \<noteq> chatTypeText DirectChat \<and> k \<noteq> DirectChat)"

lemma kind_texts: "range chatTypeText = {''direct'', ''group'', ''channel''}"
proof -
  have "(UNIV :: chat_type set) = {DirectChat, GroupChat, ChannelChat}"
    using chat_type.exhaust by blast
  then have "range chatTypeText = chatTypeText ` {DirectChat, GroupChat, ChannelChat}" by (rule arg_cong)
  then show ?thesis by simp
qed

lemma plain_identity: "plainConversation c \<Longrightarrow> plainIdentity scope (sessionIdentity links scope c)"
  using canonical_no_colon [OF normalizeAccountId_canonical]
  by (auto simp: plainConversation_def sessionIdentity_def Let_def kind_texts split: dm_scope.split)

lemma kind_not_in: "a \<notin> range chatTypeText \<Longrightarrow> a \<noteq> chatTypeText k \<and> chatTypeText k \<noteq> a"
  by auto

lemma identity_text_inj:
  assumes "plainIdentity scope i" "plainIdentity scope j" and m: "CHR '':'' \<notin> set (normalizeMainKey mainKey)"
  shows "identityText mainKey i = identityText mainKey j \<longleftrightarrow> i = j"
proof -
  have "a @ CHR '':'' # r \<noteq> normalizeMainKey mainKey" "normalizeMainKey mainKey \<noteq> a @ CHR '':'' # r" for a r
    using split_colon_end [OF m] by metis+
  with assms(1,2) show ?thesis
    by (cases i; cases j)
      (auto simp del: chatTypeText.simps simp: split_colon kind_no_colon kind_text_inj kind_not_in)
qed

text \<open>
  C14. The session key of a conversation separates what the scope of direct messages asks for. Take two plain
  conversations: the channel names have no colon and are not \<^verbatim>\<open>direct\<close>, the accounts are not named like a kind of
  conversation, and the main key has no colon. They share a session of their agents precisely when the agents are one
  and their identities at the scope are the same: the main session; the peer; the channel and the peer; the channel, the
  account and the peer; or, for a group or channel, the channel, the kind and the peer. The peer is the one the
  identity links and the case folding of the code give. So a direct message never shares a session with a group or
  channel, and two groups or channels share one only on one channel, of one kind and with one peer.
\<close>

theorem sessions_are_separated:
  assumes "plainConversation c" "plainConversation d" "CHR '':'' \<notin> set (normalizeMainKey mainKey)"
  shows "(conversationKey a mainKey links scope c = conversationKey b mainKey links scope d \<longleftrightarrow>
      normalizeAgentId (Some a) = normalizeAgentId (Some b) \<and>
      sessionIdentity links scope c = sessionIdentity links scope d) \<and>
    (conversationKey a mainKey links scope c = conversationKey b mainKey links scope d \<longrightarrow>
      (convKind c = DirectChat \<longleftrightarrow> convKind d = DirectChat) \<and>
      (convKind c \<noteq> DirectChat \<longrightarrow>
         convKind d = convKind c \<and> channelToken (convChannel d) = channelToken (convChannel c) \<and>
         spacePeer d = spacePeer c))"
proof -
  have eq: "conversationKey a mainKey links scope c = conversationKey b mainKey links scope d \<longleftrightarrow>
      normalizeAgentId (Some a) = normalizeAgentId (Some b) \<and>
      sessionIdentity links scope c = sessionIdentity links scope d"
    using identity_text_inj [OF plain_identity [OF assms(1)] plain_identity [OF assms(2)] assms(3)]
    by (simp only: conversationKey_text agentKey_inj)
  have direct: "convKind x = DirectChat \<longleftrightarrow> (\<forall>ch k p. sessionIdentity links scope x \<noteq> SpaceSession ch k p)" for x
    by (auto simp: sessionIdentity_def Let_def split: dm_scope.splits)
  have space: "sessionIdentity links scope x = SpaceSession (channelToken (convChannel x)) (convKind x) (spacePeer x)"
    if "convKind x \<noteq> DirectChat" for x
    using that by (simp add: sessionIdentity_def spacePeer_def Let_def)
  show ?thesis
  proof (intro conjI impI eq)
    assume "conversationKey a mainKey links scope c = conversationKey b mainKey links scope d"
    then have same: "sessionIdentity links scope c = sessionIdentity links scope d" using eq by blast
    then show kinds: "convKind c = DirectChat \<longleftrightarrow> convKind d = DirectChat" using direct [of c] direct [of d] by simp
    assume "convKind c \<noteq> DirectChat"
    with kinds space [of c] space [of d] same
    show "convKind d = convKind c" "channelToken (convChannel d) = channelToken (convChannel c)"
      "spacePeer d = spacePeer c" by simp_all
  qed
qed

definition sample_conversation :: "chat_type \<Rightarrow> string \<Rightarrow> conversation" where
  "sample_conversation k p = \<lparr>convChannel = ''Discord'', convAccount = None, convKind = k, convPeer = Some p\<rparr>"

lemma sessions_are_separated_witness:
  "conversationKey ''main'' None None PerChannelPeer (sample_conversation DirectChat ''42'') \<noteq>
     conversationKey ''main'' None None PerChannelPeer (sample_conversation GroupChat ''42'')"
proof -
  have "plainConversation (sample_conversation DirectChat ''42'')" "plainConversation (sample_conversation GroupChat ''42'')"
    "CHR '':'' \<notin> set (normalizeMainKey None)"
    "sessionIdentity None PerChannelPeer (sample_conversation DirectChat ''42'') \<noteq>
      sessionIdentity None PerChannelPeer (sample_conversation GroupChat ''42'')"
    by code_simp+
  then show ?thesis using sessions_are_separated by blast
qed

section \<open>Parsing a built key\<close>

lemma js_lower_idem [simp]: "js_lower (js_lower c) = js_lower c"
  by (auto simp: js_lower_def Let_def of_char_of)

lemma space_code: "is_js_space c \<longleftrightarrow> of_char c \<in> {9, 10, 11, 12, 13, 32, 160 :: nat}"
  by (simp add: is_js_space_def flip: of_char_eq_iff [where ?'a = nat])

lemma space_lower [simp]: "is_js_space (js_lower c) = is_js_space c"
  by (auto simp: js_lower_def space_code Let_def of_char_of)

lemma lower_idem [simp]: "toLowerCase (toLowerCase s) = toLowerCase s"
  by (simp add: toLowerCase_def)

lemma trim_lower: "js_trim (toLowerCase s) = toLowerCase (js_trim s)"
  by (simp add: js_trim_def toLowerCase_def dropWhile_map rev_map comp_def)

lemma lowerOrEmpty_eq: "lowerOrEmpty v = toLowerCase (js_trim (case v of Some s \<Rightarrow> s | None \<Rightarrow> []))"
  by (cases v)
    (simp_all add: lowerOrEmpty_def normalizeLowercaseStringOrEmpty_def normalizeOptionalLowercaseString_def
      normalizeOptionalString_def opt_string_def Let_def js_trim_def toLowerCase_def)

lemma optString_trimmed: "js_trim s = s \<Longrightarrow> s \<noteq> [] \<Longrightarrow> optString (Some s) = Some s"
  by (simp add: optString_def opt_string_def normalizeOptionalString_def Let_def)

lemma id_lower_fixed: "isIdLower c \<Longrightarrow> js_lower c = c \<and> \<not> is_js_space c"
  by (auto simp: isIdLower_def js_lower_def is_js_space_def Let_def)

lemma canonical_fixed: "canonicalId s \<Longrightarrow> toLowerCase s = s \<and> js_trim s = s \<and> s \<noteq> []"
proof -
  assume s: "canonicalId s"
  then have "\<forall>c \<in> set s. js_lower c = c \<and> \<not> is_js_space c" "s \<noteq> []"
    using id_lower_fixed by (auto simp: canonicalId_def list_all_iff)
  then show ?thesis
    using dropWhile_id [of s is_js_space] dropWhile_id [of "rev s" is_js_space]
    by (simp add: toLowerCase_def js_trim_def hd_rev map_idI)
qed

lemma split_not_nil [simp]: "splitColon s \<noteq> []"
  by (cases s) (auto split: list.split)

lemma join_split: "joinColon (splitColon s) = s"
proof (induction s)
  case (Cons x xs)
  then show ?case
    by (cases "splitColon xs" rule: joinColon.cases) auto
qed simp

lemma split_append: "CHR '':'' \<notin> set a \<Longrightarrow> splitColon (a @ CHR '':'' # s) = a # splitColon s"
  by (induction a) auto

lemma join_cons: "ps \<noteq> [] \<Longrightarrow> joinColon (p # ps) = p @ CHR '':'' # joinColon ps"
  by (cases ps) auto

text \<open>A text that starts and ends without white space.\<close>

lemma trim_id: "s \<noteq> [] \<Longrightarrow> \<not> is_js_space (hd s) \<Longrightarrow> \<not> is_js_space (last s) \<Longrightarrow> js_trim s = s"
  using dropWhile_id [of s is_js_space] dropWhile_id [of "rev s" is_js_space] by (simp add: js_trim_def hd_rev)

definition spaceKey :: "string \<Rightarrow> string \<Rightarrow> chat_type \<Rightarrow> string \<Rightarrow> string" where
  "spaceKey ag channel kind p = agentKey ag (channel @ CHR '':'' # chatTypeText kind @ CHR '':'' # p)"

lemma spaceKey_parts:
  assumes "canonicalId ag" "CHR '':'' \<notin> set channel"
  shows "splitColon (spaceKey ag channel kind p) = [''agent'', ag, channel, chatTypeText kind] @ splitColon p"
proof -
  have "splitColon (''agent'' @ CHR '':'' # s) = ''agent'' # splitColon s" for s by (rule split_append) simp
  then show ?thesis
    using split_append [OF canonical_no_colon [OF assms(1)]] split_append [OF assms(2)] split_append [OF kind_no_colon]
    by (simp add: spaceKey_def agentKey_def)
qed

lemma spaceKey_trim:
  assumes "p \<noteq> []" "js_trim p = p"
  shows "js_trim (spaceKey ag channel kind p) = spaceKey ag channel kind p"
proof -
  have "\<not> is_js_space (last p)" using js_trim_ends [of p] assms by auto
  moreover have "\<not> is_js_space CHR ''a''" by code_simp
  ultimately show ?thesis
    using assms(1) by (intro trim_id) (simp_all add: spaceKey_def agentKey_def)
qed

lemma kind_lower: "toLowerCase (chatTypeText k) = chatTypeText k"
  by (induction k) code_simp+

lemma spaceKey_lower:
  assumes "canonicalId ag" "toLowerCase channel = channel" "toLowerCase p = p"
  shows "toLowerCase (spaceKey ag channel kind p) = spaceKey ag channel kind p"
proof -
  have "toLowerCase ''agent:'' = ''agent:''" "js_lower CHR '':'' = CHR '':''" by code_simp+
  then show ?thesis
    using assms canonical_fixed [OF assms(1)] kind_lower
    by (simp add: spaceKey_def agentKey_def toLowerCase_def)
qed

lemma lower_token: "lowerOrEmpty (Some s) = t \<Longrightarrow> t \<noteq> [] \<Longrightarrow> toLowerCase t = t \<and> js_trim t = t"
  by (auto simp: lowerOrEmpty_eq trim_lower)

lemma channelToken_fixed:
  "toLowerCase (channelToken c) = channelToken c \<and> js_trim (channelToken c) = channelToken c \<and> channelToken c \<noteq> []"
proof (cases "lowerOrEmpty (Some c) = []")
  case True
  have "toLowerCase ''unknown'' = ''unknown''" "js_trim ''unknown'' = ''unknown''" by code_simp+
  with True show ?thesis by (simp add: channelToken_def)
next
  case False
  then show ?thesis using lower_token [OF refl False] by (simp add: channelToken_def Let_def)
qed

lemma spacePeer_fixed:
  assumes "\<not> isCasePreservingPeer (Some (convChannel c)) (Some (chatTypeText (convKind c)))"
  shows "toLowerCase (spacePeer c) = spacePeer c \<and> js_trim (spacePeer c) = spacePeer c \<and> spacePeer c \<noteq> []"
proof -
  let ?p = "normalizeSessionPeerId (Some (convChannel c)) (Some (chatTypeText (convKind c))) (convPeer c)"
  have "toLowerCase ''unknown'' = ''unknown''" "js_trim ''unknown'' = ''unknown''" by code_simp+
  moreover have "?p \<noteq> [] \<Longrightarrow> toLowerCase ?p = ?p \<and> js_trim ?p = ?p"
    using assms lower_token [OF refl] by (auto simp: normalizeSessionPeerId_def Let_def split: if_splits)
  ultimately show ?thesis by (simp add: spacePeer_def Let_def)
qed

lemma space_conversation_key:
  "convKind c \<noteq> DirectChat \<Longrightarrow>
     conversationKey a mainKey links scope c =
       spaceKey (normalizeAgentId (Some a)) (channelToken (convChannel c)) (convKind c) (spacePeer c)"
  by (simp add: conversationKey_text sessionIdentity_def spaceKey_def spacePeer_def Let_def)

text \<open>
  A group or channel whose key the parsers can read: the channel has no colon in its name, the ids of its peers are not case
  sensitive, the peer's first segment is not blank and is no kind of direct message, and neither the mark of a thread nor that
  of a case-sensitive channel occurs.
\<close>

definition readableSpace :: "string \<Rightarrow> conversation \<Rightarrow> bool" where
  "readableSpace a c \<longleftrightarrow>
     (let channel = channelToken (convChannel c);
          key = spaceKey (normalizeAgentId (Some a)) channel (convKind c) (spacePeer c);
          firstSegment = hd (splitColon (spacePeer c))
      in convKind c \<noteq> DirectChat \<and> CHR '':'' \<notin> set channel \<and> channel \<noteq> ''agent'' \<and>
         \<not> isCasePreservingPeer (Some (convChannel c)) (Some (chatTypeText (convKind c))) \<and>
         js_trim firstSegment \<noteq> [] \<and> firstSegment \<notin> {''direct'', ''dm''} \<and>
         lastIndexOf '':thread:'' key = None \<and> \<not> mayContainCasePreservingPeer key)"

lemma optString_some: "js_trim s \<noteq> [] \<Longrightarrow> optString (Some s) = Some (js_trim s)"
  by (simp add: optString_def opt_string_def normalizeOptionalString_def Let_def)

lemma optLower_some: "js_trim s \<noteq> [] \<Longrightarrow> optLower (Some s) = Some (toLowerCase (js_trim s))"
  by (simp add: optLower_def opt_string_def normalizeOptionalLowercaseString_def normalizeOptionalString_def Let_def)

lemma parse_space_key:
  assumes "canonicalId ag" "CHR '':'' \<notin> set ch" "toLowerCase ch = ch" "ch \<noteq> []"
    and p: "toLowerCase p = p" "js_trim p = p" "p \<noteq> []"
    and key: "key = spaceKey ag ch kind p" "\<not> mayContainCasePreservingPeer key"
  shows "parseAgentSessionKey (Some key) =
    Some \<lparr>parsedAgentId = ag, parsedRest = ch @ CHR '':'' # chatTypeText kind @ CHR '':'' # p\<rparr>"
proof -
  have trim: "js_trim key = key" "key \<noteq> []"
    using spaceKey_trim [OF p(3,2)] key(1) by (simp_all add: spaceKey_def agentKey_def)
  have "normalizeSessionKeyPreservingOpaquePeerIds (Some key) = key"
    using key(2) optString_some [of key] trim spaceKey_lower [OF assms(1,3) p(1)] key(1)
    by (simp add: normalizeSessionKeyPreservingOpaquePeerIds_def)
  moreover have "splitColon key = [''agent'', ag, ch, chatTypeText kind] @ splitColon p"
    using spaceKey_parts [OF assms(1,2)] key(1) by simp
  moreover have "joinColon (ch # chatTypeText kind # splitColon p) = ch @ CHR '':'' # chatTypeText kind @ CHR '':'' # p"
    by (simp add: join_cons join_split)
  moreover have "optString (Some ag) = Some ag" "ag \<noteq> []"
    using canonical_fixed [OF assms(1)] optString_some [of ag] by auto
  ultimately show ?thesis
    using assms(4) trim by (simp add: parseAgentSessionKey_def)
qed

text \<open>
  C23. Building and parsing agree: the key that routing builds for a readable group or channel parses to the
  agent, and to a delivery route with the channel, the kind and the peer the key was built from, no account
  and no thread. So a reply that starts from a session key goes back to the conversation the session belongs to.
\<close>

theorem built_keys_parse:
  assumes "readableSpace a c" and key: "key = conversationKey a mainKey links scope c"
  shows "map_option parsedAgentId (parseAgentSessionKey (Some key)) = Some (normalizeAgentId (Some a)) \<and>
    parseSessionDeliveryRoute (Some key) =
      Some \<lparr>deliveryAccountId = None, deliveryChannel = channelToken (convChannel c), deliveryPeerId = spacePeer c,
            deliveryPeerKind = chatTypeText (convKind c), deliveryThreadId = None\<rparr>"
proof -
  let ?ag = "normalizeAgentId (Some a)" and ?ch = "channelToken (convChannel c)" and ?p = "spacePeer c"
  have r: "convKind c \<noteq> DirectChat" "CHR '':'' \<notin> set ?ch" "?ch \<noteq> ''agent''"
    "\<not> isCasePreservingPeer (Some (convChannel c)) (Some (chatTypeText (convKind c)))"
    "js_trim (hd (splitColon ?p)) \<noteq> []" "hd (splitColon ?p) \<notin> {''direct'', ''dm''}"
    "lastIndexOf '':thread:'' (spaceKey ?ag ?ch (convKind c) ?p) = None"
    "\<not> mayContainCasePreservingPeer (spaceKey ?ag ?ch (convKind c) ?p)"
    using assms(1) by (simp_all add: readableSpace_def Let_def)
  have key: "key = spaceKey ?ag ?ch (convKind c) ?p" using key space_conversation_key [OF r(1)] by simp
  note ch = channelToken_fixed [of "convChannel c"] and p = spacePeer_fixed [OF r(4)]
  have parsed: "parseAgentSessionKey (Some key) =
      Some \<lparr>parsedAgentId = ?ag, parsedRest = ?ch @ CHR '':'' # chatTypeText (convKind c) @ CHR '':'' # ?p\<rparr>"
    using parse_space_key [OF normalizeAgentId_canonical r(2) _ _ _ _ _ key] ch p r(8) key by simp
  have trim: "js_trim key = key" "key \<noteq> []"
    using spaceKey_trim [of ?p] p key by (simp_all add: spaceKey_def agentKey_def)
  have "lowerOrEmpty (Some key) = key"
    using trim spaceKey_lower [OF normalizeAgentId_canonical, of ?ch ?p] ch p key by (simp add: lowerOrEmpty_eq)
  then have thread: "parseThreadSessionSuffix (Some key) = \<lparr>suffixBaseKey = Some key, suffixThreadId = None\<rparr>"
    using r(7) key trim optString_some [of key]
    by (simp add: parseThreadSessionSuffix_def optString_def opt_string_def normalizeOptionalString_def)
  obtain x xs where x: "splitColon ?p = x # xs" by (cases "splitColon ?p") simp_all
  then have parts: "splitColon (?ch @ CHR '':'' # chatTypeText (convKind c) @ CHR '':'' # ?p) =
      ?ch # chatTypeText (convKind c) # x # xs" "joinColon (x # xs) = ?p"
    using split_append [OF r(2)] split_append [OF kind_no_colon] join_split [of ?p] by simp_all
  have "chatTypeText (convKind c) \<in> set SESSION_DELIVERY_PEER_KINDS"
    by (cases "convKind c") (simp_all add: SESSION_DELIVERY_PEER_KINDS_def)
  moreover have "optLower (Some ?ch) = Some ?ch" using optLower_some ch by simp
  moreover have "optString (Some x) \<noteq> None" using optString_some r(5) x by simp
  moreover have "optString (Some ?p) = Some ?p" using optString_some p by simp
  ultimately have "parseSessionDeliveryRoute (Some key) =
      Some \<lparr>deliveryAccountId = None, deliveryChannel = ?ch, deliveryPeerId = ?p,
            deliveryPeerKind = chatTypeText (convKind c), deliveryThreadId = None\<rparr>"
    using r(3,6) x by (auto simp: parseSessionDeliveryRoute_def thread parsed parts)
  with parsed show ?thesis by simp
qed

lemma built_keys_parse_witness:
  "parseSessionDeliveryRoute (Some (conversationKey ''Ops'' None None MainScope (sample_conversation GroupChat ''Team:9''))) =
     Some \<lparr>deliveryAccountId = None, deliveryChannel = ''discord'', deliveryPeerId = ''team:9'',
           deliveryPeerKind = ''group'', deliveryThreadId = None\<rparr>"
proof -
  have "readableSpace ''Ops'' (sample_conversation GroupChat ''Team:9'')"
    "channelToken (convChannel (sample_conversation GroupChat ''Team:9'')) = ''discord''"
    "spacePeer (sample_conversation GroupChat ''Team:9'') = ''team:9''"
    "chatTypeText (convKind (sample_conversation GroupChat ''Team:9'')) = ''group''"
    by code_simp+
  then show ?thesis using built_keys_parse [OF _ refl, of "''Ops''"] by metis
qed

text \<open>
  A peer id of a group whose first segment names a kind of direct message reads as a direct message of an account.
\<close>

lemma group_read_as_direct:
  "map_option deliveryPeerKind (parseSessionDeliveryRoute
     (Some (conversationKey ''main'' None None MainScope (sample_conversation GroupChat ''dm:9'')))) = Some ''dm''"
  by code_simp

end
