(* ===== verification/RouteBindings.thy ===== *)
theory RouteBindings
  imports SessionKeys
begin

text \<open>
  The bindings of a configuration that name an agent for a channel: \<^verbatim>\<open>src/config/bindings.ts\<close>,
  \<^verbatim>\<open>src/routing/binding-scope.ts\<close>, \<^verbatim>\<open>src/routing/bindings.ts\<close>, \<^verbatim>\<open>src/routing/bound-account-read.ts\<close> and the default agent
  of \<^verbatim>\<open>src/agents/agent-scope-config.ts\<close>. The catalog of chat channels, whose entries are generated or read from the
  packages (\<^verbatim>\<open>src/channels/ids.ts\<close>), is an argument.
\<close>

section \<open>Data\<close>

text \<open>An id in a configuration or an event; a number is given by its text \<^verbatim>\<open>String(value)\<close>.\<close>

datatype route_id = IdText string | IdNumber string | IdOther

record binding_peer =
  rawPeerKind :: "string option"
  rawPeerId :: route_id

record binding_match =
  matchChannel :: "string option"
  matchAccountId :: "string option"
  matchPeer :: "binding_peer option"
  matchGuildId :: route_id
  matchTeamId :: route_id
  matchRoles :: "string list option"

record agent_binding =
  bindingType :: "string option"
  bindingAgentId :: string
  bindingMatch :: "binding_match option"
  bindingDmScope :: "dm_scope option"

record agent_entry =
  entryId :: "string option"
  entryDefault :: bool

section \<open>Configured bindings\<close>

definition isRouteBinding :: "agent_binding \<Rightarrow> bool" where
  "isRouteBinding b \<longleftrightarrow> bindingType b \<noteq> Some ''acp''"

definition isAcpBinding :: "agent_binding \<Rightarrow> bool" where
  "isAcpBinding b \<longleftrightarrow> bindingType b = Some ''acp''"

text \<open>The bindings of a configuration; \<open>None\<close> where it has none or no array.\<close>

definition listConfiguredBindings :: "agent_binding list option \<Rightarrow> agent_binding list" where
  "listConfiguredBindings bindings = (case bindings of Some bs \<Rightarrow> bs | None \<Rightarrow> [])"

definition listRouteBindings :: "agent_binding list option \<Rightarrow> agent_binding list" where
  "listRouteBindings bindings = filter isRouteBinding (listConfiguredBindings bindings)"

definition listAcpBindings :: "agent_binding list option \<Rightarrow> agent_binding list" where
  "listAcpBindings bindings = filter isAcpBinding (listConfiguredBindings bindings)"

definition listBindings :: "agent_binding list option \<Rightarrow> agent_binding list" where
  "listBindings bindings = listRouteBindings bindings"

section \<open>The default agent\<close>

definition resolveDefaultAgentId :: "agent_entry list \<Rightarrow> string" where
  "resolveDefaultAgentId agents =
     (case agents of
        [] \<Rightarrow> DEFAULT_AGENT_ID
      | first # _ \<Rightarrow>
          (let chosen = (case filter entryDefault agents of d # _ \<Rightarrow> d | [] \<Rightarrow> first);
               chosenId = trimmedOr (entryId chosen)
           in normalizeAgentId (Some (if chosenId = [] then DEFAULT_AGENT_ID else chosenId))))"

definition listAgentIds :: "agent_entry list \<Rightarrow> string list" where
  "listAgentIds agents =
     (if agents = [] then [DEFAULT_AGENT_ID]
      else
        (let ids = uniqueStrings (map (\<lambda>e. normalizeAgentId (entryId e)) agents)
         in if length ids > 0 then ids else [DEFAULT_AGENT_ID]))"

section \<open>Channels\<close>

record channel_entry =
  catalogId :: string
  catalogAliases :: "string list"

text \<open>The bundled entries and the entries of the runtime catalog.\<close>

record channel_catalog =
  bundledChannels :: "channel_entry list"
  runtimeChannels :: "channel_entry list"

text \<open>A later alias of the same text replaces an earlier one.\<close>

definition channelAlias :: "channel_catalog \<Rightarrow> string \<Rightarrow> string option" where
  "channelAlias catalog n =
     jm_get (rev (concat (map (\<lambda>e. map (\<lambda>a. (a, catalogId e)) (catalogAliases e)) (bundledChannels catalog)))) n"

definition normalizeRuntimeBundledChatChannelId :: "channel_catalog \<Rightarrow> string \<Rightarrow> string option" where
  "normalizeRuntimeBundledChatChannelId catalog normalized =
     map_option catalogId
       (find (\<lambda>e. catalogId e = normalized \<or> normalized \<in> set (catalogAliases e)) (runtimeChannels catalog))"

definition normalizeChatChannelId :: "channel_catalog \<Rightarrow> string option \<Rightarrow> string option" where
  "normalizeChatChannelId catalog raw =
     (case optLower raw of
        None \<Rightarrow> None
      | Some normalized \<Rightarrow>
          (let resolved = (case channelAlias catalog normalized of Some c \<Rightarrow> c | None \<Rightarrow> normalized) in
           if resolved \<in> set (map catalogId (bundledChannels catalog)) then Some resolved
           else normalizeRuntimeBundledChatChannelId catalog normalized))"

section \<open>Scopes of a binding\<close>

fun normalizeRouteBindingId :: "route_id \<Rightarrow> string" where
  "normalizeRouteBindingId (IdText s) = js_trim s"
| "normalizeRouteBindingId (IdNumber s) = js_trim s"
| "normalizeRouteBindingId IdOther = []"

definition normalizeRouteBindingRoles :: "string list option \<Rightarrow> string list option" where
  "normalizeRouteBindingRoles value = (case value of Some rs \<Rightarrow> if rs \<noteq> [] then Some rs else None | None \<Rightarrow> None)"

definition normalizeRouteBindingChannelId :: "channel_catalog \<Rightarrow> string option \<Rightarrow> string option" where
  "normalizeRouteBindingChannelId catalog raw =
     (case normalizeChatChannelId catalog raw of
        Some c \<Rightarrow> if c \<noteq> [] then Some c else (let f = lowerOrEmpty raw in if f = [] then None else Some f)
      | None \<Rightarrow> (let f = lowerOrEmpty raw in if f = [] then None else Some f))"

record normalized_match =
  normAgentId :: string
  normAccountId :: string
  normChannelId :: string

definition resolveNormalizedRouteBindingMatch :: "channel_catalog \<Rightarrow> agent_binding \<Rightarrow> normalized_match option" where
  "resolveNormalizedRouteBindingMatch catalog b =
     (case bindingMatch b of
        None \<Rightarrow> None
      | Some m \<Rightarrow>
          (case normalizeRouteBindingChannelId catalog (matchChannel m) of
             None \<Rightarrow> None
           | Some channelId \<Rightarrow>
               (let accountId = trimmedOr (matchAccountId m) in
                if accountId = [] \<or> accountId = ''*'' then None
                else Some \<lparr>normAgentId = normalizeAgentId (Some (bindingAgentId b)),
                           normAccountId = normalizeAccountId (Some accountId), normChannelId = channelId\<rparr>)))"

definition scopeIdMatches :: "string option \<Rightarrow> string \<Rightarrow> string \<Rightarrow> bool" where
  "scopeIdMatches constraint exact groupSpace =
     (case constraint of
        None \<Rightarrow> True
      | Some c \<Rightarrow> if c = [] then True else c = exact \<or> c = groupSpace)"

definition hasAnyRouteBindingRole :: "string list \<Rightarrow> string list option \<Rightarrow> bool" where
  "hasAnyRouteBindingRole roles memberRoleIds =
     (case memberRoleIds of None \<Rightarrow> False | Some ms \<Rightarrow> list_ex (\<lambda>r. r \<in> set ms) roles)"

record route_scope =
  scopeGuildId :: route_id
  scopeTeamId :: route_id
  scopeGroupSpace :: route_id
  scopeRoleIds :: "string list option"

definition routeBindingScopeMatches ::
    "string option \<Rightarrow> string option \<Rightarrow> string list option \<Rightarrow> route_scope \<Rightarrow> bool" where
  "routeBindingScopeMatches guildConstraint teamConstraint roleConstraint scope =
     (let groupSpace = normalizeRouteBindingId (scopeGroupSpace scope) in
      if \<not> scopeIdMatches guildConstraint (normalizeRouteBindingId (scopeGuildId scope)) groupSpace then False
      else if \<not> scopeIdMatches teamConstraint (normalizeRouteBindingId (scopeTeamId scope)) groupSpace then False
      else
        (case normalizeRouteBindingRoles roleConstraint of
           None \<Rightarrow> True
         | Some roles \<Rightarrow> hasAnyRouteBindingRole roles (scopeRoleIds scope)))"

section \<open>Bound accounts\<close>

text \<open>
  \<^verbatim>\<open>listBoundAccountIds\<close> before its locale-dependent sort.
\<close>

definition boundAccountIds :: "channel_catalog \<Rightarrow> agent_binding list option \<Rightarrow> string option \<Rightarrow> string list" where
  "boundAccountIds catalog bindings channelId =
     (case normalizeRouteBindingChannelId catalog channelId of
        None \<Rightarrow> []
      | Some normalizedChannel \<Rightarrow>
          uniqueStrings
            (map normAccountId
              (filter (\<lambda>r. normChannelId r = normalizedChannel)
                (List.map_filter (resolveNormalizedRouteBindingMatch catalog) (listBindings bindings)))))"

definition resolveDefaultAgentBoundAccountId ::
    "channel_catalog \<Rightarrow> agent_binding list option \<Rightarrow> agent_entry list \<Rightarrow> string option \<Rightarrow> string option" where
  "resolveDefaultAgentBoundAccountId catalog bindings agents channelId =
     (case normalizeRouteBindingChannelId catalog channelId of
        None \<Rightarrow> None
      | Some normalizedChannel \<Rightarrow>
          (let defaultAgentId = normalizeAgentId (Some (resolveDefaultAgentId agents)) in
           map_option normAccountId
             (find (\<lambda>r. normChannelId r = normalizedChannel \<and> normAgentId r = defaultAgentId)
               (List.map_filter (resolveNormalizedRouteBindingMatch catalog) (listBindings bindings)))))"

definition addBoundAccount ::
    "(string, (string, string list) jsmap) jsmap \<Rightarrow> normalized_match \<Rightarrow> (string, (string, string list) jsmap) jsmap" where
  "addBoundAccount m r =
     (let byAgent = (case jm_get m (normChannelId r) of Some a \<Rightarrow> a | None \<Rightarrow> []);
          list = (case jm_get byAgent (normAgentId r) of Some l \<Rightarrow> l | None \<Rightarrow> [])
      in jm_set (normChannelId r) (jm_set (normAgentId r) (addUnique (normAccountId r) list) byAgent) m)"

definition buildChannelAccountBindings ::
    "channel_catalog \<Rightarrow> agent_binding list option \<Rightarrow> (string, (string, string list) jsmap) jsmap" where
  "buildChannelAccountBindings catalog bindings =
     foldl addBoundAccount [] (List.map_filter (resolveNormalizedRouteBindingMatch catalog) (listBindings bindings))"

definition resolvePreferredAccountId :: "string \<Rightarrow> string list \<Rightarrow> string" where
  "resolvePreferredAccountId defaultAccountId boundAccounts =
     (case boundAccounts of a # _ \<Rightarrow> a | [] \<Rightarrow> defaultAccountId)"

section \<open>The account an agent is bound to\<close>

record bound_match =
  boundBase :: normalized_match
  boundPeerId :: "string option"
  boundPeerKind :: "chat_type option"
  boundGuildId :: "string option"
  boundTeamId :: "string option"
  boundRoles :: "string list option"

definition nonEmpty :: "string \<Rightarrow> string option" where
  "nonEmpty s = (if s = [] then None else Some s)"

definition resolveNormalizedBoundAccountMatch :: "channel_catalog \<Rightarrow> agent_binding \<Rightarrow> bound_match option" where
  "resolveNormalizedBoundAccountMatch catalog b =
     (case (resolveNormalizedRouteBindingMatch catalog b, bindingMatch b) of
        (Some base, Some m) \<Rightarrow>
          Some \<lparr>boundBase = base,
                boundPeerId =
                  (case matchPeer m of
                     None \<Rightarrow> None
                   | Some p \<Rightarrow> (case rawPeerId p of IdText s \<Rightarrow> nonEmpty (js_trim s) | _ \<Rightarrow> None)),
                boundPeerKind = (case matchPeer m of None \<Rightarrow> None | Some p \<Rightarrow> normalizeChatType (rawPeerKind p)),
                boundGuildId = nonEmpty (normalizeRouteBindingId (matchGuildId m)),
                boundTeamId = nonEmpty (normalizeRouteBindingId (matchTeamId m)),
                boundRoles = normalizeRouteBindingRoles (matchRoles m)\<rparr>
      | _ \<Rightarrow> None)"

definition buildExactPeerIdSet :: "string option \<Rightarrow> string list option \<Rightarrow> string list" where
  "buildExactPeerIdSet peerId aliases =
     filter (\<lambda>p. p \<noteq> []) (trimmedOr peerId # map js_trim (case aliases of Some xs \<Rightarrow> xs | None \<Rightarrow> []))"

record bound_query =
  queryChannelId :: "string option"
  queryAgentId :: string
  queryPeerId :: "string option"
  queryPeerAliases :: "string list option"
  queryPeerKind :: "chat_type option"
  queryGroupSpace :: route_id
  queryRoleIds :: "string list option"

definition kindsDisagree :: "chat_type option \<Rightarrow> chat_type option \<Rightarrow> bool" where
  "kindsDisagree a b = (case (a, b) of (Some x, Some y) \<Rightarrow> \<not> peerKindMatches x y | _ \<Rightarrow> False)"

text \<open>The loop over the bindings, with the first wildcard match and the first binding without a peer so far.\<close>

fun firstBound :: "string list \<Rightarrow> chat_type option \<Rightarrow> bound_match list \<Rightarrow> string option \<Rightarrow> string option \<Rightarrow> string option" where
  "firstBound exactPeerIds kind [] wildcard channelOnly =
     (case wildcard of Some w \<Rightarrow> Some w | None \<Rightarrow> channelOnly)"
| "firstBound exactPeerIds kind (r # rest) wildcard channelOnly =
     (let account = normAccountId (boundBase r) in
      if exactPeerIds = [] then Some account
      else if boundPeerId r = Some ''*'' then
        (case (boundPeerKind r, kind) of
           (Some bk, Some k) \<Rightarrow>
             if peerKindMatches bk k
             then firstBound exactPeerIds kind rest (case wildcard of Some w \<Rightarrow> Some w | None \<Rightarrow> Some account) channelOnly
             else firstBound exactPeerIds kind rest wildcard channelOnly
         | _ \<Rightarrow> firstBound exactPeerIds kind rest wildcard channelOnly)
      else
        (case boundPeerId r of
           Some p \<Rightarrow>
             if kindsDisagree (boundPeerKind r) kind then firstBound exactPeerIds kind rest wildcard channelOnly
             else if p \<in> set exactPeerIds then Some account
             else firstBound exactPeerIds kind rest wildcard channelOnly
         | None \<Rightarrow>
             firstBound exactPeerIds kind rest wildcard (case channelOnly of Some c \<Rightarrow> Some c | None \<Rightarrow> Some account)))"

definition resolveFirstBoundAccountId ::
    "channel_catalog \<Rightarrow> agent_binding list option \<Rightarrow> bound_query \<Rightarrow> string option" where
  "resolveFirstBoundAccountId catalog bindings q =
     (case normalizeRouteBindingChannelId catalog (queryChannelId q) of
        None \<Rightarrow> None
      | Some normalizedChannel \<Rightarrow>
          (let normalizedAgentId = normalizeAgentId (Some (queryAgentId q));
               kind = (case queryPeerKind q of None \<Rightarrow> None | Some k \<Rightarrow> normalizeChatType (Some (chatTypeText k)));
               candidates =
                 filter (\<lambda>r.
                     normChannelId (boundBase r) = normalizedChannel \<and> normAgentId (boundBase r) = normalizedAgentId \<and>
                     routeBindingScopeMatches (boundGuildId r) (boundTeamId r) (boundRoles r)
                       \<lparr>scopeGuildId = IdOther, scopeTeamId = IdOther, scopeGroupSpace = queryGroupSpace q,
                        scopeRoleIds = queryRoleIds q\<rparr>)
                   (List.map_filter (resolveNormalizedBoundAccountMatch catalog) (listRouteBindings bindings))
           in firstBound (buildExactPeerIdSet (queryPeerId q) (queryPeerAliases q)) kind candidates None None))"

section \<open>Lemmas\<close>

text \<open>
  What the loop finds, for a caller with a peer: the first binding of that very peer, else the first one for every
  peer of its kind, else the first one without a peer.
\<close>

definition boundAccount :: "bound_match \<Rightarrow> string" where
  "boundAccount r = normAccountId (boundBase r)"

definition exactBound :: "string list \<Rightarrow> chat_type option \<Rightarrow> bound_match \<Rightarrow> bool" where
  "exactBound ids kind r \<longleftrightarrow>
     (case boundPeerId r of
        Some p \<Rightarrow> p \<noteq> ''*'' \<and> p \<in> set ids \<and> \<not> kindsDisagree (boundPeerKind r) kind | None \<Rightarrow> False)"

definition wildcardBound :: "chat_type option \<Rightarrow> bound_match \<Rightarrow> bool" where
  "wildcardBound kind r \<longleftrightarrow>
     boundPeerId r = Some ''*'' \<and>
     (case (boundPeerKind r, kind) of (Some b, Some k) \<Rightarrow> peerKindMatches b k | _ \<Rightarrow> False)"

definition orElse :: "'a option \<Rightarrow> 'a option \<Rightarrow> 'a option" where
  "orElse a b = (case a of Some x \<Rightarrow> Some x | None \<Rightarrow> b)"

lemma orElse_simps [simp]: "orElse None b = b" "orElse (Some x) b = Some x" "orElse a None = a"
  by (simp_all add: orElse_def split: option.split)

lemma first_bound:
  assumes "ids \<noteq> []"
  shows "firstBound ids kind rs w c =
    orElse (map_option boundAccount (find (exactBound ids kind) rs))
      (orElse (orElse w (map_option boundAccount (find (wildcardBound kind) rs)))
        (orElse c (map_option boundAccount (find (\<lambda>r. boundPeerId r = None) rs))))"
proof (induction rs arbitrary: w c)
  case Nil
  then show ?case by (cases w; cases c) simp_all
next
  case (Cons r rs)
  have kept: "(case v of Some x \<Rightarrow> Some x | None \<Rightarrow> Some (normAccountId (boundBase r))) = orElse v (Some (boundAccount r))" for v
    by (simp add: orElse_def boundAccount_def)
  consider "boundPeerId r = None" | "boundPeerId r = Some ''*''" | p where "boundPeerId r = Some p" "p \<noteq> ''*''"
    by (cases "boundPeerId r") auto
  then show ?case
  proof cases
    case 1
    then show ?thesis using Cons assms
      by (simp add: kept exactBound_def wildcardBound_def) (simp add: orElse_def split: option.split)
  next
    case 2
    then show ?thesis using Cons assms
      by (cases "boundPeerKind r"; cases kind)
        (simp_all add: kept exactBound_def wildcardBound_def, simp_all add: orElse_def split: option.split)
  next
    case 3
    then show ?thesis using Cons assms
      by (simp add: exactBound_def wildcardBound_def boundAccount_def)
  qed
qed

end
