(* ===== verification/ResolveRoute.thy ===== *)
theory ResolveRoute
  imports RouteBindings
begin

text \<open>
  \<^verbatim>\<open>src/routing/resolve-route.ts\<close>: the agent and the session of an inbound event. The bindings of a configuration
  are indexed by channel and account, then by what they constrain; the index and the resolved routes are cached per
  configuration object. A configuration holds its bindings, agents and session settings by reference; a reference is
  a number, what it points at is given by a heap.
\<close>

section \<open>Inputs and results\<close>

record route_peer =
  peerKind :: chat_type
  peerId :: string

record raw_peer =
  inputPeerKind :: chat_type
  inputPeerId :: route_id

record route_input =
  inputChannel :: "string option"
  inputAccountId :: "string option"
  inputPeer :: "raw_peer option"
  inputParentPeer :: "raw_peer option"
  inputGuildId :: route_id
  inputTeamId :: route_id
  inputRoleIds :: "string list option"

record session_config =
  sessionDmScope :: "dm_scope option"
  sessionMainKey :: "string option"
  sessionIdentityLinks :: "identity_links option"

record route_config =
  cfgBindings :: "agent_binding list option"
  cfgAgents :: "agent_entry list"
  cfgSession :: session_config

datatype matched_by =
    ByPeer | ByParentPeer | ByPeerWildcard | ByGuildRoles | ByGuild | ByTeam | ByAccount | ByChannel | ByDefault

datatype last_route_policy = LastRouteMain | LastRouteSession

record agent_route =
  routeAgentId :: string
  routeChannel :: string
  routeAccountId :: string
  routeDmScope :: dm_scope
  routeSessionKey :: string
  routeMainSessionKey :: string
  routeLastPolicy :: last_route_policy
  routeMatchedBy :: matched_by

definition deriveLastRoutePolicy :: "string \<Rightarrow> string \<Rightarrow> last_route_policy" where
  "deriveLastRoutePolicy sessionKey mainSessionKey =
     (if sessionKey = mainSessionKey then LastRouteMain else LastRouteSession)"

definition resolveInboundLastRouteSessionKey :: "agent_route \<Rightarrow> string \<Rightarrow> string" where
  "resolveInboundLastRouteSessionKey route sessionKey =
     (if routeLastPolicy route = LastRouteMain then routeMainSessionKey route else sessionKey)"

definition buildAgentSessionKey ::
    "string \<Rightarrow> string option \<Rightarrow> string \<Rightarrow> string option \<Rightarrow> route_peer option \<Rightarrow> dm_scope option \<Rightarrow> identity_links option
      \<Rightarrow> string" where
  "buildAgentSessionKey agentId mainKey channel accountId peer dmScope identityLinks =
     buildAgentPeerSessionKey agentId (Some (case mainKey of Some m \<Rightarrow> m | None \<Rightarrow> DEFAULT_MAIN_KEY))
       (channelToken channel) accountId
       (Some (case peer of Some p \<Rightarrow> peerKind p | None \<Rightarrow> DirectChat))
       (case peer of
          Some p \<Rightarrow> (let i = normalizeRouteBindingId (IdText (peerId p)) in Some (if i = [] then ''unknown'' else i))
        | None \<Rightarrow> None)
       identityLinks dmScope"

section \<open>Agents\<close>

record agent_lookup =
  byNormalizedId :: "(string, string) jsmap"
  fallbackDefaultAgentId :: string

definition buildAgentLookup :: "agent_entry list \<Rightarrow> agent_lookup" where
  "buildAgentLookup agents =
     \<lparr>byNormalizedId =
        foldl (\<lambda>m e. let rawId = trimmedOr (entryId e) in
                 if rawId = [] then m else jm_set (normalizeAgentId (Some rawId)) (sanitizeAgentId (Some rawId)) m)
          [] agents,
      fallbackDefaultAgentId = sanitizeAgentId (Some (resolveDefaultAgentId agents))\<rparr>"

definition pickFirstExistingAgentId :: "agent_lookup \<Rightarrow> string \<Rightarrow> string" where
  "pickFirstExistingAgentId lookup agentId =
     (let trimmed = js_trim agentId in
      if trimmed = [] then fallbackDefaultAgentId lookup
      else if length (byNormalizedId lookup) = 0 then sanitizeAgentId (Some trimmed)
      else
        (case jm_get (byNormalizedId lookup) (normalizeAgentId (Some trimmed)) of
           Some resolved \<Rightarrow> if resolved \<noteq> [] then resolved else fallbackDefaultAgentId lookup
         | None \<Rightarrow> fallbackDefaultAgentId lookup))"

section \<open>Evaluated bindings\<close>

datatype peer_constraint = NoPeer | InvalidPeer | WildcardKind chat_type | ValidPeer chat_type string

record norm_match =
  accountPattern :: string
  peerConstraint :: peer_constraint
  guildConstraint :: "string option"
  teamConstraint :: "string option"
  roleConstraint :: "string list option"

record evaluated_binding =
  evBinding :: agent_binding
  evMatch :: norm_match
  evOrder :: nat

definition normalizePeerConstraint :: "binding_peer option \<Rightarrow> peer_constraint" where
  "normalizePeerConstraint peer =
     (case peer of
        None \<Rightarrow> NoPeer
      | Some p \<Rightarrow>
          (let i = normalizeRouteBindingId (rawPeerId p) in
           case normalizeChatType (rawPeerKind p) of
             None \<Rightarrow> InvalidPeer
           | Some kind \<Rightarrow>
               if i = [] then InvalidPeer else if i = ''*'' then WildcardKind kind else ValidPeer kind i))"

definition normalizeBindingMatch :: "binding_match option \<Rightarrow> norm_match" where
  "normalizeBindingMatch match =
     (case match of
        None \<Rightarrow> \<lparr>accountPattern = [], peerConstraint = NoPeer, guildConstraint = None, teamConstraint = None,
                 roleConstraint = None\<rparr>
      | Some m \<Rightarrow>
          \<lparr>accountPattern = trimmedOr (matchAccountId m),
           peerConstraint = normalizePeerConstraint (matchPeer m),
           guildConstraint = nonEmpty (normalizeRouteBindingId (matchGuildId m)),
           teamConstraint = nonEmpty (normalizeRouteBindingId (matchTeamId m)),
           roleConstraint = normalizeRouteBindingRoles (matchRoles m)\<rparr>)"

definition resolveAccountPatternKey :: "string \<Rightarrow> string" where
  "resolveAccountPatternKey pattern =
     (if js_trim pattern = [] then DEFAULT_ACCOUNT_ID else normalizeAccountId (Some pattern))"

record channel_bucket =
  bucketByAccount :: "(string, evaluated_binding list) jsmap"
  bucketAnyAccount :: "evaluated_binding list"

definition emptyBucket :: channel_bucket where
  "emptyBucket = \<lparr>bucketByAccount = [], bucketAnyAccount = []\<rparr>"

definition pushTo :: "(string, 'a list) jsmap \<Rightarrow> string \<Rightarrow> 'a \<Rightarrow> (string, 'a list) jsmap" where
  "pushTo m key x = jm_set key ((case jm_get m key of Some xs \<Rightarrow> xs | None \<Rightarrow> []) @ [x]) m"

definition addToBucket :: "channel_bucket \<Rightarrow> evaluated_binding \<Rightarrow> channel_bucket" where
  "addToBucket bucket e =
     (if accountPattern (evMatch e) = ''*'' then bucket\<lparr>bucketAnyAccount := bucketAnyAccount bucket @ [e]\<rparr>
      else bucket\<lparr>bucketByAccount :=
             pushTo (bucketByAccount bucket) (resolveAccountPatternKey (accountPattern (evMatch e))) e\<rparr>)"

text \<open>The channel a binding names, empty where it names none.\<close>

definition bindingChannel :: "agent_binding \<Rightarrow> string" where
  "bindingChannel b = lowerOrEmpty (case bindingMatch b of Some m \<Rightarrow> matchChannel m | None \<Rightarrow> None)"

definition evaluateBinding :: "nat \<times> (string, channel_bucket) jsmap \<Rightarrow> agent_binding \<Rightarrow> nat \<times> (string, channel_bucket) jsmap"
  where
  "evaluateBinding acc b =
     (case acc of (order, byChannel) \<Rightarrow>
        (let channel = bindingChannel b in
         if channel = [] then acc
         else
           (let evaluated = \<lparr>evBinding = b, evMatch = normalizeBindingMatch (bindingMatch b), evOrder = order\<rparr>;
                bucket = (case jm_get byChannel channel of Some u \<Rightarrow> u | None \<Rightarrow> emptyBucket)
            in (order + 1, jm_set channel (addToBucket bucket evaluated) byChannel))))"

definition buildEvaluatedBindingsByChannel :: "agent_binding list option \<Rightarrow> (string, channel_bucket) jsmap" where
  "buildEvaluatedBindingsByChannel bindings = snd (foldl evaluateBinding (0, []) (listBindings bindings))"

fun mergeLoop :: "evaluated_binding list \<Rightarrow> evaluated_binding list \<Rightarrow> evaluated_binding list" where
  "mergeLoop (a # as) (b # bs) =
     (if evOrder a \<le> evOrder b then a # mergeLoop as (b # bs) else b # mergeLoop (a # as) bs)"
| "mergeLoop as [] = as"
| "mergeLoop [] bs = bs"

definition mergeEvaluatedBindingsInSourceOrder ::
    "evaluated_binding list \<Rightarrow> evaluated_binding list \<Rightarrow> evaluated_binding list" where
  "mergeEvaluatedBindingsInSourceOrder accountScoped anyAccount =
     (if length accountScoped = 0 then anyAccount
      else if length anyAccount = 0 then accountScoped
      else mergeLoop accountScoped anyAccount)"

section \<open>The index\<close>

record binding_index =
  byPeer :: "(string, evaluated_binding list) jsmap"
  byPeerWildcard :: "evaluated_binding list"
  byGuildWithRoles :: "(string, evaluated_binding list) jsmap"
  byGuild :: "(string, evaluated_binding list) jsmap"
  byTeam :: "(string, evaluated_binding list) jsmap"
  byAccount :: "evaluated_binding list"
  byChannel :: "evaluated_binding list"

definition emptyIndex :: binding_index where
  "emptyIndex =
     \<lparr>byPeer = [], byPeerWildcard = [], byGuildWithRoles = [], byGuild = [], byTeam = [], byAccount = [], byChannel = []\<rparr>"

definition pushToIndexMap ::
    "(string, evaluated_binding list) jsmap \<Rightarrow> string option \<Rightarrow> evaluated_binding \<Rightarrow> (string, evaluated_binding list) jsmap"
  where
  "pushToIndexMap m key e =
     (case key of None \<Rightarrow> m | Some k \<Rightarrow> if k = [] then m else pushTo m k e)"

definition peerKey :: "chat_type \<Rightarrow> string \<Rightarrow> string" where
  "peerKey kind i = chatTypeText kind @ CHR '':'' # i"

fun peerLookupKeys :: "chat_type \<Rightarrow> string \<Rightarrow> string list" where
  "peerLookupKeys GroupChat i = [peerKey GroupChat i, peerKey ChannelChat i]"
| "peerLookupKeys ChannelChat i = [peerKey ChannelChat i, peerKey GroupChat i]"
| "peerLookupKeys DirectChat i = [peerKey DirectChat i]"

text \<open>Two evaluated bindings are one object when they have one position.\<close>

fun collectUnseen :: "nat list \<Rightarrow> evaluated_binding list \<Rightarrow> evaluated_binding list" where
  "collectUnseen seen [] = []"
| "collectUnseen seen (e # es) =
     (if evOrder e \<in> set seen then collectUnseen seen es else e # collectUnseen (evOrder e # seen) es)"

definition collectPeerIndexedBindings :: "binding_index \<Rightarrow> route_peer option \<Rightarrow> evaluated_binding list" where
  "collectPeerIndexedBindings index peer =
     (case peer of
        None \<Rightarrow> []
      | Some p \<Rightarrow>
          collectUnseen []
            (concat (map (\<lambda>key. case jm_get (byPeer index) key of Some ms \<Rightarrow> ms | None \<Rightarrow> [])
              (peerLookupKeys (peerKind p) (peerId p)))))"

definition addToIndex :: "binding_index \<Rightarrow> evaluated_binding \<Rightarrow> binding_index" where
  "addToIndex index e =
     (let m = evMatch e in
      case peerConstraint m of
        ValidPeer kind i \<Rightarrow>
          index\<lparr>byPeer := foldl (\<lambda>acc key. pushToIndexMap acc (Some key) e) (byPeer index) (peerLookupKeys kind i)\<rparr>
      | WildcardKind kind \<Rightarrow> index\<lparr>byPeerWildcard := byPeerWildcard index @ [e]\<rparr>
      | _ \<Rightarrow>
          if guildConstraint m \<noteq> None \<and> roleConstraint m \<noteq> None then
            index\<lparr>byGuildWithRoles := pushToIndexMap (byGuildWithRoles index) (guildConstraint m) e\<rparr>
          else if guildConstraint m \<noteq> None \<and> roleConstraint m = None then
            index\<lparr>byGuild := pushToIndexMap (byGuild index) (guildConstraint m) e\<rparr>
          else if teamConstraint m \<noteq> None then index\<lparr>byTeam := pushToIndexMap (byTeam index) (teamConstraint m) e\<rparr>
          else if accountPattern m \<noteq> ''*'' then index\<lparr>byAccount := byAccount index @ [e]\<rparr>
          else index\<lparr>byChannel := byChannel index @ [e]\<rparr>)"

definition buildEvaluatedBindingsIndex :: "evaluated_binding list \<Rightarrow> binding_index" where
  "buildEvaluatedBindingsIndex bindings = foldl addToIndex emptyIndex bindings"

section \<open>Matching\<close>

record match_scope =
  scopePeer :: "route_peer option"
  scopeGuild :: string
  scopeTeam :: string
  scopeRoles :: "string list"

definition matchesBindingScope :: "norm_match \<Rightarrow> match_scope \<Rightarrow> bool" where
  "matchesBindingScope m scope =
     (let rest = routeBindingScopeMatches (guildConstraint m) (teamConstraint m) (roleConstraint m)
            \<lparr>scopeGuildId = IdText (scopeGuild scope), scopeTeamId = IdText (scopeTeam scope), scopeGroupSpace = IdOther,
             scopeRoleIds = Some (scopeRoles scope)\<rparr>
      in case peerConstraint m of
           InvalidPeer \<Rightarrow> False
         | ValidPeer kind i \<Rightarrow>
             (case scopePeer scope of
                None \<Rightarrow> False
              | Some p \<Rightarrow> if \<not> peerKindMatches kind (peerKind p) \<or> peerId p \<noteq> i then False else rest)
         | WildcardKind kind \<Rightarrow>
             (case scopePeer scope of
                None \<Rightarrow> False
              | Some p \<Rightarrow> if \<not> peerKindMatches kind (peerKind p) then False else rest)
         | NoPeer \<Rightarrow> rest)"

record route_query =
  queryChannel :: string
  queryAccount :: string
  queryPeer :: "route_peer option"
  queryParent :: "route_peer option"
  queryGuild :: string
  queryTeam :: string
  queryRoles :: "string list"

definition normalizePeer :: "raw_peer option \<Rightarrow> route_peer option" where
  "normalizePeer peer =
     (case peer of
        None \<Rightarrow> None
      | Some p \<Rightarrow>
          Some \<lparr>peerKind = (case normalizeChatType (Some (chatTypeText (inputPeerKind p))) of
                              Some k \<Rightarrow> k | None \<Rightarrow> inputPeerKind p),
                peerId = normalizeRouteBindingId (inputPeerId p)\<rparr>)"

definition normalizeInput :: "route_input \<Rightarrow> route_query" where
  "normalizeInput i =
     \<lparr>queryChannel = lowerOrEmpty (inputChannel i), queryAccount = normalizeAccountId (inputAccountId i),
      queryPeer = normalizePeer (inputPeer i), queryParent = normalizePeer (inputParentPeer i),
      queryGuild = normalizeRouteBindingId (inputGuildId i), queryTeam = normalizeRouteBindingId (inputTeamId i),
      queryRoles = (case inputRoleIds i of Some rs \<Rightarrow> rs | None \<Rightarrow> [])\<rparr>"

record route_tier =
  tierMatchedBy :: matched_by
  tierEnabled :: bool
  tierPeer :: "route_peer option"
  tierCandidates :: "evaluated_binding list"

text \<open>The predicate of a tier.\<close>

fun tierPredicate :: "matched_by \<Rightarrow> norm_match \<Rightarrow> bool" where
  "tierPredicate ByPeer m = (case peerConstraint m of ValidPeer _ _ \<Rightarrow> True | _ \<Rightarrow> False)"
| "tierPredicate ByParentPeer m = (case peerConstraint m of ValidPeer _ _ \<Rightarrow> True | _ \<Rightarrow> False)"
| "tierPredicate ByPeerWildcard m = (case peerConstraint m of WildcardKind _ \<Rightarrow> True | _ \<Rightarrow> False)"
| "tierPredicate ByGuildRoles m = (guildConstraint m \<noteq> None \<and> roleConstraint m \<noteq> None)"
| "tierPredicate ByGuild m = (guildConstraint m \<noteq> None \<and> roleConstraint m = None)"
| "tierPredicate ByTeam m = (teamConstraint m \<noteq> None)"
| "tierPredicate ByAccount m = (accountPattern m \<noteq> ''*'')"
| "tierPredicate ByChannel m = (accountPattern m = ''*'')"
| "tierPredicate ByDefault m = False"

definition indexedAt :: "(string, evaluated_binding list) jsmap \<Rightarrow> string \<Rightarrow> evaluated_binding list" where
  "indexedAt m key = (if key = [] then [] else (case jm_get m key of Some es \<Rightarrow> es | None \<Rightarrow> []))"

definition routeTiers :: "binding_index \<Rightarrow> route_query \<Rightarrow> route_tier list" where
  "routeTiers index q =
     (let peer = queryPeer q; parent = queryParent q;
          parentOk = (case parent of Some p \<Rightarrow> peerId p \<noteq> [] | None \<Rightarrow> False)
      in
     [\<lparr>tierMatchedBy = ByPeer, tierEnabled = (peer \<noteq> None), tierPeer = peer,
       tierCandidates = collectPeerIndexedBindings index peer\<rparr>,
      \<lparr>tierMatchedBy = ByParentPeer, tierEnabled = parentOk, tierPeer = (if parentOk then parent else None),
       tierCandidates = collectPeerIndexedBindings index parent\<rparr>,
      \<lparr>tierMatchedBy = ByPeerWildcard, tierEnabled = (peer \<noteq> None), tierPeer = peer,
       tierCandidates = byPeerWildcard index\<rparr>,
      \<lparr>tierMatchedBy = ByGuildRoles, tierEnabled = (queryGuild q \<noteq> [] \<and> length (queryRoles q) > 0), tierPeer = peer,
       tierCandidates = indexedAt (byGuildWithRoles index) (queryGuild q)\<rparr>,
      \<lparr>tierMatchedBy = ByGuild, tierEnabled = (queryGuild q \<noteq> []), tierPeer = peer,
       tierCandidates = indexedAt (byGuild index) (queryGuild q)\<rparr>,
      \<lparr>tierMatchedBy = ByTeam, tierEnabled = (queryTeam q \<noteq> []), tierPeer = peer,
       tierCandidates = indexedAt (byTeam index) (queryTeam q)\<rparr>,
      \<lparr>tierMatchedBy = ByAccount, tierEnabled = True, tierPeer = peer, tierCandidates = byAccount index\<rparr>,
      \<lparr>tierMatchedBy = ByChannel, tierEnabled = True, tierPeer = peer, tierCandidates = byChannel index\<rparr>])"

definition tierMatch :: "route_query \<Rightarrow> route_tier \<Rightarrow> evaluated_binding option" where
  "tierMatch q tier =
     (if \<not> tierEnabled tier then None
      else find (\<lambda>e. tierPredicate (tierMatchedBy tier) (evMatch e) \<and>
               matchesBindingScope (evMatch e)
                 \<lparr>scopePeer = tierPeer tier, scopeGuild = queryGuild q, scopeTeam = queryTeam q, scopeRoles = queryRoles q\<rparr>)
             (tierCandidates tier))"

fun firstTier :: "route_query \<Rightarrow> route_tier list \<Rightarrow> (matched_by \<times> evaluated_binding) option" where
  "firstTier q [] = None"
| "firstTier q (tier # tiers) =
     (case tierMatch q tier of Some e \<Rightarrow> Some (tierMatchedBy tier, e) | None \<Rightarrow> firstTier q tiers)"

definition chooseRoute ::
    "agent_lookup \<Rightarrow> session_config \<Rightarrow> route_query \<Rightarrow> string \<Rightarrow> matched_by \<Rightarrow> dm_scope option \<Rightarrow> agent_route" where
  "chooseRoute lookup session q agentId matchedBy override =
     (let dmScope = (case sessionDmScope session of Some d \<Rightarrow> d | None \<Rightarrow> MainScope);
          resolvedAgentId = pickFirstExistingAgentId lookup agentId;
          effective = (case override of Some d \<Rightarrow> d | None \<Rightarrow> dmScope);
          sessionKey = buildAgentSessionKey resolvedAgentId (sessionMainKey session) (queryChannel q)
            (Some (queryAccount q)) (queryPeer q) (Some effective) (sessionIdentityLinks session);
          mainSessionKey = lowerOrEmpty (Some (buildAgentMainSessionKey resolvedAgentId (sessionMainKey session)))
      in \<lparr>routeAgentId = resolvedAgentId, routeChannel = queryChannel q, routeAccountId = queryAccount q,
          routeDmScope = effective, routeSessionKey = sessionKey, routeMainSessionKey = mainSessionKey,
          routeLastPolicy = deriveLastRoutePolicy sessionKey mainSessionKey, routeMatchedBy = matchedBy\<rparr>)"

section \<open>Caches\<close>

record route_heap =
  heapBindings :: "nat \<Rightarrow> agent_binding list option"
  heapAgents :: "nat \<Rightarrow> agent_entry list"
  heapSession :: "nat \<Rightarrow> session_config"

text \<open>A configuration object with the references it holds at the time of a call.\<close>

record config_object =
  objectId :: nat
  bindingsRef :: nat
  agentsRef :: nat
  sessionRef :: nat

record agent_cache =
  agentCacheRef :: nat
  agentCacheLookup :: agent_lookup

record bindings_cache =
  bindingsCacheRef :: nat
  cacheByChannel :: "(string, channel_bucket) jsmap"
  cacheByChannelAccount :: "(string, evaluated_binding list) jsmap"
  cacheByChannelAccountIndex :: "(string, binding_index) jsmap"

record route_cache =
  routeCacheBindings :: nat
  routeCacheAgents :: nat
  routeCacheSession :: nat
  routeCacheByKey :: "(string, agent_route) jsmap"

record route_state =
  agentLookupCacheByCfg :: "(nat, agent_cache) jsmap"
  evaluatedBindingsCacheByCfg :: "(nat, bindings_cache) jsmap"
  resolvedRouteCacheByCfg :: "(nat, route_cache) jsmap"

definition initial_routes :: route_state where
  "initial_routes =
     \<lparr>agentLookupCacheByCfg = [], evaluatedBindingsCacheByCfg = [], resolvedRouteCacheByCfg = []\<rparr>"

definition MAX_EVALUATED_BINDINGS_CACHE_KEYS :: nat where "MAX_EVALUATED_BINDINGS_CACHE_KEYS = 2000"

definition MAX_RESOLVED_ROUTE_CACHE_KEYS :: nat where "MAX_RESOLVED_ROUTE_CACHE_KEYS = 4000"

definition resolveAgentLookupCache :: "route_heap \<Rightarrow> route_state \<Rightarrow> config_object \<Rightarrow> agent_lookup \<times> route_state" where
  "resolveAgentLookupCache heap st cfg =
     (let fresh =
            (let next = buildAgentLookup (heapAgents heap (agentsRef cfg)) in
             (next, st\<lparr>agentLookupCacheByCfg :=
                jm_set (objectId cfg) \<lparr>agentCacheRef = agentsRef cfg, agentCacheLookup = next\<rparr> (agentLookupCacheByCfg st)\<rparr>))
      in case jm_get (agentLookupCacheByCfg st) (objectId cfg) of
           None \<Rightarrow> fresh
         | Some existing \<Rightarrow>
             if agentCacheRef existing = agentsRef cfg then (agentCacheLookup existing, st) else fresh)"

definition bindingsCacheKey :: "string \<Rightarrow> string \<Rightarrow> string" where
  "bindingsCacheKey channel accountId = channel @ CHR 0x09 # accountId"

definition bindingsCacheFor :: "route_heap \<Rightarrow> route_state \<Rightarrow> config_object \<Rightarrow> bindings_cache" where
  "bindingsCacheFor heap st cfg =
     (let fresh = \<lparr>bindingsCacheRef = bindingsRef cfg,
                   cacheByChannel = buildEvaluatedBindingsByChannel (heapBindings heap (bindingsRef cfg)),
                   cacheByChannelAccount = [], cacheByChannelAccountIndex = []\<rparr>
      in case jm_get (evaluatedBindingsCacheByCfg st) (objectId cfg) of
           None \<Rightarrow> fresh
         | Some existing \<Rightarrow> if bindingsCacheRef existing = bindingsRef cfg then existing else fresh)"

definition bindingsAt :: "(string, channel_bucket) jsmap \<Rightarrow> string \<Rightarrow> string \<Rightarrow> evaluated_binding list" where
  "bindingsAt buckets channel accountId =
     (let bucket = jm_get buckets channel in
      mergeEvaluatedBindingsInSourceOrder
        (case bucket of
           None \<Rightarrow> []
         | Some u \<Rightarrow> (case jm_get (bucketByAccount u) accountId of Some es \<Rightarrow> es | None \<Rightarrow> []))
        (case bucket of None \<Rightarrow> [] | Some u \<Rightarrow> bucketAnyAccount u))"

definition addEvaluated :: "bindings_cache \<Rightarrow> string \<Rightarrow> evaluated_binding list \<Rightarrow> bindings_cache" where
  "addEvaluated cache cacheKey evaluated =
     (let index = buildEvaluatedBindingsIndex evaluated;
          entries = jm_set cacheKey evaluated (cacheByChannelAccount cache)
      in if length entries > MAX_EVALUATED_BINDINGS_CACHE_KEYS
         then cache\<lparr>cacheByChannelAccount := [(cacheKey, evaluated)], cacheByChannelAccountIndex := [(cacheKey, index)]\<rparr>
         else cache\<lparr>cacheByChannelAccount := entries,
                    cacheByChannelAccountIndex := jm_set cacheKey index (cacheByChannelAccountIndex cache)\<rparr>)"

definition getEvaluatedBindingsForChannelAccount ::
    "route_heap \<Rightarrow> route_state \<Rightarrow> config_object \<Rightarrow> string \<Rightarrow> string \<Rightarrow> evaluated_binding list \<times> route_state" where
  "getEvaluatedBindingsForChannelAccount heap st cfg channel accountId =
     (let cache = bindingsCacheFor heap st cfg;
          store = (\<lambda>c. st\<lparr>evaluatedBindingsCacheByCfg := jm_set (objectId cfg) c (evaluatedBindingsCacheByCfg st)\<rparr>);
          cacheKey = bindingsCacheKey channel accountId
      in case jm_get (cacheByChannelAccount cache) cacheKey of
           Some hit \<Rightarrow> (hit, store cache)
         | None \<Rightarrow>
             (let evaluated = bindingsAt (cacheByChannel cache) channel accountId
              in (evaluated, store (addEvaluated cache cacheKey evaluated))))"

definition getEvaluatedBindingIndexForChannelAccount ::
    "route_heap \<Rightarrow> route_state \<Rightarrow> config_object \<Rightarrow> string \<Rightarrow> string \<Rightarrow> binding_index \<times> route_state" where
  "getEvaluatedBindingIndexForChannelAccount heap st cfg channel accountId =
     (case getEvaluatedBindingsForChannelAccount heap st cfg channel accountId of
        (bindings, st1) \<Rightarrow>
          (let cacheKey = bindingsCacheKey channel accountId;
               built = buildEvaluatedBindingsIndex bindings
           in case jm_get (evaluatedBindingsCacheByCfg st1) (objectId cfg) of
                None \<Rightarrow> (built, st1)
              | Some existing \<Rightarrow>
                  (case jm_get (cacheByChannelAccountIndex existing) cacheKey of
                     Some indexed \<Rightarrow> (indexed, st1)
                   | None \<Rightarrow>
                       (built, st1\<lparr>evaluatedBindingsCacheByCfg :=
                          jm_set (objectId cfg)
                            (existing\<lparr>cacheByChannelAccountIndex :=
                               jm_set cacheKey built (cacheByChannelAccountIndex existing)\<rparr>)
                            (evaluatedBindingsCacheByCfg st1)\<rparr>))))"

definition resolveRouteCacheForConfig ::
    "route_state \<Rightarrow> config_object \<Rightarrow> (string, agent_route) jsmap \<times> route_state" where
  "resolveRouteCacheForConfig st cfg =
     (let fresh = ([], st\<lparr>resolvedRouteCacheByCfg :=
            jm_set (objectId cfg)
              \<lparr>routeCacheBindings = bindingsRef cfg, routeCacheAgents = agentsRef cfg, routeCacheSession = sessionRef cfg,
               routeCacheByKey = []\<rparr>
              (resolvedRouteCacheByCfg st)\<rparr>)
      in case jm_get (resolvedRouteCacheByCfg st) (objectId cfg) of
           None \<Rightarrow> fresh
         | Some existing \<Rightarrow>
             if routeCacheBindings existing = bindingsRef cfg \<and> routeCacheAgents existing = agentsRef cfg \<and>
                routeCacheSession existing = sessionRef cfg
             then (routeCacheByKey existing, st) else fresh)"

definition formatRouteCachePeer :: "route_peer option \<Rightarrow> string" where
  "formatRouteCachePeer peer =
     (case peer of None \<Rightarrow> ''-'' | Some p \<Rightarrow> if peerId p = [] then ''-'' else peerKey (peerKind p) (peerId p))"

fun joinComma :: "string list \<Rightarrow> string" where
  "joinComma [] = []"
| "joinComma [p] = p"
| "joinComma (p # q # ps) = p @ CHR '','' # joinComma (q # ps)"

definition formatRoleIdsCacheKey :: "string list \<Rightarrow> string" where
  "formatRoleIdsCacheKey roleIds =
     (case roleIds of
        [] \<Rightarrow> ''-''
      | [a] \<Rightarrow> a
      | [a, b] \<Rightarrow> if a \<le> b then a @ CHR '','' # b else b @ CHR '','' # a
      | _ \<Rightarrow> joinComma (toSorted compareStrings roleIds))"

fun dmScopeText :: "dm_scope \<Rightarrow> string" where
  "dmScopeText MainScope = ''main''"
| "dmScopeText PerPeer = ''per-peer''"
| "dmScopeText PerChannelPeer = ''per-channel-peer''"
| "dmScopeText PerAccountChannelPeer = ''per-account-channel-peer''"

fun joinTab :: "string list \<Rightarrow> string" where
  "joinTab [] = []"
| "joinTab [p] = p"
| "joinTab (p # q # ps) = p @ CHR 0x09 # joinTab (q # ps)"

definition buildResolvedRouteCacheKey :: "route_query \<Rightarrow> dm_scope \<Rightarrow> string" where
  "buildResolvedRouteCacheKey q dmScope =
     joinTab
       [queryChannel q, queryAccount q, formatRouteCachePeer (queryPeer q), formatRouteCachePeer (queryParent q),
        (if queryGuild q = [] then ''-'' else queryGuild q), (if queryTeam q = [] then ''-'' else queryTeam q),
        formatRoleIdsCacheKey (queryRoles q), dmScopeText dmScope]"

definition storeRoute :: "route_state \<Rightarrow> config_object \<Rightarrow> string \<Rightarrow> agent_route \<Rightarrow> route_state" where
  "storeRoute st cfg key route =
     (case jm_get (resolvedRouteCacheByCfg st) (objectId cfg) of
        None \<Rightarrow> st
      | Some cache \<Rightarrow>
          (let routes = jm_set key route (routeCacheByKey cache);
               kept = (if length routes > MAX_RESOLVED_ROUTE_CACHE_KEYS then [(key, route)] else routes)
           in st\<lparr>resolvedRouteCacheByCfg :=
                jm_set (objectId cfg) (cache\<lparr>routeCacheByKey := kept\<rparr>) (resolvedRouteCacheByCfg st)\<rparr>))"

section \<open>Resolving a route\<close>

text \<open>The agent, the reason and the session override of the tiers' answer.\<close>

definition tierAnswer ::
    "agent_entry list \<Rightarrow> (matched_by \<times> evaluated_binding) option \<Rightarrow> string \<times> matched_by \<times> dm_scope option" where
  "tierAnswer agents answer =
     (case answer of
        Some (by, e) \<Rightarrow> (bindingAgentId (evBinding e), by, bindingDmScope (evBinding e))
      | None \<Rightarrow> (resolveDefaultAgentId agents, ByDefault, None))"

definition resolveAgentRoute ::
    "route_heap \<Rightarrow> bool \<Rightarrow> route_state \<Rightarrow> config_object \<Rightarrow> route_input \<Rightarrow> agent_route \<times> route_state" where
  "resolveAgentRoute heap shouldLogDebug st cfg input =
     (let q = normalizeInput input;
          session = heapSession heap (sessionRef cfg);
          dmScope = (case sessionDmScope session of Some d \<Rightarrow> d | None \<Rightarrow> MainScope);
          useCache = (\<not> shouldLogDebug \<and> sessionIdentityLinks session = None);
          routeCacheKey = buildResolvedRouteCacheKey q dmScope
      in case (if useCache then resolveRouteCacheForConfig st cfg else ([], st)) of
           (routeCache, st1) \<Rightarrow>
             (case jm_get routeCache routeCacheKey of
                Some cachedRoute \<Rightarrow> (cachedRoute, st1)
              | None \<Rightarrow>
                  (case getEvaluatedBindingIndexForChannelAccount heap st1 cfg (queryChannel q) (queryAccount q) of
                     (bindingsIndex, st2) \<Rightarrow>
                       (case tierAnswer (heapAgents heap (agentsRef cfg)) (firstTier q (routeTiers bindingsIndex q)) of
                          (agentId, matchedBy, override) \<Rightarrow>
                            (case resolveAgentLookupCache heap st2 cfg of
                               (lookup, st3) \<Rightarrow>
                                 (let route = chooseRoute lookup session q agentId matchedBy override
                                  in (route, if useCache then storeRoute st3 cfg routeCacheKey route else st3)))))))"

end
