(* ===== verification/RouteMatching.thy ===== *)
theory RouteMatching
  imports ResolveRoute
begin

text \<open>
  What the index of ResolveRoute computes. The specification reads the configured bindings in their order, tier
  by tier; the theorem says that buckets, merge and index find the same binding.
\<close>

section \<open>Specification\<close>

definition tierOrder :: "matched_by list" where
  "tierOrder = [ByPeer, ByParentPeer, ByPeerWildcard, ByGuildRoles, ByGuild, ByTeam, ByAccount, ByChannel]"

text \<open>What a binding constrains decides the tiers it can answer at.\<close>

definition servesTier :: "matched_by \<Rightarrow> norm_match \<Rightarrow> bool" where
  "servesTier t m =
     (case peerConstraint m of
        ValidPeer _ _ \<Rightarrow> t = ByPeer \<or> t = ByParentPeer
      | WildcardKind _ \<Rightarrow> t = ByPeerWildcard
      | InvalidPeer \<Rightarrow> False
      | NoPeer \<Rightarrow>
          (if guildConstraint m \<noteq> None then t = (if roleConstraint m \<noteq> None then ByGuildRoles else ByGuild)
           else if teamConstraint m \<noteq> None then t = ByTeam
           else t = (if accountPattern m \<noteq> ''*'' then ByAccount else ByChannel)))"

definition coversAccount :: "route_query \<Rightarrow> agent_binding \<Rightarrow> bool" where
  "coversAccount q b \<longleftrightarrow>
     (let pattern = accountPattern (normalizeBindingMatch (bindingMatch b)) in
      bindingChannel b \<noteq> [] \<and> bindingChannel b = queryChannel q \<and>
      (pattern = ''*'' \<or> resolveAccountPatternKey pattern = queryAccount q))"

definition tierScope :: "route_query \<Rightarrow> matched_by \<Rightarrow> match_scope" where
  "tierScope q t =
     \<lparr>scopePeer = (if t = ByParentPeer then queryParent q else queryPeer q), scopeGuild = queryGuild q,
      scopeTeam = queryTeam q, scopeRoles = queryRoles q\<rparr>"

definition answersAt :: "route_query \<Rightarrow> matched_by \<Rightarrow> agent_binding \<Rightarrow> bool" where
  "answersAt q t b \<longleftrightarrow>
     (let m = normalizeBindingMatch (bindingMatch b) in
      coversAccount q b \<and> servesTier t m \<and> matchesBindingScope m (tierScope q t))"

fun specTiers :: "route_query \<Rightarrow> agent_binding list \<Rightarrow> matched_by list \<Rightarrow> (matched_by \<times> agent_binding) option" where
  "specTiers q bs [] = None"
| "specTiers q bs (t # ts) =
     (case find (answersAt q t) bs of Some b \<Rightarrow> Some (t, b) | None \<Rightarrow> specTiers q bs ts)"

definition specRoute :: "route_config \<Rightarrow> route_query \<Rightarrow> agent_route" where
  "specRoute cfg q =
     (case specTiers q (listBindings (cfgBindings cfg)) tierOrder of
        Some (t, b) \<Rightarrow>
          chooseRoute (buildAgentLookup (cfgAgents cfg)) (cfgSession cfg) q (bindingAgentId b) t (bindingDmScope b)
      | None \<Rightarrow>
          chooseRoute (buildAgentLookup (cfgAgents cfg)) (cfgSession cfg) q (resolveDefaultAgentId (cfgAgents cfg))
            ByDefault None)"

section \<open>Buckets\<close>

text \<open>The bindings with a channel, evaluated, in their order.\<close>

definition evaluatedFrom :: "nat \<Rightarrow> agent_binding list \<Rightarrow> evaluated_binding list" where
  "evaluatedFrom n bs =
     map (\<lambda>(i, b). \<lparr>evBinding = b, evMatch = normalizeBindingMatch (bindingMatch b), evOrder = i\<rparr>)
       (List.enumerate n (filter (\<lambda>b. bindingChannel b \<noteq> []) bs))"

definition evChannel :: "evaluated_binding \<Rightarrow> string" where
  "evChannel e = bindingChannel (evBinding e)"

definition anyAccount :: "evaluated_binding \<Rightarrow> bool" where
  "anyAccount e \<longleftrightarrow> accountPattern (evMatch e) = ''*''"

definition ofAccount :: "string \<Rightarrow> evaluated_binding \<Rightarrow> bool" where
  "ofAccount a e \<longleftrightarrow> \<not> anyAccount e \<and> resolveAccountPatternKey (accountPattern (evMatch e)) = a"

lemma evaluatedFrom_simps:
  "evaluatedFrom n [] = []"
  "evaluatedFrom n (b # bs) =
     (if bindingChannel b = [] then evaluatedFrom n bs
      else \<lparr>evBinding = b, evMatch = normalizeBindingMatch (bindingMatch b), evOrder = n\<rparr> # evaluatedFrom (Suc n) bs)"
  by (simp_all add: evaluatedFrom_def)

lemma evaluatedFrom_sorted: "sorted_wrt (\<lambda>a b. evOrder a < evOrder b) (evaluatedFrom n bs)"
proof -
  have "\<forall>e \<in> set (evaluatedFrom n bs). n \<le> evOrder e" for n
    by (auto simp: evaluatedFrom_def in_set_enumerate_eq)
  then have bound: "e \<in> set (evaluatedFrom (Suc n) bs) \<Longrightarrow> n < evOrder e" for e n bs
    by (auto simp: evaluatedFrom_def in_set_enumerate_eq)
  show ?thesis
    by (induction bs arbitrary: n) (auto simp: evaluatedFrom_simps bound)
qed

lemma pushTo_get:
  "(case jm_get (pushTo m k x) k' of Some xs \<Rightarrow> xs | None \<Rightarrow> []) =
     (case jm_get m k' of Some xs \<Rightarrow> xs | None \<Rightarrow> []) @ (if k' = k then [x] else [])"
  by (simp add: pushTo_def)

abbreviation listAt :: "(string, 'a list) jsmap \<Rightarrow> string \<Rightarrow> 'a list" where
  "listAt m k \<equiv> (case map_of m k of Some xs \<Rightarrow> xs | None \<Rightarrow> [])"

definition bucket_ok :: "evaluated_binding list \<Rightarrow> string \<Rightarrow> channel_bucket \<Rightarrow> bool" where
  "bucket_ok evs c u \<longleftrightarrow>
     bucketAnyAccount u = filter (\<lambda>e. evChannel e = c \<and> anyAccount e) evs \<and>
     (\<forall>a. listAt (bucketByAccount u) a = filter (\<lambda>e. evChannel e = c \<and> ofAccount a e) evs)"

definition buckets_ok :: "evaluated_binding list \<Rightarrow> (string, channel_bucket) jsmap \<Rightarrow> bool" where
  "buckets_ok evs m \<longleftrightarrow> (\<forall>c. bucket_ok evs c (case jm_get m c of Some u \<Rightarrow> u | None \<Rightarrow> emptyBucket))"

lemma bucket_add:
  assumes "bucket_ok evs c u"
  shows "bucket_ok (evs @ [e]) c (if evChannel e = c then addToBucket u e else u)"
  using assms
  by (auto simp: bucket_ok_def addToBucket_def anyAccount_def ofAccount_def pushTo_get)

lemma buckets_add:
  assumes "buckets_ok evs m" "evChannel e = c"
  shows "buckets_ok (evs @ [e])
    (jm_set c (addToBucket (case jm_get m c of Some u \<Rightarrow> u | None \<Rightarrow> emptyBucket) e) m)"
  unfolding buckets_ok_def
proof
  fix c'
  have "bucket_ok evs c' (case jm_get m c' of Some u \<Rightarrow> u | None \<Rightarrow> emptyBucket)"
    using assms(1) by (simp add: buckets_ok_def)
  from bucket_add [OF this, of e] assms(2)
  show "bucket_ok (evs @ [e]) c' (case jm_get (jm_set c (addToBucket
      (case jm_get m c of Some u \<Rightarrow> u | None \<Rightarrow> emptyBucket) e) m) c' of Some u \<Rightarrow> u | None \<Rightarrow> emptyBucket)"
    by (auto split: if_splits)
qed

lemma buckets_fold:
  "buckets_ok evs m \<Longrightarrow> buckets_ok (evs @ evaluatedFrom n bs) (snd (foldl evaluateBinding (n, m) bs))"
proof (induction bs arbitrary: evs m n)
  case Nil
  then show ?case by (simp add: evaluatedFrom_simps)
next
  case (Cons b bs)
  let ?e = "\<lparr>evBinding = b, evMatch = normalizeBindingMatch (bindingMatch b), evOrder = n\<rparr>"
  show ?case
  proof (cases "bindingChannel b = []")
    case True
    then show ?thesis using Cons by (simp add: evaluateBinding_def evaluatedFrom_simps)
  next
    case False
    have "buckets_ok (evs @ [?e]) (jm_set (bindingChannel b)
        (addToBucket (case jm_get m (bindingChannel b) of Some u \<Rightarrow> u | None \<Rightarrow> emptyBucket) ?e) m)"
      by (rule buckets_add [OF Cons.prems]) (simp add: evChannel_def)
    from Cons.IH [OF this, of "Suc n"] False show ?thesis
      by (simp add: evaluateBinding_def evaluatedFrom_simps Let_def)
  qed
qed

lemma buckets_built:
  "buckets_ok (evaluatedFrom 0 (listBindings bindings)) (buildEvaluatedBindingsByChannel bindings)"
  using buckets_fold [of "[]" "[]" 0 "listBindings bindings"]
  by (simp add: buildEvaluatedBindingsByChannel_def buckets_ok_def bucket_ok_def emptyBucket_def)

section \<open>Merge\<close>

lemma merge_filters:
  assumes "sorted_wrt (\<lambda>a b. evOrder a < evOrder b) es" "\<forall>e. \<not> (P e \<and> Q e)"
  shows "mergeLoop (filter P es) (filter Q es) = filter (\<lambda>e. P e \<or> Q e) es"
  using assms
proof (induction es)
  case (Cons e es)
  then have IH: "mergeLoop (filter P es) (filter Q es) = filter (\<lambda>e. P e \<or> Q e) es"
    and less: "\<forall>x \<in> set es. evOrder e < evOrder x" by simp_all
  have first: "x \<in> set es" if "filter R es = x # xs" for R x xs
    using that by (metis filter_is_subset list.set_intros(1) subsetD)
  consider "P e" "\<not> Q e" | "Q e" "\<not> P e" | "\<not> P e" "\<not> Q e" using Cons.prems(2) by auto
  then show ?case
  proof cases
    case 1
    show ?thesis
    proof (cases "filter Q es")
      case Nil
      then show ?thesis using IH 1 by (cases "filter P es") simp_all
    next
      case (Cons y ys)
      then show ?thesis using IH 1 less first [OF Cons] by (simp add: less_imp_le)
    qed
  next
    case 2
    show ?thesis
    proof (cases "filter P es")
      case Nil
      then show ?thesis using IH 2 by (cases "filter Q es") simp_all
    next
      case (Cons y ys)
      then have "\<not> evOrder y \<le> evOrder e" using less first [OF Cons] by (simp add: not_le)
      then show ?thesis using IH 2 Cons by simp
    qed
  qed (simp add: IH)
qed simp

lemma merge_in_order:
  assumes "sorted_wrt (\<lambda>a b. evOrder a < evOrder b) es" "\<forall>e. \<not> (P e \<and> Q e)"
  shows "mergeEvaluatedBindingsInSourceOrder (filter P es) (filter Q es) = filter (\<lambda>e. P e \<or> Q e) es"
proof -
  have "mergeEvaluatedBindingsInSourceOrder xs ys = mergeLoop xs ys" for xs ys
    by (cases xs; cases ys) (simp_all add: mergeEvaluatedBindingsInSourceOrder_def)
  then show ?thesis using merge_filters [OF assms] by simp
qed

lemma bindings_at:
  "bindingsAt (buildEvaluatedBindingsByChannel bindings) c a =
     filter (\<lambda>e. evChannel e = c \<and> (ofAccount a e \<or> anyAccount e)) (evaluatedFrom 0 (listBindings bindings))"
proof -
  let ?evs = "evaluatedFrom 0 (listBindings bindings)"
  let ?u = "case jm_get (buildEvaluatedBindingsByChannel bindings) c of Some u \<Rightarrow> u | None \<Rightarrow> emptyBucket"
  have u: "bucket_ok ?evs c ?u" using buckets_built by (simp add: buckets_ok_def)
  have "bindingsAt (buildEvaluatedBindingsByChannel bindings) c a =
      mergeEvaluatedBindingsInSourceOrder (listAt (bucketByAccount ?u) a) (bucketAnyAccount ?u)"
    by (simp add: bindingsAt_def emptyBucket_def Let_def split: option.split)
  also have "\<dots> = mergeEvaluatedBindingsInSourceOrder (filter (\<lambda>e. evChannel e = c \<and> ofAccount a e) ?evs)
      (filter (\<lambda>e. evChannel e = c \<and> anyAccount e) ?evs)"
    using u by (simp add: bucket_ok_def)
  also have "\<dots> = filter (\<lambda>e. evChannel e = c \<and> ofAccount a e \<or> evChannel e = c \<and> anyAccount e) ?evs"
    by (rule merge_in_order [OF evaluatedFrom_sorted]) (simp add: ofAccount_def)
  finally show ?thesis by (simp add: conj_disj_distribL)
qed

section \<open>Index\<close>

definition validFor :: "string \<Rightarrow> evaluated_binding \<Rightarrow> bool" where
  "validFor key e \<longleftrightarrow>
     (case peerConstraint (evMatch e) of ValidPeer k i \<Rightarrow> key \<in> set (peerLookupKeys k i) | _ \<Rightarrow> False)"

definition noPeerIn :: "evaluated_binding \<Rightarrow> bool" where
  "noPeerIn e \<longleftrightarrow> peerConstraint (evMatch e) = NoPeer \<or> peerConstraint (evMatch e) = InvalidPeer"

definition wellMatched :: "norm_match \<Rightarrow> bool" where
  "wellMatched m \<longleftrightarrow> guildConstraint m \<noteq> Some [] \<and> teamConstraint m \<noteq> Some [] \<and> roleConstraint m \<noteq> Some [] \<and>
     (\<forall>k. peerConstraint m \<noteq> ValidPeer k [])"

definition index_ok :: "evaluated_binding list \<Rightarrow> binding_index \<Rightarrow> bool" where
  "index_ok es index \<longleftrightarrow>
     (\<forall>key. listAt (byPeer index) key = filter (validFor key) es) \<and>
     byPeerWildcard index = filter (\<lambda>e. \<exists>k. peerConstraint (evMatch e) = WildcardKind k) es \<and>
     (\<forall>g. g \<noteq> [] \<longrightarrow> listAt (byGuildWithRoles index) g =
        filter (\<lambda>e. noPeerIn e \<and> guildConstraint (evMatch e) = Some g \<and> roleConstraint (evMatch e) \<noteq> None) es) \<and>
     (\<forall>g. g \<noteq> [] \<longrightarrow> listAt (byGuild index) g =
        filter (\<lambda>e. noPeerIn e \<and> guildConstraint (evMatch e) = Some g \<and> roleConstraint (evMatch e) = None) es) \<and>
     (\<forall>t. t \<noteq> [] \<longrightarrow> listAt (byTeam index) t =
        filter (\<lambda>e. noPeerIn e \<and> guildConstraint (evMatch e) = None \<and> teamConstraint (evMatch e) = Some t) es) \<and>
     byAccount index = filter (\<lambda>e. noPeerIn e \<and> guildConstraint (evMatch e) = None \<and>
        teamConstraint (evMatch e) = None \<and> accountPattern (evMatch e) \<noteq> ''*'') es \<and>
     byChannel index = filter (\<lambda>e. noPeerIn e \<and> guildConstraint (evMatch e) = None \<and>
        teamConstraint (evMatch e) = None \<and> accountPattern (evMatch e) = ''*'') es"

lemma peerKey_inj: "peerKey k i = peerKey l j \<longleftrightarrow> k = l \<and> i = j"
  by (cases k; cases l) (simp_all add: peerKey_def)

lemma peerKey_not_nil: "peerKey k i \<noteq> []"
  by (simp add: peerKey_def)

lemma lookup_keys:
  "key \<in> set (peerLookupKeys k i) \<longleftrightarrow> (\<exists>l. peerKindMatches k l \<and> key = peerKey l i)"
proof (cases k)
  case DirectChat
  then show ?thesis by (auto simp: peerKindMatches_def)
next
  case GroupChat
  have "(\<exists>l. peerKindMatches GroupChat l \<and> key = peerKey l i) \<longleftrightarrow> key = peerKey GroupChat i \<or> key = peerKey ChannelChat i"
    by (auto simp: peerKindMatches_def)
  with GroupChat show ?thesis by simp
next
  case ChannelChat
  have "(\<exists>l. peerKindMatches ChannelChat l \<and> key = peerKey l i) \<longleftrightarrow> key = peerKey ChannelChat i \<or> key = peerKey GroupChat i"
    by (auto simp: peerKindMatches_def)
  with ChannelChat show ?thesis by simp
qed

lemma push_keys:
  assumes "\<forall>k \<in> set keys. k \<noteq> []" "distinct keys"
  shows "listAt (foldl (\<lambda>acc key. pushToIndexMap acc (Some key) e) m keys) k =
    listAt m k @ (if k \<in> set keys then [e] else [])"
  using assms
proof (induction keys arbitrary: m)
  case (Cons a keys)
  then show ?case by (simp add: pushToIndexMap_def pushTo_get)
qed simp

lemma lookup_keys_plain: "(\<forall>k \<in> set (peerLookupKeys kind i). k \<noteq> []) \<and> distinct (peerLookupKeys kind i)"
  by (cases kind) (simp_all add: peerKey_not_nil peerKey_inj)

lemma index_add_plain:
  assumes ok: "index_ok es index" and wm: "wellMatched (evMatch e)" and np: "noPeerIn e"
  shows "index_ok (es @ [e]) (addToIndex index e)"
proof -
  have plain: "\<not> validFor key e" "peerConstraint (evMatch e) \<noteq> WildcardKind k" for key k
    using np by (auto simp: validFor_def noPeerIn_def)
  have added: "addToIndex index e =
       (if guildConstraint (evMatch e) \<noteq> None \<and> roleConstraint (evMatch e) \<noteq> None then
          index\<lparr>byGuildWithRoles := pushToIndexMap (byGuildWithRoles index) (guildConstraint (evMatch e)) e\<rparr>
        else if guildConstraint (evMatch e) \<noteq> None \<and> roleConstraint (evMatch e) = None then
          index\<lparr>byGuild := pushToIndexMap (byGuild index) (guildConstraint (evMatch e)) e\<rparr>
        else if teamConstraint (evMatch e) \<noteq> None
          then index\<lparr>byTeam := pushToIndexMap (byTeam index) (teamConstraint (evMatch e)) e\<rparr>
        else if accountPattern (evMatch e) \<noteq> ''*'' then index\<lparr>byAccount := byAccount index @ [e]\<rparr>
        else index\<lparr>byChannel := byChannel index @ [e]\<rparr>)"
    using np by (cases "peerConstraint (evMatch e)") (simp_all only: noPeerIn_def addToIndex_def Let_def peer_constraint.simps simp_thms)
  show ?thesis
  proof (cases "guildConstraint (evMatch e)")
    case (Some g)
    then have "g \<noteq> []" using wm by (simp add: wellMatched_def)
    then show ?thesis using ok np Some
      by (cases "roleConstraint (evMatch e)") (simp_all add: index_ok_def plain added pushToIndexMap_def pushTo_get)
  next
    case None
    show ?thesis
    proof (cases "teamConstraint (evMatch e)")
      case (Some t)
      then have "t \<noteq> []" using wm by (simp add: wellMatched_def)
      then show ?thesis using ok np None Some
        by (simp add: index_ok_def plain added pushToIndexMap_def pushTo_get)
    qed (use ok np None in \<open>simp add: index_ok_def plain added\<close>)
  qed
qed

lemma index_add:
  assumes "index_ok es index" "wellMatched (evMatch e)"
  shows "index_ok (es @ [e]) (addToIndex index e)"
proof (cases "peerConstraint (evMatch e)")
  case (ValidPeer kind i)
  have keys: "listAt (foldl (\<lambda>acc key. pushToIndexMap acc (Some key) e) (byPeer index) (peerLookupKeys kind i)) k =
      listAt (byPeer index) k @ (if k \<in> set (peerLookupKeys kind i) then [e] else [])" for k
    using push_keys lookup_keys_plain by blast
  have plain: "validFor key e \<longleftrightarrow> key \<in> set (peerLookupKeys kind i)" "\<not> noPeerIn e"
    "peerConstraint (evMatch e) \<noteq> WildcardKind k"
    "addToIndex index e =
       index\<lparr>byPeer := foldl (\<lambda>acc key. pushToIndexMap acc (Some key) e) (byPeer index) (peerLookupKeys kind i)\<rparr>" for key k
    using ValidPeer by (simp_all add: validFor_def noPeerIn_def addToIndex_def Let_def)
  show ?thesis using assms(1) by (simp add: index_ok_def plain keys)
next
  case (WildcardKind kind)
  have plain: "\<not> validFor key e" "\<not> noPeerIn e" "addToIndex index e = index\<lparr>byPeerWildcard := byPeerWildcard index @ [e]\<rparr>"
    for key
    using WildcardKind by (simp_all add: validFor_def noPeerIn_def addToIndex_def Let_def)
  show ?thesis using assms(1) WildcardKind by (simp add: index_ok_def plain)
next
  case NoPeer
  then show ?thesis using index_add_plain [OF assms] by (simp add: noPeerIn_def)
next
  case InvalidPeer
  then show ?thesis using index_add_plain [OF assms] by (simp add: noPeerIn_def)
qed

lemma index_built:
  assumes "\<forall>e \<in> set es. wellMatched (evMatch e)"
  shows "index_ok es (buildEvaluatedBindingsIndex es)"
proof -
  have "index_ok fs index \<Longrightarrow> index_ok (fs @ es) (foldl addToIndex index es)" for fs index
    using assms
  proof (induction es arbitrary: fs index)
    case (Cons e es)
    then show ?case using Cons.IH [of "fs @ [e]" "addToIndex index e"] index_add by simp
  qed simp
  from this [of "[]" emptyIndex] show ?thesis
    by (simp add: buildEvaluatedBindingsIndex_def index_ok_def emptyIndex_def)
qed

lemma norm_wellMatched: "wellMatched (normalizeBindingMatch m)"
  by (cases m)
    (auto simp: wellMatched_def normalizeBindingMatch_def nonEmpty_def normalizeRouteBindingRoles_def
      normalizePeerConstraint_def Let_def split: option.splits if_splits)

section \<open>Tiers\<close>

lemma unseen_all:
  "distinct (map evOrder xs) \<Longrightarrow> set (map evOrder xs) \<inter> set seen = {} \<Longrightarrow>
     set (map evOrder ys) \<subseteq> set (map evOrder xs) \<union> set seen \<Longrightarrow> collectUnseen seen (xs @ ys) = xs"
proof (induction xs arbitrary: seen)
  case Nil
  then show ?case by (induction ys) auto
next
  case (Cons x xs)
  then show ?case using Cons.IH [of "evOrder x # seen"] by auto
qed

definition peerMatched :: "route_peer \<Rightarrow> evaluated_binding \<Rightarrow> bool" where
  "peerMatched p e \<longleftrightarrow>
     (case peerConstraint (evMatch e) of
        ValidPeer k i \<Rightarrow> i = peerId p \<and> peerKindMatches k (peerKind p) | _ \<Rightarrow> False)"

lemma valid_for_key: "validFor (peerKey l i) = peerMatched \<lparr>peerKind = l, peerId = i\<rparr>"
  by (auto simp: fun_eq_iff validFor_def peerMatched_def lookup_keys peerKey_inj split: peer_constraint.split)

lemma space_kinds: "peerKindMatches k GroupChat \<longleftrightarrow> peerKindMatches k ChannelChat"
  by (cases k) (simp_all add: peerKindMatches_def)

lemma collected:
  assumes "index_ok es index" "sorted_wrt (\<lambda>a b. evOrder a < evOrder b) es"
  shows "collectPeerIndexedBindings index (Some p) = filter (peerMatched p) es"
proof -
  let ?f = "filter (peerMatched p) es"
  have at: "listAt (byPeer index) (peerKey l (peerId p)) = filter (peerMatched \<lparr>peerKind = l, peerId = peerId p\<rparr>) es" for l
    using assms(1) by (simp add: index_ok_def flip: valid_for_key)
  have same: "peerMatched \<lparr>peerKind = l, peerId = peerId p\<rparr> = peerMatched p" if "peerKindMatches (peerKind p) l" for l
    using that space_kinds
    by (cases "peerKind p"; cases l)
      (auto simp: peerMatched_def fun_eq_iff peerKindMatches_def split: peer_constraint.splits)
  have lists: "concat (map (\<lambda>key. listAt (byPeer index) key) (peerLookupKeys (peerKind p) (peerId p))) \<in> {?f, ?f @ ?f}"
    by (cases "peerKind p") (simp_all add: at same peerKindMatches_def)
  have "sorted_wrt (\<lambda>a b. evOrder a < evOrder b) ?f" using assms(2) by (rule sorted_wrt_filter)
  then have "distinct (map evOrder ?f)"
    by (metis sorted_wrt_map strict_sorted_iff)
  then have "collectUnseen [] ?f = ?f" "collectUnseen [] (?f @ ?f) = ?f"
    using unseen_all [of ?f "[]" "[]"] unseen_all [of ?f "[]" ?f] by simp_all
  with lists show ?thesis by (auto simp: collectPeerIndexedBindings_def)
qed

lemma find_filter_cong:
  "\<forall>e \<in> set es. (Q e \<and> P e) = R e \<Longrightarrow> find P (filter Q es) = find R es"
  by (induction es) auto

lemma find_none: "\<forall>e \<in> set es. \<not> R e \<Longrightarrow> find R es = None"
  by (simp add: find_None_iff)

definition trimmedQuery :: "route_query \<Rightarrow> bool" where
  "trimmedQuery q \<longleftrightarrow> js_trim (queryGuild q) = queryGuild q \<and> js_trim (queryTeam q) = queryTeam q"

definition answersEv :: "route_query \<Rightarrow> matched_by \<Rightarrow> evaluated_binding \<Rightarrow> bool" where
  "answersEv q t e \<longleftrightarrow> servesTier t (evMatch e) \<and> matchesBindingScope (evMatch e) (tierScope q t)"

text \<open>What a match of the scope says of the ids of the event.\<close>

lemma scope_id: "c \<noteq> Some [] \<Longrightarrow> scopeIdMatches c x [] \<longleftrightarrow> (\<forall>g. c = Some g \<longrightarrow> g = x)"
  by (cases c) (auto simp: scopeIdMatches_def)

lemma scope_matches_iff:
  assumes "wellMatched m"
  shows "routeBindingScopeMatches (guildConstraint m) (teamConstraint m) (roleConstraint m)
      \<lparr>scopeGuildId = IdText (scopeGuild scope), scopeTeamId = IdText (scopeTeam scope), scopeGroupSpace = IdOther,
       scopeRoleIds = Some (scopeRoles scope)\<rparr> \<longleftrightarrow>
    (\<forall>g. guildConstraint m = Some g \<longrightarrow> g = js_trim (scopeGuild scope)) \<and>
    (\<forall>t. teamConstraint m = Some t \<longrightarrow> t = js_trim (scopeTeam scope)) \<and>
    (\<forall>rs. roleConstraint m = Some rs \<longrightarrow> list_ex (\<lambda>r. r \<in> set (scopeRoles scope)) rs)"
proof -
  have "guildConstraint m \<noteq> Some []" "teamConstraint m \<noteq> Some []" "roleConstraint m \<noteq> Some []"
    using assms by (simp_all add: wellMatched_def)
  then show ?thesis
    by (cases "roleConstraint m")
      (simp_all add: routeBindingScopeMatches_def scope_id normalizeRouteBindingRoles_def hasAnyRouteBindingRole_def)
qed

lemma scope_rest:
  assumes "matchesBindingScope m scope" "wellMatched m"
    and "js_trim (scopeGuild scope) = scopeGuild scope" "js_trim (scopeTeam scope) = scopeTeam scope"
  shows "(\<forall>g. guildConstraint m = Some g \<longrightarrow> g = scopeGuild scope \<and> g \<noteq> [])
    \<and> (\<forall>t. teamConstraint m = Some t \<longrightarrow> t = scopeTeam scope \<and> t \<noteq> [])
    \<and> (roleConstraint m \<noteq> None \<longrightarrow> scopeRoles scope \<noteq> [])"
proof -
  have "routeBindingScopeMatches (guildConstraint m) (teamConstraint m) (roleConstraint m)
      \<lparr>scopeGuildId = IdText (scopeGuild scope), scopeTeamId = IdText (scopeTeam scope), scopeGroupSpace = IdOther,
       scopeRoleIds = Some (scopeRoles scope)\<rparr>"
    using assms(1)
    by (cases "peerConstraint m") (simp_all add: matchesBindingScope_def split: option.splits if_splits)
  then have "(\<forall>g. guildConstraint m = Some g \<longrightarrow> g = scopeGuild scope)"
    "(\<forall>t. teamConstraint m = Some t \<longrightarrow> t = scopeTeam scope)"
    "(\<forall>rs. roleConstraint m = Some rs \<longrightarrow> list_ex (\<lambda>r. r \<in> set (scopeRoles scope)) rs)"
    unfolding scope_matches_iff [OF assms(2)] assms(3,4) by blast+
  then show ?thesis using assms(2)
    by (auto simp: wellMatched_def list_ex_iff)
qed

lemma scope_peer:
  assumes "matchesBindingScope m scope"
  shows "peerConstraint m = ValidPeer k i \<Longrightarrow>
      \<exists>p. scopePeer scope = Some p \<and> peerId p = i \<and> peerKindMatches k (peerKind p)"
    and "peerConstraint m = WildcardKind k \<Longrightarrow> scopePeer scope \<noteq> None"
  using assms by (simp_all add: matchesBindingScope_def split: option.splits if_splits)

lemma tier_candidates:
  assumes "\<forall>e \<in> set es. answersEv q t e \<longrightarrow> Q e"
    and "\<forall>e \<in> set es. Q e \<and> tierPredicate t (evMatch e) \<and> matchesBindingScope (evMatch e) (tierScope q t) \<longrightarrow> answersEv q t e"
    and "\<forall>e \<in> set es. answersEv q t e \<longrightarrow> tierPredicate t (evMatch e)"
  shows "find (\<lambda>e. tierPredicate t (evMatch e) \<and> matchesBindingScope (evMatch e) (tierScope q t)) (filter Q es) =
    find (answersEv q t) es"
proof (rule find_filter_cong, rule ballI)
  fix e assume "e \<in> set es"
  with assms have "answersEv q t e \<longrightarrow> Q e" "answersEv q t e \<longrightarrow> tierPredicate t (evMatch e)"
    "Q e \<and> tierPredicate t (evMatch e) \<and> matchesBindingScope (evMatch e) (tierScope q t) \<longrightarrow> answersEv q t e"
    by blast+
  moreover have "answersEv q t e \<longrightarrow> matchesBindingScope (evMatch e) (tierScope q t)" by (simp add: answersEv_def)
  ultimately show "(Q e \<and> tierPredicate t (evMatch e) \<and> matchesBindingScope (evMatch e) (tierScope q t)) = answersEv q t e"
    by blast
qed

lemma disabled_tier:
  "\<forall>e \<in> set es. \<not> answersEv q t e \<Longrightarrow> find (answersEv q t) es = None"
  by (rule find_none)

text \<open>The tiers over the evaluated bindings.\<close>

fun specEv :: "route_query \<Rightarrow> evaluated_binding list \<Rightarrow> matched_by list \<Rightarrow> (matched_by \<times> evaluated_binding) option" where
  "specEv q es [] = None"
| "specEv q es (t # ts) =
     (case find (answersEv q t) es of Some e \<Rightarrow> Some (t, e) | None \<Rightarrow> specEv q es ts)"

lemma first_tier_map:
  assumes "list_all2 (\<lambda>tier t. tierMatchedBy tier = t \<and> tierMatch q tier = find (answersEv q t) es) tiers ts"
  shows "firstTier q tiers = specEv q es ts"
  using assms by (induction tiers ts rule: list_all2_induct) (simp_all split: option.split)

definition indexes :: "binding_index \<Rightarrow> evaluated_binding list \<Rightarrow> route_query \<Rightarrow> bool" where
  "indexes index es q \<longleftrightarrow>
     index_ok es index \<and> sorted_wrt (\<lambda>a b. evOrder a < evOrder b) es \<and> (\<forall>e \<in> set es. wellMatched (evMatch e)) \<and>
     trimmedQuery q"

lemma answer_ids:
  assumes "indexes index es q" "e \<in> set es" "answersEv q t e"
  shows "(\<forall>g. guildConstraint (evMatch e) = Some g \<longrightarrow> g = queryGuild q \<and> g \<noteq> [])
    \<and> (\<forall>u. teamConstraint (evMatch e) = Some u \<longrightarrow> u = queryTeam q \<and> u \<noteq> [])
    \<and> (roleConstraint (evMatch e) \<noteq> None \<longrightarrow> queryRoles q \<noteq> [])"
proof -
  have "matchesBindingScope (evMatch e) (tierScope q t)" "wellMatched (evMatch e)" "trimmedQuery q"
    using assms by (simp_all add: indexes_def answersEv_def)
  from scope_rest [OF this(1,2)] this(3) show ?thesis by (simp add: trimmedQuery_def tierScope_def)
qed

lemma tier_find:
  assumes "tierEnabled tier \<Longrightarrow> tierCandidates tier = filter Q es"
    and "tierEnabled tier \<Longrightarrow> tierScope q (tierMatchedBy tier) =
      \<lparr>scopePeer = tierPeer tier, scopeGuild = queryGuild q, scopeTeam = queryTeam q, scopeRoles = queryRoles q\<rparr>"
    and "\<And>e. e \<in> set es \<Longrightarrow> answersEv q (tierMatchedBy tier) e \<Longrightarrow>
      tierEnabled tier \<and> Q e \<and> tierPredicate (tierMatchedBy tier) (evMatch e)"
    and "\<And>e. e \<in> set es \<Longrightarrow> Q e \<Longrightarrow> tierPredicate (tierMatchedBy tier) (evMatch e) \<Longrightarrow>
      matchesBindingScope (evMatch e) (tierScope q (tierMatchedBy tier)) \<Longrightarrow> servesTier (tierMatchedBy tier) (evMatch e)"
  shows "tierMatch q tier = find (answersEv q (tierMatchedBy tier)) es"
proof (cases "tierEnabled tier")
  case True
  have "tierMatch q tier = find (\<lambda>e. tierPredicate (tierMatchedBy tier) (evMatch e) \<and>
      matchesBindingScope (evMatch e) (tierScope q (tierMatchedBy tier))) (filter Q es)"
    using True assms(1,2) by (simp add: tierMatch_def)
  also have "\<dots> = find (answersEv q (tierMatchedBy tier)) es"
    by (rule tier_candidates) (use assms(3,4) in \<open>auto simp only: answersEv_def\<close>)
  finally show ?thesis .
next
  case False
  then have "\<forall>e \<in> set es. \<not> answersEv q (tierMatchedBy tier) e" using assms(3) by blast
  then show ?thesis using False by (simp add: tierMatch_def find_none)
qed

lemma serves_simps:
  "servesTier ByPeer m \<longleftrightarrow> (\<exists>k i. peerConstraint m = ValidPeer k i)"
  "servesTier ByParentPeer m \<longleftrightarrow> (\<exists>k i. peerConstraint m = ValidPeer k i)"
  "servesTier ByPeerWildcard m \<longleftrightarrow> (\<exists>k. peerConstraint m = WildcardKind k)"
  "servesTier ByGuildRoles m \<longleftrightarrow> peerConstraint m = NoPeer \<and> guildConstraint m \<noteq> None \<and> roleConstraint m \<noteq> None"
  "servesTier ByGuild m \<longleftrightarrow> peerConstraint m = NoPeer \<and> guildConstraint m \<noteq> None \<and> roleConstraint m = None"
  "servesTier ByTeam m \<longleftrightarrow> peerConstraint m = NoPeer \<and> guildConstraint m = None \<and> teamConstraint m \<noteq> None"
  "servesTier ByAccount m \<longleftrightarrow> peerConstraint m = NoPeer \<and> guildConstraint m = None \<and> teamConstraint m = None \<and>
     accountPattern m \<noteq> ''*''"
  "servesTier ByChannel m \<longleftrightarrow> peerConstraint m = NoPeer \<and> guildConstraint m = None \<and> teamConstraint m = None \<and>
     accountPattern m = ''*''"
  by (cases "peerConstraint m"; simp add: servesTier_def)+

lemma invalid_never: "matchesBindingScope m scope \<Longrightarrow> peerConstraint m \<noteq> InvalidPeer"
  by (auto simp: matchesBindingScope_def)

lemma peer_tier:
  assumes "indexes index es q" "t = ByPeer \<or> t = ByParentPeer" and scope: "scopePeer (tierScope q t) = peer"
    and enabled: "en \<longleftrightarrow> (case peer of Some p \<Rightarrow> t = ByPeer \<or> peerId p \<noteq> [] | None \<Rightarrow> False)"
    and p: "p = (if en then peer else None)"
  shows "tierMatch q \<lparr>tierMatchedBy = t, tierEnabled = en, tierPeer = p,
      tierCandidates = collectPeerIndexedBindings index peer\<rparr> = find (answersEv q t) es"
proof -
  let ?Q = "\<lambda>e. case peer of Some p \<Rightarrow> peerMatched p e | None \<Rightarrow> False"
  have serves: "servesTier t m \<longleftrightarrow> (\<exists>k i. peerConstraint m = ValidPeer k i)"
    "tierPredicate t m \<longleftrightarrow> (\<exists>k i. peerConstraint m = ValidPeer k i)" for m
    using assms(2) by (auto simp: serves_simps split: peer_constraint.splits)
  have answer: "en \<and> ?Q e \<and> tierPredicate t (evMatch e)" if e: "e \<in> set es" "answersEv q t e" for e
  proof -
    obtain k i where k: "peerConstraint (evMatch e) = ValidPeer k i"
      using e(2) unfolding answersEv_def serves by blast
    moreover have "i \<noteq> []" using e assms(1) k by (auto simp: indexes_def wellMatched_def)
    ultimately obtain x where "peer = Some x" "peerId x = i" "peerKindMatches k (peerKind x)"
      using scope_peer(1) [of "evMatch e" "tierScope q t"] e scope by (auto simp: answersEv_def)
    then show ?thesis using k serves \<open>i \<noteq> []\<close> by (simp add: enabled peerMatched_def)
  qed
  have "tierMatch q \<lparr>tierMatchedBy = t, tierEnabled = en, tierPeer = p,
      tierCandidates = collectPeerIndexedBindings index peer\<rparr> =
    find (answersEv q (tierMatchedBy \<lparr>tierMatchedBy = t, tierEnabled = en, tierPeer = p,
      tierCandidates = collectPeerIndexedBindings index peer\<rparr>)) es"
  proof (rule tier_find [where Q = ?Q], goal_cases)
    case 1
    then show ?case using assms(1) collected enabled by (auto simp: indexes_def split: option.splits)
  next
    case 2
    then show ?case using scope p by (simp add: tierScope_def)
  next
    case (3 e)
    then show ?case using answer by simp
  next
    case (4 e)
    then show ?case using serves by simp
  qed
  then show ?thesis by simp
qed

lemma plain_tier:
  assumes "indexes index es q" "t \<notin> {ByPeer, ByParentPeer, ByDefault}"
    and cand: "en \<Longrightarrow> cs = filter Q es"
    and answer: "\<And>e. e \<in> set es \<Longrightarrow> answersEv q t e \<Longrightarrow> en \<and> Q e \<and> tierPredicate t (evMatch e)"
    and conv: "\<And>e. e \<in> set es \<Longrightarrow> Q e \<Longrightarrow> tierPredicate t (evMatch e) \<Longrightarrow>
      peerConstraint (evMatch e) \<noteq> InvalidPeer \<Longrightarrow> servesTier t (evMatch e)"
  shows "tierMatch q \<lparr>tierMatchedBy = t, tierEnabled = en, tierPeer = queryPeer q, tierCandidates = cs\<rparr> =
    find (answersEv q t) es"
proof -
  let ?tier = "\<lparr>tierMatchedBy = t, tierEnabled = en, tierPeer = queryPeer q, tierCandidates = cs\<rparr>"
  have "tierMatch q ?tier = find (answersEv q (tierMatchedBy ?tier)) es"
    by (rule tier_find [where Q = Q]) (use assms(2) cand answer conv invalid_never in \<open>simp_all add: tierScope_def\<close>)
  then show ?thesis by simp
qed

lemma index_fields:
  assumes "index_ok es index"
  shows "byPeerWildcard index = filter (\<lambda>e. \<exists>k. peerConstraint (evMatch e) = WildcardKind k) es"
    and "g \<noteq> [] \<Longrightarrow> indexedAt (byGuildWithRoles index) g =
      filter (\<lambda>e. noPeerIn e \<and> guildConstraint (evMatch e) = Some g \<and> roleConstraint (evMatch e) \<noteq> None) es"
    and "g \<noteq> [] \<Longrightarrow> indexedAt (byGuild index) g =
      filter (\<lambda>e. noPeerIn e \<and> guildConstraint (evMatch e) = Some g \<and> roleConstraint (evMatch e) = None) es"
    and "g \<noteq> [] \<Longrightarrow> indexedAt (byTeam index) g =
      filter (\<lambda>e. noPeerIn e \<and> guildConstraint (evMatch e) = None \<and> teamConstraint (evMatch e) = Some g) es"
    and "byAccount index = filter (\<lambda>e. noPeerIn e \<and> guildConstraint (evMatch e) = None \<and>
      teamConstraint (evMatch e) = None \<and> accountPattern (evMatch e) \<noteq> ''*'') es"
    and "byChannel index = filter (\<lambda>e. noPeerIn e \<and> guildConstraint (evMatch e) = None \<and>
      teamConstraint (evMatch e) = None \<and> accountPattern (evMatch e) = ''*'') es"
  using assms by (simp_all add: index_ok_def indexedAt_def)

lemma indexes_ok: "indexes index es q \<Longrightarrow> index_ok es index"
  by (simp add: indexes_def)

definition parentOk :: "route_query \<Rightarrow> bool" where
  "parentOk q \<longleftrightarrow> (case queryParent q of Some p \<Rightarrow> peerId p \<noteq> [] | None \<Rightarrow> False)"

lemma peer_answers:
  assumes ix: "indexes index es q"
  shows "tierMatch q \<lparr>tierMatchedBy = ByPeer, tierEnabled = (queryPeer q \<noteq> None), tierPeer = queryPeer q,
      tierCandidates = collectPeerIndexedBindings index (queryPeer q)\<rparr> = find (answersEv q ByPeer) es"
  by (rule peer_tier [OF ix]) (auto simp: tierScope_def parentOk_def split: option.split)

lemma parent_answers:
  assumes ix: "indexes index es q"
  shows "tierMatch q \<lparr>tierMatchedBy = ByParentPeer, tierEnabled = parentOk q,
      tierPeer = (if parentOk q then queryParent q else None),
      tierCandidates = collectPeerIndexedBindings index (queryParent q)\<rparr> = find (answersEv q ByParentPeer) es"
  by (rule peer_tier [OF ix]) (auto simp: tierScope_def parentOk_def split: option.split)

lemma wildcard_answers:
  assumes ix: "indexes index es q"
  shows "tierMatch q \<lparr>tierMatchedBy = ByPeerWildcard, tierEnabled = (queryPeer q \<noteq> None), tierPeer = queryPeer q,
      tierCandidates = byPeerWildcard index\<rparr> = find (answersEv q ByPeerWildcard) es"
proof (rule plain_tier [OF ix, where Q = "\<lambda>e. \<exists>k. peerConstraint (evMatch e) = WildcardKind k"], goal_cases)
  case 2
  then show ?case using index_fields [OF indexes_ok [OF ix]] by blast
next
  case (3 e)
  then obtain k where k: "peerConstraint (evMatch e) = WildcardKind k" by (auto simp: answersEv_def serves_simps noPeerIn_def)
  then have "queryPeer q \<noteq> None"
    using scope_peer(2) [of "evMatch e" "tierScope q ByPeerWildcard" k] 3 by (simp add: answersEv_def tierScope_def)
  with k show ?case by simp
qed (auto simp: serves_simps)

lemma guild_roles_answers:
  assumes ix: "indexes index es q"
  shows "tierMatch q \<lparr>tierMatchedBy = ByGuildRoles, tierEnabled = (queryGuild q \<noteq> [] \<and> length (queryRoles q) > 0),
      tierPeer = queryPeer q, tierCandidates = indexedAt (byGuildWithRoles index) (queryGuild q)\<rparr> =
    find (answersEv q ByGuildRoles) es"
proof (rule plain_tier [OF ix, where Q = "\<lambda>e. noPeerIn e \<and> guildConstraint (evMatch e) = Some (queryGuild q) \<and>
    roleConstraint (evMatch e) \<noteq> None"], goal_cases)
  case 2
  then show ?case using index_fields [OF indexes_ok [OF ix]] by blast
next
  case (3 e)
  then show ?case using answer_ids [OF ix 3] by (auto simp: answersEv_def serves_simps noPeerIn_def)
qed (auto simp: answersEv_def serves_simps noPeerIn_def)

lemma guild_answers:
  assumes ix: "indexes index es q"
  shows "tierMatch q \<lparr>tierMatchedBy = ByGuild, tierEnabled = (queryGuild q \<noteq> []),
      tierPeer = queryPeer q, tierCandidates = indexedAt (byGuild index) (queryGuild q)\<rparr> =
    find (answersEv q ByGuild) es"
proof (rule plain_tier [OF ix, where Q = "\<lambda>e. noPeerIn e \<and> guildConstraint (evMatch e) = Some (queryGuild q) \<and>
    roleConstraint (evMatch e) = None"], goal_cases)
  case 2
  then show ?case using index_fields [OF indexes_ok [OF ix]] by blast
next
  case (3 e)
  then show ?case using answer_ids [OF ix 3] by (auto simp: answersEv_def serves_simps noPeerIn_def)
qed (auto simp: answersEv_def serves_simps noPeerIn_def)

lemma team_answers:
  assumes ix: "indexes index es q"
  shows "tierMatch q \<lparr>tierMatchedBy = ByTeam, tierEnabled = (queryTeam q \<noteq> []),
      tierPeer = queryPeer q, tierCandidates = indexedAt (byTeam index) (queryTeam q)\<rparr> =
    find (answersEv q ByTeam) es"
proof (rule plain_tier [OF ix, where Q = "\<lambda>e. noPeerIn e \<and> guildConstraint (evMatch e) = None \<and>
    teamConstraint (evMatch e) = Some (queryTeam q)"], goal_cases)
  case 2
  then show ?case using index_fields [OF indexes_ok [OF ix]] by blast
next
  case (3 e)
  then show ?case using answer_ids [OF ix 3] by (auto simp: answersEv_def serves_simps noPeerIn_def)
qed (auto simp: answersEv_def serves_simps noPeerIn_def)

lemma account_answers:
  assumes ix: "indexes index es q"
  shows "tierMatch q \<lparr>tierMatchedBy = ByAccount, tierEnabled = True, tierPeer = queryPeer q,
      tierCandidates = byAccount index\<rparr> = find (answersEv q ByAccount) es"
proof (rule plain_tier [OF ix, where Q = "\<lambda>e. noPeerIn e \<and> guildConstraint (evMatch e) = None \<and>
    teamConstraint (evMatch e) = None \<and> accountPattern (evMatch e) \<noteq> ''*''"], goal_cases)
  case 2
  then show ?case using index_fields [OF indexes_ok [OF ix]] by blast
qed (auto simp: answersEv_def serves_simps noPeerIn_def)

lemma channel_answers:
  assumes ix: "indexes index es q"
  shows "tierMatch q \<lparr>tierMatchedBy = ByChannel, tierEnabled = True, tierPeer = queryPeer q,
      tierCandidates = byChannel index\<rparr> = find (answersEv q ByChannel) es"
proof (rule plain_tier [OF ix, where Q = "\<lambda>e. noPeerIn e \<and> guildConstraint (evMatch e) = None \<and>
    teamConstraint (evMatch e) = None \<and> accountPattern (evMatch e) = ''*''"], goal_cases)
  case 2
  then show ?case using index_fields [OF indexes_ok [OF ix]] by blast
qed (auto simp: answersEv_def serves_simps noPeerIn_def)

lemma tiers_find:
  assumes ix: "indexes index es q"
  shows "firstTier q (routeTiers index q) = specEv q es tierOrder"
proof (rule first_tier_map)
  show "list_all2 (\<lambda>tier t. tierMatchedBy tier = t \<and> tierMatch q tier = find (answersEv q t) es)
      (routeTiers index q) tierOrder"
    using peer_answers [OF ix] parent_answers [OF ix] wildcard_answers [OF ix] guild_roles_answers [OF ix]
      guild_answers [OF ix] team_answers [OF ix] account_answers [OF ix] channel_answers [OF ix]
    by (simp only: routeTiers_def tierOrder_def Let_def parentOk_def) simp
qed

section \<open>Routes\<close>

text \<open>The configuration of a call, and the route resolved with nothing cached.\<close>

definition configOf :: "route_heap \<Rightarrow> config_object \<Rightarrow> route_config" where
  "configOf heap cfg =
     \<lparr>cfgBindings = heapBindings heap (bindingsRef cfg), cfgAgents = heapAgents heap (agentsRef cfg),
      cfgSession = heapSession heap (sessionRef cfg)\<rparr>"

definition coldRoute :: "route_config \<Rightarrow> route_query \<Rightarrow> agent_route" where
  "coldRoute cfg q =
     (let evaluated = bindingsAt (buildEvaluatedBindingsByChannel (cfgBindings cfg)) (queryChannel q) (queryAccount q) in
      case tierAnswer (cfgAgents cfg) (firstTier q (routeTiers (buildEvaluatedBindingsIndex evaluated) q)) of
        (agentId, matchedBy, override) \<Rightarrow>
          chooseRoute (buildAgentLookup (cfgAgents cfg)) (cfgSession cfg) q agentId matchedBy override)"

definition evCovered :: "route_query \<Rightarrow> evaluated_binding \<Rightarrow> bool" where
  "evCovered q e \<longleftrightarrow> evChannel e = queryChannel q \<and> (ofAccount (queryAccount q) e \<or> anyAccount e)"

lemma find_bindings:
  "map_option evBinding (find (answersEv q t) (filter (evCovered q) (evaluatedFrom n bs))) = find (answersAt q t) bs"
proof (induction bs arbitrary: n)
  case Nil
  then show ?case by (simp add: evaluatedFrom_simps)
next
  case (Cons b bs)
  let ?e = "\<lparr>evBinding = b, evMatch = normalizeBindingMatch (bindingMatch b), evOrder = n\<rparr>"
  have "answersAt q t b \<longleftrightarrow> bindingChannel b \<noteq> [] \<and> evCovered q ?e \<and> answersEv q t ?e"
    by (auto simp: answersAt_def coversAccount_def evCovered_def answersEv_def evChannel_def ofAccount_def
        anyAccount_def Let_def)
  then show ?case using Cons.IH by (simp add: evaluatedFrom_simps)
qed

lemma spec_bindings:
  "map_option (map_prod id evBinding) (specEv q (filter (evCovered q) (evaluatedFrom n bs)) ts) = specTiers q bs ts"
proof (induction ts)
  case (Cons t ts)
  then show ?case
    using find_bindings [of q t n bs, symmetric]
    by (cases "find (answersEv q t) (filter (evCovered q) (evaluatedFrom n bs))") simp_all
qed simp

lemma normalize_trimmed: "js_trim (normalizeRouteBindingId i) = normalizeRouteBindingId i"
proof (cases i)
  case IdOther
  then show ?thesis by (simp add: js_trim_def)
qed simp_all

lemma normalizeInput_trimmed: "trimmedQuery (normalizeInput i)"
  by (simp add: trimmedQuery_def normalizeInput_def normalize_trimmed)

lemma cold_route_spec:
  assumes "trimmedQuery q"
  shows "coldRoute cfg q = specRoute cfg q"
proof -
  let ?bs = "listBindings (cfgBindings cfg)"
  let ?es = "bindingsAt (buildEvaluatedBindingsByChannel (cfgBindings cfg)) (queryChannel q) (queryAccount q)"
  have es: "?es = filter (evCovered q) (evaluatedFrom 0 ?bs)"
    by (simp only: bindings_at evCovered_def [abs_def])
  have wm: "\<forall>e \<in> set ?es. wellMatched (evMatch e)"
    by (auto simp: es evaluatedFrom_def norm_wellMatched)
  have "indexes (buildEvaluatedBindingsIndex ?es) ?es q"
    using assms wm index_built [OF wm] sorted_wrt_filter [OF evaluatedFrom_sorted]
    by (simp add: indexes_def es)
  then have "map_option (map_prod id evBinding) (firstTier q (routeTiers (buildEvaluatedBindingsIndex ?es) q)) =
      specTiers q ?bs tierOrder"
    by (simp only: tiers_find) (simp only: es spec_bindings)
  from this [symmetric] show ?thesis
    by (cases "firstTier q (routeTiers (buildEvaluatedBindingsIndex ?es) q)")
      (auto simp: coldRoute_def specRoute_def tierAnswer_def Let_def)
qed

end
