(* ===== verification/RouteCaching.thy ===== *)
theory RouteCaching
  imports RouteMatching
begin

text \<open>
  The caches of ResolveRoute never change an answer, for events whose ids do not contain the separators of the
  cache key. Two witnesses show events with other ids that the key confuses.
\<close>

section \<open>The cache key\<close>

definition plainId :: "string \<Rightarrow> bool" where
  "plainId s \<longleftrightarrow> CHR 0x09 \<notin> set s \<and> s \<noteq> ''-''"

definition plainRole :: "string \<Rightarrow> bool" where
  "plainRole r \<longleftrightarrow> plainId r \<and> CHR '','' \<notin> set r \<and> r \<noteq> []"

definition plainPeer :: "route_peer option \<Rightarrow> bool" where
  "plainPeer p \<longleftrightarrow> (case p of None \<Rightarrow> True | Some x \<Rightarrow> peerId x \<noteq> [] \<and> CHR 0x09 \<notin> set (peerId x))"

definition plainQuery :: "route_query \<Rightarrow> bool" where
  "plainQuery q \<longleftrightarrow>
     CHR 0x09 \<notin> set (queryChannel q) \<and> CHR 0x09 \<notin> set (queryAccount q) \<and>
     plainPeer (queryPeer q) \<and> plainPeer (queryParent q) \<and> plainId (queryGuild q) \<and> plainId (queryTeam q) \<and>
     list_all plainRole (queryRoles q) \<and> trimmedQuery q"

lemma split_tab:
  "CHR 0x09 \<notin> set a \<Longrightarrow> CHR 0x09 \<notin> set b \<Longrightarrow> a @ CHR 0x09 # r = b @ CHR 0x09 # s \<longleftrightarrow> a = b \<and> r = s"
proof (induction a arbitrary: b)
  case Nil
  then show ?case by (cases b) auto
next
  case (Cons x xs)
  then show ?case by (cases b) auto
qed

lemma joinTab_inj:
  assumes "length xs = length ys" "\<forall>x \<in> set xs. CHR 0x09 \<notin> set x" "\<forall>y \<in> set ys. CHR 0x09 \<notin> set y"
  shows "joinTab xs = joinTab ys \<longleftrightarrow> xs = ys"
  using assms
proof (induction xs ys rule: list_induct2)
  case (Cons x xs y ys)
  then show ?case
    by (cases xs; cases ys) (auto simp: split_tab)
qed simp

lemma split_comma:
  "CHR '','' \<notin> set a \<Longrightarrow> CHR '','' \<notin> set b \<Longrightarrow> a @ CHR '','' # r = b @ CHR '','' # s \<longleftrightarrow> a = b \<and> r = s"
proof (induction a arbitrary: b)
  case Nil
  then show ?case by (cases b) auto
next
  case (Cons x xs)
  then show ?case by (cases b) auto
qed

lemma comma_neq: "CHR '','' \<notin> set b \<Longrightarrow> a @ CHR '','' # r \<noteq> b"
  by auto

lemma joinComma_inj:
  assumes "\<forall>x \<in> set xs. CHR '','' \<notin> set x \<and> x \<noteq> []" "\<forall>y \<in> set ys. CHR '','' \<notin> set y \<and> y \<noteq> []"
  shows "joinComma xs = joinComma ys \<longleftrightarrow> xs = ys"
  using assms
proof (induction xs arbitrary: ys rule: joinComma.induct)
  case 1
  then show ?case by (cases ys rule: joinComma.cases) auto
next
  case (2 p)
  then show ?case by (cases ys rule: joinComma.cases) auto
next
  case (3 p q ps)
  show ?case
  proof (cases ys rule: joinComma.cases)
    case (3 p' q' ps')
    then show ?thesis using "3.IH" [of "q' # ps'"] "3.prems" by (simp add: split_comma)
  qed (use "3.prems" in auto)
qed

lemma two_sorted: "toSorted compareStrings [a, b] = (if a \<le> b then [a, b] else [b, a])"
  by (simp add: strings_sort)

lemma formatRoles_eq:
  "formatRoleIdsCacheKey roles = (if roles = [] then ''-'' else joinComma (toSorted compareStrings roles))"
proof (cases roles)
  case (Cons a r)
  show ?thesis
  proof (cases r)
    case Nil
    then show ?thesis using Cons by (simp add: formatRoleIdsCacheKey_def strings_sort)
  next
    case (Cons b t)
    then show ?thesis using \<open>roles = a # r\<close>
      by (cases t) (simp_all add: formatRoleIdsCacheKey_def two_sorted)
  qed
qed (simp add: formatRoleIdsCacheKey_def)

lemma sort_nil: "sort xs = [] \<longleftrightarrow> xs = []"
  by (metis set_empty set_sort)

lemma formatRoles_inj:
  assumes "list_all plainRole a" "list_all plainRole b" "formatRoleIdsCacheKey a = formatRoleIdsCacheKey b"
  shows "set a = set b \<and> (a = [] \<longleftrightarrow> b = [])"
proof -
  have comma: "joinComma xs \<noteq> ''-''" if "xs \<noteq> []" "\<forall>x \<in> set xs. plainRole x" for xs
  proof (cases xs rule: joinComma.cases)
    case (2 p)
    then show ?thesis using that by (simp add: plainRole_def plainId_def)
  next
    case (3 p q ps)
    have "CHR '','' \<notin> set ''-''" by simp
    from comma_neq [OF this] 3 show ?thesis by simp
  qed (use that in simp)
  have sorted: "\<forall>x \<in> set (toSorted compareStrings l). plainRole x" if "list_all plainRole l" for l
    using that by (simp add: strings_sort list_all_iff)
  consider "a = []" "b = []" | "a \<noteq> []" "b \<noteq> []" | "a = []" "b \<noteq> []" | "a \<noteq> []" "b = []" by blast
  then show ?thesis
  proof cases
    case 2
    with assms(3) have "joinComma (toSorted compareStrings a) = joinComma (toSorted compareStrings b)"
      by (simp add: formatRoles_eq)
    then have "toSorted compareStrings a = toSorted compareStrings b"
      using joinComma_inj sorted assms(1,2) by (metis plainRole_def)
    then have "set (toSorted compareStrings a) = set (toSorted compareStrings b)" by simp
    then show ?thesis using 2 by (simp add: strings_sort)
  next
    case 3
    then show ?thesis using assms comma [OF _ sorted [OF assms(2)]] by (simp add: formatRoles_eq strings_sort sort_nil)
  next
    case 4
    then show ?thesis using assms comma [OF _ sorted [OF assms(1)]] by (simp add: formatRoles_eq strings_sort sort_nil)
  qed simp
qed

lemma formatPeer_inj:
  "plainPeer p \<Longrightarrow> plainPeer p' \<Longrightarrow> formatRouteCachePeer p = formatRouteCachePeer p' \<Longrightarrow> p = p'"
proof -
  have "peerKey k i \<noteq> ''-''" "''-'' \<noteq> peerKey k i" for k i by (cases k; simp add: peerKey_def)+
  then show "plainPeer p \<Longrightarrow> plainPeer p' \<Longrightarrow> formatRouteCachePeer p = formatRouteCachePeer p' \<Longrightarrow> p = p'"
    by (cases p; cases p') (auto simp: plainPeer_def formatRouteCachePeer_def peerKey_inj)
qed

lemma formatPeer_tab: "plainPeer p \<Longrightarrow> CHR 0x09 \<notin> set (formatRouteCachePeer p)"
proof -
  have "CHR 0x09 \<notin> set (chatTypeText k)" for k by (cases k) simp_all
  then show "plainPeer p \<Longrightarrow> CHR 0x09 \<notin> set (formatRouteCachePeer p)"
    by (auto simp: plainPeer_def formatRouteCachePeer_def peerKey_def split: option.splits)
qed

lemma joinComma_tab: "\<forall>x \<in> set xs. CHR 0x09 \<notin> set x \<Longrightarrow> CHR 0x09 \<notin> set (joinComma xs)"
  by (induction xs rule: joinComma.induct) auto

lemma formatRoles_tab: "list_all plainRole roles \<Longrightarrow> CHR 0x09 \<notin> set (formatRoleIdsCacheKey roles)"
  using joinComma_tab [of "sort roles"]
  by (auto simp: formatRoles_eq strings_sort list_all_iff plainRole_def plainId_def)

lemma dmScope_inj: "dmScopeText a = dmScopeText b \<longleftrightarrow> a = b"
  by (cases a; cases b) simp_all

lemma dmScope_tab: "CHR 0x09 \<notin> set (dmScopeText a)"
  by (cases a) simp_all

lemma dash_inj:
  "plainId a \<Longrightarrow> plainId b \<Longrightarrow> (if a = [] then ''-'' else a) = (if b = [] then ''-'' else b) \<Longrightarrow> a = b"
  by (auto simp: plainId_def split: if_splits)

lemma dash_tab: "plainId a \<Longrightarrow> CHR 0x09 \<notin> set (if a = [] then ''-'' else a)"
  by (simp add: plainId_def)

definition keyFields :: "route_query \<Rightarrow> dm_scope \<Rightarrow> string list" where
  "keyFields q scope =
     [queryChannel q, queryAccount q, formatRouteCachePeer (queryPeer q), formatRouteCachePeer (queryParent q),
      (if queryGuild q = [] then ''-'' else queryGuild q), (if queryTeam q = [] then ''-'' else queryTeam q),
      formatRoleIdsCacheKey (queryRoles q), dmScopeText scope]"

lemma keyFields_tab: "plainQuery q \<Longrightarrow> \<forall>x \<in> set (keyFields q scope). CHR 0x09 \<notin> set x"
  using dash_tab [of "queryGuild q"] dash_tab [of "queryTeam q"]
  by (simp add: keyFields_def plainQuery_def formatPeer_tab formatRoles_tab dmScope_tab)

text \<open>Events with one key differ in the order and the repetitions of the roles at most.\<close>

lemma key_determines:
  assumes q: "plainQuery q" and q': "plainQuery q'"
    and "buildResolvedRouteCacheKey q scope = buildResolvedRouteCacheKey q' scope'"
  shows "scope = scope' \<and> q' = q\<lparr>queryRoles := queryRoles q'\<rparr> \<and> set (queryRoles q) = set (queryRoles q')"
proof -
  have "keyFields q scope = keyFields q' scope'"
    using assms(3) joinTab_inj [OF _ keyFields_tab [OF q] keyFields_tab [OF q']]
    by (simp add: buildResolvedRouteCacheKey_def keyFields_def)
  then have f: "queryChannel q = queryChannel q'" "queryAccount q = queryAccount q'"
    "formatRouteCachePeer (queryPeer q) = formatRouteCachePeer (queryPeer q')"
    "formatRouteCachePeer (queryParent q) = formatRouteCachePeer (queryParent q')"
    "(if queryGuild q = [] then ''-'' else queryGuild q) = (if queryGuild q' = [] then ''-'' else queryGuild q')"
    "(if queryTeam q = [] then ''-'' else queryTeam q) = (if queryTeam q' = [] then ''-'' else queryTeam q')"
    "formatRoleIdsCacheKey (queryRoles q) = formatRoleIdsCacheKey (queryRoles q')" "scope = scope'"
    by (simp_all only: keyFields_def list.inject dmScope_inj)
  have p: "plainPeer (queryPeer q)" "plainPeer (queryParent q)" "plainId (queryGuild q)" "plainId (queryTeam q)"
    "list_all plainRole (queryRoles q)"
    "plainPeer (queryPeer q')" "plainPeer (queryParent q')" "plainId (queryGuild q')" "plainId (queryTeam q')"
    "list_all plainRole (queryRoles q')"
    using q q' by (simp_all add: plainQuery_def)
  have "queryPeer q = queryPeer q'" "queryParent q = queryParent q'" "queryGuild q = queryGuild q'"
    "queryTeam q = queryTeam q'" "set (queryRoles q) = set (queryRoles q')"
    using formatPeer_inj [OF p(1,6) f(3)] formatPeer_inj [OF p(2,7) f(4)] dash_inj [OF p(3,8) f(5)]
      dash_inj [OF p(4,9) f(6)] formatRoles_inj [OF p(5,10) f(7)] by simp_all
  with f show ?thesis by simp
qed

lemma spec_roles:
  assumes "set (queryRoles q) = set rs"
  shows "specRoute cfg (q\<lparr>queryRoles := rs\<rparr>) = specRoute cfg q"
proof -
  have "routeBindingScopeMatches g t r \<lparr>scopeGuildId = a, scopeTeamId = b, scopeGroupSpace = c, scopeRoleIds = Some rs\<rparr> =
      routeBindingScopeMatches g t r
        \<lparr>scopeGuildId = a, scopeTeamId = b, scopeGroupSpace = c, scopeRoleIds = Some (queryRoles q)\<rparr>" for g t r a b c
    by (cases "normalizeRouteBindingRoles r")
      (simp_all add: routeBindingScopeMatches_def hasAnyRouteBindingRole_def assms)
  then have "matchesBindingScope m (tierScope (q\<lparr>queryRoles := rs\<rparr>) t) = matchesBindingScope m (tierScope q t)" for m t
    by (cases "peerConstraint m") (simp_all add: matchesBindingScope_def tierScope_def cong: option.case_cong)
  moreover have "coversAccount (q\<lparr>queryRoles := rs\<rparr>) b = coversAccount q b" for b
    by (simp add: coversAccount_def)
  ultimately have "answersAt (q\<lparr>queryRoles := rs\<rparr>) t = answersAt q t" for t
    by (simp add: fun_eq_iff answersAt_def)
  then have "specTiers (q\<lparr>queryRoles := rs\<rparr>) bs ts = specTiers q bs ts" for bs ts
    by (induction ts) (simp_all split: option.split)
  then show ?thesis
    by (simp add: specRoute_def chooseRoute_def cong: option.case_cong)
qed

section \<open>The state of the caches\<close>

definition agents_ok :: "route_heap \<Rightarrow> route_state \<Rightarrow> bool" where
  "agents_ok heap st \<longleftrightarrow>
     (\<forall>c ac. jm_get (agentLookupCacheByCfg st) c = Some ac \<longrightarrow>
        agentCacheLookup ac = buildAgentLookup (heapAgents heap (agentCacheRef ac)))"

text \<open>A cache of bindings answers for every channel and every account without a tab.\<close>

definition bindings_ok :: "route_heap \<Rightarrow> bindings_cache \<Rightarrow> bool" where
  "bindings_ok heap bc \<longleftrightarrow>
     cacheByChannel bc = buildEvaluatedBindingsByChannel (heapBindings heap (bindingsCacheRef bc)) \<and>
     (\<forall>ch a. CHR 0x09 \<notin> set a \<longrightarrow>
        (\<forall>es. jm_get (cacheByChannelAccount bc) (bindingsCacheKey ch a) = Some es \<longrightarrow>
           es = bindingsAt (cacheByChannel bc) ch a) \<and>
        (\<forall>ix. jm_get (cacheByChannelAccountIndex bc) (bindingsCacheKey ch a) = Some ix \<longrightarrow>
           ix = buildEvaluatedBindingsIndex (bindingsAt (cacheByChannel bc) ch a)))"

definition cacheScope :: "session_config \<Rightarrow> dm_scope" where
  "cacheScope session = (case sessionDmScope session of Some d \<Rightarrow> d | None \<Rightarrow> MainScope)"

definition cacheConfig :: "route_heap \<Rightarrow> route_cache \<Rightarrow> route_config" where
  "cacheConfig heap rc =
     \<lparr>cfgBindings = heapBindings heap (routeCacheBindings rc), cfgAgents = heapAgents heap (routeCacheAgents rc),
      cfgSession = heapSession heap (routeCacheSession rc)\<rparr>"

definition routes_ok :: "route_heap \<Rightarrow> route_cache \<Rightarrow> bool" where
  "routes_ok heap rc \<longleftrightarrow>
     (\<forall>q r. plainQuery q \<longrightarrow>
        jm_get (routeCacheByKey rc) (buildResolvedRouteCacheKey q (cacheScope (cfgSession (cacheConfig heap rc)))) = Some r \<longrightarrow>
        r = specRoute (cacheConfig heap rc) q) \<and>
     length (routeCacheByKey rc) \<le> MAX_RESOLVED_ROUTE_CACHE_KEYS"

definition caches_ok :: "route_heap \<Rightarrow> route_state \<Rightarrow> bool" where
  "caches_ok heap st \<longleftrightarrow>
     agents_ok heap st \<and>
     (\<forall>c bc. jm_get (evaluatedBindingsCacheByCfg st) c = Some bc \<longrightarrow> bindings_ok heap bc) \<and>
     (\<forall>c rc. jm_get (resolvedRouteCacheByCfg st) c = Some rc \<longrightarrow> routes_ok heap rc)"

lemma key_split:
  "CHR 0x09 \<notin> set a \<Longrightarrow> CHR 0x09 \<notin> set b \<Longrightarrow> bindingsCacheKey c a = bindingsCacheKey d b \<longleftrightarrow> c = d \<and> a = b"
proof -
  assume ab: "CHR 0x09 \<notin> set a" "CHR 0x09 \<notin> set b"
  have "bindingsCacheKey c a = bindingsCacheKey d b \<longleftrightarrow>
      rev a @ CHR 0x09 # rev c = rev b @ CHR 0x09 # rev d"
    by (metis append.assoc append_Cons append_Nil bindingsCacheKey_def rev.simps(2) rev_append rev_rev_ident)
  also have "\<dots> \<longleftrightarrow> c = d \<and> a = b" using ab by (auto simp: split_tab)
  finally show ?thesis .
qed

lemma agent_lookup_step:
  assumes "agents_ok heap st"
  shows "fst (resolveAgentLookupCache heap st cfg) = buildAgentLookup (heapAgents heap (agentsRef cfg)) \<and>
    agents_ok heap (snd (resolveAgentLookupCache heap st cfg)) \<and>
    evaluatedBindingsCacheByCfg (snd (resolveAgentLookupCache heap st cfg)) = evaluatedBindingsCacheByCfg st \<and>
    resolvedRouteCacheByCfg (snd (resolveAgentLookupCache heap st cfg)) = resolvedRouteCacheByCfg st"
  using assms by (auto simp: resolveAgentLookupCache_def agents_ok_def Let_def split: option.splits)

lemma bindings_cache_for:
  assumes "\<forall>c bc. jm_get (evaluatedBindingsCacheByCfg st) c = Some bc \<longrightarrow> bindings_ok heap bc"
  shows "bindings_ok heap (bindingsCacheFor heap st cfg) \<and>
    bindingsCacheRef (bindingsCacheFor heap st cfg) = bindingsRef cfg"
proof -
  have "bindings_ok heap \<lparr>bindingsCacheRef = r, cacheByChannel = buildEvaluatedBindingsByChannel (heapBindings heap r),
      cacheByChannelAccount = [], cacheByChannelAccountIndex = []\<rparr>" for r
    by (simp add: bindings_ok_def)
  then show ?thesis using assms
    by (cases "jm_get (evaluatedBindingsCacheByCfg st) (objectId cfg)") (simp_all add: bindingsCacheFor_def Let_def)
qed

lemma bindings_added:
  assumes "bindings_ok heap bc" "CHR 0x09 \<notin> set a" "es = bindingsAt (cacheByChannel bc) ch a"
  shows "bindings_ok heap (addEvaluated bc (bindingsCacheKey ch a) es) \<and>
    bindingsCacheRef (addEvaluated bc (bindingsCacheKey ch a) es) = bindingsCacheRef bc"
  using assms by (auto simp: addEvaluated_def bindings_ok_def Let_def key_split split: if_splits)

lemma bindings_hit:
  "bindings_ok heap bc \<Longrightarrow> CHR 0x09 \<notin> set a \<Longrightarrow> jm_get (cacheByChannelAccount bc) (bindingsCacheKey ch a) = Some es \<Longrightarrow>
     es = bindingsAt (cacheByChannel bc) ch a"
  unfolding bindings_ok_def by blast

lemma index_hit:
  "bindings_ok heap bc \<Longrightarrow> CHR 0x09 \<notin> set a \<Longrightarrow>
     jm_get (cacheByChannelAccountIndex bc) (bindingsCacheKey ch a) = Some ix \<Longrightarrow>
     ix = buildEvaluatedBindingsIndex (bindingsAt (cacheByChannel bc) ch a)"
  unfolding bindings_ok_def by blast

lemma bindings_step:
  assumes ok: "caches_ok heap st" and a: "CHR 0x09 \<notin> set a"
    and r: "getEvaluatedBindingsForChannelAccount heap st cfg ch a = (es, st')"
  shows "es = bindingsAt (buildEvaluatedBindingsByChannel (heapBindings heap (bindingsRef cfg))) ch a \<and>
    caches_ok heap st' \<and> resolvedRouteCacheByCfg st' = resolvedRouteCacheByCfg st"
proof -
  let ?bc = "bindingsCacheFor heap st cfg"
  have bc: "bindings_ok heap ?bc" "bindingsCacheRef ?bc = bindingsRef cfg"
    using bindings_cache_for ok by (auto simp: caches_ok_def)
  have built: "cacheByChannel ?bc = buildEvaluatedBindingsByChannel (heapBindings heap (bindingsRef cfg))"
    using bc by (simp add: bindings_ok_def)
  have stored: "caches_ok heap (st\<lparr>evaluatedBindingsCacheByCfg := jm_set (objectId cfg) c (evaluatedBindingsCacheByCfg st)\<rparr>)"
    if "bindings_ok heap c" for c
    using ok that by (simp add: caches_ok_def agents_ok_def)
  show ?thesis
  proof (cases "jm_get (cacheByChannelAccount ?bc) (bindingsCacheKey ch a)")
    case None
    then show ?thesis
      using r stored bindings_added [OF bc(1) a refl, of ch] built
      by (auto simp: getEvaluatedBindingsForChannelAccount_def Let_def)
  next
    case (Some hit)
    have "hit = bindingsAt (cacheByChannel ?bc) ch a" by (rule bindings_hit [OF bc(1) a Some])
    then show ?thesis using Some r stored bc(1) built
      by (auto simp: getEvaluatedBindingsForChannelAccount_def Let_def)
  qed
qed

lemma bindings_held:
  assumes "caches_ok heap st" "getEvaluatedBindingsForChannelAccount heap st cfg ch a = (es, st')" "CHR 0x09 \<notin> set a"
  shows "\<exists>bc. jm_get (evaluatedBindingsCacheByCfg st') (objectId cfg) = Some bc \<and> bindings_ok heap bc \<and>
    bindingsCacheRef bc = bindingsRef cfg"
proof -
  have "bindings_ok heap (bindingsCacheFor heap st cfg)" "bindingsCacheRef (bindingsCacheFor heap st cfg) = bindingsRef cfg"
    using bindings_cache_for assms(1) by (auto simp: caches_ok_def)
  with bindings_added [OF _ assms(3) refl, of heap "bindingsCacheFor heap st cfg" ch] show ?thesis
    using assms(2)
    by (auto simp: getEvaluatedBindingsForChannelAccount_def Let_def split: option.splits)
qed

lemma index_step:
  assumes ok: "caches_ok heap st" and a: "CHR 0x09 \<notin> set a"
    and r: "getEvaluatedBindingIndexForChannelAccount heap st cfg ch a = (ix, st')"
  shows "ix = buildEvaluatedBindingsIndex
      (bindingsAt (buildEvaluatedBindingsByChannel (heapBindings heap (bindingsRef cfg))) ch a) \<and>
    caches_ok heap st' \<and> resolvedRouteCacheByCfg st' = resolvedRouteCacheByCfg st"
proof -
  obtain es st1 where s1: "getEvaluatedBindingsForChannelAccount heap st cfg ch a = (es, st1)" by fastforce
  note st1 = bindings_step [OF ok a s1]
  obtain bc where bc: "jm_get (evaluatedBindingsCacheByCfg st1) (objectId cfg) = Some bc" "bindings_ok heap bc"
    "bindingsCacheRef bc = bindingsRef cfg"
    using bindings_held [OF ok s1 a] by blast
  have built: "cacheByChannel bc = buildEvaluatedBindingsByChannel (heapBindings heap (bindingsRef cfg))"
    using bc by (simp add: bindings_ok_def)
  show ?thesis
  proof (cases "jm_get (cacheByChannelAccountIndex bc) (bindingsCacheKey ch a)")
    case None
    let ?c = "bc\<lparr>cacheByChannelAccountIndex :=
      jm_set (bindingsCacheKey ch a) (buildEvaluatedBindingsIndex es) (cacheByChannelAccountIndex bc)\<rparr>"
    have "bindings_ok heap ?c"
      using bc(2) st1 built a by (auto simp: bindings_ok_def key_split)
    then have "caches_ok heap (st1\<lparr>evaluatedBindingsCacheByCfg :=
        jm_set (objectId cfg) ?c (evaluatedBindingsCacheByCfg st1)\<rparr>)"
      using st1 by (simp add: caches_ok_def agents_ok_def)
    then show ?thesis using r s1 bc(1) None st1
      by (auto simp: getEvaluatedBindingIndexForChannelAccount_def Let_def)
  next
    case (Some hit)
    have "hit = buildEvaluatedBindingsIndex (bindingsAt (cacheByChannel bc) ch a)"
      by (rule index_hit [OF bc(2) a Some])
    then show ?thesis using r s1 bc(1) Some st1 built
      by (auto simp: getEvaluatedBindingIndexForChannelAccount_def Let_def)
  qed
qed

section \<open>Histories\<close>

lemma route_cache_for:
  assumes "caches_ok heap st" "resolveRouteCacheForConfig st cfg = (m, st')"
  shows "caches_ok heap st' \<and>
    (\<exists>rc. jm_get (resolvedRouteCacheByCfg st') (objectId cfg) = Some rc \<and> cacheConfig heap rc = configOf heap cfg \<and>
      routeCacheByKey rc = m \<and> routes_ok heap rc)"
proof -
  let ?new = "\<lparr>routeCacheBindings = bindingsRef cfg, routeCacheAgents = agentsRef cfg,
    routeCacheSession = sessionRef cfg, routeCacheByKey = []\<rparr>"
  have new: "routes_ok heap ?new" "cacheConfig heap ?new = configOf heap cfg"
    by (simp_all add: routes_ok_def cacheConfig_def configOf_def)
  have fresh: "caches_ok heap (st\<lparr>resolvedRouteCacheByCfg := jm_set (objectId cfg) ?new (resolvedRouteCacheByCfg st)\<rparr>)"
    using assms(1) new by (simp add: caches_ok_def agents_ok_def)
  show ?thesis
  proof (cases "jm_get (resolvedRouteCacheByCfg st) (objectId cfg)")
    case None
    then show ?thesis using assms(2) fresh new by (auto simp: resolveRouteCacheForConfig_def Let_def)
  next
    case (Some rc)
    then have rc: "routes_ok heap rc" using assms(1) by (simp add: caches_ok_def)
    show ?thesis
    proof (cases "routeCacheBindings rc = bindingsRef cfg \<and> routeCacheAgents rc = agentsRef cfg \<and>
        routeCacheSession rc = sessionRef cfg")
      case True
      then have "cacheConfig heap rc = configOf heap cfg" by (simp add: cacheConfig_def configOf_def)
      with True Some assms rc show ?thesis by (simp add: resolveRouteCacheForConfig_def Let_def)
    next
      case False
      then show ?thesis using Some assms(2) fresh new by (auto simp: resolveRouteCacheForConfig_def Let_def)
    qed
  qed
qed

lemma same_key_same_route:
  assumes "plainQuery q" "plainQuery q'"
    and "buildResolvedRouteCacheKey q scope = buildResolvedRouteCacheKey q' scope"
  shows "specRoute cfg q' = specRoute cfg q"
  using key_determines [OF assms] spec_roles [of q "queryRoles q'" cfg] by metis

lemma store_step:
  assumes ok: "caches_ok heap st" and q: "plainQuery q"
    and rc: "jm_get (resolvedRouteCacheByCfg st) (objectId cfg) = Some rc" "cacheConfig heap rc = configOf heap cfg"
    and key: "key = buildResolvedRouteCacheKey q (cacheScope (cfgSession (configOf heap cfg)))"
    and route: "route = specRoute (configOf heap cfg) q"
  shows "caches_ok heap (storeRoute st cfg key route)"
proof -
  let ?routes = "jm_set key route (routeCacheByKey rc)"
  let ?kept = "if length ?routes > MAX_RESOLVED_ROUTE_CACHE_KEYS then [(key, route)] else ?routes"
  let ?rc = "rc\<lparr>routeCacheByKey := ?kept\<rparr>"
  have old: "routes_ok heap rc" using ok rc(1) by (simp add: caches_ok_def)
  have cfg: "cacheConfig heap ?rc = configOf heap cfg" using rc(2) by (simp add: cacheConfig_def)
  have "routes_ok heap ?rc"
    unfolding routes_ok_def
  proof (intro conjI allI impI)
    fix q' r
    assume q': "plainQuery q'"
      and r: "jm_get (routeCacheByKey ?rc) (buildResolvedRouteCacheKey q' (cacheScope (cfgSession (cacheConfig heap ?rc)))) = Some r"
    show "r = specRoute (cacheConfig heap ?rc) q'"
    proof (cases "buildResolvedRouteCacheKey q' (cacheScope (cfgSession (configOf heap cfg))) = key")
      case True
      then have "r = route" using r cfg by (auto split: if_splits)
      then show ?thesis using same_key_same_route [OF q' q] True key route cfg by simp
    next
      case False
      then have "jm_get (routeCacheByKey rc) (buildResolvedRouteCacheKey q' (cacheScope (cfgSession (cacheConfig heap rc)))) = Some r"
        using r cfg rc(2) by (auto split: if_splits)
      then show ?thesis using old q' cfg rc(2) by (auto simp: routes_ok_def)
    qed
  next
    show "length (routeCacheByKey ?rc) \<le> MAX_RESOLVED_ROUTE_CACHE_KEYS"
      by (simp add: MAX_RESOLVED_ROUTE_CACHE_KEYS_def)
  qed
  then show ?thesis using ok rc(1)
    by (auto simp: storeRoute_def caches_ok_def agents_ok_def Let_def)
qed

definition plainEvent :: "route_input \<Rightarrow> bool" where
  "plainEvent i \<longleftrightarrow>
     (let q = normalizeInput i in
      CHR 0x09 \<notin> set (queryChannel q) \<and> plainPeer (queryPeer q) \<and> plainPeer (queryParent q) \<and>
      plainId (queryGuild q) \<and> plainId (queryTeam q) \<and> list_all plainRole (queryRoles q))"

lemma account_no_tab: "CHR 0x09 \<notin> set (queryAccount (normalizeInput i))"
  using canonical_not_in [OF normalizeAccountId_canonical] by (simp add: normalizeInput_def isIdLower_def)

lemma plain_event_query: "plainEvent i \<Longrightarrow> plainQuery (normalizeInput i)"
  using account_no_tab [of i] normalizeInput_trimmed [of i] by (simp add: plainEvent_def plainQuery_def Let_def)

lemma evaluated_route:
  assumes "caches_ok heap st" "q = normalizeInput input"
    and "getEvaluatedBindingIndexForChannelAccount heap st cfg (queryChannel q) (queryAccount q) = (ix, st2)"
    and "tierAnswer (heapAgents heap (agentsRef cfg)) (firstTier q (routeTiers ix q)) = (agentId, reason, override)"
    and "resolveAgentLookupCache heap st2 cfg = (lookup, st3)"
  shows "chooseRoute lookup (heapSession heap (sessionRef cfg)) q agentId reason override = specRoute (configOf heap cfg) q \<and>
    caches_ok heap st3 \<and> resolvedRouteCacheByCfg st3 = resolvedRouteCacheByCfg st"
proof -
  have a: "CHR 0x09 \<notin> set (queryAccount q)" using account_no_tab assms(2) by simp
  note ix = index_step [OF assms(1) a assms(3)]
  have ag: "lookup = buildAgentLookup (heapAgents heap (agentsRef cfg))" "agents_ok heap st3"
    "evaluatedBindingsCacheByCfg st3 = evaluatedBindingsCacheByCfg st2"
    "resolvedRouteCacheByCfg st3 = resolvedRouteCacheByCfg st2"
    using agent_lookup_step [of heap st2 cfg] ix assms(5) by (simp_all add: caches_ok_def)
  have "coldRoute (configOf heap cfg) q = chooseRoute lookup (heapSession heap (sessionRef cfg)) q agentId reason override"
    using assms(4) ix ag(1) by (simp add: coldRoute_def configOf_def Let_def)
  then show ?thesis
    using cold_route_spec [of q] normalizeInput_trimmed assms(2) ix ag by (simp add: caches_ok_def)
qed

lemma resolve_step:
  assumes ok: "caches_ok heap st" and plain: "plainEvent input"
  shows "fst (resolveAgentRoute heap verbose st cfg input) = specRoute (configOf heap cfg) (normalizeInput input) \<and>
    caches_ok heap (snd (resolveAgentRoute heap verbose st cfg input))"
proof -
  let ?q = "normalizeInput input"
  let ?use = "\<not> verbose \<and> sessionIdentityLinks (heapSession heap (sessionRef cfg)) = None"
  let ?key = "buildResolvedRouteCacheKey ?q (cacheScope (cfgSession (configOf heap cfg)))"
  have key: "buildResolvedRouteCacheKey ?q (case sessionDmScope (heapSession heap (sessionRef cfg)) of
      Some d \<Rightarrow> d | None \<Rightarrow> MainScope) = ?key"
    by (simp add: cacheScope_def configOf_def)
  obtain m st1 where s1: "(if ?use then resolveRouteCacheForConfig st cfg else ([], st)) = (m, st1)" by fastforce
  have st1: "caches_ok heap st1" using s1 ok route_cache_for by (metis prod.inject)
  have held: "\<exists>rc. jm_get (resolvedRouteCacheByCfg st1) (objectId cfg) = Some rc \<and>
      cacheConfig heap rc = configOf heap cfg \<and> routeCacheByKey rc = m \<and> routes_ok heap rc" if ?use
    using s1 that route_cache_for [OF ok, of cfg m st1] by simp
  obtain ix st2 where s2: "getEvaluatedBindingIndexForChannelAccount heap st1 cfg (queryChannel ?q) (queryAccount ?q) = (ix, st2)"
    by fastforce
  obtain agentId reason override where s3:
    "tierAnswer (heapAgents heap (agentsRef cfg)) (firstTier ?q (routeTiers ix ?q)) = (agentId, reason, override)"
    by (metis prod_cases3)
  obtain lookup st3 where s4: "resolveAgentLookupCache heap st2 cfg = (lookup, st3)" by fastforce
  note ev = evaluated_route [OF st1 refl s2 s3 s4]
  show ?thesis
  proof (cases "jm_get m ?key")
    case (Some hit)
    then have ?use using s1 by (auto split: if_splits)
    with held obtain rc where "cacheConfig heap rc = configOf heap cfg" "routeCacheByKey rc = m" "routes_ok heap rc"
      by blast
    with Some have "hit = specRoute (configOf heap cfg) ?q"
      using plain_event_query [OF plain] by (auto simp: routes_ok_def)
    then show ?thesis using Some s1 st1 by (simp add: resolveAgentRoute_def key Let_def)
  next
    case None
    have "caches_ok heap (storeRoute st3 cfg ?key (specRoute (configOf heap cfg) ?q))" if ?use
      using held [OF that] store_step [OF _ plain_event_query [OF plain] _ _ refl refl] ev by metis
    then show ?thesis using None s1 s2 s3 s4 ev by (simp add: resolveAgentRoute_def key Let_def)
  qed
qed

text \<open>A call: whether the log is verbose, the configuration and the event.\<close>

type_synonym route_call = "bool \<times> config_object \<times> route_input"

definition routeStep :: "route_heap \<Rightarrow> route_state \<Rightarrow> route_call \<Rightarrow> route_state" where
  "routeStep heap st call = (case call of (verbose, cfg, input) \<Rightarrow> snd (resolveAgentRoute heap verbose st cfg input))"

lemma initial_ok: "caches_ok heap initial_routes"
  by (simp add: caches_ok_def agents_ok_def initial_routes_def)

lemma history_ok:
  "caches_ok heap st \<Longrightarrow> list_all (\<lambda>(verbose, cfg, input). plainEvent input) history \<Longrightarrow>
     caches_ok heap (foldl (routeStep heap) st history)"
proof (induction history arbitrary: st)
  case (Cons call history)
  then have "caches_ok heap (routeStep heap st call)"
    using resolve_step by (auto simp: routeStep_def split: prod.splits)
  with Cons show ?case by simp
qed simp

section \<open>Properties\<close>

text \<open>
  C12. The index of the bindings finds what the configuration means: for any configuration and any event the
  route is the one of the first binding, in the order of the configuration, among the bindings that cover the channel and the
  account, at the most specific tier that has a match (peer, parent peer, kind of peer, guild with roles, guild,
  team, account, channel), and the default agent where no binding matches.
\<close>

theorem route_is_most_specific:
  "fst (resolveAgentRoute heap verbose initial_routes cfg input) = specRoute (configOf heap cfg) (normalizeInput input)"
proof -
  let ?q = "normalizeInput input"
  let ?use = "\<not> verbose \<and> sessionIdentityLinks (heapSession heap (sessionRef cfg)) = None"
  obtain m st1 where s1: "(if ?use then resolveRouteCacheForConfig initial_routes cfg else ([], initial_routes)) = (m, st1)"
    by fastforce
  then have m: "m = []"
    by (auto simp: resolveRouteCacheForConfig_def initial_routes_def split: if_splits)
  have st1: "caches_ok heap st1" using s1 initial_ok route_cache_for by (metis prod.inject)
  obtain ix st2 where s2: "getEvaluatedBindingIndexForChannelAccount heap st1 cfg (queryChannel ?q) (queryAccount ?q) = (ix, st2)"
    by fastforce
  obtain agentId reason override where s3:
    "tierAnswer (heapAgents heap (agentsRef cfg)) (firstTier ?q (routeTiers ix ?q)) = (agentId, reason, override)"
    by (metis prod_cases3)
  obtain lookup st3 where s4: "resolveAgentLookupCache heap st2 cfg = (lookup, st3)" by fastforce
  show ?thesis
    using evaluated_route [OF st1 refl s2 s3 s4] s1 s2 s3 s4 m by (simp add: resolveAgentRoute_def Let_def)
qed

text \<open>
  C13. The caches of routes, bindings and agents are invisible: after any history of events, configuration
  objects and replaced bindings, agents and session settings, an event gets the route that its configuration means
  now. The ids of the events contain none of the separators of the cache key, and a peer has an id.
\<close>

theorem cached_routes_are_fresh:
  assumes "list_all (\<lambda>(verbose, cfg, input). plainEvent input) history" "plainEvent input"
    and "st = foldl (routeStep heap) initial_routes history"
  shows "fst (resolveAgentRoute heap verbose st cfg input) = specRoute (configOf heap cfg) (normalizeInput input)"
  using resolve_step [OF history_ok [OF initial_ok assms(1)] assms(2)] assms(3) by simp

text \<open>A configuration with one binding, and events of its channel.\<close>

definition sample_binding :: agent_binding where
  "sample_binding =
     \<lparr>bindingType = None, bindingAgentId = ''Ops'',
      bindingMatch = Some \<lparr>matchChannel = Some ''discord'', matchAccountId = None,
        matchPeer = Some \<lparr>rawPeerKind = Some ''group'', rawPeerId = IdText ''7''\<rparr>, matchGuildId = IdOther,
        matchTeamId = IdOther, matchRoles = None\<rparr>,
      bindingDmScope = None\<rparr>"

definition sample_heap :: route_heap where
  "sample_heap =
     \<lparr>heapBindings = \<lambda>r. Some [sample_binding], heapAgents = \<lambda>r. [],
      heapSession = \<lambda>r. \<lparr>sessionDmScope = None, sessionMainKey = None, sessionIdentityLinks = None\<rparr>\<rparr>"

definition sample_object :: config_object where
  "sample_object = \<lparr>objectId = 0, bindingsRef = 0, agentsRef = 0, sessionRef = 0\<rparr>"

definition sample_event :: "raw_peer option \<Rightarrow> route_input" where
  "sample_event peer =
     \<lparr>inputChannel = Some ''Discord'', inputAccountId = None, inputPeer = peer, inputParentPeer = None,
      inputGuildId = IdOther, inputTeamId = IdOther, inputRoleIds = None\<rparr>"

definition sample_group :: "string \<Rightarrow> raw_peer option" where
  "sample_group i = Some \<lparr>inputPeerKind = GroupChat, inputPeerId = IdText i\<rparr>"

lemma cached_routes_are_fresh_witness:
  "routeAgentId (fst (resolveAgentRoute sample_heap False
     (foldl (routeStep sample_heap) initial_routes [(False, sample_object, sample_event None)])
     sample_object (sample_event (sample_group ''7'')))) = ''ops''"
proof -
  have "plainEvent (sample_event None)" "plainEvent (sample_event (sample_group ''7''))" by code_simp+
  then have "fst (resolveAgentRoute sample_heap False
      (foldl (routeStep sample_heap) initial_routes [(False, sample_object, sample_event None)])
      sample_object (sample_event (sample_group ''7''))) =
    specRoute (configOf sample_heap sample_object) (normalizeInput (sample_event (sample_group ''7'')))"
    using cached_routes_are_fresh [OF _ _ refl, of "[(False, sample_object, sample_event None)]"] by simp
  moreover have "routeAgentId (specRoute (configOf sample_heap sample_object)
      (normalizeInput (sample_event (sample_group ''7'')))) = ''ops''"
    by code_simp
  ultimately show ?thesis by simp
qed

text \<open>
  The key writes a peer without an id like no peer, although such a peer of a group has a session of its own: after a
  group event without an id, the events without a peer go to that session.
\<close>

lemma empty_peer_poisons_cache:
  "fst (resolveAgentRoute sample_heap False
     (foldl (routeStep sample_heap) initial_routes [(False, sample_object, sample_event (sample_group []))])
     sample_object (sample_event None)) \<noteq>
   specRoute (configOf sample_heap sample_object) (normalizeInput (sample_event None))"
proof -
  have "routeSessionKey (fst (resolveAgentRoute sample_heap False
      (foldl (routeStep sample_heap) initial_routes [(False, sample_object, sample_event (sample_group []))])
      sample_object (sample_event None))) = ''agent:main:discord:group:unknown''"
    by code_simp
  moreover have "routeSessionKey (specRoute (configOf sample_heap sample_object) (normalizeInput (sample_event None))) =
      ''agent:main:main''"
    by code_simp
  ultimately show ?thesis by force
qed

end
