(* ===== verification/SessionIdentity.thy ===== *)
theory SessionIdentity
  imports StringLists
begin

text \<open>
  \<^verbatim>\<open>src/sessions/session-lifecycle-identity.ts\<close>: the keys under which a session is locked and its work is
  counted. A key is the JSON text of a pair of a scope and an identity.
\<close>

section \<open>JSON strings\<close>

text \<open>\<^verbatim>\<open>JSON.stringify\<close> of a string whose characters are below code point 256.\<close>

definition hexDigit :: "nat \<Rightarrow> char" where
  "hexDigit n = ''0123456789abcdef'' ! n"

definition jsonChar :: "char \<Rightarrow> string" where
  "jsonChar c =
     (if c = CHR 0x22 then [CHR 0x5C, CHR 0x22]
      else if c = CHR 0x5C then [CHR 0x5C, CHR 0x5C]
      else if c = CHR 0x08 then [CHR 0x5C, CHR ''b'']
      else if c = CHR 0x0C then [CHR 0x5C, CHR ''f'']
      else if c = CHR 0x0A then [CHR 0x5C, CHR ''n'']
      else if c = CHR 0x0D then [CHR 0x5C, CHR ''r'']
      else if c = CHR 0x09 then [CHR 0x5C, CHR ''t'']
      else if of_char c < (32 :: nat)
        then [CHR 0x5C, CHR ''u'', CHR ''0'', CHR ''0'', hexDigit (of_char c div 16), hexDigit (of_char c mod 16)]
      else [c])"

definition jsonString :: "string \<Rightarrow> string" where
  "jsonString s = [CHR 0x22] @ concat (map jsonChar s) @ [CHR 0x22]"

text \<open>
  The characters of a JSON string and what follows its closing quote; \<open>None\<close> where \<^verbatim>\<open>JSON.parse\<close> throws, or
  the string has a character at code point 256 or above.
\<close>

fun hexValue :: "char \<Rightarrow> nat option" where
  "hexValue c =
     (let n = of_char c in
      if 48 \<le> n \<and> n \<le> 57 then Some (n - 48)
      else if 65 \<le> n \<and> n \<le> 70 then Some (n - 55)
      else if 97 \<le> n \<and> n \<le> 102 then Some (n - 87)
      else None)"

definition hexChar :: "char \<Rightarrow> char \<Rightarrow> char \<Rightarrow> char \<Rightarrow> char option" where
  "hexChar a b c d =
     (case (hexValue a, hexValue b, hexValue c, hexValue d) of
        (Some 0, Some 0, Some x, Some y) \<Rightarrow> Some (char_of (16 * x + y))
      | _ \<Rightarrow> None)"

definition simpleEscape :: "char \<Rightarrow> char option" where
  "simpleEscape c =
     (if c = CHR 0x22 \<or> c = CHR 0x5C \<or> c = CHR ''/'' then Some c
      else if c = CHR ''b'' then Some (CHR 0x08)
      else if c = CHR ''f'' then Some (CHR 0x0C)
      else if c = CHR ''n'' then Some (CHR 0x0A)
      else if c = CHR ''r'' then Some (CHR 0x0D)
      else if c = CHR ''t'' then Some (CHR 0x09)
      else None)"

fun parseChars :: "string \<Rightarrow> (string \<times> string) option" where
  "parseChars [] = None"
| "parseChars (c # cs) =
     (if c = CHR 0x22 then Some ([], cs)
      else if of_char c < (32 :: nat) then None
      else if c \<noteq> CHR 0x5C then map_option (\<lambda>(s, r). (c # s, r)) (parseChars cs)
      else
        (case cs of
           [] \<Rightarrow> None
         | e # es \<Rightarrow>
             (if e = CHR ''u'' then
                (case es of
                   h1 # h2 # h3 # h4 # rest \<Rightarrow>
                     (case hexChar h1 h2 h3 h4 of
                        None \<Rightarrow> None
                      | Some x \<Rightarrow> map_option (\<lambda>(s, r). (x # s, r)) (parseChars rest))
                 | _ \<Rightarrow> None)
              else
                (case simpleEscape e of
                   None \<Rightarrow> None
                 | Some x \<Rightarrow> map_option (\<lambda>(s, r). (x # s, r)) (parseChars es)))))"

definition skipJsonSpace :: "string \<Rightarrow> string" where
  "skipJsonSpace = dropWhile (\<lambda>c. c \<in> {CHR 0x20, CHR 0x09, CHR 0x0A, CHR 0x0D})"

definition expectChar :: "char \<Rightarrow> string \<Rightarrow> string option" where
  "expectChar c s = (case skipJsonSpace s of [] \<Rightarrow> None | d # ds \<Rightarrow> if d = c then Some ds else None)"

definition parseJsonString :: "string \<Rightarrow> (string \<times> string) option" where
  "parseJsonString s = Option.bind (expectChar (CHR 0x22) s) parseChars"

section \<open>Keys\<close>

definition sessionIdentityKey :: "string \<Rightarrow> string \<Rightarrow> string" where
  "sessionIdentityKey scope identity = ''['' @ jsonString scope @ '','' @ jsonString identity @ '']''"

text \<open>\<open>None\<close> where the code throws for want of a scope.\<close>

definition normalizeSessionIdentities :: "string \<Rightarrow> string option list \<Rightarrow> string list option" where
  "normalizeSessionIdentities scope identities =
     (let normalizedScope = js_trim scope in
      if normalizedScope = [] then None
      else Some (toSorted compareStrings
             (map (sessionIdentityKey normalizedScope)
               (uniqueStrings (filter (\<lambda>s. s \<noteq> []) (List.map_filter (map_option js_trim) identities))))))"

definition decodeSessionIdentity :: "string \<Rightarrow> (string \<times> string) option" where
  "decodeSessionIdentity key =
     Option.bind (expectChar (CHR ''['') key) (\<lambda>r1.
     Option.bind (parseJsonString r1) (\<lambda>(scope, r2).
     Option.bind (expectChar (CHR '','') r2) (\<lambda>r3.
     Option.bind (parseJsonString r3) (\<lambda>(identity, r4).
     Option.bind (expectChar (CHR '']'') r4) (\<lambda>r5.
     if skipJsonSpace r5 = [] then Some (scope, identity) else None)))))"

section \<open>Lemmas\<close>

lemma parse_plain:
  "c \<noteq> CHR 0x22 \<Longrightarrow> c \<noteq> CHR 0x5C \<Longrightarrow> \<not> of_char c < (32 :: nat) \<Longrightarrow>
     parseChars (c # cs) = map_option (\<lambda>(s, r). (c # s, r)) (parseChars cs)"
  by simp

lemma parse_escape:
  "e \<noteq> CHR ''u'' \<Longrightarrow> simpleEscape e = Some x \<Longrightarrow>
     parseChars (CHR 0x5C # e # cs) = map_option (\<lambda>(s, r). (x # s, r)) (parseChars cs)"
  by simp

lemma parse_hex:
  "hexChar a b c d = Some x \<Longrightarrow>
     parseChars (CHR 0x5C # CHR ''u'' # a # b # c # d # cs) = map_option (\<lambda>(s, r). (x # s, r)) (parseChars cs)"
  by simp

lemma hex_digit: "n < 16 \<Longrightarrow> hexValue (hexDigit n) = Some n"
proof -
  have "\<forall>n \<in> set [0..<16]. hexValue (hexDigit n) = Some n" by code_simp
  then show "n < 16 \<Longrightarrow> ?thesis" by simp
qed

lemma parse_char: "parseChars (jsonChar c @ rest) = map_option (\<lambda>(s, r). (c # s, r)) (parseChars rest)"
proof (cases "c \<in> {CHR 0x22, CHR 0x5C, CHR 0x08, CHR 0x0C, CHR 0x0A, CHR 0x0D, CHR 0x09}")
  case True
  have "\<exists>e. jsonChar c = [CHR 0x5C, e] \<and> e \<noteq> CHR ''u'' \<and> simpleEscape e = Some c"
    using True by (elim insertE) (simp_all add: jsonChar_def simpleEscape_def)
  then show ?thesis using parse_escape by fastforce
next
  case plain: False
  show ?thesis
  proof (cases "of_char c < (32 :: nat)")
    case False
    with plain have "jsonChar c = [c]" unfolding jsonChar_def by simp
    then show ?thesis using plain False by (simp only: append.simps) (rule parse_plain, simp_all)
  next
    case True
    with plain have j: "jsonChar c = [CHR 0x5C, CHR ''u'', CHR ''0'', CHR ''0'',
        hexDigit (of_char c div 16), hexDigit (of_char c mod 16)]"
      unfolding jsonChar_def by simp
    have "hexChar (CHR ''0'') (CHR ''0'') (hexDigit (of_char c div 16)) (hexDigit (of_char c mod 16))
        = Some (char_of (16 * (of_char c div 16 :: nat) + of_char c mod 16))"
      using True by (simp add: hexChar_def hex_digit del: hexValue.simps) (simp add: Let_def)
    also have "char_of (16 * (of_char c div 16 :: nat) + of_char c mod 16) = c" by simp
    finally show ?thesis unfolding j append.simps by (rule parse_hex)
  qed
qed

lemma parse_string: "parseChars (concat (map jsonChar s) @ CHR 0x22 # rest) = Some (s, rest)"
  by (induction s) (simp_all add: parse_char)

lemma expect_head:
  "c \<notin> {CHR 0x20, CHR 0x09, CHR 0x0A, CHR 0x0D} \<Longrightarrow> expectChar c (c # s) = Some s"
  by (simp add: expectChar_def skipJsonSpace_def)

lemma parse_json_string: "parseJsonString (jsonString s @ rest) = Some (s, rest)"
proof -
  have "jsonString s @ rest = CHR 0x22 # concat (map jsonChar s) @ CHR 0x22 # rest"
    by (simp only: jsonString_def append_Cons append_Nil append_assoc)
  moreover have "expectChar (CHR 0x22) (CHR 0x22 # concat (map jsonChar s) @ CHR 0x22 # rest)
      = Some (concat (map jsonChar s) @ CHR 0x22 # rest)"
    by (rule expect_head) simp
  ultimately show ?thesis by (simp only: parseJsonString_def Option.bind.bind_lunit parse_string)
qed

lemma decode_key: "decodeSessionIdentity (sessionIdentityKey scope identity) = Some (scope, identity)"
proof -
  have "sessionIdentityKey scope identity
      = CHR ''['' # (jsonString scope @ (CHR '','' # (jsonString identity @ [CHR '']''])))"
    by (simp only: sessionIdentityKey_def append_Cons append_Nil append_assoc)
  moreover have "expectChar (CHR ''['') (CHR ''['' # r) = Some r" "expectChar (CHR '','') (CHR '','' # r) = Some r"
    "expectChar (CHR '']'') (CHR '']'' # r) = Some r" for r
    by (rule expect_head, simp)+
  ultimately show ?thesis
    by (simp only: decodeSessionIdentity_def Option.bind.bind_lunit parse_json_string case_prod_conv)
       (simp add: skipJsonSpace_def)
qed

lemma key_inj: "sessionIdentityKey a b = sessionIdentityKey c d \<longleftrightarrow> a = c \<and> b = d"
  by (metis decode_key option.inject prod.inject)

text \<open>The identities that count: present, trimmed and not empty.\<close>

definition namedIdentities :: "string option list \<Rightarrow> string set" where
  "namedIdentities identities = {i. i \<noteq> [] \<and> (\<exists>x. Some x \<in> set identities \<and> i = js_trim x)}"

lemma normal_keys:
  assumes "normalizeSessionIdentities scope identities = Some keys"
  shows "sorted_wrt (<) keys
    \<and> decodeSessionIdentity ` set keys = {Some (js_trim scope, i) | i. i \<in> namedIdentities identities}"
proof -
  let ?ids = "uniqueStrings (filter (\<lambda>s. s \<noteq> []) (List.map_filter (map_option js_trim) identities))"
  have keys: "keys = sort (map (sessionIdentityKey (js_trim scope)) ?ids)"
    using assms by (auto simp: normalizeSessionIdentities_def Let_def strings_sort split: if_splits)
  have "distinct ?ids" and ids: "set ?ids = namedIdentities identities"
    by (simp only: uniqueStrings_def distinct_uniqueValues)
      (force simp: List.map_filter_def namedIdentities_def image_iff)
  then have "distinct keys"
    by (simp add: keys distinct_map key_inj inj_on_def)
  moreover have "sorted keys" by (simp add: keys)
  ultimately have "sorted_wrt (<) keys" by (simp add: strict_sorted_iff)
  moreover have "decodeSessionIdentity ` set keys = {Some (js_trim scope, i) | i. i \<in> set ?ids}"
    by (auto simp: keys decode_key image_iff)
  ultimately show ?thesis by (simp only: ids)
qed

text \<open>
  The keys of a session form one canonical list: whatever the order and the repetitions of the
  identities, it is strictly increasing (so that every caller takes the locks of the keys in the same order),
  and its entries decode to the trimmed scope with exactly the trimmed identities that were named.
\<close>

theorem session_keys_decode:
  assumes "normalizeSessionIdentities scope identities = Some keys"
  shows "sorted_wrt (<) keys
    \<and> decodeSessionIdentity ` set keys = {Some (js_trim scope, i) | i. i \<in> namedIdentities identities}"
  by (rule normal_keys [OF assms])

lemma session_keys_decode_witness:
  "sorted_wrt (<) [sessionIdentityKey ''store'' ''a'', sessionIdentityKey ''store'' ''b'']"
proof -
  have "normalizeSessionIdentities '' store'' [Some ''b'', None, Some '' a '', Some ''b'']
      = Some [sessionIdentityKey ''store'' ''a'', sessionIdentityKey ''store'' ''b'']"
    by code_simp
  from session_keys_decode [OF this] show ?thesis by simp
qed

end
