(* ===== verification/SessionLifecycle.thy ===== *)
theory SessionLifecycle
  imports SessionIdentity
begin

text \<open>
  \<^verbatim>\<open>src/sessions/session-lifecycle-admission.ts\<close> and \<^verbatim>\<open>session-work-admission-handoff.ts\<close>: work on a session is
  admitted while no lifecycle mutation (a reset, a compaction) of the session runs, and a mutation waits its turn. Each
  key of \<open>SessionIdentity\<close> has two locks, taken one key after the other; a lock is the queue of writes of
  \<open>StoreWriterQueue\<close> under that key and is free when no task holds it. Asynchronous calls are tasks, cut at their
  awaits; a call nested in a task that holds the same locks is left out.
\<close>

section \<open>State\<close>

datatype mutation_kind = Compaction

record work_admission =
  handoffIds :: "string list"
  workKeys :: "string list"
  interruptCallback :: "nat option"
  interrupted :: bool
  workReleased :: bool

datatype lc_kind = LifecycleRun | AdmissionRun "nat option" | MutationRun "mutation_kind option"

text \<open>
  Where a task waits. A number counts the keys whose lock the task has so far; \<open>Blocked\<close> has the keys whose
  mutations have not ended since the task began to wait, and with none left the task is at the head of its loop;
  \<open>Barrier\<close> has the admission and whether the writer barrier has begun.
\<close>

datatype lc_phase =
    Blocked "string list"
  | Locking nat
  | Running
  | Barrier nat bool
  | MutationLocking nat
  | Activating nat
  | MutationPreparing
  | BodyLocking nat
  | Body
  | Ending nat

record lc_task =
  taskKind :: lc_kind
  taskKeys :: "string list"
  taskPhase :: lc_phase
  taskAborted :: bool

datatype lc_outcome = Returned | Leased nat | SignalAborted | GatewayIsDraining | CallbackFailed

record lifecycle_state =
  activeAdmissions :: "(string, nat list) jsmap"
  activeMutations :: "(string, nat) jsmap"
  activeMutationRuns :: "nat list"
  activeMutationKinds :: "(string, (mutation_kind, nat) jsmap) jsmap"
  idleWaiters :: "(string, nat list) jsmap"
  workAdmissions :: "nat \<rightharpoonup> work_admission"
  nextWork :: nat
  handoffs :: "(string, nat) jsmap"
  interruptCalls :: "nat list"
  lcTasks :: "(nat, lc_task) jsmap"
  nextTask :: nat
  outcomes :: "(nat \<times> lc_outcome) list"

definition initial_lifecycle :: lifecycle_state where
  "initial_lifecycle =
     \<lparr>activeAdmissions = [], activeMutations = [], activeMutationRuns = [], activeMutationKinds = [], idleWaiters = [],
      workAdmissions = Map.empty, nextWork = 0, handoffs = [], interruptCalls = [], lcTasks = [], nextTask = 0,
      outcomes = []\<rparr>"

section \<open>The index of mutations\<close>

definition mutationCount :: "lifecycle_state \<Rightarrow> string \<Rightarrow> nat" where
  "mutationCount s i = (case jm_get (activeMutations s) i of Some n \<Rightarrow> n | None \<Rightarrow> 0)"

definition hasActiveSessionLifecycleMutation :: "lifecycle_state \<Rightarrow> string list \<Rightarrow> bool" where
  "hasActiveSessionLifecycleMutation s identities \<longleftrightarrow> list_ex (\<lambda>i. mutationCount s i > 0) identities"

definition kindCount :: "lifecycle_state \<Rightarrow> string \<Rightarrow> mutation_kind \<Rightarrow> nat" where
  "kindCount s i kind =
     (case Option.bind (jm_get (activeMutationKinds s) i) (\<lambda>kinds. jm_get kinds kind) of Some n \<Rightarrow> n | None \<Rightarrow> 0)"

fun onlyKindFrom :: "lifecycle_state \<Rightarrow> mutation_kind \<Rightarrow> bool \<Rightarrow> string list \<Rightarrow> bool" where
  "onlyKindFrom s kind foundActiveMutation [] = foundActiveMutation"
| "onlyKindFrom s kind foundActiveMutation (i # rest) =
     (if mutationCount s i = 0 then onlyKindFrom s kind foundActiveMutation rest
      else if kindCount s i kind \<noteq> mutationCount s i then False
      else onlyKindFrom s kind True rest)"

definition hasOnlyActiveSessionLifecycleMutationKind ::
    "lifecycle_state \<Rightarrow> string list \<Rightarrow> mutation_kind \<Rightarrow> bool" where
  "hasOnlyActiveSessionLifecycleMutationKind s identities kind = onlyKindFrom s kind False identities"

definition activateIdentity :: "mutation_kind option \<Rightarrow> lifecycle_state \<Rightarrow> string \<Rightarrow> lifecycle_state" where
  "activateIdentity kind s i =
     (let s1 = s\<lparr>activeMutations := jm_set i (mutationCount s i + 1) (activeMutations s)\<rparr> in
      case kind of
        None \<Rightarrow> s1
      | Some k \<Rightarrow>
          s1\<lparr>activeMutationKinds :=
               jm_set i (jm_set k (kindCount s i k + 1)
                   (case jm_get (activeMutationKinds s) i of Some m \<Rightarrow> m | None \<Rightarrow> []))
                 (activeMutationKinds s)\<rparr>)"

definition activateMutation :: "lifecycle_state \<Rightarrow> nat \<Rightarrow> string list \<Rightarrow> mutation_kind option \<Rightarrow> lifecycle_state" where
  "activateMutation s run identities kind =
     foldl (activateIdentity kind) (s\<lparr>activeMutationRuns := addUnique run (activeMutationRuns s)\<rparr>) identities"

text \<open>Resolving the waiters of a key: each of them has one key less to wait for.\<close>

definition resolveWaiter :: "string \<Rightarrow> (nat, lc_task) jsmap \<Rightarrow> nat \<Rightarrow> (nat, lc_task) jsmap" where
  "resolveWaiter i tasks t =
     (case jm_get tasks t of
        None \<Rightarrow> tasks
      | Some k \<Rightarrow>
          (case taskPhase k of
             Blocked out \<Rightarrow> jm_set t (k\<lparr>taskPhase := Blocked (filter (\<lambda>j. j \<noteq> i) out)\<rparr>) tasks
           | _ \<Rightarrow> tasks))"

definition dropKind :: "mutation_kind \<Rightarrow> lifecycle_state \<Rightarrow> string \<Rightarrow> lifecycle_state" where
  "dropKind k s i =
     (case jm_get (activeMutationKinds s) i of
        None \<Rightarrow> s
      | Some kinds \<Rightarrow>
          (let remaining = (case jm_get kinds k of Some n \<Rightarrow> n | None \<Rightarrow> 1) - 1 in
           if remaining > 0
           then s\<lparr>activeMutationKinds := jm_set i (jm_set k remaining kinds) (activeMutationKinds s)\<rparr>
           else
             (let kinds1 = jm_del k kinds in
              if kinds1 = [] then s\<lparr>activeMutationKinds := jm_del i (activeMutationKinds s)\<rparr>
              else s\<lparr>activeMutationKinds := jm_set i kinds1 (activeMutationKinds s)\<rparr>)))"

definition deactivateIdentity :: "mutation_kind option \<Rightarrow> lifecycle_state \<Rightarrow> string \<Rightarrow> lifecycle_state" where
  "deactivateIdentity kind s0 i =
     (let s = (case kind of None \<Rightarrow> s0 | Some k \<Rightarrow> dropKind k s0 i);
          remaining = (case jm_get (activeMutations s) i of Some n \<Rightarrow> n | None \<Rightarrow> 1) - 1
      in if remaining > 0 then s\<lparr>activeMutations := jm_set i remaining (activeMutations s)\<rparr>
         else
           (let waiters = (case jm_get (idleWaiters s) i of Some ws \<Rightarrow> ws | None \<Rightarrow> []) in
            s\<lparr>activeMutations := jm_del i (activeMutations s),
              idleWaiters := jm_del i (idleWaiters s),
              lcTasks := foldl (resolveWaiter i) (lcTasks s) waiters\<rparr>))"

definition deactivateMutation :: "lifecycle_state \<Rightarrow> nat \<Rightarrow> string list \<Rightarrow> mutation_kind option \<Rightarrow> lifecycle_state" where
  "deactivateMutation s run identities kind =
     (let s1 = foldl (deactivateIdentity kind) s identities
      in s1\<lparr>activeMutationRuns := filter (\<lambda>r. r \<noteq> run) (activeMutationRuns s1)\<rparr>)"

section \<open>Admissions and their hand-off\<close>

definition admissionsAt :: "lifecycle_state \<Rightarrow> string \<Rightarrow> nat list" where
  "admissionsAt s i = (case jm_get (activeAdmissions s) i of Some as \<Rightarrow> as | None \<Rightarrow> [])"

definition registerAdmission :: "lifecycle_state \<Rightarrow> string list \<Rightarrow> nat option \<Rightarrow> nat \<times> lifecycle_state" where
  "registerAdmission s identities onInterrupt =
     (let a = nextWork s in
      (a, foldl (\<lambda>s i. s\<lparr>activeAdmissions := jm_set i (addUnique a (admissionsAt s i)) (activeAdmissions s)\<rparr>)
            (s\<lparr>workAdmissions := (workAdmissions s)(a \<mapsto>
                 \<lparr>handoffIds = [], workKeys = identities, interruptCallback = onInterrupt, interrupted = False,
                  workReleased = False\<rparr>),
               nextWork := a + 1\<rparr>) identities))"

definition updateWork :: "lifecycle_state \<Rightarrow> nat \<Rightarrow> (work_admission \<Rightarrow> work_admission) \<Rightarrow> lifecycle_state" where
  "updateWork s a f =
     (case workAdmissions s a of
        None \<Rightarrow> s
      | Some w \<Rightarrow> s\<lparr>workAdmissions := (workAdmissions s)(a \<mapsto> f w)\<rparr>)"

definition handoffIdsOf :: "lifecycle_state \<Rightarrow> nat \<Rightarrow> string list" where
  "handoffIdsOf s a = (case workAdmissions s a of None \<Rightarrow> [] | Some w \<Rightarrow> handoffIds w)"

definition clearSessionWorkAdmissionHandoffs :: "lifecycle_state \<Rightarrow> nat \<Rightarrow> lifecycle_state" where
  "clearSessionWorkAdmissionHandoffs s a =
     updateWork (s\<lparr>handoffs := foldl (\<lambda>m h. jm_del h m) (handoffs s) (handoffIdsOf s a)\<rparr>) a
       (\<lambda>w. w\<lparr>handoffIds := []\<rparr>)"

definition unindexAdmission :: "nat \<Rightarrow> lifecycle_state \<Rightarrow> string \<Rightarrow> lifecycle_state" where
  "unindexAdmission a s i =
     (let active = filter (\<lambda>b. b \<noteq> a) (admissionsAt s i)
      in if active = [] then s\<lparr>activeAdmissions := jm_del i (activeAdmissions s)\<rparr>
         else s\<lparr>activeAdmissions := jm_set i active (activeAdmissions s)\<rparr>)"

definition releaseAdmission :: "lifecycle_state \<Rightarrow> nat \<Rightarrow> lifecycle_state" where
  "releaseAdmission s a =
     (case workAdmissions s a of
        None \<Rightarrow> s
      | Some w \<Rightarrow>
          if workReleased w then s
          else clearSessionWorkAdmissionHandoffs
                 (foldl (unindexAdmission a) (updateWork s a (\<lambda>w. w\<lparr>workReleased := True\<rparr>)) (workKeys w)) a)"

text \<open>The lease's \<^verbatim>\<open>createHandoff\<close>, which throws after the release; the drawn UUID is an argument.\<close>

definition createSessionWorkAdmissionHandoff :: "lifecycle_state \<Rightarrow> nat \<Rightarrow> string \<Rightarrow> lifecycle_state" where
  "createSessionWorkAdmissionHandoff s a uuid =
     updateWork (s\<lparr>handoffs := jm_set uuid a (handoffs s)\<rparr>) a (\<lambda>w. w\<lparr>handoffIds := addUnique uuid (handoffIds w)\<rparr>)"

definition createHandoff :: "lifecycle_state \<Rightarrow> nat \<Rightarrow> string \<Rightarrow> string option \<times> lifecycle_state" where
  "createHandoff s a uuid =
     (case workAdmissions s a of
        None \<Rightarrow> (None, s)
      | Some w \<Rightarrow>
          if workReleased w then (None, s) else (Some uuid, createSessionWorkAdmissionHandoff s a uuid))"

datatype handoff_result = NoHandoff | HandoffScopeMissing | Adopted nat

definition callInterrupt :: "nat option \<Rightarrow> lifecycle_state \<Rightarrow> lifecycle_state" where
  "callInterrupt callback s =
     (case callback of None \<Rightarrow> s | Some c \<Rightarrow> s\<lparr>interruptCalls := interruptCalls s @ [c]\<rparr>)"

definition takeHandoff :: "lifecycle_state \<Rightarrow> string \<Rightarrow> nat \<Rightarrow> lifecycle_state" where
  "takeHandoff s handoffId a =
     updateWork (s\<lparr>handoffs := jm_del handoffId (handoffs s)\<rparr>) a
       (\<lambda>w. w\<lparr>handoffIds := filter (\<lambda>h. h \<noteq> handoffId) (handoffIds w)\<rparr>)"

definition consumeSessionWorkAdmissionHandoff ::
    "lifecycle_state \<Rightarrow> string \<Rightarrow> string \<Rightarrow> string option list \<Rightarrow> nat option \<Rightarrow> handoff_result \<times> lifecycle_state" where
  "consumeSessionWorkAdmissionHandoff s rawId scope rawIdentities onInterrupt =
     (let handoffId = js_trim rawId in
      if handoffId = [] then (NoHandoff, s)
      else
        (case jm_get (handoffs s) handoffId of
           None \<Rightarrow> (NoHandoff, s)
         | Some a \<Rightarrow>
             (case normalizeSessionIdentities scope rawIdentities of
                None \<Rightarrow> (HandoffScopeMissing, s)
              | Some identities \<Rightarrow>
                  (case workAdmissions s a of
                     None \<Rightarrow> (NoHandoff, s)
                   | Some w \<Rightarrow>
                       if length identities = 0 \<or> list_ex (\<lambda>i. i \<notin> set (workKeys w)) identities then (NoHandoff, s)
                       else
                         (let s1 = updateWork (takeHandoff s handoffId a) a (\<lambda>w. w\<lparr>interruptCallback := onInterrupt\<rparr>)
                          in (Adopted a, if interrupted w then callInterrupt onInterrupt s1 else s1))))))"

definition cancelSessionWorkAdmissionHandoff :: "lifecycle_state \<Rightarrow> string \<Rightarrow> bool \<times> lifecycle_state" where
  "cancelSessionWorkAdmissionHandoff s rawId =
     (let handoffId = js_trim rawId in
      case jm_get (handoffs s) handoffId of
        None \<Rightarrow> (False, s)
      | Some a \<Rightarrow> (True, releaseAdmission (takeHandoff s handoffId a) a))"

text \<open>
  The admissions an interruption asks to stop, \<open>current\<close> being those of its own stack, and the calls it makes; it
  then waits until they are released.
\<close>

definition competingAdmissions :: "lifecycle_state \<Rightarrow> nat list \<Rightarrow> string list \<Rightarrow> nat list" where
  "competingAdmissions s current identities =
     fold (\<lambda>i acc. fold (\<lambda>a acc. if a \<in> set current then acc else addUnique a acc) (admissionsAt s i) acc) identities []"

definition interruptAdmission :: "lifecycle_state \<Rightarrow> nat \<Rightarrow> lifecycle_state" where
  "interruptAdmission s a =
     (case workAdmissions s a of
        None \<Rightarrow> s
      | Some w \<Rightarrow> callInterrupt (interruptCallback w) (updateWork s a (\<lambda>w. w\<lparr>interrupted := True\<rparr>)))"

definition interruptSessionWorkAdmissions ::
    "lifecycle_state \<Rightarrow> nat list \<Rightarrow> string \<Rightarrow> string option list \<Rightarrow> nat list option \<times> lifecycle_state" where
  "interruptSessionWorkAdmissions s current scope rawIdentities =
     (case normalizeSessionIdentities scope rawIdentities of
        None \<Rightarrow> (None, s)
      | Some identities \<Rightarrow>
          (let targets = competingAdmissions s current identities
           in (Some targets, foldl interruptAdmission s targets)))"

definition allReleased :: "lifecycle_state \<Rightarrow> nat list \<Rightarrow> bool" where
  "allReleased s targets =
     list_all (\<lambda>a. case workAdmissions s a of Some w \<Rightarrow> workReleased w | None \<Rightarrow> True) targets"

section \<open>Queries\<close>

definition isSessionLifecycleMutationActive :: "lifecycle_state \<Rightarrow> string \<Rightarrow> string option list \<Rightarrow> bool option" where
  "isSessionLifecycleMutationActive s scope identities =
     map_option (hasActiveSessionLifecycleMutation s) (normalizeSessionIdentities scope identities)"

definition hasOnlySessionLifecycleMutationKindActive ::
    "lifecycle_state \<Rightarrow> string \<Rightarrow> string option list \<Rightarrow> mutation_kind \<Rightarrow> bool option" where
  "hasOnlySessionLifecycleMutationKindActive s scope identities kind =
     map_option (\<lambda>keys. hasOnlyActiveSessionLifecycleMutationKind s keys kind) (normalizeSessionIdentities scope identities)"

definition isSessionWorkAdmissionActive :: "lifecycle_state \<Rightarrow> string \<Rightarrow> string option list \<Rightarrow> bool option" where
  "isSessionWorkAdmissionActive s scope identities =
     map_option (list_ex (\<lambda>i. length (admissionsAt s i) > 0)) (normalizeSessionIdentities scope identities)"

definition collectActiveSessionWorkAdmissionIdentities :: "lifecycle_state \<Rightarrow> string \<Rightarrow> string list option" where
  "collectActiveSessionWorkAdmissionIdentities s scope =
     (let normalizedScope = js_trim scope in
      if normalizedScope = [] then None
      else Some (fold (\<lambda>(key, admissions) acc.
             if length admissions = 0 then acc
             else (case decodeSessionIdentity key of
                     Some (sc, identity) \<Rightarrow> if sc = normalizedScope then addUnique identity acc else acc
                   | None \<Rightarrow> acc)) (activeAdmissions s) []))"

definition getActiveSessionWorkAdmissionCount :: "lifecycle_state \<Rightarrow> nat" where
  "getActiveSessionWorkAdmissionCount s =
     length (fold (\<lambda>admissions acc. fold addUnique admissions acc) (jm_vals (activeAdmissions s)) [])"

definition getActiveSessionLifecycleMutationCount :: "lifecycle_state \<Rightarrow> nat" where
  "getActiveSessionLifecycleMutationCount s =
     (if length (activeMutationRuns s) > 0 then length (activeMutationRuns s)
      else if length (activeMutations s) > 0 then 1 else 0)"

section \<open>Locks\<close>

definition lifeHeld :: "lc_task \<Rightarrow> string list" where
  "lifeHeld k =
     (case taskPhase k of
        Locking n \<Rightarrow> take n (taskKeys k)
      | Running \<Rightarrow> taskKeys k
      | Barrier a b \<Rightarrow> taskKeys k
      | Activating n \<Rightarrow> take n (taskKeys k)
      | BodyLocking n \<Rightarrow> take n (taskKeys k)
      | Body \<Rightarrow> taskKeys k
      | Ending n \<Rightarrow> take n (taskKeys k)
      | _ \<Rightarrow> [])"

definition mutationHeld :: "lc_task \<Rightarrow> string list" where
  "mutationHeld k =
     (case taskPhase k of
        MutationLocking n \<Rightarrow> take n (taskKeys k)
      | Activating n \<Rightarrow> taskKeys k
      | MutationPreparing \<Rightarrow> taskKeys k
      | BodyLocking n \<Rightarrow> taskKeys k
      | Body \<Rightarrow> taskKeys k
      | Ending n \<Rightarrow> taskKeys k
      | _ \<Rightarrow> [])"

definition lifeFree :: "lifecycle_state \<Rightarrow> string \<Rightarrow> bool" where
  "lifeFree s i = list_all (\<lambda>(t, k). i \<notin> set (lifeHeld k)) (lcTasks s)"

definition mutationFree :: "lifecycle_state \<Rightarrow> string \<Rightarrow> bool" where
  "mutationFree s i = list_all (\<lambda>(t, k). i \<notin> set (mutationHeld k)) (lcTasks s)"

section \<open>Tasks\<close>

definition setPhase :: "lifecycle_state \<Rightarrow> nat \<Rightarrow> lc_task \<Rightarrow> lc_phase \<Rightarrow> lifecycle_state" where
  "setPhase s t k p = s\<lparr>lcTasks := jm_set t (k\<lparr>taskPhase := p\<rparr>) (lcTasks s)\<rparr>"

definition finishTask :: "lifecycle_state \<Rightarrow> nat \<Rightarrow> lc_outcome \<Rightarrow> lifecycle_state" where
  "finishTask s t r = s\<lparr>lcTasks := jm_del t (lcTasks s), outcomes := outcomes s @ [(t, r)]\<rparr>"

definition waitForNormalizedSessionLifecycleMutationIdle :: "lifecycle_state \<Rightarrow> nat \<Rightarrow> lc_task \<Rightarrow> lifecycle_state" where
  "waitForNormalizedSessionLifecycleMutationIdle s t k =
     (let activeIdentities = filter (\<lambda>i. mutationCount s i > 0) (taskKeys k);
          addWaiter = (\<lambda>m i. jm_set i (addUnique t (case jm_get m i of Some ws \<Rightarrow> ws | None \<Rightarrow> [])) m)
      in setPhase (s\<lparr>idleWaiters := foldl addWaiter (idleWaiters s) activeIdentities\<rparr>) t k (Blocked activeIdentities))"

text \<open>The head of the loop of \<^verbatim>\<open>runExclusiveSessionLifecycle\<close>.\<close>

definition tryLifecycle :: "lifecycle_state \<Rightarrow> nat \<Rightarrow> lc_task \<Rightarrow> lifecycle_state" where
  "tryLifecycle s t k =
     (if taskAborted k then finishTask s t SignalAborted
      else if hasActiveSessionLifecycleMutation s (taskKeys k)
        then waitForNormalizedSessionLifecycleMutationIdle s t k
      else setPhase s t k (Locking 0))"

definition spawnTask :: "lifecycle_state \<Rightarrow> lc_task \<Rightarrow> lifecycle_state" where
  "spawnTask s k = s\<lparr>lcTasks := jm_set (nextTask s) k (lcTasks s), nextTask := nextTask s + 1\<rparr>"

definition refuseTask :: "lifecycle_state \<Rightarrow> lc_outcome \<Rightarrow> lifecycle_state" where
  "refuseTask s r = s\<lparr>nextTask := nextTask s + 1, outcomes := outcomes s @ [(nextTask s, r)]\<rparr>"

text \<open>A call without a scope throws before anything happens.\<close>

definition runExclusiveSessionLifecycle ::
    "lifecycle_state \<Rightarrow> lc_kind \<Rightarrow> string \<Rightarrow> string option list \<Rightarrow> bool \<Rightarrow> lifecycle_state" where
  "runExclusiveSessionLifecycle s kind scope identities abortedAlready =
     (case normalizeSessionIdentities scope identities of
        None \<Rightarrow> s
      | Some keys \<Rightarrow>
          (let k = \<lparr>taskKind = kind, taskKeys = keys, taskPhase = Blocked [], taskAborted = abortedAlready\<rparr>
           in tryLifecycle (spawnTask s k) (nextTask s) k))"

definition beginSessionWorkAdmission ::
    "lifecycle_state \<Rightarrow> string \<Rightarrow> string option list \<Rightarrow> nat option \<Rightarrow> bool \<Rightarrow> bool \<Rightarrow> lifecycle_state" where
  "beginSessionWorkAdmission s scope identities onInterrupt abortedAlready gatewayClosed =
     (if gatewayClosed then refuseTask s GatewayIsDraining
      else runExclusiveSessionLifecycle s (AdmissionRun onInterrupt) scope identities abortedAlready)"

definition runExclusiveSessionLifecycleMutation ::
    "lifecycle_state \<Rightarrow> mutation_kind option \<Rightarrow> string \<Rightarrow> string option list \<Rightarrow> bool \<Rightarrow> lifecycle_state" where
  "runExclusiveSessionLifecycleMutation s kind scope identities abortedAlready =
     (case normalizeSessionIdentities scope identities of
        None \<Rightarrow> s
      | Some keys \<Rightarrow>
          if abortedAlready then refuseTask s SignalAborted
          else spawnTask s \<lparr>taskKind = MutationRun kind, taskKeys = keys, taskPhase = MutationLocking 0,
                             taskAborted = False\<rparr>)"

definition mutationKindOf :: "lc_task \<Rightarrow> mutation_kind option" where
  "mutationKindOf k = (case taskKind k of MutationRun kind \<Rightarrow> kind | _ \<Rightarrow> None)"

text \<open>One step of a task that waits for nothing but a lock or the idle waiters.\<close>

definition advanceTask :: "lifecycle_state \<Rightarrow> nat \<Rightarrow> lifecycle_state" where
  "advanceTask s t =
     (case jm_get (lcTasks s) t of
        None \<Rightarrow> s
      | Some k \<Rightarrow>
          (case taskPhase k of
             Blocked out \<Rightarrow> if out = [] then tryLifecycle s t k else s
           | Locking n \<Rightarrow>
               if n < length (taskKeys k) then
                 (if lifeFree s (taskKeys k ! n) then setPhase s t k (Locking (n + 1)) else s)
               else if taskAborted k then finishTask s t SignalAborted
               else if hasActiveSessionLifecycleMutation s (taskKeys k) then setPhase s t k (Blocked [])
               else setPhase s t k Running
           | MutationLocking n \<Rightarrow>
               if n < length (taskKeys k) then
                 (if mutationFree s (taskKeys k ! n) then setPhase s t k (MutationLocking (n + 1)) else s)
               else setPhase s t k (Activating 0)
           | Activating n \<Rightarrow>
               if n < length (taskKeys k) then
                 (if lifeFree s (taskKeys k ! n) then setPhase s t k (Activating (n + 1)) else s)
               else if taskAborted k then finishTask s t SignalAborted
               else setPhase (activateMutation s t (taskKeys k) (mutationKindOf k)) t k MutationPreparing
           | BodyLocking n \<Rightarrow>
               if n < length (taskKeys k) then
                 (if lifeFree s (taskKeys k ! n) then setPhase s t k (BodyLocking (n + 1)) else s)
               else setPhase s t k Body
           | Ending n \<Rightarrow>
               if n < length (taskKeys k) then
                 (if lifeFree s (taskKeys k ! n) then setPhase s t k (Ending (n + 1)) else s)
               else finishTask (deactivateMutation s t (taskKeys k) (mutationKindOf k)) t Returned
           | _ \<Rightarrow> s))"

text \<open>
  What the task's own callbacks answer. \<^verbatim>\<open>assertAllowed\<close> is followed by the second look at the gateway and the
  registration; an abort that came before it ends the admission at once.
\<close>

definition assertSettles :: "lifecycle_state \<Rightarrow> nat \<Rightarrow> bool \<Rightarrow> bool \<Rightarrow> lifecycle_state" where
  "assertSettles s t ok gatewayClosed =
     (case jm_get (lcTasks s) t of
        None \<Rightarrow> s
      | Some k \<Rightarrow>
          (case (taskPhase k, taskKind k) of
             (Running, AdmissionRun onInterrupt) \<Rightarrow>
               if \<not> ok then finishTask s t CallbackFailed
               else if gatewayClosed then finishTask s t GatewayIsDraining
               else
                 (case registerAdmission s (taskKeys k) onInterrupt of
                    (a, s1) \<Rightarrow>
                      if taskAborted k then finishTask (releaseAdmission s1 a) t SignalAborted
                      else setPhase s1 t k (Barrier a False))
           | _ \<Rightarrow> s))"

definition barrierStarts :: "lifecycle_state \<Rightarrow> nat \<Rightarrow> lifecycle_state" where
  "barrierStarts s t =
     (case jm_get (lcTasks s) t of
        None \<Rightarrow> s
      | Some k \<Rightarrow> (case taskPhase k of Barrier a started \<Rightarrow> setPhase s t k (Barrier a True) | _ \<Rightarrow> s))"

definition barrierSettles :: "lifecycle_state \<Rightarrow> nat \<Rightarrow> bool \<Rightarrow> lifecycle_state" where
  "barrierSettles s t ok =
     (case jm_get (lcTasks s) t of
        None \<Rightarrow> s
      | Some k \<Rightarrow>
          (case taskPhase k of
             Barrier a True \<Rightarrow>
               if ok then finishTask s t (Leased a) else finishTask (releaseAdmission s a) t CallbackFailed
           | _ \<Rightarrow> s))"

definition runSettles :: "lifecycle_state \<Rightarrow> nat \<Rightarrow> lifecycle_state" where
  "runSettles s t =
     (case jm_get (lcTasks s) t of
        None \<Rightarrow> s
      | Some k \<Rightarrow>
          (case (taskPhase k, taskKind k) of
             (Running, LifecycleRun) \<Rightarrow> finishTask s t Returned
           | (Body, _) \<Rightarrow> setPhase s t k (Ending 0)
           | _ \<Rightarrow> s))"

definition prepareSettles :: "lifecycle_state \<Rightarrow> nat \<Rightarrow> bool \<Rightarrow> lifecycle_state" where
  "prepareSettles s t ok =
     (case jm_get (lcTasks s) t of
        None \<Rightarrow> s
      | Some k \<Rightarrow>
          (case taskPhase k of
             MutationPreparing \<Rightarrow> setPhase s t k (if ok then BodyLocking 0 else Ending 0)
           | _ \<Rightarrow> s))"

definition abortTask :: "lifecycle_state \<Rightarrow> nat \<Rightarrow> lifecycle_state" where
  "abortTask s t =
     (case jm_get (lcTasks s) t of
        None \<Rightarrow> s
      | Some k \<Rightarrow>
          (case taskPhase k of
             Blocked out \<Rightarrow>
               if out \<noteq> [] then finishTask s t SignalAborted
               else s\<lparr>lcTasks := jm_set t (k\<lparr>taskAborted := True\<rparr>) (lcTasks s)\<rparr>
           | Barrier a False \<Rightarrow> finishTask (releaseAdmission s a) t SignalAborted
           | _ \<Rightarrow> s\<lparr>lcTasks := jm_set t (k\<lparr>taskAborted := True\<rparr>) (lcTasks s)\<rparr>))"

datatype lc_event =
    StartLifecycle string "string option list" bool
  | StartAdmission string "string option list" "nat option" bool bool
  | StartMutation "mutation_kind option" string "string option list" bool
  | Advance nat
  | AssertSettles nat bool bool
  | BarrierStarts nat
  | BarrierSettles nat bool
  | RunSettles nat
  | PrepareSettles nat bool
  | AbortSignal nat
  | ReleaseLease nat
  | HandOff nat string
  | ConsumeHandoff string string "string option list" "nat option"
  | CancelHandoff string
  | Interrupt "nat list" string "string option list"

fun lc_step :: "lifecycle_state \<Rightarrow> lc_event \<Rightarrow> lifecycle_state" where
  "lc_step s (StartLifecycle scope ids ab) = runExclusiveSessionLifecycle s LifecycleRun scope ids ab"
| "lc_step s (StartAdmission scope ids oi ab gw) = beginSessionWorkAdmission s scope ids oi ab gw"
| "lc_step s (StartMutation kind scope ids ab) = runExclusiveSessionLifecycleMutation s kind scope ids ab"
| "lc_step s (Advance t) = advanceTask s t"
| "lc_step s (AssertSettles t ok gw) = assertSettles s t ok gw"
| "lc_step s (BarrierStarts t) = barrierStarts s t"
| "lc_step s (BarrierSettles t ok) = barrierSettles s t ok"
| "lc_step s (RunSettles t) = runSettles s t"
| "lc_step s (PrepareSettles t ok) = prepareSettles s t ok"
| "lc_step s (AbortSignal t) = abortTask s t"
| "lc_step s (ReleaseLease a) = releaseAdmission s a"
| "lc_step s (HandOff a uuid) = snd (createHandoff s a uuid)"
| "lc_step s (ConsumeHandoff h scope ids oi) = snd (consumeSessionWorkAdmissionHandoff s h scope ids oi)"
| "lc_step s (CancelHandoff h) = snd (cancelSessionWorkAdmissionHandoff s h)"
| "lc_step s (Interrupt cur scope ids) = snd (interruptSessionWorkAdmissions s cur scope ids)"

end
