(* ===== verification/SessionExclusion.thy ===== *)
theory SessionExclusion
  imports SessionLifecycle
begin

text \<open>
  Exclusion and progress of the tasks of \<open>SessionLifecycle\<close>: the invariant of locks, counters and waiters, its
  preservation by every step, mutual exclusion of mutations and work, and freedom from deadlock.
\<close>

section \<open>The invariant of the tasks\<close>

definition isActive :: "lc_task \<Rightarrow> bool" where
  "isActive k =
     (case taskPhase k of MutationPreparing \<Rightarrow> True | BodyLocking n \<Rightarrow> True | Body \<Rightarrow> True | Ending n \<Rightarrow> True | _ \<Rightarrow> False)"

definition inWork :: "lc_task \<Rightarrow> bool" where
  "inWork k = (case taskPhase k of Running \<Rightarrow> True | Barrier a b \<Rightarrow> True | _ \<Rightarrow> False)"

text \<open>A task is well formed when its keys increase and its phase fits its kind.\<close>

definition isMutation :: "lc_task \<Rightarrow> bool" where
  "isMutation k = (case taskKind k of MutationRun kind \<Rightarrow> True | _ \<Rightarrow> False)"

lemma isMutation_upd [simp]:
  "isMutation (k\<lparr>taskPhase := p\<rparr>) = isMutation k" "isMutation (k\<lparr>taskAborted := b\<rparr>) = isMutation k"
  by (simp_all add: isMutation_def)

definition task_ok :: "lc_task \<Rightarrow> bool" where
  "task_ok k \<longleftrightarrow> sorted_wrt (<) (taskKeys k) \<and>
     (case taskPhase k of
        Blocked out \<Rightarrow> \<not> isMutation k
      | Locking n \<Rightarrow> \<not> isMutation k \<and> n \<le> length (taskKeys k)
      | Running \<Rightarrow> \<not> isMutation k
      | Barrier a b \<Rightarrow> \<not> isMutation k
      | MutationLocking n \<Rightarrow> isMutation k \<and> n \<le> length (taskKeys k)
      | Activating n \<Rightarrow> isMutation k \<and> n \<le> length (taskKeys k)
      | MutationPreparing \<Rightarrow> isMutation k
      | BodyLocking n \<Rightarrow> isMutation k \<and> n \<le> length (taskKeys k)
      | Body \<Rightarrow> isMutation k
      | Ending n \<Rightarrow> isMutation k \<and> n \<le> length (taskKeys k))"

text \<open>
  Locks exclude each other; a key counts one mutation exactly while a mutation of it is active; no work runs on a key of
  an active mutation; whoever waits for a key is in its waiters, and only keys with a mutation have waiters.
\<close>

type_synonym task_map = "nat \<Rightarrow> lc_task option"

definition locks_ok :: "task_map \<Rightarrow> bool" where
  "locks_ok f \<longleftrightarrow>
     (\<forall>t k u l. f t = Some k \<longrightarrow> f u = Some l \<longrightarrow> t \<noteq> u \<longrightarrow>
        set (lifeHeld k) \<inter> set (lifeHeld l) = {} \<and> set (mutationHeld k) \<inter> set (mutationHeld l) = {})"

definition activeOn :: "task_map \<Rightarrow> string \<Rightarrow> bool" where
  "activeOn f i \<longleftrightarrow> (\<exists>t k. f t = Some k \<and> isActive k \<and> i \<in> set (taskKeys k))"

definition counts_ok :: "task_map \<Rightarrow> (string \<Rightarrow> nat option) \<Rightarrow> bool" where
  "counts_ok f c \<longleftrightarrow> (\<forall>i. c i = (if activeOn f i then Some 1 else None))"

definition work_ok :: "task_map \<Rightarrow> bool" where
  "work_ok f \<longleftrightarrow> (\<forall>t k i. f t = Some k \<longrightarrow> inWork k \<longrightarrow> i \<in> set (taskKeys k) \<longrightarrow> \<not> activeOn f i)"

definition blocked_ok :: "task_map \<Rightarrow> (string \<Rightarrow> nat list option) \<Rightarrow> bool" where
  "blocked_ok f w \<longleftrightarrow>
     (\<forall>t k out i. f t = Some k \<longrightarrow> taskPhase k = Blocked out \<longrightarrow> i \<in> set out \<longrightarrow> (\<exists>ws. w i = Some ws \<and> t \<in> set ws))"

definition waiters_ok :: "(string \<Rightarrow> nat option) \<Rightarrow> (string \<Rightarrow> nat list option) \<Rightarrow> bool" where
  "waiters_ok c w \<longleftrightarrow> (\<forall>i. w i \<noteq> None \<longrightarrow> c i \<noteq> None)"

definition tasks_ok :: "task_map \<Rightarrow> bool" where
  "tasks_ok f \<longleftrightarrow> (\<forall>t k. f t = Some k \<longrightarrow> task_ok k)"

definition lc_inv :: "lifecycle_state \<Rightarrow> bool" where
  "lc_inv s \<longleftrightarrow>
     jm_wf (lcTasks s) \<and> (\<forall>t k. jm_get (lcTasks s) t = Some k \<longrightarrow> t < nextTask s)
     \<and> tasks_ok (jm_get (lcTasks s)) \<and> locks_ok (jm_get (lcTasks s))
     \<and> counts_ok (jm_get (lcTasks s)) (jm_get (activeMutations s))
     \<and> work_ok (jm_get (lcTasks s)) \<and> blocked_ok (jm_get (lcTasks s)) (jm_get (idleWaiters s))
     \<and> waiters_ok (jm_get (activeMutations s)) (jm_get (idleWaiters s))"

lemma held_keys: "set (lifeHeld k) \<subseteq> set (taskKeys k)" "set (mutationHeld k) \<subseteq> set (taskKeys k)"
  by (auto simp: lifeHeld_def mutationHeld_def dest: in_set_takeD split: lc_phase.splits)

lemma active_holds: "isActive k \<Longrightarrow> mutationHeld k = taskKeys k"
  by (auto simp: isActive_def mutationHeld_def split: lc_phase.splits)

lemma work_holds: "inWork k \<Longrightarrow> lifeHeld k = taskKeys k"
  by (auto simp: inWork_def lifeHeld_def split: lc_phase.splits)

lemma work_not_active: "inWork k \<Longrightarrow> \<not> isActive k"
  by (auto simp: inWork_def isActive_def split: lc_phase.splits)

lemma free_iff:
  assumes "jm_wf (lcTasks s)"
  shows "lifeFree s i \<longleftrightarrow> (\<forall>t k. jm_get (lcTasks s) t = Some k \<longrightarrow> i \<notin> set (lifeHeld k))"
    and "mutationFree s i \<longleftrightarrow> (\<forall>t k. jm_get (lcTasks s) t = Some k \<longrightarrow> i \<notin> set (mutationHeld k))"
  using assms by (auto simp: lifeFree_def mutationFree_def list_all_iff)

text \<open>Two active mutations never share a key, so at most one task is active on a key.\<close>

lemma active_unique:
  "locks_ok f \<Longrightarrow> f t = Some k \<Longrightarrow> isActive k \<Longrightarrow> f u = Some l \<Longrightarrow> isActive l \<Longrightarrow>
     i \<in> set (taskKeys k) \<Longrightarrow> i \<in> set (taskKeys l) \<Longrightarrow> t = u"
  using active_holds by (fastforce simp: locks_ok_def)

text \<open>What a change of one task has to keep.\<close>

lemma locks_upd:
  assumes "locks_ok f"
    and "\<forall>i \<in> set (lifeHeld k'). (\<exists>k. f t = Some k \<and> i \<in> set (lifeHeld k)) \<or> (\<forall>u l. f u = Some l \<longrightarrow> i \<notin> set (lifeHeld l))"
    and "\<forall>i \<in> set (mutationHeld k'). (\<exists>k. f t = Some k \<and> i \<in> set (mutationHeld k))
           \<or> (\<forall>u l. f u = Some l \<longrightarrow> i \<notin> set (mutationHeld l))"
  shows "locks_ok (f(t \<mapsto> k'))"
proof -
  have "set (lifeHeld k') \<inter> set (lifeHeld l) = {} \<and> set (mutationHeld k') \<inter> set (mutationHeld l) = {}"
    if "f u = Some l" "u \<noteq> t" for u l
    using assms that unfolding locks_ok_def by (meson disjoint_iff)
  then show ?thesis using assms(1) by (auto simp: locks_ok_def)
qed

definition activeElsewhere :: "task_map \<Rightarrow> nat \<Rightarrow> string \<Rightarrow> bool" where
  "activeElsewhere f t i \<longleftrightarrow> (\<exists>u k. u \<noteq> t \<and> f u = Some k \<and> isActive k \<and> i \<in> set (taskKeys k))"

lemma activeOn_split:
  "activeOn f i \<longleftrightarrow> (\<exists>k. f t = Some k \<and> isActive k \<and> i \<in> set (taskKeys k)) \<or> activeElsewhere f t i"
  unfolding activeOn_def activeElsewhere_def by metis

lemma elsewhere_upd [simp]: "activeElsewhere (f(t := x)) t i = activeElsewhere f t i"
  by (auto simp: activeElsewhere_def)

lemma active_upd:
  "f t = Some k \<Longrightarrow> isActive k' = isActive k \<Longrightarrow> taskKeys k' = taskKeys k \<Longrightarrow>
     activeOn (f(t \<mapsto> k')) i \<longleftrightarrow> activeOn f i"
  by (simp add: activeOn_split [where t = t])

lemma active_idle:
  "(\<And>k. f t = Some k \<Longrightarrow> \<not> isActive k) \<Longrightarrow> activeOn (f(t := None)) i \<longleftrightarrow> activeOn f i"
  "(\<And>k. f t = Some k \<Longrightarrow> \<not> isActive k) \<Longrightarrow> \<not> isActive k' \<Longrightarrow> activeOn (f(t \<mapsto> k')) i \<longleftrightarrow> activeOn f i"
  by (simp_all add: activeOn_split [where t = t] del: fun_upd_apply) (auto simp: fun_upd_same)

lemma update_ok:
  assumes ok: "tasks_ok f" "locks_ok f" "counts_ok f c" "work_ok f" "blocked_ok f w"
    and t: "f t = Some k" "task_ok k'" "taskKeys k' = taskKeys k" "isActive k' = isActive k"
    and life: "\<forall>i \<in> set (lifeHeld k') - set (lifeHeld k). \<forall>u l. f u = Some l \<longrightarrow> i \<notin> set (lifeHeld l)"
    and mut: "\<forall>i \<in> set (mutationHeld k') - set (mutationHeld k). \<forall>u l. f u = Some l \<longrightarrow> i \<notin> set (mutationHeld l)"
    and work: "inWork k' \<Longrightarrow> \<not> inWork k \<Longrightarrow> \<forall>i \<in> set (taskKeys k). c i = None"
    and out: "\<And>out. taskPhase k' = Blocked out \<Longrightarrow> \<forall>i \<in> set out. \<exists>ws. w i = Some ws \<and> t \<in> set ws"
  shows "tasks_ok (f(t \<mapsto> k')) \<and> locks_ok (f(t \<mapsto> k')) \<and> counts_ok (f(t \<mapsto> k')) c \<and> work_ok (f(t \<mapsto> k'))
    \<and> blocked_ok (f(t \<mapsto> k')) w"
proof -
  have act: "activeOn (f(t \<mapsto> k')) i \<longleftrightarrow> activeOn f i" for i
    using t by (intro active_upd)
  have "tasks_ok (f(t \<mapsto> k'))" using ok(1) t(2) by (simp add: tasks_ok_def)
  moreover have "locks_ok (f(t \<mapsto> k'))"
    using ok(2) life mut t(1) by (intro locks_upd) blast+
  moreover have "counts_ok (f(t \<mapsto> k')) c" using ok(3) by (simp add: counts_ok_def act)
  moreover have "work_ok (f(t \<mapsto> k'))"
  proof -
    have "\<not> activeOn f i" if "inWork k'" "i \<in> set (taskKeys k')" for i
    proof (cases "inWork k")
      case True
      with ok(4) t that show ?thesis by (auto simp: work_ok_def)
    next
      case False
      with work that t have "c i = None" by auto
      with ok(3) show ?thesis by (auto simp: counts_ok_def split: if_splits)
    qed
    then show ?thesis using ok(4) by (auto simp: work_ok_def act)
  qed
  moreover have "blocked_ok (f(t \<mapsto> k')) w" using ok(5) out by (auto simp: blocked_ok_def)
  ultimately show ?thesis by blast
qed

lemma delete_ok:
  assumes ok: "tasks_ok f" "locks_ok f" "counts_ok f c" "work_ok f" "blocked_ok f w"
    and t: "\<And>k. f t = Some k \<Longrightarrow> \<not> isActive k"
  shows "tasks_ok (f(t := None)) \<and> locks_ok (f(t := None)) \<and> counts_ok (f(t := None)) c \<and> work_ok (f(t := None))
    \<and> blocked_ok (f(t := None)) w"
proof -
  have act: "activeOn (f(t := None)) i \<longleftrightarrow> activeOn f i" for i
    using t by (rule active_idle(1))
  show ?thesis using ok by (auto simp: tasks_ok_def locks_ok_def counts_ok_def work_ok_def blocked_ok_def act)
qed

lemma insert_ok:
  assumes ok: "tasks_ok f" "locks_ok f" "counts_ok f c" "work_ok f" "blocked_ok f w"
    and t: "f t = None" "task_ok k'" "\<not> isActive k'" "lifeHeld k' = []" "mutationHeld k' = []"
      "\<not> inWork k'" "\<And>out. taskPhase k' = Blocked out \<Longrightarrow> out = []"
  shows "tasks_ok (f(t \<mapsto> k')) \<and> locks_ok (f(t \<mapsto> k')) \<and> counts_ok (f(t \<mapsto> k')) c \<and> work_ok (f(t \<mapsto> k'))
    \<and> blocked_ok (f(t \<mapsto> k')) w"
proof -
  have act: "activeOn (f(t \<mapsto> k')) i \<longleftrightarrow> activeOn f i" for i
    using t by (intro active_idle(2)) simp_all
  have "locks_ok (f(t \<mapsto> k'))" using ok(2) t(4,5) by (intro locks_upd) simp_all
  with ok t show ?thesis
    by (auto simp: tasks_ok_def counts_ok_def work_ok_def blocked_ok_def act)
qed

lemmas held_defs = lifeHeld_def mutationHeld_def isActive_def inWork_def

text \<open>The fields the invariant reads, which the operations on admissions and hand-offs leave alone.\<close>

definition same_tasks :: "lifecycle_state \<Rightarrow> lifecycle_state \<Rightarrow> bool" where
  "same_tasks s s' \<longleftrightarrow> lcTasks s' = lcTasks s \<and> nextTask s' = nextTask s \<and> activeMutations s' = activeMutations s
     \<and> idleWaiters s' = idleWaiters s \<and> activeMutationRuns s' = activeMutationRuns s"

lemma same_tasks_inv: "same_tasks s s' \<Longrightarrow> lc_inv s' = lc_inv s"
  by (simp add: same_tasks_def lc_inv_def)

lemma same_tasks_refl [simp]: "same_tasks s s"
  by (simp add: same_tasks_def)

lemma same_tasks_trans: "same_tasks s s' \<Longrightarrow> same_tasks s' s'' \<Longrightarrow> same_tasks s s''"
  by (simp add: same_tasks_def)

lemma same_tasks_foldl: "(\<And>s x. same_tasks s (g s x)) \<Longrightarrow> same_tasks s (foldl g s xs)"
  by (induction xs arbitrary: s) (auto intro: same_tasks_trans)

lemma same_update: "same_tasks s (updateWork s a g)"
  by (simp add: same_tasks_def updateWork_def split: option.splits)

lemma same_register: "same_tasks s (snd (registerAdmission s ids oi))"
  unfolding registerAdmission_def Let_def snd_conv
  by (rule same_tasks_trans [OF _ same_tasks_foldl]) (simp_all add: same_tasks_def)

lemma same_clear: "same_tasks s (clearSessionWorkAdmissionHandoffs s a)"
  unfolding clearSessionWorkAdmissionHandoffs_def
  by (rule same_tasks_trans [OF _ same_update]) (simp add: same_tasks_def)

lemma same_unindex: "same_tasks s (unindexAdmission a s i)"
  by (simp add: same_tasks_def unindexAdmission_def Let_def)

lemma same_release: "same_tasks s (releaseAdmission s a)"
proof (cases "workAdmissions s a")
  case (Some w)
  have "same_tasks s (clearSessionWorkAdmissionHandoffs (foldl (unindexAdmission a) (updateWork s a g) ids) a)" for g ids
    by (rule same_tasks_trans [OF same_update same_tasks_trans [OF same_tasks_foldl same_clear]]) (rule same_unindex)
  with Some show ?thesis by (simp add: releaseAdmission_def)
qed (simp add: releaseAdmission_def)

lemma same_create: "same_tasks s (snd (createHandoff s a uuid))"
proof -
  have "same_tasks s (createSessionWorkAdmissionHandoff s a uuid)"
    unfolding createSessionWorkAdmissionHandoff_def
    by (rule same_tasks_trans [OF _ same_update]) (simp add: same_tasks_def)
  then show ?thesis by (simp add: createHandoff_def split: option.splits)
qed

lemma same_take: "same_tasks s (takeHandoff s h a)"
  unfolding takeHandoff_def by (rule same_tasks_trans [OF _ same_update]) (simp add: same_tasks_def)

lemma same_call: "same_tasks s (callInterrupt c s)"
  by (simp add: callInterrupt_def same_tasks_def split: option.splits)

lemma same_consume: "same_tasks s (snd (consumeSessionWorkAdmissionHandoff s h scope ids oi))"
proof -
  have 1: "same_tasks s (updateWork (takeHandoff s h a) a g)" for h a g
    by (rule same_tasks_trans [OF same_take same_update])
  have 2: "same_tasks s (callInterrupt c (updateWork (takeHandoff s h a) a g))" for c h a g
    by (rule same_tasks_trans [OF 1 same_call])
  show ?thesis
    by (simp add: consumeSessionWorkAdmissionHandoff_def Let_def 1 2 split: option.splits)
qed

lemma same_cancel: "same_tasks s (snd (cancelSessionWorkAdmissionHandoff s h))"
  by (simp add: cancelSessionWorkAdmissionHandoff_def Let_def same_tasks_trans [OF same_take same_release]
      split: option.splits)

lemma same_interrupt: "same_tasks s (snd (interruptSessionWorkAdmissions s cur scope ids))"
proof -
  have "same_tasks s (interruptAdmission s a)" for s a
    by (simp add: interruptAdmission_def same_tasks_trans [OF same_update same_call] split: option.splits)
  then have "same_tasks s (foldl interruptAdmission s as)" for as by (rule same_tasks_foldl)
  then show ?thesis by (simp add: interruptSessionWorkAdmissions_def Let_def split: option.splits)
qed

section \<open>Steps keep the invariant\<close>

lemma lc_invD:
  assumes "lc_inv s"
  shows "jm_wf (lcTasks s)" "tasks_ok (jm_get (lcTasks s))" "locks_ok (jm_get (lcTasks s))"
    "counts_ok (jm_get (lcTasks s)) (jm_get (activeMutations s))" "work_ok (jm_get (lcTasks s))"
    "blocked_ok (jm_get (lcTasks s)) (jm_get (idleWaiters s))"
    "waiters_ok (jm_get (activeMutations s)) (jm_get (idleWaiters s))"
  using assms unfolding lc_inv_def by blast+

lemma task_okD: "lc_inv s \<Longrightarrow> jm_get (lcTasks s) t = Some k \<Longrightarrow> task_ok k"
  using lc_invD(2) by (auto simp: tasks_ok_def)

lemma fresh_task: "lc_inv s \<Longrightarrow> jm_get (lcTasks s) (nextTask s) = None"
proof (rule ccontr)
  assume inv: "lc_inv s" and "jm_get (lcTasks s) (nextTask s) \<noteq> None"
  then obtain k where "jm_get (lcTasks s) (nextTask s) = Some k" by blast
  with inv have "nextTask s < nextTask s" unfolding lc_inv_def by blast
  then show False by simp
qed

lemma lc_inv_finish:
  assumes inv: "lc_inv s" and "\<And>k. jm_get (lcTasks s) t = Some k \<Longrightarrow> \<not> isActive k"
  shows "lc_inv (finishTask s t r)"
proof -
  note ok = delete_ok [OF lc_invD(2-6) [OF inv], of t, OF assms(2)]
  have get: "jm_get (lcTasks (finishTask s t r)) = (jm_get (lcTasks s))(t := None)"
    by (auto simp: finishTask_def)
  show ?thesis
    using inv ok unfolding lc_inv_def get by (simp add: finishTask_def)
qed

lemma lc_inv_put:
  assumes inv: "lc_inv s" and t: "jm_get (lcTasks s) t = Some k"
    and task: "task_ok k'" "taskKeys k' = taskKeys k" "isActive k' = isActive k"
    and life: "\<forall>i \<in> set (lifeHeld k') - set (lifeHeld k). lifeFree s i"
    and mut: "\<forall>i \<in> set (mutationHeld k') - set (mutationHeld k). mutationFree s i"
    and work: "inWork k' \<Longrightarrow> \<not> inWork k \<Longrightarrow> \<forall>i \<in> set (taskKeys k). jm_get (activeMutations s) i = None"
    and out: "\<And>out. taskPhase k' = Blocked out \<Longrightarrow> \<forall>i \<in> set out. \<exists>ws. jm_get (idleWaiters s) i = Some ws \<and> t \<in> set ws"
  shows "lc_inv (s\<lparr>lcTasks := jm_set t k' (lcTasks s)\<rparr>)"
proof -
  note free = free_iff [OF lc_invD(1) [OF inv]]
  note ok = update_ok [OF lc_invD(2-6) [OF inv] t task life [unfolded free] mut [unfolded free] work out]
  have "t < nextTask s" using inv t by (auto simp: lc_inv_def)
  moreover have get: "jm_get (lcTasks (s\<lparr>lcTasks := jm_set t k' (lcTasks s)\<rparr>)) = (jm_get (lcTasks s))(t \<mapsto> k')"
    by auto
  ultimately show ?thesis using inv ok unfolding lc_inv_def get by simp
qed

lemma lc_inv_phase:
  assumes "lc_inv s" and "jm_get (lcTasks s) t = Some k" and "task_ok (k\<lparr>taskPhase := p\<rparr>)"
    and "isActive (k\<lparr>taskPhase := p\<rparr>) = isActive k"
    and "\<forall>i \<in> set (lifeHeld (k\<lparr>taskPhase := p\<rparr>)) - set (lifeHeld k). lifeFree s i"
    and "\<forall>i \<in> set (mutationHeld (k\<lparr>taskPhase := p\<rparr>)) - set (mutationHeld k). mutationFree s i"
    and "inWork (k\<lparr>taskPhase := p\<rparr>) \<Longrightarrow> \<not> inWork k \<Longrightarrow> \<forall>i \<in> set (taskKeys k). jm_get (activeMutations s) i = None"
    and "\<And>out. p = Blocked out \<Longrightarrow> \<forall>i \<in> set out. \<exists>ws. jm_get (idleWaiters s) i = Some ws \<and> t \<in> set ws"
  shows "lc_inv (setPhase s t k p)"
  unfolding setPhase_def by (rule lc_inv_put [OF assms(1,2)]) (use assms in auto)

lemma mutation_count_pos: "lc_inv s \<Longrightarrow> mutationCount s i > 0 \<longleftrightarrow> jm_get (activeMutations s) i \<noteq> None"
  using lc_invD(4) [of s] by (auto simp: counts_ok_def mutationCount_def split: option.splits if_splits)

lemma has_active_iff:
  "lc_inv s \<Longrightarrow> hasActiveSessionLifecycleMutation s ids \<longleftrightarrow> (\<exists>i \<in> set ids. jm_get (activeMutations s) i \<noteq> None)"
  by (simp add: hasActiveSessionLifecycleMutation_def list_ex_iff mutation_count_pos)

definition addWaiter :: "nat \<Rightarrow> (string, nat list) jsmap \<Rightarrow> string \<Rightarrow> (string, nat list) jsmap" where
  "addWaiter t m i = jm_set i (addUnique t (case jm_get m i of Some ws \<Rightarrow> ws | None \<Rightarrow> [])) m"

lemma addWaiters:
  "(\<forall>i \<in> set ids. \<exists>ws. jm_get (foldl (addWaiter t) m ids) i = Some ws \<and> t \<in> set ws)
   \<and> (\<forall>i ws. jm_get m i = Some ws \<longrightarrow> (\<exists>ws'. jm_get (foldl (addWaiter t) m ids) i = Some ws' \<and> set ws \<subseteq> set ws'))
   \<and> (\<forall>i. jm_get (foldl (addWaiter t) m ids) i \<noteq> None \<longrightarrow> jm_get m i \<noteq> None \<or> i \<in> set ids)"
proof (induction ids rule: rev_induct)
  case (snoc j ids)
  define m' where "m' = foldl (addWaiter t) m ids"
  note IH = snoc.IH [folded m'_def]
  have m: "foldl (addWaiter t) m (ids @ [j]) = addWaiter t m' j" by (simp add: m'_def)
  have get: "jm_get (addWaiter t m' j) i =
      (if i = j then Some (addUnique t (case jm_get m' j of Some ws \<Rightarrow> ws | None \<Rightarrow> [])) else jm_get m' i)" for i
    by (simp add: addWaiter_def)
  have grow: "t \<in> set (addUnique t ws)" "set ws \<subseteq> set (addUnique t ws)" for ws :: "nat list"
    by (auto simp: addUnique_def)
  have "\<exists>ws. jm_get (addWaiter t m' j) i = Some ws \<and> t \<in> set ws" if "i \<in> set (ids @ [j])" for i
    using that IH grow(1) unfolding get by (cases "i = j") auto
  moreover have "\<exists>ws'. jm_get (addWaiter t m' j) i = Some ws' \<and> set ws \<subseteq> set ws'" if "jm_get m i = Some ws" for i ws
  proof -
    from IH that obtain ws' where "jm_get m' i = Some ws'" "set ws \<subseteq> set ws'" by blast
    with grow(2) [of ws'] show ?thesis unfolding get by (cases "i = j") auto
  qed
  moreover have "jm_get m i \<noteq> None \<or> i \<in> set (ids @ [j])" if "jm_get (addWaiter t m' j) i \<noteq> None" for i
    using that IH unfolding get by (cases "i = j") auto
  ultimately show ?case unfolding m by blast
qed auto

lemma lc_inv_wait:
  assumes inv: "lc_inv s" and t: "jm_get (lcTasks s) t = Some k" and k: "taskPhase k = Blocked out"
  shows "lc_inv (waitForNormalizedSessionLifecycleMutationIdle s t k)"
proof -
  define ids where "ids = filter (\<lambda>i. mutationCount s i > 0) (taskKeys k)"
  let ?s = "s\<lparr>idleWaiters := foldl (addWaiter t) (idleWaiters s) ids\<rparr>"
  note add = addWaiters [of ids t "idleWaiters s"]
  have "blocked_ok (jm_get (lcTasks s)) (jm_get (idleWaiters ?s))"
    using add lc_invD(6) [OF inv] unfolding blocked_ok_def by simp (meson subsetD)
  moreover have "waiters_ok (jm_get (activeMutations s)) (jm_get (idleWaiters ?s))"
    unfolding waiters_ok_def
  proof (intro allI impI)
    fix i assume "jm_get (idleWaiters ?s) i \<noteq> None"
    with add have "jm_get (idleWaiters s) i \<noteq> None \<or> i \<in> set ids" by simp
    then show "jm_get (activeMutations s) i \<noteq> None"
      using lc_invD(7) [OF inv] mutation_count_pos [OF inv, of i] unfolding waiters_ok_def ids_def by auto
  qed
  ultimately have inv': "lc_inv ?s" using inv by (simp add: lc_inv_def)
  have "task_ok (k\<lparr>taskPhase := Blocked ids\<rparr>)" using task_okD [OF inv t] k by (simp add: task_ok_def)
  then have "lc_inv (setPhase ?s t k (Blocked ids))"
    using t add k by (intro lc_inv_phase [OF inv']) (auto simp: held_defs)
  moreover have "waitForNormalizedSessionLifecycleMutationIdle s t k = setPhase ?s t k (Blocked ids)"
    unfolding waitForNormalizedSessionLifecycleMutationIdle_def Let_def ids_def addWaiter_def [abs_def] ..
  ultimately show ?thesis by simp
qed

lemma lc_inv_try:
  assumes inv: "lc_inv s" and t: "jm_get (lcTasks s) t = Some k" and k: "taskPhase k = Blocked out"
  shows "lc_inv (tryLifecycle s t k)"
proof -
  have "task_ok (k\<lparr>taskPhase := Locking 0\<rparr>)"
    using task_okD [OF inv t] k by (simp add: task_ok_def)
  then have "lc_inv (setPhase s t k (Locking 0))"
    using k by (intro lc_inv_phase [OF inv t]) (simp_all add: held_defs)
  moreover have "lc_inv (finishTask s t SignalAborted)"
    using t k by (intro lc_inv_finish [OF inv]) (simp add: isActive_def)
  ultimately show ?thesis using lc_inv_wait [OF inv t k] by (simp add: tryLifecycle_def)
qed

lemma lc_inv_spawn:
  assumes inv: "lc_inv s" and k: "task_ok k" "\<not> isActive k" "lifeHeld k = []" "mutationHeld k = []" "\<not> inWork k"
    "\<And>out. taskPhase k = Blocked out \<Longrightarrow> out = []"
  shows "lc_inv (spawnTask s k)"
proof -
  note ok = insert_ok [OF lc_invD(2-6) [OF inv] fresh_task [OF inv] k]
  have get: "jm_get (lcTasks (spawnTask s k)) = (jm_get (lcTasks s))(nextTask s \<mapsto> k)"
    by (auto simp: spawnTask_def)
  show ?thesis using inv ok unfolding lc_inv_def get by (auto simp: spawnTask_def less_Suc_eq)
qed

lemma keys_sorted: "normalizeSessionIdentities scope ids = Some keys \<Longrightarrow> sorted_wrt (<) keys"
  using normal_keys by blast

lemma lc_inv_start:
  assumes inv: "lc_inv s" and kind: "\<And>k. kind \<noteq> MutationRun k"
  shows "lc_inv (runExclusiveSessionLifecycle s kind scope ids ab)"
proof (cases "normalizeSessionIdentities scope ids")
  case (Some keys)
  let ?k = "\<lparr>taskKind = kind, taskKeys = keys, taskPhase = Blocked [], taskAborted = ab\<rparr>"
  have "lc_inv (spawnTask s ?k)"
    using keys_sorted [OF Some] kind
    by (intro lc_inv_spawn [OF inv]) (auto simp: task_ok_def isMutation_def held_defs split: lc_kind.splits)
  then have "lc_inv (tryLifecycle (spawnTask s ?k) (nextTask s) ?k)"
    by (rule lc_inv_try) (simp_all add: spawnTask_def)
  with Some show ?thesis by (simp add: runExclusiveSessionLifecycle_def Let_def)
qed (simp add: runExclusiveSessionLifecycle_def inv)

lemma lc_inv_refuse: "lc_inv s \<Longrightarrow> lc_inv (refuseTask s r)"
  by (auto simp: lc_inv_def refuseTask_def less_Suc_eq)

lemma lc_inv_mutation: "lc_inv s \<Longrightarrow> lc_inv (runExclusiveSessionLifecycleMutation s kind scope ids ab)"
  using keys_sorted
  by (auto simp: runExclusiveSessionLifecycleMutation_def lc_inv_refuse task_ok_def isMutation_def held_defs
      intro!: lc_inv_spawn split: option.splits)

section \<open>Mutations begin and end\<close>

lemma activate_effect:
  "distinct ids \<Longrightarrow>
     lcTasks (foldl (activateIdentity kind) s ids) = lcTasks s
   \<and> nextTask (foldl (activateIdentity kind) s ids) = nextTask s
   \<and> idleWaiters (foldl (activateIdentity kind) s ids) = idleWaiters s
   \<and> activeMutationRuns (foldl (activateIdentity kind) s ids) = activeMutationRuns s
   \<and> (\<forall>i. jm_get (activeMutations (foldl (activateIdentity kind) s ids)) i =
          (if i \<in> set ids then Some (mutationCount s i + 1) else jm_get (activeMutations s) i))"
proof (induction ids arbitrary: s)
  case (Cons j ids)
  let ?s = "activateIdentity kind s j"
  have one: "lcTasks ?s = lcTasks s" "nextTask ?s = nextTask s" "idleWaiters ?s = idleWaiters s"
    "activeMutationRuns ?s = activeMutationRuns s"
    "activeMutations ?s = jm_set j (mutationCount s j + 1) (activeMutations s)"
    by (simp_all add: activateIdentity_def Let_def split: option.splits)
  have count: "mutationCount ?s i = mutationCount s i" if "i \<noteq> j" for i
    using that by (simp add: mutationCount_def one(5))
  have "distinct ids" using Cons.prems by simp
  note IH = Cons.IH [OF this, of ?s]
  have "jm_get (activeMutations (foldl (activateIdentity kind) ?s ids)) i =
      (if i \<in> set (j # ids) then Some (mutationCount s i + 1) else jm_get (activeMutations s) i)" for i
    using IH count [of i] Cons.prems by (auto simp: one(5))
  with IH show ?case by (simp add: one(1-4))
qed simp

lemma locks_elsewhere:
  "locks_ok f \<Longrightarrow> f t = Some k \<Longrightarrow> i \<in> set (mutationHeld k) \<Longrightarrow> \<not> activeElsewhere f t i"
  unfolding activeElsewhere_def locks_ok_def using active_holds by (metis disjoint_iff)

lemma lc_inv_activate:
  assumes inv: "lc_inv s" and t: "jm_get (lcTasks s) t = Some k" and k: "taskPhase k = Activating n"
    and n: "\<not> n < length (taskKeys k)"
  shows "lc_inv (setPhase (activateMutation s t (taskKeys k) kind) t k MutationPreparing)"
proof -
  let ?f = "jm_get (lcTasks s)" and ?k = "k\<lparr>taskPhase := MutationPreparing\<rparr>"
  let ?s = "activateMutation s t (taskKeys k) kind"
  have tk: "task_ok k" by (rule task_okD [OF inv t])
  then have dis: "distinct (taskKeys k)" by (simp add: task_ok_def strict_sorted_iff)
  note eff = activate_effect [OF dis, of kind "s\<lparr>activeMutationRuns := addUnique t (activeMutationRuns s)\<rparr>"]
  have s: "lcTasks ?s = lcTasks s" "nextTask ?s = nextTask s" "idleWaiters ?s = idleWaiters s"
    "\<And>i. jm_get (activeMutations ?s) i =
        (if i \<in> set (taskKeys k) then Some (mutationCount s i + 1) else jm_get (activeMutations s) i)"
    using eff by (simp_all add: activateMutation_def mutationCount_def)
  have full: "lifeHeld k = taskKeys k" "mutationHeld k = taskKeys k" using k n by (simp_all add: held_defs)
  have held: "lifeHeld ?k = []" "mutationHeld ?k = taskKeys k" "isActive ?k" "\<not> isActive k" "\<not> inWork ?k"
    using k by (simp_all add: held_defs)
  note locks = lc_invD(3) [OF inv]
  have no: "\<not> activeElsewhere ?f t i" if "i \<in> set (taskKeys k)" for i
    using that full by (intro locks_elsewhere [OF locks t]) simp
  have on: "activeOn (?f(t \<mapsto> ?k)) i \<longleftrightarrow> i \<in> set (taskKeys k) \<or> activeOn ?f i" for i
    using held t by (auto simp: activeOn_split [where t = t])
  have get: "jm_get (lcTasks (setPhase ?s t k MutationPreparing)) = ?f(t \<mapsto> ?k)"
    by (auto simp: setPhase_def s)
  have zero: "mutationCount s i = 0" if "i \<in> set (taskKeys k)" for i
  proof -
    have "\<not> activeOn ?f i" using no [OF that] held(4) t by (simp add: activeOn_split [where t = t])
    then show ?thesis using lc_invD(4) [OF inv] by (simp add: counts_ok_def mutationCount_def)
  qed
  have "tasks_ok (?f(t \<mapsto> ?k))" using lc_invD(2) [OF inv] tk k by (auto simp: tasks_ok_def task_ok_def)
  moreover have "locks_ok (?f(t \<mapsto> ?k))"
    using locks t held full by (intro locks_upd) simp_all
  moreover have "counts_ok (?f(t \<mapsto> ?k)) (jm_get (activeMutations ?s))"
    using lc_invD(4) [OF inv] zero unfolding counts_ok_def on s by auto
  moreover have "work_ok (?f(t \<mapsto> ?k))"
    unfolding work_ok_def on
  proof (intro allI impI)
    fix u l i assume u: "(?f(t \<mapsto> ?k)) u = Some l" "inWork l" "i \<in> set (taskKeys l)"
    then have ut: "u \<noteq> t" and l: "?f u = Some l" using held(5) by (auto split: if_splits)
    have "i \<notin> set (taskKeys k)"
    proof
      assume "i \<in> set (taskKeys k)"
      then have "i \<in> set (lifeHeld k) \<inter> set (lifeHeld l)" using u work_holds [OF u(2)] full by simp
      with locks t l ut show False unfolding locks_ok_def by (metis empty_iff)
    qed
    then show "\<not> (i \<in> set (taskKeys k) \<or> activeOn ?f i)"
      using lc_invD(5) [OF inv] l u unfolding work_ok_def by blast
  qed
  moreover have "blocked_ok (?f(t \<mapsto> ?k)) (jm_get (idleWaiters ?s))"
    using lc_invD(6) [OF inv] by (auto simp: blocked_ok_def s)
  moreover have "waiters_ok (jm_get (activeMutations ?s)) (jm_get (idleWaiters ?s))"
    using lc_invD(7) [OF inv] by (auto simp: waiters_ok_def s)
  moreover have "\<forall>u l. (?f(t \<mapsto> ?k)) u = Some l \<longrightarrow> u < nextTask s"
    using inv t by (auto simp: lc_inv_def)
  ultimately show ?thesis using lc_invD(1) [OF inv] unfolding lc_inv_def get by (simp add: setPhase_def s(1-3))
qed

text \<open>Taking a set of keys off what a task waits for.\<close>

definition unblock :: "string set \<Rightarrow> lc_task \<Rightarrow> lc_task" where
  "unblock A k = (case taskPhase k of Blocked out \<Rightarrow> k\<lparr>taskPhase := Blocked (filter (\<lambda>i. i \<notin> A) out)\<rparr> | _ \<Rightarrow> k)"

lemma unblock_empty [simp]: "unblock {} k = k"
  by (cases k) (simp add: unblock_def split: lc_phase.splits)

lemma unblock_none [simp]: "map_option (unblock {}) x = x"
  by (cases x) simp_all

lemma unblock_unblock: "unblock A (unblock B k) = unblock (A \<union> B) k"
proof -
  have "(\<lambda>i. i \<notin> B \<and> i \<notin> A) = (\<lambda>i. i \<notin> A \<and> i \<notin> B)" by auto
  then show ?thesis by (simp add: unblock_def split: lc_phase.splits)
qed

lemma unblock_same [simp]:
  "taskKeys (unblock A k) = taskKeys k" "lifeHeld (unblock A k) = lifeHeld k" "mutationHeld (unblock A k) = mutationHeld k"
  "isActive (unblock A k) = isActive k" "inWork (unblock A k) = inWork k" "task_ok (unblock A k) = task_ok k"
  by (cases "taskPhase k"; simp add: unblock_def held_defs task_ok_def)+

lemma resolve_get:
  "jm_get (resolveWaiter i tasks u) t = (if t = u then map_option (unblock {i}) (jm_get tasks t) else jm_get tasks t)"
  by (auto simp: resolveWaiter_def unblock_def split: option.splits lc_phase.splits)

lemma resolve_wf: "jm_wf tasks \<Longrightarrow> jm_wf (resolveWaiter i tasks u)"
  by (simp add: resolveWaiter_def split: option.splits lc_phase.splits)

lemma resolves_get:
  "jm_get (foldl (resolveWaiter i) tasks ws) t
     = (if t \<in> set ws then map_option (unblock {i}) (jm_get tasks t) else jm_get tasks t)"
  by (induction ws arbitrary: tasks)
     (auto simp: resolve_get option.map_comp comp_def unblock_unblock option.map_ident cong: map_option_cong)

lemma resolves_wf: "jm_wf tasks \<Longrightarrow> jm_wf (foldl (resolveWaiter i) tasks ws)"
  by (induction ws arbitrary: tasks) (auto intro: resolve_wf)

lemma drop_kind_same:
  "lcTasks (dropKind kd s i) = lcTasks s \<and> nextTask (dropKind kd s i) = nextTask s
   \<and> idleWaiters (dropKind kd s i) = idleWaiters s \<and> activeMutations (dropKind kd s i) = activeMutations s
   \<and> activeMutationRuns (dropKind kd s i) = activeMutationRuns s"
  by (simp add: dropKind_def Let_def split: option.splits)

definition waits :: "lifecycle_state \<Rightarrow> string \<Rightarrow> nat \<Rightarrow> bool" where
  "waits s i t = (case jm_get (idleWaiters s) i of Some ws \<Rightarrow> t \<in> set ws | None \<Rightarrow> False)"

lemma deactivate_one:
  assumes "jm_get (activeMutations s) j = Some 1"
  shows "jm_get (lcTasks (deactivateIdentity kind s j)) t
      = map_option (unblock (if waits s j t then {j} else {})) (jm_get (lcTasks s) t)"
    and "jm_get (activeMutations (deactivateIdentity kind s j)) i = (if i = j then None else jm_get (activeMutations s) i)"
    and "jm_get (idleWaiters (deactivateIdentity kind s j)) i = (if i = j then None else jm_get (idleWaiters s) i)"
    and "nextTask (deactivateIdentity kind s j) = nextTask s"
    and "activeMutationRuns (deactivateIdentity kind s j) = activeMutationRuns s"
    and "jm_wf (lcTasks s) \<Longrightarrow> jm_wf (lcTasks (deactivateIdentity kind s j))"
proof -
  obtain s1 where s1: "s1 = (case kind of None \<Rightarrow> s | Some k \<Rightarrow> dropKind k s j)" by simp
  then have same: "lcTasks s1 = lcTasks s" "nextTask s1 = nextTask s" "idleWaiters s1 = idleWaiters s"
    "activeMutations s1 = activeMutations s" "activeMutationRuns s1 = activeMutationRuns s"
    using drop_kind_same by (auto split: option.splits)
  have d: "deactivateIdentity kind s j = s1\<lparr>activeMutations := jm_del j (activeMutations s1),
      idleWaiters := jm_del j (idleWaiters s1),
      lcTasks := foldl (resolveWaiter j) (lcTasks s1)
        (case jm_get (idleWaiters s1) j of Some ws \<Rightarrow> ws | None \<Rightarrow> [])\<rparr>"
    unfolding deactivateIdentity_def s1 [symmetric] Let_def using assms same(4) by simp
  show "jm_get (lcTasks (deactivateIdentity kind s j)) t
      = map_option (unblock (if waits s j t then {j} else {})) (jm_get (lcTasks s) t)"
    by (auto simp: d same resolves_get waits_def option.map_ident cong: map_option_cong split: option.splits)
  show "jm_wf (lcTasks s) \<Longrightarrow> jm_wf (lcTasks (deactivateIdentity kind s j))" by (simp add: d same resolves_wf)
  show "jm_get (activeMutations (deactivateIdentity kind s j)) i = (if i = j then None else jm_get (activeMutations s) i)"
    "jm_get (idleWaiters (deactivateIdentity kind s j)) i = (if i = j then None else jm_get (idleWaiters s) i)"
    "nextTask (deactivateIdentity kind s j) = nextTask s"
    "activeMutationRuns (deactivateIdentity kind s j) = activeMutationRuns s"
    by (simp_all add: d same)
qed

lemma deactivate_effect:
  "distinct ids \<Longrightarrow> \<forall>i \<in> set ids. jm_get (activeMutations s) i = Some 1 \<Longrightarrow> jm_wf (lcTasks s) \<Longrightarrow>
   (\<forall>t. jm_get (lcTasks (foldl (deactivateIdentity kind) s ids)) t
          = map_option (unblock {i \<in> set ids. waits s i t}) (jm_get (lcTasks s) t))
   \<and> (\<forall>i. jm_get (activeMutations (foldl (deactivateIdentity kind) s ids)) i
          = (if i \<in> set ids then None else jm_get (activeMutations s) i))
   \<and> (\<forall>i. jm_get (idleWaiters (foldl (deactivateIdentity kind) s ids)) i
          = (if i \<in> set ids then None else jm_get (idleWaiters s) i))
   \<and> nextTask (foldl (deactivateIdentity kind) s ids) = nextTask s
   \<and> activeMutationRuns (foldl (deactivateIdentity kind) s ids) = activeMutationRuns s
   \<and> jm_wf (lcTasks (foldl (deactivateIdentity kind) s ids))"
proof (induction ids arbitrary: s)
  case (Cons j ids)
  let ?s = "deactivateIdentity kind s j"
  have j: "jm_get (activeMutations s) j = Some 1" using Cons.prems by simp
  note one = deactivate_one [OF j, where kind = kind]
  have "\<forall>i \<in> set ids. jm_get (activeMutations ?s) i = Some 1" using Cons.prems one(2) by auto
  then have IH: "(\<forall>t. jm_get (lcTasks (foldl (deactivateIdentity kind) ?s ids)) t
          = map_option (unblock {i \<in> set ids. waits ?s i t}) (jm_get (lcTasks ?s) t))
   \<and> (\<forall>i. jm_get (activeMutations (foldl (deactivateIdentity kind) ?s ids)) i
          = (if i \<in> set ids then None else jm_get (activeMutations ?s) i))
   \<and> (\<forall>i. jm_get (idleWaiters (foldl (deactivateIdentity kind) ?s ids)) i
          = (if i \<in> set ids then None else jm_get (idleWaiters ?s) i))
   \<and> nextTask (foldl (deactivateIdentity kind) ?s ids) = nextTask ?s
   \<and> activeMutationRuns (foldl (deactivateIdentity kind) ?s ids) = activeMutationRuns ?s
   \<and> jm_wf (lcTasks (foldl (deactivateIdentity kind) ?s ids))"
    using Cons.prems one(6) by (intro Cons.IH) simp_all
  have w: "waits ?s i t = waits s i t" if "i \<in> set ids" for i t
    using that Cons.prems(1) by (auto simp: waits_def one(3))
  have sets: "{i \<in> set ids. waits ?s i t} \<union> (if waits s j t then {j} else {}) = {i \<in> set (j # ids). waits s i t}" for t
    using w by auto
  have "jm_get (lcTasks (foldl (deactivateIdentity kind) ?s ids)) t
      = map_option (unblock {i \<in> set (j # ids). waits s i t}) (jm_get (lcTasks s) t)" for t
    unfolding sets [symmetric] using IH by (simp add: one(1) option.map_comp comp_def unblock_unblock)
  then show ?case using IH Cons.prems(1) by (simp add: one(2-5))
qed (simp add: option.map_ident)

lemma lc_inv_end:
  assumes inv: "lc_inv s" and t: "jm_get (lcTasks s) t = Some k" and k: "isActive k"
  shows "lc_inv (finishTask (deactivateMutation s t (taskKeys k) kind) t r)"
proof -
  let ?f = "jm_get (lcTasks s)" and ?ids = "set (taskKeys k)"
  let ?A = "\<lambda>u. {i \<in> ?ids. waits s i u}"
  let ?s = "foldl (deactivateIdentity kind) s (taskKeys k)"
  let ?e = "finishTask (deactivateMutation s t (taskKeys k) kind) t r"
  define g where "g u = (if u = t then None else map_option (unblock (?A u)) (?f u))" for u
  have dis: "distinct (taskKeys k)" using task_okD [OF inv t] by (simp add: task_ok_def strict_sorted_iff)
  have counts: "jm_get (activeMutations s) i = (if activeOn ?f i then Some 1 else None)" for i
    using lc_invD(4) [OF inv] by (simp add: counts_ok_def)
  have "\<forall>i \<in> ?ids. jm_get (activeMutations s) i = Some 1"
    using t k by (auto simp: counts activeOn_def)
  note eff = deactivate_effect [OF dis this lc_invD(1) [OF inv], of kind]
  have e: "jm_get (lcTasks ?e) = g"
    "\<And>i. jm_get (activeMutations ?e) i = (if i \<in> ?ids then None else jm_get (activeMutations s) i)"
    "\<And>i. jm_get (idleWaiters ?e) i = (if i \<in> ?ids then None else jm_get (idleWaiters s) i)"
    "nextTask ?e = nextTask s" "jm_wf (lcTasks ?e)"
    using eff by (auto simp: finishTask_def deactivateMutation_def Let_def g_def)
  have gD: "\<exists>l'. ?f u = Some l' \<and> u \<noteq> t \<and> l = unblock (?A u) l'" if "g u = Some l" for u l
    using that by (auto simp: g_def split: if_splits)
  have on: "activeOn g i \<longleftrightarrow> activeElsewhere ?f t i" for i
  proof
    assume "activeOn g i"
    then obtain u l where "g u = Some l" "isActive l" "i \<in> set (taskKeys l)" by (auto simp: activeOn_def)
    then show "activeElsewhere ?f t i" using gD [of u l] by (auto simp: activeElsewhere_def)
  next
    assume "activeElsewhere ?f t i"
    then obtain u l where u: "u \<noteq> t" "?f u = Some l" "isActive l" "i \<in> set (taskKeys l)"
      by (auto simp: activeElsewhere_def)
    then have "g u = Some (unblock (?A u) l)" by (simp add: g_def)
    with u(3,4) show "activeOn g i" unfolding activeOn_def by (metis unblock_same(1,4))
  qed
  have mine: "\<not> activeElsewhere ?f t i" if "i \<in> ?ids" for i
    using that active_holds [OF k] by (intro locks_elsewhere [OF lc_invD(3) [OF inv] t]) simp
  have others: "activeElsewhere ?f t i \<longleftrightarrow> activeOn ?f i" if "i \<notin> ?ids" for i
    using that t by (simp add: activeOn_split [where t = t])
  have "tasks_ok g" using lc_invD(2) [OF inv] gD unfolding tasks_ok_def by (metis unblock_same(6))
  moreover have "locks_ok g"
    unfolding locks_ok_def
  proof (intro allI impI)
    fix u l v m assume "g u = Some l" "g v = Some m" "u \<noteq> v"
    with gD obtain l' m' where "?f u = Some l'" "?f v = Some m'" "l = unblock (?A u) l'" "m = unblock (?A v) m'" by blast
    with lc_invD(3) [OF inv] \<open>u \<noteq> v\<close>
    show "set (lifeHeld l) \<inter> set (lifeHeld m) = {} \<and> set (mutationHeld l) \<inter> set (mutationHeld m) = {}"
      unfolding locks_ok_def by simp
  qed
  moreover have "counts_ok g (jm_get (activeMutations ?e))"
    using mine others unfolding counts_ok_def e(2) on counts by auto
  moreover have "work_ok g"
    unfolding work_ok_def on
  proof (intro allI impI)
    fix u l i assume "g u = Some l" "inWork l" "i \<in> set (taskKeys l)"
    then have "\<not> activeOn ?f i" using gD [of u l] lc_invD(5) [OF inv] unfolding work_ok_def by (metis unblock_same(1,5))
    then show "\<not> activeElsewhere ?f t i" by (auto simp: activeOn_split [where t = t])
  qed
  moreover have "blocked_ok g (jm_get (idleWaiters ?e))"
    unfolding blocked_ok_def
  proof (intro allI impI)
    fix u l out i assume u: "g u = Some l" "taskPhase l = Blocked out" "i \<in> set out"
    then obtain l' where l': "?f u = Some l'" "l = unblock (?A u) l'" using gD by blast
    then obtain out' where o: "taskPhase l' = Blocked out'" "out = filter (\<lambda>i. i \<notin> ?A u) out'"
      using u(2) by (auto simp: unblock_def split: lc_phase.splits)
    with u(3) have "i \<in> set out'" "i \<notin> ?A u" by auto
    then obtain ws where "jm_get (idleWaiters s) i = Some ws" "u \<in> set ws"
      using lc_invD(6) [OF inv] l' o(1) unfolding blocked_ok_def by blast
    with \<open>i \<notin> ?A u\<close> show "\<exists>ws. jm_get (idleWaiters ?e) i = Some ws \<and> u \<in> set ws"
      unfolding e(3) by (auto simp: waits_def)
  qed
  moreover have "waiters_ok (jm_get (activeMutations ?e)) (jm_get (idleWaiters ?e))"
    using lc_invD(7) [OF inv] unfolding waiters_ok_def e(2,3) by auto
  moreover have "\<forall>u l. g u = Some l \<longrightarrow> u < nextTask s"
  proof (intro allI impI)
    fix u l assume "g u = Some l"
    then obtain l' where "?f u = Some l'" using gD by blast
    with inv show "u < nextTask s" unfolding lc_inv_def by blast
  qed
  ultimately show ?thesis unfolding lc_inv_def e(1,4) using e(5) by blast
qed

section \<open>Every step keeps the invariant\<close>

lemma nth_keys: "n < length (taskKeys k) \<Longrightarrow> set (take (n + 1) (taskKeys k)) - set (take n (taskKeys k)) \<subseteq> {taskKeys k ! n}"
  by (auto simp: take_Suc_conv_app_nth)

lemma lc_inv_advance: "lc_inv s \<Longrightarrow> lc_inv (advanceTask s t)"
proof (cases "jm_get (lcTasks s) t")
  case (Some k)
  assume inv: "lc_inv s"
  note tk = task_okD [OF inv Some]
  note phase = lc_inv_phase [OF inv Some]
  have ends: "lc_inv (finishTask s t r)" if "\<not> isActive k" for r
    using that Some by (intro lc_inv_finish [OF inv]) simp
  show ?thesis
  proof (cases "taskPhase k")
    case (Blocked out)
    with Some inv lc_inv_try [OF inv Some Blocked] show ?thesis by (simp add: advanceTask_def)
  next
    case (Locking n)
    have free: "lc_inv (setPhase s t k (Locking (n + 1)))" if "n < length (taskKeys k)" "lifeFree s (taskKeys k ! n)"
      using that nth_keys [OF that(1)] Locking tk by (intro phase) (auto simp: held_defs task_ok_def)
    have again: "lc_inv (setPhase s t k (Blocked []))"
      using Locking tk by (intro phase) (auto simp: held_defs task_ok_def)
    have go: "lc_inv (setPhase s t k Running)" if "\<not> hasActiveSessionLifecycleMutation s (taskKeys k)" "\<not> n < length (taskKeys k)"
      using that Locking tk by (intro phase) (auto simp: held_defs task_ok_def has_active_iff [OF inv])
    from Locking Some inv free again go ends show ?thesis by (simp add: advanceTask_def isActive_def)
  next
    case (MutationLocking n)
    have free: "lc_inv (setPhase s t k (MutationLocking (n + 1)))" if "n < length (taskKeys k)" "mutationFree s (taskKeys k ! n)"
      using that nth_keys [OF that(1)] MutationLocking tk by (intro phase) (auto simp: held_defs task_ok_def)
    have go: "lc_inv (setPhase s t k (Activating 0))" if "\<not> n < length (taskKeys k)"
      using that MutationLocking tk by (intro phase) (auto simp: held_defs task_ok_def)
    from MutationLocking Some inv free go show ?thesis by (simp add: advanceTask_def)
  next
    case (Activating n)
    have free: "lc_inv (setPhase s t k (Activating (n + 1)))" if "n < length (taskKeys k)" "lifeFree s (taskKeys k ! n)"
      using that nth_keys [OF that(1)] Activating tk by (intro phase) (auto simp: held_defs task_ok_def)
    from Activating Some inv free lc_inv_activate [OF inv Some Activating] ends show ?thesis
      by (simp add: advanceTask_def isActive_def)
  next
    case (BodyLocking n)
    have free: "lc_inv (setPhase s t k (BodyLocking (n + 1)))" if "n < length (taskKeys k)" "lifeFree s (taskKeys k ! n)"
      using that nth_keys [OF that(1)] BodyLocking tk by (intro phase) (auto simp: held_defs task_ok_def)
    have go: "lc_inv (setPhase s t k Body)" if "\<not> n < length (taskKeys k)"
      using that BodyLocking tk by (intro phase) (auto simp: held_defs task_ok_def)
    from BodyLocking Some inv free go show ?thesis by (simp add: advanceTask_def)
  next
    case (Ending n)
    have free: "lc_inv (setPhase s t k (Ending (n + 1)))" if "n < length (taskKeys k)" "lifeFree s (taskKeys k ! n)"
      using that nth_keys [OF that(1)] Ending tk by (intro phase) (auto simp: held_defs task_ok_def)
    have "isActive k" using Ending by (simp add: isActive_def)
    from Ending Some inv free lc_inv_end [OF inv Some this] show ?thesis by (simp add: advanceTask_def)
  qed (use Some inv in \<open>simp_all add: advanceTask_def\<close>)
qed (simp add: advanceTask_def)

lemma lc_inv_assert: "lc_inv s \<Longrightarrow> lc_inv (assertSettles s t ok gw)"
proof (cases "jm_get (lcTasks s) t")
  case (Some k)
  assume inv: "lc_inv s"
  show ?thesis
  proof (cases "taskPhase k = Running \<and> (\<exists>oi. taskKind k = AdmissionRun oi)")
    case True
    then obtain oi where k: "taskPhase k = Running" "taskKind k = AdmissionRun oi" by blast
    obtain a s1 where r: "registerAdmission s (taskKeys k) oi = (a, s1)" by fastforce
    then have s1: "same_tasks s s1" using same_register [of s "taskKeys k" oi] by simp
    then have inv1: "lc_inv s1" and t1: "jm_get (lcTasks s1) t = Some k"
      using same_tasks_inv [OF s1] inv Some s1 by (simp_all add: same_tasks_def)
    have inv2: "lc_inv (releaseAdmission s1 a)" "jm_get (lcTasks (releaseAdmission s1 a)) t = Some k"
      using same_tasks_inv [OF same_release [of s1 a]] inv1 t1 same_release [of s1 a] by (simp_all add: same_tasks_def)
    have idle: "\<not> isActive k" using k by (simp add: isActive_def)
    have "lc_inv (finishTask s t x)" "lc_inv (finishTask (releaseAdmission s1 a) t x)" for x
      using idle Some inv2 by (auto intro!: lc_inv_finish inv)
    moreover have "lc_inv (setPhase s1 t k (Barrier a False))"
      using k task_okD [OF inv Some] by (intro lc_inv_phase [OF inv1 t1]) (auto simp: held_defs task_ok_def)
    ultimately show ?thesis using Some k r by (simp add: assertSettles_def)
  next
    case False
    then have "assertSettles s t ok gw = s"
      using Some by (auto simp: assertSettles_def split: lc_phase.splits lc_kind.splits)
    with inv show ?thesis by simp
  qed
qed (simp add: assertSettles_def)

lemma lc_inv_release_finish:
  assumes "lc_inv s" and "jm_get (lcTasks s) t = Some k" and "\<not> isActive k"
  shows "lc_inv (finishTask (releaseAdmission s a) t r)" "lc_inv (finishTask s t r)"
proof -
  have "lc_inv (releaseAdmission s a)" "jm_get (lcTasks (releaseAdmission s a)) t = Some k"
    using same_tasks_inv [OF same_release [of s a]] assms same_release [of s a] by (simp_all add: same_tasks_def)
  with assms show "lc_inv (finishTask (releaseAdmission s a) t r)" "lc_inv (finishTask s t r)"
    by (auto intro!: lc_inv_finish)
qed

lemma lc_inv_callbacks:
  assumes inv: "lc_inv s"
  shows "lc_inv (barrierStarts s t)" "lc_inv (barrierSettles s t ok)" "lc_inv (runSettles s t)" "lc_inv (prepareSettles s t ok)"
    "lc_inv (abortTask s t)"
proof -
  have "lc_inv (barrierStarts s t) \<and> lc_inv (barrierSettles s t ok) \<and> lc_inv (runSettles s t)
    \<and> lc_inv (prepareSettles s t ok) \<and> lc_inv (abortTask s t)"
  proof (cases "jm_get (lcTasks s) t")
    case (Some k)
    note tk = task_okD [OF inv Some]
    note phase = lc_inv_phase [OF inv Some]
    have abort: "lc_inv (s\<lparr>lcTasks := jm_set t (k\<lparr>taskAborted := True\<rparr>) (lcTasks s)\<rparr>)"
      using tk lc_invD(6) [OF inv] Some
      by (intro lc_inv_put [OF inv Some]) (auto simp: held_defs task_ok_def blocked_ok_def split: lc_phase.splits)
    have p: "taskPhase k = Barrier a st \<Longrightarrow> lc_inv (setPhase s t k (Barrier a True))"
      "taskPhase k = Body \<Longrightarrow> lc_inv (setPhase s t k (Ending 0))"
      "taskPhase k = MutationPreparing \<Longrightarrow> lc_inv (setPhase s t k (Ending 0))"
      "taskPhase k = MutationPreparing \<Longrightarrow> lc_inv (setPhase s t k (BodyLocking 0))" for a st
      using tk by (intro phase; auto simp: held_defs task_ok_def)+
    note fin = lc_inv_release_finish [OF inv Some]
    show ?thesis
      using Some inv p fin abort
      by (cases "taskPhase k")
         (auto simp: barrierStarts_def barrierSettles_def runSettles_def prepareSettles_def abortTask_def isActive_def
           split: bool.splits lc_kind.splits)
  qed (simp add: barrierStarts_def barrierSettles_def runSettles_def prepareSettles_def abortTask_def inv)
  then show "lc_inv (barrierStarts s t)" "lc_inv (barrierSettles s t ok)" "lc_inv (runSettles s t)"
    "lc_inv (prepareSettles s t ok)" "lc_inv (abortTask s t)" by auto
qed

lemma lc_inv_step: "lc_inv s \<Longrightarrow> lc_inv (lc_step s e)"
proof (cases e)
  case (StartLifecycle scope ids ab)
  then show "lc_inv s \<Longrightarrow> ?thesis" by (simp add: lc_inv_start)
next
  case (StartAdmission scope ids oi ab gw)
  then show "lc_inv s \<Longrightarrow> ?thesis" by (simp add: lc_inv_start lc_inv_refuse beginSessionWorkAdmission_def)
qed (simp_all add: lc_inv_mutation lc_inv_advance lc_inv_assert lc_inv_callbacks same_tasks_inv [OF same_release]
      same_tasks_inv [OF same_create] same_tasks_inv [OF same_consume] same_tasks_inv [OF same_cancel]
      same_tasks_inv [OF same_interrupt])

lemma lc_inv_initial: "lc_inv initial_lifecycle"
  by (simp add: initial_lifecycle_def lc_inv_def tasks_ok_def locks_ok_def counts_ok_def activeOn_def work_ok_def
      blocked_ok_def waiters_ok_def)

interpretation lcm: machine lc_step initial_lifecycle lc_inv
  by unfold_locales (rule lc_inv_initial, rule lc_inv_step)

section \<open>Progress\<close>

definition awaitsCallback :: "lc_task \<Rightarrow> bool" where
  "awaitsCallback k =
     (case taskPhase k of Running \<Rightarrow> True | Barrier a b \<Rightarrow> True | MutationPreparing \<Rightarrow> True | Body \<Rightarrow> True | _ \<Rightarrow> False)"

definition lifeIndex :: "lc_task \<Rightarrow> nat option" where
  "lifeIndex k =
     (case taskPhase k of Locking n \<Rightarrow> Some n | Activating n \<Rightarrow> Some n | BodyLocking n \<Rightarrow> Some n | Ending n \<Rightarrow> Some n
      | _ \<Rightarrow> None)"

definition canMove :: "lifecycle_state \<Rightarrow> bool" where
  "canMove s \<longleftrightarrow> (\<exists>t k. jm_get (lcTasks s) t = Some k \<and> (awaitsCallback k \<or> advanceTask s t \<noteq> s))"

lemma finish_changes: "outcomes s' = outcomes s \<Longrightarrow> finishTask s' t r \<noteq> s"
  by (auto simp: finishTask_def dest!: arg_cong [where f = outcomes])

lemma phase_same: "setPhase s' t k p = s \<Longrightarrow> jm_get (lcTasks s) t = Some k' \<Longrightarrow> taskPhase k' = p"
  by (auto simp: setPhase_def)

lemma deactivate_outcomes: "outcomes (deactivateMutation s run ids kind) = outcomes s"
proof -
  have "outcomes (foldl (deactivateIdentity kind) s ids) = outcomes s"
    by (induction ids arbitrary: s)
       (auto simp: deactivateIdentity_def dropKind_def Let_def split: option.splits)
  then show ?thesis by (simp add: deactivateMutation_def Let_def)
qed

lemma lock_step_moves:
  assumes "jm_get (lcTasks s) t = Some k" and "lifeIndex k = Some n"
    and "n < length (taskKeys k) \<Longrightarrow> lifeFree s (taskKeys k ! n)"
  shows "advanceTask s t \<noteq> s"
  using assms
  by (auto simp: lifeIndex_def advanceTask_def finish_changes deactivate_outcomes dest!: phase_same
      split: lc_phase.splits if_splits)

lemma held_index:
  assumes "i \<in> set (lifeHeld k)"
  shows "awaitsCallback k \<or> (\<exists>n. lifeIndex k = Some n \<and> i \<in> set (take n (taskKeys k)))"
  using assms by (auto simp: lifeHeld_def awaitsCallback_def lifeIndex_def split: lc_phase.splits)

lemma increasing_keys:
  "sorted_wrt (<) (xs :: string list) \<Longrightarrow> i \<in> set (take n xs) \<Longrightarrow> n < length xs \<Longrightarrow> i < xs ! n"
  by (auto simp: in_set_conv_nth sorted_wrt_iff_nth_less)

lemma life_progress:
  assumes inv: "lc_inv s" and t: "jm_get (lcTasks s) t = Some k" "lifeIndex k = Some n"
  shows "canMove s"
proof (rule ccontr)
  assume stuck: "\<not> canMove s"
  let ?f = "jm_get (lcTasks s)"
  let ?W = "{i. \<exists>t k n. ?f t = Some k \<and> lifeIndex k = Some n \<and> n < length (taskKeys k) \<and> i = taskKeys k ! n}"
  have short: "n < length (taskKeys k) \<and> \<not> lifeFree s (taskKeys k ! n)" if "?f t = Some k" "lifeIndex k = Some n" for t k n
    using that stuck lock_step_moves [OF that] by (auto simp: canMove_def)
  have "?W \<subseteq> (\<Union>k \<in> ran ?f. set (taskKeys k))" by (auto simp: ran_def)
  moreover have "finite (ran ?f)" by (simp add: finite_ran finite_dom_map_of)
  ultimately have fin: "finite ?W" by (meson finite_UN_I finite_set finite_subset)
  have "taskKeys k ! n \<in> ?W" using t short [OF t] by blast
  then have "Max ?W \<in> ?W" using fin by (intro Max_in) auto
  then obtain u l m where u: "?f u = Some l" "lifeIndex l = Some m" and M: "Max ?W = taskKeys l ! m" by blast
  then have "\<not> lifeFree s (Max ?W)" using short [OF u] by simp
  then obtain v p where v: "?f v = Some p" "Max ?W \<in> set (lifeHeld p)"
    using free_iff(1) [OF lc_invD(1) [OF inv]] by auto
  moreover have "\<not> awaitsCallback p" using stuck v(1) by (auto simp: canMove_def)
  ultimately obtain q where q: "lifeIndex p = Some q" "Max ?W \<in> set (take q (taskKeys p))"
    using held_index by blast
  have "q < length (taskKeys p)" using short [OF v(1) q(1)] by simp
  moreover from this have "Max ?W < taskKeys p ! q"
    using task_okD [OF inv v(1)] q(2) by (intro increasing_keys) (simp_all add: task_ok_def)
  moreover have "taskKeys p ! q \<in> ?W" using v q \<open>q < length (taskKeys p)\<close> by blast
  ultimately show False using Max_ge [OF fin, of "taskKeys p ! q"] by simp
qed

lemma mutation_holder:
  assumes "i \<in> set (mutationHeld k)"
  shows "awaitsCallback k \<or> lifeIndex k \<noteq> None \<or> (\<exists>n. taskPhase k = MutationLocking n \<and> i \<in> set (take n (taskKeys k)))"
  using assms by (auto simp: mutationHeld_def awaitsCallback_def lifeIndex_def split: lc_phase.splits)

lemma mutation_progress:
  assumes inv: "lc_inv s" and t: "jm_get (lcTasks s) t = Some k" "taskPhase k = MutationLocking n"
  shows "canMove s"
proof (rule ccontr)
  assume stuck: "\<not> canMove s"
  let ?f = "jm_get (lcTasks s)"
  let ?W = "{i. \<exists>t k n. ?f t = Some k \<and> taskPhase k = MutationLocking n \<and> n < length (taskKeys k) \<and> i = taskKeys k ! n}"
  have short: "n < length (taskKeys k) \<and> \<not> mutationFree s (taskKeys k ! n)"
    if "?f t = Some k" "taskPhase k = MutationLocking n" for t k n
  proof -
    have still: "advanceTask s t = s" using stuck that(1) by (auto simp: canMove_def)
    then show ?thesis using that by (auto simp: advanceTask_def dest!: phase_same split: if_splits)
  qed
  have "?W \<subseteq> (\<Union>k \<in> ran ?f. set (taskKeys k))" by (auto simp: ran_def)
  moreover have "finite (ran ?f)" by (simp add: finite_ran finite_dom_map_of)
  ultimately have fin: "finite ?W" by (meson finite_UN_I finite_set finite_subset)
  have "taskKeys k ! n \<in> ?W" using t short [OF t] by blast
  then have "Max ?W \<in> ?W" using fin by (intro Max_in) auto
  then obtain u l m where u: "?f u = Some l" "taskPhase l = MutationLocking m" and M: "Max ?W = taskKeys l ! m" by blast
  then have "\<not> mutationFree s (Max ?W)" using short [OF u] by simp
  then obtain v p where v: "?f v = Some p" "Max ?W \<in> set (mutationHeld p)"
    using free_iff(2) [OF lc_invD(1) [OF inv]] by auto
  moreover have "\<not> awaitsCallback p" using stuck v(1) by (auto simp: canMove_def)
  moreover have "lifeIndex p = None" using life_progress [OF inv v(1)] stuck by (cases "lifeIndex p") auto
  ultimately obtain q where q: "taskPhase p = MutationLocking q" "Max ?W \<in> set (take q (taskKeys p))"
    using mutation_holder by blast
  have "q < length (taskKeys p)" using short [OF v(1) q(1)] by simp
  moreover from this have "Max ?W < taskKeys p ! q"
    using task_okD [OF inv v(1)] q(2) by (intro increasing_keys) (simp_all add: task_ok_def)
  moreover have "taskKeys p ! q \<in> ?W" using v q \<open>q < length (taskKeys p)\<close> by blast
  ultimately show False using Max_ge [OF fin, of "taskKeys p ! q"] by simp
qed

lemma blocked_progress:
  assumes inv: "lc_inv s" and t: "jm_get (lcTasks s) t = Some k" "taskPhase k = Blocked out"
  shows "canMove s"
proof (rule ccontr)
  assume stuck: "\<not> canMove s"
  let ?f = "jm_get (lcTasks s)"
  have idle: "\<not> activeOn ?f i" for i
  proof
    assume "activeOn ?f i"
    then obtain u l where u: "?f u = Some l" "isActive l" by (auto simp: activeOn_def)
    then have "awaitsCallback l \<or> lifeIndex l \<noteq> None"
      by (auto simp: isActive_def awaitsCallback_def lifeIndex_def split: lc_phase.splits)
    then show False using stuck u(1) life_progress [OF inv u(1)] by (auto simp: canMove_def)
  qed
  then have none: "jm_get (activeMutations s) i = None" for i
    using lc_invD(4) [OF inv] by (simp add: counts_ok_def)
  then have "jm_get (idleWaiters s) i = None" for i
    using lc_invD(7) [OF inv] unfolding waiters_ok_def by blast
  then have "out = []" using lc_invD(6) [OF inv] t unfolding blocked_ok_def
    by (metis last_in_set option.distinct(1))
  moreover have "\<not> hasActiveSessionLifecycleMutation s (taskKeys k)" using none by (simp add: has_active_iff [OF inv])
  ultimately have "advanceTask s t \<noteq> s"
    using t by (auto simp: advanceTask_def tryLifecycle_def finish_changes dest!: phase_same)
  then show False using stuck t(1) by (auto simp: canMove_def)
qed

lemma always_progress:
  assumes inv: "lc_inv s" and "lcTasks s \<noteq> []"
  shows "canMove s"
proof -
  obtain a list where "lcTasks s = a # list" using assms(2) by (cases "lcTasks s") auto
  then have "jm_get (lcTasks s) (fst a) = Some (snd a)" by (cases a) simp
  then obtain t k where "jm_get (lcTasks s) t = Some k" by blast
  then consider "awaitsCallback k" | n where "lifeIndex k = Some n" | n where "taskPhase k = MutationLocking n"
    | out where "taskPhase k = Blocked out"
    by (cases "taskPhase k") (auto simp: awaitsCallback_def lifeIndex_def)
  then show ?thesis
    using blocked_progress [OF inv] mutation_progress [OF inv] life_progress [OF inv]
      \<open>jm_get (lcTasks s) t = Some k\<close>
    by cases (auto simp: canMove_def)
qed

section \<open>Properties\<close>

text \<open>
  C10. A lifecycle mutation has its sessions to itself: in every history, whatever the interleaving, while a
  mutation is active on a key no admission is being registered and no exclusive run works on that key, no other
  mutation is active on it, and its counter, which new work reads before it waits, is exactly one.
\<close>

theorem mutations_exclude_work:
  assumes "s = foldl lc_step initial_lifecycle es"
    and "jm_get (lcTasks s) t = Some k" and "jm_get (lcTasks s) u = Some l"
    and "isActive l" and "i \<in> set (taskKeys k)" and "i \<in> set (taskKeys l)"
  shows "\<not> inWork k \<and> (isActive k \<longrightarrow> t = u) \<and> mutationCount s i = 1"
proof -
  have inv: "lc_inv s" unfolding assms(1) by (rule lcm.run_inv)
  have on: "activeOn (jm_get (lcTasks s)) i" using assms by (auto simp: activeOn_def)
  then have "\<not> inWork k" using lc_invD(5) [OF inv] assms unfolding work_ok_def by blast
  moreover have "isActive k \<longrightarrow> t = u" using active_unique [OF lc_invD(3) [OF inv]] assms by blast
  moreover have "mutationCount s i = 1" using on lc_invD(4) [OF inv] by (simp add: counts_ok_def mutationCount_def)
  ultimately show ?thesis by blast
qed

definition busy_session :: "lc_event list" where
  "busy_session =
     [StartMutation (Some Compaction) ''store'' [Some ''a''] False, Advance 0, Advance 0, Advance 0, Advance 0,
      StartAdmission ''store'' [Some ''a'', Some ''b''] (Some 5) False False]"

lemma busy_tasks:
  "map (\<lambda>(t, k). (t, isActive k, inWork k, taskPhase k)) (lcTasks (foldl lc_step initial_lifecycle busy_session))
     = [(0, True, False, MutationPreparing), (1, False, False, Blocked [sessionIdentityKey ''store'' ''a''])]"
  "map (\<lambda>(t, k). taskKeys k) (lcTasks (foldl lc_step initial_lifecycle busy_session))
     = [[sessionIdentityKey ''store'' ''a''], [sessionIdentityKey ''store'' ''a'', sessionIdentityKey ''store'' ''b'']]"
  by code_simp+

lemma mutations_exclude_work_witness:
  "mutationCount (foldl lc_step initial_lifecycle busy_session) (sessionIdentityKey ''store'' ''a'') = 1"
proof -
  let ?s = "foldl lc_step initial_lifecycle busy_session"
  obtain l k where ts: "lcTasks ?s = [(0, l), (1, k)]" and l: "isActive l"
    and keys: "taskKeys l = [sessionIdentityKey ''store'' ''a'']"
      "taskKeys k = [sessionIdentityKey ''store'' ''a'', sessionIdentityKey ''store'' ''b'']"
    using busy_tasks by (auto simp: map_eq_Cons_conv)
  show ?thesis
    using mutations_exclude_work [OF refl, of busy_session 1 k 0 l "sessionIdentityKey ''store'' ''a''"] ts l keys by simp
qed

text \<open>
  C11. The locks never deadlock: in every history, whatever was started, aborted and handed off, some task that has
  not ended waits for an answer of its own callback, or can take its next step at once. Keys are taken in one order,
  mutation locks before lifecycle locks, and nobody waits for an idle session while holding a lock.
\<close>

theorem lifecycle_never_deadlocks:
  assumes "s = foldl lc_step initial_lifecycle es" and "lcTasks s \<noteq> []"
  shows "\<exists>t k. jm_get (lcTasks s) t = Some k \<and> (awaitsCallback k \<or> advanceTask s t \<noteq> s)"
  using always_progress [OF _ assms(2)] lcm.run_inv assms(1) unfolding canMove_def by blast

lemma lifecycle_never_deadlocks_witness:
  "\<exists>t k. jm_get (lcTasks (foldl lc_step initial_lifecycle busy_session)) t = Some k
     \<and> (awaitsCallback k \<or> advanceTask (foldl lc_step initial_lifecycle busy_session) t \<noteq> foldl lc_step initial_lifecycle busy_session)"
proof -
  have "lcTasks (foldl lc_step initial_lifecycle busy_session) \<noteq> []" using busy_tasks(1) by auto
  then show ?thesis by (rule lifecycle_never_deadlocks [OF refl])
qed

end
