(* ===== verification/SessionHandoff.thy ===== *)
theory SessionHandoff
  imports SessionExclusion
begin

text \<open>
  The admissions of \<open>SessionLifecycle\<close>: their index by key, their release, and the tokens that hand them to another
  caller.
\<close>

section \<open>The index of admissions and the hand-offs\<close>

text \<open>
  Every key lists exactly the admissions of that key that are not released; every hand-off token leads to an
  admission that is not released and that knows the token.
\<close>

definition index_ok :: "lifecycle_state \<Rightarrow> bool" where
  "index_ok s \<longleftrightarrow>
     (\<forall>a i. a \<in> set (admissionsAt s i) \<longleftrightarrow>
        (\<exists>w. workAdmissions s a = Some w \<and> \<not> workReleased w \<and> i \<in> set (workKeys w)))
     \<and> (\<forall>a. workAdmissions s a \<noteq> None \<longrightarrow> a < nextWork s)"

definition handoffs_ok :: "lifecycle_state \<Rightarrow> bool" where
  "handoffs_ok s \<longleftrightarrow>
     (\<forall>h a. jm_get (handoffs s) h = Some a \<longrightarrow>
        (\<exists>w. workAdmissions s a = Some w \<and> \<not> workReleased w \<and> h \<in> set (handoffIds w)))"

definition same_work :: "lifecycle_state \<Rightarrow> lifecycle_state \<Rightarrow> bool" where
  "same_work s s' \<longleftrightarrow> workAdmissions s' = workAdmissions s \<and> activeAdmissions s' = activeAdmissions s
     \<and> handoffs s' = handoffs s \<and> nextWork s' = nextWork s"

lemma same_work_ok: "same_work s s' \<Longrightarrow> index_ok s \<and> handoffs_ok s \<Longrightarrow> index_ok s' \<and> handoffs_ok s'"
  by (simp add: same_work_def index_ok_def handoffs_ok_def admissionsAt_def)

lemma same_work_foldl: "(\<And>s x. same_work s (g s x)) \<Longrightarrow> same_work s (foldl g s xs)"
  by (induction xs arbitrary: s) (auto simp: same_work_def)

lemma task_moves_keep_work:
  "same_work s (setPhase s t k p)" "same_work s (finishTask s t r)" "same_work s (spawnTask s k)"
  "same_work s (refuseTask s r)" "same_work s (s\<lparr>lcTasks := x\<rparr>)" "same_work s (s\<lparr>idleWaiters := y\<rparr>)"
  "same_work s (callInterrupt c s)"
  by (simp_all add: same_work_def setPhase_def finishTask_def spawnTask_def refuseTask_def callInterrupt_def split: option.splits)

lemma same_work_trans: "same_work s s' \<Longrightarrow> same_work s' s'' \<Longrightarrow> same_work s s''"
  by (simp add: same_work_def)

lemma same_work_refl: "same_work s s"
  by (simp add: same_work_def)

lemma try_keeps_work: "same_work s (tryLifecycle s t k)"
  by (auto simp: tryLifecycle_def waitForNormalizedSessionLifecycleMutationIdle_def Let_def
      intro: task_moves_keep_work same_work_trans [OF task_moves_keep_work(6)])

lemma mutations_keep_work:
  "same_work s (activateMutation s run ids kind)" "same_work s (deactivateMutation s run ids kind)"
proof -
  have "same_work s (activateIdentity kind s i)" for s i
    by (simp add: activateIdentity_def same_work_def Let_def split: option.splits)
  then have "same_work s (foldl (activateIdentity kind) s ids)" for s by (rule same_work_foldl)
  from this [of "s\<lparr>activeMutationRuns := addUnique run (activeMutationRuns s)\<rparr>"]
  show "same_work s (activateMutation s run ids kind)" by (simp add: activateMutation_def same_work_def)
  have "same_work s (deactivateIdentity kind s i)" for s i
    by (auto simp: deactivateIdentity_def dropKind_def same_work_def Let_def split: option.splits)
  then have "same_work s (foldl (deactivateIdentity kind) s ids)" by (rule same_work_foldl)
  then show "same_work s (deactivateMutation s run ids kind)" by (simp add: deactivateMutation_def same_work_def Let_def)
qed

lemma advance_keeps_work: "same_work s (advanceTask s t)"
proof -
  have "same_work s (setPhase (activateMutation s t ks kd) t k p)"
    "same_work s (finishTask (deactivateMutation s t ks kd) t r)" for ks kd k p r
    by (auto intro: same_work_trans mutations_keep_work task_moves_keep_work)
  then show ?thesis
    by (auto simp: advanceTask_def same_work_refl try_keeps_work task_moves_keep_work split: option.splits lc_phase.splits)
qed

text \<open>The operations on one admission.\<close>

lemma register_index:
  assumes "index_ok s" and "handoffs_ok s"
  shows "index_ok (snd (registerAdmission s ids oi)) \<and> handoffs_ok (snd (registerAdmission s ids oi))"
proof -
  let ?a = "nextWork s"
  let ?add = "\<lambda>s i. s\<lparr>activeAdmissions := jm_set i (addUnique ?a (admissionsAt s i)) (activeAdmissions s)\<rparr>"
  have add: "workAdmissions (foldl ?add s ids) = workAdmissions s \<and> nextWork (foldl ?add s ids) = nextWork s
      \<and> handoffs (foldl ?add s ids) = handoffs s
      \<and> (\<forall>i. set (admissionsAt (foldl ?add s ids) i) = set (admissionsAt s i) \<union> (if i \<in> set ids then {?a} else {}))" for s ids
    by (induction ids arbitrary: s) (auto simp: admissionsAt_def addUnique_def split: if_splits)
  let ?w = "\<lparr>handoffIds = [], workKeys = ids, interruptCallback = oi, interrupted = False, workReleased = False\<rparr>"
  let ?s = "s\<lparr>workAdmissions := (workAdmissions s)(?a \<mapsto> ?w), nextWork := ?a + 1\<rparr>"
  have r: "snd (registerAdmission s ids oi) = foldl ?add ?s ids" by (simp add: registerAdmission_def Let_def)
  have fresh: "workAdmissions s ?a = None" using assms(1) by (auto simp: index_ok_def)
  then have "?a \<notin> set (admissionsAt s i)" for i using assms(1) by (auto simp: index_ok_def)
  moreover have "admissionsAt ?s i = admissionsAt s i" for i by (simp add: admissionsAt_def)
  ultimately have "index_ok (foldl ?add ?s ids)"
    using assms(1) add [of ?s ids] fresh unfolding index_ok_def by (auto simp: less_Suc_eq)
  moreover have "handoffs_ok (foldl ?add ?s ids)"
    unfolding handoffs_ok_def
  proof (intro allI impI)
    fix h b assume "jm_get (handoffs (foldl ?add ?s ids)) h = Some b"
    then have "jm_get (handoffs s) h = Some b" using add [of ?s ids] by simp
    then obtain w where w: "workAdmissions s b = Some w" "\<not> workReleased w" "h \<in> set (handoffIds w)"
      using assms(2) unfolding handoffs_ok_def by blast
    with fresh have "b \<noteq> ?a" by auto
    with w show "\<exists>w. workAdmissions (foldl ?add ?s ids) b = Some w \<and> \<not> workReleased w \<and> h \<in> set (handoffIds w)"
      using add [of ?s ids] by simp
  qed
  ultimately show ?thesis unfolding r by blast
qed

lemma update_get: "workAdmissions (updateWork s a f) b = (if b = a then map_option f (workAdmissions s a) else workAdmissions s b)"
  by (simp add: updateWork_def split: option.splits)

lemma update_rest [simp]:
  "activeAdmissions (updateWork s a f) = activeAdmissions s" "handoffs (updateWork s a f) = handoffs s"
  "nextWork (updateWork s a f) = nextWork s" "admissionsAt (updateWork s a f) i = admissionsAt s i"
  by (simp_all add: updateWork_def admissionsAt_def split: option.splits)

lemma unindex_rest [simp]:
  "workAdmissions (foldl (unindexAdmission a) s ids) = workAdmissions s"
  "handoffs (foldl (unindexAdmission a) s ids) = handoffs s" "nextWork (foldl (unindexAdmission a) s ids) = nextWork s"
  by (induction ids arbitrary: s) (simp_all add: unindexAdmission_def Let_def)

lemma unindex_at:
  "set (admissionsAt (foldl (unindexAdmission a) s ids) i)
     = (if i \<in> set ids then set (admissionsAt s i) - {a} else set (admissionsAt s i))"
proof (induction ids arbitrary: s)
  case (Cons j ids)
  have "set (admissionsAt (unindexAdmission a s j) i) = (if i = j then set (admissionsAt s i) - {a} else set (admissionsAt s i))"
    by (auto simp: unindexAdmission_def admissionsAt_def Let_def filter_empty_conv)
  with Cons.IH [of "unindexAdmission a s j"] show ?case by auto
qed simp

lemma drop_tokens: "jm_get (foldl (\<lambda>m h. jm_del h m) m hs) h = (if h \<in> set hs then None else jm_get m h)"
  by (induction hs arbitrary: m) auto

lemma release_work:
  assumes "workAdmissions s a = Some w" and "\<not> workReleased w"
  shows "workAdmissions (releaseAdmission s a) b
      = (if b = a then Some (w\<lparr>workReleased := True, handoffIds := []\<rparr>) else workAdmissions s b)"
    and "jm_get (handoffs (releaseAdmission s a)) h = (if h \<in> set (handoffIds w) then None else jm_get (handoffs s) h)"
    and "set (admissionsAt (releaseAdmission s a) i)
      = (if i \<in> set (workKeys w) then set (admissionsAt s i) - {a} else set (admissionsAt s i))"
    and "nextWork (releaseAdmission s a) = nextWork s"
proof -
  let ?s = "foldl (unindexAdmission a) (updateWork s a (\<lambda>w. w\<lparr>workReleased := True\<rparr>)) (workKeys w)"
  have r: "releaseAdmission s a = clearSessionWorkAdmissionHandoffs ?s a" using assms by (simp add: releaseAdmission_def)
  have ids: "handoffIdsOf ?s a = handoffIds w" using assms by (simp add: handoffIdsOf_def update_get)
  show "workAdmissions (releaseAdmission s a) b
      = (if b = a then Some (w\<lparr>workReleased := True, handoffIds := []\<rparr>) else workAdmissions s b)"
    unfolding r clearSessionWorkAdmissionHandoffs_def update_get using assms by (simp add: update_get)
  show "jm_get (handoffs (releaseAdmission s a)) h = (if h \<in> set (handoffIds w) then None else jm_get (handoffs s) h)"
    unfolding r clearSessionWorkAdmissionHandoffs_def ids by (simp add: drop_tokens)
  show "set (admissionsAt (releaseAdmission s a) i)
      = (if i \<in> set (workKeys w) then set (admissionsAt s i) - {a} else set (admissionsAt s i))"
    unfolding r clearSessionWorkAdmissionHandoffs_def update_rest
    using unindex_at [of a "updateWork s a (\<lambda>w. w\<lparr>workReleased := True\<rparr>)" "workKeys w" i] by (simp add: admissionsAt_def)
  show "nextWork (releaseAdmission s a) = nextWork s"
    unfolding r clearSessionWorkAdmissionHandoffs_def by simp
qed

lemma release_ok: "index_ok s \<and> handoffs_ok s \<Longrightarrow> index_ok (releaseAdmission s a) \<and> handoffs_ok (releaseAdmission s a)"
proof (cases "\<exists>w. workAdmissions s a = Some w \<and> \<not> workReleased w")
  case False
  then have "releaseAdmission s a = s" by (auto simp: releaseAdmission_def split: option.splits)
  then show "index_ok s \<and> handoffs_ok s \<Longrightarrow> ?thesis" by simp
next
  case True
  assume ok: "index_ok s \<and> handoffs_ok s"
  from True obtain w where w: "workAdmissions s a = Some w" "\<not> workReleased w" by blast
  note r = release_work [OF w]
  have "index_ok (releaseAdmission s a)"
    unfolding index_ok_def r(1,4)
  proof (intro conjI allI impI)
    fix b i
    have "b \<in> set (admissionsAt s i) \<longleftrightarrow> (\<exists>w. workAdmissions s b = Some w \<and> \<not> workReleased w \<and> i \<in> set (workKeys w))"
      using ok by (simp add: index_ok_def)
    then show "(b \<in> set (admissionsAt (releaseAdmission s a) i)) =
        (\<exists>wa. (if b = a then Some (w\<lparr>workReleased := True, handoffIds := []\<rparr>) else workAdmissions s b) = Some wa
          \<and> \<not> workReleased wa \<and> i \<in> set (workKeys wa))"
      using w by (auto simp: r(3))
  next
    fix b
    assume "(if b = a then Some (w\<lparr>workReleased := True, handoffIds := []\<rparr>) else workAdmissions s b) \<noteq> None"
    then show "b < nextWork s" using ok w by (auto simp: index_ok_def split: if_splits)
  qed
  moreover have "handoffs_ok (releaseAdmission s a)"
    unfolding handoffs_ok_def r(1,2)
  proof (intro allI impI)
    fix h b assume h: "(if h \<in> set (handoffIds w) then None else jm_get (handoffs s) h) = Some b"
    then obtain v where v: "workAdmissions s b = Some v" "\<not> workReleased v" "h \<in> set (handoffIds v)"
      using ok unfolding handoffs_ok_def by (metis option.distinct(1))
    then have "b \<noteq> a" using h w by (auto split: if_splits)
    with v show "\<exists>wa. (if b = a then Some (w\<lparr>workReleased := True, handoffIds := []\<rparr>) else workAdmissions s b) = Some wa
        \<and> \<not> workReleased wa \<and> h \<in> set (handoffIds wa)" by auto
  qed
  ultimately show ?thesis by blast
qed

lemma touch_index:
  assumes "index_ok s" and same: "\<And>w. workKeys (f w) = workKeys w \<and> workReleased (f w) = workReleased w"
  shows "index_ok (updateWork (s\<lparr>handoffs := m\<rparr>) a f)"
proof -
  have live: "(\<exists>w. workAdmissions (updateWork (s\<lparr>handoffs := m\<rparr>) a f) b = Some w \<and> \<not> workReleased w \<and> i \<in> set (workKeys w))
      \<longleftrightarrow> (\<exists>w. workAdmissions s b = Some w \<and> \<not> workReleased w \<and> i \<in> set (workKeys w))" for b i
    using same by (cases "b = a"; cases "workAdmissions s a") (simp_all add: update_get)
  have "workAdmissions (updateWork (s\<lparr>handoffs := m\<rparr>) a f) b \<noteq> None \<longleftrightarrow> workAdmissions s b \<noteq> None" for b
    by (simp add: update_get)
  moreover have "admissionsAt (updateWork (s\<lparr>handoffs := m\<rparr>) a f) i = admissionsAt s i" for i
    by (simp add: admissionsAt_def)
  ultimately show ?thesis using assms(1) unfolding index_ok_def live by simp
qed

lemma take_handoff_ok:
  assumes "index_ok s \<and> handoffs_ok s"
  shows "index_ok (takeHandoff s h a) \<and> handoffs_ok (takeHandoff s h a)"
proof -
  have "handoffs_ok (takeHandoff s h a)"
    unfolding handoffs_ok_def takeHandoff_def
  proof (intro allI impI)
    fix g b assume "jm_get (handoffs (updateWork (s\<lparr>handoffs := jm_del h (handoffs s)\<rparr>) a
        (\<lambda>w. w\<lparr>handoffIds := filter (\<lambda>g. g \<noteq> h) (handoffIds w)\<rparr>))) g = Some b"
    then have g: "g \<noteq> h" "jm_get (handoffs s) g = Some b" by (auto split: if_splits)
    then obtain v where "workAdmissions s b = Some v" "\<not> workReleased v" "g \<in> set (handoffIds v)"
      using assms unfolding handoffs_ok_def by blast
    with g(1) show "\<exists>w. workAdmissions (updateWork (s\<lparr>handoffs := jm_del h (handoffs s)\<rparr>) a
          (\<lambda>w. w\<lparr>handoffIds := filter (\<lambda>g. g \<noteq> h) (handoffIds w)\<rparr>)) b = Some w \<and> \<not> workReleased w \<and> g \<in> set (handoffIds w)"
      by (cases "b = a") (simp_all add: update_get)
  qed
  with assms show ?thesis by (simp add: takeHandoff_def touch_index)
qed

lemma create_ok:
  assumes "index_ok s \<and> handoffs_ok s" and "workAdmissions s a = Some w" and "\<not> workReleased w"
  shows "index_ok (createSessionWorkAdmissionHandoff s a h) \<and> handoffs_ok (createSessionWorkAdmissionHandoff s a h)"
proof -
  have "handoffs_ok (createSessionWorkAdmissionHandoff s a h)"
    unfolding handoffs_ok_def createSessionWorkAdmissionHandoff_def
  proof (intro allI impI)
    fix g b assume "jm_get (handoffs (updateWork (s\<lparr>handoffs := jm_set h a (handoffs s)\<rparr>) a
        (\<lambda>w. w\<lparr>handoffIds := addUnique h (handoffIds w)\<rparr>))) g = Some b"
    then have g: "(if g = h then Some a else jm_get (handoffs s) g) = Some b" by simp
    have "\<exists>v. workAdmissions s b = Some v \<and> \<not> workReleased v \<and> (g = h \<and> b = a \<or> g \<in> set (handoffIds v))"
      using g assms unfolding handoffs_ok_def by (auto split: if_splits)
    then show "\<exists>w. workAdmissions (updateWork (s\<lparr>handoffs := jm_set h a (handoffs s)\<rparr>) a
          (\<lambda>w. w\<lparr>handoffIds := addUnique h (handoffIds w)\<rparr>)) b = Some w \<and> \<not> workReleased w \<and> g \<in> set (handoffIds w)"
      by (auto simp: update_get set_addUnique)
  qed
  with assms(1) show ?thesis by (simp add: createSessionWorkAdmissionHandoff_def touch_index)
qed

lemma touch_ok:
  assumes "index_ok s \<and> handoffs_ok s"
    and "\<And>w. workKeys (f w) = workKeys w \<and> workReleased (f w) = workReleased w \<and> handoffIds (f w) = handoffIds w"
  shows "index_ok (updateWork s a f) \<and> handoffs_ok (updateWork s a f)"
proof -
  have "index_ok (updateWork (s\<lparr>handoffs := handoffs s\<rparr>) a f)" using assms by (intro touch_index) auto
  moreover have "handoffs_ok (updateWork s a f)"
    using assms unfolding handoffs_ok_def by (fastforce simp: update_get)
  ultimately show ?thesis by simp
qed

lemma work_ok_step: "index_ok s \<and> handoffs_ok s \<Longrightarrow> index_ok (lc_step s e) \<and> handoffs_ok (lc_step s e)"
proof -
  assume ok: "index_ok s \<and> handoffs_ok s"
  have same: "same_work s s' \<Longrightarrow> index_ok s' \<and> handoffs_ok s'" for s' using same_work_ok [OF _ ok] by blast
  have finish: "index_ok s' \<and> handoffs_ok s' \<Longrightarrow> index_ok (finishTask s' t r) \<and> handoffs_ok (finishTask s' t r)"
    "index_ok s' \<and> handoffs_ok s' \<Longrightarrow> index_ok (setPhase s' t k p) \<and> handoffs_ok (setPhase s' t k p)"
    "index_ok s' \<and> handoffs_ok s' \<Longrightarrow> index_ok (callInterrupt c s') \<and> handoffs_ok (callInterrupt c s')"
    for s' t r k p c
    using same_work_ok task_moves_keep_work by blast+
  have start: "same_work s (runExclusiveSessionLifecycle s kd scope ids ab)" for kd scope ids ab
    by (auto simp: runExclusiveSessionLifecycle_def Let_def same_work_refl split: option.splits
        intro: same_work_trans [OF task_moves_keep_work(3) try_keeps_work])
  have interrupt: "index_ok s' \<and> handoffs_ok s' \<Longrightarrow>
      index_ok (foldl interruptAdmission s' as) \<and> handoffs_ok (foldl interruptAdmission s' as)" for s' as
  proof (induction as arbitrary: s')
    case (Cons a as)
    have "index_ok (interruptAdmission s' a) \<and> handoffs_ok (interruptAdmission s' a)"
      using Cons.prems touch_ok [OF Cons.prems, of "\<lambda>w. w\<lparr>interrupted := True\<rparr>"] finish(3)
      by (simp add: interruptAdmission_def split: option.splits)
    from Cons.IH [OF this] show ?case by simp
  qed simp
  show ?thesis
  proof (cases e)
    case (StartLifecycle scope ids ab)
    then show ?thesis using same [OF start] by simp
  next
    case (StartAdmission scope ids oi ab gw)
    then show ?thesis using same [OF start] same [OF task_moves_keep_work(4)] by (simp add: beginSessionWorkAdmission_def)
  next
    case (StartMutation kd scope ids ab)
    then show ?thesis
      using ok same [OF task_moves_keep_work(3)] same [OF task_moves_keep_work(4)]
      by (simp add: runExclusiveSessionLifecycleMutation_def split: option.splits)
  next
    case (Advance t)
    then show ?thesis using same [OF advance_keeps_work] by simp
  next
    case (AssertSettles t okay gw)
    have "index_ok (setPhase (snd (registerAdmission s ids oi)) t k p) \<and> handoffs_ok (setPhase (snd (registerAdmission s ids oi)) t k p)"
      "index_ok (finishTask (releaseAdmission (snd (registerAdmission s ids oi)) b) t r)
        \<and> handoffs_ok (finishTask (releaseAdmission (snd (registerAdmission s ids oi)) b) t r)" for ids oi k p b r
      using ok register_index [of s ids oi] by (auto intro!: finish(1,2) release_ok)
    then show ?thesis
      using AssertSettles ok finish(1) [OF ok]
      by (auto simp: assertSettles_def split: option.splits lc_phase.splits lc_kind.splits prod.splits) (metis snd_conv)+
  next
    case (ReleaseLease a)
    then show ?thesis using release_ok [OF ok] by simp
  next
    case (HandOff a uuid)
    then show ?thesis using ok create_ok [OF ok] by (auto simp: createHandoff_def split: option.splits)
  next
    case (ConsumeHandoff h scope ids oi)
    have "index_ok (updateWork (takeHandoff s h a) a (\<lambda>w. w\<lparr>interruptCallback := oi\<rparr>))
      \<and> handoffs_ok (updateWork (takeHandoff s h a) a (\<lambda>w. w\<lparr>interruptCallback := oi\<rparr>))" for h a
      using take_handoff_ok [OF ok] by (intro touch_ok) simp_all
    then show ?thesis
      using ConsumeHandoff ok finish(3)
      by (auto simp: consumeSessionWorkAdmissionHandoff_def Let_def split: option.splits)
  next
    case (CancelHandoff h)
    then show ?thesis
      using ok release_ok [OF take_handoff_ok [OF ok]]
      by (auto simp: cancelSessionWorkAdmissionHandoff_def Let_def split: option.splits)
  next
    case (Interrupt cur scope ids)
    then show ?thesis using ok interrupt [OF ok] by (auto simp: interruptSessionWorkAdmissions_def Let_def split: option.splits)
  qed (use ok finish release_ok [OF ok] same [OF task_moves_keep_work(5)] in
      \<open>auto simp: barrierStarts_def barrierSettles_def runSettles_def prepareSettles_def abortTask_def
         split: option.splits lc_phase.splits bool.splits lc_kind.splits\<close>)
qed

interpretation lcw: machine lc_step initial_lifecycle "\<lambda>s. index_ok s \<and> handoffs_ok s"
  by unfold_locales
    (simp add: initial_lifecycle_def index_ok_def handoffs_ok_def admissionsAt_def, rule work_ok_step)

section \<open>Properties\<close>

text \<open>The query for active work is right: it tells whether an admission that is not released has one of the keys.\<close>

lemma active_work_query:
  assumes "s = foldl lc_step initial_lifecycle es" and "normalizeSessionIdentities scope ids = Some keys"
  shows "isSessionWorkAdmissionActive s scope ids = Some True \<longleftrightarrow>
     (\<exists>a w. workAdmissions s a = Some w \<and> \<not> workReleased w \<and> set keys \<inter> set (workKeys w) \<noteq> {})"
proof -
  have idx: "index_ok s" using lcw.run_inv assms(1) by blast
  have "isSessionWorkAdmissionActive s scope ids = Some True \<longleftrightarrow> (\<exists>i \<in> set keys. \<exists>a. a \<in> set (admissionsAt s i))"
    using assms(2) by (simp add: isSessionWorkAdmissionActive_def list_ex_iff) (metis ex_in_conv set_empty)
  also have "\<dots> \<longleftrightarrow> (\<exists>i \<in> set keys. \<exists>a w. workAdmissions s a = Some w \<and> \<not> workReleased w \<and> i \<in> set (workKeys w))"
    using idx unfolding index_ok_def by simp
  finally show ?thesis by blast
qed

text \<open>
  A token that is unknown stays unknown through every event that does not register that very token.
\<close>

lemma released_token:
  "jm_get (handoffs s) h = None \<Longrightarrow> jm_get (handoffs (releaseAdmission s a)) h = None"
proof (cases "\<exists>w. workAdmissions s a = Some w \<and> \<not> workReleased w")
  case False
  then have "releaseAdmission s a = s" by (auto simp: releaseAdmission_def split: option.splits)
  then show "jm_get (handoffs s) h = None \<Longrightarrow> ?thesis" by simp
next
  case True
  then show "jm_get (handoffs s) h = None \<Longrightarrow> ?thesis" using release_work(2) [of s a] by auto
qed

lemma plain_moves_handoffs [simp]:
  "handoffs (setPhase s t k p) = handoffs s" "handoffs (finishTask s t r) = handoffs s"
  "handoffs (spawnTask s k) = handoffs s" "handoffs (refuseTask s r) = handoffs s" "handoffs (callInterrupt c s) = handoffs s"
  using task_moves_keep_work by (simp_all only: same_work_def)

lemma register_handoffs [simp]: "handoffs (snd (registerAdmission s ids oi)) = handoffs s"
proof -
  have "handoffs (foldl (\<lambda>sa i. sa\<lparr>activeAdmissions := jm_set i (addUnique a (admissionsAt sa i)) (activeAdmissions sa)\<rparr>) t xs)
      = handoffs t" for a t xs
    by (induction xs arbitrary: t) simp_all
  then show ?thesis by (simp add: registerAdmission_def Let_def)
qed

lemma interrupts_handoffs [simp]: "handoffs (foldl interruptAdmission s as) = handoffs s"
  by (induction as arbitrary: s) (simp_all add: interruptAdmission_def split: option.split)

lemma unknown_token_step:
  assumes none: "jm_get (handoffs s) h = None" and e: "\<And>a. e \<noteq> HandOff a h"
  shows "jm_get (handoffs (lc_step s e)) h = None"
proof -
  have same: "same_work s s' \<Longrightarrow> jm_get (handoffs s') h = None" for s' using none by (simp add: same_work_def)
  have start: "same_work s (runExclusiveSessionLifecycle s kd scope ids ab)" for kd scope ids ab
    by (auto simp: runExclusiveSessionLifecycle_def Let_def same_work_refl split: option.splits
        intro: same_work_trans [OF task_moves_keep_work(3) try_keeps_work])
  show ?thesis
  proof (cases e)
    case (StartLifecycle scope ids ab)
    then show ?thesis using same [OF start] by simp
  next
    case (StartAdmission scope ids oi ab gw)
    then show ?thesis using same [OF start] none by (simp add: beginSessionWorkAdmission_def)
  next
    case (StartMutation kd scope ids ab)
    then show ?thesis using none by (simp add: runExclusiveSessionLifecycleMutation_def split: option.splits)
  next
    case (Advance t)
    then show ?thesis using same [OF advance_keeps_work] by simp
  next
    case (AssertSettles t okay gw)
    have "jm_get (handoffs (releaseAdmission (snd (registerAdmission s ids oi)) b)) h = None" for ids oi b
      using none by (intro released_token) simp
    with AssertSettles none show ?thesis
      by (auto simp: assertSettles_def split: option.splits lc_phase.splits lc_kind.splits prod.splits)
        (metis plain_moves_handoffs(1,2) register_handoffs snd_conv)+
  next
    case (ReleaseLease a)
    then show ?thesis using released_token [OF none] by simp
  next
    case (HandOff a uuid)
    then show ?thesis using none e
      by (auto simp: createHandoff_def createSessionWorkAdmissionHandoff_def split: option.splits)
  next
    case (ConsumeHandoff g scope ids oi)
    then show ?thesis using none
      by (auto simp: consumeSessionWorkAdmissionHandoff_def takeHandoff_def Let_def split: option.splits)
  next
    case (CancelHandoff g)
    have "jm_get (handoffs (takeHandoff s k a)) h = None" for k a using none by (simp add: takeHandoff_def)
    with CancelHandoff none show ?thesis
      by (auto simp: cancelSessionWorkAdmissionHandoff_def Let_def released_token split: option.splits)
  next
    case (Interrupt cur scope ids)
    then show ?thesis using none by (auto simp: interruptSessionWorkAdmissions_def Let_def split: option.splits)
  qed (use none released_token [OF none] same [OF task_moves_keep_work(5)] in
      \<open>auto simp: barrierStarts_def barrierSettles_def runSettles_def prepareSettles_def abortTask_def
         released_token split: option.splits lc_phase.splits bool.splits lc_kind.splits\<close>)
qed

lemma unknown_token_stays:
  "jm_get (handoffs s) h = None \<Longrightarrow> \<forall>a. HandOff a h \<notin> set es \<Longrightarrow> jm_get (handoffs (foldl lc_step s es)) h = None"
proof (induction es arbitrary: s)
  case (Cons e es)
  then have "jm_get (handoffs (lc_step s e)) h = None" by (intro unknown_token_step) auto
  with Cons show ?case by simp
qed simp

text \<open>
  C27. A hand-off token is good for one use and for its own sessions only: whoever adopts an admission with it gets
  one that is registered and not released and that covers every key asked for, of which there is at least one. From
  then on the token is unknown: after any later history in which no hand-off draws the same random token again, a
  second caller adopts nothing with it, and the attempt changes nothing.
\<close>

theorem handoff_is_single_use:
  assumes "s = foldl lc_step initial_lifecycle es"
    and "consumeSessionWorkAdmissionHandoff s token scope ids oi = (Adopted a, s')"
    and "\<forall>b. HandOff b (js_trim token) \<notin> set later"
  shows "(\<exists>w keys. workAdmissions s a = Some w \<and> \<not> workReleased w \<and> normalizeSessionIdentities scope ids = Some keys
      \<and> keys \<noteq> [] \<and> set keys \<subseteq> set (workKeys w))
    \<and> consumeSessionWorkAdmissionHandoff (foldl lc_step s' later) token scope2 ids2 oi2
        = (NoHandoff, foldl lc_step s' later)"
proof -
  have ok: "handoffs_ok s" using lcw.run_inv assms(1) by blast
  let ?h = "js_trim token"
  obtain w keys where h: "?h \<noteq> []" "jm_get (handoffs s) ?h = Some a" "normalizeSessionIdentities scope ids = Some keys"
    "workAdmissions s a = Some w" "keys \<noteq> []" "\<forall>i \<in> set keys. i \<in> set (workKeys w)"
    and s': "s' = (let s1 = updateWork (takeHandoff s ?h a) a (\<lambda>w. w\<lparr>interruptCallback := oi\<rparr>)
         in if interrupted w then callInterrupt oi s1 else s1)"
    using assms(2)
    by (auto simp: consumeSessionWorkAdmissionHandoff_def Let_def list_ex_iff split: option.splits if_splits)
  have "jm_get (handoffs s') ?h = None"
    by (simp add: s' Let_def takeHandoff_def)
  from unknown_token_stays [OF this assms(3)]
  have "consumeSessionWorkAdmissionHandoff (foldl lc_step s' later) token scope2 ids2 oi2
      = (NoHandoff, foldl lc_step s' later)"
    using h(1) by (simp add: consumeSessionWorkAdmissionHandoff_def Let_def)
  moreover have "\<not> workReleased w" using ok h(2,4) unfolding handoffs_ok_def by fastforce
  ultimately show ?thesis using h by blast
qed

definition handed_off :: "lc_event list" where
  "handed_off =
     [StartAdmission ''store'' [Some ''a'', Some ''b''] None False False, Advance 0, Advance 0, Advance 0,
      AssertSettles 0 True False, BarrierStarts 0, BarrierSettles 0 True, HandOff 0 ''token'']"

lemma handoff_is_single_use_witness:
  "\<exists>s'. consumeSessionWorkAdmissionHandoff (foldl lc_step initial_lifecycle handed_off) ''token'' ''store''
      [Some ''b''] None = (Adopted 0, s')
    \<and> consumeSessionWorkAdmissionHandoff (foldl lc_step s' [HandOff 0 ''other'', ReleaseLease 0]) ''token'' ''store''
        [Some ''b''] None = (NoHandoff, foldl lc_step s' [HandOff 0 ''other'', ReleaseLease 0])"
proof -
  have "fst (consumeSessionWorkAdmissionHandoff (foldl lc_step initial_lifecycle handed_off) ''token'' ''store''
      [Some ''b''] None) = Adopted 0"
    by code_simp
  then obtain s' where s': "consumeSessionWorkAdmissionHandoff (foldl lc_step initial_lifecycle handed_off) ''token''
      ''store'' [Some ''b''] None = (Adopted 0, s')"
    by (metis prod.collapse)
  have "js_trim ''token'' = ''token''" by code_simp
  then have "\<forall>b. HandOff b (js_trim ''token'') \<notin> set [HandOff 0 ''other'', ReleaseLease 0]" by simp
  from handoff_is_single_use [OF refl s' this] s' show ?thesis by blast
qed

end
