(* ===== verification/AllowFrom.thy ===== *)
theory AllowFrom
  imports StringLists
begin

text \<open>
  The allowlists of a channel and the gate for its control commands: \<^verbatim>\<open>src/channels/allow-from.ts\<close>,
  \<^verbatim>\<open>message-access/effective-allow-from.ts\<close>, \<^verbatim>\<open>message-access/store-allow-from.ts\<close>,
  \<^verbatim>\<open>message-access/dm-allow-state.ts\<close> and \<^verbatim>\<open>src/channels/command-gating.ts\<close>. An allowlist is the list of the
  texts of its entries. The reader of the pairing store is a parameter: it returns the stored entries, or
  \<open>None\<close> when the read is rejected. A policy read from a configuration is the optional text it has there.
\<close>

section \<open>Allowlists\<close>

definition ACCESS_GROUP_ALLOW_FROM_PREFIX :: string where
  "ACCESS_GROUP_ALLOW_FROM_PREFIX = ''accessGroup:''"

definition starts_with :: "string \<Rightarrow> string \<Rightarrow> bool" where
  "starts_with s p \<longleftrightarrow> take (length p) s = p"

definition parseAccessGroupAllowFromEntry :: "string \<Rightarrow> string option" where
  "parseAccessGroupAllowFromEntry entry =
     (let trimmed = js_trim entry in
      if \<not> starts_with trimmed ACCESS_GROUP_ALLOW_FROM_PREFIX then None
      else let name = js_trim (drop (length ACCESS_GROUP_ALLOW_FROM_PREFIX) trimmed) in
           if length name > 0 then Some name else None)"

definition list_or_empty :: "'a list option \<Rightarrow> 'a list" where
  "list_or_empty xs = (case xs of Some ys \<Rightarrow> ys | None \<Rightarrow> [])"

definition mergeDmAllowFromSources ::
    "string list option \<Rightarrow> string list option \<Rightarrow> string option \<Rightarrow> string list" where
  "mergeDmAllowFromSources allowFrom storeAllowFrom dmPolicy =
     (let storeEntries =
        (if dmPolicy = Some ''allowlist'' \<or> dmPolicy = Some ''open'' then [] else list_or_empty storeAllowFrom)
      in normalizeStringEntries (list_or_empty allowFrom @ storeEntries))"

definition resolveGroupAllowFromSources ::
    "string list option \<Rightarrow> string list option \<Rightarrow> bool option \<Rightarrow> string list" where
  "resolveGroupAllowFromSources allowFrom groupAllowFrom fallbackToAllowFrom =
     (let explicitGroupAllowFrom =
        (case groupAllowFrom of Some g \<Rightarrow> if length g > 0 then Some g else None | None \<Rightarrow> None);
      scoped = (case explicitGroupAllowFrom of
                  Some g \<Rightarrow> g
                | None \<Rightarrow> if fallbackToAllowFrom = Some False then [] else list_or_empty allowFrom)
      in normalizeStringEntries scoped)"

fun firstDefined :: "'a option list \<Rightarrow> 'a option" where
  "firstDefined [] = None"
| "firstDefined (Some v # vs) = Some v"
| "firstDefined (None # vs) = firstDefined vs"

record sender_allow =
  entries :: "string list"
  saHasWildcard :: bool
  saHasEntries :: bool

definition isSenderIdAllowed :: "sender_allow \<Rightarrow> string option \<Rightarrow> bool \<Rightarrow> bool" where
  "isSenderIdAllowed allow senderId allowWhenEmpty =
     (if \<not> saHasEntries allow then allowWhenEmpty
      else if saHasWildcard allow then True
      else case senderId of
             None \<Rightarrow> False
           | Some s \<Rightarrow> if s = [] then False else s \<in> set (entries allow))"

record effective_lists =
  effectiveAllowFrom :: "string list"
  effectiveGroupAllowFrom :: "string list"

definition resolveChannelIngressEffectiveAllowFromLists ::
    "string list option \<Rightarrow> string list option \<Rightarrow> string list option \<Rightarrow> string option \<Rightarrow> bool option
     \<Rightarrow> effective_lists" where
  "resolveChannelIngressEffectiveAllowFromLists allowFrom groupAllowFrom storeAllowFrom dmPolicy fallback =
     \<lparr>effectiveAllowFrom =
        normalizeStringEntries (mergeDmAllowFromSources allowFrom storeAllowFrom dmPolicy),
      effectiveGroupAllowFrom =
        normalizeStringEntries (resolveGroupAllowFromSources allowFrom groupAllowFrom fallback)\<rparr>"

section \<open>The pairing store\<close>

type_synonym store_reader = "string \<Rightarrow> string \<Rightarrow> string list option"

definition readChannelIngressStoreAllowFromForDmPolicy ::
    "store_reader \<Rightarrow> string \<Rightarrow> string \<Rightarrow> string option \<Rightarrow> bool option \<Rightarrow> string list" where
  "readChannelIngressStoreAllowFromForDmPolicy readStore provider accountId dmPolicy shouldRead =
     (if shouldRead = Some False \<or> dmPolicy = Some ''allowlist'' \<or> dmPolicy = Some ''open'' then []
      else list_or_empty (readStore provider accountId))"

record dm_audit =
  configAllowFrom :: "string list"
  auditHasWildcard :: bool
  allowCount :: nat
  isMultiUserDm :: bool

definition resolveDmAllowAuditState ::
    "store_reader \<Rightarrow> (string \<Rightarrow> string) option \<Rightarrow> string \<Rightarrow> string \<Rightarrow> string list option \<Rightarrow> string option \<Rightarrow> dm_audit" where
  "resolveDmAllowAuditState readStore normalizeEntry provider accountId allowFrom dmPolicy =
     (let config = normalizeStringEntries (list_or_empty allowFrom);
          wildcard = (''*'' \<in> set config);
          store = readChannelIngressStoreAllowFromForDmPolicy readStore provider accountId dmPolicy None;
          norm = (case normalizeEntry of Some f \<Rightarrow> f | None \<Rightarrow> (\<lambda>v. v));
          normalizedCfg = normalizeStringEntries (map norm (filter (\<lambda>v. v \<noteq> ''*'') config));
          normalizedStore = normalizeStringEntries (map norm store);
          n = length (uniqueStrings (normalizedCfg @ normalizedStore))
      in \<lparr>configAllowFrom = config, auditHasWildcard = wildcard, allowCount = n,
          isMultiUserDm = (wildcard \<or> n > 1)\<rparr>)"

section \<open>Control commands\<close>

record command_authorizer =
  configured :: bool
  authAllowed :: bool

datatype groups_off_mode = OffAllow | OffDeny | OffConfigured

definition resolveCommandAuthorizedFromAuthorizers ::
    "bool \<Rightarrow> command_authorizer list \<Rightarrow> groups_off_mode option \<Rightarrow> bool" where
  "resolveCommandAuthorizedFromAuthorizers useAccessGroups authorizers modeWhenAccessGroupsOff =
     (let mode = (case modeWhenAccessGroupsOff of Some m \<Rightarrow> m | None \<Rightarrow> OffAllow) in
      if \<not> useAccessGroups then
        (case mode of
           OffAllow \<Rightarrow> True
         | OffDeny \<Rightarrow> False
         | OffConfigured \<Rightarrow>
             let anyConfigured = list_ex configured authorizers in
             if \<not> anyConfigured then True
             else list_ex (\<lambda>entry. configured entry \<and> authAllowed entry) authorizers)
      else list_ex (\<lambda>entry. configured entry \<and> authAllowed entry) authorizers)"

record command_gate =
  commandAuthorized :: bool
  shouldBlock :: bool

definition resolveControlCommandGate ::
    "bool \<Rightarrow> command_authorizer list \<Rightarrow> bool \<Rightarrow> bool \<Rightarrow> groups_off_mode option \<Rightarrow> command_gate" where
  "resolveControlCommandGate useAccessGroups authorizers allowTextCommands hasControlCommand mode =
     (let authorized = resolveCommandAuthorizedFromAuthorizers useAccessGroups authorizers mode
      in \<lparr>commandAuthorized = authorized,
          shouldBlock = (allowTextCommands \<and> hasControlCommand \<and> \<not> authorized)\<rparr>)"

definition resolveDualTextControlCommandGate ::
    "bool \<Rightarrow> bool \<Rightarrow> bool \<Rightarrow> bool \<Rightarrow> bool \<Rightarrow> bool \<Rightarrow> groups_off_mode option \<Rightarrow> command_gate" where
  "resolveDualTextControlCommandGate useAccessGroups primaryConfigured primaryAllowed
      secondaryConfigured secondaryAllowed hasControlCommand mode =
     resolveControlCommandGate useAccessGroups
       [\<lparr>configured = primaryConfigured, authAllowed = primaryAllowed\<rparr>,
        \<lparr>configured = secondaryConfigured, authAllowed = secondaryAllowed\<rparr>]
       True hasControlCommand mode"

section \<open>Lemmas\<close>

lemma list_or_empty_simps [simp]: "list_or_empty (Some xs) = xs" "list_or_empty None = []"
  by (simp_all add: list_or_empty_def)

lemma authorized_with_groups:
  "resolveCommandAuthorizedFromAuthorizers True as mode \<longleftrightarrow>
     (\<exists>a \<in> set as. configured a \<and> authAllowed a)"
  by (simp add: resolveCommandAuthorizedFromAuthorizers_def list_ex_iff)

text \<open>
  A rule that is not configured never decides: with access groups on, or off in the mode that looks at
  configured rules, an authorizer that permits the command without being configured changes nothing.
\<close>

lemma unconfigured_never_authorizes:
  assumes "configured a = False" and "mode \<noteq> Some OffConfigured \<or> use"
  shows "resolveCommandAuthorizedFromAuthorizers use (a # as) mode =
    resolveCommandAuthorizedFromAuthorizers use as mode"
  using assms
  by (cases mode) (auto simp: resolveCommandAuthorizedFromAuthorizers_def Let_def split: groups_off_mode.splits)

lemma gate_blocks_iff:
  "shouldBlock (resolveControlCommandGate use as allowText hasCmd mode) \<longleftrightarrow>
     allowText \<and> hasCmd \<and> \<not> commandAuthorized (resolveControlCommandGate use as allowText hasCmd mode)"
  by (simp add: resolveControlCommandGate_def Let_def)

text \<open>The effective lists: the pairing store adds direct-message entries under pairing only, never group ones.\<close>

lemma effective_group_ignores_store:
  "effectiveGroupAllowFrom (resolveChannelIngressEffectiveAllowFromLists a g s p f) =
     effectiveGroupAllowFrom (resolveChannelIngressEffectiveAllowFromLists a g s' p' f)"
  by (simp add: resolveChannelIngressEffectiveAllowFromLists_def)

lemma effective_dm_ignores_store:
  assumes "p = Some ''allowlist'' \<or> p = Some ''open''"
  shows "effectiveAllowFrom (resolveChannelIngressEffectiveAllowFromLists a g s p f) =
    normalizeStringEntries (list_or_empty a)"
  using assms by (auto simp: resolveChannelIngressEffectiveAllowFromLists_def mergeDmAllowFromSources_def)

lemma effective_lists_fixed:
  "normalizeStringEntries (effectiveAllowFrom (resolveChannelIngressEffectiveAllowFromLists a g s p f)) =
     effectiveAllowFrom (resolveChannelIngressEffectiveAllowFromLists a g s p f)"
  "normalizeStringEntries (effectiveGroupAllowFrom (resolveChannelIngressEffectiveAllowFromLists a g s p f)) =
     effectiveGroupAllowFrom (resolveChannelIngressEffectiveAllowFromLists a g s p f)"
  by (simp_all add: resolveChannelIngressEffectiveAllowFromLists_def)

text \<open>An access-group reference that parses names a group with a trimmed, non-empty name.\<close>

lemma parse_access_group_name:
  "parseAccessGroupAllowFromEntry e = Some name \<Longrightarrow> name \<noteq> [] \<and> js_trim name = name"
  by (auto simp: parseAccessGroupAllowFromEntry_def Let_def split: if_splits)

lemma wildcard_is_no_access_group: "parseAccessGroupAllowFromEntry ''*'' = None"
  by code_simp

end
