(* ===== verification/IngressTypes.thy ===== *)
theory IngressTypes
  imports AllowFrom
begin

text \<open>
  The data of the channel ingress kernel (\<^verbatim>\<open>src/channels/message-access/types.ts\<close>) and the mention facts
  of \<^verbatim>\<open>src/channels/mention-gating.ts\<close>: identifiers, resolved allowlists, route facts, the policy, the gates of
  the access graph and the decision. Optional fields are options; the optional flag \<^verbatim>\<open>dangerous\<close>, which is only
  ever tested for truth, is a \<open>bool\<close>.
\<close>

section \<open>Identifiers and entries\<close>

datatype identifier_kind = StableId | Username | Email | Phone | RoleId | PluginKind string

datatype sensitivity = NormalSensitivity | Pii

record match_material =
  opaqueId :: string
  materialKind :: identifier_kind
  materialDangerous :: bool
  materialSensitivity :: "sensitivity option"
  materialValue :: string

type_synonym ingress_subject = "match_material list"

record normalized_entry =
  opaqueEntryId :: string
  entryKind :: identifier_kind
  dangerous :: bool
  entrySensitivity :: "sensitivity option"

record internal_entry = normalized_entry +
  entryValue :: string

datatype ingress_reason =
    Allowed | RouteBlocked | RouteSenderEmpty
  | DmPolicyDisabled | DmPolicyOpen | DmPolicyAllowlisted | DmPolicyPairingRequired | DmPolicyNotAllowlisted
  | GroupPolicyDisabled | GroupPolicyOpen | GroupPolicyAllowed | GroupPolicyEmptyAllowlist
  | GroupPolicyNotAllowlisted
  | CommandAuthorized | ControlCommandUnauthorized
  | EventAuthorized | EventUnauthorized | EventPairingNotAllowed
  | SenderNotRequired | OriginSubjectMissing | OriginSubjectNotMatched
  | ActivationAllowed | ActivationSkipped
  | AccessGroupMissing | AccessGroupUnsupported | AccessGroupFailed
  | MutableIdentifierDisabled | NoPolicyMatch

record entry_diagnostic =
  diagEntryId :: "string option"
  diagReason :: ingress_reason

record ingress_match =
  matched :: bool
  matchedEntryIds :: "string list"

record normalize_result =
  matchable :: "internal_entry list"
  invalid :: "entry_diagnostic list"
  disabled :: "entry_diagnostic list"

datatype match_context = DmContext | GroupContext | RouteContext | CommandContext

text \<open>The adapter of a channel: how its allowlist entries are read and a sender is matched against them.\<close>

record ingress_adapter =
  normalizeEntries :: "string list \<Rightarrow> match_context \<Rightarrow> string \<Rightarrow> normalize_result"
  matchSubject :: "ingress_subject \<Rightarrow> internal_entry list \<Rightarrow> match_context \<Rightarrow> ingress_match"

section \<open>Allowlists and access groups\<close>

datatype fact_source = StaticFact | DynamicFact

datatype membership_problem = GroupMissing | GroupUnsupported | GroupFailed

datatype membership_kind =
    FactMatched "string list"
  | FactNotMatched
  | FactProblem membership_problem ingress_reason "string option"

record membership_fact =
  groupName :: string
  factSource :: fact_source
  factKind :: membership_kind

record access_group_facts =
  referenced :: "string list"
  agMatched :: "string list"
  missing :: "string list"
  unsupported :: "string list"
  failed :: "string list"

record resolved_allowlist =
  rawEntryCount :: nat
  normalizedEntries :: "normalized_entry list"
  invalidEntries :: "entry_diagnostic list"
  disabledEntries :: "entry_diagnostic list"
  alMatchedEntryIds :: "string list"
  hasConfiguredEntries :: bool
  hasMatchableEntries :: bool
  hasWildcard :: bool
  accessGroups :: access_group_facts
  alMatch :: ingress_match

record allowlist_facts =
  afConfigured :: bool
  afMatched :: bool
  afReason :: ingress_reason
  afMatchedEntryIds :: "string list"
  invalidEntryCount :: nat
  disabledEntryCount :: nat
  afAccessGroups :: access_group_facts

section \<open>Routes, events and mentions\<close>

datatype route_gate_state = RouteNotConfigured | RouteMatched | RouteNotMatched | RouteDisabled | RouteLookupFailed

datatype route_sender_policy = InheritSenders | ReplaceSenders | DenyWhenEmpty

datatype route_sender_source = EffectiveDm | EffectiveGroup

datatype gate_kind =
    RouteKind | RouteSenderKind | DmSenderKind | GroupSenderKind | MembershipKind
  | OwnerAllowlistKind | NestedAllowlistKind | CommandKind | EventKind | MentionKind

datatype gate_effect = AllowEffect | BlockDispatch | BlockCommand | SkipEffect | ObserveEffect | IgnoreEffect

datatype route_effect = RouteAllows | RouteBlocks | RouteIgnores

text \<open>A route gate has the kind of one of the first five route kinds of \<open>gate_kind\<close> in the source.\<close>

record route_base =
  routeId :: string
  routeKind :: gate_kind
  routeGate :: route_gate_state
  routeEffect :: route_effect
  precedence :: rat
  senderPolicy :: route_sender_policy
  routeMatch :: "ingress_match option"

record route_fact = route_base +
  senderAllowFrom :: "string list option"
  senderAllowFromSource :: "route_sender_source option"

record resolved_route = route_base +
  senderAllowlist :: "resolved_allowlist option"

datatype event_kind =
  MessageEvent | ReactionEvent | ButtonEvent | PostbackEvent | NativeCommandEvent | SlashCommandEvent | SystemEvent

datatype event_auth_mode = AuthInbound | AuthCommand | AuthOriginSubject | AuthRouteOnly | AuthNone

record event_input =
  eventInputKind :: event_kind
  eventInputMode :: event_auth_mode
  eventMayPair :: bool
  originSubject :: "ingress_subject option"

record ingress_event =
  eventKind :: event_kind
  authMode :: event_auth_mode
  mayPair :: bool
  hasOriginSubject :: bool
  originSubjectMatched :: bool

datatype mention_kind = ReplyToBot | QuotedBot | BotThreadParticipant | NativeMention

record mention_facts =
  canDetectMention :: bool
  wasMentioned :: bool
  hasAnyMention :: "bool option"
  implicitMentionKinds :: "mention_kind list option"

record mention_policy =
  isGroup :: bool
  mpRequireMention :: bool
  mpAllowedKinds :: "mention_kind list option"
  mpAllowTextCommands :: bool
  mpHasControlCommand :: bool
  mpCommandAuthorized :: bool

section \<open>Policy, state and decision\<close>

datatype dm_policy = DmPairing | DmAllowlist | DmOpen | DmDisabled

datatype group_policy = GroupAllowlist | GroupOpen | GroupDisabled

datatype mutable_matching = MutableDisabled | MutableEnabled

datatype activation_order = BeforeSender | AfterCommand

record activation_policy =
  requireMention :: bool
  actAllowTextCommands :: bool
  allowedImplicitMentionKinds :: "mention_kind list option"
  order :: "activation_order option"

record command_policy =
  useAccessGroups :: "bool option"
  allowTextCommands :: bool
  hasControlCommand :: bool
  modeWhenAccessGroupsOff :: "groups_off_mode option"

record ingress_policy =
  dmPolicy :: dm_policy
  groupPolicy :: group_policy
  groupAllowFromFallbackToAllowFrom :: "bool option"
  mutableIdentifierMatching :: "mutable_matching option"
  activation :: "activation_policy option"
  command :: "command_policy option"

datatype conversation_kind = DirectConversation | GroupConversation | ChannelConversation

record ingress_allowlists =
  dm :: resolved_allowlist
  pairingStore :: resolved_allowlist
  groupSenders :: resolved_allowlist
  commandOwner :: resolved_allowlist
  commandGroup :: resolved_allowlist

record ingress_state =
  channelId :: string
  accountId :: string
  conversationKind :: conversation_kind
  event :: ingress_event
  mentionFacts :: "mention_facts option"
  routeFacts :: "resolved_route list"
  allowlists :: ingress_allowlists

datatype gate_phase = RoutePhase | SenderPhase | CommandPhase | EventPhase | ActivationPhase

datatype sender_policy_ref = DmSenderPolicy dm_policy | GroupSenderPolicy group_policy

record command_gate_facts =
  cgUseAccessGroups :: bool
  cgAllowTextCommands :: bool
  cgMode :: "groups_off_mode option"
  shouldBlockControlCommand :: bool

record activation_facts =
  hasMentionFacts :: bool
  afRequireMention :: bool
  afAllowTextCommands :: bool
  afAllowedKinds :: "mention_kind list option"
  afOrder :: "activation_order option"
  afShouldSkip :: bool
  afCanDetectMention :: "bool option"
  afWasMentioned :: "bool option"
  afHasAnyMention :: "bool option"
  afImplicitKinds :: "mention_kind list option"
  afEffectiveWasMentioned :: "bool option"
  afShouldBypassMention :: "bool option"

record access_gate =
  gateId :: string
  phase :: gate_phase
  gateKind :: gate_kind
  effect :: gate_effect
  allowed :: bool
  reasonCode :: ingress_reason
  gateMatch :: "ingress_match option"
  gateAllowlist :: "allowlist_facts option"
  gateSender :: "sender_policy_ref option"
  gateCommand :: "command_gate_facts option"
  gateEvent :: "ingress_event option"
  gateActivation :: "activation_facts option"

datatype ingress_admission = Dispatch | Observe | Skip | Drop | PairingRequired

datatype ingress_verdict = VerdictAllow | VerdictBlock | VerdictPairing

record ingress_decision =
  admission :: ingress_admission
  decision :: ingress_verdict
  decisiveGateId :: string
  decisionReason :: ingress_reason
  graph :: "access_gate list"

end
