(* ===== verification/IngressDecision.thy ===== *)
theory IngressDecision
  imports IngressTypes
begin

text \<open>
  How the channel ingress kernel decides on an inbound event: \<^verbatim>\<open>src/channels/mention-gating.ts\<close>,
  \<^verbatim>\<open>message-access/allowlist.ts\<close>, \<^verbatim>\<open>message-access/sender-gates.ts\<close> and
  \<^verbatim>\<open>message-access/decision.ts\<close>. The gates run in the order route, (activation), sender, command, event,
  activation; the first that refuses decides. The last section gives the admission rule of the kernel as one
  predicate, without gates, and shows that the pipeline implements it.
\<close>

section \<open>Mentions\<close>

definition matchedKindStep ::
    "mention_kind list option \<Rightarrow> mention_kind \<Rightarrow> mention_kind list \<Rightarrow> mention_kind list" where
  "matchedKindStep allowedKinds kind acc =
     (case allowedKinds of
        Some ks \<Rightarrow> if kind \<notin> set ks then acc else addUnique kind acc
      | None \<Rightarrow> addUnique kind acc)"

definition resolveMatchedImplicitMentionKinds ::
    "mention_kind list option \<Rightarrow> mention_kind list option \<Rightarrow> mention_kind list" where
  "resolveMatchedImplicitMentionKinds kinds allowedKinds =
     (let inputKinds = list_or_empty kinds in
      if length inputKinds = 0 then []
      else fold (matchedKindStep allowedKinds) inputKinds [])"

record mention_decision =
  implicitMention :: bool
  matchedImplicitMentionKinds :: "mention_kind list"
  effectiveWasMentioned :: bool
  shouldBypassMention :: bool
  shouldSkip :: bool

definition resolveMentionDecisionCore ::
    "bool \<Rightarrow> bool \<Rightarrow> bool \<Rightarrow> mention_kind list option \<Rightarrow> mention_kind list option \<Rightarrow> bool \<Rightarrow> mention_decision" where
  "resolveMentionDecisionCore require canDetect mentioned kinds allowedKinds bypass =
     (let ks = resolveMatchedImplicitMentionKinds kinds allowedKinds;
          imp = (length ks > 0);
          eff = (mentioned \<or> imp \<or> bypass)
      in \<lparr>implicitMention = imp, matchedImplicitMentionKinds = ks, effectiveWasMentioned = eff,
          shouldBypassMention = bypass, shouldSkip = (require \<and> canDetect \<and> \<not> eff)\<rparr>)"

definition resolveInboundMentionDecision :: "mention_facts \<Rightarrow> mention_policy \<Rightarrow> mention_decision" where
  "resolveInboundMentionDecision facts policy =
     (let bypass =
        (isGroup policy \<and> mpRequireMention policy \<and> \<not> wasMentioned facts
         \<and> \<not> (case hasAnyMention facts of Some b \<Rightarrow> b | None \<Rightarrow> False)
         \<and> mpAllowTextCommands policy \<and> mpCommandAuthorized policy \<and> mpHasControlCommand policy)
      in resolveMentionDecisionCore (mpRequireMention policy) (canDetectMention facts) (wasMentioned facts)
           (implicitMentionKinds facts) (mpAllowedKinds policy) bypass)"

definition implicitMentionKindWhen :: "mention_kind \<Rightarrow> bool \<Rightarrow> mention_kind list" where
  "implicitMentionKindWhen kind enabled = (if enabled then [kind] else [])"

text \<open>The two flat entry points that older channels still call.\<close>

definition resolveMentionGating :: "bool \<Rightarrow> bool \<Rightarrow> bool \<Rightarrow> bool option \<Rightarrow> bool option \<Rightarrow> bool \<times> bool" where
  "resolveMentionGating require canDetect mentioned imp bypass =
     (let result = resolveMentionDecisionCore require canDetect mentioned
        (Some (implicitMentionKindWhen NativeMention (imp = Some True))) None (bypass = Some True)
      in (effectiveWasMentioned result, shouldSkip result))"

definition resolveMentionGatingWithBypass ::
    "mention_policy \<Rightarrow> bool \<Rightarrow> bool \<Rightarrow> bool option \<Rightarrow> bool option \<Rightarrow> bool \<times> bool \<times> bool" where
  "resolveMentionGatingWithBypass policy canDetect mentioned imp anyMention =
     (let result = resolveInboundMentionDecision
        \<lparr>canDetectMention = canDetect, wasMentioned = mentioned, hasAnyMention = anyMention,
         implicitMentionKinds = Some (implicitMentionKindWhen NativeMention (imp = Some True))\<rparr>
        (policy\<lparr>mpAllowedKinds := None\<rparr>)
      in (effectiveWasMentioned result, shouldSkip result, shouldBypassMention result))"

section \<open>Allowlists\<close>

definition allowlistFailureReason :: "resolved_allowlist \<Rightarrow> ingress_reason option" where
  "allowlistFailureReason al =
     (if length (failed (accessGroups al)) > 0 then Some AccessGroupFailed
      else if length (unsupported (accessGroups al)) > 0 then Some AccessGroupUnsupported
      else if length (missing (accessGroups al)) > 0 then Some AccessGroupMissing
      else None)"

definition redactedAllowlistDiagnostics :: "resolved_allowlist \<Rightarrow> ingress_reason \<Rightarrow> allowlist_facts" where
  "redactedAllowlistDiagnostics al reason =
     \<lparr>afConfigured = hasConfiguredEntries al, afMatched = matched (alMatch al), afReason = reason,
      afMatchedEntryIds = alMatchedEntryIds al, invalidEntryCount = length (invalidEntries al),
      disabledEntryCount = length (disabledEntries al), afAccessGroups = accessGroups al\<rparr>"

definition mergeResolvedAllowlists :: "resolved_allowlist list \<Rightarrow> resolved_allowlist" where
  "mergeResolvedAllowlists als =
     (let matches = map alMatch als;
          ids = uniqueStrings (concat (map alMatchedEntryIds als))
      in \<lparr>rawEntryCount = foldl (\<lambda>n al. n + rawEntryCount al) 0 als,
          normalizedEntries = concat (map normalizedEntries als),
          invalidEntries = concat (map invalidEntries als),
          disabledEntries = concat (map disabledEntries als),
          alMatchedEntryIds = ids,
          hasConfiguredEntries = list_ex hasConfiguredEntries als,
          hasMatchableEntries = list_ex hasMatchableEntries als,
          hasWildcard = list_ex hasWildcard als,
          accessGroups =
            \<lparr>referenced = uniqueStrings (concat (map (\<lambda>al. referenced (accessGroups al)) als)),
             agMatched = uniqueStrings (concat (map (\<lambda>al. agMatched (accessGroups al)) als)),
             missing = uniqueStrings (concat (map (\<lambda>al. missing (accessGroups al)) als)),
             unsupported = uniqueStrings (concat (map (\<lambda>al. unsupported (accessGroups al)) als)),
             failed = uniqueStrings (concat (map (\<lambda>al. failed (accessGroups al)) als))\<rparr>,
          alMatch = \<lparr>matched = (list_ex matched matches \<or> length ids > 0), matchedEntryIds = ids\<rparr>\<rparr>)"

definition dangerousEntryIds :: "resolved_allowlist \<Rightarrow> string list" where
  "dangerousEntryIds al = uniqueStrings (map opaqueEntryId (filter dangerous (normalizedEntries al)))"

definition applyMutableIdentifierPolicy :: "resolved_allowlist \<Rightarrow> ingress_policy \<Rightarrow> resolved_allowlist" where
  "applyMutableIdentifierPolicy al policy =
     (if mutableIdentifierMatching policy = Some MutableEnabled then al
      else if length (dangerousEntryIds al) = 0 then al
      else let ids = filter (\<lambda>i. i \<notin> set (dangerousEntryIds al)) (alMatchedEntryIds al) in
        al\<lparr>disabledEntries :=
             disabledEntries al @
             map (\<lambda>e. \<lparr>diagEntryId = Some (opaqueEntryId e), diagReason = MutableIdentifierDisabled\<rparr>)
               (filter dangerous (normalizedEntries al)),
           alMatchedEntryIds := ids,
           hasMatchableEntries := list_ex (\<lambda>e. \<not> dangerous e) (normalizedEntries al),
           alMatch := \<lparr>matched = (length ids > 0), matchedEntryIds = ids\<rparr>\<rparr>)"

definition overrideSenders :: "resolved_route \<Rightarrow> resolved_allowlist \<Rightarrow> resolved_allowlist" where
  "overrideSenders route effective =
     (case senderAllowlist route of
        None \<Rightarrow> effective
      | Some al \<Rightarrow>
          if routeGate route \<noteq> RouteMatched then effective
          else if senderPolicy route = InheritSenders then mergeResolvedAllowlists [effective, al]
          else al)"

definition effectiveGroupSenderAllowlist :: "ingress_state \<Rightarrow> ingress_policy \<Rightarrow> resolved_allowlist" where
  "effectiveGroupSenderAllowlist state policy =
     (let effective =
        (if groupAllowFromFallbackToAllowFrom policy = Some True
            \<and> \<not> hasConfiguredEntries (groupSenders (allowlists state))
         then dm (allowlists state) else groupSenders (allowlists state))
      in applyMutableIdentifierPolicy (fold overrideSenders (routeFacts state) effective) policy)"

section \<open>Sender gates\<close>

definition senderGate ::
    "string \<Rightarrow> gate_kind \<Rightarrow> gate_effect \<Rightarrow> bool \<Rightarrow> ingress_reason \<Rightarrow> ingress_match \<Rightarrow> sender_policy_ref
     \<Rightarrow> resolved_allowlist \<Rightarrow> access_gate" where
  "senderGate i kind eff ok reason m policy source =
     \<lparr>gateId = i, phase = SenderPhase, gateKind = kind, effect = eff, allowed = ok, reasonCode = reason,
      gateMatch = Some m, gateAllowlist = Some (redactedAllowlistDiagnostics source reason),
      gateSender = Some policy, gateCommand = None, gateEvent = None, gateActivation = None\<rparr>"

definition senderGateForDirect :: "ingress_state \<Rightarrow> ingress_policy \<Rightarrow> access_gate" where
  "senderGateForDirect state policy =
     (let dmList = applyMutableIdentifierPolicy (dm (allowlists state)) policy;
          store = applyMutableIdentifierPolicy (pairingStore (allowlists state)) policy;
          p = DmSenderPolicy (dmPolicy policy);
          allow = (\<lambda>reason. senderGate ''sender:dm'' DmSenderKind AllowEffect True reason (alMatch dmList) p dmList);
          block = (\<lambda>reason. senderGate ''sender:dm'' DmSenderKind BlockDispatch False reason (alMatch dmList) p dmList)
      in if dmPolicy policy = DmDisabled then block DmPolicyDisabled
         else if dmPolicy policy = DmOpen then
           (if hasWildcard dmList then allow DmPolicyOpen
            else if matched (alMatch dmList) then allow DmPolicyAllowlisted
            else block DmPolicyNotAllowlisted)
         else if matched (alMatch dmList) then allow DmPolicyAllowlisted
         else if dmPolicy policy = DmPairing \<and> matched (alMatch store) then
           senderGate ''sender:dm'' DmSenderKind AllowEffect True DmPolicyAllowlisted (alMatch store) p store
         else if dmPolicy policy = DmPairing \<and> mayPair (event state) then block DmPolicyPairingRequired
         else block (if dmPolicy policy = DmPairing then EventPairingNotAllowed
                     else case allowlistFailureReason dmList of Some r \<Rightarrow> r | None \<Rightarrow> DmPolicyNotAllowlisted))"

definition senderGateForGroup :: "ingress_state \<Rightarrow> ingress_policy \<Rightarrow> access_gate" where
  "senderGateForGroup state policy =
     (let grp = effectiveGroupSenderAllowlist state policy;
          p = GroupSenderPolicy (groupPolicy policy);
          allow = (\<lambda>reason. senderGate ''sender:group'' GroupSenderKind AllowEffect True reason (alMatch grp) p grp);
          block = (\<lambda>reason. senderGate ''sender:group'' GroupSenderKind BlockDispatch False reason (alMatch grp) p grp)
      in if groupPolicy policy = GroupDisabled then block GroupPolicyDisabled
         else if groupPolicy policy = GroupOpen then allow GroupPolicyOpen
         else if \<not> hasConfiguredEntries grp then block GroupPolicyEmptyAllowlist
         else if matched (alMatch grp) then allow GroupPolicyAllowed
         else block (case allowlistFailureReason grp of Some r \<Rightarrow> r | None \<Rightarrow> GroupPolicyNotAllowlisted))"

definition applyEventAuthModeToSenderGate :: "ingress_state \<Rightarrow> access_gate \<Rightarrow> access_gate" where
  "applyEventAuthModeToSenderGate state gate =
     (if authMode (event state) = AuthInbound \<or> allowed gate then gate
      else gate\<lparr>effect := IgnoreEffect, allowed := True, reasonCode := SenderNotRequired,
             gateAllowlist := map_option (\<lambda>a. a\<lparr>afReason := SenderNotRequired\<rparr>) (gateAllowlist gate)\<rparr>)"

section \<open>The decision graph\<close>

definition decisiveDecision ::
    "ingress_admission \<Rightarrow> ingress_verdict \<Rightarrow> access_gate \<Rightarrow> access_gate list \<Rightarrow> ingress_decision" where
  "decisiveDecision adm verdict gate gates =
     \<lparr>admission = adm, decision = verdict, decisiveGateId = gateId gate,
      decisionReason = reasonCode gate, graph = gates\<rparr>"

primrec gateEffectOf :: "route_effect \<Rightarrow> gate_effect" where
  "gateEffectOf RouteAllows = AllowEffect"
| "gateEffectOf RouteBlocks = BlockDispatch"
| "gateEffectOf RouteIgnores = IgnoreEffect"

definition routeGateOf :: "resolved_route \<Rightarrow> access_gate" where
  "routeGateOf route =
     \<lparr>gateId = routeId route, phase = RoutePhase, gateKind = routeKind route,
      effect = gateEffectOf (routeEffect route),
      allowed = (routeEffect route \<noteq> RouteBlocks),
      reasonCode = (if routeEffect route = RouteBlocks then RouteBlocked else Allowed),
      gateMatch = routeMatch route, gateAllowlist = None, gateSender = None, gateCommand = None,
      gateEvent = None, gateActivation = None\<rparr>"

definition routeGates :: "ingress_state \<Rightarrow> access_gate list" where
  "routeGates state = map routeGateOf (routeFacts state)"

definition sender_empty_route :: "resolved_route \<Rightarrow> bool" where
  "sender_empty_route route \<longleftrightarrow>
     senderPolicy route = DenyWhenEmpty \<and> routeGate route = RouteMatched
     \<and> (case senderAllowlist route of Some al \<Rightarrow> \<not> hasConfiguredEntries al | None \<Rightarrow> True)"

definition routeSenderEmptyGate :: "ingress_state \<Rightarrow> access_gate option" where
  "routeSenderEmptyGate state =
     (case find sender_empty_route (routeFacts state) of
        None \<Rightarrow> None
      | Some route \<Rightarrow> Some
          \<lparr>gateId = routeId route @ '':sender'', phase = RoutePhase, gateKind = RouteSenderKind,
           effect = BlockDispatch, allowed = False, reasonCode = RouteSenderEmpty,
           gateMatch = routeMatch route,
           gateAllowlist =
             map_option (\<lambda>al. redactedAllowlistDiagnostics al RouteSenderEmpty) (senderAllowlist route),
           gateSender = None, gateCommand = None, gateEvent = None, gateActivation = None\<rparr>)"

definition mergeCommandMatch :: "ingress_match \<Rightarrow> ingress_match \<Rightarrow> ingress_match" where
  "mergeCommandMatch owner grp =
     (let ids = uniqueStrings (matchedEntryIds owner @ matchedEntryIds grp)
      in \<lparr>matched = (matched owner \<or> matched grp \<or> length ids > 0), matchedEntryIds = ids\<rparr>)"

definition commandGate :: "ingress_state \<Rightarrow> ingress_policy \<Rightarrow> access_gate" where
  "commandGate state policy =
     (case command policy of
        None \<Rightarrow>
          \<lparr>gateId = ''command'', phase = CommandPhase, gateKind = CommandKind, effect = AllowEffect,
           allowed = True, reasonCode = CommandAuthorized, gateMatch = None, gateAllowlist = None,
           gateSender = None, gateCommand = None, gateEvent = None, gateActivation = None\<rparr>
      | Some cmd \<Rightarrow>
          let useGroups = (case useAccessGroups cmd of Some b \<Rightarrow> b | None \<Rightarrow> True);
              owner = applyMutableIdentifierPolicy (commandOwner (allowlists state)) policy;
              grp = applyMutableIdentifierPolicy (commandGroup (allowlists state)) policy;
              authorized = resolveCommandAuthorizedFromAuthorizers useGroups
                [\<lparr>configured = hasConfiguredEntries owner, authAllowed = matched (alMatch owner)\<rparr>,
                 \<lparr>configured = hasConfiguredEntries grp, authAllowed = matched (alMatch grp)\<rparr>]
                (modeWhenAccessGroupsOff cmd);
              block = (allowTextCommands cmd \<and> hasControlCommand cmd \<and> \<not> authorized)
          in \<lparr>gateId = ''command'', phase = CommandPhase, gateKind = CommandKind,
              effect = (if block then BlockCommand else AllowEffect), allowed = authorized,
              reasonCode = (if block then ControlCommandUnauthorized else CommandAuthorized),
              gateMatch = Some (mergeCommandMatch (alMatch owner) (alMatch grp)), gateAllowlist = None,
              gateSender = None,
              gateCommand = Some \<lparr>cgUseAccessGroups = useGroups, cgAllowTextCommands = allowTextCommands cmd,
                cgMode = modeWhenAccessGroupsOff cmd, shouldBlockControlCommand = block\<rparr>,
              gateEvent = None, gateActivation = None\<rparr>)"

definition eventResult :: "ingress_event \<Rightarrow> bool \<Rightarrow> ingress_reason \<Rightarrow> access_gate" where
  "eventResult ev ok reason =
     \<lparr>gateId = ''event'', phase = EventPhase, gateKind = EventKind,
      effect = (if ok then AllowEffect else BlockDispatch), allowed = ok, reasonCode = reason,
      gateMatch = None, gateAllowlist = None, gateSender = None, gateCommand = None,
      gateEvent = Some ev, gateActivation = None\<rparr>"

definition eventGate :: "ingress_state \<Rightarrow> access_gate \<Rightarrow> access_gate \<Rightarrow> access_gate" where
  "eventGate state sender cmd =
     (let ev = event state in
      case authMode ev of
        AuthNone \<Rightarrow> eventResult ev True EventAuthorized
      | AuthRouteOnly \<Rightarrow> eventResult ev True EventAuthorized
      | AuthCommand \<Rightarrow>
          eventResult ev (allowed cmd) (if allowed cmd then EventAuthorized else EventUnauthorized)
      | AuthOriginSubject \<Rightarrow>
          if \<not> hasOriginSubject ev then eventResult ev False OriginSubjectMissing
          else eventResult ev (originSubjectMatched ev)
                 (if originSubjectMatched ev then EventAuthorized else OriginSubjectNotMatched)
      | AuthInbound \<Rightarrow>
          eventResult ev (allowed sender) (if allowed sender then EventAuthorized else EventUnauthorized))"

definition activationMetadata ::
    "activation_policy option \<Rightarrow> mention_facts option \<Rightarrow> bool \<Rightarrow> bool option \<Rightarrow> bool option \<Rightarrow> activation_facts" where
  "activationMetadata act facts skip eff bypass =
     \<lparr>hasMentionFacts = (facts \<noteq> None),
      afRequireMention = (case act of Some a \<Rightarrow> requireMention a | None \<Rightarrow> False),
      afAllowTextCommands = (case act of Some a \<Rightarrow> actAllowTextCommands a | None \<Rightarrow> False),
      afAllowedKinds = Option.bind act allowedImplicitMentionKinds,
      afOrder = Option.bind act order,
      afShouldSkip = skip,
      afCanDetectMention = map_option canDetectMention facts,
      afWasMentioned = map_option wasMentioned facts,
      afHasAnyMention = Option.bind facts hasAnyMention,
      afImplicitKinds = Option.bind facts implicitMentionKinds,
      afEffectiveWasMentioned = eff,
      afShouldBypassMention = bypass\<rparr>"

definition activationResult ::
    "activation_policy option \<Rightarrow> mention_facts option \<Rightarrow> bool \<Rightarrow> bool option \<Rightarrow> bool option \<Rightarrow> access_gate" where
  "activationResult act facts skip eff bypass =
     \<lparr>gateId = ''activation'', phase = ActivationPhase, gateKind = MentionKind,
      effect = (if skip then SkipEffect else AllowEffect), allowed = (\<not> skip),
      reasonCode = (if skip then ActivationSkipped else ActivationAllowed),
      gateMatch = None, gateAllowlist = None, gateSender = None, gateCommand = None, gateEvent = None,
      gateActivation = Some (activationMetadata act facts skip eff bypass)\<rparr>"

definition mention_decision_for ::
    "ingress_state \<Rightarrow> ingress_policy \<Rightarrow> activation_policy \<Rightarrow> mention_facts \<Rightarrow> bool \<Rightarrow> mention_decision" where
  "mention_decision_for state policy act facts cmdAllowed =
     resolveInboundMentionDecision facts
       \<lparr>isGroup = (conversationKind state \<noteq> DirectConversation), mpRequireMention = requireMention act,
        mpAllowedKinds = allowedImplicitMentionKinds act, mpAllowTextCommands = actAllowTextCommands act,
        mpHasControlCommand = (case command policy of Some c \<Rightarrow> hasControlCommand c | None \<Rightarrow> False),
        mpCommandAuthorized = cmdAllowed\<rparr>"

definition activationGate :: "ingress_state \<Rightarrow> ingress_policy \<Rightarrow> access_gate \<Rightarrow> access_gate" where
  "activationGate state policy cmd =
     (case (activation policy, mentionFacts state) of
        (Some act, Some facts) \<Rightarrow>
          let result = mention_decision_for state policy act facts (allowed cmd)
          in activationResult (activation policy) (mentionFacts state) (shouldSkip result)
               (Some (effectiveWasMentioned result)) (Some (shouldBypassMention result))
      | (_, facts) \<Rightarrow>
          activationResult (activation policy) facts False
            (map_option (\<lambda>f. wasMentioned f \<or> length (list_or_empty (implicitMentionKinds f)) > 0) facts) None)"

definition activationBeforeSender :: "ingress_state \<Rightarrow> ingress_policy \<Rightarrow> access_gate option" where
  "activationBeforeSender state policy =
     (case activation policy of
        Some act \<Rightarrow>
          if order act = Some BeforeSender \<and> \<not> actAllowTextCommands act
          then Some (activationGate state policy (commandGate state (policy\<lparr>command := None\<rparr>)))
          else None
      | None \<Rightarrow> None)"

definition senderGateOf :: "ingress_state \<Rightarrow> ingress_policy \<Rightarrow> access_gate" where
  "senderGateOf state policy =
     applyEventAuthModeToSenderGate state
       (if conversationKind state = DirectConversation then senderGateForDirect state policy
        else senderGateForGroup state policy)"

definition decideActivation :: "access_gate \<Rightarrow> access_gate list \<Rightarrow> ingress_decision" where
  "decideActivation act gates =
     (if effect act = SkipEffect then decisiveDecision Skip VerdictAllow act gates
      else if effect act = ObserveEffect then decisiveDecision Observe VerdictAllow act gates
      else decisiveDecision Dispatch VerdictAllow act gates)"

definition decideAfterRoute ::
    "ingress_state \<Rightarrow> ingress_policy \<Rightarrow> access_gate option \<Rightarrow> access_gate list \<Rightarrow> ingress_decision" where
  "decideAfterRoute state policy early gates0 =
     (let sender = senderGateOf state policy; gates1 = gates0 @ [sender] in
      if \<not> allowed sender then
        (if reasonCode sender = DmPolicyPairingRequired
         then decisiveDecision PairingRequired VerdictPairing sender gates1
         else decisiveDecision Drop VerdictBlock sender gates1)
      else let cmd = commandGate state policy; gates2 = gates1 @ [cmd] in
      if effect cmd = BlockCommand then decisiveDecision Drop VerdictBlock cmd gates2
      else let ev = eventGate state sender cmd; gates3 = gates2 @ [ev] in
      if \<not> allowed ev then decisiveDecision Drop VerdictBlock ev gates3
      else case early of
             Some act \<Rightarrow> decideActivation act gates3
           | None \<Rightarrow> let act = activationGate state policy cmd in decideActivation act (gates3 @ [act]))"

definition decideChannelIngress :: "ingress_state \<Rightarrow> ingress_policy \<Rightarrow> ingress_decision" where
  "decideChannelIngress state policy =
     (let gates = routeGates state @ (case routeSenderEmptyGate state of Some g \<Rightarrow> [g] | None \<Rightarrow> []) in
      case find (\<lambda>g. effect g = BlockDispatch) gates of
        Some routeBlock \<Rightarrow> decisiveDecision Drop VerdictBlock routeBlock gates
      | None \<Rightarrow>
          (case activationBeforeSender state policy of
             Some act \<Rightarrow>
               if effect act = SkipEffect then decisiveDecision Skip VerdictAllow act (gates @ [act])
               else decideAfterRoute state policy (Some act) (gates @ [act])
           | None \<Rightarrow> decideAfterRoute state policy None gates))"

section \<open>The admission rule\<close>

text \<open>
  Whom the kernel lets through, as one predicate over the state and the policy. A match counts when it does
  not rest on mutable identifiers alone, unless the policy enables them.
\<close>

definition authoritative :: "resolved_allowlist \<Rightarrow> ingress_policy \<Rightarrow> bool" where
  "authoritative al policy =
     (if mutableIdentifierMatching policy = Some MutableEnabled \<or> (\<forall>e \<in> set (normalizedEntries al). \<not> dangerous e)
      then matched (alMatch al)
      else \<exists>i \<in> set (alMatchedEntryIds al). \<forall>e \<in> set (normalizedEntries al). dangerous e \<longrightarrow> opaqueEntryId e \<noteq> i)"

definition dm_admits :: "ingress_state \<Rightarrow> ingress_policy \<Rightarrow> bool" where
  "dm_admits state policy =
     (case dmPolicy policy of
        DmDisabled \<Rightarrow> False
      | DmOpen \<Rightarrow> hasWildcard (dm (allowlists state)) \<or> authoritative (dm (allowlists state)) policy
      | DmAllowlist \<Rightarrow> authoritative (dm (allowlists state)) policy
      | DmPairing \<Rightarrow> authoritative (dm (allowlists state)) policy
          \<or> authoritative (pairingStore (allowlists state)) policy)"

definition group_list :: "ingress_state \<Rightarrow> ingress_policy \<Rightarrow> resolved_allowlist" where
  "group_list state policy =
     fold overrideSenders (routeFacts state)
       (if groupAllowFromFallbackToAllowFrom policy = Some True
           \<and> \<not> hasConfiguredEntries (groupSenders (allowlists state))
        then dm (allowlists state) else groupSenders (allowlists state))"

definition group_admits :: "ingress_state \<Rightarrow> ingress_policy \<Rightarrow> bool" where
  "group_admits state policy =
     (case groupPolicy policy of
        GroupDisabled \<Rightarrow> False
      | GroupOpen \<Rightarrow> True
      | GroupAllowlist \<Rightarrow> hasConfiguredEntries (group_list state policy) \<and> authoritative (group_list state policy) policy)"

definition sender_admitted :: "ingress_state \<Rightarrow> ingress_policy \<Rightarrow> bool" where
  "sender_admitted state policy =
     (if conversationKind state = DirectConversation then dm_admits state policy else group_admits state policy)"

definition command_permitted :: "ingress_state \<Rightarrow> ingress_policy \<Rightarrow> bool" where
  "command_permitted state policy =
     (let lists = [commandOwner (allowlists state), commandGroup (allowlists state)];
          listed = (\<exists>al \<in> set lists. hasConfiguredEntries al \<and> authoritative al policy) in
      case command policy of
        None \<Rightarrow> True
      | Some cmd \<Rightarrow>
          if useAccessGroups cmd = Some False then
            (case modeWhenAccessGroupsOff cmd of
               Some OffDeny \<Rightarrow> False
             | Some OffConfigured \<Rightarrow> listed \<or> (\<forall>al \<in> set lists. \<not> hasConfiguredEntries al)
             | _ \<Rightarrow> True)
          else listed)"

definition text_command :: "ingress_policy \<Rightarrow> bool" where
  "text_command policy = (case command policy of Some c \<Rightarrow> allowTextCommands c \<and> hasControlCommand c | None \<Rightarrow> False)"

definition event_admitted :: "ingress_state \<Rightarrow> ingress_policy \<Rightarrow> bool" where
  "event_admitted state policy =
     (case authMode (event state) of
        AuthInbound \<Rightarrow> sender_admitted state policy
      | AuthCommand \<Rightarrow> command_permitted state policy
      | AuthOriginSubject \<Rightarrow> hasOriginSubject (event state) \<and> originSubjectMatched (event state)
      | AuthRouteOnly \<Rightarrow> True
      | AuthNone \<Rightarrow> True)"

definition routes_open :: "ingress_state \<Rightarrow> bool" where
  "routes_open state \<longleftrightarrow>
     (\<forall>r \<in> set (routeFacts state). routeEffect r \<noteq> RouteBlocks \<and> \<not> sender_empty_route r)"

definition addressed :: "ingress_state \<Rightarrow> ingress_policy \<Rightarrow> activation_policy \<Rightarrow> mention_facts \<Rightarrow> bool" where
  "addressed state policy act facts \<longleftrightarrow>
     wasMentioned facts
     \<or> (\<exists>k \<in> set (list_or_empty (implicitMentionKinds facts)).
          case allowedImplicitMentionKinds act of Some ks \<Rightarrow> k \<in> set ks | None \<Rightarrow> True)
     \<or> (conversationKind state \<noteq> DirectConversation \<and> hasAnyMention facts \<noteq> Some True
        \<and> actAllowTextCommands act \<and> command_permitted state policy
        \<and> (case command policy of Some c \<Rightarrow> hasControlCommand c | None \<Rightarrow> False))"

definition activated :: "ingress_state \<Rightarrow> ingress_policy \<Rightarrow> bool" where
  "activated state policy =
     (case (activation policy, mentionFacts state) of
        (Some act, Some facts) \<Rightarrow>
          \<not> requireMention act \<or> \<not> canDetectMention facts \<or> addressed state policy act facts
      | _ \<Rightarrow> True)"

section \<open>The gates implement the rule\<close>

lemma mutable_simps [simp]:
  "hasWildcard (applyMutableIdentifierPolicy al p) = hasWildcard al"
  "hasConfiguredEntries (applyMutableIdentifierPolicy al p) = hasConfiguredEntries al"
  "normalizedEntries (applyMutableIdentifierPolicy al p) = normalizedEntries al"
  by (simp_all add: applyMutableIdentifierPolicy_def Let_def)

lemma dangerousEntryIds_nil: "dangerousEntryIds al = [] \<longleftrightarrow> (\<forall>e \<in> set (normalizedEntries al). \<not> dangerous e)"
  by (auto simp: dangerousEntryIds_def filter_empty_conv)

lemma matched_mutable [simp]:
  "matched (alMatch (applyMutableIdentifierPolicy al p)) \<longleftrightarrow> authoritative al p"
proof (cases "mutableIdentifierMatching p = Some MutableEnabled \<or> dangerousEntryIds al = []")
  case True
  then show ?thesis by (auto simp: applyMutableIdentifierPolicy_def authoritative_def dangerousEntryIds_nil)
next
  case False
  have "i \<notin> set (dangerousEntryIds al) \<longleftrightarrow>
      (\<forall>e \<in> set (normalizedEntries al). dangerous e \<longrightarrow> opaqueEntryId e \<noteq> i)" for i
    by (auto simp: dangerousEntryIds_def)
  with False have "authoritative al p \<longleftrightarrow> (\<exists>i \<in> set (alMatchedEntryIds al). i \<notin> set (dangerousEntryIds al))"
    by (auto simp: authoritative_def dangerousEntryIds_nil)
  with False show ?thesis
    by (simp add: applyMutableIdentifierPolicy_def Let_def filter_empty_conv)
qed

lemma senderGate_simps [simp]:
  "allowed (senderGate i k e ok r m p s) = ok" "effect (senderGate i k e ok r m p s) = e"
  "reasonCode (senderGate i k e ok r m p s) = r" "phase (senderGate i k e ok r m p s) = SenderPhase"
  "gateKind (senderGate i k e ok r m p s) = k"
  by (simp_all add: senderGate_def)

lemma direct_gate:
  "allowed (senderGateForDirect state policy) \<longleftrightarrow> dm_admits state policy"
  "effect (senderGateForDirect state policy) = (if dm_admits state policy then AllowEffect else BlockDispatch)"
  by (cases "dmPolicy policy"; simp add: senderGateForDirect_def Let_def dm_admits_def)+

lemma group_gate:
  "allowed (senderGateForGroup state policy) \<longleftrightarrow> group_admits state policy"
  "effect (senderGateForGroup state policy) = (if group_admits state policy then AllowEffect else BlockDispatch)"
  by (cases "groupPolicy policy";
      simp add: senderGateForGroup_def Let_def group_admits_def effectiveGroupSenderAllowlist_def group_list_def)+

lemma sender_gate:
  "allowed (senderGateOf state policy) \<longleftrightarrow> authMode (event state) \<noteq> AuthInbound \<or> sender_admitted state policy"
  "effect (senderGateOf state policy) =
     (if sender_admitted state policy then AllowEffect
      else if authMode (event state) = AuthInbound then BlockDispatch else IgnoreEffect)"
  by (simp_all add: senderGateOf_def applyEventAuthModeToSenderGate_def sender_admitted_def direct_gate group_gate)

lemma command_gate_allowed: "allowed (commandGate state policy) \<longleftrightarrow> command_permitted state policy"
proof (cases "command policy")
  case (Some c)
  show ?thesis
  proof (cases "useAccessGroups c = Some False")
    case True
    then show ?thesis
      by (cases "modeWhenAccessGroupsOff c")
        (auto simp: Some commandGate_def command_permitted_def resolveCommandAuthorizedFromAuthorizers_def Let_def
          split: groups_off_mode.splits)
  next
    case False
    then show ?thesis
      by (auto simp: Some commandGate_def command_permitted_def resolveCommandAuthorizedFromAuthorizers_def Let_def
          split: option.splits)
  qed
qed (simp add: commandGate_def command_permitted_def)

lemma command_gate_effect:
  "effect (commandGate state policy) =
     (if text_command policy \<and> \<not> command_permitted state policy then BlockCommand else AllowEffect)"
proof (cases "command policy")
  case (Some c)
  have "effect (commandGate state policy) =
      (if text_command policy \<and> \<not> allowed (commandGate state policy) then BlockCommand else AllowEffect)"
    by (simp add: Some commandGate_def text_command_def Let_def)
  then show ?thesis by (simp add: command_gate_allowed)
qed (simp add: commandGate_def text_command_def)

lemma event_result_simps [simp]:
  "allowed (eventResult ev ok r) = ok"
  "effect (eventResult ev ok r) = (if ok then AllowEffect else BlockDispatch)"
  by (simp_all add: eventResult_def)

lemma event_gate:
  "allowed (eventGate state (senderGateOf state policy) (commandGate state policy)) \<longleftrightarrow> event_admitted state policy"
  "effect (eventGate state (senderGateOf state policy) (commandGate state policy)) =
     (if event_admitted state policy then AllowEffect else BlockDispatch)"
  by (cases "authMode (event state)";
      simp add: eventGate_def Let_def event_admitted_def sender_gate command_gate_allowed)+

lemma fold_matchedKindStep:
  "set (fold (matchedKindStep ks) xs acc) =
     set acc \<union> {k \<in> set xs. case ks of Some zs \<Rightarrow> k \<in> set zs | None \<Rightarrow> True}"
  by (induction xs arbitrary: acc) (auto simp: matchedKindStep_def split: option.splits)

lemma set_matched_kinds:
  "set (resolveMatchedImplicitMentionKinds kinds ks) =
     {k \<in> set (list_or_empty kinds). case ks of Some zs \<Rightarrow> k \<in> set zs | None \<Rightarrow> True}"
  by (simp add: resolveMatchedImplicitMentionKinds_def Let_def fold_matchedKindStep)

lemma matched_kinds_nonempty:
  "resolveMatchedImplicitMentionKinds kinds ks \<noteq> [] \<longleftrightarrow>
     (\<exists>k \<in> set (list_or_empty kinds). case ks of Some zs \<Rightarrow> k \<in> set zs | None \<Rightarrow> True)"
  unfolding set_empty [symmetric] set_matched_kinds by auto

lemma activation_result_simps [simp]:
  "allowed (activationResult a f skip x y) = (\<not> skip)"
  "effect (activationResult a f skip x y) = (if skip then SkipEffect else AllowEffect)"
  by (simp_all add: activationResult_def)

lemma mention_skip:
  "shouldSkip (mention_decision_for state policy act facts ok) \<longleftrightarrow>
     requireMention act \<and> canDetectMention facts \<and> \<not> wasMentioned facts
     \<and> \<not> (\<exists>k \<in> set (list_or_empty (implicitMentionKinds facts)).
            case allowedImplicitMentionKinds act of Some ks \<Rightarrow> k \<in> set ks | None \<Rightarrow> True)
     \<and> \<not> (conversationKind state \<noteq> DirectConversation \<and> hasAnyMention facts \<noteq> Some True
          \<and> actAllowTextCommands act \<and> ok
          \<and> (case command policy of Some c \<Rightarrow> hasControlCommand c | None \<Rightarrow> False))"
  unfolding mention_decision_for_def resolveInboundMentionDecision_def resolveMentionDecisionCore_def Let_def
  by (cases "hasAnyMention facts") (auto simp: matched_kinds_nonempty)

lemma activation_gate_effect:
  assumes "\<And>act. activation policy = Some act \<Longrightarrow> actAllowTextCommands act \<Longrightarrow> allowed cmd = command_permitted state policy"
  shows "effect (activationGate state policy cmd) = (if activated state policy then AllowEffect else SkipEffect)"
proof (cases "activation policy")
  case (Some act)
  show ?thesis
  proof (cases "mentionFacts state")
    case (Some facts)
    with assms [OF \<open>activation policy = Some act\<close>] show ?thesis
      by (cases "actAllowTextCommands act")
        (simp_all add: \<open>activation policy = Some act\<close> activationGate_def activated_def addressed_def mention_skip Let_def)
  qed (simp add: Some activationGate_def activated_def)
qed (simp add: activationGate_def activated_def)

lemma early_activation:
  assumes "activationBeforeSender state policy = Some g"
  shows "effect g = (if activated state policy then AllowEffect else SkipEffect)"
proof -
  obtain act where "activation policy = Some act" "\<not> actAllowTextCommands act"
      "g = activationGate state policy (commandGate state (policy\<lparr>command := None\<rparr>))"
    using assms by (auto simp: activationBeforeSender_def split: option.splits if_splits)
  then show ?thesis using activation_gate_effect [of policy "commandGate state (policy\<lparr>command := None\<rparr>)" state] by simp
qed

lemma late_activation:
  "effect (activationGate state policy (commandGate state policy)) =
     (if activated state policy then AllowEffect else SkipEffect)"
  by (simp add: activation_gate_effect command_gate_allowed)

abbreviation route_gates :: "ingress_state \<Rightarrow> access_gate list" where
  "route_gates state \<equiv> routeGates state @ (case routeSenderEmptyGate state of Some g \<Rightarrow> [g] | None \<Rightarrow> [])"

lemma route_gate_effect:
  "effect (routeGateOf r) = BlockDispatch \<longleftrightarrow> routeEffect r = RouteBlocks"
  "effect (routeGateOf r) \<noteq> BlockCommand" "effect (routeGateOf r) \<noteq> SkipEffect"
  "effect (routeGateOf r) \<noteq> ObserveEffect"
  by (cases "routeEffect r"; simp add: routeGateOf_def)+

lemma sender_empty_gate:
  "routeSenderEmptyGate state = None \<longleftrightarrow> (\<forall>r \<in> set (routeFacts state). \<not> sender_empty_route r)"
  "routeSenderEmptyGate state = Some g \<Longrightarrow> effect g = BlockDispatch"
  by (auto simp: routeSenderEmptyGate_def find_None_iff find_Some_iff dest!: find_mem split: option.splits)

lemma route_gates_open:
  "find (\<lambda>g. effect g = BlockDispatch) (route_gates state) = None \<longleftrightarrow> routes_open state"
proof (cases "routeSenderEmptyGate state")
  case None
  then show ?thesis
    using sender_empty_gate(1) [of state]
    by (simp add: find_None_iff routeGates_def routes_open_def image_iff)
      (metis route_gate_effect(1))
next
  case (Some g)
  then have "\<not> routes_open state" using sender_empty_gate(1) [of state] by (auto simp: routes_open_def)
  then show ?thesis using Some sender_empty_gate(2) [OF Some] by (auto simp: find_None_iff)
qed

lemma admission_decisive [simp]: "admission (decisiveDecision a v g gs) = a"
  by (simp add: decisiveDecision_def)

lemma decide_activation:
  "effect act = (if ok then AllowEffect else SkipEffect) \<Longrightarrow>
     decideActivation act gs = decisiveDecision (if ok then Dispatch else Skip) VerdictAllow act gs"
  by (simp add: decideActivation_def)

lemma after_route_dispatch:
  assumes "\<And>act. early = Some act \<Longrightarrow> effect act = (if activated state policy then AllowEffect else SkipEffect)"
  shows "admission (decideAfterRoute state policy early gs) = Dispatch \<longleftrightarrow>
     (authMode (event state) \<noteq> AuthInbound \<or> sender_admitted state policy)
     \<and> (\<not> text_command policy \<or> command_permitted state policy)
     \<and> event_admitted state policy \<and> activated state policy"
proof (cases "authMode (event state) \<noteq> AuthInbound \<or> sender_admitted state policy")
  case False
  then show ?thesis by (simp add: decideAfterRoute_def Let_def sender_gate)
next
  case sender: True
  show ?thesis
  proof (cases "text_command policy \<and> \<not> command_permitted state policy")
    case True
    with sender show ?thesis by (simp add: decideAfterRoute_def Let_def sender_gate command_gate_effect)
  next
    case cmd: False
    show ?thesis
    proof (cases "event_admitted state policy")
      case False
      with sender cmd show ?thesis
        by (simp add: decideAfterRoute_def Let_def sender_gate command_gate_effect event_gate)
    next
      case True
      have "admission (decideAfterRoute state policy early gs) = (if activated state policy then Dispatch else Skip)"
        using sender cmd True assms
        by (cases early)
          (simp_all add: decideAfterRoute_def Let_def sender_gate command_gate_effect event_gate
            decide_activation [OF late_activation] decide_activation)
      with sender cmd True show ?thesis by simp
    qed
  qed
qed

lemma dispatch_iff_admitted:
  "admission (decideChannelIngress state policy) = Dispatch \<longleftrightarrow>
     routes_open state \<and> (authMode (event state) \<noteq> AuthInbound \<or> sender_admitted state policy)
     \<and> (\<not> text_command policy \<or> command_permitted state policy)
     \<and> event_admitted state policy \<and> activated state policy"
proof (cases "find (\<lambda>g. effect g = BlockDispatch) (route_gates state)")
  case (Some g)
  then have "\<not> routes_open state" using route_gates_open by (metis option.distinct(1))
  then show ?thesis using Some by (simp add: decideChannelIngress_def Let_def decisiveDecision_def)
next
  case None
  then have opened: "routes_open state" by (simp only: route_gates_open)
  show ?thesis
  proof (cases "activationBeforeSender state policy")
    case early: None
    with None opened after_route_dispatch [of None state policy] show ?thesis
      by (simp add: decideChannelIngress_def Let_def)
  next
    case early: (Some act)
    note eff = early_activation [OF early]
    have "admission (decideAfterRoute state policy (Some act) gs) = Dispatch \<longleftrightarrow>
       (authMode (event state) \<noteq> AuthInbound \<or> sender_admitted state policy)
       \<and> (\<not> text_command policy \<or> command_permitted state policy)
       \<and> event_admitted state policy \<and> activated state policy" for gs
      by (rule after_route_dispatch) (simp add: eff)
    with None opened early eff show ?thesis by (simp add: decideChannelIngress_def Let_def)
  qed
qed

text \<open>The admission rule of a channel, as one condition over the state and the policy.\<close>

definition ingress_admitted :: "ingress_state \<Rightarrow> ingress_policy \<Rightarrow> bool" where
  "ingress_admitted state policy \<longleftrightarrow>
     routes_open state \<and> (authMode (event state) \<noteq> AuthInbound \<or> sender_admitted state policy)
     \<and> (\<not> text_command policy \<or> command_permitted state policy)
     \<and> event_admitted state policy \<and> activated state policy"

text \<open>
  C5. The pipeline of gates implements the admission rule: an event is dispatched exactly when every route is
  open, an inbound event's sender is admitted by the policy of its conversation, no control command in its
  text lacks authorisation, its event mode is satisfied and the conversation's activation rule is met.
\<close>

theorem dispatch_exactly_when_admitted:
  "admission (decideChannelIngress state policy) = Dispatch \<longleftrightarrow> ingress_admitted state policy"
  unfolding ingress_admitted_def by (rule dispatch_iff_admitted)

definition refuses :: "access_gate \<Rightarrow> bool" where
  "refuses g \<longleftrightarrow> effect g \<in> {BlockDispatch, BlockCommand, SkipEffect}"

definition explained :: "ingress_decision \<Rightarrow> bool" where
  "explained d =
     (case find refuses (graph d) of
        None \<Rightarrow> admission d = Dispatch \<and> decision d = VerdictAllow
      | Some g \<Rightarrow> admission d \<notin> {Dispatch, Observe} \<and> decisiveGateId d = gateId g \<and> decisionReason d = reasonCode g)"

lemma find_snoc: "find P xs = None \<Longrightarrow> find P (xs @ [x]) = (if P x then Some x else None)"
  by (induction xs) (auto split: if_splits)

lemma explained_refusal:
  "find refuses gs = None \<Longrightarrow> refuses g \<Longrightarrow> a \<notin> {Dispatch, Observe} \<Longrightarrow>
     explained (decisiveDecision a v g (gs @ [g]))"
  by (simp add: explained_def decisiveDecision_def find_snoc)

lemma explained_pass:
  "find refuses gs = None \<Longrightarrow> explained (decisiveDecision Dispatch VerdictAllow g gs)"
  by (simp add: explained_def decisiveDecision_def)

lemma effects_refuse:
  "effect g = (if ok then AllowEffect else SkipEffect) \<Longrightarrow> refuses g \<longleftrightarrow> \<not> ok"
  "effect g = (if ok then AllowEffect else BlockDispatch) \<Longrightarrow> refuses g \<longleftrightarrow> \<not> ok"
  "effect g = (if ok then BlockCommand else AllowEffect) \<Longrightarrow> refuses g \<longleftrightarrow> ok"
  by (simp_all add: refuses_def)

lemma sender_gate_refuses: "refuses (senderGateOf state policy) \<longleftrightarrow> \<not> allowed (senderGateOf state policy)"
  by (simp add: refuses_def sender_gate)

lemmas gate_refusals =
  effects_refuse(1) [OF late_activation] effects_refuse(2) [OF event_gate(2)] effects_refuse(3) [OF command_gate_effect]
  sender_gate_refuses

lemma explained_activation:
  assumes "find refuses gs = None" and "effect act = (if ok then AllowEffect else SkipEffect)"
  shows "explained (decideActivation act (gs @ [act]))" and "ok \<Longrightarrow> explained (decideActivation act gs)"
  using assms(1) explained_refusal [OF assms(1), of act Skip VerdictAllow] effects_refuse(1) [OF assms(2)]
  by (simp_all add: decide_activation [OF assms(2)] explained_pass find_snoc)

lemma explained_after_route:
  assumes gs: "find refuses gs = None"
    and early: "\<And>act. early = Some act \<Longrightarrow> effect act = AllowEffect"
  shows "explained (decideAfterRoute state policy early gs)"
proof (cases "allowed (senderGateOf state policy)")
  case False
  with gs show ?thesis
    by (simp add: decideAfterRoute_def Let_def explained_refusal gate_refusals)
next
  case sender: True
  with gs have 1: "find refuses (gs @ [senderGateOf state policy]) = None"
    by (simp add: find_snoc gate_refusals)
  show ?thesis
  proof (cases "text_command policy \<and> \<not> command_permitted state policy")
    case True
    with sender explained_refusal [OF 1, of "commandGate state policy" Drop VerdictBlock] show ?thesis
      by (simp add: decideAfterRoute_def Let_def command_gate_effect gate_refusals)
  next
    case cmd: False
    with 1 have 2: "find refuses ((gs @ [senderGateOf state policy]) @ [commandGate state policy]) = None"
      by (simp only: find_snoc) (simp add: gate_refusals)
    show ?thesis
    proof (cases "event_admitted state policy")
      case False
      with sender cmd explained_refusal [OF 2, of "eventGate state (senderGateOf state policy) (commandGate state policy)" Drop VerdictBlock]
      show ?thesis
        by (auto simp: decideAfterRoute_def Let_def command_gate_effect event_gate gate_refusals)
    next
      case True
      with 2 have 3: "find refuses (((gs @ [senderGateOf state policy]) @ [commandGate state policy])
          @ [eventGate state (senderGateOf state policy) (commandGate state policy)]) = None"
        by (simp only: find_snoc) (simp add: gate_refusals)
      show ?thesis
      proof (cases early)
        case None
        from sender cmd True None explained_activation(1) [OF 3 late_activation] show ?thesis
          by (auto simp: decideAfterRoute_def Let_def command_gate_effect event_gate)
      next
        case (Some act)
        then have "effect act = (if True then AllowEffect else SkipEffect)" using early by simp
        from sender cmd True Some explained_activation(2) [OF 3 this] show ?thesis
          by (auto simp: decideAfterRoute_def Let_def command_gate_effect event_gate)
      qed
    qed
  qed
qed

lemma route_gates_refuse:
  "g \<in> set (route_gates state) \<Longrightarrow> refuses g \<longleftrightarrow> effect g = BlockDispatch"
  using route_gate_effect sender_empty_gate(2)
  by (auto simp: refuses_def routeGates_def split: option.splits)

lemma find_cong_on: "(\<And>x. x \<in> set xs \<Longrightarrow> P x = Q x) \<Longrightarrow> find P xs = find Q xs"
  by (induction xs) auto

text \<open>
  C28. The access graph explains the decision: the event is dispatched when no gate of the graph
  refuses, and otherwise the gate named as decisive, with its reason, is the first gate of the graph that
  refuses (blocks the dispatch, blocks a command or skips).
\<close>

theorem decision_is_first_refusal: "explained (decideChannelIngress state policy)"
proof -
  have eq: "find refuses (route_gates state) = find (\<lambda>g. effect g = BlockDispatch) (route_gates state)"
    by (rule find_cong_on) (rule route_gates_refuse)
  show ?thesis
  proof (cases "find (\<lambda>g. effect g = BlockDispatch) (route_gates state)")
    case (Some g)
    with eq show ?thesis by (simp add: decideChannelIngress_def Let_def explained_def decisiveDecision_def)
  next
    case None
    with eq have 0: "find refuses (route_gates state) = None" by simp
    show ?thesis
    proof (cases "activationBeforeSender state policy")
      case early: None
      have "explained (decideAfterRoute state policy None (route_gates state))"
        by (rule explained_after_route [OF 0]) simp
      with None early show ?thesis by (simp add: decideChannelIngress_def Let_def)
    next
      case early: (Some act)
      note eff = early_activation [OF early]
      show ?thesis
      proof (cases "activated state policy")
        case True
        with eff 0 have "find refuses (route_gates state @ [act]) = None"
          by (simp only: find_snoc) (simp add: refuses_def)
        then have "explained (decideAfterRoute state policy (Some act) (route_gates state @ [act]))"
          by (rule explained_after_route) (simp add: eff True)
        with None early eff True show ?thesis by (simp add: decideChannelIngress_def Let_def)
      next
        case False
        with eff explained_refusal [OF 0, of act Skip VerdictAllow] None early show ?thesis
          by (simp add: decideChannelIngress_def Let_def refuses_def)
      qed
    qed
  qed
qed

definition skipped_early :: "ingress_state \<Rightarrow> ingress_policy \<Rightarrow> bool" where
  "skipped_early state policy \<longleftrightarrow>
     (case activation policy of
        Some act \<Rightarrow> order act = Some BeforeSender \<and> \<not> actAllowTextCommands act \<and> \<not> activated state policy
      | None \<Rightarrow> False)"

definition may_offer_pairing :: "ingress_state \<Rightarrow> ingress_policy \<Rightarrow> bool" where
  "may_offer_pairing state policy \<longleftrightarrow>
     conversationKind state = DirectConversation \<and> authMode (event state) = AuthInbound
     \<and> dmPolicy policy = DmPairing \<and> mayPair (event state)
     \<and> \<not> authoritative (dm (allowlists state)) policy \<and> \<not> authoritative (pairingStore (allowlists state)) policy"

lemma pairing_gate:
  "\<not> allowed (senderGateOf state policy) \<and> reasonCode (senderGateOf state policy) = DmPolicyPairingRequired \<longleftrightarrow>
     may_offer_pairing state policy"
proof (cases "conversationKind state = DirectConversation")
  case True
  have "\<not> dm_admits state policy \<and> reasonCode (senderGateForDirect state policy) = DmPolicyPairingRequired \<longleftrightarrow>
      dmPolicy policy = DmPairing \<and> mayPair (event state)
      \<and> \<not> authoritative (dm (allowlists state)) policy \<and> \<not> authoritative (pairingStore (allowlists state)) policy"
    by (cases "dmPolicy policy")
      (simp_all add: senderGateForDirect_def Let_def dm_admits_def allowlistFailureReason_def)
  with True show ?thesis
    by (auto simp: senderGateOf_def applyEventAuthModeToSenderGate_def direct_gate may_offer_pairing_def)
next
  case False
  have "reasonCode (senderGateForGroup state policy) \<noteq> DmPolicyPairingRequired"
    by (simp add: senderGateForGroup_def Let_def allowlistFailureReason_def)
  with False show ?thesis
    by (auto simp: senderGateOf_def applyEventAuthModeToSenderGate_def may_offer_pairing_def)
qed

lemma pairing_after_route:
  "admission (decideAfterRoute state policy early gs) = PairingRequired \<longleftrightarrow> may_offer_pairing state policy"
proof (cases "allowed (senderGateOf state policy)")
  case False
  then show ?thesis using pairing_gate [of state policy] by (auto simp: decideAfterRoute_def Let_def)
next
  case True
  have "admission (decideActivation act gs) \<noteq> PairingRequired" for act gs
    by (simp add: decideActivation_def)
  with True pairing_gate [of state policy] show ?thesis
    by (simp add: decideAfterRoute_def Let_def split: option.splits)
qed

text \<open>
  A pairing code is offered exactly to the unknown direct sender: the conversation is direct and
  the event an inbound one that may pair, the policy is pairing, neither the configured allowlist nor the
  pairing store vouches for the sender, no route refuses, and no early activation check skips the event.
\<close>

theorem pairing_offered_exactly_to_strangers:
  "admission (decideChannelIngress state policy) = PairingRequired \<longleftrightarrow>
     routes_open state \<and> \<not> skipped_early state policy \<and> may_offer_pairing state policy"
proof (cases "find (\<lambda>g. effect g = BlockDispatch) (route_gates state)")
  case (Some g)
  then have "\<not> routes_open state" using route_gates_open by (metis option.distinct(1))
  then show ?thesis using Some by (simp add: decideChannelIngress_def Let_def)
next
  case None
  then have opened: "routes_open state" by (simp only: route_gates_open)
  show ?thesis
  proof (cases "activationBeforeSender state policy")
    case early: None
    then have "\<not> skipped_early state policy"
      by (auto simp: activationBeforeSender_def skipped_early_def split: option.splits if_splits)
    with None opened early pairing_after_route show ?thesis
      by (simp add: decideChannelIngress_def Let_def)
  next
    case early: (Some act)
    then have "skipped_early state policy \<longleftrightarrow> \<not> activated state policy"
      by (auto simp: activationBeforeSender_def skipped_early_def split: option.splits if_splits)
    with None opened early early_activation [OF early] pairing_after_route show ?thesis
      by (simp add: decideChannelIngress_def Let_def)
  qed
qed

end
