(* ===== verification/IngressState.thy ===== *)
theory IngressState
  imports IngressDecision
begin

text \<open>
  How the facts of an inbound event are resolved: \<^verbatim>\<open>message-access/runtime-identity.ts\<close> (the identity
  adapter of a channel), \<^verbatim>\<open>message-access/runtime-access-groups.ts\<close> and \<^verbatim>\<open>message-access/state.ts\<close>.
  The normalisers, match hooks and entry-id generators a channel plugin passes in are functions of the
  identity descriptor; a dynamic membership check returns \<open>None\<close> when it throws. Objects that serve as maps
  are partial functions on their own keys. \<^verbatim>\<open>localeCompare\<close>, which orders routes of equal precedence, is an
  argument.
\<close>

section \<open>Identities\<close>

datatype danger_rule = DangerConst bool | DangerTest "string \<Rightarrow> bool"

record field_rules =
  normalize :: "(string \<Rightarrow> string option) option"
  normalizeEntry :: "(string \<Rightarrow> string option) option"
  normalizeSubject :: "(string \<Rightarrow> string option) option"
  danger :: "danger_rule option"
  fieldSensitivity :: "sensitivity option"

record identity_field = field_rules +
  keyOption :: "string option"
  kindOption :: "identifier_kind option"

record identity_alias = field_rules +
  aliasKey :: string
  aliasKindOption :: "identifier_kind option"

record resolved_field = field_rules +
  fieldKey :: string
  fieldKind :: identifier_kind

record identity_descriptor =
  primary :: identity_field
  aliases :: "identity_alias list"
  isWildcardEntry :: "(string \<Rightarrow> bool) option"
  matchEntry :: "(ingress_subject \<Rightarrow> internal_entry \<Rightarrow> match_context \<Rightarrow> bool option) option"
  resolveEntryId :: "(string \<Rightarrow> nat \<Rightarrow> string \<Rightarrow> nat \<Rightarrow> string) option"

record stable_identity = identity_descriptor +
  entryIdPrefix :: "string option"

definition defineStableChannelIngressIdentity :: "stable_identity \<Rightarrow> identity_descriptor" where
  "defineStableChannelIngressIdentity p =
     \<lparr>primary = primary p, aliases = aliases p, isWildcardEntry = isWildcardEntry p, matchEntry = matchEntry p,
      resolveEntryId =
        (case resolveEntryId p of
           Some f \<Rightarrow> Some f
         | None \<Rightarrow>
             (case entryIdPrefix p of
                None \<Rightarrow> None
              | Some prefix \<Rightarrow>
                  if prefix = [] then None
                  else Some (\<lambda>entry entryIndex key fieldIndex. prefix @ ''-'' @ show_nat (entryIndex + 1))))\<rparr>"

datatype value_side = EntrySide | SubjectSide

definition normalizeFieldValue :: "resolved_field \<Rightarrow> string \<Rightarrow> value_side \<Rightarrow> string option" where
  "normalizeFieldValue field value side =
     (let f = (case (case side of EntrySide \<Rightarrow> normalizeEntry field | SubjectSide \<Rightarrow> normalizeSubject field) of
                 Some g \<Rightarrow> g
               | None \<Rightarrow> (case normalize field of Some g \<Rightarrow> g | None \<Rightarrow> Some))
      in case f value of
           None \<Rightarrow> None
         | Some v \<Rightarrow> (let t = js_trim v in if t = [] then None else Some t))"

definition fieldDangerous :: "resolved_field \<Rightarrow> string \<Rightarrow> bool" where
  "fieldDangerous field value =
     (case danger field of None \<Rightarrow> False | Some (DangerConst b) \<Rightarrow> b | Some (DangerTest f) \<Rightarrow> f value)"

definition resolvedField :: "'a field_rules_scheme \<Rightarrow> string \<Rightarrow> identifier_kind \<Rightarrow> resolved_field" where
  "resolvedField f key kind =
     \<lparr>normalize = normalize f, normalizeEntry = normalizeEntry f, normalizeSubject = normalizeSubject f,
      danger = danger f, fieldSensitivity = fieldSensitivity f, fieldKey = key, fieldKind = kind\<rparr>"

definition aliasField :: "identity_alias \<Rightarrow> resolved_field" where
  "aliasField alias =
     resolvedField alias (aliasKey alias)
       (case aliasKindOption alias of Some k \<Rightarrow> k | None \<Rightarrow> PluginKind (aliasKey alias))"

definition primaryField :: "identity_descriptor \<Rightarrow> resolved_field" where
  "primaryField d =
     resolvedField (primary d) (case keyOption (primary d) of Some k \<Rightarrow> k | None \<Rightarrow> ''stableId'')
       (case kindOption (primary d) of Some k \<Rightarrow> k | None \<Rightarrow> StableId)"

definition identityFields :: "identity_descriptor \<Rightarrow> resolved_field list" where
  "identityFields d = primaryField d # map aliasField (aliases d)"

primrec kindText :: "identifier_kind \<Rightarrow> string" where
  "kindText StableId = ''stable-id''"
| "kindText Username = ''username''"
| "kindText Email = ''email''"
| "kindText Phone = ''phone''"
| "kindText RoleId = ''role''"
| "kindText (PluginKind key) = ''plugin:'' @ key"

definition identityMatchKey :: "identifier_kind \<Rightarrow> string \<Rightarrow> string" where
  "identityMatchKey kind value = kindText kind @ '':'' @ value"

definition adapterEntry ::
    "identity_descriptor \<Rightarrow> resolved_field \<Rightarrow> nat \<Rightarrow> string \<Rightarrow> nat \<Rightarrow> string \<Rightarrow> string option \<Rightarrow> internal_entry" where
  "adapterEntry identity field fieldIndex entry entryIndex value fallbackSuffix =
     \<lparr>opaqueEntryId =
        (case resolveEntryId identity of
           Some f \<Rightarrow> f entry entryIndex (fieldKey field) fieldIndex
         | None \<Rightarrow> ''entry-'' @ show_nat (entryIndex + 1) @ '':''
             @ (case fallbackSuffix of Some s \<Rightarrow> s | None \<Rightarrow> fieldKey field)),
      entryKind = fieldKind field, dangerous = fieldDangerous field entry,
      entrySensitivity = fieldSensitivity field, entryValue = value\<rparr>"

definition isWildcard :: "identity_descriptor \<Rightarrow> string \<Rightarrow> bool" where
  "isWildcard identity entry = (case isWildcardEntry identity of Some f \<Rightarrow> f entry | None \<Rightarrow> entry = ''*'')"

definition fieldEntries :: "identity_descriptor \<Rightarrow> string \<times> nat \<Rightarrow> resolved_field \<times> nat \<Rightarrow> internal_entry list" where
  "fieldEntries identity = (\<lambda>(entry, entryIndex) (field, fieldIndex).
     case normalizeFieldValue field entry EntrySide of
       None \<Rightarrow> []
     | Some value \<Rightarrow> [adapterEntry identity field fieldIndex entry entryIndex value None])"

definition entriesOf :: "identity_descriptor \<Rightarrow> string \<times> nat \<Rightarrow> internal_entry list" where
  "entriesOf identity e =
     (if isWildcard identity (fst e)
      then [adapterEntry identity (primaryField identity) 0 (fst e) (snd e) ''*'' (Some ''wildcard'')]
      else concat (map (fieldEntries identity e) (zip (identityFields identity) [0..<length (identityFields identity)])))"

definition adapterNormalizeEntries :: "identity_descriptor \<Rightarrow> string list \<Rightarrow> normalize_result" where
  "adapterNormalizeEntries identity es =
     \<lparr>matchable = concat (map (entriesOf identity) (zip es [0..<length es])), invalid = [], disabled = []\<rparr>"

definition subjectKey :: "identity_descriptor \<Rightarrow> match_material \<Rightarrow> string list" where
  "subjectKey identity identifier =
     (case find (\<lambda>candidate. fieldKind candidate = materialKind identifier) (identityFields identity) of
        None \<Rightarrow> []
      | Some field \<Rightarrow>
          (case normalizeFieldValue field (materialValue identifier) SubjectSide of
             None \<Rightarrow> []
           | Some value \<Rightarrow> [identityMatchKey (materialKind identifier) value]))"

definition entryMatches ::
    "identity_descriptor \<Rightarrow> ingress_subject \<Rightarrow> match_context \<Rightarrow> internal_entry \<Rightarrow> bool" where
  "entryMatches identity subject ctx entry =
     (let subjectKeys = concat (map (subjectKey identity) subject);
          fallback = (entryValue entry = ''*''
            \<or> identityMatchKey (entryKind entry) (entryValue entry) \<in> set subjectKeys)
      in case (case matchEntry identity of Some f \<Rightarrow> f subject entry ctx | None \<Rightarrow> None) of
           Some b \<Rightarrow> b
         | None \<Rightarrow> fallback)"

definition adapterMatchSubject ::
    "identity_descriptor \<Rightarrow> ingress_subject \<Rightarrow> internal_entry list \<Rightarrow> match_context \<Rightarrow> ingress_match" where
  "adapterMatchSubject identity subject es ctx =
     (let ids = map opaqueEntryId (filter (entryMatches identity subject ctx) es)
      in \<lparr>matched = (length ids > 0), matchedEntryIds = ids\<rparr>)"

definition createIdentityAdapter :: "identity_descriptor \<Rightarrow> ingress_adapter" where
  "createIdentityAdapter identity =
     \<lparr>normalizeEntries = (\<lambda>es ctx account. adapterNormalizeEntries identity es),
      matchSubject = adapterMatchSubject identity\<rparr>"

record subject_input =
  stableId :: "string option"
  aliasValues :: "string \<rightharpoonup> string"

definition subjectMaterial :: "subject_input \<Rightarrow> resolved_field \<times> nat \<Rightarrow> match_material list" where
  "subjectMaterial input = (\<lambda>(field, index).
     case (if index = 0 then stableId input else aliasValues input (fieldKey field)) of
       None \<Rightarrow> []
     | Some value \<Rightarrow>
         [\<lparr>opaqueId = fieldKey field, materialKind = fieldKind field, materialDangerous = fieldDangerous field value,
           materialSensitivity = fieldSensitivity field, materialValue = value\<rparr>])"

definition createIdentitySubject :: "identity_descriptor \<Rightarrow> subject_input \<Rightarrow> ingress_subject" where
  "createIdentitySubject identity input =
     concat (map (subjectMaterial input) (zip (identityFields identity) [0..<length (identityFields identity)]))"

section \<open>Access groups\<close>

datatype access_group_config =
    DiscordChannelAudience string string
  | MessageSenders "string \<rightharpoonup> string list"

fun groupMembers :: "access_group_config \<Rightarrow> (string \<rightharpoonup> string list) option" where
  "groupMembers (MessageSenders members) = Some members"
| "groupMembers (DiscordChannelAudience guild chan) = None"

definition collectNames :: "string list \<Rightarrow> string list" where
  "collectNames es = concat (map (\<lambda>e. case parseAccessGroupAllowFromEntry e of Some n \<Rightarrow> [n] | None \<Rightarrow> []) es)"

definition accessGroupNames :: "string list \<Rightarrow> string list" where
  "accessGroupNames es = uniqueStrings (collectNames es)"

definition allReferencedAccessGroupNames :: "string list list \<Rightarrow> string list" where
  "allReferencedAccessGroupNames ess = uniqueStrings (concat (map accessGroupNames ess))"

definition normalizeEffectiveEntries :: "ingress_adapter \<Rightarrow> string \<Rightarrow> string list \<Rightarrow> match_context \<Rightarrow> string list" where
  "normalizeEffectiveEntries adapter account es ctx =
     (let rawEntries = normalizeStringEntries es;
          accessGroupEntries = filter (\<lambda>e. parseAccessGroupAllowFromEntry e \<noteq> None) rawEntries;
          directEntries = filter (\<lambda>e. parseAccessGroupAllowFromEntry e = None) rawEntries
      in if length directEntries = 0 then accessGroupEntries
         else uniqueStrings (accessGroupEntries
           @ map entryValue (matchable (normalizeEntries adapter directEntries ctx account))))"

definition runtimeMembershipFact ::
    "(string \<rightharpoonup> access_group_config) \<Rightarrow> (string \<Rightarrow> access_group_config \<Rightarrow> bool option) \<Rightarrow> string \<Rightarrow> membership_fact list" where
  "runtimeMembershipFact groups check name =
     (case groups name of
        None \<Rightarrow> []
      | Some (MessageSenders _) \<Rightarrow> []
      | Some config \<Rightarrow>
          [\<lparr>groupName = name, factSource = DynamicFact,
            factKind =
              (case check name config of
                 Some True \<Rightarrow> FactMatched [''access-group:'' @ name]
               | Some False \<Rightarrow> FactNotMatched
               | None \<Rightarrow> FactProblem GroupFailed AccessGroupFailed (Some (''access-group:'' @ name)))\<rparr>])"

definition resolveRuntimeAccessGroupMembershipFacts ::
    "(string \<rightharpoonup> access_group_config) \<Rightarrow> (string \<Rightarrow> access_group_config \<Rightarrow> bool option) option \<Rightarrow> string list
     \<Rightarrow> membership_fact list" where
  "resolveRuntimeAccessGroupMembershipFacts groups check names =
     (case check of
        None \<Rightarrow> []
      | Some f \<Rightarrow> if length names = 0 then [] else concat (map (runtimeMembershipFact groups f) names))"

section \<open>Allowlists\<close>

record state_input =
  inChannelId :: string
  inAccountId :: string
  inSubject :: ingress_subject
  inConversation :: conversation_kind
  inAdapter :: ingress_adapter
  inAccessGroups :: "string \<rightharpoonup> access_group_config"
  inMembership :: "membership_fact list"
  inRouteFacts :: "route_fact list"
  inMentionFacts :: "mention_facts option"
  inEvent :: event_input
  inDm :: "string list option"
  inGroup :: "string list option"
  inCommandOwner :: "string list option"
  inCommandGroup :: "string list option"
  inPairingStore :: "string list option"

definition redactedEntries :: "internal_entry list \<Rightarrow> normalized_entry list" where
  "redactedEntries es = map normalized_entry.truncate es"

definition emptyMatch :: ingress_match where
  "emptyMatch = \<lparr>matched = False, matchedEntryIds = []\<rparr>"

definition mergeMatches :: "ingress_match list \<Rightarrow> ingress_match" where
  "mergeMatches ms =
     (let ids = uniqueStrings (concat (map matchedEntryIds ms))
      in \<lparr>matched = (list_ex matched ms \<or> length ids > 0), matchedEntryIds = ids\<rparr>)"

definition accessGroupFactByName :: "membership_fact list \<Rightarrow> string \<rightharpoonup> membership_fact" where
  "accessGroupFactByName facts = map_of (rev (map (\<lambda>f. (groupName f, f)) facts))"

record match_outcome =
  moEntries :: "normalized_entry list"
  moInvalid :: "entry_diagnostic list"
  moDisabled :: "entry_diagnostic list"
  moMatch :: ingress_match

definition normalizeAndMatch :: "state_input \<Rightarrow> string list \<Rightarrow> match_context \<Rightarrow> match_outcome" where
  "normalizeAndMatch input es ctx =
     (if length es = 0 then \<lparr>moEntries = [], moInvalid = [], moDisabled = [], moMatch = emptyMatch\<rparr>
      else let norm = normalizeEntries (inAdapter input) es ctx (inAccountId input);
               m = (if length (matchable norm) > 0
                    then matchSubject (inAdapter input) (inSubject input) (matchable norm) ctx else emptyMatch)
           in \<lparr>moEntries = redactedEntries (matchable norm), moInvalid = invalid norm,
               moDisabled = disabled norm, moMatch = m\<rparr>)"

definition referencedAccessGroups :: "string list \<Rightarrow> string list" where
  "referencedAccessGroups es = uniqueStrings (collectNames es)"

definition directAllowlistEntries :: "string list \<Rightarrow> string list" where
  "directAllowlistEntries es = filter (\<lambda>e. parseAccessGroupAllowFromEntry e = None) es"

definition groupSenderEntries :: "state_input \<Rightarrow> string \<Rightarrow> string list" where
  "groupSenderEntries input name =
     (case Option.bind (inAccessGroups input name) groupMembers of
        None \<Rightarrow> []
      | Some members \<Rightarrow>
          normalizeStringEntries (list_or_empty (members ''*'') @ list_or_empty (members (inChannelId input))))"

record group_outcome = match_outcome +
  goMatches :: "ingress_match list"
  goGroups :: access_group_facts

definition no_groups :: "string list \<Rightarrow> access_group_facts" where
  "no_groups refd = \<lparr>referenced = refd, agMatched = [], missing = [], unsupported = [], failed = []\<rparr>"

definition problemGroup :: "membership_problem \<Rightarrow> string \<Rightarrow> access_group_facts \<Rightarrow> access_group_facts" where
  "problemGroup problem name g =
     (case problem of
        GroupMissing \<Rightarrow> g\<lparr>missing := missing g @ [name]\<rparr>
      | GroupUnsupported \<Rightarrow> g\<lparr>unsupported := unsupported g @ [name]\<rparr>
      | GroupFailed \<Rightarrow> g\<lparr>failed := failed g @ [name]\<rparr>)"

definition resolveAccessGroup ::
    "state_input \<Rightarrow> match_context \<Rightarrow> string \<Rightarrow> group_outcome \<Rightarrow> group_outcome" where
  "resolveAccessGroup input ctx name out =
     (case map_option factKind (accessGroupFactByName (inMembership input) name) of
        Some (FactMatched ids) \<Rightarrow>
          out\<lparr>goGroups := (goGroups out)\<lparr>agMatched := agMatched (goGroups out) @ [name]\<rparr>,
              goMatches := goMatches out @ [\<lparr>matched = True, matchedEntryIds = ids\<rparr>]\<rparr>
      | Some (FactProblem problem _ _) \<Rightarrow> out\<lparr>goGroups := problemGroup problem name (goGroups out)\<rparr>
      | Some FactNotMatched \<Rightarrow> out
      | None \<Rightarrow>
          (case inAccessGroups input name of
             None \<Rightarrow> out\<lparr>goGroups := problemGroup GroupMissing name (goGroups out)\<rparr>
           | Some (DiscordChannelAudience _ _) \<Rightarrow>
               out\<lparr>goGroups := problemGroup GroupUnsupported name (goGroups out)\<rparr>
           | Some (MessageSenders _) \<Rightarrow>
               let r = normalizeAndMatch input (groupSenderEntries input name) ctx;
                   out1 = out\<lparr>moEntries := moEntries out @ moEntries r, moInvalid := moInvalid out @ moInvalid r,
                              moDisabled := moDisabled out @ moDisabled r\<rparr>
               in if matched (moMatch r) then
                    out1\<lparr>goGroups := (goGroups out1)\<lparr>agMatched := agMatched (goGroups out1) @ [name]\<rparr>,
                         goMatches := goMatches out1 @ [moMatch r]\<rparr>
                  else out1))"

definition resolveAccessGroupEntries :: "state_input \<Rightarrow> match_context \<Rightarrow> string list \<Rightarrow> group_outcome" where
  "resolveAccessGroupEntries input ctx names =
     fold (resolveAccessGroup input ctx) names
       \<lparr>moEntries = [], moInvalid = [], moDisabled = [], moMatch = emptyMatch, goMatches = [],
        goGroups = no_groups names\<rparr>"

definition resolveIngressAllowlist :: "state_input \<Rightarrow> string list option \<Rightarrow> match_context \<Rightarrow> resolved_allowlist" where
  "resolveIngressAllowlist input rawEntries ctx =
     (let es = normalizeStringEntries (list_or_empty rawEntries);
          refd = referencedAccessGroups es;
          directEntries = directAllowlistEntries es;
          direct = normalizeAndMatch input directEntries ctx;
          groups = resolveAccessGroupEntries input ctx refd;
          m = mergeMatches (moMatch direct # goMatches groups)
      in \<lparr>rawEntryCount = length es,
          normalizedEntries = moEntries direct @ moEntries groups,
          invalidEntries = moInvalid direct @ moInvalid groups,
          disabledEntries = moDisabled direct @ moDisabled groups,
          alMatchedEntryIds = matchedEntryIds m,
          hasConfiguredEntries = (length es > 0),
          hasMatchableEntries = (length (moEntries direct) > 0 \<or> length (moEntries groups) > 0),
          hasWildcard = (''*'' \<in> set directEntries),
          accessGroups = goGroups groups,
          alMatch = m\<rparr>)"

section \<open>Origin subjects, routes and the state\<close>

definition eventSubjectMatchContext :: "state_input \<Rightarrow> match_context" where
  "eventSubjectMatchContext input = (if inConversation input = DirectConversation then DmContext else GroupContext)"

definition subjectEntries ::
    "state_input \<Rightarrow> match_context \<Rightarrow> string \<Rightarrow> match_material \<times> nat \<Rightarrow> internal_entry list" where
  "subjectEntries input ctx opaquePrefix = (\<lambda>(identifier, identifierIndex).
     let es = filter (\<lambda>e. entryKind e = materialKind identifier \<and> entryValue e \<noteq> ''*'')
       (matchable (normalizeEntries (inAdapter input) [materialValue identifier] ctx (inAccountId input)))
     in map (\<lambda>(e, entryIndex).
          e\<lparr>opaqueEntryId := opaquePrefix @ ''-'' @ show_nat (identifierIndex + 1) @ '':'' @ show_nat (entryIndex + 1)\<rparr>)
          (zip es [0..<length es]))"

definition normalizeSubjectIdentifiersForMatch ::
    "state_input \<Rightarrow> ingress_subject \<Rightarrow> match_context \<Rightarrow> string \<Rightarrow> internal_entry list" where
  "normalizeSubjectIdentifiersForMatch input subject ctx opaquePrefix =
     concat (map (subjectEntries input ctx opaquePrefix) (zip subject [0..<length subject]))"

definition resolveOriginSubjectMatched :: "state_input \<Rightarrow> bool" where
  "resolveOriginSubjectMatched input =
     (case originSubject (inEvent input) of
        None \<Rightarrow> False
      | Some origin \<Rightarrow>
          if list_ex (\<lambda>i. list_ex (\<lambda>c. materialKind c = materialKind i \<and> materialValue c = materialValue i)
               (inSubject input)) origin then True
          else let ctx = eventSubjectMatchContext input;
                   originEntries = normalizeSubjectIdentifiersForMatch input origin ctx ''origin'' in
          if length originEntries > 0
             \<and> matched (matchSubject (inAdapter input) (inSubject input) originEntries ctx) then True
          else let currentEntries = normalizeSubjectIdentifiersForMatch input (inSubject input) ctx ''current'' in
          if length currentEntries = 0 then False
          else matched (matchSubject (inAdapter input) origin currentEntries ctx))"

definition compareRoutes :: "(string \<Rightarrow> string \<Rightarrow> int) \<Rightarrow> route_fact \<Rightarrow> route_fact \<Rightarrow> rat" where
  "compareRoutes localeCompare left right =
     (if precedence left - precedence right \<noteq> 0 then precedence left - precedence right
      else of_int (localeCompare (routeId left) (routeId right)))"

definition routeSenderEntries :: "state_input \<Rightarrow> route_fact \<Rightarrow> string list option" where
  "routeSenderEntries input route =
     (case senderAllowFrom route of
        Some xs \<Rightarrow> Some xs
      | None \<Rightarrow>
          (case senderAllowFromSource route of
             Some EffectiveDm \<Rightarrow> inDm input
           | Some EffectiveGroup \<Rightarrow> inGroup input
           | None \<Rightarrow> None))"

definition resolveRoute :: "state_input \<Rightarrow> route_fact \<Rightarrow> resolved_route" where
  "resolveRoute input route =
     route_base.extend (route_base.truncate route)
       (resolved_route.fields
         (map_option (\<lambda>xs. resolveIngressAllowlist input (Some xs) RouteContext) (routeSenderEntries input route)))"

definition resolveRouteFacts :: "(string \<Rightarrow> string \<Rightarrow> int) \<Rightarrow> state_input \<Rightarrow> resolved_route list" where
  "resolveRouteFacts localeCompare input =
     map (resolveRoute input) (toSorted (compareRoutes localeCompare) (inRouteFacts input))"

definition resolveChannelIngressState :: "(string \<Rightarrow> string \<Rightarrow> int) \<Rightarrow> state_input \<Rightarrow> ingress_state" where
  "resolveChannelIngressState localeCompare input =
     \<lparr>channelId = inChannelId input, accountId = inAccountId input, conversationKind = inConversation input,
      event = \<lparr>eventKind = eventInputKind (inEvent input), authMode = eventInputMode (inEvent input),
        mayPair = eventMayPair (inEvent input), hasOriginSubject = (originSubject (inEvent input) \<noteq> None),
        originSubjectMatched = resolveOriginSubjectMatched input\<rparr>,
      mentionFacts = inMentionFacts input,
      routeFacts = resolveRouteFacts localeCompare input,
      allowlists =
        \<lparr>dm = resolveIngressAllowlist input (inDm input) DmContext,
         pairingStore = resolveIngressAllowlist input (inPairingStore input) DmContext,
         groupSenders = resolveIngressAllowlist input (inGroup input) GroupContext,
         commandOwner = resolveIngressAllowlist input (inCommandOwner input) CommandContext,
         commandGroup = resolveIngressAllowlist input (inCommandGroup input) CommandContext\<rparr>\<rparr>"

section \<open>Who an allowlist vouches for\<close>

text \<open>
  An entry vouches for a subject when it is a wildcard or when one field of the identity reads it as a value
  that the subject has. With \<open>safe\<close>, fields that are mutable for the entry do not count.
\<close>

definition vouched_by :: "identity_descriptor \<Rightarrow> ingress_subject \<Rightarrow> bool \<Rightarrow> string \<Rightarrow> bool" where
  "vouched_by d subject safe e =
     (if isWildcard d e then \<not> safe \<or> \<not> fieldDangerous (primaryField d) e
      else \<exists>f \<in> set (identityFields d). (\<not> safe \<or> \<not> fieldDangerous f e)
        \<and> (case normalizeFieldValue f e EntrySide of
             None \<Rightarrow> False
           | Some v \<Rightarrow> v = ''*'' \<or> identityMatchKey (fieldKind f) v \<in> set (concat (map (subjectKey d) subject))))"

text \<open>
  A list of entries, as the channel's adapter reads it, vouches for a subject when one of the entries matches it:
  the match hook of the channel decides, and where it has no verdict, a wildcard or an identifier of the subject.
\<close>

definition entries_vouch_for :: "identity_descriptor \<Rightarrow> ingress_subject \<Rightarrow> match_context \<Rightarrow> bool \<Rightarrow> string list \<Rightarrow> bool" where
  "entries_vouch_for d subject ctx safe es \<longleftrightarrow>
     (\<exists>x \<in> set (matchable (adapterNormalizeEntries d es)). entryMatches d subject ctx x \<and> (\<not> safe \<or> \<not> dangerous x))"

definition group_vouches :: "state_input \<Rightarrow> identity_descriptor \<Rightarrow> match_context \<Rightarrow> bool \<Rightarrow> string \<Rightarrow> bool" where
  "group_vouches input d ctx safe name =
     (case map_option factKind (accessGroupFactByName (inMembership input) name) of
        Some (FactMatched _) \<Rightarrow> True
      | Some _ \<Rightarrow> False
      | None \<Rightarrow>
          (case inAccessGroups input name of
             Some (MessageSenders _) \<Rightarrow> entries_vouch_for d (inSubject input) ctx safe (groupSenderEntries input name)
           | _ \<Rightarrow> False))"

definition list_vouches :: "state_input \<Rightarrow> identity_descriptor \<Rightarrow> match_context \<Rightarrow> bool \<Rightarrow> string list option \<Rightarrow> bool" where
  "list_vouches input d ctx safe raw \<longleftrightarrow>
     (let es = normalizeStringEntries (list_or_empty raw) in
      entries_vouch_for d (inSubject input) ctx safe (directAllowlistEntries es)
      \<or> (\<exists>name \<in> set (referencedAccessGroups es). group_vouches input d ctx safe name))"

lemma mem_zip_upt: "(x, j) \<in> set (zip xs [0..<length xs]) \<Longrightarrow> x \<in> set xs"
  by (auto dest: set_zip_leftD)

lemma mem_zip_ex: "x \<in> set xs \<Longrightarrow> \<exists>j. (x, j) \<in> set (zip xs [0..<length xs])"
  by (auto simp: in_set_conv_nth set_zip)

lemma concat_indexed:
  "x \<in> set (concat (map g (zip xs [0..<length xs]))) \<Longrightarrow> \<exists>y j. y \<in> set xs \<and> x \<in> set (g (y, j))"
  by (force dest: mem_zip_upt)

lemma adapter_entry_simps [simp]:
  "entryKind (adapterEntry d f j e i v s) = fieldKind f" "entryValue (adapterEntry d f j e i v s) = v"
  "dangerous (adapterEntry d f j e i v s) = fieldDangerous f e"
  by (simp_all add: adapterEntry_def)

lemma entry_matches_plain:
  assumes "matchEntry d = None"
  shows "entryMatches d subject ctx x \<longleftrightarrow>
    entryValue x = ''*'' \<or> identityMatchKey (entryKind x) (entryValue x) \<in> set (concat (map (subjectKey d) subject))"
  by (simp add: entryMatches_def assms Let_def)

lemma entries_vouch:
  assumes "matchEntry d = None"
  shows "(\<exists>x \<in> set (entriesOf d (e, i)). entryMatches d subject ctx x \<and> (\<not> safe \<or> \<not> dangerous x)) \<longleftrightarrow>
    vouched_by d subject safe e"
proof (cases "isWildcard d e")
  case True
  then show ?thesis by (simp add: entriesOf_def entry_matches_plain [OF assms] vouched_by_def)
next
  case False
  let ?P = "\<lambda>x. entryMatches d subject ctx x \<and> (\<not> safe \<or> \<not> dangerous x)"
  let ?fs = "identityFields d"
  have one: "(\<exists>x \<in> set (fieldEntries d (e, i) (f, j)). ?P x) \<longleftrightarrow> (\<not> safe \<or> \<not> fieldDangerous f e)
      \<and> (case normalizeFieldValue f e EntrySide of
           None \<Rightarrow> False
         | Some v \<Rightarrow> v = ''*'' \<or> identityMatchKey (fieldKind f) v \<in> set (concat (map (subjectKey d) subject)))"
    for f j
    by (cases "normalizeFieldValue f e EntrySide") (auto simp: fieldEntries_def entry_matches_plain [OF assms])
  have "(\<exists>x \<in> set (entriesOf d (e, i)). ?P x) \<longleftrightarrow>
      (\<exists>p \<in> set (zip ?fs [0..<length ?fs]). \<exists>x \<in> set (fieldEntries d (e, i) p). ?P x)"
    using False by (simp add: entriesOf_def)
  also have "\<dots> \<longleftrightarrow> (\<exists>f \<in> set ?fs. \<exists>j. (f, j) \<in> set (zip ?fs [0..<length ?fs])
      \<and> (\<exists>x \<in> set (fieldEntries d (e, i) (f, j)). ?P x))"
    by (auto dest: mem_zip_upt)
  also have "\<dots> \<longleftrightarrow> vouched_by d subject safe e"
    unfolding one by (simp only: vouched_by_def False if_False, rule bex_cong) (auto dest: mem_zip_ex)
  finally show ?thesis .
qed

text \<open>Without a hook, an entry vouches for the identifiers it reads as.\<close>

lemma plain_vouch:
  assumes "matchEntry d = None"
  shows "entries_vouch_for d subject ctx safe es \<longleftrightarrow> (\<exists>e \<in> set es. vouched_by d subject safe e)"
proof -
  let ?P = "\<lambda>x. entryMatches d subject ctx x \<and> (\<not> safe \<or> \<not> dangerous x)"
  have "(\<exists>x \<in> set (matchable (adapterNormalizeEntries d es)). ?P x) \<longleftrightarrow>
      (\<exists>e i. (e, i) \<in> set (zip es [0..<length es]) \<and> (\<exists>x \<in> set (entriesOf d (e, i)). ?P x))"
    by (auto simp: adapterNormalizeEntries_def)
  also have "\<dots> \<longleftrightarrow> (\<exists>e i. (e, i) \<in> set (zip es [0..<length es]) \<and> vouched_by d subject safe e)"
    by (simp only: entries_vouch [OF assms])
  also have "\<dots> \<longleftrightarrow> (\<exists>e \<in> set es. vouched_by d subject safe e)"
    using mem_zip_upt mem_zip_ex by metis
  finally show ?thesis unfolding entries_vouch_for_def .
qed

text \<open>The lookups of an allowlist, for a channel whose adapter is the identity adapter.\<close>

definition identity_adapter :: "state_input \<Rightarrow> identity_descriptor \<Rightarrow> bool" where
  "identity_adapter input d \<longleftrightarrow> inAdapter input = createIdentityAdapter d"

definition plain_adapter :: "state_input \<Rightarrow> identity_descriptor \<Rightarrow> bool" where
  "plain_adapter input d \<longleftrightarrow> inAdapter input = createIdentityAdapter d \<and> matchEntry d = None"

lemma plain_is_identity: "plain_adapter input d \<Longrightarrow> identity_adapter input d"
  by (simp add: plain_adapter_def identity_adapter_def)

lemma adapter_match:
  assumes "identity_adapter input d"
  shows "matched (moMatch (normalizeAndMatch input es ctx)) \<longleftrightarrow> entries_vouch_for d (inSubject input) ctx False es"
    and "i \<in> set (matchedEntryIds (moMatch (normalizeAndMatch input es ctx))) \<Longrightarrow>
      \<exists>x \<in> set (matchable (adapterNormalizeEntries d es)).
        entryMatches d (inSubject input) ctx x \<and> opaqueEntryId x = i"
    and "moEntries (normalizeAndMatch input es ctx) = redactedEntries (matchable (adapterNormalizeEntries d es))"
proof -
  have a: "inAdapter input = createIdentityAdapter d"
    using assms by (simp add: identity_adapter_def)
  let ?ms = "matchable (adapterNormalizeEntries d es)"
  have nil: "?ms = []" if "es = []" using that by (simp add: adapterNormalizeEntries_def)
  have m: "moMatch (normalizeAndMatch input es ctx) = (if ?ms = [] then emptyMatch
      else adapterMatchSubject d (inSubject input) ?ms ctx)"
    using nil by (auto simp: normalizeAndMatch_def a createIdentityAdapter_def Let_def)
  have "matched (moMatch (normalizeAndMatch input es ctx)) \<longleftrightarrow> (\<exists>x \<in> set ?ms. entryMatches d (inSubject input) ctx x)"
    by (auto simp: m adapterMatchSubject_def Let_def emptyMatch_def filter_empty_conv)
  then show "matched (moMatch (normalizeAndMatch input es ctx)) \<longleftrightarrow> entries_vouch_for d (inSubject input) ctx False es"
    by (simp add: entries_vouch_for_def)
  show "i \<in> set (matchedEntryIds (moMatch (normalizeAndMatch input es ctx))) \<Longrightarrow>
      \<exists>x \<in> set ?ms. entryMatches d (inSubject input) ctx x \<and> opaqueEntryId x = i"
    by (auto simp: m adapterMatchSubject_def Let_def emptyMatch_def split: if_splits)
  show "moEntries (normalizeAndMatch input es ctx) = redactedEntries ?ms"
    using nil by (auto simp: normalizeAndMatch_def a createIdentityAdapter_def Let_def redactedEntries_def)
qed

text \<open>A match that counts: it does not rest on dangerous entries alone.\<close>

definition counts_beside :: "normalized_entry set \<Rightarrow> ingress_match \<Rightarrow> bool" where
  "counts_beside es m \<longleftrightarrow>
     (matched m \<and> (\<forall>x \<in> es. \<not> dangerous x))
     \<or> (\<exists>i \<in> set (matchedEntryIds m). \<forall>x \<in> es. dangerous x \<longrightarrow> opaqueEntryId x \<noteq> i)"

lemma counts_beside_mono: "counts_beside es m \<Longrightarrow> es' \<subseteq> es \<Longrightarrow> counts_beside es' m"
  unfolding counts_beside_def by blast

lemma adapter_matched_ids:
  assumes "identity_adapter input d"
  shows "matched (moMatch (normalizeAndMatch input es ctx)) \<longleftrightarrow> matchedEntryIds (moMatch (normalizeAndMatch input es ctx)) \<noteq> []"
  using assms by (auto simp: normalizeAndMatch_def identity_adapter_def createIdentityAdapter_def adapterMatchSubject_def
      emptyMatch_def Let_def split: if_splits)

lemma safe_match:
  assumes "identity_adapter input d"
    and "counts_beside (set (moEntries (normalizeAndMatch input es ctx))) (moMatch (normalizeAndMatch input es ctx))"
  shows "entries_vouch_for d (inSubject input) ctx True es"
proof -
  obtain i where i: "i \<in> set (matchedEntryIds (moMatch (normalizeAndMatch input es ctx)))"
      "\<forall>x \<in> set (moEntries (normalizeAndMatch input es ctx)). dangerous x \<longrightarrow> opaqueEntryId x \<noteq> i"
    using assms(2) unfolding counts_beside_def adapter_matched_ids [OF assms(1)]
    by (metis list.set_intros(1) neq_Nil_conv)
  obtain x where x: "x \<in> set (matchable (adapterNormalizeEntries d es))"
      "entryMatches d (inSubject input) ctx x" "opaqueEntryId x = i"
    using adapter_match(2) [OF assms(1) i(1)] by blast
  then have "\<not> dangerous x"
    using i(2) by (auto simp: adapter_match(3) [OF assms(1)] redactedEntries_def normalized_entry.defs)
  with x show ?thesis by (auto simp: entries_vouch_for_def)
qed

lemma group_step:
  assumes p: "identity_adapter input d"
  shows "(\<exists>m \<in> set (goMatches (resolveAccessGroup input ctx name out)). matched m) \<longleftrightarrow>
      (\<exists>m \<in> set (goMatches out). matched m) \<or> group_vouches input d ctx False name"
proof -
  have "matched (moMatch (normalizeAndMatch input (groupSenderEntries input name) ctx)) \<longleftrightarrow>
      entries_vouch_for d (inSubject input) ctx False (groupSenderEntries input name)"
    by (rule adapter_match(1) [OF p])
  then show ?thesis
    by (auto simp: resolveAccessGroup_def group_vouches_def Let_def problemGroup_def
        split: option.splits membership_kind.splits access_group_config.splits membership_problem.splits)
qed

text \<open>The matches a set of groups contributes, with the entries that stay beside them.\<close>

lemma group_entries_mono:
  "set (moEntries out) \<subseteq> set (moEntries (resolveAccessGroup input ctx name out))"
  by (auto simp: resolveAccessGroup_def Let_def problemGroup_def
      split: option.splits membership_kind.splits access_group_config.splits membership_problem.splits)

lemma groups_entries_mono:
  "set (moEntries out) \<subseteq> set (moEntries (fold (resolveAccessGroup input ctx) names out))"
  by (induction names arbitrary: out) (use group_entries_mono in \<open>fastforce\<close>)+

lemma group_step_safe:
  assumes p: "identity_adapter input d" and m: "m \<in> set (goMatches (resolveAccessGroup input ctx name out))"
    and safe: "counts_beside (set (moEntries (resolveAccessGroup input ctx name out))) m"
  shows "m \<in> set (goMatches out) \<or> group_vouches input d ctx True name"
proof -
  note unfold = resolveAccessGroup_def group_vouches_def Let_def problemGroup_def
  show ?thesis
  proof (cases "map_option factKind (accessGroupFactByName (inMembership input) name)")
    case (Some k)
    with m show ?thesis by (cases k) (auto simp: unfold split: membership_problem.splits)
  next
    case None
    show ?thesis
    proof (cases "inAccessGroups input name")
      case None
      with \<open>map_option _ _ = None\<close> m show ?thesis by (simp add: unfold)
    next
      case (Some config)
      show ?thesis
      proof (cases config)
        case DiscordChannelAudience
        with Some \<open>map_option _ _ = None\<close> m show ?thesis by (simp add: unfold)
      next
        case (MessageSenders members)
        let ?r = "normalizeAndMatch input (groupSenderEntries input name) ctx"
        have "set (moEntries ?r) \<subseteq> set (moEntries (resolveAccessGroup input ctx name out))"
          using MessageSenders Some None by (auto simp: unfold)
        with safe have "counts_beside (set (moEntries ?r)) m" by (rule counts_beside_mono)
        moreover from MessageSenders Some None m have "m \<in> set (goMatches out) \<or> m = moMatch ?r"
          by (auto simp: unfold split: if_splits)
        ultimately have "m \<in> set (goMatches out)
            \<or> entries_vouch_for d (inSubject input) ctx True (groupSenderEntries input name)"
          using safe_match [OF p] by blast
        with MessageSenders Some None show ?thesis by (auto simp: group_vouches_def)
      qed
    qed
  qed
qed

lemma groups_safe:
  assumes p: "identity_adapter input d"
  shows "m \<in> set (goMatches (fold (resolveAccessGroup input ctx) names out)) \<Longrightarrow>
    counts_beside (set (moEntries (fold (resolveAccessGroup input ctx) names out))) m \<Longrightarrow>
    m \<in> set (goMatches out) \<or> (\<exists>name \<in> set names. group_vouches input d ctx True name)"
proof (induction names arbitrary: out)
  case (Cons name names)
  let ?out = "resolveAccessGroup input ctx name out"
  from Cons.IH [of ?out] Cons.prems
  have "m \<in> set (goMatches ?out) \<or> (\<exists>name \<in> set names. group_vouches input d ctx True name)" by simp
  moreover have "counts_beside (set (moEntries ?out)) m"
    using Cons.prems(2) groups_entries_mono [of ?out input ctx names] by (auto intro: counts_beside_mono)
  ultimately show ?case using group_step_safe [OF p, of m ctx name out] by auto
qed simp

lemma groups_match:
  assumes "identity_adapter input d"
  shows "(\<exists>m \<in> set (goMatches (fold (resolveAccessGroup input ctx) names out)). matched m) \<longleftrightarrow>
      (\<exists>m \<in> set (goMatches out). matched m) \<or> (\<exists>name \<in> set names. group_vouches input d ctx False name)"
  by (induction names arbitrary: out) (auto simp: group_step [OF assms])

lemma merge_matched:
  assumes "\<forall>m \<in> set ms. matchedEntryIds m \<noteq> [] \<longrightarrow> matched m"
  shows "matched (mergeMatches ms) \<longleftrightarrow> (\<exists>m \<in> set ms. matched m)"
  using assms by (auto simp: mergeMatches_def Let_def list_ex_iff)

lemma mergeMatches_ids: "set (matchedEntryIds (mergeMatches ms)) = (\<Union>m \<in> set ms. set (matchedEntryIds m))"
  by (auto simp: mergeMatches_def Let_def)

lemma group_matches_matched:
  "\<forall>m \<in> set (goMatches out). matched m \<Longrightarrow> \<forall>m \<in> set (goMatches (fold (resolveAccessGroup input ctx) names out)). matched m"
proof (induction names arbitrary: out)
  case (Cons name names)
  have "\<forall>m \<in> set (goMatches (resolveAccessGroup input ctx name out)). matched m"
    using Cons.prems by (auto simp: resolveAccessGroup_def Let_def problemGroup_def
        split: option.splits membership_kind.splits access_group_config.splits membership_problem.splits)
  with Cons.IH show ?case by simp
qed simp

lemma set_collectNames: "set (collectNames es) = {n. \<exists>e \<in> set es. parseAccessGroupAllowFromEntry e = Some n}"
  by (auto simp: collectNames_def split: option.splits)

text \<open>A resolved allowlist matches exactly when one of its entries vouches for the subject.\<close>

lemma allowlist_matches_iff:
  assumes p: "identity_adapter input d"
  shows "matched (alMatch (resolveIngressAllowlist input raw ctx)) \<longleftrightarrow> list_vouches input d ctx False raw"
proof -
  let ?es = "normalizeStringEntries (list_or_empty raw)"
  let ?direct = "moMatch (normalizeAndMatch input (directAllowlistEntries ?es) ctx)"
  let ?ms = "goMatches (resolveAccessGroupEntries input ctx (referencedAccessGroups ?es))"
  have g: "\<forall>m \<in> set ?ms. matched m"
    unfolding resolveAccessGroupEntries_def by (rule group_matches_matched) simp
  have "matched (mergeMatches (?direct # ?ms)) \<longleftrightarrow> matched ?direct \<or> (\<exists>m \<in> set ?ms. matched m)"
    using g adapter_matched_ids [OF p] by (subst merge_matched) auto
  also have "(\<exists>m \<in> set ?ms. matched m) \<longleftrightarrow>
      (\<exists>name \<in> set (referencedAccessGroups ?es). group_vouches input d ctx False name)"
    unfolding resolveAccessGroupEntries_def groups_match [OF p] by simp
  finally show ?thesis
    by (simp add: resolveIngressAllowlist_def Let_def adapter_match(1) [OF p] list_vouches_def)
qed

text \<open>An allowlist counts for its subject when one of its matches does not rest on dangerous entries alone.\<close>

definition list_counts :: "resolved_allowlist \<Rightarrow> bool" where
  "list_counts al \<longleftrightarrow>
     counts_beside (set (normalizedEntries al)) \<lparr>matched = matched (alMatch al), matchedEntryIds = alMatchedEntryIds al\<rparr>"

lemma authoritative_counts:
  "mutableIdentifierMatching policy \<noteq> Some MutableEnabled \<Longrightarrow> authoritative al policy \<Longrightarrow> list_counts al"
  by (auto simp: authoritative_def list_counts_def counts_beside_def split: if_splits)

lemma counting_list_vouches:
  assumes p: "identity_adapter input d" and auth: "list_counts (resolveIngressAllowlist input raw ctx)"
  shows "list_vouches input d ctx True raw"
proof -
  let ?al = "resolveIngressAllowlist input raw ctx"
  let ?es = "normalizeStringEntries (list_or_empty raw)"
  let ?direct = "normalizeAndMatch input (directAllowlistEntries ?es) ctx"
  let ?groups = "resolveAccessGroupEntries input ctx (referencedAccessGroups ?es)"
  let ?ms = "moMatch ?direct # goMatches ?groups"
  have ents: "set (normalizedEntries ?al) = set (moEntries ?direct) \<union> set (moEntries ?groups)"
    and ids: "set (alMatchedEntryIds ?al) = (\<Union>m \<in> set ?ms. set (matchedEntryIds m))"
    and ma: "matched (alMatch ?al) \<longleftrightarrow> matched (mergeMatches ?ms)"
    by (simp_all add: resolveIngressAllowlist_def Let_def mergeMatches_ids)
  have "\<forall>m \<in> set (goMatches ?groups). matched m"
    unfolding resolveAccessGroupEntries_def by (rule group_matches_matched) simp
  then have "matched (mergeMatches ?ms) \<longleftrightarrow> (\<exists>m \<in> set ?ms. matched m)"
    using adapter_matched_ids [OF p] by (subst merge_matched) auto
  then obtain m where m: "m \<in> set ?ms" "counts_beside (set (normalizedEntries ?al)) m"
    using auth ids ma unfolding list_counts_def counts_beside_def by auto
  show ?thesis
  proof (cases "m = moMatch ?direct")
    case True
    with m(2) have "counts_beside (set (moEntries ?direct)) (moMatch ?direct)"
      by (auto simp: ents intro: counts_beside_mono)
    from safe_match [OF p this] show ?thesis by (simp add: list_vouches_def Let_def)
  next
    case False
    with m(1) have "m \<in> set (goMatches ?groups)" by simp
    moreover have "counts_beside (set (moEntries ?groups)) m"
      using m(2) by (auto simp: ents intro: counts_beside_mono)
    ultimately have "\<exists>name \<in> set (referencedAccessGroups ?es). group_vouches input d ctx True name"
      using groups_safe [OF p] unfolding resolveAccessGroupEntries_def by fastforce
    then show ?thesis by (simp add: list_vouches_def Let_def)
  qed
qed

text \<open>
  A list that admits: with \<open>safe\<close> it has to count, and where mutable identifiers are enabled a match is enough.
\<close>

definition list_admits :: "bool \<Rightarrow> resolved_allowlist \<Rightarrow> bool" where
  "list_admits safe al \<longleftrightarrow>
     (if safe then list_counts al else matched (alMatch al) \<or> alMatchedEntryIds al \<noteq> [])"

definition safePolicy :: "ingress_policy \<Rightarrow> bool" where
  "safePolicy policy \<longleftrightarrow> mutableIdentifierMatching policy \<noteq> Some MutableEnabled"

lemma authoritative_admits: "authoritative al policy \<Longrightarrow> list_admits (safePolicy policy) al"
  using authoritative_counts [of policy al] by (auto simp: list_admits_def safePolicy_def authoritative_def)

lemma admitting_list_vouches:
  assumes p: "identity_adapter input d" and "list_admits safe (resolveIngressAllowlist input raw ctx)"
  shows "list_vouches input d ctx safe raw"
proof (cases safe)
  case True
  with assms counting_list_vouches [OF p] show ?thesis by (simp add: list_admits_def)
next
  case False
  have "alMatchedEntryIds (resolveIngressAllowlist input raw ctx) \<noteq> [] \<Longrightarrow>
      matched (alMatch (resolveIngressAllowlist input raw ctx))"
    by (simp add: resolveIngressAllowlist_def Let_def mergeMatches_def)
  with False assms(2) have "matched (alMatch (resolveIngressAllowlist input raw ctx))" by (auto simp: list_admits_def)
  with False allowlist_matches_iff [OF p] show ?thesis by simp
qed

lemma merged_admits: "list_admits safe (mergeResolvedAllowlists [a, b]) \<Longrightarrow> list_admits safe a \<or> list_admits safe b"
  by (cases safe)
    (auto simp: list_admits_def list_counts_def counts_beside_def mergeResolvedAllowlists_def mergeMatches_def Let_def)

lemma overridden_admits:
  "list_admits safe (fold overrideSenders routes al) \<Longrightarrow>
     list_admits safe al
     \<or> (\<exists>r \<in> set routes. \<exists>al'. senderAllowlist r = Some al' \<and> routeGate r = RouteMatched \<and> list_admits safe al')"
proof (induction routes arbitrary: al)
  case (Cons r routes)
  from Cons.IH [of "overrideSenders r al"] Cons.prems
  consider "list_admits safe (overrideSenders r al)"
    | r' al' where "r' \<in> set routes" "senderAllowlist r' = Some al'" "routeGate r' = RouteMatched" "list_admits safe al'"
    by auto
  then show ?case
  proof cases
    case 1
    then show ?thesis
      by (auto simp: overrideSenders_def dest: merged_admits split: option.splits if_splits)
  qed auto
qed simp

section \<open>Identity keys and origins\<close>

text \<open>
  The key an identity matches by joins kind and value with a colon. Over kinds whose plugin keys have no colon
  it is injective; a key with a colon can be read in two ways.
\<close>

definition plain_kind :: "identifier_kind \<Rightarrow> bool" where
  "plain_kind k = (case k of PluginKind key \<Rightarrow> CHR '':'' \<notin> set key | _ \<Rightarrow> True)"

lemma append_colon:
  "CHR '':'' \<notin> set a \<Longrightarrow> CHR '':'' \<notin> set b \<Longrightarrow> a @ CHR '':'' # v = b @ CHR '':'' # w \<longleftrightarrow> a = b \<and> v = w"
proof (induction a arbitrary: b)
  case Nil
  then show ?case by (cases b) auto
next
  case (Cons x a)
  then show ?case by (cases b) auto
qed

lemma match_key_inj:
  assumes "plain_kind k" "plain_kind k'" and "identityMatchKey k v = identityMatchKey k' v'"
  shows "k = k' \<and> v = v'"
  using assms append_colon [of _ _ v v']
  by (cases k; cases k') (auto simp: identityMatchKey_def plain_kind_def)

lemma match_key_ambiguous:
  "identityMatchKey (PluginKind ''a'') ''b:x'' = identityMatchKey (PluginKind ''a:b'') ''x''"
  by code_simp

definition reads_as :: "identity_descriptor \<Rightarrow> value_side \<Rightarrow> match_material \<Rightarrow> string \<Rightarrow> bool" where
  "reads_as d side m v \<longleftrightarrow>
     (\<exists>f \<in> set (identityFields d). fieldKind f = materialKind m \<and> normalizeFieldValue f (materialValue m) side = Some v)"

lemma subject_key_reads:
  "key \<in> set (subjectKey d m) \<Longrightarrow> \<exists>v. key = identityMatchKey (materialKind m) v \<and> reads_as d SubjectSide m v"
proof (cases "find (\<lambda>f. fieldKind f = materialKind m) (identityFields d)")
  case (Some f)
  assume "key \<in> set (subjectKey d m)"
  with Some find_mem [OF Some] show ?thesis
    by (cases "normalizeFieldValue f (materialValue m) SubjectSide") (auto simp: subjectKey_def reads_as_def)
qed (simp add: subjectKey_def)

lemma subject_entries_read:
  assumes "plain_adapter input d" and "x \<in> set (normalizeSubjectIdentifiersForMatch input subject ctx pre)"
  shows "\<exists>m \<in> set subject. entryKind x = materialKind m \<and> entryValue x \<noteq> ''*'' \<and> reads_as d EntrySide m (entryValue x)"
proof -
  have a: "inAdapter input = createIdentityAdapter d" using assms(1) by (simp add: plain_adapter_def)
  from assms(2) obtain m j where m: "m \<in> set subject" "x \<in> set (subjectEntries input ctx pre (m, j))"
    unfolding normalizeSubjectIdentifiersForMatch_def by (blast dest: concat_indexed)
  let ?es = "filter (\<lambda>e. entryKind e = materialKind m \<and> entryValue e \<noteq> ''*'')
    (matchable (adapterNormalizeEntries d [materialValue m]))"
  from m(2) obtain e i where e: "(e, i) \<in> set (zip ?es [0..<length ?es])"
      "entryKind x = entryKind e" "entryValue x = entryValue e"
    by (auto simp: subjectEntries_def Let_def a createIdentityAdapter_def)
  from mem_zip_upt [OF e(1)] have "e \<in> set (entriesOf d (materialValue m, 0))"
      and k: "entryKind e = materialKind m" "entryValue e \<noteq> ''*''"
    by (auto simp: adapterNormalizeEntries_def)
  then have "\<exists>f j. f \<in> set (identityFields d) \<and> e \<in> set (fieldEntries d (materialValue m, 0) (f, j))"
    by (auto simp: entriesOf_def split: if_splits dest: concat_indexed mem_zip_upt)
  then have "reads_as d EntrySide m (entryValue e)"
    using k(1) by (auto simp: fieldEntries_def reads_as_def split: option.splits)
  with m(1) k e show ?thesis by auto
qed

definition same_identity :: "identity_descriptor \<Rightarrow> match_material \<Rightarrow> match_material \<Rightarrow> bool" where
  "same_identity d a b \<longleftrightarrow>
     materialKind a = materialKind b
     \<and> (materialValue a = materialValue b
        \<or> (\<exists>v. v \<noteq> ''*'' \<and> reads_as d EntrySide a v \<and> reads_as d SubjectSide b v))"

lemma matched_entry_identity:
  assumes p: "plain_adapter input d" and kinds: "\<forall>m \<in> set xs \<union> set ys. plain_kind (materialKind m)"
    and "matched (matchSubject (inAdapter input) ys (normalizeSubjectIdentifiersForMatch input xs ctx pre) ctx)"
  shows "\<exists>a \<in> set xs. \<exists>b \<in> set ys. same_identity d a b"
proof -
  obtain x where x: "x \<in> set (normalizeSubjectIdentifiersForMatch input xs ctx pre)" "entryMatches d ys ctx x"
    using assms(3) p
    by (auto simp: plain_adapter_def createIdentityAdapter_def adapterMatchSubject_def Let_def filter_empty_conv)
  obtain a where a: "a \<in> set xs" "entryKind x = materialKind a" "entryValue x \<noteq> ''*''"
      "reads_as d EntrySide a (entryValue x)"
    using subject_entries_read [OF p x(1)] by blast
  then have "identityMatchKey (materialKind a) (entryValue x) \<in> set (concat (map (subjectKey d) ys))"
    using x(2) p by (simp add: plain_adapter_def entry_matches_plain)
  then obtain b v where b: "b \<in> set ys" "identityMatchKey (materialKind a) (entryValue x) = identityMatchKey (materialKind b) v"
      "reads_as d SubjectSide b v"
    using subject_key_reads by fastforce
  then have "materialKind a = materialKind b \<and> entryValue x = v"
    using kinds a(1) by (intro match_key_inj) auto
  with a b show ?thesis by (auto simp: same_identity_def)
qed

text \<open>
  A sample in the manner of the IRC channel: an immutable field for full hosts, a mutable alias for host-less
  names, and entry ids that both fields share.
\<close>

definition sample_identity :: identity_descriptor where
  "sample_identity =
     \<lparr>primary = \<lparr>normalize = None,
        normalizeEntry = Some (\<lambda>v. if CHR 0x40 \<in> set v then Some v else None),
        normalizeSubject = None, danger = None, fieldSensitivity = Some Pii,
        keyOption = Some ''irc-id'', kindOption = None\<rparr>,
      aliases = [\<lparr>normalize = None,
        normalizeEntry = Some (\<lambda>v. if CHR ''!'' \<in> set v \<and> CHR 0x40 \<notin> set v then Some v else None),
        normalizeSubject = None, danger = Some (DangerConst True), fieldSensitivity = Some Pii,
        aliasKey = ''irc-id-nick-user'', aliasKindOption = Some StableId\<rparr>],
      isWildcardEntry = None, matchEntry = None,
      resolveEntryId = Some (\<lambda>entry entryIndex key fieldIndex. ''irc-entry-'' @ show_nat (entryIndex + 1) @ '':id'')\<rparr>"

definition sample_subject :: "string \<Rightarrow> ingress_subject" where
  "sample_subject i = createIdentitySubject sample_identity \<lparr>stableId = Some i, aliasValues = Map.empty\<rparr>"

definition sample_input :: "ingress_subject option \<Rightarrow> state_input" where
  "sample_input origin =
     \<lparr>inChannelId = ''irc'', inAccountId = ''main'', inSubject = sample_subject (''alice!a'' @ [CHR 0x40] @ ''host''),
      inConversation = DirectConversation, inAdapter = createIdentityAdapter sample_identity,
      inAccessGroups =
        (\<lambda>n. if n = ''ops''
             then Some (MessageSenders (\<lambda>c. if c = ''irc'' then Some [''alice!a'' @ [CHR 0x40] @ ''host''] else None))
             else None),
      inMembership = [], inRouteFacts = [], inMentionFacts = None,
      inEvent = \<lparr>eventInputKind = MessageEvent, eventInputMode = AuthInbound, eventMayPair = True,
        originSubject = origin\<rparr>,
      inDm = None, inGroup = None, inCommandOwner = None, inCommandGroup = None, inPairingStore = None\<rparr>"

definition sample_policy :: ingress_policy where
  "sample_policy = \<lparr>dmPolicy = DmAllowlist, groupPolicy = GroupAllowlist,
     groupAllowFromFallbackToAllowFrom = None, mutableIdentifierMatching = None, activation = None, command = None\<rparr>"

lemma sample_plain: "plain_adapter (sample_input origin) sample_identity"
  by (simp add: plain_adapter_def sample_input_def sample_identity_def)

text \<open>
  Entry ids are numbered anew in every access group, so the id of a group's entry can be the id of a mutable
  entry of the list itself; the match of the group's immutable entry is then dropped with the mutable one, and
  a member of the group is refused.
\<close>

lemma entry_id_collision_refuses:
  "list_vouches (sample_input None) sample_identity DmContext True (Some [''bob!b'', ''accessGroup:ops''])
   \<and> \<not> authoritative (resolveIngressAllowlist (sample_input None) (Some [''bob!b'', ''accessGroup:ops'']) DmContext) sample_policy
   \<and> authoritative (resolveIngressAllowlist (sample_input None) (Some [''accessGroup:ops'']) DmContext) sample_policy"
  by code_simp

text \<open>
  A callback that is bound to its origin is accepted only from the subject it was issued to: when
  the origin counts as matched, some identifier of the origin and some identifier of the current subject have
  the same kind and the same value, raw or after the channel's normalisation. Wildcards never match here.
\<close>

theorem origin_match_is_identity:
  assumes "plain_adapter input d" and "originSubject (inEvent input) = Some origin"
    and "list_all (\<lambda>m. plain_kind (materialKind m)) (origin @ inSubject input)"
    and "resolveOriginSubjectMatched input"
  shows "\<exists>a \<in> set origin. \<exists>b \<in> set (inSubject input). same_identity d a b \<or> same_identity d b a"
proof -
  note unfold = resolveOriginSubjectMatched_def Let_def
  let ?ctx = "eventSubjectMatchContext input"
  have kinds: "\<forall>m \<in> set origin \<union> set (inSubject input). plain_kind (materialKind m)"
    using assms(3) by (auto simp: list_all_iff)
  consider (raw) a b where "a \<in> set origin" "b \<in> set (inSubject input)"
        "materialKind b = materialKind a" "materialValue b = materialValue a"
    | (origin) "matched (matchSubject (inAdapter input) (inSubject input)
        (normalizeSubjectIdentifiersForMatch input origin ?ctx ''origin'') ?ctx)"
    | (current) "matched (matchSubject (inAdapter input) origin
        (normalizeSubjectIdentifiersForMatch input (inSubject input) ?ctx ''current'') ?ctx)"
    using assms(2,4) by (auto simp: unfold list_ex_iff split: if_splits)
  then show ?thesis
  proof cases
    case raw
    then show ?thesis by (auto simp: same_identity_def)
  next
    case origin
    from matched_entry_identity [OF assms(1) kinds origin] show ?thesis by blast
  next
    case current
    have "\<forall>m \<in> set (inSubject input) \<union> set origin. plain_kind (materialKind m)" using kinds by auto
    from matched_entry_identity [OF assms(1) this current] show ?thesis by blast
  qed
qed

lemma origin_match_is_identity_witness:
  "\<exists>a \<in> set (sample_subject (''alice!a'' @ [CHR 0x40] @ ''host'')). \<exists>b \<in> set (inSubject (sample_input None)).
     same_identity sample_identity a b \<or> same_identity sample_identity b a"
proof -
  let ?o = "sample_subject (''alice!a'' @ [CHR 0x40] @ ''host'')"
  have subj: "inSubject (sample_input (Some ?o)) = inSubject (sample_input None)"
      and ev: "originSubject (inEvent (sample_input (Some ?o))) = Some ?o"
    by (simp_all add: sample_input_def)
  have kinds: "list_all (\<lambda>m. plain_kind (materialKind m)) (?o @ inSubject (sample_input (Some ?o)))"
      and m: "resolveOriginSubjectMatched (sample_input (Some ?o))"
    by code_simp+
  from origin_match_is_identity [OF sample_plain ev kinds m] show ?thesis unfolding subj .
qed

text \<open>
  An allowlist admits nobody by accident: when mutable identifiers do not count, a match that
  counts rests on an entry of the list, or of an access group the list names, that the channel does not mark as
  dangerous and that the channel's match hook or, without a verdict of it, a wildcard or an identifier of the
  sender makes match, or on a group a membership fact says the sender belongs to.
\<close>

theorem admitted_sender_is_vouched_for:
  assumes "identity_adapter input d" and "mutableIdentifierMatching policy \<noteq> Some MutableEnabled"
    and "authoritative (resolveIngressAllowlist input raw ctx) policy"
  shows "list_vouches input d ctx True raw"
  using assms by (blast intro: counting_list_vouches authoritative_counts)

lemma admitted_sender_is_vouched_for_witness:
  "list_vouches (sample_input None) sample_identity DmContext True (Some [''accessGroup:ops''])"
proof -
  have "authoritative (resolveIngressAllowlist (sample_input None) (Some [''accessGroup:ops'']) DmContext) sample_policy"
    by code_simp
  moreover have "mutableIdentifierMatching sample_policy \<noteq> Some MutableEnabled"
    by (simp add: sample_policy_def)
  ultimately show ?thesis using admitted_sender_is_vouched_for [OF plain_is_identity [OF sample_plain]] by blast
qed

end
