(* ===== verification/IngressRuntime.thy ===== *)
theory IngressRuntime
  imports IngressState
begin

text \<open>
  The channel ingress resolver (\<^verbatim>\<open>src/channels/message-access/runtime.ts\<close> with the inputs and results of
  \<^verbatim>\<open>runtime-types.ts\<close>): it reads the pairing store when the policy allows, resolves the allowlists, turns route
  descriptors into route facts, decides, and projects the decision for the channel's handlers. The readers of
  the pairing store are parameters that return \<open>None\<close> when the read is rejected or yields no list.
\<close>

section \<open>Inputs and results\<close>

record route_descriptor =
  rdId :: string
  rdKind :: "gate_kind option"
  rdConfigured :: "bool option"
  rdMatched :: "bool option"
  rdAllowed :: "bool option"
  rdEnabled :: "bool option"
  rdPrecedence :: "rat option"
  rdSenderPolicy :: "route_sender_policy option"
  rdSenderAllowFrom :: "string list option"
  rdSenderSource :: "route_sender_source option"
  rdMatchId :: "string option"
  rdBlockReason :: "string option"

datatype group_owner_source = OwnersConfigured | OwnersNone

datatype direct_group_source = DirectEffective | DirectNone

record ingress_command = command_policy +
  commandOwnerAllowFrom :: "string list option"
  groupOwnerAllowFrom :: "group_owner_source option"
  directGroupAllowFrom :: "direct_group_source option"
  commandGroupFallback :: "bool option"

type_synonym ingress_store_reader = "string \<Rightarrow> string \<Rightarrow> dm_policy \<Rightarrow> string list option"

record ingress_params =
  prChannelId :: string
  prAccountId :: string
  prIdentity :: identity_descriptor
  prSubject :: subject_input
  prConversation :: conversation_kind
  prEvent :: event_input
  prPolicy :: ingress_policy
  prAllowFrom :: "string list option"
  prGroupAllowFrom :: "string list option"
  prRoute :: "route_descriptor list"
  prRouteFacts :: "route_fact list"
  prAccessGroups :: "string \<rightharpoonup> access_group_config"
  prMembership :: "membership_fact list"
  prResolveMembership :: "(string \<Rightarrow> access_group_config \<Rightarrow> bool option) option"
  prMatchedEntry :: "string option"
  prProviderMissing :: "bool option"
  prMentionFacts :: "mention_facts option"
  prReadStore :: "ingress_store_reader option"
  prUseDefaultStore :: bool
  prCommand :: "ingress_command option"

record sender_access =
  saAllowed :: bool
  saDecision :: ingress_verdict
  saReason :: ingress_reason
  saGate :: "access_gate option"
  saEffectiveAllowFrom :: "string list"
  saEffectiveGroupAllowFrom :: "string list"
  saProviderMissing :: bool

record route_access =
  raAllowed :: bool
  raReasonCode :: "ingress_reason option"
  raReason :: "string option"
  raGate :: "access_gate option"

record command_access =
  caRequested :: bool
  caAuthorized :: bool
  caShouldBlock :: bool
  caReason :: ingress_reason
  caGate :: "access_gate option"

record activation_access =
  aaRan :: bool
  aaAllowed :: bool
  aaShouldSkip :: bool
  aaReason :: ingress_reason
  aaEffectiveWasMentioned :: "bool option"
  aaShouldBypassMention :: "bool option"
  aaGate :: "access_gate option"

record resolved_ingress =
  riState :: ingress_state
  riIngress :: ingress_decision
  riSender :: sender_access
  riRoute :: route_access
  riCommand :: command_access
  riActivation :: activation_access

section \<open>The pairing store\<close>

primrec dmPolicyText :: "dm_policy \<Rightarrow> string" where
  "dmPolicyText DmPairing = ''pairing''"
| "dmPolicyText DmAllowlist = ''allowlist''"
| "dmPolicyText DmOpen = ''open''"
| "dmPolicyText DmDisabled = ''disabled''"

definition shouldReadStore :: "conversation_kind \<Rightarrow> dm_policy \<Rightarrow> bool" where
  "shouldReadStore kind policy \<longleftrightarrow> kind = DirectConversation \<and> policy \<noteq> DmAllowlist \<and> policy \<noteq> DmOpen"

definition readStoreAllowFrom :: "store_reader \<Rightarrow> ingress_params \<Rightarrow> string \<Rightarrow> string list" where
  "readStoreAllowFrom defaultStore params chan =
     (if \<not> shouldReadStore (prConversation params) (dmPolicy (prPolicy params)) then []
      else case prReadStore params of
             Some f \<Rightarrow> list_or_empty (f chan (prAccountId params) (dmPolicy (prPolicy params)))
           | None \<Rightarrow>
               if prUseDefaultStore params
               then readChannelIngressStoreAllowFromForDmPolicy defaultStore chan (prAccountId params)
                      (Some (dmPolicyText (dmPolicy (prPolicy params)))) None
               else [])"

definition normalizeChannelId :: "string \<Rightarrow> string option" where
  "normalizeChannelId i = (let trimmed = js_trim i in if trimmed = [] then None else Some trimmed)"

section \<open>Route descriptors\<close>

definition channelIngressRoutes :: "route_descriptor option list \<Rightarrow> route_descriptor list" where
  "channelIngressRoutes routes = concat (map (\<lambda>r. case r of Some d \<Rightarrow> [d] | None \<Rightarrow> []) routes)"

definition routeDescriptorMatch :: "route_descriptor \<Rightarrow> ingress_match" where
  "routeDescriptorMatch d =
     (let m = (case rdMatched d of
                 Some b \<Rightarrow> b
               | None \<Rightarrow> (case rdAllowed d of Some b \<Rightarrow> b | None \<Rightarrow> rdEnabled d \<noteq> Some False))
      in \<lparr>matched = m,
          matchedEntryIds =
            (case rdMatchId d of Some i \<Rightarrow> if m \<and> i \<noteq> [] then [i] else [] | None \<Rightarrow> [])\<rparr>)"

definition routeFactOf ::
    "route_descriptor \<Rightarrow> gate_kind option \<Rightarrow> route_sender_policy option \<Rightarrow> route_gate_state \<Rightarrow> route_effect \<Rightarrow> route_fact" where
  "routeFactOf d kind policy gate eff =
     \<lparr>routeId = rdId d, routeKind = (case kind of Some k \<Rightarrow> k | None \<Rightarrow> RouteKind), routeGate = gate,
      routeEffect = eff, precedence = (case rdPrecedence d of Some p \<Rightarrow> p | None \<Rightarrow> 0),
      senderPolicy = (case policy of Some p \<Rightarrow> p | None \<Rightarrow> InheritSenders),
      routeMatch = Some (routeDescriptorMatch d), senderAllowFrom = rdSenderAllowFrom d,
      senderAllowFromSource = rdSenderSource d\<rparr>"

definition routeFactsOf :: "route_descriptor \<Rightarrow> route_fact list" where
  "routeFactsOf d =
     (if rdConfigured d = Some False then []
      else if rdEnabled d = Some False
        then [routeFactOf d (rdKind d) (rdSenderPolicy d) RouteDisabled RouteBlocks]
      else case rdAllowed d of
             Some ok \<Rightarrow>
               [routeFactOf d (rdKind d) (rdSenderPolicy d) (if ok then RouteMatched else RouteNotMatched)
                  (if ok then RouteAllows else RouteBlocks)]
           | None \<Rightarrow>
               if rdSenderPolicy d \<noteq> Some DenyWhenEmpty \<and> rdSenderAllowFrom d = None \<and> rdSenderSource d = None
               then []
               else [routeFactOf d
                       (if rdSenderPolicy d = Some DenyWhenEmpty then rdKind d else Some RouteSenderKind)
                       (rdSenderPolicy d) RouteMatched RouteAllows])"

definition routeFactsFromDescriptors :: "route_descriptor list \<Rightarrow> route_fact list" where
  "routeFactsFromDescriptors ds = concat (map routeFactsOf ds)"

definition ends_with :: "string \<Rightarrow> string \<Rightarrow> bool" where
  "ends_with s suffix \<longleftrightarrow> length suffix \<le> length s \<and> drop (length s - length suffix) s = suffix"

definition routeDescriptorForGate :: "route_descriptor list \<Rightarrow> access_gate \<Rightarrow> route_descriptor option" where
  "routeDescriptorForGate ds gate =
     (let suffix = '':sender'';
          base = (if ends_with (gateId gate) suffix
                  then take (length (gateId gate) - length suffix) (gateId gate) else gateId gate)
      in find (\<lambda>d. rdId d = gateId gate \<or> rdId d = base) ds)"

definition non_empty :: "string option \<Rightarrow> string option" where
  "non_empty s = (case s of Some x \<Rightarrow> if x = [] then None else Some x | None \<Rightarrow> None)"

section \<open>Projections\<close>

definition findIngressGate :: "ingress_decision \<Rightarrow> gate_phase \<Rightarrow> gate_kind \<Rightarrow> access_gate option" where
  "findIngressGate ingress ph kind = find (\<lambda>gate. phase gate = ph \<and> gateKind gate = kind) (graph ingress)"

definition findSenderGate :: "ingress_decision \<Rightarrow> bool \<Rightarrow> access_gate option" where
  "findSenderGate ingress isGrp = findIngressGate ingress SenderPhase (if isGrp then GroupSenderKind else DmSenderKind)"

definition commandRequested :: "ingress_policy \<Rightarrow> bool" where
  "commandRequested policy \<longleftrightarrow> command policy \<noteq> None"

definition projectRouteAccess :: "ingress_decision \<Rightarrow> route_descriptor list \<Rightarrow> route_access" where
  "projectRouteAccess ingress ds =
     (case find (\<lambda>g. phase g = RoutePhase \<and> effect g = BlockDispatch) (graph ingress) of
        Some routeBlock \<Rightarrow>
          \<lparr>raAllowed = allowed routeBlock, raReasonCode = Some (reasonCode routeBlock),
           raReason = non_empty (Option.bind (routeDescriptorForGate ds routeBlock) rdBlockReason),
           raGate = Some routeBlock\<rparr>
      | None \<Rightarrow>
          (case (find (\<lambda>d. rdSenderPolicy d = Some ReplaceSenders \<and> non_empty (rdBlockReason d) \<noteq> None) ds,
                 find (\<lambda>g. phase g = SenderPhase \<and> effect g = BlockDispatch) (graph ingress)) of
             (Some d, Some senderBlock) \<Rightarrow>
               \<lparr>raAllowed = False, raReasonCode = Some (reasonCode senderBlock), raReason = rdBlockReason d,
                raGate = Some senderBlock\<rparr>
           | _ \<Rightarrow>
               (case find (\<lambda>g. phase g = RoutePhase) (graph ingress) of
                  Some gate \<Rightarrow>
                    \<lparr>raAllowed = allowed gate, raReasonCode = Some (reasonCode gate), raReason = None,
                     raGate = Some gate\<rparr>
                | None \<Rightarrow> \<lparr>raAllowed = True, raReasonCode = None, raReason = None, raGate = None\<rparr>)))"

definition projectSenderAccess ::
    "ingress_decision \<Rightarrow> bool \<Rightarrow> string list \<Rightarrow> string list \<Rightarrow> bool option \<Rightarrow> sender_access" where
  "projectSenderAccess ingress isGrp effDm effGroup providerMissing =
     (let gate = findSenderGate ingress isGrp;
          reason =
            (if gate = None \<and> isGrp \<and> decisionReason ingress = RouteSenderEmpty \<and> length effGroup = 0
             then GroupPolicyEmptyAllowlist
             else case gate of Some g \<Rightarrow> reasonCode g | None \<Rightarrow> decisionReason ingress);
          verdict =
            (if reason = DmPolicyPairingRequired then VerdictPairing
             else if map_option allowed gate = Some True then VerdictAllow else VerdictBlock)
      in \<lparr>saAllowed = (verdict = VerdictAllow), saDecision = verdict, saReason = reason, saGate = gate,
          saEffectiveAllowFrom = effDm, saEffectiveGroupAllowFrom = effGroup,
          saProviderMissing = (case providerMissing of Some b \<Rightarrow> b | None \<Rightarrow> False)\<rparr>)"

definition projectCommandAccess :: "ingress_decision \<Rightarrow> ingress_policy \<Rightarrow> command_access" where
  "projectCommandAccess ingress policy =
     (let gate = findIngressGate ingress CommandPhase CommandKind
      in \<lparr>caRequested = commandRequested policy,
          caAuthorized = (if commandRequested policy then map_option allowed gate = Some True else False),
          caShouldBlock = (map_option shouldBlockControlCommand (Option.bind gate gateCommand) = Some True),
          caReason = (case gate of Some g \<Rightarrow> reasonCode g | None \<Rightarrow> decisionReason ingress),
          caGate = gate\<rparr>)"

definition projectActivationAccess :: "ingress_decision \<Rightarrow> activation_access" where
  "projectActivationAccess ingress =
     (let gate = findIngressGate ingress ActivationPhase MentionKind;
          facts = Option.bind gate gateActivation
      in \<lparr>aaRan = (gate \<noteq> None), aaAllowed = (map_option allowed gate = Some True),
          aaShouldSkip = (map_option afShouldSkip facts = Some True),
          aaReason = (case gate of Some g \<Rightarrow> reasonCode g | None \<Rightarrow> decisionReason ingress),
          aaEffectiveWasMentioned = Option.bind facts afEffectiveWasMentioned,
          aaShouldBypassMention = Option.bind facts afShouldBypassMention,
          aaGate = gate\<rparr>)"

section \<open>The resolver\<close>

definition commandOwnerAllowFromOf ::
    "ingress_command option \<Rightarrow> bool \<Rightarrow> string list \<Rightarrow> string list \<Rightarrow> string list" where
  "commandOwnerAllowFromOf cmd isGrp configuredList effectiveList =
     (case Option.bind cmd commandOwnerAllowFrom of
        Some xs \<Rightarrow> xs
      | None \<Rightarrow>
          if \<not> isGrp then effectiveList
          else if Option.bind cmd groupOwnerAllowFrom = Some OwnersNone then [] else configuredList)"

definition commandGroupAllowFromOf :: "ingress_command option \<Rightarrow> bool \<Rightarrow> string list \<Rightarrow> string list" where
  "commandGroupAllowFromOf cmd isGrp effectiveList =
     (if isGrp then effectiveList
      else if Option.bind cmd directGroupAllowFrom = Some DirectEffective then effectiveList else [])"

definition accessGroupMatchedEntry :: "ingress_params \<Rightarrow> string option" where
  "accessGroupMatchedEntry params =
     (case prMatchedEntry params of Some e \<Rightarrow> Some e | None \<Rightarrow> stableId (prSubject params))"

definition appendAccessGroupMatchedEntry :: "string list \<Rightarrow> resolved_allowlist \<Rightarrow> string option \<Rightarrow> string list" where
  "appendAccessGroupMatchedEntry es al entry =
     (case non_empty entry of
        Some e \<Rightarrow> if length (agMatched (accessGroups al)) > 0 then uniqueStrings (es @ [e]) else es
      | None \<Rightarrow> es)"

definition ingressPolicy :: "ingress_params \<Rightarrow> ingress_policy" where
  "ingressPolicy params =
     (case prCommand params of
        Some cmd \<Rightarrow> (prPolicy params)\<lparr>command := Some (command_policy.truncate cmd)\<rparr>
      | None \<Rightarrow> prPolicy params)"

definition rawAllowFrom :: "ingress_params \<Rightarrow> string list" where
  "rawAllowFrom params = normalizeStringEntries (list_or_empty (prAllowFrom params))"

definition rawGroupAllowFrom :: "ingress_params \<Rightarrow> string list" where
  "rawGroupAllowFrom params = normalizeStringEntries (list_or_empty (prGroupAllowFrom params))"

definition ingressRouteFacts :: "ingress_params \<Rightarrow> route_fact list" where
  "ingressRouteFacts params = routeFactsFromDescriptors (prRoute params) @ prRouteFacts params"

definition ingressStateInput :: "ingress_params \<Rightarrow> string \<Rightarrow> string list \<Rightarrow> state_input" where
  "ingressStateInput params chan rawStore =
     (let rawDm = rawAllowFrom params;
          rawGroup = rawGroupAllowFrom params;
          facts = ingressRouteFacts params;
          names = allReferencedAccessGroupNames
            ([rawDm, rawGroup, rawStore, list_or_empty (Option.bind (prCommand params) commandOwnerAllowFrom)]
             @ map (\<lambda>r. list_or_empty (senderAllowFrom r)) facts);
          membership = resolveRuntimeAccessGroupMembershipFacts (prAccessGroups params)
            (prResolveMembership params) names @ prMembership params;
          policyText = Some (dmPolicyText (dmPolicy (prPolicy params)));
          fallback = groupAllowFromFallbackToAllowFrom (prPolicy params);
          rawEffective = resolveChannelIngressEffectiveAllowFromLists (Some rawDm) (Some rawGroup)
            (Some rawStore) policyText fallback;
          rawCommandGroup = resolveChannelIngressEffectiveAllowFromLists (Some rawDm) (Some rawGroup) None policyText
            (case Option.bind (prCommand params) commandGroupFallback of Some b \<Rightarrow> Some b | None \<Rightarrow> fallback);
          isGrp = (prConversation params \<noteq> DirectConversation)
      in \<lparr>inChannelId = chan, inAccountId = prAccountId params,
          inSubject = createIdentitySubject (prIdentity params) (prSubject params),
          inConversation = prConversation params, inAdapter = createIdentityAdapter (prIdentity params),
          inAccessGroups = prAccessGroups params, inMembership = membership, inRouteFacts = facts,
          inMentionFacts = prMentionFacts params, inEvent = prEvent params,
          inDm = Some rawDm,
          inGroup = Some (effectiveGroupAllowFrom rawEffective),
          inCommandOwner = Some (commandOwnerAllowFromOf (prCommand params) isGrp rawDm (effectiveAllowFrom rawEffective)),
          inCommandGroup = Some (commandGroupAllowFromOf (prCommand params) isGrp (effectiveGroupAllowFrom rawCommandGroup)),
          inPairingStore = Some rawStore\<rparr>)"

definition baseEffective :: "ingress_params \<Rightarrow> string list \<Rightarrow> effective_lists" where
  "baseEffective params rawStore =
     (let adapter = createIdentityAdapter (prIdentity params);
          norm = (\<lambda>es ctx. normalizeEffectiveEntries adapter (prAccountId params) es ctx)
      in resolveChannelIngressEffectiveAllowFromLists
           (Some (norm (rawAllowFrom params) DmContext)) (Some (norm (rawGroupAllowFrom params) GroupContext))
           (Some (norm rawStore DmContext)) (Some (dmPolicyText (dmPolicy (prPolicy params))))
           (groupAllowFromFallbackToAllowFrom (prPolicy params)))"

definition resolveChannelMessageIngress ::
    "(string \<Rightarrow> string \<Rightarrow> int) \<Rightarrow> store_reader \<Rightarrow> ingress_params \<Rightarrow> string + resolved_ingress" where
  "resolveChannelMessageIngress localeCompare defaultStore params =
     (case normalizeChannelId (prChannelId params) of
        None \<Rightarrow> Inl ''Channel ingress channel id must be non-empty.''
      | Some chan \<Rightarrow>
          let rawStore = normalizeStringEntries (readStoreAllowFrom defaultStore params chan);
              isGrp = (prConversation params \<noteq> DirectConversation);
              policy = ingressPolicy params;
              state = resolveChannelIngressState localeCompare (ingressStateInput params chan rawStore);
              ingress = decideChannelIngress state policy;
              entry = accessGroupMatchedEntry params;
              lists = baseEffective params rawStore
          in Inr \<lparr>riState = state, riIngress = ingress,
              riSender = projectSenderAccess ingress isGrp
                (appendAccessGroupMatchedEntry (effectiveAllowFrom lists) (dm (allowlists state)) entry)
                (appendAccessGroupMatchedEntry (effectiveGroupAllowFrom lists) (groupSenders (allowlists state)) entry)
                (prProviderMissing params),
              riRoute = projectRouteAccess ingress (prRoute params),
              riCommand = projectCommandAccess ingress policy,
              riActivation = projectActivationAccess ingress\<rparr>)"

section \<open>Resolvers of a channel account\<close>

record ingress_config =
  cfgAccessGroups :: "(string \<rightharpoonup> access_group_config) option"
  cfgUseAccessGroups :: "bool option"

record command_preset =
  cpRequested :: "bool option"
  cpUseAccessGroups :: "bool option"
  cpConfig :: "ingress_config option"
  cpAllowTextCommands :: "bool option"
  cpHasControlCommand :: "bool option"
  cpMode :: "groups_off_mode option"
  cpOwnerAllowFrom :: "string list option"
  cpGroupOwner :: "group_owner_source option"
  cpDirectGroup :: "direct_group_source option"
  cpGroupFallback :: "bool option"

record event_preset =
  epKind :: "event_kind option"
  epMode :: "event_auth_mode option"
  epMayPair :: "bool option"
  epOrigin :: "ingress_subject option"
  epIsGroup :: "bool option"

record policy_overrides =
  poFallback :: "bool option"
  poMutable :: "mutable_matching option"
  poActivation :: "activation_policy option"

record resolver_base =
  rbChannelId :: string
  rbAccountId :: string
  rbIdentity :: identity_descriptor
  rbAccessGroups :: "(string \<rightharpoonup> access_group_config) option"
  rbMembership :: "membership_fact list"
  rbResolveMembership :: "(string \<Rightarrow> access_group_config \<Rightarrow> bool option) option"
  rbMatchedEntry :: "string option"
  rbReadStore :: "ingress_store_reader option"
  rbUseDefaultStore :: bool
  rbConfig :: "ingress_config option"
  rbUseAccessGroups :: "bool option"
  rbDefaultDmPolicy :: "dm_policy option"
  rbDefaultGroupPolicy :: "group_policy option"
  rbFallback :: "bool option"
  rbMutable :: "mutable_matching option"

record resolver_input =
  reSubject :: subject_input
  reConversation :: conversation_kind
  reEvent :: event_preset
  reDmPolicy :: "dm_policy option"
  reGroupPolicy :: "group_policy option"
  rePolicy :: policy_overrides
  reAllowFrom :: "string list option"
  reGroupAllowFrom :: "string list option"
  reRoute :: "route_descriptor list"
  reRouteFacts :: "route_fact list"
  reMembership :: "membership_fact list"
  reProviderMissing :: "bool option"
  reMentionFacts :: "mention_facts option"
  reCommand :: "command_preset option"

definition or_else :: "'a option \<Rightarrow> 'a option \<Rightarrow> 'a option" where
  "or_else a b = (case a of Some x \<Rightarrow> Some x | None \<Rightarrow> b)"

definition with_default :: "'a option \<Rightarrow> 'a \<Rightarrow> 'a" where
  "with_default a d = (case a of Some x \<Rightarrow> x | None \<Rightarrow> d)"

definition useAccessGroupsFromConfig :: "bool option \<Rightarrow> ingress_config option \<Rightarrow> bool" where
  "useAccessGroupsFromConfig use cfg = with_default use (Option.bind cfg cfgUseAccessGroups \<noteq> Some False)"

definition channelIngressCommand :: "command_preset \<Rightarrow> ingress_command option" where
  "channelIngressCommand p =
     (if cpRequested p = Some False then None
      else Some \<lparr>useAccessGroups = Some (useAccessGroupsFromConfig (cpUseAccessGroups p) (cpConfig p)),
        allowTextCommands = with_default (cpAllowTextCommands p) False,
        hasControlCommand = with_default (cpHasControlCommand p) True,
        modeWhenAccessGroupsOff = cpMode p, commandOwnerAllowFrom = cpOwnerAllowFrom p,
        groupOwnerAllowFrom = cpGroupOwner p, directGroupAllowFrom = cpDirectGroup p,
        commandGroupFallback = cpGroupFallback p\<rparr>)"

definition channelIngressEvent :: "event_preset \<Rightarrow> event_input" where
  "channelIngressEvent p =
     \<lparr>eventInputKind = with_default (epKind p) MessageEvent, eventInputMode = with_default (epMode p) AuthInbound,
      eventMayPair = with_default (epMayPair p) (\<not> with_default (epIsGroup p) False), originSubject = epOrigin p\<rparr>"

text \<open>The spread of two presets: a field of the later one replaces that of the earlier one.\<close>

definition spread_event :: "event_preset \<Rightarrow> event_preset \<Rightarrow> event_preset" where
  "spread_event earlier later =
     \<lparr>epKind = or_else (epKind later) (epKind earlier), epMode = or_else (epMode later) (epMode earlier),
      epMayPair = or_else (epMayPair later) (epMayPair earlier), epOrigin = or_else (epOrigin later) (epOrigin earlier),
      epIsGroup = or_else (epIsGroup later) (epIsGroup earlier)\<rparr>"

definition no_event :: event_preset where
  "no_event = \<lparr>epKind = None, epMode = None, epMayPair = None, epOrigin = None, epIsGroup = None\<rparr>"

definition resolveCommandInput :: "command_preset option \<Rightarrow> bool \<Rightarrow> ingress_command option" where
  "resolveCommandInput cmd use =
     (case cmd of
        None \<Rightarrow> None
      | Some c \<Rightarrow> channelIngressCommand (c\<lparr>cpUseAccessGroups := or_else (cpUseAccessGroups c) (Some use)\<rparr>))"

definition resolveResolverPolicy :: "resolver_base \<Rightarrow> resolver_input \<Rightarrow> ingress_policy" where
  "resolveResolverPolicy base input =
     \<lparr>dmPolicy = with_default (or_else (reDmPolicy input) (rbDefaultDmPolicy base)) DmPairing,
      groupPolicy = with_default (or_else (reGroupPolicy input) (rbDefaultGroupPolicy base)) GroupDisabled,
      groupAllowFromFallbackToAllowFrom = or_else (poFallback (rePolicy input)) (rbFallback base),
      mutableIdentifierMatching = or_else (poMutable (rePolicy input)) (rbMutable base),
      activation = poActivation (rePolicy input), command = None\<rparr>"

definition resolverParams :: "resolver_base \<Rightarrow> event_preset \<Rightarrow> resolver_input \<Rightarrow> ingress_params" where
  "resolverParams base eventDefaults input =
     \<lparr>prChannelId = rbChannelId base, prAccountId = rbAccountId base, prIdentity = rbIdentity base,
      prSubject = reSubject input, prConversation = reConversation input,
      prEvent = channelIngressEvent (spread_event
        (spread_event (no_event\<lparr>epIsGroup := Some (reConversation input \<noteq> DirectConversation)\<rparr>) eventDefaults)
        (reEvent input)),
      prPolicy = resolveResolverPolicy base input,
      prAllowFrom = reAllowFrom input, prGroupAllowFrom = reGroupAllowFrom input,
      prRoute = reRoute input, prRouteFacts = reRouteFacts input,
      prAccessGroups =
        with_default (or_else (rbAccessGroups base) (Option.bind (rbConfig base) cfgAccessGroups)) Map.empty,
      prMembership = rbMembership base @ reMembership input,
      prResolveMembership = rbResolveMembership base, prMatchedEntry = rbMatchedEntry base,
      prProviderMissing = reProviderMissing input, prMentionFacts = reMentionFacts input,
      prReadStore = rbReadStore base, prUseDefaultStore = rbUseDefaultStore base,
      prCommand = resolveCommandInput (reCommand input)
        (useAccessGroupsFromConfig (rbUseAccessGroups base) (rbConfig base))\<rparr>"

datatype resolver_call = CallMessage | CallCommand | CallEvent

primrec callDefaults :: "resolver_call \<Rightarrow> event_preset" where
  "callDefaults CallMessage = no_event"
| "callDefaults CallCommand = no_event\<lparr>epMode := Some AuthCommand, epMayPair := Some False\<rparr>"
| "callDefaults CallEvent = no_event\<lparr>epMayPair := Some False\<rparr>"

definition createChannelIngressResolver ::
    "(string \<Rightarrow> string \<Rightarrow> int) \<Rightarrow> store_reader \<Rightarrow> resolver_base \<Rightarrow> resolver_call \<Rightarrow> resolver_input
     \<Rightarrow> string + resolved_ingress" where
  "createChannelIngressResolver localeCompare defaultStore base call input =
     resolveChannelMessageIngress localeCompare defaultStore (resolverParams base (callDefaults call) input)"

definition resolveStableChannelMessageIngress ::
    "(string \<Rightarrow> string \<Rightarrow> int) \<Rightarrow> store_reader \<Rightarrow> resolver_base \<Rightarrow> stable_identity \<Rightarrow> resolver_input
     \<Rightarrow> string + resolved_ingress" where
  "resolveStableChannelMessageIngress localeCompare defaultStore base identity input =
     createChannelIngressResolver localeCompare defaultStore
       (base\<lparr>rbIdentity := defineStableChannelIngressIdentity identity\<rparr>) CallMessage input"

section \<open>The pairing store stays out of groups\<close>

lemma store_unread:
  "prConversation params \<noteq> DirectConversation \<or> dmPolicy (prPolicy params) = DmAllowlist
     \<or> dmPolicy (prPolicy params) = DmOpen \<Longrightarrow> readStoreAllowFrom defaultStore params chan = []"
  by (auto simp: readStoreAllowFrom_def shouldReadStore_def)

lemma store_field_unused [simp]:
  "ingressStateInput (params\<lparr>prReadStore := f, prUseDefaultStore := b\<rparr>) chan raw = ingressStateInput params chan raw"
  "baseEffective (params\<lparr>prReadStore := f, prUseDefaultStore := b\<rparr>) raw = baseEffective params raw"
  "ingressPolicy (params\<lparr>prReadStore := f, prUseDefaultStore := b\<rparr>) = ingressPolicy params"
  "accessGroupMatchedEntry (params\<lparr>prReadStore := f, prUseDefaultStore := b\<rparr>) = accessGroupMatchedEntry params"
  by (simp_all add: ingressStateInput_def baseEffective_def ingressPolicy_def accessGroupMatchedEntry_def
      rawAllowFrom_def rawGroupAllowFrom_def ingressRouteFacts_def split: option.splits)

definition sample_params :: "conversation_kind \<Rightarrow> ingress_params" where
  "sample_params kind =
     \<lparr>prChannelId = ''irc'', prAccountId = ''main'', prIdentity = sample_identity,
      prSubject = \<lparr>stableId = Some (''alice!a'' @ [CHR 0x40] @ ''host''), aliasValues = Map.empty\<rparr>,
      prConversation = kind,
      prEvent = \<lparr>eventInputKind = MessageEvent, eventInputMode = AuthInbound, eventMayPair = True,
        originSubject = None\<rparr>,
      prPolicy = sample_policy, prAllowFrom = Some [''alice!a'' @ [CHR 0x40] @ ''host''], prGroupAllowFrom = None,
      prRoute = [], prRouteFacts = [], prAccessGroups = Map.empty, prMembership = [], prResolveMembership = None,
      prMatchedEntry = None, prProviderMissing = None, prMentionFacts = None,
      prReadStore = None, prUseDefaultStore = True, prCommand = None\<rparr>"

section \<open>Who is dispatched\<close>

lemma resolve_result:
  assumes "resolveChannelMessageIngress lc store params = Inr r"
  obtains chan raw where "normalizeChannelId (prChannelId params) = Some chan"
    and "raw = normalizeStringEntries (readStoreAllowFrom store params chan)"
    and "riState r = resolveChannelIngressState lc (ingressStateInput params chan raw)"
    and "riIngress r = decideChannelIngress (riState r) (ingressPolicy params)"
  using assms by (auto simp: resolveChannelMessageIngress_def Let_def split: option.splits)

lemma policy_simps [simp]:
  "dmPolicy (ingressPolicy params) = dmPolicy (prPolicy params)"
  "groupPolicy (ingressPolicy params) = groupPolicy (prPolicy params)"
  "mutableIdentifierMatching (ingressPolicy params) = mutableIdentifierMatching (prPolicy params)"
  "groupAllowFromFallbackToAllowFrom (ingressPolicy params) = groupAllowFromFallbackToAllowFrom (prPolicy params)"
  by (auto simp: ingressPolicy_def split: option.splits)

lemma input_simps [simp]:
  "inDm (ingressStateInput params chan raw) = Some (rawAllowFrom params)"
  "inPairingStore (ingressStateInput params chan raw) = Some raw"
  "inConversation (ingressStateInput params chan raw) = prConversation params"
  "inEvent (ingressStateInput params chan raw) = prEvent params"
  "inAdapter (ingressStateInput params chan raw) = createIdentityAdapter (prIdentity params)"
  "inRouteFacts (ingressStateInput params chan raw) = ingressRouteFacts params"
  by (simp_all add: ingressStateInput_def Let_def)

lemma input_adapter: "identity_adapter (ingressStateInput params chan raw) (prIdentity params)"
  by (simp add: identity_adapter_def)

lemma safe_policy [simp]: "safePolicy (ingressPolicy params) = safePolicy (prPolicy params)"
  by (simp add: safePolicy_def)

lemma state_simps [simp]:
  "conversationKind (resolveChannelIngressState lc input) = inConversation input"
  "authMode (event (resolveChannelIngressState lc input)) = eventInputMode (inEvent input)"
  "dm (allowlists (resolveChannelIngressState lc input)) = resolveIngressAllowlist input (inDm input) DmContext"
  "pairingStore (allowlists (resolveChannelIngressState lc input)) =
     resolveIngressAllowlist input (inPairingStore input) DmContext"
  "groupSenders (allowlists (resolveChannelIngressState lc input)) =
     resolveIngressAllowlist input (inGroup input) GroupContext"
  "routeFacts (resolveChannelIngressState lc input) = resolveRouteFacts lc input"
  by (simp_all add: resolveChannelIngressState_def)

lemma resolved_wildcard:
  "hasWildcard (resolveIngressAllowlist input raw ctx) \<longleftrightarrow>
     ''*'' \<in> set (normalizeStringEntries (list_or_empty raw))"
  by (auto simp: resolveIngressAllowlist_def Let_def directAllowlistEntries_def wildcard_is_no_access_group)

text \<open>
  What vouches for the sender of an event: the lists that the policy lets count, each read in its own context.
  Unless the policy enables mutable identifiers, an entry the channel marks as dangerous does not count.
\<close>

definition direct_vouched :: "ingress_params \<Rightarrow> state_input \<Rightarrow> bool" where
  "direct_vouched params input =
     (let listed = list_vouches input (prIdentity params) DmContext (safePolicy (prPolicy params)) in
      case dmPolicy (prPolicy params) of
        DmDisabled \<Rightarrow> False
      | DmOpen \<Rightarrow> ''*'' \<in> set (rawAllowFrom params) \<or> listed (Some (rawAllowFrom params))
      | DmAllowlist \<Rightarrow> listed (Some (rawAllowFrom params))
      | DmPairing \<Rightarrow> listed (Some (rawAllowFrom params)) \<or> listed (inPairingStore input))"

definition group_vouched :: "ingress_params \<Rightarrow> state_input \<Rightarrow> bool" where
  "group_vouched params input =
     (let listed = (\<lambda>ctx. list_vouches input (prIdentity params) ctx (safePolicy (prPolicy params))) in
      case groupPolicy (prPolicy params) of
        GroupDisabled \<Rightarrow> False
      | GroupOpen \<Rightarrow> True
      | GroupAllowlist \<Rightarrow> listed GroupContext (inGroup input)
          \<or> (groupAllowFromFallbackToAllowFrom (prPolicy params) = Some True \<and> listed DmContext (inDm input))
          \<or> (\<exists>r \<in> set (ingressRouteFacts params). routeGate r = RouteMatched
              \<and> routeSenderEntries input r \<noteq> None \<and> listed RouteContext (routeSenderEntries input r)))"

lemma direct_admission_vouched:
  assumes "dm_admits (resolveChannelIngressState lc (ingressStateInput params chan raw)) (ingressPolicy params)"
  shows "direct_vouched params (ingressStateInput params chan raw)"
proof -
  let ?in = "ingressStateInput params chan raw"
  have "authoritative (resolveIngressAllowlist ?in xs ctx) (ingressPolicy params) \<Longrightarrow>
      list_vouches ?in (prIdentity params) ctx (safePolicy (prPolicy params)) xs" for xs ctx
    using admitting_list_vouches [OF input_adapter] authoritative_admits [of _ "ingressPolicy params"] by simp
  moreover have "normalizeStringEntries (rawAllowFrom params) = rawAllowFrom params"
    by (simp add: rawAllowFrom_def)
  ultimately show ?thesis
    using assms by (cases "dmPolicy (prPolicy params)")
      (auto simp: dm_admits_def direct_vouched_def resolved_wildcard)
qed

lemma resolved_route_simps [simp]:
  "senderAllowlist (resolveRoute input r) =
     map_option (\<lambda>xs. resolveIngressAllowlist input (Some xs) RouteContext) (routeSenderEntries input r)"
  "routeGate (resolveRoute input r) = routeGate r"
  by (simp_all add: resolveRoute_def route_base.defs resolved_route.defs)

lemma group_admission_vouched:
  assumes adm: "group_admits (resolveChannelIngressState lc (ingressStateInput params chan raw)) (ingressPolicy params)"
  shows "group_vouched params (ingressStateInput params chan raw)"
proof (cases "groupPolicy (prPolicy params) = GroupAllowlist")
  case True
  let ?in = "ingressStateInput params chan raw"
  let ?st = "resolveChannelIngressState lc ?in"
  let ?safe = "safePolicy (prPolicy params)"
  let ?own = "if groupAllowFromFallbackToAllowFrom (prPolicy params) = Some True
        \<and> \<not> hasConfiguredEntries (groupSenders (allowlists ?st))
      then dm (allowlists ?st) else groupSenders (allowlists ?st)"
  have vouch: "list_admits ?safe (resolveIngressAllowlist ?in xs ctx) \<Longrightarrow>
      list_vouches ?in (prIdentity params) ctx ?safe xs"
    for xs ctx by (rule admitting_list_vouches [OF input_adapter])
  from adm True have "list_admits ?safe (group_list ?st (ingressPolicy params))"
    using authoritative_admits [of _ "ingressPolicy params"] by (simp add: group_admits_def)
  then have "list_admits ?safe ?own
      \<or> (\<exists>r \<in> set (routeFacts ?st). \<exists>al. senderAllowlist r = Some al \<and> routeGate r = RouteMatched \<and> list_admits ?safe al)"
    unfolding group_list_def policy_simps by (rule overridden_admits)
  then show ?thesis
  proof
    assume "list_admits ?safe ?own"
    then show ?thesis using True vouch by (auto simp: group_vouched_def Let_def split: if_splits)
  next
    assume "\<exists>r \<in> set (routeFacts ?st). \<exists>al. senderAllowlist r = Some al \<and> routeGate r = RouteMatched \<and> list_admits ?safe al"
    then obtain r xs where r: "r \<in> set (ingressRouteFacts params)" "routeSenderEntries ?in r = Some xs"
        "routeGate r = RouteMatched" "list_admits ?safe (resolveIngressAllowlist ?in (Some xs) RouteContext)"
      by (auto simp: resolveRouteFacts_def toSorted_set)
    from vouch [OF r(4)] r(1-3) show ?thesis using True by (force simp: group_vouched_def Let_def)
  qed
next
  case False
  with adm show ?thesis by (cases "groupPolicy (prPolicy params)") (auto simp: group_admits_def group_vouched_def)
qed

text \<open>
  C6. No stranger is dispatched: when an event whose sender the policy judges (auth mode inbound) is dispatched,
  the policy of its conversation is not disabled and, unless an open policy admits everyone, a list that the policy
  lets count vouches for the sender. Those lists are, for a direct event, the configured allowlist and under pairing
  the store; for a group event, the group allowlist, the direct one when the policy falls back to it, and the lists of
  the matched routes. A list vouches when one of its entries, or an entry of an access group it names, matches the
  sender: the match hook of the channel says so or, where it has no verdict, the entry is a wildcard or an identifier
  of the sender; or when a membership fact says that the sender is in a group it names. Unless the policy
  enables mutable identifiers, an entry that the channel marks as dangerous never vouches. It holds for every
  channel identity, with or without a hook, and for every policy.
\<close>

theorem no_stranger_is_dispatched:
  assumes "resolveChannelMessageIngress lc store params = Inr r" and "admission (riIngress r) = Dispatch"
    and "eventInputMode (prEvent params) = AuthInbound"
  shows "\<exists>chan. normalizeChannelId (prChannelId params) = Some chan
    \<and> (let input = ingressStateInput params chan (normalizeStringEntries (readStoreAllowFrom store params chan)) in
       if prConversation params = DirectConversation then direct_vouched params input else group_vouched params input)"
proof -
  obtain chan raw where c: "normalizeChannelId (prChannelId params) = Some chan"
      "raw = normalizeStringEntries (readStoreAllowFrom store params chan)"
      "riState r = resolveChannelIngressState lc (ingressStateInput params chan raw)"
      "riIngress r = decideChannelIngress (riState r) (ingressPolicy params)"
    using assms(1) by (rule resolve_result)
  from assms(2) have "event_admitted (riState r) (ingressPolicy params)"
    unfolding c(4) dispatch_iff_admitted by simp
  then have "sender_admitted (riState r) (ingressPolicy params)"
    using assms(3) by (simp add: c(3) event_admitted_def)
  then show ?thesis
    using direct_admission_vouched group_admission_vouched c
    by (auto simp: sender_admitted_def Let_def split: if_splits)
qed

lemma no_stranger_is_dispatched_witness:
  "direct_vouched (sample_params DirectConversation) (ingressStateInput (sample_params DirectConversation) ''irc'' [])"
proof -
  let ?p = "sample_params DirectConversation"
  have "case resolveChannelMessageIngress (\<lambda>_ _. 0) (\<lambda>_ _. None) ?p of
      Inr r \<Rightarrow> admission (riIngress r) = Dispatch | Inl _ \<Rightarrow> False"
    by code_simp
  then obtain r where r: "resolveChannelMessageIngress (\<lambda>_ _. 0) (\<lambda>_ _. None) ?p = Inr r"
      "admission (riIngress r) = Dispatch"
    by (auto split: sum.splits)
  have c: "normalizeChannelId (prChannelId ?p) = Some ''irc''"
      "eventInputMode (prEvent ?p) = AuthInbound"
      "readStoreAllowFrom (\<lambda>_ _. None) ?p ''irc'' = []" "prConversation ?p = DirectConversation"
    by code_simp+
  from no_stranger_is_dispatched [OF r c(2)] c show ?thesis by (simp add: Let_def)
qed

text \<open>
  A paired sender keeps the right to commands when direct messages are switched off: the store is read under the
  disabled policy too and feeds the list of command owners, so a command event of a paired sender is dispatched
  although the same sender's messages are dropped.
\<close>

definition disabled_params :: "event_auth_mode \<Rightarrow> ingress_params" where
  "disabled_params mode =
     (sample_params DirectConversation)
       \<lparr>prEvent := \<lparr>eventInputKind = MessageEvent, eventInputMode = mode, eventMayPair = False, originSubject = None\<rparr>,
        prPolicy := sample_policy\<lparr>dmPolicy := DmDisabled\<rparr>, prAllowFrom := None,
        prCommand := Some \<lparr>useAccessGroups = Some True, allowTextCommands = True, hasControlCommand = True,
          modeWhenAccessGroupsOff = None, commandOwnerAllowFrom = None, groupOwnerAllowFrom = None,
          directGroupAllowFrom = None, commandGroupFallback = None\<rparr>\<rparr>"

definition dispatched :: "string + resolved_ingress \<Rightarrow> bool" where
  "dispatched res = (case res of Inr r \<Rightarrow> admission (riIngress r) = Dispatch | Inl _ \<Rightarrow> False)"

lemma disabled_policy_reads_store:
  "dispatched (resolveChannelMessageIngress (\<lambda>_ _. 0) (\<lambda>_ _. Some [''alice!a'' @ [CHR 0x40] @ ''host'']) (disabled_params AuthCommand))"
  "\<not> dispatched (resolveChannelMessageIngress (\<lambda>_ _. 0) (\<lambda>_ _. None) (disabled_params AuthCommand))"
  by code_simp+

text \<open>
  C26. Who has paired by direct message gains nothing in groups or where the policy lists its senders itself: for a
  group or channel event, and for a direct one under the allowlist and open policies, the whole result
  (admission, graph, effective lists, command authorisation) is the same whatever the pairing store holds and however it
  is read. Under the disabled policy the store is still read and counts for commands; there the property is that no
  direct event whose sender the policy judges is dispatched, whatever the store holds.
\<close>

theorem pairing_store_is_isolated:
  "(prConversation params \<noteq> DirectConversation \<or> dmPolicy (prPolicy params) \<in> {DmAllowlist, DmOpen} \<longrightarrow>
      resolveChannelMessageIngress lc store (params\<lparr>prReadStore := f, prUseDefaultStore := b\<rparr>)
        = resolveChannelMessageIngress lc store' (params\<lparr>prReadStore := f', prUseDefaultStore := b'\<rparr>))
    \<and> (prConversation params = DirectConversation \<and> dmPolicy (prPolicy params) = DmDisabled
        \<and> eventInputMode (prEvent params) = AuthInbound \<longrightarrow>
      \<not> dispatched (resolveChannelMessageIngress lc store params))"
proof (intro conjI impI)
  let ?p = "\<lambda>f b. params\<lparr>prReadStore := f, prUseDefaultStore := b\<rparr>"
  assume "prConversation params \<noteq> DirectConversation \<or> dmPolicy (prPolicy params) \<in> {DmAllowlist, DmOpen}"
  then have "prConversation (?p f b) \<noteq> DirectConversation \<or> dmPolicy (prPolicy (?p f b)) = DmAllowlist
      \<or> dmPolicy (prPolicy (?p f b)) = DmOpen" for f b
    by auto
  from store_unread [OF this] have "readStoreAllowFrom st (?p f b) chan = []" for st f b chan .
  then show "resolveChannelMessageIngress lc store (?p f b) = resolveChannelMessageIngress lc store' (?p f' b')"
    by (cases "normalizeChannelId (prChannelId params)") (simp_all add: resolveChannelMessageIngress_def Let_def)
next
  assume off: "prConversation params = DirectConversation \<and> dmPolicy (prPolicy params) = DmDisabled
    \<and> eventInputMode (prEvent params) = AuthInbound"
  show "\<not> dispatched (resolveChannelMessageIngress lc store params)"
  proof
    assume "dispatched (resolveChannelMessageIngress lc store params)"
    then obtain r where r: "resolveChannelMessageIngress lc store params = Inr r" "admission (riIngress r) = Dispatch"
      by (auto simp: dispatched_def split: sum.splits)
    from r(1) obtain chan raw where c: "riState r = resolveChannelIngressState lc (ingressStateInput params chan raw)"
        "riIngress r = decideChannelIngress (riState r) (ingressPolicy params)"
      by (rule resolve_result)
    from r(2) have "event_admitted (riState r) (ingressPolicy params)" unfolding c(2) dispatch_iff_admitted by simp
    with off show False by (simp add: c(1) event_admitted_def sender_admitted_def dm_admits_def)
  qed
qed

lemma pairing_store_is_isolated_witness:
  "resolveChannelMessageIngress (\<lambda>_ _. 0) (\<lambda>_ _. Some [''mallory'']) (sample_params GroupConversation)
      = resolveChannelMessageIngress (\<lambda>_ _. 0) (\<lambda>_ _. None) (sample_params GroupConversation)
    \<and> \<not> dispatched (resolveChannelMessageIngress (\<lambda>_ _. 0) (\<lambda>_ _. Some [''alice!a'' @ [CHR 0x40] @ ''host''])
          (disabled_params AuthInbound))"
proof -
  have "sample_params GroupConversation = (sample_params GroupConversation)\<lparr>prReadStore := None, prUseDefaultStore := True\<rparr>"
    by (simp add: sample_params_def)
  moreover have "prConversation (sample_params GroupConversation) \<noteq> DirectConversation" by (simp add: sample_params_def)
  moreover have "prConversation (disabled_params AuthInbound) = DirectConversation
      \<and> dmPolicy (prPolicy (disabled_params AuthInbound)) = DmDisabled
      \<and> eventInputMode (prEvent (disabled_params AuthInbound)) = AuthInbound"
    by (simp add: disabled_params_def sample_params_def)
  ultimately show ?thesis using pairing_store_is_isolated by metis
qed

end
