(* ===== verification/OperatorScopes.thy ===== *)
theory OperatorScopes
  imports AllowFrom
begin

text \<open>
  Operator scopes and the grants of roles: \<^verbatim>\<open>src/gateway/operator-scopes.ts\<close>,
  \<^verbatim>\<open>src/shared/operator-scope-compat.ts\<close> and \<^verbatim>\<open>src/shared/gateway-method-policy.ts\<close>. The scopes a client
  presents are untrusted strings; the scopes the gateway requires are a closed type with their texts.
\<close>

section \<open>The closed set of scopes\<close>

datatype operator_scope =
  AdminScope | ReadScope | WriteScope | ApprovalsScope | PairingScope | TalkSecretsScope

primrec scopeText :: "operator_scope \<Rightarrow> string" where
  "scopeText AdminScope = ''operator.admin''"
| "scopeText ReadScope = ''operator.read''"
| "scopeText WriteScope = ''operator.write''"
| "scopeText ApprovalsScope = ''operator.approvals''"
| "scopeText PairingScope = ''operator.pairing''"
| "scopeText TalkSecretsScope = ''operator.talk.secrets''"

definition KNOWN_OPERATOR_SCOPE_VALUES :: "operator_scope list" where
  "KNOWN_OPERATOR_SCOPE_VALUES =
     [AdminScope, ReadScope, WriteScope, ApprovalsScope, PairingScope, TalkSecretsScope]"

definition isOperatorScope :: "string \<Rightarrow> bool" where
  "isOperatorScope v \<longleftrightarrow> v \<in> set (map scopeText KNOWN_OPERATOR_SCOPE_VALUES)"

definition normalizeOperatorScopeList :: "string list option \<Rightarrow> string list option" where
  "normalizeOperatorScopeList scopes =
     map_option (\<lambda>xs. fold (\<lambda>s acc. if isOperatorScope s \<and> s \<notin> set acc then acc @ [s] else acc) xs []) scopes"

section \<open>What a role's grant covers\<close>

definition normalizeScopeList :: "string list \<Rightarrow> string list" where
  "normalizeScopeList scopes =
     fold (\<lambda>s acc. let trimmed = js_trim s in if trimmed \<noteq> [] then addUnique trimmed acc else acc) scopes []"

definition operatorScopeSatisfied :: "string \<Rightarrow> string list \<Rightarrow> bool" where
  "operatorScopeSatisfied requestedScope granted =
     (if \<not> starts_with requestedScope ''operator.'' then False
      else if scopeText AdminScope \<in> set granted then True
      else if requestedScope = scopeText ReadScope
        then scopeText ReadScope \<in> set granted \<or> scopeText WriteScope \<in> set granted
      else if requestedScope = scopeText WriteScope then scopeText WriteScope \<in> set granted
      else requestedScope \<in> set granted)"

definition roleScopesAllow :: "string \<Rightarrow> string list \<Rightarrow> string list \<Rightarrow> bool" where
  "roleScopesAllow role requestedScopes allowedScopes =
     (let requested = normalizeScopeList requestedScopes in
      if length requested = 0 then True
      else let allowed = normalizeScopeList allowedScopes in
      if length allowed = 0 then False
      else if js_trim role \<noteq> ''operator'' then
        (let prefix = js_trim role @ ''.'' in
         list_all (\<lambda>scope. starts_with scope prefix \<and> scope \<in> set allowed) requested)
      else list_all (\<lambda>scope. operatorScopeSatisfied scope allowed) requested)"

fun resolveMissingRequestedScope :: "string \<Rightarrow> string list \<Rightarrow> string list \<Rightarrow> string option" where
  "resolveMissingRequestedScope role [] allowedScopes = None"
| "resolveMissingRequestedScope role (scope # rest) allowedScopes =
     (if \<not> roleScopesAllow role [scope] allowedScopes then Some scope
      else resolveMissingRequestedScope role rest allowedScopes)"

fun resolveScopeOutsideRequestedRoles :: "string list \<Rightarrow> string list \<Rightarrow> string option" where
  "resolveScopeOutsideRequestedRoles requestedRoles [] = None"
| "resolveScopeOutsideRequestedRoles requestedRoles (scope # rest) =
     (if \<not> list_ex (\<lambda>role. roleScopesAllow role [scope] [scope]) requestedRoles then Some scope
      else resolveScopeOutsideRequestedRoles requestedRoles rest)"

section \<open>Reserved namespaces\<close>

definition RESERVED_ADMIN_GATEWAY_METHOD_PREFIXES :: "string list" where
  "RESERVED_ADMIN_GATEWAY_METHOD_PREFIXES = [''exec.approvals.'', ''config.'', ''wizard.'', ''update.'']"

definition isReservedAdminGatewayMethod :: "string \<Rightarrow> bool" where
  "isReservedAdminGatewayMethod m \<longleftrightarrow> list_ex (starts_with m) RESERVED_ADMIN_GATEWAY_METHOD_PREFIXES"

definition resolveReservedGatewayMethodScope :: "string \<Rightarrow> operator_scope option" where
  "resolveReservedGatewayMethodScope m = (if \<not> isReservedAdminGatewayMethod m then None else Some AdminScope)"

text \<open>The scope to use, and whether it was coerced to the reserved one.\<close>

definition normalizePluginGatewayMethodScope :: "string \<Rightarrow> operator_scope option \<Rightarrow> operator_scope option \<times> bool" where
  "normalizePluginGatewayMethodScope m scope =
     (let reserved = resolveReservedGatewayMethodScope m in
      if reserved = None \<or> scope = None \<or> scope = reserved then (scope, False) else (reserved, True))"

section \<open>Lemmas\<close>

lemma scopeText_inj [simp]: "scopeText a = scopeText b \<longleftrightarrow> a = b"
  by (cases a; cases b) simp_all

lemma isOperatorScope_iff: "isOperatorScope v \<longleftrightarrow> (\<exists>s. v = scopeText s)"
proof
  assume "\<exists>s. v = scopeText s"
  then obtain s where "v = scopeText s" by blast
  then show "isOperatorScope v" by (cases s) (simp_all add: isOperatorScope_def KNOWN_OPERATOR_SCOPE_VALUES_def)
qed (auto simp: isOperatorScope_def)

lemma scope_has_prefix: "starts_with (scopeText s) ''operator.''"
  by (cases s) (simp_all add: starts_with_def)

lemma normalizeScopeList_set:
  "set (normalizeScopeList scopes) = {t. t \<noteq> [] \<and> (\<exists>s \<in> set scopes. t = js_trim s)}"
proof -
  have "set (fold (\<lambda>s acc. let trimmed = js_trim s in if trimmed \<noteq> [] then addUnique trimmed acc else acc) scopes acc)
      = set acc \<union> {t. t \<noteq> [] \<and> (\<exists>s \<in> set scopes. t = js_trim s)}" for acc
    by (induction scopes arbitrary: acc) (auto simp: Let_def)
  then show ?thesis by (simp add: normalizeScopeList_def)
qed

lemma normalizeScopeList_nil: "normalizeScopeList scopes = [] \<longleftrightarrow> (\<forall>s \<in> set scopes. js_trim s = [])"
  unfolding set_empty [symmetric] normalizeScopeList_set by auto

text \<open>
  A role covers a list of scopes exactly when it covers each of them, so the missing scope that is reported is
  the first one that is not covered.
\<close>

lemma roleScopesAllow_iff:
  "roleScopesAllow role rs allowed \<longleftrightarrow> (\<forall>s \<in> set rs. roleScopesAllow role [s] allowed)"
proof -
  have one: "roleScopesAllow role xs allowed \<longleftrightarrow>
      (\<forall>t \<in> set (normalizeScopeList xs). normalizeScopeList allowed \<noteq> []
        \<and> (if js_trim role \<noteq> ''operator''
           then starts_with t (js_trim role @ ''.'') \<and> t \<in> set (normalizeScopeList allowed)
           else operatorScopeSatisfied t (normalizeScopeList allowed)))" for xs
    by (auto simp: roleScopesAllow_def Let_def list_all_iff)
  show ?thesis unfolding one by (auto simp: normalizeScopeList_set)
qed

lemma missing_scope_none:
  "resolveMissingRequestedScope role rs allowed = None \<longleftrightarrow> roleScopesAllow role rs allowed"
proof (induction rs)
  case (Cons s rs)
  then show ?case using roleScopesAllow_iff [of role "s # rs" allowed] roleScopesAllow_iff [of role rs allowed] by auto
qed (simp add: roleScopesAllow_def normalizeScopeList_def)

lemma satisfied_trans:
  assumes "operatorScopeSatisfied t granted" and "\<forall>g \<in> set granted. operatorScopeSatisfied g base"
  shows "operatorScopeSatisfied t base"
proof (cases "scopeText AdminScope \<in> set base")
  case True
  then show ?thesis using assms(1) by (simp add: operatorScopeSatisfied_def split: if_splits)
next
  case False
  have no_admin: "scopeText AdminScope \<notin> set granted"
  proof
    assume "scopeText AdminScope \<in> set granted"
    with assms(2) have "operatorScopeSatisfied (scopeText AdminScope) base" by blast
    with False show False unfolding operatorScopeSatisfied_def by (simp only: scopeText_inj) (simp split: if_splits)
  qed
  have wr: "scopeText WriteScope \<in> set base" if "scopeText WriteScope \<in> set granted"
  proof -
    have "operatorScopeSatisfied (scopeText WriteScope) base" using assms(2) that by blast
    with False show ?thesis unfolding operatorScopeSatisfied_def by (simp only: scopeText_inj) (simp split: if_splits)
  qed
  show ?thesis
  proof (cases "t \<in> set granted")
    case True
    with assms(2) show ?thesis by blast
  next
    case False
    then have "t = scopeText ReadScope" "scopeText WriteScope \<in> set granted"
      using assms(1) no_admin unfolding operatorScopeSatisfied_def by (auto simp only: split: if_splits)
    with wr show ?thesis
      unfolding operatorScopeSatisfied_def by (simp only: scopeText_inj scope_has_prefix) simp
  qed
qed

lemma roleScopesAllow_all:
  "roleScopesAllow role xs allowed \<longleftrightarrow>
      (\<forall>t \<in> set (normalizeScopeList xs). normalizeScopeList allowed \<noteq> []
        \<and> (if js_trim role \<noteq> ''operator''
           then starts_with t (js_trim role @ ''.'') \<and> t \<in> set (normalizeScopeList allowed)
           else operatorScopeSatisfied t (normalizeScopeList allowed)))"
  by (auto simp: roleScopesAllow_def Let_def list_all_iff)

text \<open>
  A grant never grows by delegation: if a role's grant covers a second list of scopes, then whatever
  that second list covers, the first grant covers as well.
\<close>

theorem delegated_scopes_never_grow:
  assumes "roleScopesAllow role granted base" and "roleScopesAllow role requested granted"
  shows "roleScopesAllow role requested base"
proof (cases "normalizeScopeList requested = []")
  case True
  then show ?thesis by (simp add: roleScopesAllow_all)
next
  case False
  then have "normalizeScopeList granted \<noteq> []"
    using assms(2) unfolding roleScopesAllow_all by (metis list.set_intros(1) neq_Nil_conv)
  then have "normalizeScopeList base \<noteq> []"
    using assms(1) unfolding roleScopesAllow_all by (metis list.set_intros(1) neq_Nil_conv)
  then show ?thesis
    using assms unfolding roleScopesAllow_all by (auto intro: satisfied_trans split: if_splits)
qed

lemma delegated_scopes_never_grow_witness:
  "roleScopesAllow ''operator'' [''operator.read''] [''operator.admin'']"
proof -
  have "roleScopesAllow ''operator'' [''operator.write'', ''operator.approvals''] [''operator.admin'']"
      and "roleScopesAllow ''operator'' [''operator.read''] [''operator.write'', ''operator.approvals'']"
    by code_simp+
  then show ?thesis by (rule delegated_scopes_never_grow)
qed

end
