(* ===== verification/GatewayMethods.thy ===== *)
theory GatewayMethods
  imports OperatorScopes
begin

text \<open>
  The methods a gateway serves and their policy: \<^verbatim>\<open>src/gateway/methods/descriptor.ts\<close>,
  \<^verbatim>\<open>methods/core-descriptors.ts\<close> with its table of core methods, and \<^verbatim>\<open>methods/registry.ts\<close>. Handlers are
  numbers: the registry only looks them up. An object that maps names to handlers is the list of its entries.
\<close>

section \<open>Descriptors\<close>

datatype method_scope = OperatorMethod operator_scope | NodeMethod | DynamicMethod

datatype method_owner = CoreOwner string | PluginOwner string | ChannelOwner string | AuxOwner string

record method_descriptor =
  methodName :: string
  methodHandler :: nat
  methodScope :: "method_scope option"
  methodOwner :: method_owner
  startupUnavailable :: bool
  controlPlaneWrite :: bool
  advertised :: bool

section \<open>The core table\<close>

record core_spec =
  specName :: string
  specScope :: method_scope
  specAdvertise :: bool
  specStartup :: bool
  specControlPlaneWrite :: bool

definition core :: "string \<Rightarrow> method_scope \<Rightarrow> core_spec" where
  "core n s = \<lparr>specName = n, specScope = s, specAdvertise = True, specStartup = False, specControlPlaneWrite = False\<rparr>"

definition hiddenCore :: "string \<Rightarrow> method_scope \<Rightarrow> core_spec" where
  "hiddenCore n s = (core n s)\<lparr>specAdvertise := False\<rparr>"

definition startupCore :: "string \<Rightarrow> method_scope \<Rightarrow> core_spec" where
  "startupCore n s = (core n s)\<lparr>specStartup := True\<rparr>"

definition writeCore :: "string \<Rightarrow> method_scope \<Rightarrow> core_spec" where
  "writeCore n s = (core n s)\<lparr>specControlPlaneWrite := True\<rparr>"

definition startupWriteCore :: "string \<Rightarrow> method_scope \<Rightarrow> core_spec" where
  "startupWriteCore n s = (core n s)\<lparr>specStartup := True, specControlPlaneWrite := True\<rparr>"

definition CORE_GATEWAY_METHOD_SPECS :: "core_spec list" where
  "CORE_GATEWAY_METHOD_SPECS =
    [ core ''health'' (OperatorMethod ReadScope),
      core ''diagnostics.stability'' (OperatorMethod ReadScope),
      core ''doctor.memory.status'' (OperatorMethod ReadScope),
      core ''doctor.memory.dreamDiary'' (OperatorMethod ReadScope),
      core ''doctor.memory.backfillDreamDiary'' (OperatorMethod WriteScope),
      core ''doctor.memory.resetDreamDiary'' (OperatorMethod WriteScope),
      core ''doctor.memory.resetGroundedShortTerm'' (OperatorMethod WriteScope),
      core ''doctor.memory.repairDreamingArtifacts'' (OperatorMethod WriteScope),
      core ''doctor.memory.dedupeDreamDiary'' (OperatorMethod WriteScope),
      core ''doctor.memory.remHarness'' (OperatorMethod ReadScope),
      core ''logs.tail'' (OperatorMethod ReadScope),
      core ''channels.status'' (OperatorMethod ReadScope),
      core ''channels.start'' (OperatorMethod AdminScope),
      core ''channels.stop'' (OperatorMethod AdminScope),
      core ''channels.logout'' (OperatorMethod AdminScope),
      core ''status'' (OperatorMethod ReadScope),
      core ''usage.status'' (OperatorMethod ReadScope),
      core ''usage.cost'' (OperatorMethod ReadScope),
      core ''tts.status'' (OperatorMethod ReadScope),
      core ''tts.providers'' (OperatorMethod ReadScope),
      core ''tts.personas'' (OperatorMethod ReadScope),
      core ''tts.enable'' (OperatorMethod WriteScope),
      core ''tts.disable'' (OperatorMethod WriteScope),
      core ''tts.convert'' (OperatorMethod WriteScope),
      core ''tts.setProvider'' (OperatorMethod WriteScope),
      core ''tts.setPersona'' (OperatorMethod WriteScope),
      core ''config.get'' (OperatorMethod ReadScope),
      core ''config.set'' (OperatorMethod AdminScope),
      writeCore ''config.apply'' (OperatorMethod AdminScope),
      writeCore ''config.patch'' (OperatorMethod AdminScope),
      core ''config.schema'' (OperatorMethod AdminScope),
      core ''config.schema.lookup'' (OperatorMethod ReadScope),
      core ''exec.approvals.get'' (OperatorMethod AdminScope),
      core ''exec.approvals.set'' (OperatorMethod AdminScope),
      core ''exec.approvals.node.get'' (OperatorMethod AdminScope),
      core ''exec.approvals.node.set'' (OperatorMethod AdminScope),
      core ''exec.approval.get'' (OperatorMethod ApprovalsScope),
      core ''exec.approval.list'' (OperatorMethod ApprovalsScope),
      core ''exec.approval.request'' (OperatorMethod ApprovalsScope),
      core ''exec.approval.waitDecision'' (OperatorMethod ApprovalsScope),
      core ''exec.approval.resolve'' (OperatorMethod ApprovalsScope),
      core ''plugin.approval.list'' (OperatorMethod ApprovalsScope),
      core ''plugin.approval.request'' (OperatorMethod ApprovalsScope),
      core ''plugin.approval.waitDecision'' (OperatorMethod ApprovalsScope),
      core ''plugin.approval.resolve'' (OperatorMethod ApprovalsScope),
      core ''plugins.uiDescriptors'' (OperatorMethod ReadScope),
      core ''plugins.sessionAction'' DynamicMethod,
      core ''crestodian.chat'' (OperatorMethod AdminScope),
      core ''crestodian.setup.detect'' (OperatorMethod AdminScope),
      core ''crestodian.setup.activate'' (OperatorMethod AdminScope),
      core ''crestodian.setup.auth.start'' (OperatorMethod AdminScope),
      core ''wizard.start'' (OperatorMethod AdminScope),
      core ''wizard.next'' (OperatorMethod AdminScope),
      core ''wizard.cancel'' (OperatorMethod AdminScope),
      core ''wizard.status'' (OperatorMethod AdminScope),
      core ''talk.catalog'' (OperatorMethod ReadScope),
      core ''talk.config'' (OperatorMethod ReadScope),
      core ''talk.client.create'' (OperatorMethod WriteScope),
      core ''talk.client.toolCall'' (OperatorMethod WriteScope),
      core ''talk.client.steer'' (OperatorMethod WriteScope),
      core ''talk.session.create'' (OperatorMethod WriteScope),
      core ''talk.session.join'' (OperatorMethod WriteScope),
      core ''talk.session.appendAudio'' (OperatorMethod WriteScope),
      core ''talk.session.startTurn'' (OperatorMethod WriteScope),
      core ''talk.session.endTurn'' (OperatorMethod WriteScope),
      core ''talk.session.cancelTurn'' (OperatorMethod WriteScope),
      core ''talk.session.cancelOutput'' (OperatorMethod WriteScope),
      core ''talk.session.acknowledgeMark'' (OperatorMethod WriteScope),
      core ''talk.session.submitToolResult'' (OperatorMethod WriteScope),
      core ''talk.session.steer'' (OperatorMethod WriteScope),
      core ''talk.session.close'' (OperatorMethod WriteScope),
      core ''talk.speak'' (OperatorMethod WriteScope),
      core ''talk.mode'' (OperatorMethod WriteScope),
      core ''commands.list'' (OperatorMethod ReadScope),
      startupCore ''models.list'' (OperatorMethod ReadScope),
      core ''models.authStatus'' (OperatorMethod ReadScope),
      writeCore ''models.authLogout'' (OperatorMethod AdminScope),
      core ''tools.catalog'' (OperatorMethod ReadScope),
      startupCore ''tools.effective'' (OperatorMethod ReadScope),
      core ''tools.invoke'' (OperatorMethod WriteScope),
      core ''mcp.app.view'' (OperatorMethod ReadScope),
      core ''mcp.app.listTools'' (OperatorMethod ReadScope),
      core ''mcp.app.listResources'' (OperatorMethod ReadScope),
      core ''mcp.app.listResourceTemplates'' (OperatorMethod ReadScope),
      core ''mcp.app.readResource'' (OperatorMethod ReadScope),
      core ''mcp.app.callTool'' (OperatorMethod WriteScope),
      core ''audit.list'' (OperatorMethod ReadScope),
      core ''audit.activity.list'' (OperatorMethod ReadScope),
      core ''tasks.list'' (OperatorMethod ReadScope),
      core ''tasks.get'' (OperatorMethod ReadScope),
      core ''tasks.cancel'' (OperatorMethod WriteScope),
      core ''taskSuggestions.list'' (OperatorMethod ReadScope),
      core ''taskSuggestions.create'' (OperatorMethod WriteScope),
      core ''taskSuggestions.accept'' (OperatorMethod AdminScope),
      core ''taskSuggestions.dismiss'' (OperatorMethod WriteScope),
      core ''environments.list'' (OperatorMethod ReadScope),
      core ''environments.status'' (OperatorMethod ReadScope),
      core ''worktrees.list'' (OperatorMethod ReadScope),
      core ''worktrees.branches'' (OperatorMethod WriteScope),
      core ''fs.listDir'' (OperatorMethod AdminScope),
      writeCore ''worktrees.create'' (OperatorMethod AdminScope),
      writeCore ''worktrees.remove'' (OperatorMethod AdminScope),
      writeCore ''worktrees.restore'' (OperatorMethod AdminScope),
      writeCore ''worktrees.gc'' (OperatorMethod AdminScope),
      core ''agents.list'' (OperatorMethod ReadScope),
      core ''agents.create'' (OperatorMethod AdminScope),
      core ''agents.update'' (OperatorMethod AdminScope),
      core ''agents.delete'' (OperatorMethod AdminScope),
      core ''agents.files.list'' (OperatorMethod ReadScope),
      core ''agents.files.get'' (OperatorMethod ReadScope),
      core ''agents.files.set'' (OperatorMethod AdminScope),
      core ''sessions.files.list'' (OperatorMethod ReadScope),
      core ''sessions.files.get'' (OperatorMethod ReadScope),
      core ''sessions.files.set'' (OperatorMethod AdminScope),
      core ''artifacts.list'' (OperatorMethod ReadScope),
      core ''artifacts.get'' (OperatorMethod ReadScope),
      core ''artifacts.download'' (OperatorMethod ReadScope),
      core ''skills.status'' (OperatorMethod ReadScope),
      core ''skills.search'' (OperatorMethod ReadScope),
      core ''skills.detail'' (OperatorMethod ReadScope),
      core ''skills.securityVerdicts'' (OperatorMethod ReadScope),
      core ''skills.skillCard'' (OperatorMethod ReadScope),
      core ''skills.bins'' NodeMethod,
      core ''skills.upload.begin'' (OperatorMethod AdminScope),
      core ''skills.upload.chunk'' (OperatorMethod AdminScope),
      core ''skills.upload.commit'' (OperatorMethod AdminScope),
      core ''skills.install'' (OperatorMethod AdminScope),
      core ''skills.update'' (OperatorMethod AdminScope),
      core ''skills.curator.status'' (OperatorMethod ReadScope),
      core ''skills.curator.pin'' (OperatorMethod AdminScope),
      core ''skills.curator.unpin'' (OperatorMethod AdminScope),
      core ''skills.curator.restore'' (OperatorMethod AdminScope),
      core ''skills.proposals.list'' (OperatorMethod ReadScope),
      core ''skills.proposals.inspect'' (OperatorMethod ReadScope),
      core ''skills.proposals.create'' (OperatorMethod AdminScope),
      core ''skills.proposals.update'' (OperatorMethod AdminScope),
      core ''skills.proposals.revise'' (OperatorMethod AdminScope),
      core ''skills.proposals.requestRevision'' (OperatorMethod AdminScope),
      core ''skills.proposals.apply'' (OperatorMethod AdminScope),
      core ''skills.proposals.reject'' (OperatorMethod AdminScope),
      core ''skills.proposals.quarantine'' (OperatorMethod AdminScope),
      core ''update.status'' (OperatorMethod AdminScope),
      writeCore ''update.run'' (OperatorMethod AdminScope),
      core ''voicewake.get'' (OperatorMethod ReadScope),
      core ''voicewake.set'' (OperatorMethod WriteScope),
      core ''secrets.reload'' (OperatorMethod AdminScope),
      core ''secrets.resolve'' (OperatorMethod AdminScope),
      core ''voicewake.routing.get'' (OperatorMethod ReadScope),
      core ''voicewake.routing.set'' (OperatorMethod WriteScope),
      startupCore ''sessions.list'' (OperatorMethod ReadScope),
      core ''sessions.subscribe'' (OperatorMethod ReadScope),
      core ''sessions.unsubscribe'' (OperatorMethod ReadScope),
      core ''sessions.messages.subscribe'' (OperatorMethod ReadScope),
      core ''sessions.messages.unsubscribe'' (OperatorMethod ReadScope),
      core ''sessions.preview'' (OperatorMethod ReadScope),
      core ''sessions.describe'' (OperatorMethod ReadScope),
      core ''sessions.compaction.list'' (OperatorMethod ReadScope),
      core ''sessions.compaction.get'' (OperatorMethod ReadScope),
      core ''sessions.compaction.branch'' (OperatorMethod WriteScope),
      core ''sessions.compaction.restore'' (OperatorMethod AdminScope),
      startupCore ''sessions.create'' DynamicMethod,
      startupCore ''sessions.send'' (OperatorMethod WriteScope),
      startupCore ''sessions.abort'' (OperatorMethod WriteScope),
      core ''sessions.patch'' DynamicMethod,
      core ''sessions.pluginPatch'' (OperatorMethod AdminScope),
      core ''sessions.cleanup'' (OperatorMethod AdminScope),
      core ''sessions.reset'' (OperatorMethod AdminScope),
      core ''sessions.delete'' DynamicMethod,
      core ''sessions.compact'' (OperatorMethod AdminScope),
      core ''sessions.groups.list'' (OperatorMethod ReadScope),
      core ''sessions.groups.put'' (OperatorMethod WriteScope),
      core ''sessions.groups.rename'' (OperatorMethod WriteScope),
      core ''sessions.groups.delete'' (OperatorMethod WriteScope),
      core ''last-heartbeat'' (OperatorMethod ReadScope),
      core ''set-heartbeats'' (OperatorMethod AdminScope),
      core ''wake'' (OperatorMethod WriteScope),
      core ''node.pair.list'' (OperatorMethod PairingScope),
      core ''node.pair.approve'' (OperatorMethod PairingScope),
      core ''node.pair.reject'' (OperatorMethod PairingScope),
      core ''node.pair.remove'' (OperatorMethod PairingScope),
      core ''device.pair.list'' (OperatorMethod PairingScope),
      core ''device.pair.approve'' (OperatorMethod PairingScope),
      core ''device.pair.reject'' (OperatorMethod PairingScope),
      core ''device.pair.remove'' (OperatorMethod PairingScope),
      core ''device.pair.rename'' (OperatorMethod PairingScope),
      core ''device.token.rotate'' (OperatorMethod PairingScope),
      core ''device.token.revoke'' (OperatorMethod PairingScope),
      hiddenCore ''device.pair.setupCode'' (OperatorMethod AdminScope),
      core ''node.rename'' (OperatorMethod PairingScope),
      core ''node.list'' (OperatorMethod ReadScope),
      core ''node.describe'' (OperatorMethod ReadScope),
      core ''node.pluginSurface.refresh'' NodeMethod,
      core ''node.pluginTools.update'' NodeMethod,
      core ''node.skills.update'' NodeMethod,
      core ''node.pending.drain'' NodeMethod,
      core ''node.pending.enqueue'' (OperatorMethod WriteScope),
      core ''node.invoke'' (OperatorMethod WriteScope),
      core ''node.pending.pull'' NodeMethod,
      core ''node.pending.ack'' NodeMethod,
      core ''node.invoke.progress'' NodeMethod,
      core ''node.invoke.result'' NodeMethod,
      core ''node.event'' NodeMethod,
      core ''cron.get'' (OperatorMethod ReadScope),
      core ''cron.list'' (OperatorMethod ReadScope),
      core ''cron.status'' (OperatorMethod ReadScope),
      core ''cron.add'' (OperatorMethod AdminScope),
      core ''cron.update'' (OperatorMethod AdminScope),
      core ''cron.remove'' (OperatorMethod AdminScope),
      core ''cron.run'' (OperatorMethod AdminScope),
      core ''cron.runs'' (OperatorMethod ReadScope),
      core ''gateway.identity.get'' (OperatorMethod ReadScope),
      core ''gateway.restart.preflight'' (OperatorMethod ReadScope),
      writeCore ''gateway.restart.request'' (OperatorMethod AdminScope),
      core ''system-presence'' (OperatorMethod ReadScope),
      core ''system-event'' (OperatorMethod AdminScope),
      core ''message.action'' (OperatorMethod WriteScope),
      core ''send'' (OperatorMethod WriteScope),
      core ''agent'' (OperatorMethod WriteScope),
      core ''agent.identity.get'' (OperatorMethod ReadScope),
      startupCore ''agent.wait'' (OperatorMethod WriteScope),
      startupCore ''chat.history'' (OperatorMethod ReadScope),
      startupCore ''chat.startup'' (OperatorMethod ReadScope),
      startupCore ''chat.metadata'' (OperatorMethod ReadScope),
      startupCore ''chat.message.get'' (OperatorMethod ReadScope),
      core ''chat.abort'' (OperatorMethod WriteScope),
      core ''chat.send'' (OperatorMethod WriteScope),
      core ''terminal.open'' (OperatorMethod AdminScope),
      core ''terminal.input'' (OperatorMethod AdminScope),
      core ''terminal.resize'' (OperatorMethod AdminScope),
      core ''terminal.close'' (OperatorMethod AdminScope),
      hiddenCore ''assistant.media.get'' (OperatorMethod ReadScope),
      hiddenCore ''sessions.get'' (OperatorMethod ReadScope),
      hiddenCore ''sessions.resolve'' (OperatorMethod ReadScope),
      hiddenCore ''sessions.usage'' (OperatorMethod ReadScope),
      hiddenCore ''sessions.usage.timeseries'' (OperatorMethod ReadScope),
      hiddenCore ''sessions.usage.logs'' (OperatorMethod ReadScope),
      hiddenCore ''poll'' (OperatorMethod WriteScope),
      hiddenCore ''sessions.steer'' (OperatorMethod WriteScope),
      hiddenCore ''push.test'' (OperatorMethod WriteScope),
      writeCore ''attach.grant'' (OperatorMethod AdminScope),
      core ''attach.revoke'' (OperatorMethod AdminScope),
      hiddenCore ''push.web.vapidPublicKey'' (OperatorMethod WriteScope),
      hiddenCore ''push.web.subscribe'' (OperatorMethod WriteScope),
      hiddenCore ''push.web.unsubscribe'' (OperatorMethod WriteScope),
      hiddenCore ''push.web.test'' (OperatorMethod WriteScope),
      hiddenCore ''config.openFile'' (OperatorMethod AdminScope),
      hiddenCore ''connect'' (OperatorMethod AdminScope),
      hiddenCore ''chat.inject'' (OperatorMethod AdminScope),
      hiddenCore ''nativeHook.invoke'' (OperatorMethod AdminScope),
      hiddenCore ''web.login.start'' (OperatorMethod AdminScope),
      hiddenCore ''web.login.wait'' (OperatorMethod AdminScope),
      core ''terminal.attach'' (OperatorMethod AdminScope),
      core ''terminal.list'' (OperatorMethod AdminScope),
      core ''terminal.text'' (OperatorMethod AdminScope),
      core ''controlUi.githubPreview'' (OperatorMethod ReadScope),
      core ''system.info'' (OperatorMethod ReadScope),
      core ''agents.workspace.list'' (OperatorMethod ReadScope),
      core ''agents.workspace.get'' (OperatorMethod ReadScope),
      core ''tts.speak'' (OperatorMethod WriteScope),
      core ''plugins.list'' (OperatorMethod ReadScope),
      core ''plugins.search'' (OperatorMethod ReadScope),
      writeCore ''plugins.install'' (OperatorMethod AdminScope),
      writeCore ''plugins.setEnabled'' (OperatorMethod AdminScope),
      writeCore ''plugins.uninstall'' (OperatorMethod AdminScope),
      core ''controlUi.sessionPullRequests'' (OperatorMethod ReadScope),
      startupWriteCore ''gateway.suspend.prepare'' (OperatorMethod AdminScope),
      core ''gateway.suspend.status'' (OperatorMethod ReadScope),
      core ''gateway.suspend.resume'' (OperatorMethod AdminScope),
      core ''chat.toolTitles'' (OperatorMethod WriteScope),
      core ''sessions.diff'' (OperatorMethod ReadScope),
      core ''crestodian.setup.verify'' (OperatorMethod AdminScope),
      startupWriteCore ''environments.create'' (OperatorMethod AdminScope),
      startupWriteCore ''environments.destroy'' (OperatorMethod AdminScope),
      core ''sessions.catalog.list'' (OperatorMethod ReadScope),
      core ''sessions.catalog.read'' (OperatorMethod ReadScope),
      core ''sessions.catalog.continue'' (OperatorMethod WriteScope),
      core ''sessions.catalog.archive'' (OperatorMethod WriteScope),
      core ''approval.get'' (OperatorMethod ApprovalsScope),
      core ''approval.resolve'' (OperatorMethod ApprovalsScope),
      core ''sessions.search'' (OperatorMethod ReadScope),
      startupWriteCore ''sessions.dispatch'' (OperatorMethod AdminScope)]"

text \<open>A \<^verbatim>\<open>Map\<close> built from entries keeps the last entry of a name.\<close>

definition coreSpecOf :: "string \<Rightarrow> core_spec option" where
  "coreSpecOf m = map_of (rev (map (\<lambda>s. (specName s, s)) CORE_GATEWAY_METHOD_SPECS)) m"

definition STARTUP_UNAVAILABLE_GATEWAY_METHODS :: "string list" where
  "STARTUP_UNAVAILABLE_GATEWAY_METHODS = map specName (filter specStartup CORE_GATEWAY_METHOD_SPECS)"

definition listCoreAdvertisedGatewayMethodNames :: "string list" where
  "listCoreAdvertisedGatewayMethodNames = map specName (filter specAdvertise CORE_GATEWAY_METHOD_SPECS)"

definition listCoreGatewayMethodNames :: "string list" where
  "listCoreGatewayMethodNames = map specName CORE_GATEWAY_METHOD_SPECS"

definition resolveCoreGatewayMethodScope :: "string \<Rightarrow> method_scope option" where
  "resolveCoreGatewayMethodScope m = map_option specScope (coreSpecOf m)"

definition resolveCoreOperatorGatewayMethodScope :: "string \<Rightarrow> operator_scope option" where
  "resolveCoreOperatorGatewayMethodScope m =
     (case resolveCoreGatewayMethodScope m of Some (OperatorMethod s) \<Rightarrow> Some s | _ \<Rightarrow> None)"

definition isCoreNodeGatewayMethod :: "string \<Rightarrow> bool" where
  "isCoreNodeGatewayMethod m \<longleftrightarrow> resolveCoreGatewayMethodScope m = Some NodeMethod"

definition isDynamicOperatorGatewayMethod :: "string \<Rightarrow> bool" where
  "isDynamicOperatorGatewayMethod m \<longleftrightarrow> resolveCoreGatewayMethodScope m = Some DynamicMethod"

definition isCoreGatewayMethodClassified :: "string \<Rightarrow> bool" where
  "isCoreGatewayMethodClassified m \<longleftrightarrow> coreSpecOf m \<noteq> None"

datatype registry_error =
    EmptyMethodName
  | MissingScopeFor string
  | AlreadyRegistered string
  | MissingDescriptor string

definition descriptorOfSpec :: "core_spec \<Rightarrow> nat \<Rightarrow> method_descriptor" where
  "descriptorOfSpec spec handler =
     \<lparr>methodName = specName spec, methodHandler = handler, methodScope = Some (specScope spec),
      methodOwner = CoreOwner ''gateway'', startupUnavailable = specStartup spec,
      controlPlaneWrite = specControlPlaneWrite spec, advertised = specAdvertise spec\<rparr>"

definition createCoreGatewayMethodDescriptors ::
    "(string, nat) jsmap \<Rightarrow> registry_error + method_descriptor list" where
  "createCoreGatewayMethodDescriptors handlers =
     (case find (\<lambda>n. n \<notin> set listCoreGatewayMethodNames) (jm_keys handlers) of
        Some n \<Rightarrow> Inl (MissingDescriptor n)
      | None \<Rightarrow>
          Inr (concat (map (\<lambda>spec. case jm_get handlers (specName spec) of
                               Some h \<Rightarrow> [descriptorOfSpec spec h]
                             | None \<Rightarrow> []) CORE_GATEWAY_METHOD_SPECS)))"

section \<open>The registry\<close>

definition normalizeMethodName :: "string \<Rightarrow> string" where
  "normalizeMethodName n = js_trim n"

definition normalizeDescriptor :: "method_descriptor \<Rightarrow> registry_error + method_descriptor" where
  "normalizeDescriptor input =
     (let n = normalizeMethodName (methodName input) in
      if n = [] then Inl EmptyMethodName
      else
        let normalizedScope =
          (case methodScope input of
             Some NodeMethod \<Rightarrow> Some NodeMethod
           | Some DynamicMethod \<Rightarrow> Some DynamicMethod
           | Some (OperatorMethod s) \<Rightarrow>
               (case methodOwner input of
                  PluginOwner _ \<Rightarrow> map_option OperatorMethod (fst (normalizePluginGatewayMethodScope n (Some s)))
                | _ \<Rightarrow> Some (OperatorMethod s))
           | None \<Rightarrow> None)
        in case normalizedScope of
             None \<Rightarrow> Inl (MissingScopeFor n)
           | Some s \<Rightarrow> Inr (input\<lparr>methodName := n, methodScope := Some s\<rparr>))"

type_synonym method_registry = "method_descriptor list"

fun normalizeAll :: "method_descriptor list \<Rightarrow> registry_error + method_descriptor list" where
  "normalizeAll [] = Inr []"
| "normalizeAll (d # ds) =
     (case normalizeDescriptor d of
        Inl e \<Rightarrow> Inl e
      | Inr d' \<Rightarrow> (case normalizeAll ds of Inl e \<Rightarrow> Inl e | Inr ds' \<Rightarrow> Inr (d' # ds')))"

fun firstDuplicate :: "string list \<Rightarrow> string list \<Rightarrow> string option" where
  "firstDuplicate seen [] = None"
| "firstDuplicate seen (n # ns) = (if n \<in> set seen then Some n else firstDuplicate (n # seen) ns)"

definition createGatewayMethodRegistry :: "method_descriptor list \<Rightarrow> registry_error + method_registry" where
  "createGatewayMethodRegistry inputs =
     (case normalizeAll inputs of
        Inl e \<Rightarrow> Inl e
      | Inr ds \<Rightarrow>
          (case firstDuplicate [] (map methodName ds) of
             Some n \<Rightarrow> Inl (AlreadyRegistered n)
           | None \<Rightarrow> Inr ds))"

definition registered :: "method_registry \<Rightarrow> string \<Rightarrow> method_descriptor option" where
  "registered r n = map_of (map (\<lambda>d. (methodName d, d)) r) n"

definition getHandler :: "method_registry \<Rightarrow> string \<Rightarrow> nat option" where
  "getHandler r n = map_option methodHandler (registered r n)"

definition listMethods :: "method_registry \<Rightarrow> string list" where
  "listMethods r = map methodName r"

definition listAdvertisedMethods :: "method_registry \<Rightarrow> string list" where
  "listAdvertisedMethods r = map methodName (filter advertised r)"

definition getScope :: "method_registry \<Rightarrow> string \<Rightarrow> method_scope option" where
  "getScope r n = Option.bind (registered r n) methodScope"

definition isStartupUnavailable :: "method_registry \<Rightarrow> string \<Rightarrow> bool" where
  "isStartupUnavailable r n = (map_option startupUnavailable (registered r n) = Some True)"

definition isControlPlaneWrite :: "method_registry \<Rightarrow> string \<Rightarrow> bool" where
  "isControlPlaneWrite r n = (map_option controlPlaneWrite (registered r n) = Some True)"

definition plainDescriptor :: "string \<Rightarrow> nat \<Rightarrow> method_owner \<Rightarrow> operator_scope \<Rightarrow> method_descriptor" where
  "plainDescriptor n h owner scope =
     \<lparr>methodName = n, methodHandler = h, methodScope = Some (OperatorMethod scope), methodOwner = owner,
      startupUnavailable = False, controlPlaneWrite = False, advertised = True\<rparr>"

fun createGatewayMethodDescriptorsFromHandlers ::
    "(string, nat) jsmap \<Rightarrow> method_owner \<Rightarrow> operator_scope option \<Rightarrow> (string \<Rightarrow> operator_scope option)
     \<Rightarrow> registry_error + method_descriptor list" where
  "createGatewayMethodDescriptorsFromHandlers [] owner defaultScope scopes = Inr []"
| "createGatewayMethodDescriptorsFromHandlers ((n, h) # hs) owner defaultScope scopes =
     (case (case scopes n of Some s \<Rightarrow> Some s | None \<Rightarrow> defaultScope) of
        None \<Rightarrow> Inl (MissingScopeFor n)
      | Some s \<Rightarrow>
          (case createGatewayMethodDescriptorsFromHandlers hs owner defaultScope scopes of
             Inl e \<Rightarrow> Inl e
           | Inr ds \<Rightarrow> Inr (plainDescriptor n h owner s # ds)))"

definition createPluginGatewayMethodDescriptor ::
    "string \<Rightarrow> string \<Rightarrow> nat \<Rightarrow> operator_scope option \<Rightarrow> method_descriptor" where
  "createPluginGatewayMethodDescriptor pluginId n h scope =
     plainDescriptor n h (PluginOwner pluginId)
       (case fst (normalizePluginGatewayMethodScope n scope) of Some s \<Rightarrow> s | None \<Rightarrow> AdminScope)"

definition createPluginGatewayMethodDescriptors ::
    "(string, nat) jsmap \<Rightarrow> method_descriptor list option \<Rightarrow> registry_error + method_descriptor list" where
  "createPluginGatewayMethodDescriptors gatewayHandlers gatewayMethodDescriptors =
     (let ds = list_or_empty gatewayMethodDescriptors in
      if length ds > 0 then Inr ds
      else createGatewayMethodDescriptorsFromHandlers gatewayHandlers (PluginOwner ''unknown'') (Some AdminScope)
             (\<lambda>_. None))"

section \<open>Lemmas\<close>

text \<open>
  The registry is a map: its names are distinct, trimmed and not empty, every method has a scope, and a method
  a plugin owns in a reserved namespace has no scope weaker than admin.
\<close>

lemma firstDuplicate_None: "firstDuplicate seen ns = None \<longleftrightarrow> distinct ns \<and> set ns \<inter> set seen = {}"
  by (induction ns arbitrary: seen) auto

definition weakened :: "method_descriptor \<Rightarrow> bool" where
  "weakened d \<longleftrightarrow> (\<exists>p. methodOwner d = PluginOwner p) \<and> isReservedAdminGatewayMethod (methodName d)
     \<and> (\<exists>s. methodScope d = Some (OperatorMethod s) \<and> s \<noteq> AdminScope)"

definition descriptor_ok :: "method_descriptor \<Rightarrow> bool" where
  "descriptor_ok d \<longleftrightarrow>
     methodName d \<noteq> [] \<and> js_trim (methodName d) = methodName d \<and> methodScope d \<noteq> None \<and> \<not> weakened d"

lemma normalizeDescriptor_ok: "normalizeDescriptor d = Inr d' \<Longrightarrow> descriptor_ok d'"
proof -
  assume d: "normalizeDescriptor d = Inr d'"
  obtain s where s: "methodScope d = Some s" using d by (cases "methodScope d") (auto simp: normalizeDescriptor_def Let_def split: if_splits)
  show ?thesis
    using d s by (cases s; cases "methodOwner d")
      (auto simp: normalizeDescriptor_def Let_def descriptor_ok_def weakened_def normalizeMethodName_def
        normalizePluginGatewayMethodScope_def resolveReservedGatewayMethodScope_def split: if_splits)
qed

lemma normalizeAll_ok: "normalizeAll ds = Inr ds' \<Longrightarrow> list_all descriptor_ok ds'"
  by (induction ds arbitrary: ds') (auto split: sum.splits dest: normalizeDescriptor_ok)


lemma registry_is_well_formed:
  assumes "createGatewayMethodRegistry inputs = Inr r"
  shows "distinct (listMethods r) \<and> list_all descriptor_ok r"
  using assms normalizeAll_ok
  by (auto simp: createGatewayMethodRegistry_def listMethods_def firstDuplicate_None split: sum.splits option.splits)

text \<open>The policy of the core methods in the reserved namespaces: two are readable, the others need admin.\<close>

lemma core_reserved_scopes:
  "list_all (\<lambda>spec. isReservedAdminGatewayMethod (specName spec) =
      (specName spec \<in> {''config.get'', ''config.schema.lookup''} \<or>
       (specScope spec = OperatorMethod AdminScope \<and> isReservedAdminGatewayMethod (specName spec))))
     CORE_GATEWAY_METHOD_SPECS"
  by code_simp

end
