(* ===== verification/MethodAuth.thy ===== *)
theory MethodAuth
  imports GatewayMethods MergePatch
begin

text \<open>
  Who may call a gateway method: \<^verbatim>\<open>src/gateway/method-scopes.ts\<close>, \<^verbatim>\<open>src/gateway/role-policy.ts\<close> and
  \<^verbatim>\<open>authorizeGatewayMethod\<close> of \<^verbatim>\<open>src/gateway/server-methods.ts\<close>. The request's parameters are JSON data; the
  state of the plugin registry, which other components keep, is an argument.
\<close>

section \<open>Required scopes\<close>

record session_action =
  sxPluginId :: string
  sxActionId :: string
  sxRequiredScopes :: "operator_scope list option"

record plugin_methods =
  pmDescriptors :: "(string \<times> method_scope option) list"
  pmSessionActions :: "session_action list"

definition CLI_DEFAULT_OPERATOR_SCOPES :: "operator_scope list" where
  "CLI_DEFAULT_OPERATOR_SCOPES =
     [AdminScope, ReadScope, WriteScope, ApprovalsScope, PairingScope, TalkSecretsScope]"

definition resolveScopedMethod :: "plugin_methods option \<Rightarrow> string \<Rightarrow> operator_scope option" where
  "resolveScopedMethod plugins m =
     (case resolveCoreOperatorGatewayMethodScope m of
        Some s \<Rightarrow> Some s
      | None \<Rightarrow>
          (case resolveReservedGatewayMethodScope m of
             Some s \<Rightarrow> Some s
           | None \<Rightarrow>
               (case Option.bind plugins (\<lambda>p. find (\<lambda>d. fst d = m) (pmDescriptors p)) of
                  Some (_, Some (OperatorMethod s)) \<Rightarrow> Some s
                | _ \<Rightarrow> None)))"

definition isApprovalMethod :: "plugin_methods option \<Rightarrow> string \<Rightarrow> bool" where
  "isApprovalMethod plugins m \<longleftrightarrow> resolveScopedMethod plugins m = Some ApprovalsScope"

definition isNodeRoleMethod :: "string \<Rightarrow> bool" where
  "isNodeRoleMethod m = isCoreNodeGatewayMethod m"

text \<open>The keys of a parameter object; \<open>None\<close> for anything that is not an object.\<close>

definition objectFields :: "json option \<Rightarrow> (string \<times> json) list option" where
  "objectFields params = (case params of Some (JObj kvs) \<Rightarrow> Some kvs | _ \<Rightarrow> None)"

definition SESSIONS_PATCH_WRITE_SCOPE_FIELDS :: "string list" where
  "SESSIONS_PATCH_WRITE_SCOPE_FIELDS =
     [''key'', ''agentId'', ''label'', ''category'', ''pinned'', ''archived'', ''unread'']"

definition resolveSessionsPatchRequiredScopes :: "json option \<Rightarrow> operator_scope list" where
  "resolveSessionsPatchRequiredScopes params =
     (case objectFields params of
        None \<Rightarrow> [WriteScope]
      | Some kvs \<Rightarrow>
          if list_all (\<lambda>k. k \<in> set SESSIONS_PATCH_WRITE_SCOPE_FIELDS) (map fst kvs) then [WriteScope] else [AdminScope])"

definition resolveSessionsCreateRequiredScopes :: "json option \<Rightarrow> operator_scope list" where
  "resolveSessionsCreateRequiredScopes params =
     (case objectFields params of
        None \<Rightarrow> [WriteScope]
      | Some kvs \<Rightarrow>
          if ''cwd'' \<in> set (map fst kvs) \<or> ''execNode'' \<in> set (map fst kvs) then [AdminScope] else [WriteScope])"

definition jsonText :: "json option \<Rightarrow> jsval" where
  "jsonText v = (case v of Some (JStr s) \<Rightarrow> VStr s | Some (JNum n) \<Rightarrow> VNum n | _ \<Rightarrow> VOther)"

definition actionParam :: "(string \<times> json) list \<Rightarrow> string \<Rightarrow> string option" where
  "actionParam kvs key = normalizeOptionalString (jsonText (map_of kvs key))"

definition resolveSessionActionRegisteredScopes ::
    "plugin_methods option \<Rightarrow> json option \<Rightarrow> operator_scope list option" where
  "resolveSessionActionRegisteredScopes plugins params =
     (case objectFields params of
        None \<Rightarrow> None
      | Some kvs \<Rightarrow>
          (case (actionParam kvs ''pluginId'', actionParam kvs ''actionId'') of
             (Some pluginId, Some actionId) \<Rightarrow>
               (case Option.bind plugins (\<lambda>p. find (\<lambda>e. sxPluginId e = pluginId \<and> sxActionId e = actionId)
                        (pmSessionActions p)) of
                  None \<Rightarrow> None
                | Some e \<Rightarrow>
                    (case sxRequiredScopes e of
                       Some req \<Rightarrow> if length req > 0 then Some req else Some [WriteScope]
                     | None \<Rightarrow> Some [WriteScope]))
           | _ \<Rightarrow> None))"

definition namesAction :: "json option \<Rightarrow> bool" where
  "namesAction params =
     (case objectFields params of
        None \<Rightarrow> False
      | Some kvs \<Rightarrow> actionParam kvs ''pluginId'' \<noteq> None \<and> actionParam kvs ''actionId'' \<noteq> None)"

definition resolveSessionActionLeastPrivilegeScopes ::
    "plugin_methods option \<Rightarrow> json option \<Rightarrow> operator_scope list" where
  "resolveSessionActionLeastPrivilegeScopes plugins params =
     (case resolveSessionActionRegisteredScopes plugins params of
        Some req \<Rightarrow> req
      | None \<Rightarrow> if namesAction params then CLI_DEFAULT_OPERATOR_SCOPES else [WriteScope])"

definition SESSIONS_DELETE_WRITE_SCOPE_FIELDS :: "string list" where
  "SESSIONS_DELETE_WRITE_SCOPE_FIELDS = [''key'', ''agentId'', ''deleteTranscript'', ''archivedOnly'']"

definition resolveSessionsDeleteRequiredScopes :: "json option \<Rightarrow> operator_scope list" where
  "resolveSessionsDeleteRequiredScopes params =
     (case objectFields params of
        None \<Rightarrow> [AdminScope]
      | Some kvs \<Rightarrow>
          if map_of kvs ''archivedOnly'' \<noteq> Some (JBool True) then [AdminScope]
          else if list_all (\<lambda>k. k \<in> set SESSIONS_DELETE_WRITE_SCOPE_FIELDS) (map fst kvs) then [WriteScope]
          else [AdminScope])"

definition resolveDynamicLeastPrivilegeOperatorScopesForMethod ::
    "plugin_methods option \<Rightarrow> string \<Rightarrow> json option \<Rightarrow> operator_scope list" where
  "resolveDynamicLeastPrivilegeOperatorScopesForMethod plugins m params =
     (if m = ''plugins.sessionAction'' then resolveSessionActionLeastPrivilegeScopes plugins params
      else if m = ''sessions.patch'' then resolveSessionsPatchRequiredScopes params
      else if m = ''sessions.create'' then resolveSessionsCreateRequiredScopes params
      else if m = ''sessions.delete'' then resolveSessionsDeleteRequiredScopes params
      else [WriteScope])"

definition resolveLeastPrivilegeOperatorScopesForMethod ::
    "plugin_methods option \<Rightarrow> string \<Rightarrow> json option \<Rightarrow> operator_scope list" where
  "resolveLeastPrivilegeOperatorScopesForMethod plugins m params =
     (if isDynamicOperatorGatewayMethod m
      then resolveDynamicLeastPrivilegeOperatorScopesForMethod plugins m params
      else case resolveScopedMethod plugins m of Some s \<Rightarrow> [s] | None \<Rightarrow> [])"

section \<open>Authorisation\<close>

text \<open>A check returns the scope that is missing, or \<open>None\<close> when the call is allowed.\<close>

definition holds :: "string list \<Rightarrow> operator_scope \<Rightarrow> bool" where
  "holds scopes s \<longleftrightarrow> scopeText s \<in> set scopes"

definition findMissingOperatorScope :: "operator_scope list \<Rightarrow> string list \<Rightarrow> operator_scope option" where
  "findMissingOperatorScope required scopes =
     find (\<lambda>s. \<not> holds scopes s \<and> \<not> (s = ReadScope \<and> holds scopes WriteScope)) required"

definition authorizeOperatorScopesForRequiredScope :: "operator_scope \<Rightarrow> string list \<Rightarrow> operator_scope option" where
  "authorizeOperatorScopesForRequiredScope required scopes =
     (if holds scopes AdminScope then None
      else if required = ReadScope then
        (if holds scopes ReadScope \<or> holds scopes WriteScope then None else Some ReadScope)
      else if holds scopes required then None
      else Some required)"

definition authorizeOperatorScopesForMethod ::
    "plugin_methods option \<Rightarrow> string \<Rightarrow> string list \<Rightarrow> json option \<Rightarrow> operator_scope option" where
  "authorizeOperatorScopesForMethod plugins m scopes params =
     (if holds scopes AdminScope then None
      else if isDynamicOperatorGatewayMethod m then
        (if m = ''sessions.create'' then findMissingOperatorScope (resolveSessionsCreateRequiredScopes params) scopes
         else if m = ''sessions.patch'' then findMissingOperatorScope (resolveSessionsPatchRequiredScopes params) scopes
         else if m = ''sessions.delete'' then findMissingOperatorScope (resolveSessionsDeleteRequiredScopes params) scopes
         else
           let registeredScopes = resolveSessionActionRegisteredScopes plugins params in
           if registeredScopes = None \<and> objectFields params \<noteq> None \<and> \<not> namesAction params then
             (if list_ex isOperatorScope scopes then None else Some WriteScope)
           else findMissingOperatorScope
                  (case registeredScopes of Some req \<Rightarrow> req | None \<Rightarrow> [WriteScope]) scopes)
      else authorizeOperatorScopesForRequiredScope
             (case resolveScopedMethod plugins m of Some s \<Rightarrow> s | None \<Rightarrow> AdminScope) scopes)"

definition isGatewayMethodClassified :: "plugin_methods option \<Rightarrow> string \<Rightarrow> bool" where
  "isGatewayMethodClassified plugins m =
     (if isNodeRoleMethod m then True
      else if isDynamicOperatorGatewayMethod m then True
      else isCoreGatewayMethodClassified m \<or> resolveScopedMethod plugins m \<noteq> None)"

section \<open>Roles and requests\<close>

datatype gateway_role = OperatorRole | NodeRole

definition parseGatewayRole :: "string \<Rightarrow> gateway_role option" where
  "parseGatewayRole raw =
     (if raw = ''operator'' then Some OperatorRole else if raw = ''node'' then Some NodeRole else None)"

definition roleCanSkipDeviceIdentity :: "gateway_role \<Rightarrow> bool \<Rightarrow> bool" where
  "roleCanSkipDeviceIdentity role sharedAuthOk \<longleftrightarrow> role = OperatorRole \<and> sharedAuthOk"

definition isRoleAuthorizedForMethod :: "gateway_role \<Rightarrow> string \<Rightarrow> bool" where
  "isRoleAuthorizedForMethod role m = (if isNodeRoleMethod m then role = NodeRole else role = OperatorRole)"

record connect_info =
  connectRole :: "string option"
  connectScopes :: "string list option"

datatype auth_error = UnauthorizedRole string | MissingScope operator_scope

text \<open>The client's \<^verbatim>\<open>connect\<close> metadata, which the handshake sets, is absent before it.\<close>

definition authorizeGatewayMethod ::
    "plugin_methods option \<Rightarrow> method_registry \<Rightarrow> string \<Rightarrow> connect_info option \<Rightarrow> json option \<Rightarrow> auth_error option" where
  "authorizeGatewayMethod plugins registry m client params =
     (case client of
        None \<Rightarrow> None
      | Some conn \<Rightarrow>
          if m = ''health'' then None
          else
            let roleRaw = (case connectRole conn of Some r \<Rightarrow> r | None \<Rightarrow> ''operator'') in
            case parseGatewayRole roleRaw of
              None \<Rightarrow> Some (UnauthorizedRole roleRaw)
            | Some role \<Rightarrow>
                let scopes = list_or_empty (connectScopes conn) in
                if \<not> isRoleAuthorizedForMethod role m then Some (UnauthorizedRole roleRaw)
                else if role = NodeRole then None
                else if holds scopes AdminScope then None
                else map_option MissingScope
                  (case getScope registry m of
                     Some (OperatorMethod s) \<Rightarrow> authorizeOperatorScopesForRequiredScope s scopes
                   | _ \<Rightarrow> authorizeOperatorScopesForMethod plugins m scopes params))"

section \<open>Lemmas\<close>

text \<open>One rule under both checks: a required scope is covered by itself, read also by write, all by admin.\<close>

definition covers :: "string list \<Rightarrow> operator_scope \<Rightarrow> bool" where
  "covers scopes s \<longleftrightarrow> holds scopes AdminScope \<or> holds scopes s \<or> s = ReadScope \<and> holds scopes WriteScope"

lemma required_scope_iff: "authorizeOperatorScopesForRequiredScope s scopes = None \<longleftrightarrow> covers scopes s"
  by (auto simp: authorizeOperatorScopesForRequiredScope_def covers_def)

lemma missing_none_iff:
  "\<not> holds scopes AdminScope \<Longrightarrow> findMissingOperatorScope req scopes = None \<longleftrightarrow> (\<forall>s \<in> set req. covers scopes s)"
  by (auto simp: findMissingOperatorScope_def find_None_iff covers_def)

text \<open>The scopes a method needs, for the check by method name.\<close>

definition needed :: "plugin_methods option \<Rightarrow> string \<Rightarrow> json option \<Rightarrow> operator_scope list" where
  "needed plugins m params =
     (if isDynamicOperatorGatewayMethod m then
        (if m = ''sessions.create'' then resolveSessionsCreateRequiredScopes params
         else if m = ''sessions.patch'' then resolveSessionsPatchRequiredScopes params
         else if m = ''sessions.delete'' then resolveSessionsDeleteRequiredScopes params
         else case resolveSessionActionRegisteredScopes plugins params of Some req \<Rightarrow> req | None \<Rightarrow> [WriteScope])
      else [case resolveScopedMethod plugins m of Some s \<Rightarrow> s | None \<Rightarrow> AdminScope])"

definition unnamed_action :: "plugin_methods option \<Rightarrow> string \<Rightarrow> json option \<Rightarrow> bool" where
  "unnamed_action plugins m params \<longleftrightarrow>
     isDynamicOperatorGatewayMethod m \<and> m \<notin> {''sessions.create'', ''sessions.patch'', ''sessions.delete''}
     \<and> resolveSessionActionRegisteredScopes plugins params = None
     \<and> objectFields params \<noteq> None \<and> \<not> namesAction params"

lemma authorize_iff:
  "authorizeOperatorScopesForMethod plugins m scopes params = None \<longleftrightarrow>
     holds scopes AdminScope
     \<or> (if unnamed_action plugins m params then list_ex isOperatorScope scopes
        else \<forall>s \<in> set (needed plugins m params). covers scopes s)"
proof (cases "holds scopes AdminScope")
  case False
  then show ?thesis
    by (cases "isDynamicOperatorGatewayMethod m")
      (simp_all add: authorizeOperatorScopesForMethod_def Let_def unnamed_action_def needed_def
        missing_none_iff required_scope_iff)
qed (simp add: authorizeOperatorScopesForMethod_def)

lemma needed_covered:
  assumes "needed plugins m params = req"
  shows "\<forall>s \<in> set req. covers (map scopeText req) s"
  by (auto simp: covers_def holds_def)

lemma least_privilege_dynamic:
  assumes "isDynamicOperatorGatewayMethod m" and "m \<in> {''plugins.sessionAction'', ''sessions.create'', ''sessions.patch'', ''sessions.delete''}"
  shows "authorizeOperatorScopesForMethod plugins m
    (map scopeText (resolveLeastPrivilegeOperatorScopesForMethod plugins m params)) params = None"
proof (cases "m = ''plugins.sessionAction''")
  case False
  with assms have "resolveLeastPrivilegeOperatorScopesForMethod plugins m params = needed plugins m params"
    by (auto simp: resolveLeastPrivilegeOperatorScopesForMethod_def resolveDynamicLeastPrivilegeOperatorScopesForMethod_def needed_def)
  moreover have "\<not> unnamed_action plugins m params" using assms(2) False by (auto simp: unnamed_action_def)
  ultimately show ?thesis by (simp add: authorize_iff needed_covered [OF refl])
next
  case True
  let ?least = "resolveSessionActionLeastPrivilegeScopes plugins params"
  have least: "resolveLeastPrivilegeOperatorScopesForMethod plugins m params = ?least"
    using assms(1) True by (simp add: resolveLeastPrivilegeOperatorScopesForMethod_def
        resolveDynamicLeastPrivilegeOperatorScopesForMethod_def)
  show ?thesis
  proof (cases "resolveSessionActionRegisteredScopes plugins params")
    case (Some req)
    then have "?least = req" "needed plugins m params = req" "\<not> unnamed_action plugins m params"
      using assms(1) True by (auto simp: resolveSessionActionLeastPrivilegeScopes_def needed_def unnamed_action_def)
    then show ?thesis unfolding least authorize_iff using needed_covered [of plugins m params req] by simp
  next
    case None
    then have "?least = CLI_DEFAULT_OPERATOR_SCOPES \<or> ?least = [WriteScope]"
      and need: "needed plugins m params = [WriteScope]"
      using assms(1) True by (auto simp: resolveSessionActionLeastPrivilegeScopes_def needed_def)
    from this(1) show ?thesis
    proof
      assume "?least = CLI_DEFAULT_OPERATOR_SCOPES"
      then show ?thesis unfolding least authorize_iff by (simp add: holds_def CLI_DEFAULT_OPERATOR_SCOPES_def)
    next
      assume l: "?least = [WriteScope]"
      have "isOperatorScope (scopeText WriteScope)" using isOperatorScope_iff by blast
      with l need show ?thesis
        unfolding least authorize_iff by (simp add: covers_def holds_def del: scopeText.simps)
    qed
  qed
qed

text \<open>The dynamic methods of the core table are these four.\<close>

lemma core_dynamic_table:
  "list_all (\<lambda>spec. specScope spec = DynamicMethod \<longrightarrow>
      specName spec \<in> set [''plugins.sessionAction'', ''sessions.create'', ''sessions.patch'', ''sessions.delete''])
     CORE_GATEWAY_METHOD_SPECS"
  by code_simp

lemma core_spec_mem: "coreSpecOf m = Some spec \<Longrightarrow> spec \<in> set CORE_GATEWAY_METHOD_SPECS \<and> specName spec = m"
  unfolding coreSpecOf_def by (drule map_of_SomeD) auto

lemma dynamic_methods:
  assumes "isDynamicOperatorGatewayMethod m"
  shows "m \<in> {''plugins.sessionAction'', ''sessions.create'', ''sessions.patch'', ''sessions.delete''}"
proof -
  obtain spec where "spec \<in> set CORE_GATEWAY_METHOD_SPECS" "specName spec = m" "specScope spec = DynamicMethod"
    using assms core_spec_mem by (auto simp: isDynamicOperatorGatewayMethod_def resolveCoreGatewayMethodScope_def)
  then show ?thesis using core_dynamic_table by (auto simp: list_all_iff)
qed

lemma least_privilege_named:
  assumes "resolveLeastPrivilegeOperatorScopesForMethod plugins m params \<noteq> []"
  shows "authorizeOperatorScopesForMethod plugins m
    (map scopeText (resolveLeastPrivilegeOperatorScopesForMethod plugins m params)) params = None"
proof (cases "isDynamicOperatorGatewayMethod m")
  case True
  then show ?thesis using dynamic_methods [OF True] by (rule least_privilege_dynamic)
next
  case False
  with assms obtain s where "resolveScopedMethod plugins m = Some s"
    by (auto simp: resolveLeastPrivilegeOperatorScopesForMethod_def split: option.splits)
  with False show ?thesis
    by (simp add: resolveLeastPrivilegeOperatorScopesForMethod_def authorize_iff needed_def unnamed_action_def
        covers_def holds_def)
qed

text \<open>
  The scopes a client asks for are exactly enough: a client that holds just the scopes the
  least-privilege resolver names for a call is authorised for it, whatever the method, its parameters and the
  plugins, if and only if the resolver names any; a method it has no answer for stays closed without admin.
\<close>

theorem least_privilege_is_enough:
  "authorizeOperatorScopesForMethod plugins m
      (map scopeText (resolveLeastPrivilegeOperatorScopesForMethod plugins m params)) params = None
    \<longleftrightarrow> resolveLeastPrivilegeOperatorScopesForMethod plugins m params \<noteq> []"
proof
  assume some: "resolveLeastPrivilegeOperatorScopesForMethod plugins m params \<noteq> []"
  then show "authorizeOperatorScopesForMethod plugins m
      (map scopeText (resolveLeastPrivilegeOperatorScopesForMethod plugins m params)) params = None"
    by (rule least_privilege_named)
next
  assume ok: "authorizeOperatorScopesForMethod plugins m
      (map scopeText (resolveLeastPrivilegeOperatorScopesForMethod plugins m params)) params = None"
  show "resolveLeastPrivilegeOperatorScopesForMethod plugins m params \<noteq> []"
  proof
    assume none: "resolveLeastPrivilegeOperatorScopesForMethod plugins m params = []"
    then have "\<forall>s. \<not> covers [] s" and "\<not> holds [] AdminScope" by (simp_all add: covers_def holds_def)
    moreover have "needed plugins m params \<noteq> []"
      by (auto simp: needed_def resolveSessionsCreateRequiredScopes_def resolveSessionsPatchRequiredScopes_def
          resolveSessionsDeleteRequiredScopes_def resolveSessionActionRegisteredScopes_def
          split: option.splits if_splits)
    ultimately show False using ok unfolding none authorize_iff by (cases "needed plugins m params") (auto split: if_splits)
  qed
qed

text \<open>More scopes never lose a right.\<close>

lemma covers_mono: "set scopes \<subseteq> set scopes' \<Longrightarrow> covers scopes s \<Longrightarrow> covers scopes' s"
  by (auto simp: covers_def holds_def)

lemma authorize_mono:
  "set scopes \<subseteq> set scopes' \<Longrightarrow> authorizeOperatorScopesForMethod plugins m scopes params = None \<Longrightarrow>
     authorizeOperatorScopesForMethod plugins m scopes' params = None"
  unfolding authorize_iff by (auto simp: holds_def list_ex_iff split: if_splits intro: covers_mono)

section \<open>Reserved namespaces and roles\<close>

text \<open>
  An entry follows the gateway's policy when a plugin owns it, or it needs the admin scope, or it has the scope
  of the core table.
\<close>

definition policy_descriptor :: "method_descriptor \<Rightarrow> bool" where
  "policy_descriptor d \<longleftrightarrow>
     (\<exists>p. methodOwner d = PluginOwner p) \<or> methodScope d = Some (OperatorMethod AdminScope)
     \<or> (\<exists>spec \<in> set CORE_GATEWAY_METHOD_SPECS. specName spec = methodName d \<and> methodScope d = Some (specScope spec))"

definition follows_policy :: "method_registry \<Rightarrow> string \<Rightarrow> bool" where
  "follows_policy r m = (case registered r m of None \<Rightarrow> True | Some d \<Rightarrow> policy_descriptor d)"

lemma registered_mem: "registered r m = Some d \<Longrightarrow> d \<in> set r \<and> methodName d = m"
  unfolding registered_def by (drule map_of_SomeD) auto

lemma core_reserved_table:
  "list_all (\<lambda>spec. \<not> isReservedAdminGatewayMethod (specName spec)
      \<or> specName spec \<in> set [''config.get'', ''config.schema.lookup''] \<or> specScope spec = OperatorMethod AdminScope)
     CORE_GATEWAY_METHOD_SPECS"
  by code_simp

lemma reserved_core_scope:
  assumes "isReservedAdminGatewayMethod m" and "m \<notin> {''config.get'', ''config.schema.lookup''}"
  shows "resolveCoreGatewayMethodScope m \<in> {None, Some (OperatorMethod AdminScope)}"
  using assms core_reserved_table core_spec_mem
  by (cases "coreSpecOf m") (auto simp: resolveCoreGatewayMethodScope_def list_all_iff)

lemma reserved_required:
  assumes "isReservedAdminGatewayMethod m" and "m \<notin> {''config.get'', ''config.schema.lookup''}"
  shows "authorizeOperatorScopesForMethod plugins m scopes params = None \<longleftrightarrow> holds scopes AdminScope"
proof -
  have c: "resolveCoreGatewayMethodScope m \<in> {None, Some (OperatorMethod AdminScope)}"
    by (rule reserved_core_scope [OF assms])
  then have "\<not> isDynamicOperatorGatewayMethod m" "resolveScopedMethod plugins m = Some AdminScope"
    using assms(1) by (auto simp: isDynamicOperatorGatewayMethod_def resolveScopedMethod_def
        resolveCoreOperatorGatewayMethodScope_def resolveReservedGatewayMethodScope_def)
  then show ?thesis
    by (auto simp: authorize_iff needed_def unnamed_action_def covers_def)
qed

text \<open>Under that policy the reserved namespaces need an operator with the admin scope.\<close>

lemma reserved_policy_needs_admin:
  assumes r: "createGatewayMethodRegistry inputs = Inr r" and "follows_policy r m"
    and "isReservedAdminGatewayMethod m" and "m \<notin> {''config.get'', ''config.schema.lookup''}"
    and auth: "authorizeGatewayMethod plugins r m (Some conn) params = None"
  shows "connectRole conn \<in> {None, Some ''operator''} \<and> holds (list_or_empty (connectScopes conn)) AdminScope"
proof -
  let ?scopes = "list_or_empty (connectScopes conn)"
  have core: "resolveCoreGatewayMethodScope m \<in> {None, Some (OperatorMethod AdminScope)}"
    by (rule reserved_core_scope [OF assms(3,4)])
  have health: "m \<noteq> ''health''"
    using assms(3) by (auto simp: isReservedAdminGatewayMethod_def RESERVED_ADMIN_GATEWAY_METHOD_PREFIXES_def starts_with_def)
  have node: "\<not> isNodeRoleMethod m" using core by (auto simp: isNodeRoleMethod_def isCoreNodeGatewayMethod_def)
  have "connectRole conn \<in> {None, Some ''operator''}"
    using auth health node
    by (auto simp: authorizeGatewayMethod_def Let_def isRoleAuthorizedForMethod_def parseGatewayRole_def
        split: option.splits if_splits)
  moreover have "holds ?scopes AdminScope"
  proof (rule ccontr)
    assume no: "\<not> holds ?scopes AdminScope"
    with auth health node have "(case getScope r m of
        Some (OperatorMethod s) \<Rightarrow> authorizeOperatorScopesForRequiredScope s ?scopes
      | _ \<Rightarrow> authorizeOperatorScopesForMethod plugins m ?scopes params) = None"
      by (auto simp: authorizeGatewayMethod_def Let_def isRoleAuthorizedForMethod_def split: option.splits if_splits)
    moreover have "getScope r m \<noteq> Some (OperatorMethod s)" if "s \<noteq> AdminScope" for s
    proof
      assume "getScope r m = Some (OperatorMethod s)"
      then obtain d where d: "registered r m = Some d" "methodScope d = Some (OperatorMethod s)"
        by (auto simp: getScope_def bind_eq_Some_conv)
      from registered_mem [OF d(1)] registry_is_well_formed [OF r] have "\<not> weakened d"
        by (auto simp: list_all_iff descriptor_ok_def)
      with d that assms(2-4) registered_mem [OF d(1)] core_reserved_table show False
        by (auto simp: weakened_def follows_policy_def policy_descriptor_def list_all_iff)
    qed
    ultimately show False
      using no reserved_required [OF assms(3,4)]
      by (auto simp: required_scope_iff covers_def split: option.splits method_scope.splits)
         (metis required_scope_iff covers_def operator_scope.distinct(1))+
  qed
  ultimately show ?thesis by blast
qed

text \<open>Registering keeps the policy of the descriptors, once their names are trimmed.\<close>

definition policy_input :: "method_descriptor \<Rightarrow> bool" where
  "policy_input d \<longleftrightarrow> policy_descriptor (d\<lparr>methodName := js_trim (methodName d)\<rparr>)"

lemma normalized_policy: "normalizeDescriptor d = Inr d' \<Longrightarrow> policy_input d \<Longrightarrow> policy_descriptor d'"
proof -
  assume d: "normalizeDescriptor d = Inr d'" and p: "policy_input d"
  obtain s where s: "methodScope d = Some s"
    using d by (cases "methodScope d") (auto simp: normalizeDescriptor_def Let_def split: if_splits)
  show ?thesis
    using d p s by (cases s; cases "methodOwner d")
      (auto simp: normalizeDescriptor_def Let_def policy_input_def policy_descriptor_def normalizeMethodName_def
        split: if_splits option.splits)
qed

lemma registry_policy:
  assumes r: "createGatewayMethodRegistry inputs = Inr r" and p: "\<forall>d \<in> set inputs. policy_input d"
  shows "follows_policy r m"
proof -
  have all: "normalizeAll ds = Inr ds' \<Longrightarrow> \<forall>d \<in> set ds. policy_input d \<Longrightarrow> \<forall>d \<in> set ds'. policy_descriptor d" for ds ds'
    by (induction ds arbitrary: ds') (auto split: sum.splits dest: normalized_policy)
  obtain ds where ds: "normalizeAll inputs = Inr ds" "ds = r"
    using r by (auto simp: createGatewayMethodRegistry_def split: sum.splits option.splits)
  show ?thesis
    using all [OF ds(1) p] ds(2) registered_mem [of r m] by (auto simp: follows_policy_def split: option.splits)
qed

text \<open>
  C9. No plugin opens a reserved namespace: in any registry that was built without an error from descriptors that keep
  to the gateway's policy (a plugin owns the descriptor, or it needs the admin scope, or it has the scope of the core
  table, as every descriptor of the registry built for a request), a connected client is authorised for a method under
  \<^verbatim>\<open>config.\<close>, \<^verbatim>\<open>exec.approvals.\<close>, \<^verbatim>\<open>wizard.\<close> or \<^verbatim>\<open>update.\<close> only with the operator role and
  the admin scope, whatever scope a plugin declared for the method; the two read-only methods the core table lists by
  name are the exception.
\<close>

theorem reserved_methods_need_admin:
  assumes "createGatewayMethodRegistry inputs = Inr r" and "\<forall>d \<in> set inputs. policy_input d"
    and "isReservedAdminGatewayMethod m" and "m \<notin> {''config.get'', ''config.schema.lookup''}"
    and "authorizeGatewayMethod view r m (Some conn) params = None"
  shows "connectRole conn \<in> {None, Some ''operator''} \<and> holds (list_or_empty (connectScopes conn)) AdminScope"
  using reserved_policy_needs_admin [OF assms(1) registry_policy [OF assms(1,2)] assms(3-5)] .

text \<open>A plugin that declares the read scope for a method of a reserved namespace.\<close>

definition reaching_inputs :: "method_descriptor list" where
  "reaching_inputs = [plainDescriptor ''config.plugin'' 7 (PluginOwner ''p'') ReadScope]"

definition reader :: connect_info where
  "reader = \<lparr>connectRole = None, connectScopes = Some [''operator.read'', ''operator.write'']\<rparr>"

lemma reserved_methods_need_admin_witness:
  "\<exists>r. createGatewayMethodRegistry reaching_inputs = Inr r \<and> getHandler r ''config.plugin'' = Some 7
     \<and> authorizeGatewayMethod None r ''config.plugin'' (Some (reader\<lparr>connectScopes := Some [''operator.admin'']\<rparr>)) None = None
     \<and> authorizeGatewayMethod None r ''config.plugin'' (Some reader) None \<noteq> None"
proof -
  have "case createGatewayMethodRegistry reaching_inputs of
      Inr r \<Rightarrow> getHandler r ''config.plugin'' = Some 7 | Inl _ \<Rightarrow> False"
    by code_simp
  then obtain r where r: "createGatewayMethodRegistry reaching_inputs = Inr r" "getHandler r ''config.plugin'' = Some 7"
    by (auto split: sum.splits)
  have pol: "\<forall>d \<in> set reaching_inputs. policy_input d"
    by (simp add: reaching_inputs_def plainDescriptor_def policy_input_def policy_descriptor_def)
  have res: "isReservedAdminGatewayMethod ''config.plugin''" by code_simp
  have "isNodeRoleMethod ''config.plugin'' = False" by code_simp
  then have "authorizeGatewayMethod None r ''config.plugin'' (Some (reader\<lparr>connectScopes := Some [''operator.admin'']\<rparr>)) None = None"
    by (simp add: authorizeGatewayMethod_def Let_def parseGatewayRole_def isRoleAuthorizedForMethod_def holds_def reader_def)
  moreover have "\<not> holds (list_or_empty (connectScopes reader)) AdminScope" by code_simp
  then have "authorizeGatewayMethod None r ''config.plugin'' (Some reader) None \<noteq> None"
    using reserved_methods_need_admin [OF r(1) pol res] by fastforce
  ultimately show ?thesis using r by blast
qed

text \<open>
  Roles are separate: apart from the health probe, a connected client is authorised for a node method only as a
  node and for every other method only as an operator.
\<close>

lemma roles_are_separate:
  assumes "authorizeGatewayMethod plugins r m (Some conn) params = None" and "m \<noteq> ''health''"
  shows "connectRole conn = Some ''node'' \<longleftrightarrow> isNodeRoleMethod m"
  using assms
  by (auto simp: authorizeGatewayMethod_def Let_def parseGatewayRole_def isRoleAuthorizedForMethod_def
      split: option.splits if_splits)

text \<open>Without admin, a session patch may touch the fields of the chat list only.\<close>

lemma dynamic_session_methods:
  "isDynamicOperatorGatewayMethod ''sessions.patch''" "isDynamicOperatorGatewayMethod ''sessions.delete''"
  by code_simp+

lemma patch_without_admin:
  assumes "authorizeOperatorScopesForMethod plugins ''sessions.patch'' scopes (Some (JObj kvs)) = None"
    and "\<not> holds scopes AdminScope"
  shows "holds scopes WriteScope \<and> fst ` set kvs \<subseteq> set SESSIONS_PATCH_WRITE_SCOPE_FIELDS"
  using assms dynamic_session_methods
  by (auto simp: authorize_iff unnamed_action_def needed_def resolveSessionsPatchRequiredScopes_def objectFields_def
      covers_def list_all_iff split: if_splits)

lemma delete_without_admin:
  assumes "authorizeOperatorScopesForMethod plugins ''sessions.delete'' scopes params = None"
    and "\<not> holds scopes AdminScope"
  shows "\<exists>kvs. params = Some (JObj kvs) \<and> map_of kvs ''archivedOnly'' = Some (JBool True)
    \<and> holds scopes WriteScope \<and> fst ` set kvs \<subseteq> set SESSIONS_DELETE_WRITE_SCOPE_FIELDS"
  using assms dynamic_session_methods
  by (auto simp: authorize_iff unnamed_action_def needed_def resolveSessionsDeleteRequiredScopes_def objectFields_def
      covers_def list_all_iff split: if_splits option.splits json.splits)

end
