(* ===== verification/ActiveWork.thy ===== *)
theory ActiveWork
  imports NumberCoercion
begin

text \<open>
  \<^verbatim>\<open>src/infra/gateway-active-work.ts\<close>: the snapshot of the process's activity that a restart or a host
  suspension decides on. The inspectors (counters of other components) are the numbers they return;
  a task blocker is the message \<^verbatim>\<open>formatActiveTaskRestartBlocker\<close> makes of it.
\<close>

section \<open>Data\<close>

record work_inspectors =
  getQueueSize :: jsnum
  getPendingReplies :: jsnum
  getEmbeddedRuns :: jsnum
  getBackgroundExecSessions :: jsnum
  getCronRuns :: jsnum
  getActiveTasks :: jsnum
  getTaskBlockers :: "string list"
  getRootRequests :: jsnum
  getSessionAdmissions :: jsnum
  getSessionMutations :: jsnum
  getChatRuns :: jsnum
  getQueuedTurns :: jsnum
  getTerminalPersistence :: jsnum
  getTerminalSessions :: jsnum

record work_counts =
  queueSize :: int
  pendingReplies :: int
  embeddedRuns :: int
  backgroundExecSessions :: int
  cronRuns :: int
  activeTasks :: int
  rootRequests :: int
  sessionAdmissions :: int
  sessionMutations :: int
  chatRuns :: int
  queuedTurns :: int
  terminalPersistence :: int
  terminalSessions :: int
  totalActive :: int

record work_blocker =
  blockerKind :: string
  blockerCount :: int
  blockerMessage :: string

record work_snapshot =
  idle :: bool
  counts :: work_counts
  blockers :: "work_blocker list"

section \<open>Operations\<close>

fun normalizeCount :: "jsnum \<Rightarrow> int" where
  "normalizeCount (JFin q) = (if q > 0 then \<lfloor>q\<rfloor> else 0)"
| "normalizeCount _ = 0"

text \<open>Every count but the total, in the order of the object literal.\<close>

definition all_counts :: "work_counts \<Rightarrow> int list" where
  "all_counts c =
     [queueSize c, pendingReplies c, embeddedRuns c, backgroundExecSessions c, cronRuns c, activeTasks c,
      rootRequests c, sessionAdmissions c, sessionMutations c, chatRuns c, queuedTurns c, terminalPersistence c,
      terminalSessions c]"

definition countWork :: "work_inspectors \<Rightarrow> work_counts" where
  "countWork i =
     (let c = \<lparr>queueSize = normalizeCount (getQueueSize i), pendingReplies = normalizeCount (getPendingReplies i),
            embeddedRuns = normalizeCount (getEmbeddedRuns i),
            backgroundExecSessions = normalizeCount (getBackgroundExecSessions i),
            cronRuns = normalizeCount (getCronRuns i), activeTasks = normalizeCount (getActiveTasks i),
            rootRequests = normalizeCount (getRootRequests i),
            sessionAdmissions = normalizeCount (getSessionAdmissions i),
            sessionMutations = normalizeCount (getSessionMutations i), chatRuns = normalizeCount (getChatRuns i),
            queuedTurns = normalizeCount (getQueuedTurns i),
            terminalPersistence = normalizeCount (getTerminalPersistence i),
            terminalSessions = normalizeCount (getTerminalSessions i), totalActive = 0\<rparr>
      in c\<lparr>totalActive := foldl (+) 0 (all_counts c)\<rparr>)"

definition addBlocker :: "int \<Rightarrow> string \<Rightarrow> string \<Rightarrow> work_blocker list \<Rightarrow> work_blocker list" where
  "addBlocker n k what bs =
     (if n > 0 then bs @ [\<lparr>blockerKind = k, blockerCount = n, blockerMessage = show_int n @ what\<rparr>] else bs)"

text \<open>The blockers of the running tasks: the first eight by name, the others as a number.\<close>

definition taskBlockersOf :: "int \<Rightarrow> string list \<Rightarrow> work_blocker list" where
  "taskBlockersOf n tasks =
     (if n \<le> 0 then []
      else if tasks = [] then addBlocker n ''task'' '' active background task run(s)'' []
      else addBlocker (n - int (length (take 8 tasks))) ''task'' '' additional active background task run(s)''
             (map (\<lambda>m. \<lparr>blockerKind = ''task'', blockerCount = 1, blockerMessage = m\<rparr>) (take 8 tasks)))"

definition createGatewayActiveWorkSnapshot :: "work_inspectors \<Rightarrow> work_snapshot" where
  "createGatewayActiveWorkSnapshot i =
     (let c = countWork i;
          bs = foldl (\<lambda>bs (n, k, what). addBlocker n k what bs) []
            [(queueSize c, ''queue'', '' queued or active operation(s)''),
             (pendingReplies c, ''reply'', '' pending reply delivery operation(s)''),
             (embeddedRuns c, ''embedded-run'', '' active embedded run(s)''),
             (backgroundExecSessions c, ''background-exec'', '' active background exec session(s)''),
             (cronRuns c, ''cron-run'', '' active cron run(s)''),
             (rootRequests c, ''root-request'', '' active gateway request(s)''),
             (sessionAdmissions c, ''session-admission'', '' admitted session turn(s)''),
             (sessionMutations c, ''session-mutation'', '' active session lifecycle mutation(s)''),
             (chatRuns c, ''chat-run'', '' active chat run(s)''),
             (queuedTurns c, ''queued-turn'', '' queued chat turn(s)''),
             (terminalPersistence c, ''terminal-persistence'', '' pending terminal session write(s)''),
             (terminalSessions c, ''terminal-session'', '' open terminal session(s)'')]
      in \<lparr>idle = (totalActive c = 0), counts = c, blockers = bs @ taskBlockersOf (activeTasks c) (getTaskBlockers i)\<rparr>)"

section \<open>The snapshot is consistent\<close>

lemma normalizeCount_nonneg [simp]: "0 \<le> normalizeCount v"
  by (cases v) auto

lemma counts_nonneg: "\<forall>n \<in> set (all_counts (countWork i)). 0 \<le> n"
  by (simp add: countWork_def all_counts_def Let_def)

lemma total_is_sum: "totalActive (countWork i) = sum_list (all_counts (countWork i))"
  by (simp add: countWork_def all_counts_def Let_def)

definition blocked :: "work_blocker list \<Rightarrow> int" where
  "blocked bs = sum_list (map blockerCount bs)"

lemma blocked_add: "0 \<le> n \<Longrightarrow> blocked (addBlocker n k w bs) = blocked bs + n"
  by (simp add: addBlocker_def blocked_def)

lemma blocked_adds:
  "\<forall>x \<in> set xs. 0 \<le> fst x \<Longrightarrow>
     blocked (foldl (\<lambda>bs (n, k, w). addBlocker n k w bs) bs xs) = blocked bs + sum_list (map fst xs)"
  by (induction xs arbitrary: bs) (auto simp: blocked_add split: prod.splits)

lemma blocked_tasks: "int (length tasks) \<le> n \<Longrightarrow> blocked (taskBlockersOf n tasks) = n"
proof -
  assume n: "int (length tasks) \<le> n"
  have ones: "blocked (map (\<lambda>m. \<lparr>blockerKind = k, blockerCount = 1, blockerMessage = m\<rparr>) ms) = int (length ms)" for k ms
    by (induction ms) (simp_all add: blocked_def)
  have "int (length (take 8 tasks)) \<le> n" using n by simp
  then show ?thesis
    using n by (simp add: taskBlockersOf_def blocked_add ones) (simp add: blocked_def)
qed

lemma snapshot_blocked:
  assumes "int (length (getTaskBlockers i)) \<le> activeTasks (countWork i)"
  shows "blocked (blockers (createGatewayActiveWorkSnapshot i)) = totalActive (countWork i)"
proof -
  have "blocked (a @ b) = blocked a + blocked b" for a b by (simp add: blocked_def)
  with counts_nonneg [of i] blocked_tasks [OF assms] show ?thesis
    by (simp add: createGatewayActiveWorkSnapshot_def Let_def blocked_adds total_is_sum all_counts_def blocked_add)
      (simp add: blocked_def)
qed

lemma total_zero: "totalActive (countWork i) = 0 \<longleftrightarrow> (\<forall>n \<in> set (all_counts (countWork i)). n = 0)"
  unfolding total_is_sum using counts_nonneg [of i] by (intro sum_list_nonneg_eq_0_iff) blast

lemma snapshot_total: "totalActive (counts (createGatewayActiveWorkSnapshot i)) = totalActive (countWork i)"
  "idle (createGatewayActiveWorkSnapshot i) \<longleftrightarrow> totalActive (countWork i) = 0"
  by (simp_all add: createGatewayActiveWorkSnapshot_def Let_def)

text \<open>
  The snapshot tells the truth about why the process is not idle: it is idle exactly when
  every counter reads zero, an idle process has no blocker, and as long as the task list is no longer
  than the task counter, the counts of the blockers add up to the total, so a busy
  process always names what it is busy with.
\<close>

theorem snapshot_names_the_blockers:
  assumes "int (length (getTaskBlockers i)) \<le> activeTasks (countWork i)"
  shows "let snap = createGatewayActiveWorkSnapshot i in
    (idle snap = (\<forall>n \<in> set (all_counts (counts snap)). n = 0)) \<and>
    sum_list (map blockerCount (blockers snap)) = totalActive (counts snap) \<and>
    (\<not> idle snap \<longrightarrow> blockers snap \<noteq> [])"
proof -
  have "counts (createGatewayActiveWorkSnapshot i) = countWork i"
    by (simp add: createGatewayActiveWorkSnapshot_def Let_def)
  then show ?thesis
    using snapshot_blocked [OF assms] by (auto simp: Let_def snapshot_total blocked_def total_zero)
qed

definition quiet :: work_inspectors where
  "quiet = \<lparr>getQueueSize = JFin 0, getPendingReplies = JFin 0, getEmbeddedRuns = JFin 0,
     getBackgroundExecSessions = JFin 0, getCronRuns = JFin 0, getActiveTasks = JFin 0, getTaskBlockers = [],
     getRootRequests = JFin 0, getSessionAdmissions = JFin 0, getSessionMutations = JFin 0, getChatRuns = JFin 0,
     getQueuedTurns = JFin 0, getTerminalPersistence = JFin 0, getTerminalSessions = JFin 0\<rparr>"

end
