(* ===== verification/GatewayAdmission.thy ===== *)
theory GatewayAdmission
  imports Prelude
begin

text \<open>
  \<^verbatim>\<open>src/process/gateway-work-admission.ts\<close>: which work the gateway process may start while it
  is suspending or restarting. Objects the code identifies by reference (admissions, release
  closures, waiters, callbacks) have numbers; \<open>currentRootWork\<close>, the async-local store, is the
  argument \<open>cur\<close>. Resolved waiters and invoked callbacks are recorded in order.
\<close>

section \<open>State\<close>

datatype suspend_phase = Accepting | Preparing | Prepared

record root_admission =
  references :: int
  released :: bool

text \<open>A release closure: the admission it belongs to and its own \<^verbatim>\<open>leaseReleased\<close> flag.\<close>

record root_lease =
  leaseOf :: nat
  leaseReleased :: bool

record admission_state =
  restartDraining :: bool
  restartSignalPending :: bool
  restartSignalGeneration :: nat
  suspendPhase :: suspend_phase
  suspendGeneration :: nat
  suspendInvalidated :: "nat option"
  activeRootWork :: "nat list"
  rootDrainWaiters :: "nat list"
  suspendOpenWaiters :: "nat list"
  admissions :: "nat \<rightharpoonup> root_admission"
  leases :: "nat \<rightharpoonup> root_lease"
  nextAdmission :: nat
  nextLease :: nat
  resolvedWaiters :: "nat list"
  invokedCallbacks :: "nat list"

definition initial_admission :: admission_state where
  "initial_admission =
     \<lparr>restartDraining = False, restartSignalPending = False, restartSignalGeneration = 0,
      suspendPhase = Accepting, suspendGeneration = 0, suspendInvalidated = None,
      activeRootWork = [], rootDrainWaiters = [], suspendOpenWaiters = [],
      admissions = Map.empty, leases = Map.empty, nextAdmission = 0, nextLease = 0,
      resolvedWaiters = [], invokedCallbacks = []\<rparr>"

text \<open>A new release closure for an admission.\<close>

definition createGatewayRootWorkRelease :: "admission_state \<Rightarrow> nat \<Rightarrow> nat \<times> admission_state" where
  "createGatewayRootWorkRelease s a =
     (nextLease s,
      s\<lparr>leases := (leases s)(nextLease s \<mapsto> \<lparr>leaseOf = a, leaseReleased = False\<rparr>),
        nextLease := Suc (nextLease s)\<rparr>)"

text \<open>The lease is the admission (what \<^verbatim>\<open>run\<close> installs) and its release closure.\<close>

definition createGatewayRootWorkAdmission :: "admission_state \<Rightarrow> (nat \<times> nat) \<times> admission_state" where
  "createGatewayRootWorkAdmission s =
     (let a = nextAdmission s;
          s1 = s\<lparr>admissions := (admissions s)(a \<mapsto> \<lparr>references = 1, released = False\<rparr>),
                 nextAdmission := Suc a,
                 activeRootWork := activeRootWork s @ [a]\<rparr>;
          (l, s2) = createGatewayRootWorkRelease s1 a
      in ((a, l), s2))"

definition resolveRootDrainWaiters :: "admission_state \<Rightarrow> admission_state" where
  "resolveRootDrainWaiters s =
     s\<lparr>rootDrainWaiters := [], resolvedWaiters := resolvedWaiters s @ rootDrainWaiters s\<rparr>"

definition resolveSuspendOpenWaiters :: "admission_state \<Rightarrow> admission_state" where
  "resolveSuspendOpenWaiters s =
     s\<lparr>suspendOpenWaiters := [], resolvedWaiters := resolvedWaiters s @ suspendOpenWaiters s\<rparr>"

text \<open>Calling the release closure \<open>l\<close>.\<close>

definition releaseRootWork :: "admission_state \<Rightarrow> nat \<Rightarrow> admission_state" where
  "releaseRootWork s l =
     (case leases s l of
        None \<Rightarrow> s
      | Some ls \<Rightarrow>
          (case admissions s (leaseOf ls) of
             None \<Rightarrow> s
           | Some ad \<Rightarrow>
               if leaseReleased ls \<or> released ad then s
               else
                 let s1 = s\<lparr>leases := (leases s)(l \<mapsto> ls\<lparr>leaseReleased := True\<rparr>)\<rparr>;
                     ad1 = ad\<lparr>references := references ad - 1\<rparr>
                 in if references ad1 > 0
                    then s1\<lparr>admissions := (admissions s1)(leaseOf ls \<mapsto> ad1)\<rparr>
                    else
                      let s2 = s1\<lparr>admissions := (admissions s1)(leaseOf ls \<mapsto> ad1\<lparr>released := True\<rparr>),
                                  activeRootWork := filter (\<lambda>x. x \<noteq> leaseOf ls) (activeRootWork s1)\<rparr>
                      in if activeRootWork s2 = [] then resolveRootDrainWaiters s2 else s2))"

definition invalidateSuspendAdmission :: "admission_state \<Rightarrow> admission_state" where
  "invalidateSuspendAdmission s =
     (let s1 = s\<lparr>suspendInvalidated := None, suspendPhase := Accepting,
                 suspendGeneration := suspendGeneration s + 1\<rparr>;
          s2 = resolveSuspendOpenWaiters s1
      in (case suspendInvalidated s of
            None \<Rightarrow> s2
          | Some cb \<Rightarrow> s2\<lparr>invokedCallbacks := invokedCallbacks s2 @ [cb]\<rparr>))"

section \<open>Predicates\<close>

definition isGatewayWorkAdmissionClosed :: "admission_state \<Rightarrow> bool" where
  "isGatewayWorkAdmissionClosed s \<longleftrightarrow>
     restartDraining s \<or> restartSignalPending s \<or> suspendPhase s \<noteq> Accepting"

text \<open>The admission of the async context, when it is known and not released.\<close>

definition isReleased :: "admission_state \<Rightarrow> nat \<Rightarrow> bool" where
  "isReleased s a = (case admissions s a of None \<Rightarrow> True | Some ad \<Rightarrow> released ad)"

definition isGatewaySubordinateWorkAdmissionClosed :: "admission_state \<Rightarrow> nat option \<Rightarrow> bool" where
  "isGatewaySubordinateWorkAdmissionClosed s cur =
     (if restartDraining s \<or> restartSignalPending s then True
      else (case cur of
              Some a \<Rightarrow> isReleased s a
            | None \<Rightarrow> suspendPhase s \<noteq> Accepting))"

definition isGatewayRestartDraining :: "admission_state \<Rightarrow> bool" where
  "isGatewayRestartDraining s \<longleftrightarrow> restartDraining s \<or> restartSignalPending s"

section \<open>Restart\<close>

definition markGatewayRestartDraining :: "admission_state \<Rightarrow> admission_state" where
  "markGatewayRestartDraining s =
     (let s1 = resolveSuspendOpenWaiters
            (s\<lparr>restartSignalPending := False,
               restartSignalGeneration := restartSignalGeneration s + 1,
               restartDraining := True\<rparr>)
      in if suspendPhase s1 \<noteq> Accepting then invalidateSuspendAdmission s1 else s1)"

text \<open>The lease is its generation; \<open>None\<close> is the lease whose rollback is always false.\<close>

definition beginGatewayRestartSignalAdmission :: "admission_state \<Rightarrow> nat option \<times> admission_state" where
  "beginGatewayRestartSignalAdmission s =
     (if restartSignalPending s then (None, s)
      else
        let g = restartSignalGeneration s + 1
        in (Some g, s\<lparr>restartSignalPending := True, restartSignalGeneration := g\<rparr>))"

definition rollbackRestartSignal :: "admission_state \<Rightarrow> nat option \<Rightarrow> bool \<times> admission_state" where
  "rollbackRestartSignal s lease =
     (case lease of
        None \<Rightarrow> (False, s)
      | Some g \<Rightarrow>
          if \<not> restartSignalPending s \<or> restartSignalGeneration s \<noteq> g then (False, s)
          else (True, resolveSuspendOpenWaiters
                  (s\<lparr>restartSignalPending := False,
                     restartSignalGeneration := restartSignalGeneration s + 1\<rparr>)))"

section \<open>Root work\<close>

datatype root_result = Nested | Owned nat nat | Refused

definition tryBeginGatewayRootWorkAdmission ::
    "admission_state \<Rightarrow> nat option \<Rightarrow> root_result \<times> admission_state" where
  "tryBeginGatewayRootWorkAdmission s cur =
     (if (case cur of Some a \<Rightarrow> \<not> isReleased s a | None \<Rightarrow> False) then (Nested, s)
      else if restartDraining s \<or> restartSignalPending s \<or> suspendPhase s \<noteq> Accepting
      then (Refused, s)
      else (case createGatewayRootWorkAdmission s of ((a, l), s1) \<Rightarrow> (Owned a l, s1)))"

definition tryBeginGatewayIndependentRootWorkAdmission ::
    "admission_state \<Rightarrow> root_result \<times> admission_state" where
  "tryBeginGatewayIndependentRootWorkAdmission s =
     (if restartDraining s \<or> restartSignalPending s \<or> suspendPhase s \<noteq> Accepting
      then (Refused, s)
      else (case createGatewayRootWorkAdmission s of ((a, l), s1) \<Rightarrow> (Owned a l, s1)))"

text \<open>
  One turn of the loops that wait for admission to open: the gateway drains (the code throws),
  work is admitted, or the waiter \<open>w\<close> is registered and the turn ends.
\<close>

datatype open_result = Draining | Admitted root_result | Waiting

definition beginGatewayRootWorkAdmissionWhenOpen ::
    "admission_state \<Rightarrow> nat option \<Rightarrow> nat \<Rightarrow> open_result \<times> admission_state" where
  "beginGatewayRootWorkAdmissionWhenOpen s cur w =
     (if restartDraining s then (Draining, s)
      else (case tryBeginGatewayRootWorkAdmission s cur of
              (Refused, s1) \<Rightarrow>
                (Waiting, s1\<lparr>suspendOpenWaiters := suspendOpenWaiters s1 @ [w]\<rparr>)
            | (r, s1) \<Rightarrow> (Admitted r, s1)))"

definition runWithGatewayIndependentRootWorkAdmission ::
    "admission_state \<Rightarrow> nat \<Rightarrow> open_result \<times> admission_state" where
  "runWithGatewayIndependentRootWorkAdmission s w =
     (if restartDraining s then (Draining, s)
      else (case tryBeginGatewayIndependentRootWorkAdmission s of
              (Refused, s1) \<Rightarrow>
                (Waiting, s1\<lparr>suspendOpenWaiters := suspendOpenWaiters s1 @ [w]\<rparr>)
            | (r, s1) \<Rightarrow> (Admitted r, s1)))"

definition runWithGatewayIndependentRootWorkContinuation ::
    "admission_state \<Rightarrow> nat option \<Rightarrow> nat \<Rightarrow> open_result \<times> admission_state" where
  "runWithGatewayIndependentRootWorkContinuation s cur w =
     (if (case cur of None \<Rightarrow> True | Some a \<Rightarrow> isReleased s a)
      then runWithGatewayIndependentRootWorkAdmission s w
      else (case createGatewayRootWorkAdmission s of ((a, l), s1) \<Rightarrow> (Admitted (Owned a l), s1)))"

definition retainGatewayRootWorkAdmissionContinuation ::
    "admission_state \<Rightarrow> nat option \<Rightarrow> nat option \<times> admission_state" where
  "retainGatewayRootWorkAdmissionContinuation s cur =
     (case cur of
        None \<Rightarrow> (None, s)
      | Some a \<Rightarrow>
          (case admissions s a of
             None \<Rightarrow> (None, s)
           | Some ad \<Rightarrow>
               if released ad then (None, s)
               else
                 let s1 = s\<lparr>admissions := (admissions s)(a \<mapsto> ad\<lparr>references := references ad + 1\<rparr>)\<rparr>;
                     (l, s2) = createGatewayRootWorkRelease s1 a
                 in (Some l, s2)))"

definition getActiveGatewayRootWorkCount :: "admission_state \<Rightarrow> bool \<Rightarrow> nat option \<Rightarrow> nat" where
  "getActiveGatewayRootWorkCount s excludeCurrent cur =
     (let count = length (activeRootWork s)
      in if excludeCurrent \<and>
            (case cur of None \<Rightarrow> False | Some a \<Rightarrow> \<not> isReleased s a \<and> a \<in> set (activeRootWork s))
         then count - 1 else count)"

text \<open>
  \<^verbatim>\<open>waitForActiveGatewayRootWork\<close>: the synchronous part (an immediate answer, or a registered
  waiter) and the part after the wait.
\<close>

definition waitForActiveGatewayRootWork ::
    "admission_state \<Rightarrow> int option \<Rightarrow> nat \<Rightarrow> (bool \<times> nat) option \<times> admission_state" where
  "waitForActiveGatewayRootWork s timeoutMs w =
     (if activeRootWork s = [] then (Some (True, 0), s)
      else if map_option (max 0) timeoutMs = Some 0
      then (Some (False, length (activeRootWork s)), s)
      else (None, s\<lparr>rootDrainWaiters := rootDrainWaiters s @ [w]\<rparr>))"

definition finishWaitForActiveGatewayRootWork ::
    "admission_state \<Rightarrow> nat \<Rightarrow> (bool \<times> nat) \<times> admission_state" where
  "finishWaitForActiveGatewayRootWork s w =
     (let s1 = s\<lparr>rootDrainWaiters := filter (\<lambda>x. x \<noteq> w) (rootDrainWaiters s)\<rparr>
      in ((activeRootWork s1 = [], length (activeRootWork s1)), s1))"

section \<open>Suspension\<close>

definition tryBeginGatewaySuspendAdmission ::
    "admission_state \<Rightarrow> nat \<Rightarrow> nat option \<times> admission_state" where
  "tryBeginGatewaySuspendAdmission s onInvalidated =
     (if restartDraining s \<or> restartSignalPending s \<or> suspendPhase s \<noteq> Accepting then (None, s)
      else
        let g = suspendGeneration s + 1
        in (Some g, s\<lparr>suspendPhase := Preparing, suspendGeneration := g,
                      suspendInvalidated := Some onInvalidated\<rparr>))"

definition suspendTransition ::
    "admission_state \<Rightarrow> nat \<Rightarrow> suspend_phase \<Rightarrow> suspend_phase \<Rightarrow> bool \<times> admission_state" where
  "suspendTransition s g expected next =
     (if suspendGeneration s \<noteq> g \<or> suspendPhase s \<noteq> expected then (False, s)
      else
        let s1 = s\<lparr>suspendPhase := next\<rparr>
        in (True, if next = Accepting
                  then resolveSuspendOpenWaiters (s1\<lparr>suspendInvalidated := None\<rparr>) else s1))"

definition suspendCommit :: "admission_state \<Rightarrow> nat \<Rightarrow> bool \<times> admission_state" where
  "suspendCommit s g = suspendTransition s g Preparing Prepared"

definition suspendRollback :: "admission_state \<Rightarrow> nat \<Rightarrow> bool \<times> admission_state" where
  "suspendRollback s g = suspendTransition s g Preparing Accepting"

definition suspendRelease :: "admission_state \<Rightarrow> nat \<Rightarrow> bool \<times> admission_state" where
  "suspendRelease s g = suspendTransition s g Prepared Accepting"

definition resetGatewayWorkAdmission :: "admission_state \<Rightarrow> admission_state" where
  "resetGatewayWorkAdmission s =
     (let s1 = s\<lparr>admissions := (\<lambda>a. if a \<in> set (activeRootWork s)
                   then Some \<lparr>references = 0, released = True\<rparr> else admissions s a),
                 activeRootWork := []\<rparr>;
          s2 = resolveRootDrainWaiters s1;
          s3 = s2\<lparr>restartDraining := False, restartSignalPending := False,
                  restartSignalGeneration := restartSignalGeneration s2 + 1\<rparr>;
          s4 = (if suspendPhase s3 \<noteq> Accepting then invalidateSuspendAdmission s3
                else s3\<lparr>suspendGeneration := suspendGeneration s3 + 1, suspendInvalidated := None\<rparr>)
      in resolveSuspendOpenWaiters s4)"

section \<open>Histories\<close>

datatype admission_op =
    TryRoot "nat option"
  | TryIndependent
  | RootWhenOpen "nat option" nat
  | IndependentWhenOpen nat
  | Continue "nat option" nat
  | Retain "nat option"
  | Release nat
  | WaitDrain "int option" nat
  | FinishWait nat
  | MarkDraining
  | BeginSignal
  | RollbackSignal "nat option"
  | BeginSuspend nat
  | Commit nat
  | Rollback nat
  | ReleaseSuspend nat
  | Reset

fun ga_step :: "admission_state \<Rightarrow> admission_op \<Rightarrow> admission_state" where
  "ga_step s (TryRoot cur) = snd (tryBeginGatewayRootWorkAdmission s cur)"
| "ga_step s TryIndependent = snd (tryBeginGatewayIndependentRootWorkAdmission s)"
| "ga_step s (RootWhenOpen cur w) = snd (beginGatewayRootWorkAdmissionWhenOpen s cur w)"
| "ga_step s (IndependentWhenOpen w) = snd (runWithGatewayIndependentRootWorkAdmission s w)"
| "ga_step s (Continue cur w) = snd (runWithGatewayIndependentRootWorkContinuation s cur w)"
| "ga_step s (Retain cur) = snd (retainGatewayRootWorkAdmissionContinuation s cur)"
| "ga_step s (Release l) = releaseRootWork s l"
| "ga_step s (WaitDrain t w) = snd (waitForActiveGatewayRootWork s t w)"
| "ga_step s (FinishWait w) = snd (finishWaitForActiveGatewayRootWork s w)"
| "ga_step s MarkDraining = markGatewayRestartDraining s"
| "ga_step s BeginSignal = snd (beginGatewayRestartSignalAdmission s)"
| "ga_step s (RollbackSignal g) = snd (rollbackRestartSignal s g)"
| "ga_step s (BeginSuspend cb) = snd (tryBeginGatewaySuspendAdmission s cb)"
| "ga_step s (Commit g) = snd (suspendCommit s g)"
| "ga_step s (Rollback g) = snd (suspendRollback s g)"
| "ga_step s (ReleaseSuspend g) = snd (suspendRelease s g)"
| "ga_step s Reset = resetGatewayWorkAdmission s"

lemmas ga_ops [step_defs] =
  createGatewayRootWorkRelease_def createGatewayRootWorkAdmission_def
  resolveRootDrainWaiters_def resolveSuspendOpenWaiters_def invalidateSuspendAdmission_def
  markGatewayRestartDraining_def beginGatewayRestartSignalAdmission_def rollbackRestartSignal_def
  tryBeginGatewayRootWorkAdmission_def tryBeginGatewayIndependentRootWorkAdmission_def
  beginGatewayRootWorkAdmissionWhenOpen_def runWithGatewayIndependentRootWorkAdmission_def
  runWithGatewayIndependentRootWorkContinuation_def retainGatewayRootWorkAdmissionContinuation_def
  waitForActiveGatewayRootWork_def finishWaitForActiveGatewayRootWork_def
  tryBeginGatewaySuspendAdmission_def suspendTransition_def suspendCommit_def suspendRollback_def
  suspendRelease_def resetGatewayWorkAdmission_def releaseRootWork_def

section \<open>No waiter is forgotten\<close>

text \<open>
  Whoever waits for the roots to drain waits for a root that is still active; whoever waits for
  admission to open waits while it is closed and reopening is possible; a suspension in progress
  has its invalidation callback, and a drain leaves none in progress.
\<close>

definition waiters_inv :: "admission_state \<Rightarrow> bool" where
  "waiters_inv s \<longleftrightarrow>
     (rootDrainWaiters s \<noteq> [] \<longrightarrow> activeRootWork s \<noteq> []) \<and>
     (suspendOpenWaiters s \<noteq> [] \<longrightarrow>
        \<not> restartDraining s \<and> (restartSignalPending s \<or> suspendPhase s \<noteq> Accepting)) \<and>
     (suspendPhase s \<noteq> Accepting \<longleftrightarrow> suspendInvalidated s \<noteq> None) \<and>
     (restartDraining s \<longrightarrow> suspendPhase s = Accepting)"

lemma waiters_inv_step: "waiters_inv s \<Longrightarrow> waiters_inv (ga_step s e)"
  by (cases e)
    (auto simp: waiters_inv_def ga_ops Let_def split: option.splits if_splits root_result.splits)

interpretation gaw: machine ga_step initial_admission waiters_inv
  by unfold_locales (simp add: waiters_inv_def initial_admission_def, rule waiters_inv_step)

section \<open>Reference counts\<close>

definition live_leases :: "admission_state \<Rightarrow> nat \<Rightarrow> nat set" where
  "live_leases s a = {l. \<exists>ls. leases s l = Some ls \<and> leaseOf ls = a \<and> \<not> leaseReleased ls}"

definition roots_inv :: "admission_state \<Rightarrow> bool" where
  "roots_inv s \<longleftrightarrow>
     distinct (activeRootWork s) \<and>
     (\<forall>a. a \<in> set (activeRootWork s) \<longleftrightarrow> (\<exists>ad. admissions s a = Some ad \<and> \<not> released ad)) \<and>
     (\<forall>a ad. admissions s a = Some ad \<longrightarrow> \<not> released ad \<longrightarrow>
        references ad = int (card (live_leases s a)) \<and> 0 < card (live_leases s a)) \<and>
     (\<forall>a. admissions s a \<noteq> None \<longrightarrow> a < nextAdmission s) \<and>
     (\<forall>l ls. leases s l = Some ls \<longrightarrow> l < nextLease s \<and> admissions s (leaseOf ls) \<noteq> None)"

lemma roots_invD:
  assumes "roots_inv s"
  shows roots_ref: "admissions s a = Some ad \<Longrightarrow> \<not> released ad \<Longrightarrow>
      references ad = int (card (live_leases s a)) \<and> 0 < card (live_leases s a)"
    and roots_lease: "leases s l = Some ls \<Longrightarrow> l < nextLease s \<and> admissions s (leaseOf ls) \<noteq> None"
    and roots_fresh: "admissions s (nextAdmission s) = None" "leases s (nextLease s) = None"
  using assms by (auto simp: roots_inv_def) (metis less_irrefl not_None_eq)+

lemma finite_live: "roots_inv s \<Longrightarrow> finite (live_leases s a)"
  by (rule finite_subset [of _ "{..< nextLease s}"]) (auto simp: roots_inv_def live_leases_def)

text \<open>The invariant speaks of five fields only.\<close>

lemma roots_inv_cong:
  "activeRootWork t = activeRootWork s \<Longrightarrow> admissions t = admissions s \<Longrightarrow> leases t = leases s \<Longrightarrow>
   nextAdmission t = nextAdmission s \<Longrightarrow> nextLease t = nextLease s \<Longrightarrow> roots_inv t = roots_inv s"
  by (simp add: roots_inv_def live_leases_def)

lemma create_roots_inv:
  assumes inv: "roots_inv s"
  shows "roots_inv (snd (createGatewayRootWorkAdmission s))"
proof -
  let ?a = "nextAdmission s" and ?l = "nextLease s" and ?t = "snd (createGatewayRootWorkAdmission s)"
  have t: "admissions ?t = (admissions s)(?a \<mapsto> \<lparr>references = 1, released = False\<rparr>)"
    "activeRootWork ?t = activeRootWork s @ [?a]"
    "leases ?t = (leases s)(?l \<mapsto> \<lparr>leaseOf = ?a, leaseReleased = False\<rparr>)"
    "nextAdmission ?t = Suc ?a" "nextLease ?t = Suc ?l"
    by (simp_all add: createGatewayRootWorkAdmission_def createGatewayRootWorkRelease_def Let_def)
  note fresh = roots_fresh [OF inv]
  have "live_leases s ?a = {}"
    using roots_lease [OF inv] fresh by (fastforce simp: live_leases_def)
  then have "live_leases ?t ?a = {?l}"
    by (auto simp: live_leases_def t)
  moreover have "live_leases ?t a = live_leases s a" if "a \<noteq> ?a" for a
    using that fresh by (auto simp: live_leases_def t)
  moreover have "?a \<notin> set (activeRootWork s)" using inv fresh by (auto simp: roots_inv_def)
  ultimately show ?thesis
    using inv fresh unfolding roots_inv_def t by (auto simp: less_Suc_eq)
qed

lemma retain_roots_inv:
  assumes inv: "roots_inv s"
  shows "roots_inv (snd (retainGatewayRootWorkAdmissionContinuation s cur))"
proof (cases "\<exists>a ad. cur = Some a \<and> admissions s a = Some ad \<and> \<not> released ad")
  case True
  then obtain a ad where a: "cur = Some a" "admissions s a = Some ad" "\<not> released ad" by blast
  let ?l = "nextLease s" and ?t = "snd (retainGatewayRootWorkAdmissionContinuation s cur)"
  have t: "admissions ?t = (admissions s)(a \<mapsto> ad\<lparr>references := references ad + 1\<rparr>)"
    "activeRootWork ?t = activeRootWork s"
    "leases ?t = (leases s)(?l \<mapsto> \<lparr>leaseOf = a, leaseReleased = False\<rparr>)"
    "nextAdmission ?t = nextAdmission s" "nextLease ?t = Suc ?l"
    using a by (simp_all add: retainGatewayRootWorkAdmissionContinuation_def
        createGatewayRootWorkRelease_def Let_def)
  note fresh = roots_fresh(2) [OF inv]
  have "live_leases ?t a = insert ?l (live_leases s a)" "?l \<notin> live_leases s a"
    using fresh by (auto simp: live_leases_def t)
  then have "card (live_leases ?t a) = Suc (card (live_leases s a))"
    using finite_live [OF inv] by simp
  moreover have "live_leases ?t b = live_leases s b" if "b \<noteq> a" for b
    using that fresh by (auto simp: live_leases_def t)
  ultimately show ?thesis
    using inv a unfolding roots_inv_def t by (auto simp: less_Suc_eq)
next
  case False
  then have "retainGatewayRootWorkAdmissionContinuation s cur = (None, s)"
    by (auto simp: retainGatewayRootWorkAdmissionContinuation_def split: option.splits)
  with inv show ?thesis by simp
qed

lemma release_roots_inv:
  assumes inv: "roots_inv s"
  shows "roots_inv (releaseRootWork s l)"
proof (cases "\<exists>ls ad. leases s l = Some ls \<and> admissions s (leaseOf ls) = Some ad
    \<and> \<not> leaseReleased ls \<and> \<not> released ad")
  case True
  then obtain ls ad where l: "leases s l = Some ls" "admissions s (leaseOf ls) = Some ad"
    "\<not> leaseReleased ls" "\<not> released ad" by blast
  let ?a = "leaseOf ls" and ?t = "releaseRootWork s l"
  have t: "leases ?t = (leases s)(l \<mapsto> ls\<lparr>leaseReleased := True\<rparr>)"
    "nextAdmission ?t = nextAdmission s" "nextLease ?t = nextLease s"
    "admissions ?t = (admissions s)(?a \<mapsto> (if references ad - 1 > 0
        then ad\<lparr>references := references ad - 1\<rparr>
        else ad\<lparr>references := references ad - 1, released := True\<rparr>))"
    "activeRootWork ?t = (if references ad - 1 > 0 then activeRootWork s
        else filter (\<lambda>x. x \<noteq> ?a) (activeRootWork s))"
    using l by (simp_all add: releaseRootWork_def resolveRootDrainWaiters_def Let_def)
  have live: "live_leases ?t ?a = live_leases s ?a - {l}" "l \<in> live_leases s ?a"
    using l by (auto simp: live_leases_def t)
  then have "int (card (live_leases ?t ?a)) = references ad - 1"
    using finite_live [OF inv, of ?a] roots_ref [OF inv l(2,4)] by (simp add: of_nat_diff)
  moreover have "live_leases ?t b = live_leases s b" if "b \<noteq> ?a" for b
    using that l by (auto simp: live_leases_def t)
  ultimately show ?thesis
    using inv l unfolding roots_inv_def t by (auto split: if_splits)
next
  case False
  then have "releaseRootWork s l = s"
    by (auto simp: releaseRootWork_def split: option.splits)
  with inv show ?thesis by simp
qed

lemma reset_roots_inv:
  assumes inv: "roots_inv s"
  shows "roots_inv (resetGatewayWorkAdmission s)"
proof -
  let ?t = "resetGatewayWorkAdmission s"
  have "activeRootWork ?t = []" "leases ?t = leases s"
    "admissions ?t = (\<lambda>a. if a \<in> set (activeRootWork s) then Some \<lparr>references = 0, released = True\<rparr>
                          else admissions s a)"
    "nextAdmission ?t = nextAdmission s" "nextLease ?t = nextLease s"
    by (simp_all add: resetGatewayWorkAdmission_def resolveRootDrainWaiters_def
        resolveSuspendOpenWaiters_def invalidateSuspendAdmission_def Let_def split: option.splits)
  with inv show ?thesis
    by (auto simp: roots_inv_def split: if_splits)
qed

lemma create_snd: "(case createGatewayRootWorkAdmission s of ((a, l), s1) \<Rightarrow> (f a l, s1))
    = (f (fst (fst (createGatewayRootWorkAdmission s))) (snd (fst (createGatewayRootWorkAdmission s))),
       snd (createGatewayRootWorkAdmission s))"
  by (simp split: prod.splits)

lemma roots_inv_waiters [simp]:
  "roots_inv (s\<lparr>suspendOpenWaiters := w\<rparr>) = roots_inv s"
  "roots_inv (s\<lparr>rootDrainWaiters := w\<rparr>) = roots_inv s"
  by (rule roots_inv_cong; simp)+

lemma roots_inv_step: "roots_inv s \<Longrightarrow> roots_inv (ga_step s e)"
proof (cases e)
  case (TryRoot cur)
  then show "roots_inv s \<Longrightarrow> ?thesis"
    by (auto simp: tryBeginGatewayRootWorkAdmission_def create_snd create_roots_inv split: option.splits)
next
  case TryIndependent
  then show "roots_inv s \<Longrightarrow> ?thesis"
    by (auto simp: tryBeginGatewayIndependentRootWorkAdmission_def create_snd create_roots_inv)
next
  case (RootWhenOpen cur w)
  then show "roots_inv s \<Longrightarrow> ?thesis"
    by (auto simp: beginGatewayRootWorkAdmissionWhenOpen_def tryBeginGatewayRootWorkAdmission_def
        create_snd create_roots_inv split: option.splits)
next
  case (IndependentWhenOpen w)
  then show "roots_inv s \<Longrightarrow> ?thesis"
    by (auto simp: runWithGatewayIndependentRootWorkAdmission_def
        tryBeginGatewayIndependentRootWorkAdmission_def create_snd create_roots_inv)
next
  case (Continue cur w)
  then show "roots_inv s \<Longrightarrow> ?thesis"
    by (auto simp: runWithGatewayIndependentRootWorkContinuation_def
        runWithGatewayIndependentRootWorkAdmission_def
        tryBeginGatewayIndependentRootWorkAdmission_def create_snd create_roots_inv split: option.splits)
next
  case (Retain cur)
  then show "roots_inv s \<Longrightarrow> ?thesis" by (simp add: retain_roots_inv)
next
  case (Release l)
  then show "roots_inv s \<Longrightarrow> ?thesis" by (simp add: release_roots_inv)
next
  case Reset
  then show "roots_inv s \<Longrightarrow> ?thesis" by (simp add: reset_roots_inv)
next
  case (WaitDrain t w)
  then show "roots_inv s \<Longrightarrow> ?thesis" by (auto simp: waitForActiveGatewayRootWork_def)
next
  case (FinishWait w)
  then show "roots_inv s \<Longrightarrow> ?thesis" by (auto simp: finishWaitForActiveGatewayRootWork_def)
next
  case MarkDraining
  then show "roots_inv s \<Longrightarrow> ?thesis"
    by (subst roots_inv_cong [of _ s])
      (auto simp: markGatewayRestartDraining_def resolveSuspendOpenWaiters_def
        invalidateSuspendAdmission_def Let_def split: option.splits)
next
  case BeginSignal
  then show "roots_inv s \<Longrightarrow> ?thesis"
    by (subst roots_inv_cong [of _ s]) (auto simp: beginGatewayRestartSignalAdmission_def Let_def)
next
  case (RollbackSignal g)
  then show "roots_inv s \<Longrightarrow> ?thesis"
    by (subst roots_inv_cong [of _ s])
      (auto simp: rollbackRestartSignal_def resolveSuspendOpenWaiters_def split: option.splits)
next
  case (BeginSuspend cb)
  then show "roots_inv s \<Longrightarrow> ?thesis"
    by (subst roots_inv_cong [of _ s]) (auto simp: tryBeginGatewaySuspendAdmission_def Let_def)
qed (subst roots_inv_cong [of _ s];
     auto simp: suspendCommit_def suspendRollback_def suspendRelease_def suspendTransition_def
       resolveSuspendOpenWaiters_def Let_def)+

interpretation gar: machine ga_step initial_admission roots_inv
  by unfold_locales
    (simp add: roots_inv_def initial_admission_def live_leases_def, rule roots_inv_step)

section \<open>Dead suspension leases\<close>

text \<open>
  A suspension lease is dead once its generation has passed, or once the phase is back to
  accepting in its own generation: from then on none of its operations can change the phase.
\<close>

definition lease_dead :: "nat \<Rightarrow> admission_state \<Rightarrow> bool" where
  "lease_dead g s \<longleftrightarrow> g < suspendGeneration s \<or> g = suspendGeneration s \<and> suspendPhase s = Accepting"

lemma generation_step: "suspendGeneration s \<le> suspendGeneration (ga_step s e)"
  by (cases e)
    (auto simp: ga_ops Let_def split: option.splits if_splits root_result.splits)

interpretation gag: monotone_machine ga_step suspendGeneration
  by unfold_locales (rule generation_step)

lemma lease_dead_step: "lease_dead g s \<Longrightarrow> lease_dead g (ga_step s e)"
  by (cases e)
    (auto simp: lease_dead_def ga_ops Let_def split: option.splits if_splits root_result.splits)

lemma lease_dead_run: "lease_dead g s \<Longrightarrow> lease_dead g (foldl ga_step s es)"
  by (induction es arbitrary: s) (auto intro: lease_dead_step)

lemma lease_dead_ops:
  "lease_dead g s \<Longrightarrow> suspendCommit s g = (False, s) \<and> suspendRollback s g = (False, s)
     \<and> suspendRelease s g = (False, s)"
  by (auto simp: lease_dead_def suspendCommit_def suspendRollback_def suspendRelease_def
      suspendTransition_def)

lemma draining_kills: "g \<le> suspendGeneration s \<Longrightarrow> lease_dead g (markGatewayRestartDraining s)"
  by (auto simp: lease_dead_def markGatewayRestartDraining_def resolveSuspendOpenWaiters_def
      invalidateSuspendAdmission_def Let_def split: option.splits)

lemma reset_kills: "g \<le> suspendGeneration s \<Longrightarrow> lease_dead g (resetGatewayWorkAdmission s)"
  by (auto simp: lease_dead_def resetGatewayWorkAdmission_def resolveSuspendOpenWaiters_def
      resolveRootDrainWaiters_def invalidateSuspendAdmission_def Let_def split: option.splits)

section \<open>While the gateway drains\<close>

text \<open>
  Draining is left only by a reset, and the only way to add a root while draining is the
  continuation of a root that is still live.
\<close>

fun no_reset :: "admission_op \<Rightarrow> bool" where
  "no_reset Reset = False"
| "no_reset (Continue _ _) = False"
| "no_reset _ = True"

lemma release_active_subset: "set (activeRootWork (releaseRootWork s l)) \<subseteq> set (activeRootWork s)"
  by (auto simp: releaseRootWork_def resolveRootDrainWaiters_def Let_def split: option.splits)

lemma draining_step:
  "restartDraining s \<Longrightarrow> no_reset e \<Longrightarrow>
     restartDraining (ga_step s e) \<and> set (activeRootWork (ga_step s e)) \<subseteq> set (activeRootWork s)"
  by (cases e)
    (auto simp: ga_ops Let_def split: option.splits if_splits)

lemma draining_run:
  "restartDraining s \<Longrightarrow> list_all no_reset es \<Longrightarrow>
     restartDraining (foldl ga_step s es) \<and>
     set (activeRootWork (foldl ga_step s es)) \<subseteq> set (activeRootWork s)"
proof (induction es arbitrary: s)
  case (Cons e es)
  with draining_step [of s e] Cons.IH [of "ga_step s e"] show ?case by auto
qed simp

section \<open>Properties\<close>

text \<open>
  C2. In every reachable state the active roots are exactly the unreleased admissions, each
  once, and an active root's reference count is the positive number of its release closures not
  yet called: a root ends with its last release, neither earlier nor later, and calling a closure
  twice does nothing.
\<close>

theorem root_work_refcount:
  "let s = foldl ga_step initial_admission ops in
     distinct (activeRootWork s) \<and>
     (\<forall>a. a \<in> set (activeRootWork s) \<longleftrightarrow> \<not> isReleased s a) \<and>
     (\<forall>a ad. admissions s a = Some ad \<and> a \<in> set (activeRootWork s) \<longrightarrow>
        references ad = int (card (live_leases s a)) \<and> 0 < references ad) \<and>
     (\<forall>l. releaseRootWork (releaseRootWork s l) l = releaseRootWork s l)"
proof -
  let ?s = "foldl ga_step initial_admission ops"
  have inv: "roots_inv ?s" by (rule gar.run_inv)
  have twice: "releaseRootWork (releaseRootWork s l) l = releaseRootWork s l" for s l
    by (simp add: releaseRootWork_def resolveRootDrainWaiters_def Let_def split: option.splits)
  have "a \<in> set (activeRootWork ?s) \<longleftrightarrow> \<not> isReleased ?s a" for a
    using inv by (auto simp: roots_inv_def isReleased_def split: option.splits)
  moreover have "references ad = int (card (live_leases ?s a)) \<and> 0 < references ad"
    if "admissions ?s a = Some ad" "a \<in> set (activeRootWork ?s)" for a ad
    using that roots_ref [OF inv that(1)] inv by (auto simp: roots_inv_def)
  moreover have "distinct (activeRootWork ?s)" using inv by (simp add: roots_inv_def)
  ultimately show ?thesis using twice unfolding Let_def by blast
qed

theorem root_work_refcount_witness:
  "let s = foldl ga_step initial_admission [TryRoot None, Retain (Some 0), Release 0] in
     distinct (activeRootWork s) \<and> activeRootWork s = [0] \<and>
     activeRootWork (foldl ga_step s [Release 0, Release 1]) = []"
proof -
  have "activeRootWork (foldl ga_step initial_admission [TryRoot None, Retain (Some 0), Release 0]) = [0]"
    "activeRootWork (foldl ga_step initial_admission
       [TryRoot None, Retain (Some 0), Release 0, Release 0, Release 1]) = []"
    by (simp_all add: ga_ops initial_admission_def isReleased_def)
  then show ?thesis
    using root_work_refcount [of "[TryRoot None, Retain (Some 0), Release 0]"]
    by (simp add: Let_def)
qed

text \<open>
  No waiter is forgotten: in every reachable state a drain waiter implies active root
  work, and a waiter for open admission implies that admission is closed by a pending restart
  signal or a suspension (either of which resolves all waiters when it ends) and not by a restart
  drain.
\<close>

theorem admission_no_lost_wakeup:
  "let s = foldl ga_step initial_admission ops in
     (activeRootWork s = [] \<longrightarrow> rootDrainWaiters s = []) \<and>
     (\<not> isGatewayWorkAdmissionClosed s \<or> restartDraining s \<longrightarrow> suspendOpenWaiters s = []) \<and>
     (suspendPhase s \<noteq> Accepting \<longleftrightarrow> suspendInvalidated s \<noteq> None)"
  using gaw.run_inv [of ops]
  by (auto simp: waiters_inv_def isGatewayWorkAdmissionClosed_def Let_def)

theorem admission_no_lost_wakeup_witness:
  "let s = foldl ga_step initial_admission [BeginSuspend 7, RootWhenOpen None 3, Rollback 1] in
     suspendOpenWaiters s = [] \<and> resolvedWaiters s = [3]"
proof -
  let ?ops = "[BeginSuspend 7, RootWhenOpen None 3, Rollback 1]"
  have "\<not> isGatewayWorkAdmissionClosed (foldl ga_step initial_admission ?ops)"
    "resolvedWaiters (foldl ga_step initial_admission ?ops) = [3]"
    by (simp_all add: ga_ops initial_admission_def isGatewayWorkAdmissionClosed_def Let_def)
  then show ?thesis
    using admission_no_lost_wakeup [of ?ops] by (simp add: Let_def)
qed

text \<open>
  A restart drain or a reset supersedes a suspension for good: whatever happens before
  and after it, the lease granted earlier can no longer commit, roll back or release, and its
  operations change nothing.
\<close>

theorem superseded_suspension_is_dead:
  assumes "tryBeginGatewaySuspendAdmission s cb = (Some g, s1)"
    and "e = MarkDraining \<or> e = Reset"
  shows "let s2 = foldl ga_step s1 (ops1 @ e # ops2) in
     suspendCommit s2 g = (False, s2) \<and> suspendRollback s2 g = (False, s2) \<and>
     suspendRelease s2 g = (False, s2)"
proof -
  have "g = suspendGeneration s1"
    using assms(1) by (auto simp: tryBeginGatewaySuspendAdmission_def Let_def split: if_splits)
  with gag.stamp_run [of s1 ops1] have g: "g \<le> suspendGeneration (foldl ga_step s1 ops1)" by simp
  have "lease_dead g (ga_step (foldl ga_step s1 ops1) e)"
    using assms(2) draining_kills [OF g] reset_kills [OF g] by auto
  then have "lease_dead g (foldl ga_step s1 (ops1 @ e # ops2))"
    by (simp add: lease_dead_run)
  then show ?thesis by (simp only: Let_def lease_dead_ops simp_thms)
qed

theorem superseded_suspension_is_dead_witness:
  "let s2 = foldl ga_step (snd (tryBeginGatewaySuspendAdmission initial_admission 7))
              [Commit 1, MarkDraining, Reset, BeginSuspend 8] in
     suspendRelease s2 1 = (False, s2) \<and> suspendPhase s2 = Preparing"
proof -
  let ?s1 = "snd (tryBeginGatewaySuspendAdmission initial_admission 7)"
  have g: "tryBeginGatewaySuspendAdmission initial_admission 7 = (Some 1, ?s1)"
    by (simp add: tryBeginGatewaySuspendAdmission_def initial_admission_def Let_def)
  have "suspendPhase (foldl ga_step ?s1 [Commit 1, MarkDraining, Reset, BeginSuspend 8]) = Preparing"
    by (simp add: ga_ops initial_admission_def Let_def)
  then show ?thesis
    using superseded_suspension_is_dead [OF g, of MarkDraining "[Commit 1]" "[Reset, BeginSuspend 8]"]
    by (simp add: Let_def)
qed

text \<open>
  Once the gateway drains, every history without a reset and without continuations of
  live roots keeps it draining and only shrinks the set of active roots; every attempt to start a
  root outside a live one is refused and changes nothing.
\<close>

theorem draining_only_shrinks:
  assumes "restartDraining s" and "list_all no_reset ops"
  shows "let s' = foldl ga_step s ops in
     restartDraining s' \<and> set (activeRootWork s') \<subseteq> set (activeRootWork s) \<and>
     tryBeginGatewayIndependentRootWorkAdmission s' = (Refused, s') \<and>
     (\<forall>cur. (case cur of None \<Rightarrow> True | Some a \<Rightarrow> isReleased s' a) \<longrightarrow>
        tryBeginGatewayRootWorkAdmission s' cur = (Refused, s')) \<and>
     tryBeginGatewaySuspendAdmission s' cb = (None, s')"
  using draining_run [OF assms]
  by (auto simp: Let_def tryBeginGatewayIndependentRootWorkAdmission_def
      tryBeginGatewayRootWorkAdmission_def tryBeginGatewaySuspendAdmission_def split: option.splits)

theorem draining_only_shrinks_witness:
  "let s' = foldl ga_step (foldl ga_step initial_admission [TryRoot None, MarkDraining])
              [TryIndependent, Release 0] in
     activeRootWork s' = [] \<and> tryBeginGatewayIndependentRootWorkAdmission s' = (Refused, s')"
proof -
  let ?s = "foldl ga_step initial_admission [TryRoot None, MarkDraining]"
  have d: "restartDraining ?s" and a: "activeRootWork (foldl ga_step ?s [TryIndependent, Release 0]) = []"
    by (simp_all add: ga_ops initial_admission_def Let_def)
  have "list_all no_reset [TryIndependent, Release 0]" by simp
  from draining_only_shrinks [OF d this] a show ?thesis by (simp add: Let_def)
qed

end
