(* ===== verification/GatewaySuspend.thy ===== *)
theory GatewaySuspend
  imports GatewayAdmission ActiveWork
begin

text \<open>
  \<^verbatim>\<open>src/infra/gateway-suspend-coordinator.ts\<close>: the lease a host takes before it suspends the machine. The
  coordinator closes the admission of \<^verbatim>\<open>gateway-work-admission.ts\<close>, pauses the scheduler, looks whether
  the process is idle and either rolls back or holds the closed gate until the host resumes, the lease
  expires, or a restart invalidates it. The two scheduler callbacks are what they do: the admission
  operations of other code that run meanwhile, and whether they throw; the scheduler itself is the flag
  \<open>paused\<close>. An entry's timer is its due time, a lease its suspension generation, and the callback
  \<^verbatim>\<open>onInvalidated\<close> the number of its \<^verbatim>\<open>owner\<close>.
\<close>

section \<open>State\<close>

datatype entry_kind =
    Held (heldRequest: string) (heldSuspension: string) (heldExpires: int) (heldSnapshot: work_snapshot)
  | Recovering

record suspend_entry =
  seId :: nat
  seOwner :: nat
  seLease :: nat
  seCommitted :: bool
  seKind :: entry_kind
  seTimer :: "int option"

record suspend_state =
  fence :: admission_state
  holder :: "suspend_entry option"
  nextEntry :: nat
  nextOwner :: nat
  paused :: bool

definition initial_suspend :: suspend_state where
  "initial_suspend = \<lparr>fence = initial_admission, holder = None, nextEntry = 0, nextOwner = 0, paused = False\<rparr>"

definition GATEWAY_SUSPEND_TTL_MS :: int where "GATEWAY_SUSPEND_TTL_MS = 2 * 60000"
definition GATEWAY_SUSPEND_RETRY_AFTER_MS :: int where "GATEWAY_SUSPEND_RETRY_AFTER_MS = 20000"
definition GATEWAY_SCHEDULER_RECOVERY_RETRY_MS :: int where "GATEWAY_SCHEDULER_RECOVERY_RETRY_MS = 1000"

section \<open>Admission changes made by other code\<close>

text \<open>Only the coordinator begins and ends suspensions.\<close>

fun suspend_op :: "admission_op \<Rightarrow> bool" where
  "suspend_op (BeginSuspend _) = True"
| "suspend_op (Commit _) = True"
| "suspend_op (Rollback _) = True"
| "suspend_op (ReleaseSuspend _) = True"
| "suspend_op _ = False"

text \<open>The callback a lease registered: the coordinator drops the entry of that owner.\<close>

definition onInvalidated :: "suspend_state \<Rightarrow> nat \<Rightarrow> suspend_state" where
  "onInvalidated s owner =
     (case holder s of
        Some e \<Rightarrow> if seOwner e = owner then s\<lparr>holder := None\<rparr> else s
      | None \<Rightarrow> s)"

definition elsewhere :: "suspend_state \<Rightarrow> admission_op \<Rightarrow> suspend_state" where
  "elsewhere s op =
     (if suspend_op op then s
      else
        let f = ga_step (fence s) op;
            invoked = drop (length (invokedCallbacks (fence s))) (invokedCallbacks f)
        in foldl onInvalidated (s\<lparr>fence := f\<rparr>) invoked)"

record callback =
  cbOps :: "admission_op list"
  cbThrows :: bool

definition callPause :: "suspend_state \<Rightarrow> callback \<Rightarrow> bool \<times> suspend_state" where
  "callPause s cb =
     (let s1 = foldl elsewhere s (cbOps cb) in if cbThrows cb then (False, s1) else (True, s1\<lparr>paused := True\<rparr>))"

definition callResume :: "suspend_state \<Rightarrow> callback \<Rightarrow> bool \<times> suspend_state" where
  "callResume s cb =
     (let s1 = foldl elsewhere s (cbOps cb) in if cbThrows cb then (False, s1) else (True, s1\<lparr>paused := False\<rparr>))"

section \<open>The coordinator\<close>

text \<open>\<^verbatim>\<open>reopenAdmission\<close>: the lease's \<^verbatim>\<open>release\<close> once committed, its \<^verbatim>\<open>rollback\<close> before.\<close>

definition reopenAdmission :: "suspend_state \<Rightarrow> nat \<Rightarrow> bool \<Rightarrow> bool \<times> suspend_state" where
  "reopenAdmission s lease committed =
     (let (ok, f) = (if committed then suspendRelease (fence s) lease else suspendRollback (fence s) lease)
      in (ok, s\<lparr>fence := f\<rparr>))"

definition isCurrent :: "suspend_state \<Rightarrow> suspend_entry \<Rightarrow> bool" where
  "isCurrent s e \<longleftrightarrow> map_option seId (holder s) = Some (seId e)"

definition scheduleRecoveryRetry :: "suspend_entry \<Rightarrow> int \<Rightarrow> suspend_entry" where
  "scheduleRecoveryRetry e now = e\<lparr>seTimer := Some (now + GATEWAY_SCHEDULER_RECOVERY_RETRY_MS)\<rparr>"

definition enterSchedulerRecovery :: "suspend_state \<Rightarrow> suspend_entry \<Rightarrow> int \<Rightarrow> suspend_state" where
  "enterSchedulerRecovery s e now =
     (if \<not> isCurrent s e then s
      else if seKind e = Recovering then s\<lparr>holder := Some (scheduleRecoveryRetry e now)\<rparr>
      else s\<lparr>holder := Some (scheduleRecoveryRetry (e\<lparr>seId := nextEntry s, seKind := Recovering\<rparr>) now),
             nextEntry := nextEntry s + 1\<rparr>)"

definition resumeAndReopen :: "suspend_state \<Rightarrow> suspend_entry \<Rightarrow> callback \<Rightarrow> int \<Rightarrow> bool \<times> suspend_state" where
  "resumeAndReopen s e cb now =
     (case callResume s cb of
        (False, s1) \<Rightarrow> (False, enterSchedulerRecovery s1 e now)
      | (True, s1) \<Rightarrow>
          if \<not> isCurrent s1 e then (True, s1)
          else
            (case reopenAdmission s1 (seLease e) (seCommitted e) of
               (False, s2) \<Rightarrow> (False, enterSchedulerRecovery s2 e now)
             | (True, s2) \<Rightarrow> (True, s2\<lparr>holder := None\<rparr>)))"

definition normalizeExpiredHeldSuspension :: "suspend_state \<Rightarrow> suspend_entry \<Rightarrow> callback \<Rightarrow> int \<Rightarrow> suspend_state" where
  "normalizeExpiredHeldSuspension s e cb now =
     (if now < heldExpires (seKind e) then s else snd (resumeAndReopen s e cb now))"

text \<open>The entry in force after an expired lease is ended; the tests of its kind come first.\<close>

definition settleExpired :: "suspend_state \<Rightarrow> callback \<Rightarrow> int \<Rightarrow> suspend_state" where
  "settleExpired s cb now =
     (case holder s of
        None \<Rightarrow> s
      | Some e \<Rightarrow> if seKind e = Recovering then s else normalizeExpiredHeldSuspension s e cb now)"

definition resumeSchedulingBeforeReopen ::
    "suspend_state \<Rightarrow> nat \<Rightarrow> nat \<Rightarrow> bool \<Rightarrow> callback \<Rightarrow> int \<Rightarrow> bool \<times> suspend_state" where
  "resumeSchedulingBeforeReopen s owner lease committed cb now =
     (if owner \<in> set (invokedCallbacks (fence s)) then (True, s)
      else
        case callResume s cb of
          (False, s1) \<Rightarrow>
            (False, s1\<lparr>holder := Some (scheduleRecoveryRetry
                \<lparr>seId = nextEntry s1, seOwner = owner, seLease = lease, seCommitted = committed, seKind = Recovering,
                 seTimer = None\<rparr> now), nextEntry := nextEntry s1 + 1\<rparr>)
        | (True, s1) \<Rightarrow>
            (True, if owner \<in> set (invokedCallbacks (fence s1)) then s1 else snd (reopenAdmission s1 lease committed)))"

datatype prepare_result =
    PrepareReady string int int "work_blocker list"
  | PrepareConflict int
  | PrepareRecovering
  | PrepareBusy bool int "work_blocker list"
  | PrepareThrows

text \<open>
  A call of \<^verbatim>\<open>prepareGatewaySuspend\<close>: its clock reading and that of the entry it finds, the callbacks, what
  the inspection returns (\<open>None\<close> when it throws), and the id drawn (\<open>None\<close> when that throws). The
  flag of \<open>PrepareBusy\<close> tells a draining gateway from active work.
\<close>

record prepare_call =
  pcRequest :: string
  pcNow :: int
  pcEntryNow :: int
  pcPause :: callback
  pcResume :: callback
  pcExpired :: callback
  pcInspect :: "work_inspectors option"
  pcSuspension :: "string option"

definition busyWith :: "bool \<Rightarrow> work_inspectors option \<Rightarrow> prepare_result" where
  "busyWith drains inspect =
     (case inspect of
        None \<Rightarrow> PrepareThrows
      | Some i \<Rightarrow>
          let snap = createGatewayActiveWorkSnapshot i in PrepareBusy drains (totalActive (counts snap)) (blockers snap))"

text \<open>The catch block, and the early exit of a busy process.\<close>

definition rollBack :: "suspend_state \<Rightarrow> nat \<Rightarrow> nat \<Rightarrow> bool \<Rightarrow> prepare_call \<Rightarrow> prepare_result \<Rightarrow> prepare_result \<times> suspend_state" where
  "rollBack s owner lease committed c answer =
     (case resumeSchedulingBeforeReopen s owner lease committed (pcResume c) (pcNow c) of
        (False, s1) \<Rightarrow> (PrepareRecovering, s1)
      | (True, s1) \<Rightarrow> (answer, s1))"

text \<open>The body of the \<^verbatim>\<open>try\<close> block, after the scheduler is paused.\<close>

definition inspectAndHold :: "suspend_state \<Rightarrow> nat \<Rightarrow> nat \<Rightarrow> prepare_call \<Rightarrow> prepare_result \<times> suspend_state" where
  "inspectAndHold s owner lease c =
     (case pcInspect c of
        None \<Rightarrow> rollBack s owner lease False c PrepareThrows
      | Some i \<Rightarrow>
          let snap = createGatewayActiveWorkSnapshot i in
          if \<not> idle snap then rollBack s owner lease False c (busyWith False (Some i))
          else
            (case suspendCommit (fence s) lease of
               (False, f) \<Rightarrow> rollBack (s\<lparr>fence := f\<rparr>) owner lease False c PrepareThrows
             | (True, f) \<Rightarrow>
                 (case pcSuspension c of
                    None \<Rightarrow> rollBack (s\<lparr>fence := f\<rparr>) owner lease True c PrepareThrows
                  | Some sid \<Rightarrow>
                      let expires = pcNow c + GATEWAY_SUSPEND_TTL_MS
                      in (PrepareReady sid expires (totalActive (counts snap)) (blockers snap),
                          s\<lparr>fence := f, nextEntry := nextEntry s + 1,
                            holder := Some \<lparr>seId = nextEntry s, seOwner = owner, seLease = lease, seCommitted = True,
                                seKind = Held (pcRequest c) sid expires snap, seTimer = Some expires\<rparr>\<rparr>))))"

definition beginSuspension :: "suspend_state \<Rightarrow> prepare_call \<Rightarrow> prepare_result \<times> suspend_state" where
  "beginSuspension s c =
     (let owner = nextOwner s in
      case tryBeginGatewaySuspendAdmission (fence s) owner of
        (None, f) \<Rightarrow> (busyWith True (pcInspect c), s\<lparr>fence := f\<rparr>)
      | (Some lease, f) \<Rightarrow>
          (case callPause (s\<lparr>fence := f, nextOwner := owner + 1\<rparr>) (pcPause c) of
             (False, s1) \<Rightarrow> (PrepareThrows, snd (reopenAdmission s1 lease False))
           | (True, s1) \<Rightarrow> inspectAndHold s1 owner lease c))"

definition prepareGatewaySuspend :: "suspend_state \<Rightarrow> prepare_call \<Rightarrow> prepare_result \<times> suspend_state" where
  "prepareGatewaySuspend s c =
     (let s1 = settleExpired s (pcExpired c) (pcEntryNow c) in
      case holder s1 of
        None \<Rightarrow> beginSuspension s1 c
      | Some e \<Rightarrow>
          (case seKind e of
             Recovering \<Rightarrow> (PrepareRecovering, s1)
           | Held req sid expires snap \<Rightarrow>
               if req \<noteq> pcRequest c then (PrepareConflict expires, s1)
               else
                 let renewed = pcNow c + GATEWAY_SUSPEND_TTL_MS
                 in (PrepareReady sid renewed (totalActive (counts snap)) (blockers snap),
                     s1\<lparr>holder := Some (e\<lparr>seKind := Held req sid renewed snap, seTimer := Some renewed\<rparr>)\<rparr>)))"

datatype suspend_status = StatusRunning | StatusReady int | StatusConflict int | StatusRecovering

definition getGatewaySuspendStatus :: "suspend_state \<Rightarrow> string \<Rightarrow> callback \<Rightarrow> int \<Rightarrow> suspend_status \<times> suspend_state" where
  "getGatewaySuspendStatus s sid cb now =
     (let s1 = settleExpired s cb now in
      (case holder s1 of
         None \<Rightarrow> StatusRunning
       | Some e \<Rightarrow>
           (case seKind e of
              Recovering \<Rightarrow> StatusRecovering
            | Held req held expires snap \<Rightarrow> if held \<noteq> sid then StatusConflict expires else StatusReady expires),
       s1))"

datatype resume_result = Resumed | NothingHeld | SuspensionMismatch | SchedulerResumeFailed

definition resumeGatewaySuspend ::
    "suspend_state \<Rightarrow> string \<Rightarrow> callback \<Rightarrow> callback \<Rightarrow> int \<Rightarrow> resume_result \<times> suspend_state" where
  "resumeGatewaySuspend s sid expired cb now =
     (let s1 = settleExpired s expired now in
      case holder s1 of
        None \<Rightarrow> (NothingHeld, s1)
      | Some e \<Rightarrow>
          (case seKind e of
             Recovering \<Rightarrow> (SchedulerResumeFailed, s1)
           | Held req held expires snap \<Rightarrow>
               if held \<noteq> sid then (SuspensionMismatch, s1)
               else (case resumeAndReopen s1 e cb now of
                       (True, s2) \<Rightarrow> (Resumed, s2)
                     | (False, s2) \<Rightarrow> (SchedulerResumeFailed, s2))))"

text \<open>The timer of entry \<open>i\<close>, a no-op unless the entry is current.\<close>

definition entryTimerFires :: "suspend_state \<Rightarrow> nat \<Rightarrow> callback \<Rightarrow> int \<Rightarrow> suspend_state" where
  "entryTimerFires s i cb now =
     (case holder s of
        Some e \<Rightarrow> if seId e = i then snd (resumeAndReopen s e cb now) else s
      | None \<Rightarrow> s)"

datatype suspend_event =
    Prepare prepare_call
  | Status string callback int
  | Resume string callback callback int
  | EntryTimer nat callback int
  | Elsewhere admission_op

fun suspend_step :: "suspend_state \<Rightarrow> suspend_event \<Rightarrow> suspend_state" where
  "suspend_step s (Prepare c) = snd (prepareGatewaySuspend s c)"
| "suspend_step s (Status sid cb now) = snd (getGatewaySuspendStatus s sid cb now)"
| "suspend_step s (Resume sid expired cb now) = snd (resumeGatewaySuspend s sid expired cb now)"
| "suspend_step s (EntryTimer i cb now) = entryTimerFires s i cb now"
| "suspend_step s (Elsewhere op) = elsewhere s op"

section \<open>The gate and the lease agree\<close>

text \<open>What an operation of other code does to a suspension: nothing, or it ends it and calls back.\<close>

definition same_gate :: "admission_state \<Rightarrow> admission_state \<Rightarrow> bool" where
  "same_gate s f \<longleftrightarrow> suspendPhase f = suspendPhase s \<and> suspendGeneration f = suspendGeneration s \<and>
     suspendInvalidated f = suspendInvalidated s \<and> invokedCallbacks f = invokedCallbacks s"

definition ended_gate :: "admission_state \<Rightarrow> admission_state \<Rightarrow> bool" where
  "ended_gate s f \<longleftrightarrow> suspendPhase f = Accepting \<and>
     invokedCallbacks f = invokedCallbacks s @
       (if suspendPhase s = Accepting then [] else case suspendInvalidated s of None \<Rightarrow> [] | Some cb \<Rightarrow> [cb])"

lemma outside_op: "\<not> suspend_op op \<Longrightarrow> same_gate s (ga_step s op) \<or> ended_gate s (ga_step s op)"
  by (cases op) (auto simp: ga_ops same_gate_def ended_gate_def Let_def split: option.splits if_splits)

text \<open>The gate is closed by this lease, in its first or its committed phase.\<close>

definition gate_held :: "admission_state \<Rightarrow> nat \<Rightarrow> nat \<Rightarrow> bool \<Rightarrow> bool" where
  "gate_held f owner lease committed \<longleftrightarrow>
     suspendPhase f = (if committed then Prepared else Preparing) \<and> suspendGeneration f = lease \<and>
     suspendInvalidated f = Some owner \<and> owner \<notin> set (invokedCallbacks f)"

definition entry_ok :: "suspend_state \<Rightarrow> suspend_entry \<Rightarrow> bool" where
  "entry_ok s e \<longleftrightarrow> gate_held (fence s) (seOwner e) (seLease e) (seCommitted e) \<and> seOwner e < nextOwner s \<and>
     seId e < nextEntry s \<and> seTimer e \<noteq> None \<and>
     (seKind e \<noteq> Recovering \<longrightarrow> seCommitted e \<and> seTimer e = Some (heldExpires (seKind e)))"

text \<open>
  A recovery whose lease was invalidated while the scheduler failed to resume: the gate is open and the entry can
  never reopen it. Only histories that are not \<open>strict\<close> have one.
\<close>

definition dead_entry :: "suspend_state \<Rightarrow> suspend_entry \<Rightarrow> bool" where
  "dead_entry s e \<longleftrightarrow> seKind e = Recovering \<and> seOwner e \<in> set (invokedCallbacks (fence s)) \<and>
     suspendPhase (fence s) = Accepting \<and> seTimer e \<noteq> None"

definition owners_bound :: "suspend_state \<Rightarrow> bool" where
  "owners_bound s \<longleftrightarrow> (\<forall>n \<in> set (invokedCallbacks (fence s)). n < nextOwner s)"

definition suspend_inv :: "bool \<Rightarrow> suspend_state \<Rightarrow> bool" where
  "suspend_inv strict s \<longleftrightarrow>
     (holder s = None \<longrightarrow> suspendPhase (fence s) = Accepting) \<and>
     (\<forall>e. holder s = Some e \<longrightarrow> entry_ok s e \<or> \<not> strict \<and> dead_entry s e) \<and>
     owners_bound s \<and> (invokedCallbacks (fence s) = [] \<longrightarrow> (paused s \<longleftrightarrow> holder s \<noteq> None))"

lemma gate_held_closed: "gate_held f owner lease c \<Longrightarrow> suspendPhase f \<noteq> Accepting"
  by (simp add: gate_held_def)

lemma gate_held_ended:
  "gate_held s owner lease c \<Longrightarrow> ended_gate s f \<Longrightarrow>
     suspendPhase f = Accepting \<and> invokedCallbacks f = invokedCallbacks s @ [owner]"
  by (auto simp: ended_gate_def gate_held_def split: if_splits)

lemma gate_held_same: "gate_held s owner lease c \<Longrightarrow> same_gate s f \<Longrightarrow> gate_held f owner lease c"
  by (simp add: gate_held_def same_gate_def)

text \<open>The two cases of an operation elsewhere, seen from the coordinator.\<close>

lemma elsewhere_cases:
  obtains (kept) f where "elsewhere s op = s\<lparr>fence := f\<rparr>" "same_gate (fence s) f"
  | (ended) f where "elsewhere s op = foldl onInvalidated (s\<lparr>fence := f\<rparr>)
        (if suspendPhase (fence s) = Accepting then [] else case suspendInvalidated (fence s) of None \<Rightarrow> [] | Some cb \<Rightarrow> [cb])"
      "ended_gate (fence s) f"
proof (cases "suspend_op op")
  case True
  then have "elsewhere s op = s\<lparr>fence := fence s\<rparr>" by (simp add: elsewhere_def)
  moreover have "same_gate (fence s) (fence s)" by (simp add: same_gate_def)
  ultimately show ?thesis using kept by blast
next
  case False
  from outside_op [OF this, of "fence s"] show ?thesis
  proof
    assume g: "same_gate (fence s) (ga_step (fence s) op)"
    then have "elsewhere s op = s\<lparr>fence := ga_step (fence s) op\<rparr>"
      using False by (simp add: elsewhere_def same_gate_def Let_def)
    with g show ?thesis using kept by blast
  next
    assume g: "ended_gate (fence s) (ga_step (fence s) op)"
    then show ?thesis
      using False ended [of "ga_step (fence s) op"] by (simp add: elsewhere_def ended_gate_def Let_def)
  qed
qed

lemma elsewhere_inv: "suspend_inv strict s \<Longrightarrow> suspend_inv strict (elsewhere s op)"
proof -
  assume inv: "suspend_inv strict s"
  show ?thesis
  proof (cases rule: elsewhere_cases [of s op])
    case (kept f)
    with inv show ?thesis
      by (auto simp: suspend_inv_def entry_ok_def dead_entry_def owners_bound_def same_gate_def gate_held_def)
  next
    case (ended f)
    show ?thesis
    proof (cases "holder s")
      case None
      then show ?thesis using inv ended by (auto simp: suspend_inv_def owners_bound_def ended_gate_def)
    next
      case (Some e)
      then consider (live) "entry_ok s e" | (dead) "\<not> strict" "dead_entry s e"
        using inv by (auto simp: suspend_inv_def)
      then show ?thesis
      proof cases
        case live
        then have held: "gate_held (fence s) (seOwner e) (seLease e) (seCommitted e)" "seOwner e < nextOwner s"
          by (simp_all add: entry_ok_def)
        then have "elsewhere s op = s\<lparr>fence := f, holder := None\<rparr>"
          using ended(1) Some by (simp add: gate_held_def onInvalidated_def)
        then show ?thesis
          using gate_held_ended [OF held(1) ended(2)] held(2) inv by (auto simp: suspend_inv_def owners_bound_def)
      next
        case dead
        then have "elsewhere s op = s\<lparr>fence := f\<rparr>" using ended(1) by (simp add: dead_entry_def)
        then show ?thesis using inv ended(2) dead Some
          by (auto simp: suspend_inv_def dead_entry_def owners_bound_def ended_gate_def)
      qed
    qed
  qed
qed

lemma elsewheres_inv: "suspend_inv strict s \<Longrightarrow> suspend_inv strict (foldl elsewhere s ops)"
  by (induction ops arbitrary: s) (simp_all add: elsewhere_inv)

text \<open>While a preparation runs its callbacks: no entry yet, and the lease is held or was invalidated.\<close>

definition preparing :: "suspend_state \<Rightarrow> nat \<Rightarrow> nat \<Rightarrow> bool \<Rightarrow> bool" where
  "preparing s owner lease committed \<longleftrightarrow> holder s = None \<and> owner < nextOwner s \<and> owners_bound s \<and>
     (gate_held (fence s) owner lease committed \<or>
      suspendPhase (fence s) = Accepting \<and> owner \<in> set (invokedCallbacks (fence s)))"

lemma elsewhere_preparing: "preparing s owner lease c \<Longrightarrow> preparing (elsewhere s op) owner lease c"
proof -
  assume p: "preparing s owner lease c"
  show ?thesis
  proof (cases rule: elsewhere_cases [of s op])
    case (kept f)
    with p show ?thesis by (auto simp: preparing_def owners_bound_def same_gate_def gate_held_def)
  next
    case (ended f)
    have h: "foldl onInvalidated (s\<lparr>fence := f\<rparr>) xs = s\<lparr>fence := f\<rparr>" for xs
      using p by (induction xs) (simp_all add: preparing_def onInvalidated_def)
    show ?thesis
    proof (cases "gate_held (fence s) owner lease c")
      case True
      with gate_held_ended [OF True ended(2)] p ended(1) show ?thesis
        by (auto simp: preparing_def owners_bound_def h)
    next
      case False
      with p ended show ?thesis by (auto simp: preparing_def owners_bound_def h ended_gate_def)
    qed
  qed
qed

lemma elsewheres_preparing: "preparing s owner lease c \<Longrightarrow> preparing (foldl elsewhere s ops) owner lease c"
  by (induction ops arbitrary: s) (simp_all add: elsewhere_preparing)

lemma onInvalidated_frame [simp]:
  "paused (foldl onInvalidated t xs) = paused t" "nextOwner (foldl onInvalidated t xs) = nextOwner t"
  "nextEntry (foldl onInvalidated t xs) = nextEntry t" "fence (foldl onInvalidated t xs) = fence t"
  by (induction xs arbitrary: t) (simp_all add: onInvalidated_def split: option.split)

lemma onInvalidated_holder: "holder (foldl onInvalidated t xs) = holder t \<or> holder (foldl onInvalidated t xs) = None"
proof (induction xs arbitrary: t)
  case (Cons x xs)
  have "holder (onInvalidated t x) = holder t \<or> holder (onInvalidated t x) = None"
    by (simp add: onInvalidated_def split: option.split)
  with Cons.IH [of "onInvalidated t x"] show ?case by auto
qed simp

lemma elsewhere_frame:
  "paused (elsewhere s op) = paused s" "nextOwner (elsewhere s op) = nextOwner s" "nextEntry (elsewhere s op) = nextEntry s"
  "invokedCallbacks (fence (elsewhere s op)) = [] \<Longrightarrow> invokedCallbacks (fence s) = []"
  "holder (elsewhere s op) = holder s \<or> holder (elsewhere s op) = None"
proof -
  show "paused (elsewhere s op) = paused s" "nextOwner (elsewhere s op) = nextOwner s" "nextEntry (elsewhere s op) = nextEntry s"
    by (simp_all add: elsewhere_def Let_def)
  show "holder (elsewhere s op) = holder s \<or> holder (elsewhere s op) = None"
    using onInvalidated_holder [of "s\<lparr>fence := ga_step (fence s) op\<rparr>"] by (simp add: elsewhere_def Let_def)
  show "invokedCallbacks (fence (elsewhere s op)) = [] \<Longrightarrow> invokedCallbacks (fence s) = []"
    by (cases rule: elsewhere_cases [of s op]) (simp_all add: same_gate_def ended_gate_def)
qed

lemma elsewheres_frame:
  "paused (foldl elsewhere s ops) = paused s \<and> nextOwner (foldl elsewhere s ops) = nextOwner s \<and>
     nextEntry (foldl elsewhere s ops) = nextEntry s \<and>
     (invokedCallbacks (fence (foldl elsewhere s ops)) = [] \<longrightarrow> invokedCallbacks (fence s) = []) \<and>
     (holder (foldl elsewhere s ops) = holder s \<or> holder (foldl elsewhere s ops) = None)"
proof (induction ops arbitrary: s)
  case (Cons op ops)
  from Cons.IH [of "elsewhere s op"] elsewhere_frame [of s op] show ?case by auto
qed simp

text \<open>Reopening succeeds exactly for the lease that holds the gate.\<close>

lemma reopen_held:
  assumes "gate_held (fence s) owner lease c"
  shows "\<exists>f. reopenAdmission s lease c = (True, s\<lparr>fence := f\<rparr>) \<and> suspendPhase f = Accepting \<and>
    invokedCallbacks f = invokedCallbacks (fence s) \<and> suspendOpenWaiters f = [] \<and>
    resolvedWaiters f = resolvedWaiters (fence s) @ suspendOpenWaiters (fence s)"
  using assms
  by (cases c) (auto simp: reopenAdmission_def suspendRelease_def suspendRollback_def suspendTransition_def gate_held_def
      resolveSuspendOpenWaiters_def Let_def)

lemma reopen_open: "suspendPhase (fence s) = Accepting \<Longrightarrow> reopenAdmission s lease c = (False, s)"
  by (simp add: reopenAdmission_def suspendRelease_def suspendRollback_def suspendTransition_def)

lemma reopened_inv:
  assumes "suspend_inv strict s" "holder s = Some e" "entry_ok s e"
  shows "\<exists>t. reopenAdmission (s\<lparr>paused := False\<rparr>) (seLease e) (seCommitted e) = (True, t) \<and>
    suspend_inv strict (t\<lparr>holder := None\<rparr>) \<and> suspendPhase (fence t) = Accepting \<and> \<not> paused t \<and> suspendOpenWaiters (fence t) = [] \<and>
    resolvedWaiters (fence t) = resolvedWaiters (fence s) @ suspendOpenWaiters (fence s)"
proof -
  have h: "gate_held (fence (s\<lparr>paused := False\<rparr>)) (seOwner e) (seLease e) (seCommitted e)"
    using assms by (simp add: entry_ok_def)
  from reopen_held [OF h] obtain f where
    "reopenAdmission (s\<lparr>paused := False\<rparr>) (seLease e) (seCommitted e) = (True, s\<lparr>paused := False, fence := f\<rparr>)"
    "suspendPhase f = Accepting" "invokedCallbacks f = invokedCallbacks (fence s)" "suspendOpenWaiters f = []"
    "resolvedWaiters f = resolvedWaiters (fence s) @ suspendOpenWaiters (fence s)" by auto
  then show ?thesis using assms(1) by (auto simp: suspend_inv_def owners_bound_def)
qed

lemma recovery_inv:
  assumes "suspend_inv strict s" "holder s = Some e"
  shows "suspend_inv strict (enterSchedulerRecovery s e now)"
  using assms
  by (auto simp: enterSchedulerRecovery_def scheduleRecoveryRetry_def suspend_inv_def entry_ok_def dead_entry_def owners_bound_def)

lemma resumeAndReopen_inv:
  assumes inv: "suspend_inv strict s" and e: "holder s = Some e"
  shows "suspend_inv strict (snd (resumeAndReopen s e cb now))"
proof -
  let ?s = "foldl elsewhere s (cbOps cb)"
  have inv': "suspend_inv strict ?s" using inv by (rule elsewheres_inv)
  have h: "holder ?s = Some e \<or> holder ?s = None" using elsewheres_frame [of s "cbOps cb"] e by simp
  show ?thesis
  proof (cases "cbThrows cb")
    case True
    then have "snd (resumeAndReopen s e cb now) = enterSchedulerRecovery ?s e now"
      by (simp add: resumeAndReopen_def callResume_def Let_def)
    moreover have "suspend_inv strict (enterSchedulerRecovery ?s e now)" using h
    proof
      assume "holder ?s = None"
      then show ?thesis using inv' by (simp add: enterSchedulerRecovery_def isCurrent_def)
    qed (rule recovery_inv [OF inv'])
    ultimately show ?thesis by simp
  next
    case False
    from h show ?thesis
    proof
      assume none: "holder ?s = None"
      then have "snd (resumeAndReopen s e cb now) = ?s\<lparr>paused := False\<rparr>"
        using False by (simp add: resumeAndReopen_def callResume_def Let_def isCurrent_def)
      with none inv' show ?thesis by (auto simp: suspend_inv_def owners_bound_def)
    next
      assume some: "holder ?s = Some e"
      then consider (live) "entry_ok ?s e" | (dead) "\<not> strict" "dead_entry ?s e"
        using inv' by (auto simp: suspend_inv_def)
      then show ?thesis
      proof cases
        case live
        from reopened_inv [OF inv' some live] obtain t where
          "reopenAdmission (?s\<lparr>paused := False\<rparr>) (seLease e) (seCommitted e) = (True, t)" "suspend_inv strict (t\<lparr>holder := None\<rparr>)" by blast
        with False some show ?thesis
          by (simp add: resumeAndReopen_def callResume_def Let_def isCurrent_def)
      next
        case dead
        then have "invokedCallbacks (fence ?s) \<noteq> []" by (auto simp: dead_entry_def)
        with inv' some dead have inv'': "suspend_inv strict (?s\<lparr>paused := False\<rparr>)"
          by (auto simp: suspend_inv_def dead_entry_def owners_bound_def)
        have "reopenAdmission (?s\<lparr>paused := False\<rparr>) (seLease e) (seCommitted e) = (False, ?s\<lparr>paused := False\<rparr>)"
          using dead by (intro reopen_open) (simp add: dead_entry_def)
        with False some have "snd (resumeAndReopen s e cb now) = enterSchedulerRecovery (?s\<lparr>paused := False\<rparr>) e now"
          by (simp add: resumeAndReopen_def callResume_def Let_def isCurrent_def)
        with recovery_inv [OF inv''] some show ?thesis by simp
      qed
    qed
  qed
qed

lemma settleExpired_inv: "suspend_inv strict s \<Longrightarrow> suspend_inv strict (settleExpired s cb now)"
  by (simp add: settleExpired_def normalizeExpiredHeldSuspension_def resumeAndReopen_inv split: option.split)

text \<open>The rollback of a preparation.\<close>

lemma rollBack_inv:
  assumes p: "preparing s owner lease c" and calm: "invokedCallbacks (fence s) = [] \<longrightarrow> paused s"
    and cb: "strict \<and> cbThrows (pcResume call) \<longrightarrow> cbOps (pcResume call) = []"
  shows "suspend_inv strict (snd (rollBack s owner lease c call answer))"
proof (cases "owner \<in> set (invokedCallbacks (fence s))")
  case True
  then have "snd (rollBack s owner lease c call answer) = s"
    by (simp add: rollBack_def resumeSchedulingBeforeReopen_def)
  with p True show ?thesis by (auto simp: preparing_def suspend_inv_def gate_held_def)
next
  case False
  let ?cb = "pcResume call"
  let ?s = "foldl elsewhere s (cbOps ?cb)"
  have p': "preparing ?s owner lease c" using p by (rule elsewheres_preparing)
  have fr: "paused ?s = paused s" "invokedCallbacks (fence ?s) = [] \<longrightarrow> invokedCallbacks (fence s) = []"
    using elsewheres_frame [of s "cbOps ?cb"] by simp_all
  show ?thesis
  proof (cases "cbThrows ?cb")
    case True
    then have r: "snd (rollBack s owner lease c call answer) =
        ?s\<lparr>holder := Some \<lparr>seId = nextEntry ?s, seOwner = owner, seLease = lease, seCommitted = c, seKind = Recovering,
             seTimer = Some (pcNow call + GATEWAY_SCHEDULER_RECOVERY_RETRY_MS)\<rparr>, nextEntry := nextEntry ?s + 1\<rparr>"
      using False
      by (simp add: rollBack_def resumeSchedulingBeforeReopen_def callResume_def Let_def scheduleRecoveryRetry_def)
    show ?thesis
    proof (cases "owner \<in> set (invokedCallbacks (fence ?s))")
      case True
      moreover have "\<not> strict"
        using cb \<open>cbThrows (pcResume call)\<close> True False by auto
      moreover have "suspendPhase (fence ?s) = Accepting" using p' True by (auto simp: preparing_def gate_held_def)
      moreover have "invokedCallbacks (fence ?s) \<noteq> []" using True by auto
      ultimately show ?thesis using p' unfolding r
        by (simp add: suspend_inv_def dead_entry_def preparing_def owners_bound_def)
    next
      case False
      then have "gate_held (fence ?s) owner lease c" using p' by (simp add: preparing_def)
      then show ?thesis using p' calm fr unfolding r
        by (simp add: suspend_inv_def entry_ok_def preparing_def owners_bound_def)
    qed
  next
    case works: False
    let ?t = "?s\<lparr>paused := False\<rparr>"
    have r: "snd (rollBack s owner lease c call answer) =
        (if owner \<in> set (invokedCallbacks (fence ?s)) then ?t else snd (reopenAdmission ?t lease c))"
      using False works by (simp add: rollBack_def resumeSchedulingBeforeReopen_def callResume_def Let_def)
    show ?thesis
    proof (cases "owner \<in> set (invokedCallbacks (fence ?s))")
      case True
      with p' show ?thesis by (simp add: r preparing_def suspend_inv_def owners_bound_def) (simp add: gate_held_def)
    next
      case False
      then have "gate_held (fence ?t) owner lease c" using p' by (simp add: preparing_def)
      from reopen_held [OF this] obtain f where
        "reopenAdmission ?t lease c = (True, ?t\<lparr>fence := f\<rparr>)" "suspendPhase f = Accepting"
        "invokedCallbacks f = invokedCallbacks (fence ?s)" by auto
      with p' False show ?thesis by (simp add: r preparing_def suspend_inv_def owners_bound_def)
    qed
  qed
qed

lemma commit_held:
  "gate_held f owner lease False \<Longrightarrow>
     \<exists>g. suspendCommit f lease = (True, g) \<and> gate_held g owner lease True \<and> invokedCallbacks g = invokedCallbacks f"
  by (simp add: suspendCommit_def suspendTransition_def gate_held_def Let_def)

lemma commit_open: "suspendPhase f = Accepting \<Longrightarrow> suspendCommit f lease = (False, f)"
  by (simp add: suspendCommit_def suspendTransition_def)

lemma inspectAndHold_inv:
  assumes p: "preparing s owner lease False" and calm: "invokedCallbacks (fence s) = [] \<longrightarrow> paused s"
    and cb: "strict \<and> cbThrows (pcResume call) \<longrightarrow> cbOps (pcResume call) = []"
  shows "suspend_inv strict (snd (inspectAndHold s owner lease call))"
proof -
  note undo = rollBack_inv [OF p calm cb]
  show ?thesis
  proof (cases "pcInspect call")
    case None
    then show ?thesis using undo by (simp add: inspectAndHold_def)
  next
    case (Some i)
    show ?thesis
    proof (cases "idle (createGatewayActiveWorkSnapshot i)")
      case False
      then show ?thesis using undo Some by (simp add: inspectAndHold_def Let_def)
    next
      case idle: True
      show ?thesis
      proof (cases "gate_held (fence s) owner lease False")
        case False
        then have "suspendCommit (fence s) lease = (False, fence s)"
          using p commit_open by (simp add: preparing_def)
        then show ?thesis using undo Some idle by (simp add: inspectAndHold_def Let_def)
      next
        case True
        from commit_held [OF this] obtain g where g: "suspendCommit (fence s) lease = (True, g)"
          "gate_held g owner lease True" "invokedCallbacks g = invokedCallbacks (fence s)" by blast
        then have p': "preparing (s\<lparr>fence := g\<rparr>) owner lease True"
          using p by (simp add: preparing_def owners_bound_def)
        show ?thesis
        proof (cases "pcSuspension call")
          case None
          then show ?thesis
            using rollBack_inv [OF p' _ cb] calm g(1,3) Some idle by (simp add: inspectAndHold_def Let_def)
        next
          case sid: (Some sid)
          show ?thesis
            using p calm g Some idle sid
            by (simp add: inspectAndHold_def Let_def suspend_inv_def entry_ok_def preparing_def owners_bound_def)
        qed
      qed
    qed
  qed
qed

lemma begin_gate:
  "(\<exists>lease f. tryBeginGatewaySuspendAdmission g owner = (Some lease, f) \<and> suspendPhase f = Preparing \<and>
      suspendGeneration f = lease \<and> suspendInvalidated f = Some owner \<and> invokedCallbacks f = invokedCallbacks g) \<or>
   tryBeginGatewaySuspendAdmission g owner = (None, g)"
  by (simp add: tryBeginGatewaySuspendAdmission_def Let_def)

lemma beginSuspension_inv:
  assumes inv: "suspend_inv strict s" and none: "holder s = None"
    and cb: "strict \<and> cbThrows (pcResume call) \<longrightarrow> cbOps (pcResume call) = []"
  shows "suspend_inv strict (snd (beginSuspension s call))"
  using begin_gate [of "fence s" "nextOwner s"]
proof
  assume "tryBeginGatewaySuspendAdmission (fence s) (nextOwner s) = (None, fence s)"
  then show ?thesis using inv by (simp add: beginSuspension_def Let_def)
next
  assume "\<exists>lease f. tryBeginGatewaySuspendAdmission (fence s) (nextOwner s) = (Some lease, f) \<and> suspendPhase f = Preparing \<and>
      suspendGeneration f = lease \<and> suspendInvalidated f = Some (nextOwner s) \<and> invokedCallbacks f = invokedCallbacks (fence s)"
  then obtain lease f where t: "tryBeginGatewaySuspendAdmission (fence s) (nextOwner s) = (Some lease, f)"
    "suspendPhase f = Preparing" "suspendGeneration f = lease" "suspendInvalidated f = Some (nextOwner s)"
    "invokedCallbacks f = invokedCallbacks (fence s)" by blast
  define s0 where "s0 = s\<lparr>fence := f, nextOwner := Suc (nextOwner s)\<rparr>"
  have bound: "n < nextOwner s" if "n \<in> set (invokedCallbacks f)" for n
    using inv that t(5) by (simp add: suspend_inv_def owners_bound_def)
  have "preparing s0 (nextOwner s) lease False"
    using t none bound less_SucI [OF bound]
    by (fastforce simp: s0_def preparing_def gate_held_def owners_bound_def)
  define s1 where "s1 = foldl elsewhere s0 (cbOps (pcPause call))"
  have p1: "preparing s1 (nextOwner s) lease False"
    unfolding s1_def by (rule elsewheres_preparing) fact
  have fr: "paused s1 = paused s" "invokedCallbacks (fence s1) = [] \<longrightarrow> invokedCallbacks (fence s) = []"
    using elsewheres_frame [of s0 "cbOps (pcPause call)"] t(5) by (auto simp: s1_def s0_def)
  have calm: "invokedCallbacks (fence s1) = [] \<longrightarrow> \<not> paused s1"
    using fr inv none by (auto simp: suspend_inv_def)
  show ?thesis
  proof (cases "cbThrows (pcPause call)")
    case True
    then have "snd (beginSuspension s call) = snd (reopenAdmission s1 lease False)"
      by (simp add: beginSuspension_def Let_def t(1) callPause_def flip: s0_def s1_def)
    moreover have "suspend_inv strict (snd (reopenAdmission s1 lease False))"
    proof (cases "gate_held (fence s1) (nextOwner s) lease False")
      case True
      from reopen_held [OF this] show ?thesis
        using p1 calm by (auto simp: suspend_inv_def preparing_def owners_bound_def)
    next
      case False
      then show ?thesis using p1 reopen_open [of s1 lease False] by (auto simp: suspend_inv_def preparing_def)
    qed
    ultimately show ?thesis by simp
  next
    case False
    have "preparing (s1\<lparr>paused := True\<rparr>) (nextOwner s) lease False"
      using p1 by (simp add: preparing_def owners_bound_def)
    from inspectAndHold_inv [OF this _ cb] False show ?thesis
      by (simp add: beginSuspension_def Let_def t(1) callPause_def flip: s0_def s1_def)
  qed
qed

text \<open>
  Callbacks of a preparation that throw do so without having invalidated the suspension first.
\<close>

fun event_ok :: "suspend_event \<Rightarrow> bool" where
  "event_ok (Prepare c) \<longleftrightarrow> (cbThrows (pcResume c) \<longrightarrow> cbOps (pcResume c) = [])"
| "event_ok _ \<longleftrightarrow> True"

lemma prepare_inv: "suspend_inv strict s \<Longrightarrow> (strict \<longrightarrow> event_ok (Prepare c)) \<Longrightarrow> suspend_inv strict (snd (prepareGatewaySuspend s c))"
proof -
  assume "suspend_inv strict s" and cb: "strict \<longrightarrow> event_ok (Prepare c)"
  then have inv: "suspend_inv strict (settleExpired s (pcExpired c) (pcEntryNow c))" by (simp add: settleExpired_inv)
  let ?s = "settleExpired s (pcExpired c) (pcEntryNow c)"
  show ?thesis
  proof (cases "holder ?s")
    case None
    then show ?thesis using beginSuspension_inv [OF inv None] cb by (auto simp add: prepareGatewaySuspend_def Let_def)
  next
    case (Some e)
    then show ?thesis using inv
      by (cases "seKind e")
        (auto simp: prepareGatewaySuspend_def Let_def suspend_inv_def entry_ok_def dead_entry_def owners_bound_def)
  qed
qed

lemma resume_inv: "suspend_inv strict s \<Longrightarrow> suspend_inv strict (snd (resumeGatewaySuspend s sid expired cb now))"
proof -
  assume "suspend_inv strict s"
  then have inv: "suspend_inv strict (settleExpired s expired now)" by (rule settleExpired_inv)
  show ?thesis
  proof (cases "holder (settleExpired s expired now)")
    case None
    then show ?thesis using inv by (simp add: resumeGatewaySuspend_def Let_def)
  next
    case (Some e)
    from resumeAndReopen_inv [OF inv Some, of cb now] inv Some show ?thesis
      by (cases "seKind e"; cases "fst (resumeAndReopen (settleExpired s expired now) e cb now)")
        (auto simp: resumeGatewaySuspend_def Let_def split: prod.split bool.split)
  qed
qed

lemma suspend_step_inv: "suspend_inv strict s \<Longrightarrow> (strict \<longrightarrow> event_ok e) \<Longrightarrow> suspend_inv strict (suspend_step s e)"
  using prepare_inv resume_inv
  by (cases e)
    (auto simp: elsewhere_inv getGatewaySuspendStatus_def Let_def settleExpired_inv entryTimerFires_def resumeAndReopen_inv
      split: option.split)

lemma suspend_run_inv: "(strict \<longrightarrow> list_all event_ok es) \<Longrightarrow> suspend_inv strict (foldl suspend_step initial_suspend es)"
proof (induction es rule: rev_induct)
  case Nil
  show ?case by (simp add: suspend_inv_def owners_bound_def initial_suspend_def initial_admission_def)
qed (simp add: suspend_step_inv)

section \<open>Properties\<close>

definition works :: callback where "works = \<lparr>cbOps = [], cbThrows = False\<rparr>"
definition fails :: callback where "fails = \<lparr>cbOps = [], cbThrows = True\<rparr>"

text \<open>
  C8. The gate is closed by a suspension only while the coordinator has it in hand: after any history of preparations,
  status queries, resumes, timers and admission changes made elsewhere, a gate that a suspension closes belongs to the
  coordinator's entry, whose lease is the gate's current generation, whose phase is the gate's and whose timer is armed,
  and no new root work is admitted. An entry beside an open gate is a recovery whose lease was already
  invalidated. And unless a scheduler callback both changed the admission and threw while a preparation rolled back
  (\<open>event_ok\<close>), there is no such entry: the gate is closed exactly when there is an entry, and as long as no lease was
  invalidated the scheduler is paused exactly as long.
\<close>

theorem suspension_matches_gate:
  assumes "s = foldl suspend_step initial_suspend es"
  shows "(suspendPhase (fence s) \<noteq> Accepting \<longrightarrow>
      tryBeginGatewayIndependentRootWorkAdmission (fence s) = (Refused, fence s) \<and>
      (\<exists>e. holder s = Some e \<and> suspendGeneration (fence s) = seLease e \<and>
         suspendPhase (fence s) = (if seCommitted e then Prepared else Preparing) \<and> seTimer e \<noteq> None)) \<and>
    (\<forall>e. suspendPhase (fence s) = Accepting \<and> holder s = Some e \<longrightarrow>
       seKind e = Recovering \<and> seOwner e \<in> set (invokedCallbacks (fence s))) \<and>
    (list_all event_ok es \<longrightarrow>
       (suspendPhase (fence s) = Accepting \<longleftrightarrow> holder s = None) \<and>
       (invokedCallbacks (fence s) = [] \<longrightarrow> paused s = (holder s \<noteq> None)))"
proof (intro conjI impI allI)
  have inv: "suspend_inv False s" unfolding assms(1) by (rule suspend_run_inv) simp
  {
    assume closed: "suspendPhase (fence s) \<noteq> Accepting"
    then show "tryBeginGatewayIndependentRootWorkAdmission (fence s) = (Refused, fence s)"
      by (simp add: tryBeginGatewayIndependentRootWorkAdmission_def)
    obtain e where e: "holder s = Some e" using inv closed by (cases "holder s") (auto simp: suspend_inv_def)
    moreover have "entry_ok s e" using inv closed e by (auto simp: suspend_inv_def dead_entry_def)
    ultimately show "\<exists>e. holder s = Some e \<and> suspendGeneration (fence s) = seLease e \<and>
        suspendPhase (fence s) = (if seCommitted e then Prepared else Preparing) \<and> seTimer e \<noteq> None"
      by (auto simp: entry_ok_def gate_held_def)
  }
  fix e assume e: "suspendPhase (fence s) = Accepting \<and> holder s = Some e"
  then have "\<not> entry_ok s e" using gate_held_closed by (auto simp: entry_ok_def)
  then have "dead_entry s e" using inv e by (auto simp: suspend_inv_def)
  then show "seKind e = Recovering" "seOwner e \<in> set (invokedCallbacks (fence s))"
    by (simp_all add: dead_entry_def)
next
  assume ok: "list_all event_ok es"
  have inv: "suspend_inv True s" unfolding assms(1) using ok by (intro suspend_run_inv) simp
  show "suspendPhase (fence s) = Accepting \<longleftrightarrow> holder s = None"
    using inv gate_held_closed by (cases "holder s") (auto simp: suspend_inv_def entry_ok_def)
  show "paused s = (holder s \<noteq> None)" if "invokedCallbacks (fence s) = []"
    using inv that by (simp add: suspend_inv_def)
qed

text \<open>
  C34. A gate that a suspension closes is never left closed without a way out: after any history, the coordinator
  has an entry for it whose timer is armed. When that timer fires and the scheduler resumes, the gate is open, the scheduler runs, the
  coordinator is clear and every root that waited for the gate is answered, in order; when the scheduler fails to
  resume, the gate stays closed for the same lease and the next attempt is due a second later.
\<close>

theorem suspension_always_ends:
  assumes "s = foldl suspend_step initial_suspend es" and "suspendPhase (fence s) \<noteq> Accepting"
  shows "\<exists>e. holder s = Some e \<and> seTimer e \<noteq> None \<and>
    (let t = entryTimerFires s (seId e) works now; u = entryTimerFires s (seId e) fails now in
     holder t = None \<and> suspendPhase (fence t) = Accepting \<and> \<not> paused t \<and> suspendOpenWaiters (fence t) = [] \<and>
     resolvedWaiters (fence t) = resolvedWaiters (fence s) @ suspendOpenWaiters (fence s) \<and>
     (\<exists>r. holder u = Some r \<and> seKind r = Recovering \<and> seTimer r = Some (now + 1000) \<and> seLease r = seLease e \<and>
        fence u = fence s))"
proof -
  have inv: "suspend_inv False s" unfolding assms(1) by (rule suspend_run_inv) simp
  obtain e where e: "holder s = Some e" using inv assms(2) by (cases "holder s") (auto simp: suspend_inv_def)
  have ok: "entry_ok s e" using inv assms(2) e by (auto simp: suspend_inv_def dead_entry_def)
  from reopened_inv [OF inv e ok] obtain t where
    "reopenAdmission (s\<lparr>paused := False\<rparr>) (seLease e) (seCommitted e) = (True, t)" "suspendPhase (fence t) = Accepting"
    "\<not> paused t" "suspendOpenWaiters (fence t) = []"
    "resolvedWaiters (fence t) = resolvedWaiters (fence s) @ suspendOpenWaiters (fence s)" by blast
  moreover have "seTimer e \<noteq> None" using ok by (simp add: entry_ok_def)
  ultimately show ?thesis using e
    by (simp add: entryTimerFires_def resumeAndReopen_def callResume_def works_def fails_def isCurrent_def
        enterSchedulerRecovery_def scheduleRecoveryRetry_def GATEWAY_SCHEDULER_RECOVERY_RETRY_MS_def Let_def)
qed

text \<open>
  Only one host holds the gate: while a lease has not expired, a preparation of another request
  is refused with the expiry and changes nothing, the same request gets the same suspension with a
  renewed lease, and a resume that names another suspension changes nothing.
\<close>

theorem suspension_is_exclusive:
  assumes "holder s = Some e" and "seKind e = Held req sid expires snap"
    and "pcEntryNow c < expires" and "now < expires"
  shows "(pcRequest c \<noteq> req \<longrightarrow> prepareGatewaySuspend s c = (PrepareConflict expires, s)) \<and>
    (pcRequest c = req \<longrightarrow> (\<exists>t. prepareGatewaySuspend s c =
       (PrepareReady sid (pcNow c + 120000) (totalActive (counts snap)) (blockers snap), t) \<and>
       fence t = fence s \<and> map_option seTimer (holder t) = Some (Some (pcNow c + 120000)))) \<and>
    (other \<noteq> sid \<longrightarrow> resumeGatewaySuspend s other cb1 cb2 now = (SuspensionMismatch, s))"
  using assms
  by (simp add: prepareGatewaySuspend_def resumeGatewaySuspend_def settleExpired_def
      normalizeExpiredHeldSuspension_def Let_def GATEWAY_SUSPEND_TTL_MS_def)

definition quiet_call :: "string \<Rightarrow> int \<Rightarrow> prepare_call" where
  "quiet_call req now = \<lparr>pcRequest = req, pcNow = now, pcEntryNow = now, pcPause = works, pcResume = works,
     pcExpired = works, pcInspect = Some quiet, pcSuspension = Some ''s1''\<rparr>"

definition one_host :: "suspend_event list" where "one_host = [Prepare (quiet_call ''host'' 1000)]"

definition held_entry :: suspend_entry where
  "held_entry = \<lparr>seId = 0, seOwner = 0, seLease = 1, seCommitted = True,
     seKind = Held ''host'' ''s1'' 121000 (createGatewayActiveWorkSnapshot quiet), seTimer = Some 121000\<rparr>"

lemma sample_suspension:
  "list_all event_ok one_host"
  "holder (foldl suspend_step initial_suspend one_host) = Some held_entry"
  by (simp add: one_host_def quiet_call_def works_def) code_simp

lemma suspension_matches_gate_witness:
  "suspendPhase (fence (foldl suspend_step initial_suspend one_host)) \<noteq> Accepting
   \<and> paused (foldl suspend_step initial_suspend one_host)"
proof -
  have "invokedCallbacks (fence (foldl suspend_step initial_suspend one_host)) = []" by code_simp
  then show ?thesis using suspension_matches_gate [OF refl, of one_host] sample_suspension by simp
qed

lemma suspension_always_ends_witness:
  "holder (entryTimerFires (foldl suspend_step initial_suspend one_host) 0 works 121000) = None"
proof -
  have "suspendPhase (fence (foldl suspend_step initial_suspend one_host)) \<noteq> Accepting" by code_simp
  from suspension_always_ends [OF refl this, of 121000] show ?thesis
    using sample_suspension(2) by (auto simp: held_entry_def Let_def)
qed

lemma suspension_is_exclusive_witness:
  "fst (prepareGatewaySuspend (foldl suspend_step initial_suspend one_host) (quiet_call ''other'' 2000))
     = PrepareConflict 121000"
  using suspension_is_exclusive [OF sample_suspension(2), of "''host''" "''s1''" 121000 _ "quiet_call ''other'' 2000" 2000]
  by (simp add: held_entry_def quiet_call_def)

text \<open>
  The one hole: a scheduler callback that ends the suspension and then throws, during the rollback of a
  busy preparation, leaves a recovery entry for a lease that can never reopen the gate. The gate is open, and
  every later preparation is told to wait for a recovery whose timer fails for ever.
\<close>

definition hole_call :: prepare_call where
  "hole_call = (quiet_call ''host'' 1000)\<lparr>pcInspect := Some (quiet\<lparr>getQueueSize := JFin 1\<rparr>),
     pcResume := \<lparr>cbOps = [Reset], cbThrows = True\<rparr>\<rparr>"

lemma dead_recovery:
  "let s = foldl suspend_step initial_suspend [Prepare hole_call, EntryTimer 0 works 2000, EntryTimer 0 works 3000] in
     suspendPhase (fence s) = Accepting \<and> map_option seKind (holder s) = Some Recovering \<and>
     fst (prepareGatewaySuspend s (quiet_call ''host'' 4000)) = PrepareRecovering"
  by code_simp

end
