(* ===== verification/RateLimits.thy ===== *)
theory RateLimits
  imports NumberCoercion
begin

text \<open>
  \<^verbatim>\<open>src/infra/fixed-window-rate-limit.ts\<close> and \<^verbatim>\<open>src/gateway/control-plane-rate-limit.ts\<close>: the
  fixed-window counter shared by gateway, ACP and webhook ingress, and the per-client write
  budget of the control plane. Both are instances of one interface, a window budget, in which
  the bounds are proved once.
\<close>

section \<open>The interface: a budget per window\<close>

text \<open>How many of a sequence of requests, at these clock readings, are granted.\<close>

fun granted :: "('s \<Rightarrow> int \<Rightarrow> bool \<times> 's) \<Rightarrow> 's \<Rightarrow> int list \<Rightarrow> nat" where
  "granted consume s [] = 0"
| "granted consume s (t # ts) =
     (if fst (consume s t) then 1 else 0) + granted consume (snd (consume s t)) ts"

locale window_budget =
  fixes consume :: "'s \<Rightarrow> int \<Rightarrow> bool \<times> 's"
    and used :: "'s \<Rightarrow> nat"
    and start :: "'s \<Rightarrow> int"
    and ok :: "'s \<Rightarrow> bool"
    and limit :: nat
    and window :: int
  assumes limit_pos: "0 < limit"
    and consume_ok: "ok s \<Longrightarrow> ok (snd (consume s now))"
    and renew: "ok s \<Longrightarrow> window \<le> now - start s \<Longrightarrow>
      fst (consume s now) \<and> used (snd (consume s now)) = 1 \<and> start (snd (consume s now)) = now"
    and grant: "ok s \<Longrightarrow> now - start s < window \<Longrightarrow> used s < limit \<Longrightarrow>
      fst (consume s now) \<and> used (snd (consume s now)) = Suc (used s)
      \<and> start (snd (consume s now)) = start s"
    and refuse: "ok s \<Longrightarrow> now - start s < window \<Longrightarrow> limit \<le> used s \<Longrightarrow>
      \<not> fst (consume s now) \<and> used (snd (consume s now)) = used s
      \<and> start (snd (consume s now)) = start s"
begin

lemma granted_same_window:
  "ok s \<Longrightarrow> \<forall>t \<in> set ts. t - start s < window \<Longrightarrow> granted consume s ts \<le> limit - used s"
proof (induction ts arbitrary: s)
  case (Cons t ts)
  have t: "t - start s < window" using Cons.prems by simp
  show ?case
  proof (cases "used s < limit")
    case True
    with Cons grant [OF Cons.prems(1) t True] show ?thesis
      using Cons.IH [of "snd (consume s t)"] consume_ok [OF Cons.prems(1), of t] by auto
  next
    case False
    with Cons refuse [OF Cons.prems(1) t] show ?thesis
      using Cons.IH [of "snd (consume s t)"] consume_ok [OF Cons.prems(1), of t] by auto
  qed
qed simp

lemma granted_span:
  "ok s \<Longrightarrow> \<forall>t \<in> set ts. t0 \<le> t \<and> t < t0 + window \<Longrightarrow> granted consume s ts \<le> (limit - used s) + limit"
proof (induction ts arbitrary: s)
  case (Cons t ts)
  let ?s' = "snd (consume s t)"
  note ok' = consume_ok [OF Cons.prems(1), of t]
  show ?case
  proof (cases "window \<le> t - start s")
    case True
    note r = renew [OF Cons.prems(1) True]
    have "granted consume ?s' ts \<le> limit - used ?s'"
      using Cons.prems r by (intro granted_same_window [OF ok']) force
    with r limit_pos show ?thesis by simp
  next
    case False
    then have "fst (consume s t) \<and> used s < limit \<and> used ?s' = Suc (used s)
        \<or> \<not> fst (consume s t) \<and> used ?s' = used s"
      using grant [OF Cons.prems(1), of t] refuse [OF Cons.prems(1), of t] by force
    with Cons.IH [OF ok'] Cons.prems show ?thesis by auto
  qed
qed simp

lemma granted_span_double:
  "ok s \<Longrightarrow> \<forall>t \<in> set ts. t0 \<le> t \<and> t < t0 + window \<Longrightarrow> granted consume s ts \<le> 2 * limit"
  using granted_span [of s ts t0] by linarith

lemma retry_granted:
  "ok s \<Longrightarrow> \<not> fst (consume s now) \<Longrightarrow> start s + window \<le> later \<Longrightarrow>
     fst (consume (snd (consume s now)) later)"
  using refuse [of s now] grant [of s now] renew [of s now]
    renew [of "snd (consume s now)" later] consume_ok [of s now]
  by (cases "window \<le> now - start s"; cases "used s < limit") auto

end

section \<open>The fixed-window limiter\<close>

definition resolveFixedWindowRateLimitInteger :: "jsnum option \<Rightarrow> rat \<Rightarrow> int \<Rightarrow> int" where
  "resolveFixedWindowRateLimitInteger v fallback mn =
     (let candidate = (case v of Some (JFin q) \<Rightarrow> q | _ \<Rightarrow> fallback)
      in max mn \<lfloor>candidate\<rfloor>)"

record fixed_window =
  fw_maxRequests :: int
  fw_windowMs :: int
  fw_count :: nat
  fw_windowStartMs :: int

record consume_result =
  cr_allowed :: bool
  cr_retryAfterMs :: int
  cr_remaining :: int

definition createFixedWindowRateLimiter :: "jsnum \<Rightarrow> jsnum \<Rightarrow> fixed_window" where
  "createFixedWindowRateLimiter maxRequests windowMs =
     \<lparr>fw_maxRequests = resolveFixedWindowRateLimitInteger (Some maxRequests) 1 1,
      fw_windowMs = resolveFixedWindowRateLimitInteger (Some windowMs) 1 1,
      fw_count = 0, fw_windowStartMs = 0\<rparr>"

definition fw_consume :: "fixed_window \<Rightarrow> int \<Rightarrow> consume_result \<times> fixed_window" where
  "fw_consume s nowMs =
     (let s1 = (if nowMs - fw_windowStartMs s \<ge> fw_windowMs s
                then s\<lparr>fw_windowStartMs := nowMs, fw_count := 0\<rparr> else s)
      in if int (fw_count s1) \<ge> fw_maxRequests s1
         then (\<lparr>cr_allowed = False,
                cr_retryAfterMs = max 0 (fw_windowStartMs s1 + fw_windowMs s1 - nowMs),
                cr_remaining = 0\<rparr>, s1)
         else (let s2 = s1\<lparr>fw_count := fw_count s1 + 1\<rparr>
               in (\<lparr>cr_allowed = True, cr_retryAfterMs = 0,
                    cr_remaining = max 0 (fw_maxRequests s2 - int (fw_count s2))\<rparr>, s2)))"

definition fw_reset :: "fixed_window \<Rightarrow> fixed_window" where
  "fw_reset s = s\<lparr>fw_count := 0, fw_windowStartMs := 0\<rparr>"

definition fw_wf :: "int \<Rightarrow> int \<Rightarrow> fixed_window \<Rightarrow> bool" where
  "fw_wf mx w s \<longleftrightarrow> fw_maxRequests s = mx \<and> fw_windowMs s = w \<and> 1 \<le> mx \<and> 1 \<le> w"

abbreviation fw_take :: "fixed_window \<Rightarrow> int \<Rightarrow> bool \<times> fixed_window" where
  "fw_take s now \<equiv> (cr_allowed (fst (fw_consume s now)), snd (fw_consume s now))"

interpretation fw: window_budget
    fw_take fw_count fw_windowStartMs "fw_wf (int (Suc n)) w" "Suc n" w for n w
  by unfold_locales (auto simp: fw_consume_def fw_wf_def Let_def)

lemma createFixedWindow_wf:
  "\<exists>n w. fw_wf (int (Suc n)) w (createFixedWindowRateLimiter a b)"
proof -
  let ?m = "resolveFixedWindowRateLimitInteger (Some a) 1 1"
  have "1 \<le> ?m" by (simp add: resolveFixedWindowRateLimitInteger_def Let_def)
  then have "?m = int (Suc (nat (?m - 1)))" by simp
  then show ?thesis
    by (intro exI [of _ "nat (?m - 1)"])
      (auto simp: fw_wf_def createFixedWindowRateLimiter_def resolveFixedWindowRateLimitInteger_def Let_def)
qed

section \<open>The control-plane write budget\<close>

definition MAX_REQUESTS :: nat where "MAX_REQUESTS = 3"
definition WINDOW_MS :: int where "WINDOW_MS = 60000"
definition BUCKET_MAX_STALE_MS :: int where "BUCKET_MAX_STALE_MS = 5 * 60000"
definition BUCKET_MAX_ENTRIES :: nat where "BUCKET_MAX_ENTRIES = 10000"

record bucket =
  bk_count :: nat
  bk_windowStartMs :: int

type_synonym buckets = "(string, bucket) jsmap"

record gateway_client =
  gc_deviceId :: "string option"
  gc_clientIp :: "string option"
  gc_connId :: "string option"

definition normalizeControlPlaneIdentityPart :: "string option \<Rightarrow> string \<Rightarrow> string" where
  "normalizeControlPlaneIdentityPart v fallback =
     (case v of
        None \<Rightarrow> fallback
      | Some s \<Rightarrow> (let t = js_trim s in if t = [] then fallback else t))"

definition resolveControlPlaneRateLimitKey :: "gateway_client option \<Rightarrow> string" where
  "resolveControlPlaneRateLimitKey client =
     (let deviceId = normalizeControlPlaneIdentityPart
            (Option.bind client gc_deviceId) ''unknown-device'';
          clientIp = normalizeControlPlaneIdentityPart
            (Option.bind client gc_clientIp) ''unknown-ip'';
          connId = normalizeControlPlaneIdentityPart (Option.bind client gc_connId) ''''
      in if deviceId = ''unknown-device'' \<and> clientIp = ''unknown-ip'' \<and> connId \<noteq> ''''
         then deviceId @ ''|'' @ clientIp @ ''|conn='' @ connId
         else deviceId @ ''|'' @ clientIp)"

definition consumeBucket :: "buckets \<Rightarrow> string \<Rightarrow> int \<Rightarrow> consume_result \<times> buckets" where
  "consumeBucket bs key nowMs =
     (case jm_get bs key of
        Some b \<Rightarrow>
          if nowMs - bk_windowStartMs b \<ge> WINDOW_MS then
            (\<lparr>cr_allowed = True, cr_retryAfterMs = 0, cr_remaining = int MAX_REQUESTS - 1\<rparr>,
             jm_set key \<lparr>bk_count = 1, bk_windowStartMs = nowMs\<rparr> bs)
          else if bk_count b \<ge> MAX_REQUESTS then
            (\<lparr>cr_allowed = False,
              cr_retryAfterMs = max 0 (bk_windowStartMs b + WINDOW_MS - nowMs),
              cr_remaining = 0\<rparr>, bs)
          else
            (\<lparr>cr_allowed = True, cr_retryAfterMs = 0,
              cr_remaining = max 0 (int MAX_REQUESTS - int (bk_count b + 1))\<rparr>,
             jm_set key (b\<lparr>bk_count := bk_count b + 1\<rparr>) bs)
      | None \<Rightarrow>
          (let bs1 = (if length bs \<ge> BUCKET_MAX_ENTRIES
                      then (case bs of [] \<Rightarrow> bs | (oldest, _) # _ \<Rightarrow> jm_del oldest bs)
                      else bs)
           in (\<lparr>cr_allowed = True, cr_retryAfterMs = 0, cr_remaining = int MAX_REQUESTS - 1\<rparr>,
               jm_set key \<lparr>bk_count = 1, bk_windowStartMs = nowMs\<rparr> bs1)))"

definition consumeControlPlaneWriteBudget ::
    "buckets \<Rightarrow> gateway_client option \<Rightarrow> int \<Rightarrow> consume_result \<times> buckets" where
  "consumeControlPlaneWriteBudget bs client nowMs =
     consumeBucket bs (resolveControlPlaneRateLimitKey client) nowMs"

definition pruneStaleControlPlaneBuckets :: "buckets \<Rightarrow> int \<Rightarrow> nat \<times> buckets" where
  "pruneStaleControlPlaneBuckets bs nowMs =
     (let stale = (\<lambda>(_ :: string, b). nowMs - bk_windowStartMs b > BUCKET_MAX_STALE_MS)
      in (length (filter stale bs), filter (\<lambda>e. \<not> stale e) bs))"

datatype bucket_op = Consume "gateway_client option" int | PruneStale int

fun bucket_step :: "buckets \<Rightarrow> bucket_op \<Rightarrow> buckets" where
  "bucket_step bs (Consume c t) = snd (consumeControlPlaneWriteBudget bs c t)"
| "bucket_step bs (PruneStale t) = snd (pruneStaleControlPlaneBuckets bs t)"

definition buckets_inv :: "buckets \<Rightarrow> bool" where
  "buckets_inv bs \<longleftrightarrow> jm_wf bs \<and> length bs \<le> BUCKET_MAX_ENTRIES
     \<and> (\<forall>e \<in> set bs. 1 \<le> bk_count (snd e) \<and> bk_count (snd e) \<le> MAX_REQUESTS)"

abbreviation cp_take :: "string \<Rightarrow> buckets \<Rightarrow> int \<Rightarrow> bool \<times> buckets" where
  "cp_take key bs now \<equiv> (cr_allowed (fst (consumeBucket bs key now)), snd (consumeBucket bs key now))"

interpretation cp: window_budget "cp_take key"
    "\<lambda>bs. case jm_get bs key of Some b \<Rightarrow> bk_count b | None \<Rightarrow> 0"
    "\<lambda>bs. case jm_get bs key of Some b \<Rightarrow> bk_windowStartMs b | None \<Rightarrow> 0"
    "\<lambda>bs. jm_get bs key \<noteq> None" MAX_REQUESTS WINDOW_MS for key
  by unfold_locales
    (auto simp: consumeBucket_def MAX_REQUESTS_def WINDOW_MS_def split: option.splits)

abbreviation bucket_ok :: "string \<Rightarrow> bucket \<Rightarrow> bool" where
  "bucket_ok _ b \<equiv> 1 \<le> bk_count b \<and> bk_count b \<le> MAX_REQUESTS"

lemma evict_room:
  "jm_wf bs \<Longrightarrow> length bs \<le> n \<Longrightarrow> 0 < n \<Longrightarrow>
     length (if length bs \<ge> n then (case bs of [] \<Rightarrow> bs | (oldest, _) # _ \<Rightarrow> jm_del oldest bs) else bs) < n"
  using length_jm_del_le [of "fst (hd bs)" "tl bs"] by (auto split: list.splits)

lemma consumeBucket_inv:
  assumes inv: "buckets_inv bs"
  shows "buckets_inv (snd (consumeBucket bs key now))"
proof (cases "jm_get bs key")
  case None
  define bs1 where "bs1 = (if length bs \<ge> BUCKET_MAX_ENTRIES
      then (case bs of [] \<Rightarrow> bs | (oldest, _) # _ \<Rightarrow> jm_del oldest bs) else bs)"
  let ?b = "\<lparr>bk_count = 1, bk_windowStartMs = now\<rparr>"
  have "length bs1 < BUCKET_MAX_ENTRIES"
    using inv unfolding bs1_def buckets_inv_def
    by (intro evict_room) (auto simp: BUCKET_MAX_ENTRIES_def)
  moreover have "jm_wf bs1" and "set bs1 \<subseteq> set bs"
    using inv by (auto simp: bs1_def buckets_inv_def set_jm_del split: list.splits)
  moreover from this(2) have "\<forall>e \<in> set bs1. bucket_ok (fst e) (snd e)"
    using inv by (auto simp: buckets_inv_def)
  ultimately have "buckets_inv (jm_set key ?b bs1)"
    using length_jm_set_le [of key ?b bs1] ball_jm_set [of bs1 bucket_ok key ?b]
    by (simp add: buckets_inv_def MAX_REQUESTS_def)
  then show ?thesis
    using None by (simp add: consumeBucket_def Let_def bs1_def)
next
  case (Some b)
  then have b: "bucket_ok key b"
    using inv jm_get_mem [OF Some] by (auto simp: buckets_inv_def)
  have "buckets_inv (jm_set key c bs)" if "bucket_ok key c" for c
    using inv that ball_jm_set [of bs bucket_ok key c] length_jm_set_present [OF Some, of c]
    by (simp add: buckets_inv_def)
  with Some b inv show ?thesis
    by (auto simp: consumeBucket_def MAX_REQUESTS_def)
qed

lemma prune_inv: "buckets_inv bs \<Longrightarrow> buckets_inv (snd (pruneStaleControlPlaneBuckets bs t))"
  by (auto simp: pruneStaleControlPlaneBuckets_def buckets_inv_def Let_def
      intro: le_trans [OF length_filter_le])

lemma consumeBucket_frame:
  assumes "key' \<noteq> key" and "length bs < BUCKET_MAX_ENTRIES"
  shows "jm_get (snd (consumeBucket bs key now)) key' = jm_get bs key'"
  using assms by (auto simp: consumeBucket_def Let_def split: option.splits)

interpretation cpm: machine bucket_step "[]" buckets_inv
proof unfold_locales
  fix s e assume "buckets_inv s"
  then show "buckets_inv (bucket_step s e)"
    by (cases e) (auto simp: consumeControlPlaneWriteBudget_def consumeBucket_inv prune_inv)
qed (simp add: buckets_inv_def)

section \<open>Properties\<close>

text \<open>
  A fixed-window limiter built from any configuration grants at most twice its quota in any
  span of time shorter than its window, whatever the limiter did before and in whatever order the
  clock readings come.
\<close>

theorem fixed_window_span_bound:
  assumes "fw_wf (int (Suc n)) w s" and "\<forall>t \<in> set ts. t0 \<le> t \<and> t < t0 + w"
  shows "granted fw_take s ts \<le> 2 * Suc n"
  by (rule fw.granted_span_double [OF assms])

theorem fixed_window_span_bound_witness:
  "granted fw_take
     \<lparr>fw_maxRequests = 1, fw_windowMs = 10, fw_count = 0, fw_windowStartMs = 0\<rparr> [8, 9, 12, 13, 17] \<le> 2"
  (is "granted _ ?s ?ts \<le> 2")
proof -
  have "fw_wf (int (Suc 0)) 10 ?s" by (simp add: fw_wf_def)
  from fixed_window_span_bound [OF this, of ?ts 8] show ?thesis by simp
qed

text \<open>
  When the limiter refuses, waiting exactly the delay it reports is enough: the delay is
  positive and the next request after it is granted.
\<close>

theorem fixed_window_retry:
  assumes "fw_wf mx w s" and "\<not> cr_allowed (fst (fw_consume s now))"
  shows "0 < cr_retryAfterMs (fst (fw_consume s now)) \<and>
    cr_allowed (fst (fw_consume (snd (fw_consume s now))
                      (now + cr_retryAfterMs (fst (fw_consume s now)))))"
  using assms by (auto simp: fw_consume_def fw_wf_def Let_def split: if_splits)

theorem fixed_window_retry_witness:
  "cr_retryAfterMs (fst (fw_consume
     \<lparr>fw_maxRequests = 1, fw_windowMs = 10, fw_count = 1, fw_windowStartMs = 3\<rparr> 8)) = 5 \<and>
   cr_allowed (fst (fw_consume (snd (fw_consume
     \<lparr>fw_maxRequests = 1, fw_windowMs = 10, fw_count = 1, fw_windowStartMs = 3\<rparr> 8)) 13))"
  (is "cr_retryAfterMs (fst (fw_consume ?s 8)) = 5 \<and> _")
proof -
  have wf: "fw_wf 1 10 ?s" by (simp add: fw_wf_def)
  have no: "\<not> cr_allowed (fst (fw_consume ?s 8))" and r: "cr_retryAfterMs (fst (fw_consume ?s 8)) = 5"
    by (simp_all add: fw_consume_def Let_def)
  show ?thesis using fixed_window_retry [OF wf no] r by simp
qed

text \<open>
  The control-plane buckets never exceed their hard cap, whatever clients call and
  however the maintenance sweep interleaves, and every bucket's count stays within the quota.
\<close>

theorem control_plane_buckets_bounded:
  "let bs = foldl bucket_step [] ops in
     jm_wf bs \<and> length bs \<le> BUCKET_MAX_ENTRIES \<and>
     (\<forall>key b. jm_get bs key = Some b \<longrightarrow> 1 \<le> bk_count b \<and> bk_count b \<le> MAX_REQUESTS)"
  using cpm.run_inv [of ops] by (auto simp: buckets_inv_def Let_def dest!: jm_get_mem)

theorem control_plane_buckets_bounded_witness:
  "length (foldl bucket_step [] [Consume None 5, PruneStale 7]) \<le> BUCKET_MAX_ENTRIES"
  using control_plane_buckets_bounded [of "[Consume None 5, PruneStale 7]"] by (simp add: Let_def)

text \<open>
  One client with a bucket gets at most six control-plane writes through in any span of
  less than a minute, and another client's writes leave its bucket untouched while the table has
  room.
\<close>

theorem control_plane_client_rate:
  assumes "jm_get bs key \<noteq> None" and "\<forall>t \<in> set ts. t0 \<le> t \<and> t < t0 + WINDOW_MS"
  shows "granted (cp_take key) bs ts \<le> 6 \<and>
    (key' \<noteq> key \<and> length bs < BUCKET_MAX_ENTRIES \<longrightarrow>
       jm_get (snd (consumeBucket bs key' now)) key = jm_get bs key)"
  using cp.granted_span_double [OF assms] consumeBucket_frame [of key key' bs now]
  by (auto simp: MAX_REQUESTS_def)

theorem control_plane_client_rate_witness:
  "granted (cp_take ''d|ip'') [(''d|ip'', \<lparr>bk_count = 1, bk_windowStartMs = 0\<rparr>)]
     [10, 20, 30] \<le> 6"
proof -
  have a: "jm_get [(''d|ip'', \<lparr>bk_count = 1, bk_windowStartMs = 0\<rparr>)] ''d|ip'' \<noteq> None"
    and b: "\<forall>t \<in> set [10, 20, 30]. 10 \<le> t \<and> t < 10 + WINDOW_MS"
    by (simp_all add: WINDOW_MS_def)
  from control_plane_client_rate [OF a b] show ?thesis by simp
qed

end
