(* ===== verification/GatewayRequest.thy ===== *)
theory GatewayRequest
  imports MethodAuth RateLimits GatewayAdmission
begin

text \<open>
  One request to the gateway, from \<^verbatim>\<open>src/gateway/server-methods.ts\<close>: the table of core handlers, the registry
  built for a request, and \<^verbatim>\<open>handleGatewayRequest\<close> with its guards in their order. A handler, and whatever else
  happens in the process until it has settled, is a function on the process state: the argument \<open>run\<close> of the
  definitions below.
\<close>

section \<open>The core handlers\<close>

text \<open>Each family names the loader of its module; the number of a handler is the number of its family.\<close>

definition coreHandlerFamilies :: "(string \<times> string list) list" where
  "coreHandlerFamilies =
    [ (''loadConnectHandlers'', [''connect'']),
      (''loadAttachHandlers'', [''attach.grant'', ''attach.revoke'']),
      (''loadLogsHandlers'', [''logs.tail'']),
      (''loadTerminalHandlers'', [''terminal.open'', ''terminal.input'', ''terminal.resize'', ''terminal.close'', ''terminal.attach'', ''terminal.list'', ''terminal.text'']),
      (''loadVoicewakeHandlers'', [''voicewake.get'', ''voicewake.set'']),
      (''loadVoicewakeRoutingHandlers'', [''voicewake.routing.get'', ''voicewake.routing.set'']),
      (''loadHealthHandlers'', [''health'', ''status'']),
      (''loadChannelsHandlers'', [''channels.status'', ''channels.start'', ''channels.stop'', ''channels.logout'']),
      (''loadChatHandlers'', [''chat.history'', ''chat.startup'', ''chat.metadata'', ''chat.message.get'', ''chat.toolTitles'', ''chat.abort'', ''chat.send'', ''chat.inject'']),
      (''loadCommandsHandlers'', [''commands.list'']),
      (''loadCronHandlers'', [''wake'', ''cron.list'', ''cron.status'', ''cron.get'', ''cron.add'', ''cron.update'', ''cron.remove'', ''cron.run'', ''cron.runs'']),
      (''loadDeviceHandlers'', [''device.pair.list'', ''device.pair.approve'', ''device.pair.reject'', ''device.pair.remove'', ''device.pair.rename'', ''device.token.rotate'', ''device.token.revoke'']),
      (''loadDevicePairSetupHandlers'', [''device.pair.setupCode'']),
      (''loadDiagnosticsHandlers'', [''diagnostics.stability'']),
      (''loadControlUiHandlers'', [''controlUi.githubPreview'', ''controlUi.sessionPullRequests'']),
      (''loadDoctorHandlers'', [''doctor.memory.status'', ''doctor.memory.dreamDiary'', ''doctor.memory.backfillDreamDiary'', ''doctor.memory.resetDreamDiary'', ''doctor.memory.resetGroundedShortTerm'', ''doctor.memory.repairDreamingArtifacts'', ''doctor.memory.dedupeDreamDiary'', ''doctor.memory.remHarness'']),
      (''loadEnvironmentsHandlers'', [''environments.list'', ''environments.status'', ''environments.create'', ''environments.destroy'']),
      (''loadWorktreesHandlers'', [''worktrees.list'', ''worktrees.branches'', ''worktrees.create'', ''worktrees.remove'', ''worktrees.restore'', ''worktrees.gc'']),
      (''loadExecApprovalsHandlers'', [''exec.approvals.get'', ''exec.approvals.set'', ''exec.approvals.node.get'', ''exec.approvals.node.set'']),
      (''loadFsHandlers'', [''fs.listDir'']),
      (''loadWebHandlers'', [''web.login.start'', ''web.login.wait'']),
      (''loadModelsHandlers'', [''models.list'']),
      (''loadModelsAuthStatusHandlers'', [''models.authLogout'', ''models.authStatus'']),
      (''loadNativeHookRelayHandlers'', [''nativeHook.invoke'']),
      (''loadPluginHostHookHandlers'', [''plugins.uiDescriptors'', ''plugins.sessionAction'']),
      (''loadPluginsHandlers'', [''plugins.list'', ''plugins.search'', ''plugins.install'', ''plugins.setEnabled'', ''plugins.uninstall'']),
      (''loadConfigHandlers'', [''config.get'', ''config.schema'', ''config.schema.lookup'', ''config.set'', ''config.patch'', ''config.apply'', ''config.openFile'']),
      (''loadWizardHandlers'', [''wizard.start'', ''wizard.next'', ''wizard.cancel'', ''wizard.status'']),
      (''loadCrestodianHandlers'', [''crestodian.chat'', ''crestodian.setup.detect'', ''crestodian.setup.verify'', ''crestodian.setup.activate'', ''crestodian.setup.auth.start'']),
      (''loadTalkHandlers'', [''talk.session.create'', ''talk.session.join'', ''talk.session.appendAudio'', ''talk.session.startTurn'', ''talk.session.endTurn'', ''talk.session.cancelTurn'', ''talk.session.cancelOutput'', ''talk.session.acknowledgeMark'', ''talk.session.submitToolResult'', ''talk.session.steer'', ''talk.session.close'', ''talk.client.create'', ''talk.client.toolCall'', ''talk.client.steer'', ''talk.catalog'', ''talk.config'', ''talk.speak'', ''talk.mode'']),
      (''loadAuditHandlers'', [''audit.list'', ''audit.activity.list'']),
      (''loadTasksHandlers'', [''tasks.list'', ''tasks.get'', ''tasks.cancel'']),
      (''loadTaskSuggestionsHandlers'', [''taskSuggestions.list'', ''taskSuggestions.create'', ''taskSuggestions.accept'', ''taskSuggestions.dismiss'']),
      (''loadToolsCatalogHandlers'', [''tools.catalog'']),
      (''loadToolsEffectiveHandlers'', [''tools.effective'']),
      (''loadToolsInvokeHandlers'', [''tools.invoke'']),
      (''loadMcpAppHandlers'', [''mcp.app.view'', ''mcp.app.callTool'', ''mcp.app.listTools'', ''mcp.app.listResources'', ''mcp.app.listResourceTemplates'', ''mcp.app.readResource'']),
      (''loadTtsHandlers'', [''tts.status'', ''tts.enable'', ''tts.disable'', ''tts.convert'', ''tts.speak'', ''tts.setProvider'', ''tts.personas'', ''tts.setPersona'', ''tts.providers'']),
      (''loadSkillsHandlers'', [''skills.upload.begin'', ''skills.upload.chunk'', ''skills.upload.commit'', ''skills.status'', ''skills.bins'', ''skills.search'', ''skills.detail'', ''skills.securityVerdicts'', ''skills.skillCard'', ''skills.install'', ''skills.update'', ''skills.curator.status'', ''skills.curator.pin'', ''skills.curator.unpin'', ''skills.curator.restore'', ''skills.proposals.list'', ''skills.proposals.inspect'', ''skills.proposals.create'', ''skills.proposals.update'', ''skills.proposals.revise'', ''skills.proposals.requestRevision'', ''skills.proposals.apply'', ''skills.proposals.reject'', ''skills.proposals.quarantine'']),
      (''loadSessionCatalogHandlers'', [''sessions.catalog.list'', ''sessions.catalog.read'', ''sessions.catalog.continue'', ''sessions.catalog.archive'']),
      (''loadSessionsHandlers'', [''sessions.list'', ''sessions.search'', ''sessions.cleanup'', ''sessions.subscribe'', ''sessions.unsubscribe'', ''sessions.messages.subscribe'', ''sessions.messages.unsubscribe'', ''sessions.preview'', ''sessions.describe'', ''sessions.resolve'', ''sessions.compaction.list'', ''sessions.compaction.get'', ''sessions.create'', ''sessions.compaction.branch'', ''sessions.compaction.restore'', ''sessions.send'', ''sessions.steer'', ''sessions.abort'', ''sessions.patch'', ''sessions.pluginPatch'', ''sessions.reset'', ''sessions.delete'', ''sessions.get'', ''sessions.compact'', ''sessions.groups.list'', ''sessions.groups.put'', ''sessions.groups.rename'', ''sessions.groups.delete'']),
      (''loadSystemHandlers'', [''gateway.identity.get'', ''last-heartbeat'', ''set-heartbeats'', ''system-presence'', ''system.info'', ''system-event'']),
      (''loadUpdateHandlers'', [''update.status'', ''update.run'']),
      (''loadNodeHandlers'', [''node.pair.list'', ''node.pair.approve'', ''node.pair.reject'', ''node.pair.remove'', ''node.rename'', ''node.list'', ''node.describe'', ''node.pluginSurface.refresh'', ''node.pluginTools.update'', ''node.skills.update'', ''node.pending.pull'', ''node.pending.ack'', ''node.invoke'', ''node.invoke.progress'', ''node.invoke.result'', ''node.event'']),
      (''loadNodePendingHandlers'', [''node.pending.drain'', ''node.pending.enqueue'']),
      (''loadPushHandlers'', [''push.test'', ''push.web.vapidPublicKey'', ''push.web.subscribe'', ''push.web.unsubscribe'', ''push.web.test'']),
      (''loadRestartHandlers'', [''gateway.restart.request'', ''gateway.restart.preflight'']),
      (''loadSuspendHandlers'', [''gateway.suspend.prepare'', ''gateway.suspend.status'', ''gateway.suspend.resume'']),
      (''loadSendHandlers'', [''message.action'', ''send'', ''poll'']),
      (''loadUsageHandlers'', [''usage.status'', ''usage.cost'', ''sessions.usage'', ''sessions.usage.timeseries'', ''sessions.usage.logs'']),
      (''loadAgentHandlers'', [''agent'', ''agent.identity.get'', ''agent.wait'']),
      (''loadAgentsHandlers'', [''agents.list'', ''agents.create'', ''agents.update'', ''agents.delete'', ''agents.files.list'', ''agents.files.get'', ''agents.files.set'']),
      (''loadAgentsWorkspaceHandlers'', [''agents.workspace.list'', ''agents.workspace.get'']),
      (''loadArtifactsHandlers'', [''artifacts.list'', ''artifacts.get'', ''artifacts.download'']),
      (''loadSessionsFilesHandlers'', [''sessions.files.list'', ''sessions.files.get'', ''sessions.files.set'']),
      (''loadSessionsDiffHandlers'', [''sessions.diff''])]"

definition createLazyCoreHandlers :: "string list \<Rightarrow> nat \<Rightarrow> (string, nat) jsmap" where
  "createLazyCoreHandlers methods loadHandlers = fold (\<lambda>m hs. jm_set m loadHandlers hs) methods []"

definition coreGatewayHandlers :: "(string, nat) jsmap" where
  "coreGatewayHandlers =
     fold (\<lambda>(i, family) hs. fold (\<lambda>(m, h) hs. jm_set m h hs) (createLazyCoreHandlers (snd family) i) hs)
       (enumerate 0 coreHandlerFamilies) []"

section \<open>The registry of a request\<close>

record active_plugins =
  apHandlers :: "(string, nat) jsmap"
  apDescriptors :: "method_descriptor list option"
  apSessionActions :: "session_action list"

text \<open>What the scope resolver reads of the active plugin registry.\<close>

definition scopeView :: "active_plugins \<Rightarrow> plugin_methods" where
  "scopeView p =
     \<lparr>pmDescriptors = map (\<lambda>d. (methodName d, methodScope d)) (list_or_empty (apDescriptors p)),
      pmSessionActions = apSessionActions p\<rparr>"

definition coreDescriptorHandlers :: "string list \<Rightarrow> (string, nat) jsmap \<Rightarrow> (string, nat) jsmap" where
  "coreDescriptorHandlers pluginMethodNames extras =
     fold (\<lambda>(m, h) hs. if m \<notin> set pluginMethodNames \<and> isCoreGatewayMethodClassified m then jm_set m h hs else hs)
       extras coreGatewayHandlers"

definition withExtraHandler :: "string list \<Rightarrow> (string, nat) jsmap \<Rightarrow> method_descriptor \<Rightarrow> method_descriptor" where
  "withExtraHandler pluginMethodNames extras d =
     (case jm_get extras (methodName d) of
        Some h \<Rightarrow> if methodName d \<notin> set pluginMethodNames then d\<lparr>methodHandler := h\<rparr> else d
      | None \<Rightarrow> d)"

definition createRequestGatewayMethodRegistry ::
    "active_plugins option \<Rightarrow> (string, nat) jsmap option \<Rightarrow> registry_error + method_registry" where
  "createRequestGatewayMethodRegistry plugins extraHandlers =
     (let pluginMethodNames = (case plugins of None \<Rightarrow> [] | Some p \<Rightarrow> jm_keys (apHandlers p));
          extras = list_or_empty extraHandlers in
      case createCoreGatewayMethodDescriptors (coreDescriptorHandlers pluginMethodNames extras) of
        Inl e \<Rightarrow> Inl e
      | Inr ds \<Rightarrow>
          (let coreDescriptors = map (withExtraHandler pluginMethodNames extras) ds;
               coreMethodNames = map methodName coreDescriptors;
               auxHandlers = filter (\<lambda>(m, _). m \<notin> set pluginMethodNames \<and> m \<notin> set coreMethodNames) extras in
           case (case plugins of
                   None \<Rightarrow> Inr []
                 | Some p \<Rightarrow> createPluginGatewayMethodDescriptors (apHandlers p) (apDescriptors p)) of
             Inl e \<Rightarrow> Inl e
           | Inr pluginDescriptors \<Rightarrow>
               (case createGatewayMethodDescriptorsFromHandlers auxHandlers (AuxOwner ''gateway-extra'')
                       (Some AdminScope) (\<lambda>_. None) of
                  Inl e \<Rightarrow> Inl e
                | Inr auxDescriptors \<Rightarrow>
                    createGatewayMethodRegistry (coreDescriptors @ pluginDescriptors @ auxDescriptors))))"

section \<open>The registry of a request keeps to the policy of the reserved namespaces\<close>

lemma core_names_trimmed:
  "list_all (\<lambda>spec. js_trim (specName spec) = specName spec) CORE_GATEWAY_METHOD_SPECS"
  by code_simp

lemma handler_descriptors_admin:
  "createGatewayMethodDescriptorsFromHandlers hs owner (Some AdminScope) (\<lambda>_. None) = Inr ds \<Longrightarrow>
     \<forall>d \<in> set ds. methodScope d = Some (OperatorMethod AdminScope)"
  by (induction hs arbitrary: ds) (auto simp: plainDescriptor_def split: sum.splits)

lemma core_descriptors:
  assumes "createCoreGatewayMethodDescriptors hs = Inr ds" and "c \<in> set ds"
  shows "\<exists>spec \<in> set CORE_GATEWAY_METHOD_SPECS. \<exists>h. c = descriptorOfSpec spec h"
proof -
  let ?f = "\<lambda>spec. case jm_get hs (specName spec) of Some h \<Rightarrow> [descriptorOfSpec spec h] | None \<Rightarrow> []"
  have "ds = concat (map ?f CORE_GATEWAY_METHOD_SPECS)"
    using assms(1) unfolding createCoreGatewayMethodDescriptors_def
    by (cases "find (\<lambda>n. n \<notin> set listCoreGatewayMethodNames) (jm_keys hs)")
      (simp_all only: option.case sum.inject sum.distinct)
  then have "c \<in> (\<Union>spec \<in> set CORE_GATEWAY_METHOD_SPECS. set (?f spec))"
    using assms(2) by (simp only: set_concat set_map image_image)
  then obtain spec where spec: "spec \<in> set CORE_GATEWAY_METHOD_SPECS" "c \<in> set (?f spec)" by blast
  then obtain h where "c = descriptorOfSpec spec h" by (cases "jm_get hs (specName spec)") simp_all
  with spec(1) show ?thesis by blast
qed

text \<open>Every descriptor the registry of a request is built from keeps to the policy, when plugins own theirs.\<close>

lemma request_registry_policy:
  assumes r: "createRequestGatewayMethodRegistry plugins extras = Inr r"
    and owned: "\<forall>p. plugins = Some p \<longrightarrow> (\<forall>d \<in> set (list_or_empty (apDescriptors p)). \<exists>q. methodOwner d = PluginOwner q)"
  shows "\<exists>inputs. createGatewayMethodRegistry inputs = Inr r \<and> (\<forall>d \<in> set inputs. policy_input d)"
proof -
  let ?names = "case plugins of None \<Rightarrow> [] | Some p \<Rightarrow> jm_keys (apHandlers p)"
  obtain ds pds ads where d:
    "createCoreGatewayMethodDescriptors (coreDescriptorHandlers ?names (list_or_empty extras)) = Inr ds"
    "(case plugins of None \<Rightarrow> Inr [] | Some p \<Rightarrow> createPluginGatewayMethodDescriptors (apHandlers p) (apDescriptors p))
       = (Inr pds :: registry_error + method_descriptor list)"
    "createGatewayMethodDescriptorsFromHandlers
       (filter (\<lambda>(m, _). m \<notin> set ?names \<and> m \<notin> set (map methodName
          (map (withExtraHandler ?names (list_or_empty extras)) ds))) (list_or_empty extras))
       (AuxOwner ''gateway-extra'') (Some AdminScope) (\<lambda>_. None) = Inr ads"
    "createGatewayMethodRegistry (map (withExtraHandler ?names (list_or_empty extras)) ds @ pds @ ads) = Inr r"
    using r unfolding createRequestGatewayMethodRegistry_def Let_def by (auto split: sum.splits)
  have "policy_input (withExtraHandler ns es c)" if "c \<in> set ds" for c ns es
  proof -
    from core_descriptors [OF d(1) that]
    obtain spec h where "spec \<in> set CORE_GATEWAY_METHOD_SPECS" "c = descriptorOfSpec spec h" by blast
    with core_names_trimmed show ?thesis
      by (auto simp: withExtraHandler_def descriptorOfSpec_def policy_input_def policy_descriptor_def list_all_iff
          split: option.split)
  qed
  moreover have "policy_input c" if "c \<in> set pds" for c
  proof (cases plugins)
    case (Some p)
    then have "(\<exists>q. methodOwner c = PluginOwner q) \<or> methodScope c = Some (OperatorMethod AdminScope)"
      using d(2) that owned handler_descriptors_admin
      by (fastforce simp: createPluginGatewayMethodDescriptors_def Let_def split: if_splits)
    then show ?thesis by (auto simp: policy_input_def policy_descriptor_def)
  qed (use d(2) that in simp)
  moreover have "policy_input c" if "c \<in> set ads" for c
    using handler_descriptors_admin [OF d(3)] that by (simp add: policy_input_def policy_descriptor_def)
  ultimately have "\<forall>c \<in> set (map (withExtraHandler ?names (list_or_empty extras)) ds @ pds @ ads). policy_input c"
    by auto
  with d(4) show ?thesis by blast
qed

section \<open>Handling a request\<close>

record request_client =
  rcConnect :: "connect_info option"
  rcIdentity :: gateway_client

record gateway_request =
  reqMethod :: string
  reqParams :: "json option"
  reqClient :: "request_client option"
  reqRoot :: "nat option"
  reqUnavailable :: "string list option"
  reqTime :: int

text \<open>The process state the guards read and change.\<close>

record gateway_process =
  gpAdmission :: admission_state
  gpBudget :: buckets

datatype request_outcome =
    NotAuthorized auth_error
  | UnavailableAtStartup
  | RateLimited int
  | UnknownMethod
  | NestedPrepare
  | ClosedForWork bool suspend_phase
  | Handled nat

definition SUSPEND_CONTROL_METHODS :: "string list" where
  "SUSPEND_CONTROL_METHODS = [''gateway.suspend.prepare'', ''gateway.suspend.status'', ''gateway.suspend.resume'']"

definition isGatewayMethodAllowedDuringSuspension :: "string \<Rightarrow> bool" where
  "isGatewayMethodAllowedDuringSuspension m \<longleftrightarrow> m \<in> set SUSPEND_CONTROL_METHODS"

definition requestRegistry ::
    "active_plugins option \<Rightarrow> method_registry option \<Rightarrow> (string, nat) jsmap option \<Rightarrow> string
     \<Rightarrow> registry_error + method_registry" where
  "requestRegistry plugins attached extraHandlers m =
     (case attached of
        Some r \<Rightarrow>
          if getHandler r m \<noteq> None then Inr r else createRequestGatewayMethodRegistry plugins extraHandlers
      | None \<Rightarrow> createRequestGatewayMethodRegistry plugins extraHandlers)"

text \<open>The retry delay when the write budget refuses the call.\<close>

definition rejectRateLimitedControlPlaneWrite ::
    "method_registry \<Rightarrow> gateway_request \<Rightarrow> gateway_process \<Rightarrow> int option \<times> gateway_process" where
  "rejectRateLimitedControlPlaneWrite r req st =
     (if \<not> isControlPlaneWrite r (reqMethod req) then (None, st)
      else
        (let (budget, b) = consumeControlPlaneWriteBudget (gpBudget st) (map_option rcIdentity (reqClient req))
               (reqTime req);
             st1 = st\<lparr>gpBudget := b\<rparr>
         in if cr_allowed budget then (None, st1) else (Some (cr_retryAfterMs budget), st1)))"

text \<open>Releasing the lease of the request's root admission; a nested lease has nothing to release.\<close>

definition releaseLease :: "root_result \<Rightarrow> gateway_process \<Rightarrow> gateway_process" where
  "releaseLease lease st =
     (case lease of Owned a l \<Rightarrow> st\<lparr>gpAdmission := releaseRootWork (gpAdmission st) l\<rparr> | _ \<Rightarrow> st)"

type_synonym handler_run = "nat \<Rightarrow> nat option \<Rightarrow> gateway_process \<Rightarrow> gateway_process"

definition invokeHandler ::
    "handler_run \<Rightarrow> nat \<Rightarrow> root_result \<Rightarrow> nat option \<Rightarrow> gateway_process \<Rightarrow> gateway_process" where
  "invokeHandler run h lease cur st =
     (case lease of
        Owned a l \<Rightarrow> releaseLease lease (run h (Some a) st)
      | _ \<Rightarrow> run h cur st)"

definition handleGatewayRequest ::
    "active_plugins option \<Rightarrow> method_registry \<Rightarrow> handler_run \<Rightarrow> gateway_request \<Rightarrow> gateway_process
     \<Rightarrow> request_outcome \<times> gateway_process" where
  "handleGatewayRequest plugins r run req st =
     (let m = reqMethod req; isSuspendPrepare = (m = ''gateway.suspend.prepare'') in
      case authorizeGatewayMethod (map_option scopeView plugins) r m (Option.bind (reqClient req) rcConnect)
             (reqParams req) of
        Some e \<Rightarrow> (NotAuthorized e, st)
      | None \<Rightarrow>
      if m \<in> set (list_or_empty (reqUnavailable req)) then (UnavailableAtStartup, st)
      else case (if isSuspendPrepare then rejectRateLimitedControlPlaneWrite r req st else (None, st)) of
        (Some retry, st1) \<Rightarrow> (RateLimited retry, st1)
      | (None, st1) \<Rightarrow>
      (case getHandler r m of
         None \<Rightarrow> (UnknownMethod, st1)
       | Some h \<Rightarrow>
      (case tryBeginGatewayRootWorkAdmission (gpAdmission st1) (reqRoot req) of (lease, g) \<Rightarrow>
      (let st2 = st1\<lparr>gpAdmission := g\<rparr> in
      if isSuspendPrepare \<and> lease = Nested then (NestedPrepare, st2)
      else if lease = Refused \<and> \<not> isGatewayMethodAllowedDuringSuspension m
        then (ClosedForWork (isGatewayRestartDraining g) (suspendPhase g), st2)
      else case (if \<not> isSuspendPrepare then rejectRateLimitedControlPlaneWrite r req st2 else (None, st2)) of
        (Some retry, st3) \<Rightarrow> (RateLimited retry, releaseLease lease st3)
      | (None, st3) \<Rightarrow> (Handled h, invokeHandler run h lease (reqRoot req) st3)))))"

section \<open>Lemmas\<close>

definition live_root :: "admission_state \<Rightarrow> nat option \<Rightarrow> bool" where
  "live_root g cur = (case cur of Some a \<Rightarrow> \<not> isReleased g a | None \<Rightarrow> False)"

lemma try_root:
  "tryBeginGatewayRootWorkAdmission g cur =
     (if live_root g cur then (Nested, g)
      else if isGatewayWorkAdmissionClosed g then (Refused, g)
      else (Owned (nextAdmission g) (nextLease g), snd (createGatewayRootWorkAdmission g)))"
  by (auto simp: tryBeginGatewayRootWorkAdmission_def live_root_def isGatewayWorkAdmissionClosed_def
      createGatewayRootWorkAdmission_def createGatewayRootWorkRelease_def Let_def split: option.splits)

definition withinBudget :: "method_registry \<Rightarrow> gateway_request \<Rightarrow> buckets \<Rightarrow> bool" where
  "withinBudget r req b =
     (if isControlPlaneWrite r (reqMethod req)
      then cr_allowed (fst (consumeControlPlaneWriteBudget b (map_option rcIdentity (reqClient req)) (reqTime req)))
      else True)"

lemma reject_none: "fst (rejectRateLimitedControlPlaneWrite r req st) = None \<longleftrightarrow> withinBudget r req (gpBudget st)"
  by (auto simp: rejectRateLimitedControlPlaneWrite_def withinBudget_def Let_def split: prod.splits)

lemma reject_gate: "gpAdmission (snd (rejectRateLimitedControlPlaneWrite r req st)) = gpAdmission st"
  by (auto simp: rejectRateLimitedControlPlaneWrite_def Let_def split: prod.splits)

text \<open>The gate's share of the decision: suspension is prepared by root requests only.\<close>

definition gateAdmits :: "admission_state \<Rightarrow> gateway_request \<Rightarrow> bool" where
  "gateAdmits g req =
     (if reqMethod req = ''gateway.suspend.prepare'' then \<not> live_root g (reqRoot req)
      else isGatewayMethodAllowedDuringSuspension (reqMethod req) \<or> live_root g (reqRoot req)
           \<or> \<not> isGatewayWorkAdmissionClosed g)"

definition requestAuthorized :: "active_plugins option \<Rightarrow> method_registry \<Rightarrow> gateway_request \<Rightarrow> bool" where
  "requestAuthorized plugins r req \<longleftrightarrow>
     authorizeGatewayMethod (map_option scopeView plugins) r (reqMethod req)
       (Option.bind (reqClient req) rcConnect) (reqParams req) = None"

lemma prepare_is_control: "isGatewayMethodAllowedDuringSuspension ''gateway.suspend.prepare''"
  by (simp add: isGatewayMethodAllowedDuringSuspension_def SUSPEND_CONTROL_METHODS_def)

text \<open>What a request finds when its handler starts: the gate with its lease, and the budget less its own write.\<close>

definition requestLease :: "gateway_request \<Rightarrow> gateway_process \<Rightarrow> root_result" where
  "requestLease req st = fst (tryBeginGatewayRootWorkAdmission (gpAdmission st) (reqRoot req))"

definition startedProcess :: "method_registry \<Rightarrow> gateway_request \<Rightarrow> gateway_process \<Rightarrow> gateway_process" where
  "startedProcess r req st =
     st\<lparr>gpAdmission := snd (tryBeginGatewayRootWorkAdmission (gpAdmission st) (reqRoot req)),
        gpBudget := (if isControlPlaneWrite r (reqMethod req)
          then snd (consumeControlPlaneWriteBudget (gpBudget st) (map_option rcIdentity (reqClient req)) (reqTime req))
          else gpBudget st)\<rparr>"

definition requestRoot :: "gateway_request \<Rightarrow> gateway_process \<Rightarrow> nat option" where
  "requestRoot req st = (case requestLease req st of Owned a l \<Rightarrow> Some a | _ \<Rightarrow> reqRoot req)"

lemma rejectE:
  obtains (within) "rejectRateLimitedControlPlaneWrite r req st =
      (None, st\<lparr>gpBudget := gpBudget (startedProcess r req st)\<rparr>)" "withinBudget r req (gpBudget st)"
  | (over) retry b where "rejectRateLimitedControlPlaneWrite r req st = (Some retry, st\<lparr>gpBudget := b\<rparr>)"
    "\<not> withinBudget r req (gpBudget st)"
proof (cases "isControlPlaneWrite r (reqMethod req)")
  case False
  then show ?thesis using within
    by (simp add: rejectRateLimitedControlPlaneWrite_def withinBudget_def startedProcess_def)
next
  case True
  obtain res b where "consumeControlPlaneWriteBudget (gpBudget st) (map_option rcIdentity (reqClient req))
      (reqTime req) = (res, b)" by fastforce
  with True within over show ?thesis
    by (cases "cr_allowed res")
      (auto simp: rejectRateLimitedControlPlaneWrite_def withinBudget_def startedProcess_def Let_def)
qed

lemma process_fields: "st\<lparr>gpBudget := b, gpAdmission := g\<rparr> = st\<lparr>gpAdmission := g, gpBudget := b\<rparr>"
  by simp

definition requestPasses :: "active_plugins option \<Rightarrow> method_registry \<Rightarrow> gateway_request \<Rightarrow> gateway_process \<Rightarrow> bool" where
  "requestPasses plugins r req st \<longleftrightarrow>
     requestAuthorized plugins r req \<and> reqMethod req \<notin> set (list_or_empty (reqUnavailable req))
     \<and> gateAdmits (gpAdmission st) req \<and> withinBudget r req (gpBudget st)"

lemma handled_run:
  assumes "requestPasses plugins r req st" and "getHandler r (reqMethod req) = Some h"
  shows "handleGatewayRequest plugins r run req st =
    (Handled h, releaseLease (requestLease req st) (run h (requestRoot req st) (startedProcess r req st)))"
proof (cases "reqMethod req = ''gateway.suspend.prepare''")
  case True
  with assms show ?thesis
    by (cases rule: rejectE [of r req st])
      (auto simp: handleGatewayRequest_def requestAuthorized_def requestPasses_def Let_def try_root gateAdmits_def
        prepare_is_control requestLease_def requestRoot_def startedProcess_def invokeHandler_def releaseLease_def process_fields)
next
  case False
  let ?st = "st\<lparr>gpAdmission := snd (tryBeginGatewayRootWorkAdmission (gpAdmission st) (reqRoot req))\<rparr>"
  from assms False show ?thesis
    by (cases rule: rejectE [of r req ?st])
      (auto simp: handleGatewayRequest_def requestAuthorized_def requestPasses_def Let_def try_root gateAdmits_def
        requestLease_def requestRoot_def startedProcess_def invokeHandler_def releaseLease_def process_fields)
qed

lemma unhandled_run:
  assumes "\<not> (requestPasses plugins r req st \<and> getHandler r (reqMethod req) \<noteq> None)"
  shows "handleGatewayRequest plugins r run req st = handleGatewayRequest plugins r run' req st
    \<and> (\<forall>h. fst (handleGatewayRequest plugins r run req st) \<noteq> Handled h)"
proof (cases "reqMethod req = ''gateway.suspend.prepare''")
  case True
  with assms show ?thesis
    by (cases rule: rejectE [of r req st])
      (auto simp: handleGatewayRequest_def requestAuthorized_def requestPasses_def Let_def try_root gateAdmits_def
        prepare_is_control split: option.splits)
next
  case False
  let ?st = "st\<lparr>gpAdmission := snd (tryBeginGatewayRootWorkAdmission (gpAdmission st) (reqRoot req))\<rparr>"
  from assms False show ?thesis
    by (cases rule: rejectE [of r req ?st])
      (auto simp: handleGatewayRequest_def requestAuthorized_def requestPasses_def Let_def try_root gateAdmits_def
        split: option.splits)
qed

text \<open>
  C7. The guards of a request amount to one conjunction, whatever their order: the handler of a method runs
  exactly when the caller is authorised, the method is not held back by startup, the registry has a handler for
  it, the gate admits the request and its write budget does. Then it runs once: whatever a handler does, the
  process ends as one run of the registry's handler leaves it, started under the request's root with the write
  charged, and with the root's lease released afterwards. Otherwise no handler runs: the result is the same
  whatever handlers do.
\<close>

theorem request_handled_exactly_when:
  "(\<forall>h. fst (handleGatewayRequest plugins r run req st) = Handled h \<longleftrightarrow>
     requestAuthorized plugins r req
     \<and> reqMethod req \<notin> set (list_or_empty (reqUnavailable req))
     \<and> getHandler r (reqMethod req) = Some h
     \<and> gateAdmits (gpAdmission st) req
     \<and> withinBudget r req (gpBudget st))
   \<and> (case fst (handleGatewayRequest plugins r run req st) of
        Handled h \<Rightarrow>
          (\<forall>run'. handleGatewayRequest plugins r run' req st =
             (Handled h, releaseLease (requestLease req st) (run' h (requestRoot req st) (startedProcess r req st))))
      | _ \<Rightarrow> (\<forall>run'. handleGatewayRequest plugins r run' req st = handleGatewayRequest plugins r run req st))"
proof (cases "requestPasses plugins r req st \<and> getHandler r (reqMethod req) \<noteq> None")
  case True
  then obtain h' where h: "requestPasses plugins r req st" "getHandler r (reqMethod req) = Some h'" by auto
  then show ?thesis using handled_run [OF h] by (auto simp: requestPasses_def)
next
  case False
  have same: "handleGatewayRequest plugins r run' req st = handleGatewayRequest plugins r run req st" for run'
    using unhandled_run [OF False] by blast
  have none: "\<forall>h. fst (handleGatewayRequest plugins r run req st) \<noteq> Handled h"
    using unhandled_run [OF False] by blast
  have "case fst (handleGatewayRequest plugins r run req st) of Handled h \<Rightarrow> A h
      | _ \<Rightarrow> (\<forall>run'. handleGatewayRequest plugins r run' req st = handleGatewayRequest plugins r run req st)" for A
    using none same by (cases "fst (handleGatewayRequest plugins r run req st)") simp_all
  then show ?thesis using False none by (auto simp: requestPasses_def)
qed

text \<open>
  C24. While the gateway suspends or restarts, a request that does not come from admitted work reaches no
  handler unless it controls the suspension, and it leaves the process as it found it: the gate, the root work
  and the write budget, which a controller therefore has left when the gateway opens again.
\<close>

theorem closed_gateway_refuses_for_free:
  assumes "isGatewayWorkAdmissionClosed (gpAdmission st)" and "\<not> live_root (gpAdmission st) (reqRoot req)"
    and "\<not> isGatewayMethodAllowedDuringSuspension (reqMethod req)"
  shows "snd (handleGatewayRequest plugins r run req st) = st
    \<and> (\<forall>h. fst (handleGatewayRequest plugins r run req st) \<noteq> Handled h)"
proof -
  have "reqMethod req \<noteq> ''gateway.suspend.prepare''" using assms(3) prepare_is_control by auto
  with assms show ?thesis
    by (auto simp: handleGatewayRequest_def Let_def try_root split: option.splits)
qed

section \<open>Root work\<close>

lemma leases_shrink:
  assumes "a < nextAdmission s" and "e \<noteq> Retain (Some a)"
  shows "live_leases (ga_step s e) a \<subseteq> live_leases s a \<and> a < nextAdmission (ga_step s e)"
  using assms
  by (cases e) (auto simp: live_leases_def ga_ops Let_def split: option.splits if_splits)

lemma run_leases:
  "roots_inv s \<Longrightarrow> a < nextAdmission s \<Longrightarrow> Retain (Some a) \<notin> set es \<Longrightarrow>
     roots_inv (foldl ga_step s es) \<and> live_leases (foldl ga_step s es) a \<subseteq> live_leases s a"
proof (induction es arbitrary: s)
  case (Cons e es)
  then have "live_leases (ga_step s e) a \<subseteq> live_leases s a \<and> a < nextAdmission (ga_step s e)"
    by (intro leases_shrink) auto
  with Cons.IH [of "ga_step s e"] Cons.prems show ?case by (auto simp: roots_inv_step)
qed simp

lemma last_lease_ends:
  assumes inv: "roots_inv s" and live: "live_leases s a \<subseteq> {l}"
  shows "a \<notin> set (activeRootWork (releaseRootWork s l))"
proof
  assume act: "a \<in> set (activeRootWork (releaseRootWork s l))"
  then have "a \<in> set (activeRootWork s)" using release_active_subset by blast
  then obtain ad where ad: "admissions s a = Some ad" "\<not> released ad" using inv by (auto simp: roots_inv_def)
  then have "live_leases s a = {l}" using roots_ref [OF inv ad] live by (auto simp: subset_singleton_iff)
  then obtain ls where ls: "leases s l = Some ls" "leaseOf ls = a" "\<not> leaseReleased ls"
    by (auto simp: live_leases_def)
  have "live_leases (releaseRootWork s l) a = {}"
    using ls ad \<open>live_leases s a = {l}\<close>
    by (auto simp: live_leases_def releaseRootWork_def resolveRootDrainWaiters_def Let_def)
  moreover obtain ad' where "admissions (releaseRootWork s l) a = Some ad'" "\<not> released ad'"
    using act release_roots_inv [OF inv, of l] by (auto simp: roots_inv_def)
  ultimately show False using roots_ref [OF release_roots_inv [OF inv]] by fastforce
qed

lemma own_root_ends:
  assumes inv: "roots_inv g" and keep: "Retain (Some (nextAdmission g)) \<notin> set es"
  shows "nextAdmission g \<notin> set (activeRootWork (releaseRootWork
           (foldl ga_step (snd (createGatewayRootWorkAdmission g)) es) (nextLease g)))"
proof -
  let ?g = "snd (createGatewayRootWorkAdmission g)"
  have "roots_inv ?g" by (rule create_roots_inv [OF inv])
  moreover have "nextAdmission g < nextAdmission ?g"
    by (simp add: createGatewayRootWorkAdmission_def createGatewayRootWorkRelease_def Let_def)
  moreover have "live_leases ?g (nextAdmission g) \<subseteq> {nextLease g}"
  proof -
    have "leaseOf ls \<noteq> nextAdmission g" if "leases g l = Some ls" for l ls
      using roots_lease [OF inv that] roots_fresh(1) [OF inv] by auto
    then show ?thesis
      by (auto simp: live_leases_def createGatewayRootWorkAdmission_def createGatewayRootWorkRelease_def Let_def
          split: if_splits)
  qed
  ultimately show ?thesis
    using run_leases [of ?g "nextAdmission g" es] keep by (intro last_lease_ends) auto
qed

lemma new_root_not_active: "roots_inv g \<Longrightarrow> nextAdmission g \<notin> set (activeRootWork g)"
  using roots_fresh(1) [of g] by (auto simp: roots_inv_def)

text \<open>
  C25. Whatever becomes of a request that opens root work, refused by its budget or handled, the root is
  gone when the request has settled: only a handler that retains the root for a continuation of its own keeps it
  active, so requests alone never hold up a suspension or a restart for ever.
\<close>

theorem request_ends_its_root:
  assumes inv: "roots_inv (gpAdmission st)"
    and root: "\<not> live_root (gpAdmission st) (reqRoot req)"
    and ops: "\<forall>h cur st. gpAdmission (run h cur st) = foldl ga_step (gpAdmission st) (effects h)"
    and keep: "\<forall>h. Retain (Some (nextAdmission (gpAdmission st))) \<notin> set (effects h)"
    and opened: "\<not> isGatewayWorkAdmissionClosed (gpAdmission st)"
  shows "nextAdmission (gpAdmission st)
    \<notin> set (activeRootWork (gpAdmission (snd (handleGatewayRequest plugins r run req st))))"
proof -
  let ?g = "gpAdmission st" and ?st = "\<lambda>st. st\<lparr>gpAdmission := snd (createGatewayRootWorkAdmission (gpAdmission st))\<rparr>"
  note ends = own_root_ends [OF inv, of "[]"] own_root_ends [OF inv keep [rule_format]]
  note simps = handleGatewayRequest_def Let_def try_root root opened releaseLease_def invokeHandler_def ops
    new_root_not_active [OF inv] ends
  show ?thesis
  proof (cases "reqMethod req = ''gateway.suspend.prepare''")
    case True
    show ?thesis
      by (cases rule: rejectE [of r req st]) (simp_all add: True simps ends(1) [simplified] split: option.splits)
  next
    case False
    show ?thesis
      by (cases rule: rejectE [of r req "?st st"])
        (simp_all add: False simps ends(1) [simplified] split: option.splits)
  qed
qed

section \<open>Witnesses\<close>

definition echo_registry :: method_registry where
  "echo_registry = [plainDescriptor ''echo'' 7 (AuxOwner ''gateway-extra'') ReadScope]"

definition echo_request :: gateway_request where
  "echo_request = \<lparr>reqMethod = ''echo'', reqParams = None, reqClient = None, reqRoot = None,
     reqUnavailable = None, reqTime = 0\<rparr>"

definition open_process :: gateway_process where
  "open_process = \<lparr>gpAdmission = initial_admission, gpBudget = []\<rparr>"

definition closed_process :: gateway_process where
  "closed_process = open_process\<lparr>gpAdmission := markGatewayRestartDraining initial_admission\<rparr>"

lemma closed_gateway_refuses_for_free_witness:
  "snd (handleGatewayRequest None echo_registry (\<lambda>h cur st. open_process) echo_request closed_process) = closed_process"
proof -
  have "isGatewayWorkAdmissionClosed (gpAdmission closed_process)"
    by (simp add: closed_process_def markGatewayRestartDraining_def isGatewayWorkAdmissionClosed_def
        resolveSuspendOpenWaiters_def invalidateSuspendAdmission_def initial_admission_def open_process_def)
  moreover have "\<not> live_root (gpAdmission closed_process) (reqRoot echo_request)"
    by (simp add: live_root_def echo_request_def)
  moreover have "\<not> isGatewayMethodAllowedDuringSuspension (reqMethod echo_request)"
    by (simp add: isGatewayMethodAllowedDuringSuspension_def SUSPEND_CONTROL_METHODS_def echo_request_def)
  ultimately show ?thesis using closed_gateway_refuses_for_free by blast
qed

lemma request_ends_its_root_witness:
  "0 \<notin> set (activeRootWork (gpAdmission
     (snd (handleGatewayRequest None echo_registry (\<lambda>h cur st. st) echo_request open_process))))"
proof -
  have "roots_inv initial_admission" using gar.init_inv by simp
  then show ?thesis
    using request_ends_its_root [of open_process echo_request "\<lambda>h cur st. st" "\<lambda>h. []" None echo_registry]
    by (simp add: open_process_def live_root_def echo_request_def isGatewayWorkAdmissionClosed_def initial_admission_def)
qed

end
