(* ===== verification/CommandQueue.thy ===== *)
theory CommandQueue
  imports NumberCoercion GatewayAdmission "HOL-Library.Sublist" "HOL-Library.Multiset"
begin

text \<open>
  \<^verbatim>\<open>src/process/command-queue.ts\<close>: the in-process lanes that serialise and bound command
  execution. A task is the sequence number of its entry; its run, from the start in the pump to
  the settlement of its promise, is a record in \<open>inflight\<close>, and the settlement is an event of the
  environment. What the promises handed to callers settle with is recorded in \<open>settled\<close>, the
  answers to \<^verbatim>\<open>waitForActiveTasks\<close> in \<open>waitersDone\<close>. Logging and the \<^verbatim>\<open>onWait\<close> callback are
  left out.
\<close>

section \<open>State\<close>

datatype queue_priority = Foreground | Background | NormalPriority

record queue_entry =
  sequence :: nat
  priority :: int
  enqueuedAt :: int
  warnAfterMs :: int
  queuedAheadAtEnqueue :: nat
  activeAheadAtEnqueue :: nat
  taskTimeoutMs :: "int option"
  taskTimeoutAbortGraceMs :: "int option"

record lane_state =
  lane :: string
  queue :: "queue_entry list"
  activeTaskIds :: "nat list"
  maxConcurrent :: jsnum
  draining :: bool
  generation :: nat

text \<open>The variables the asynchronous function started by the pump closes over.\<close>

record task_run =
  runLane :: string
  runGeneration :: nat
  runEntry :: queue_entry

datatype lane_error = CommandLaneCleared | TaskFailed | TaskTimedOut

datatype settlement = Resolved | Rejected lane_error

record active_task_waiter =
  waiterId :: nat
  waitedTaskIds :: "nat list"

record queue_state =
  lanes :: "(string, lane_state) jsmap"
  activeTaskWaiters :: "active_task_waiter list"
  nextWaiterId :: nat
  nextTaskId :: nat
  nextQueueSequence :: nat
  inflight :: "(nat, task_run) jsmap"
  settled :: "(nat \<times> settlement) list"
  waitersDone :: "(nat \<times> bool) list"
  admission :: admission_state

definition initial_queue :: queue_state where
  "initial_queue =
     \<lparr>lanes = [], activeTaskWaiters = [], nextWaiterId = 0, nextTaskId = 1, nextQueueSequence = 1,
      inflight = [], settled = [], waitersDone = [], admission = initial_admission\<rparr>"

section \<open>Lanes\<close>

definition isQuietProbeLane :: "string \<Rightarrow> bool" where
  "isQuietProbeLane l \<longleftrightarrow>
     prefix ''auth-probe:'' l \<or> prefix ''session:probe-'' l \<or>
     prefix ''session:temp:setup-inference:probe-setup-inference-'' l"

definition normalizeLane :: "string \<Rightarrow> string" where
  "normalizeLane l = (let t = js_trim l in if t = [] then ''main'' else t)"

definition getLaneDepth :: "lane_state \<Rightarrow> nat" where
  "getLaneDepth ls = length (queue ls) + length (activeTaskIds ls)"

definition fresh_lane :: "string \<Rightarrow> lane_state" where
  "fresh_lane l = \<lparr>lane = l, queue = [], activeTaskIds = [], maxConcurrent = JFin 1,
                   draining = False, generation = 0\<rparr>"

text \<open>
  The repair of \<^verbatim>\<open>getQueueState\<close>: the next sequence number passes every queued one. (Entries made
  by an older version of the code, without a priority or a sequence, do not occur in the model.)
\<close>

definition getQueueState :: "queue_state \<Rightarrow> queue_state" where
  "getQueueState s =
     (let seqs = concat (map (\<lambda>(_, ls). map sequence (queue ls)) (lanes s));
          maxSeq = foldl max (nextQueueSequence s - 1) seqs
      in if nextQueueSequence s \<le> maxSeq then s\<lparr>nextQueueSequence := maxSeq + 1\<rparr> else s)"

definition getLaneState :: "queue_state \<Rightarrow> string \<Rightarrow> lane_state \<times> queue_state" where
  "getLaneState s l =
     (case jm_get (lanes s) l of
        Some ls \<Rightarrow> (ls, s)
      | None \<Rightarrow> (fresh_lane l, s\<lparr>lanes := jm_set l (fresh_lane l) (lanes s)\<rparr>))"

definition completeTask :: "lane_state \<Rightarrow> nat \<Rightarrow> nat \<Rightarrow> bool \<times> lane_state" where
  "completeTask ls taskId taskGeneration =
     (if taskGeneration \<noteq> generation ls then (False, ls)
      else (True, ls\<lparr>activeTaskIds := filter (\<lambda>i. i \<noteq> taskId) (activeTaskIds ls)\<rparr>))"

definition hasPendingActiveTasks :: "queue_state \<Rightarrow> nat list \<Rightarrow> bool" where
  "hasPendingActiveTasks s ids \<longleftrightarrow>
     list_ex (\<lambda>(_, ls). list_ex (\<lambda>i. i \<in> set ids) (activeTaskIds ls)) (lanes s)"

definition resolveActiveTaskWaiter :: "queue_state \<Rightarrow> nat \<Rightarrow> bool \<Rightarrow> queue_state" where
  "resolveActiveTaskWaiter s w drained =
     (if w \<in> waiterId ` set (activeTaskWaiters s)
      then s\<lparr>activeTaskWaiters := filter (\<lambda>x. waiterId x \<noteq> w) (activeTaskWaiters s),
             waitersDone := waitersDone s @ [(w, drained)]\<rparr>
      else s)"

definition notifyActiveTaskWaiters :: "queue_state \<Rightarrow> queue_state" where
  "notifyActiveTaskWaiters s =
     foldl (\<lambda>s w. if waitedTaskIds w = [] \<or> \<not> hasPendingActiveTasks s (waitedTaskIds w)
                  then resolveActiveTaskWaiter s (waiterId w) True else s)
       s (activeTaskWaiters s)"

definition normalizeTaskTimeoutMs :: "jsnum option \<Rightarrow> int option" where
  "normalizeTaskTimeoutMs v =
     (case v of
        Some (JFin q) \<Rightarrow> if q \<le> 0 then None else clampPositiveTimerTimeoutMs (VNum (JFin q))
      | _ \<Rightarrow> None)"

fun resolveQueuePriority :: "queue_priority \<Rightarrow> int" where
  "resolveQueuePriority Foreground = 1"
| "resolveQueuePriority Background = -1"
| "resolveQueuePriority NormalPriority = 0"

section \<open>Queueing\<close>

text \<open>\<^verbatim>\<open>findIndex\<close>: the first queued entry the new one goes in front of.\<close>

definition goes_before :: "queue_entry \<Rightarrow> queue_entry \<Rightarrow> bool" where
  "goes_before entry queued \<longleftrightarrow>
     priority queued < priority entry \<or>
     (priority queued = priority entry \<and> sequence queued > sequence entry)"

definition enqueueLaneEntry :: "lane_state \<Rightarrow> queue_entry \<Rightarrow> lane_state" where
  "enqueueLaneEntry ls entry =
     (let ahead = takeWhile (\<lambda>q. \<not> goes_before entry q) (queue ls);
          behind = dropWhile (\<lambda>q. \<not> goes_before entry q) (queue ls)
      in ls\<lparr>queue := ahead @
              entry\<lparr>queuedAheadAtEnqueue := length ahead,
                    activeAheadAtEnqueue := length (activeTaskIds ls)\<rparr> # behind\<rparr>)"

section \<open>The pump\<close>

fun below :: "nat \<Rightarrow> jsnum \<Rightarrow> bool" where
  "below n (JFin q) = (of_nat n < q)"
| "below n JPosInf = True"
| "below n _ = False"

text \<open>
  The loop of \<^verbatim>\<open>pump\<close>: start the head of the queue while a slot is free. The result is the lane,
  the next task id and the runs started, in order.
\<close>

function pumpLoop ::
    "lane_state \<Rightarrow> nat \<Rightarrow> (nat \<times> task_run) list \<Rightarrow> lane_state \<times> nat \<times> (nat \<times> task_run) list" where
  "pumpLoop ls next started =
     (if below (length (activeTaskIds ls)) (maxConcurrent ls) \<and> queue ls \<noteq> []
      then pumpLoop
             (ls\<lparr>queue := tl (queue ls), activeTaskIds := activeTaskIds ls @ [next]\<rparr>)
             (Suc next)
             (started @ [(next, \<lparr>runLane = lane ls, runGeneration = generation ls,
                                 runEntry = hd (queue ls)\<rparr>)])
      else (ls, next, started))"
  by pat_completeness auto
termination
  by (relation "measure (\<lambda>(ls, _, _). length (queue ls))") auto

declare pumpLoop.simps [simp del]

definition pump :: "queue_state \<Rightarrow> lane_state \<Rightarrow> queue_state" where
  "pump s ls =
     (case pumpLoop ls (nextTaskId s) [] of
        (ls', next, started) \<Rightarrow>
          s\<lparr>lanes := jm_set (lane ls) (ls'\<lparr>draining := False\<rparr>) (lanes s),
            nextTaskId := next,
            inflight := inflight s @ started\<rparr>)"

definition drainLane :: "queue_state \<Rightarrow> string \<Rightarrow> queue_state" where
  "drainLane s l =
     (let (ls, s1) = getLaneState s l
      in if draining ls then s1 else pump s1 (ls\<lparr>draining := True\<rparr>))"

section \<open>Operations\<close>

definition markGatewayDraining :: "queue_state \<Rightarrow> queue_state" where
  "markGatewayDraining s = s\<lparr>admission := markGatewayRestartDraining (admission s)\<rparr>"

text \<open>\<^verbatim>\<open>Math.max\<close> of a whole number and a floored number.\<close>

fun max_floor :: "int \<Rightarrow> jsnum \<Rightarrow> jsnum" where
  "max_floor mn (JFin q) = JFin (of_int (max mn \<lfloor>q\<rfloor>))"
| "max_floor mn JNaN = JNaN"
| "max_floor mn JPosInf = JPosInf"
| "max_floor mn JNegInf = JFin (of_int mn)"

definition setCommandLaneConcurrency :: "queue_state \<Rightarrow> string \<Rightarrow> jsnum \<Rightarrow> queue_state" where
  "setCommandLaneConcurrency s l maxC =
     (let cleaned = normalizeLane l;
          (ls, s1) = getLaneState s cleaned;
          ls1 = ls\<lparr>maxConcurrent := max_floor (if isQuietProbeLane cleaned then 1 else 0) maxC\<rparr>;
          s2 = s1\<lparr>lanes := jm_set cleaned ls1 (lanes s1)\<rparr>
      in if below 0 (maxConcurrent ls1) then drainLane s2 cleaned else s2)"

record enqueue_opts =
  opt_warnAfterMs :: "int option"
  opt_priority :: queue_priority
  opt_taskTimeoutMs :: "jsnum option"
  opt_taskTimeoutAbortGraceMs :: "jsnum option"

text \<open>The answer is the entry's sequence number, or \<open>None\<close> for \<^verbatim>\<open>GatewayDrainingError\<close>.\<close>

definition enqueueCommandInLane ::
    "queue_state \<Rightarrow> nat option \<Rightarrow> string \<Rightarrow> enqueue_opts \<Rightarrow> int \<Rightarrow> nat option \<times> queue_state" where
  "enqueueCommandInLane s0 cur l opts now =
     (let s = getQueueState s0 in
      if isGatewaySubordinateWorkAdmissionClosed (admission s) cur then (None, s)
      else
        let cleaned = normalizeLane l;
            (ls, s1) = getLaneState s cleaned;
            n = nextQueueSequence s1;
            entry = \<lparr>sequence = n, priority = resolveQueuePriority (opt_priority opts),
                     enqueuedAt = now,
                     warnAfterMs = (case opt_warnAfterMs opts of Some w \<Rightarrow> w | None \<Rightarrow> 2000),
                     queuedAheadAtEnqueue = 0, activeAheadAtEnqueue = 0,
                     taskTimeoutMs = normalizeTaskTimeoutMs (opt_taskTimeoutMs opts),
                     taskTimeoutAbortGraceMs = normalizeTaskTimeoutMs (opt_taskTimeoutAbortGraceMs opts)\<rparr>;
            s2 = s1\<lparr>nextQueueSequence := n + 1,
                    lanes := jm_set cleaned (enqueueLaneEntry ls entry) (lanes s1)\<rparr>
        in (Some n, drainLane s2 cleaned))"

text \<open>The promise of the task run \<open>taskId\<close> settles.\<close>

definition settleTask :: "queue_state \<Rightarrow> nat \<Rightarrow> settlement \<Rightarrow> queue_state" where
  "settleTask s taskId outcome =
     (case jm_get (inflight s) taskId of
        None \<Rightarrow> s
      | Some r \<Rightarrow>
          let s1 = s\<lparr>inflight := jm_del taskId (inflight s)\<rparr>;
              (ls, s2) = getLaneState s1 (runLane r);
              (current, ls1) = completeTask ls taskId (runGeneration r);
              s3 = s2\<lparr>lanes := jm_set (runLane r) ls1 (lanes s2)\<rparr>;
              s4 = (if current
                    then pump (notifyActiveTaskWaiters s3) ls1
                    else s3)
          in s4\<lparr>settled := settled s4 @ [(sequence (runEntry r), outcome)]\<rparr>)"

definition clearCommandLane :: "queue_state \<Rightarrow> string \<Rightarrow> nat \<times> queue_state" where
  "clearCommandLane s l =
     (let cleaned = normalizeLane l in
      case jm_get (lanes s) cleaned of
        None \<Rightarrow> (0, s)
      | Some ls \<Rightarrow>
          (length (queue ls),
           s\<lparr>lanes := jm_set cleaned (ls\<lparr>queue := []\<rparr>) (lanes s),
             settled := settled s @ map (\<lambda>e. (sequence e, Rejected CommandLaneCleared)) (queue ls)\<rparr>))"

definition idle_lane :: "lane_state \<Rightarrow> lane_state" where
  "idle_lane ls = ls\<lparr>generation := generation ls + 1, activeTaskIds := [], draining := False\<rparr>"

definition resetCommandLane :: "queue_state \<Rightarrow> string \<Rightarrow> nat \<times> queue_state" where
  "resetCommandLane s l =
     (let cleaned = normalizeLane l in
      case jm_get (lanes s) cleaned of
        None \<Rightarrow> (0, s)
      | Some ls \<Rightarrow>
          let s1 = s\<lparr>lanes := jm_set cleaned (idle_lane ls) (lanes s)\<rparr>;
              s2 = (if queue ls \<noteq> [] then drainLane s1 cleaned else s1)
          in (length (activeTaskIds ls), notifyActiveTaskWaiters s2))"

definition resetAllLanes :: "queue_state \<Rightarrow> queue_state" where
  "resetAllLanes s =
     (let s1 = s\<lparr>admission := resetGatewayWorkAdmission (admission s),
                 lanes := map (\<lambda>(l, ls). (l, idle_lane ls)) (lanes s)\<rparr>;
          lanesToDrain = map fst (filter (\<lambda>(_, ls). queue ls \<noteq> []) (lanes s));
          s2 = foldl drainLane s1 lanesToDrain
      in notifyActiveTaskWaiters s2)"

text \<open>
  \<^verbatim>\<open>waitForActiveTasks\<close>: an immediate answer, or a registered waiter (numbered, since the code
  identifies it by reference); \<open>waiterTimeout\<close> is its timer.
\<close>

definition waitForActiveTasks :: "queue_state \<Rightarrow> int option \<Rightarrow> (bool + nat) \<times> queue_state" where
  "waitForActiveTasks s timeoutMs =
     (let activeAtStart = remdups (concat (map (\<lambda>(_, ls). activeTaskIds ls) (lanes s)))
      in if activeAtStart = [] then (Inl True, s)
         else if (case timeoutMs of None \<Rightarrow> False | Some t \<Rightarrow> t \<le> 0) then (Inl False, s)
         else (Inr (nextWaiterId s), notifyActiveTaskWaiters
                 (s\<lparr>nextWaiterId := nextWaiterId s + 1,
                    activeTaskWaiters := activeTaskWaiters s @
                      [\<lparr>waiterId = nextWaiterId s, waitedTaskIds = activeAtStart\<rparr>]\<rparr>)))"

definition waiterTimeout :: "queue_state \<Rightarrow> nat \<Rightarrow> queue_state" where
  "waiterTimeout s w = resolveActiveTaskWaiter s w False"

section \<open>Queries\<close>

definition getQueueSize :: "queue_state \<Rightarrow> string \<Rightarrow> nat" where
  "getQueueSize s l =
     (case jm_get (lanes s) (normalizeLane l) of None \<Rightarrow> 0 | Some ls \<Rightarrow> getLaneDepth ls)"

record lane_snapshot =
  sn_lane :: string
  sn_queuedCount :: nat
  sn_activeCount :: nat
  sn_maxConcurrent :: jsnum
  sn_draining :: bool
  sn_generation :: nat

definition createCommandLaneSnapshot :: "lane_state \<Rightarrow> lane_snapshot" where
  "createCommandLaneSnapshot ls =
     \<lparr>sn_lane = lane ls, sn_queuedCount = length (queue ls),
      sn_activeCount = length (activeTaskIds ls), sn_maxConcurrent = maxConcurrent ls,
      sn_draining = draining ls, sn_generation = generation ls\<rparr>"

definition getCommandLaneSnapshot :: "queue_state \<Rightarrow> string \<Rightarrow> lane_snapshot" where
  "getCommandLaneSnapshot s l =
     (let resolved = normalizeLane l in
      case jm_get (lanes s) resolved of
        None \<Rightarrow> \<lparr>sn_lane = resolved, sn_queuedCount = 0, sn_activeCount = 0,
                 sn_maxConcurrent = JFin 1, sn_draining = False, sn_generation = 0\<rparr>
      | Some ls \<Rightarrow> createCommandLaneSnapshot ls)"

definition getCommandLaneActiveTaskIds :: "queue_state \<Rightarrow> string \<Rightarrow> nat list" where
  "getCommandLaneActiveTaskIds s l =
     (case jm_get (lanes s) (normalizeLane l) of None \<Rightarrow> [] | Some ls \<Rightarrow> activeTaskIds ls)"

definition getTotalQueueSize :: "queue_state \<Rightarrow> nat" where
  "getTotalQueueSize s = foldl (\<lambda>t (_, ls). t + getLaneDepth ls) 0 (lanes s)"

definition getActiveTaskCount :: "queue_state \<Rightarrow> nat" where
  "getActiveTaskCount s = foldl (\<lambda>t (_, ls). t + length (activeTaskIds ls)) 0 (lanes s)"

section \<open>Histories\<close>

datatype queue_op =
    Enqueue "nat option" string enqueue_opts int
  | SetConcurrency string jsnum
  | Settle nat settlement
  | Clear string
  | ResetLane string
  | ResetAll
  | WaitActive "int option"
  | WaiterTimeout nat
  | Admission admission_op

fun cq_step :: "queue_state \<Rightarrow> queue_op \<Rightarrow> queue_state" where
  "cq_step s (Enqueue cur l opts now) = snd (enqueueCommandInLane s cur l opts now)"
| "cq_step s (SetConcurrency l n) = setCommandLaneConcurrency s l n"
| "cq_step s (Settle i r) = settleTask s i r"
| "cq_step s (Clear l) = snd (clearCommandLane s l)"
| "cq_step s (ResetLane l) = snd (resetCommandLane s l)"
| "cq_step s ResetAll = resetAllLanes s"
| "cq_step s (WaitActive t) = snd (waitForActiveTasks s t)"
| "cq_step s (WaiterTimeout w) = waiterTimeout s w"
| "cq_step s (Admission a) = s\<lparr>admission := ga_step (admission s) a\<rparr>"

section \<open>Queue order\<close>

definition precedes :: "queue_entry \<Rightarrow> queue_entry \<Rightarrow> bool" where
  "precedes a b \<longleftrightarrow> priority a > priority b \<or> priority a = priority b \<and> sequence a < sequence b"

lemma precedes_trans: "precedes a b \<Longrightarrow> precedes b c \<Longrightarrow> precedes a c"
  by (auto simp: precedes_def)

lemma precedes_update [simp]:
  "precedes (e\<lparr>queuedAheadAtEnqueue := x, activeAheadAtEnqueue := y\<rparr>) b = precedes e b"
  "precedes b (e\<lparr>queuedAheadAtEnqueue := x, activeAheadAtEnqueue := y\<rparr>) = precedes b e"
  by (simp_all add: precedes_def)

lemma goes_before_precedes: "goes_before e q \<longleftrightarrow> precedes e q"
  by (auto simp: goes_before_def precedes_def)

lemma not_before: "sequence q \<noteq> sequence e \<Longrightarrow> \<not> goes_before e q \<longleftrightarrow> precedes q e"
  by (auto simp: goes_before_def precedes_def)

lemma enqueue_sorted:
  assumes "sorted_wrt precedes (queue ls)" and "sequence e \<notin> sequence ` set (queue ls)"
  shows "sorted_wrt precedes (queue (enqueueLaneEntry ls e))"
proof -
  let ?P = "\<lambda>q. \<not> goes_before e q"
  let ?a = "takeWhile ?P (queue ls)" and ?b = "dropWhile ?P (queue ls)"
  have q: "queue ls = ?a @ ?b" by simp
  then have srt: "sorted_wrt precedes ?a" "sorted_wrt precedes ?b"
    "\<forall>x \<in> set ?a. \<forall>y \<in> set ?b. precedes x y"
    using assms(1) by (metis sorted_wrt_append)+
  have a: "precedes x e" if "x \<in> set ?a" for x
    using that assms(2) set_takeWhileD [OF that] by (metis image_eqI not_before)
  have b: "precedes e y" if "y \<in> set ?b" for y
  proof -
    have ne: "?b \<noteq> []" using that by (intro notI) (simp only: list.set empty_iff)
    then obtain h t where ht: "?b = h # t" by (meson neq_Nil_conv)
    then have "goes_before e h" using hd_dropWhile [OF ne] by simp
    then show ?thesis
      using that srt(2) ht by (auto simp: goes_before_precedes intro: precedes_trans)
  qed
  show ?thesis
    using srt a b by (auto simp: enqueueLaneEntry_def Let_def sorted_wrt_append)
qed

lemma enqueue_mset:
  "mset (map sequence (queue (enqueueLaneEntry ls e))) =
     add_mset (sequence e) (mset (map sequence (queue ls)))"
proof -
  let ?P = "\<lambda>q. \<not> goes_before e q"
  have "mset (map sequence (queue ls)) =
      mset (map sequence (takeWhile ?P (queue ls))) + mset (map sequence (dropWhile ?P (queue ls)))"
    by (metis map_append mset_append takeWhile_dropWhile_id)
  then show ?thesis by (simp add: enqueueLaneEntry_def Let_def)
qed

lemma enqueue_fields [simp]:
  "lane (enqueueLaneEntry ls e) = lane ls"
  "activeTaskIds (enqueueLaneEntry ls e) = activeTaskIds ls"
  "maxConcurrent (enqueueLaneEntry ls e) = maxConcurrent ls"
  "draining (enqueueLaneEntry ls e) = draining ls"
  "generation (enqueueLaneEntry ls e) = generation ls"
  by (simp_all add: enqueueLaneEntry_def Let_def)

section \<open>What the pump does\<close>

definition start_run :: "lane_state \<Rightarrow> queue_entry \<Rightarrow> task_run" where
  "start_run ls e = \<lparr>runLane = lane ls, runGeneration = generation ls, runEntry = e\<rparr>"

definition started_lane :: "lane_state \<Rightarrow> nat \<Rightarrow> nat \<Rightarrow> lane_state" where
  "started_lane ls next n =
     ls\<lparr>queue := drop n (queue ls), activeTaskIds := activeTaskIds ls @ [next ..< next + n]\<rparr>"

text \<open>
  The pump starts a prefix of the queue, in order, with fresh task ids; it stops when the queue is
  empty or no slot is free, and every start had a free slot.
\<close>

lemma pumpLoop_prefix:
  "\<exists>n. pumpLoop ls next acc =
        (started_lane ls next n, next + n,
         acc @ zip [next ..< next + n] (map (start_run ls) (take n (queue ls)))) \<and>
      n \<le> length (queue ls) \<and>
      (drop n (queue ls) \<noteq> [] \<longrightarrow> \<not> below (length (activeTaskIds ls) + n) (maxConcurrent ls)) \<and>
      (\<forall>i < n. below (length (activeTaskIds ls) + i) (maxConcurrent ls))"
proof (induction ls "next" acc rule: pumpLoop.induct)
  case (1 ls "next" acc)
  show ?case
  proof (cases "below (length (activeTaskIds ls)) (maxConcurrent ls) \<and> queue ls \<noteq> []")
    case True
    then obtain e es where q: "queue ls = e # es" by (cases "queue ls") auto
    let ?ls = "ls\<lparr>queue := tl (queue ls), activeTaskIds := activeTaskIds ls @ [next]\<rparr>"
    have st: "start_run ?ls = start_run ls" by (simp add: fun_eq_iff start_run_def)
    from "1.IH" [OF True, folded start_run_def] obtain n where n:
      "pumpLoop ?ls (Suc next) (acc @ [(next, start_run ls (hd (queue ls)))]) =
        (started_lane ?ls (Suc next) n, Suc next + n,
         (acc @ [(next, start_run ls (hd (queue ls)))]) @
           zip [Suc next ..< Suc next + n] (map (start_run ls) (take n (queue ?ls))))"
      "n \<le> length (queue ?ls)"
      "drop n (queue ?ls) \<noteq> [] \<longrightarrow> \<not> below (length (activeTaskIds ?ls) + n) (maxConcurrent ls)"
      "\<forall>i < n. below (length (activeTaskIds ?ls) + i) (maxConcurrent ls)"
      unfolding st by auto
    have "[next ..< next + Suc n] = next # [Suc next ..< Suc next + n]"
      by (simp add: upt_rec)
    then have "pumpLoop ls next acc =
        (started_lane ls next (Suc n), next + Suc n,
         acc @ zip [next ..< next + Suc n] (map (start_run ls) (take (Suc n) (queue ls))))"
      using True n(1) q
      by (subst pumpLoop.simps) (simp add: started_lane_def flip: start_run_def)
    moreover have "below (length (activeTaskIds ls) + i) (maxConcurrent ls)" if "i < Suc n" for i
      using that True n(4) by (cases i) auto
    ultimately show ?thesis using n(2,3) q by (intro exI [of _ "Suc n"]) auto
  next
    case False
    then show ?thesis
      by (intro exI [of _ 0], subst pumpLoop.simps) (auto simp: started_lane_def)
  qed
qed

lemma pump_prefix:
  obtains n where
    "pump s ls = s\<lparr>lanes := jm_set (lane ls) ((started_lane ls (nextTaskId s) n)\<lparr>draining := False\<rparr>) (lanes s),
        nextTaskId := nextTaskId s + n,
        inflight := inflight s @ zip [nextTaskId s ..< nextTaskId s + n]
                                     (map (start_run ls) (take n (queue ls)))\<rparr>"
    and "n \<le> length (queue ls)"
    and "drop n (queue ls) \<noteq> [] \<longrightarrow> \<not> below (length (activeTaskIds ls) + n) (maxConcurrent ls)"
    and "\<forall>i < n. below (length (activeTaskIds ls) + i) (maxConcurrent ls)"
  using pumpLoop_prefix [of ls "nextTaskId s" "[]"]
  by (auto simp: pump_def started_lane_def intro!: that)

section \<open>The invariant\<close>

text \<open>The proofs below reason about lookups, not about membership in the association list.\<close>

declare map_of_eq_Some_iff [simp del] Some_eq_map_of_iff [simp del] map_of_append [simp del]

text \<open>Every sequence number handed out is queued, running or settled, exactly once.\<close>

definition queued_seqs :: "(string, lane_state) jsmap \<Rightarrow> nat multiset" where
  "queued_seqs m = sum_list (map (\<lambda>e. mset (map sequence (queue (snd e)))) m)"

definition running_seqs :: "(nat, task_run) jsmap \<Rightarrow> nat multiset" where
  "running_seqs m = mset (map (\<lambda>e. sequence (runEntry (snd e))) m)"

definition lane_ok :: "string \<Rightarrow> lane_state \<Rightarrow> bool" where
  "lane_ok k ls \<longleftrightarrow> lane ls = k \<and> \<not> draining ls \<and> sorted_wrt precedes (queue ls)
     \<and> distinct (activeTaskIds ls)"

text \<open>A lane agrees with the runs: its active tasks are the runs of its own generation.\<close>

definition fits_runs :: "queue_state \<Rightarrow> string \<Rightarrow> lane_state \<Rightarrow> bool" where
  "fits_runs s k ls \<longleftrightarrow>
     (\<forall>i \<in> set (activeTaskIds ls). \<exists>r. jm_get (inflight s) i = Some r \<and> runLane r = k
        \<and> runGeneration r = generation ls) \<and>
     (\<forall>i r. jm_get (inflight s) i = Some r \<longrightarrow> runLane r = k \<longrightarrow>
        runGeneration r \<le> generation ls \<and> (runGeneration r = generation ls \<longrightarrow> i \<in> set (activeTaskIds ls)))"

definition cq_core :: "queue_state \<Rightarrow> bool" where
  "cq_core s \<longleftrightarrow>
     jm_wf (lanes s) \<and> (\<forall>k ls. jm_get (lanes s) k = Some ls \<longrightarrow> lane_ok k ls \<and> fits_runs s k ls) \<and>
     jm_wf (inflight s) \<and> (\<forall>i \<in> set (map fst (inflight s)). i < nextTaskId s) \<and>
     (\<forall>i r. jm_get (inflight s) i = Some r \<longrightarrow> jm_get (lanes s) (runLane r) \<noteq> None) \<and>
     1 \<le> nextQueueSequence s \<and>
     queued_seqs (lanes s) + running_seqs (inflight s) + mset (map fst (settled s))
       = mset [1 ..< nextQueueSequence s]"

definition lane_busy :: "lane_state \<Rightarrow> bool" where
  "lane_busy ls \<longleftrightarrow> (queue ls \<noteq> [] \<longrightarrow> \<not> below (length (activeTaskIds ls)) (maxConcurrent ls))"

definition busy_at :: "queue_state \<Rightarrow> string \<Rightarrow> bool" where
  "busy_at s k \<longleftrightarrow> (\<forall>ls. jm_get (lanes s) k = Some ls \<longrightarrow> lane_busy ls)"

definition waiters_ok :: "queue_state \<Rightarrow> bool" where
  "waiters_ok s \<longleftrightarrow> (\<forall>w \<in> set (activeTaskWaiters s). hasPendingActiveTasks s (waitedTaskIds w))"

definition cq_inv :: "queue_state \<Rightarrow> bool" where
  "cq_inv s \<longleftrightarrow> cq_core s \<and> (\<forall>k. busy_at s k) \<and> waiters_ok s"

lemma queued_set:
  "queued_seqs (jm_set k v m) + (case jm_get m k of None \<Rightarrow> {#} | Some v0 \<Rightarrow> mset (map sequence (queue v0)))
     = queued_seqs m + mset (map sequence (queue v))"
  by (induction m) (auto simp: queued_seqs_def ac_simps split: option.splits)

lemma queued_mem:
  "jm_get m k = Some ls \<Longrightarrow> mset (map sequence (queue ls)) \<subseteq># queued_seqs m"
  by (induction m) (auto simp: queued_seqs_def intro: subset_mset.add_increasing split: if_splits)

lemma running_del:
  "jm_wf m \<Longrightarrow> jm_get m i = Some r \<Longrightarrow>
     add_mset (sequence (runEntry r)) (running_seqs (jm_del i m)) = running_seqs m"
proof (induction m)
  case (Cons e m)
  show ?case
  proof (cases "fst e = i")
    case True
    with Cons.prems have "jm_del i m = m" by (auto intro!: delete_idem)
    with True Cons.prems show ?thesis by (cases e) (simp add: running_seqs_def)
  next
    case False
    with Cons show ?thesis by (cases e) (auto simp: running_seqs_def add_mset_commute)
  qed
qed simp

lemma core_seq_bound:
  assumes "cq_core s" and "jm_get (lanes s) k = Some ls" and "e \<in> set (queue ls)"
  shows "1 \<le> sequence e \<and> sequence e < nextQueueSequence s"
proof -
  have "sequence e \<in># mset (map sequence (queue ls))" using assms(3) by simp
  then have "sequence e \<in># queued_seqs (lanes s)" using queued_mem [OF assms(2)] by (rule mset_subset_eqD [rotated])
  then have "sequence e \<in># mset [1 ..< nextQueueSequence s]"
    using assms(1) unfolding cq_core_def by (metis union_iff)
  then show ?thesis by auto
qed

text \<open>Operations that change neither lanes nor runs keep the core.\<close>

lemma core_cong:
  "lanes t = lanes s \<Longrightarrow> inflight t = inflight s \<Longrightarrow> nextTaskId t = nextTaskId s \<Longrightarrow>
   nextQueueSequence t = nextQueueSequence s \<Longrightarrow> settled t = settled s \<Longrightarrow> cq_core t = cq_core s"
  by (simp add: cq_core_def fits_runs_def)

lemma fold_max_le: "\<forall>x \<in> set xs. x \<le> m \<Longrightarrow> foldl max (m :: nat) xs = m"
  by (induction xs) (auto simp: max_def)

lemma getQueueState_id: "cq_core s \<Longrightarrow> getQueueState s = s"
proof -
  assume core: "cq_core s"
  have "x \<le> nextQueueSequence s - 1"
    if "x \<in> set (concat (map (\<lambda>(_, ls). map sequence (queue ls)) (lanes s)))" for x
  proof -
    from that obtain k ls e where e: "(k, ls) \<in> set (lanes s)" "e \<in> set (queue ls)" "x = sequence e" by auto
    then have "jm_get (lanes s) k = Some ls" using core by (simp add: cq_core_def map_of_eq_Some_iff)
    from core_seq_bound [OF core this e(2)] e(3) show ?thesis by linarith
  qed
  then have "foldl max (nextQueueSequence s - 1)
      (concat (map (\<lambda>(_, ls). map sequence (queue ls)) (lanes s))) = nextQueueSequence s - 1"
    by (intro fold_max_le) blast
  moreover have "1 \<le> nextQueueSequence s" using core by (simp add: cq_core_def)
  ultimately show ?thesis by (simp add: getQueueState_def Let_def)
qed

lemma lane_ok_fresh: "lane_ok k (fresh_lane k)"
  by (simp add: lane_ok_def fresh_lane_def)

lemma core_fits:
  "cq_core s \<Longrightarrow> jm_get (lanes s) k = Some ls \<Longrightarrow> fits_runs s k ls"
  by (simp add: cq_core_def)

lemma core_fits_fresh: "cq_core s \<Longrightarrow> jm_get (lanes s) k = None \<Longrightarrow> fits_runs s k (fresh_lane k)"
  by (fastforce simp: cq_core_def fits_runs_def fresh_lane_def)

lemma core_set_lane:
  assumes "cq_core s" and "lanes t = jm_set k ls (lanes s)" and "inflight t = inflight s"
    and "nextTaskId t = nextTaskId s" and "lane_ok k ls" and "fits_runs s k ls"
    and "1 \<le> nextQueueSequence t"
    and "queued_seqs (lanes t) + running_seqs (inflight s) + mset (map fst (settled t))
           = mset [1 ..< nextQueueSequence t]"
  shows "cq_core t"
  using assms unfolding cq_core_def fits_runs_def by (simp del: mset_upt)

lemma getLaneState_core:
  assumes "cq_core s" and "getLaneState s k = (ls, s1)"
  shows "cq_core s1 \<and> jm_get (lanes s1) k = Some ls"
proof (cases "jm_get (lanes s) k")
  case None
  with assms(2) have s1: "s1 = s\<lparr>lanes := jm_set k ls (lanes s)\<rparr>" and ls: "ls = fresh_lane k"
    by (auto simp: getLaneState_def)
  have "queued_seqs (lanes s1) = queued_seqs (lanes s)"
    using queued_set [of k ls "lanes s"] None by (simp add: s1 ls fresh_lane_def)
  then have "cq_core s1"
    using assms(1) core_fits_fresh [OF assms(1) None]
    by (intro core_set_lane [of s s1 k ls]) (auto simp: s1 ls lane_ok_fresh cq_core_def)
  then show ?thesis by (simp add: s1)
next
  case (Some a)
  with assms show ?thesis by (auto simp: getLaneState_def)
qed

lemma hasPending_iff:
  "jm_wf (lanes s) \<Longrightarrow> hasPendingActiveTasks s ids \<longleftrightarrow>
     (\<exists>k ls i. jm_get (lanes s) k = Some ls \<and> i \<in> set (activeTaskIds ls) \<and> i \<in> set ids)"
  by (fastforce simp: hasPendingActiveTasks_def list_ex_iff map_of_eq_Some_iff)

lemma mset_zip_runs:
  "length is = length es \<Longrightarrow> running_seqs (zip is (map (start_run ls) es)) = mset (map sequence es)"
  by (induction "is" es rule: list_induct2) (simp_all add: running_seqs_def start_run_def)

lemma running_append: "running_seqs (a @ b) = running_seqs a + running_seqs b"
  by (simp add: running_seqs_def)

subsection \<open>The pump\<close>

lemma started_lane_fields [simp]:
  "lane (started_lane ls m n) = lane ls" "generation (started_lane ls m n) = generation ls"
  "maxConcurrent (started_lane ls m n) = maxConcurrent ls" "draining (started_lane ls m n) = draining ls"
  "queue (started_lane ls m n) = drop n (queue ls)"
  "activeTaskIds (started_lane ls m n) = activeTaskIds ls @ [m ..< m + n]"
  by (simp_all add: started_lane_def)

lemma pump_draining_irrelevant: "pump s (ls\<lparr>draining := b\<rparr>) = pump s ls"
proof -
  have "pumpLoop (ls\<lparr>draining := b\<rparr>) m acc =
      (case pumpLoop ls m acc of (l, n, st) \<Rightarrow> (l\<lparr>draining := b\<rparr>, n, st))" for m acc
  proof (induction ls m acc rule: pumpLoop.induct)
    case (1 ls "next" acc)
    let ?ls = "ls\<lparr>queue := tl (queue ls), activeTaskIds := activeTaskIds ls @ [next]\<rparr>"
    have c: "ls\<lparr>draining := b, queue := tl (queue ls), activeTaskIds := activeTaskIds ls @ [next]\<rparr>
        = ?ls\<lparr>draining := b\<rparr>" by simp
    show ?case
    proof (cases "below (length (activeTaskIds ls)) (maxConcurrent ls) \<and> queue ls \<noteq> []")
      case True
      then show ?thesis using "1.IH" [OF True]
        by (subst (1 2) pumpLoop.simps) (simp del: lane_state.update_convs add: c)
    next
      case False
      then show ?thesis
        using pumpLoop.simps [of ls "next" acc] pumpLoop.simps [of "ls\<lparr>draining := b\<rparr>" "next" acc] by auto
    qed
  qed
  then show ?thesis by (simp add: pump_def split: prod.splits)
qed

lemma get_zip_runs:
  "length es = n \<Longrightarrow> jm_get (zip [m ..< m + n] (map (start_run ls) es)) i =
     (if m \<le> i \<and> i < m + n then Some (start_run ls (es ! (i - m))) else None)"
proof (induction es arbitrary: m n)
  case (Cons e es)
  then obtain n' where n': "n = Suc n'" "length es = n'" by auto
  have "[m ..< m + n] = m # [Suc m ..< Suc m + n']" using n' by (simp add: upt_rec)
  with Cons.IH [OF n'(2), of "Suc m"] show ?case
    by (auto simp: n' nth_Cons')
qed simp

lemma pump_core:
  assumes core: "cq_core s" and k: "jm_get (lanes s) k = Some ls"
  shows "cq_core (pump s ls) \<and> busy_at (pump s ls) k \<and>
    (\<forall>k'. k' \<noteq> k \<longrightarrow> jm_get (lanes (pump s ls)) k' = jm_get (lanes s) k') \<and>
    (\<forall>ls'. jm_get (lanes (pump s ls)) k = Some ls' \<longrightarrow> set (activeTaskIds ls) \<subseteq> set (activeTaskIds ls')) \<and>
    settled (pump s ls) = settled s \<and> activeTaskWaiters (pump s ls) = activeTaskWaiters s \<and>
    nextQueueSequence (pump s ls) = nextQueueSequence s \<and> jm_get (lanes (pump s ls)) k \<noteq> None"
proof -
  obtain n where p: "pump s ls = s\<lparr>lanes := jm_set (lane ls) ((started_lane ls (nextTaskId s) n)\<lparr>draining := False\<rparr>) (lanes s),
        nextTaskId := nextTaskId s + n,
        inflight := inflight s @ zip [nextTaskId s ..< nextTaskId s + n]
                                     (map (start_run ls) (take n (queue ls)))\<rparr>"
    and n: "n \<le> length (queue ls)"
      "drop n (queue ls) \<noteq> [] \<longrightarrow> \<not> below (length (activeTaskIds ls) + n) (maxConcurrent ls)"
    by (rule pump_prefix [of s ls])
  have ok: "lane_ok k ls" using core k by (simp add: cq_core_def)
  then have lane: "lane ls = k" by (simp add: lane_ok_def)
  let ?new = "(started_lane ls (nextTaskId s) n)\<lparr>draining := False\<rparr>"
  let ?runs = "zip [nextTaskId s ..< nextTaskId s + n] (map (start_run ls) (take n (queue ls)))"
  have old: "i < nextTaskId s" if "jm_get (inflight s) i = Some r" for i r
    using core jm_get_mem [OF that] by (fastforce simp: cq_core_def)
  have runs: "jm_get ?runs i = (if nextTaskId s \<le> i \<and> i < nextTaskId s + n
      then Some (start_run ls (take n (queue ls) ! (i - nextTaskId s))) else None)" for i
    using n by (intro get_zip_runs) simp
  have get: "jm_get (inflight s @ ?runs) i =
      (if i < nextTaskId s then jm_get (inflight s) i else jm_get ?runs i)" for i
    using old [of i] by (auto simp: map_of_append map_add_def runs split: option.splits)
  have active_old: "i < nextTaskId s" if "i \<in> set (activeTaskIds ls)" for i
    using core_fits [OF core k] that old by (auto simp: fits_runs_def)
  have "fits_runs s k ls" by (rule core_fits [OF core k])
  then have fits: "fits_runs (pump s ls) k ?new"
    using lane active_old trans_less_add1 [OF active_old, of _ n]
    by (auto simp: fits_runs_def p get runs start_run_def split: if_splits)
  have seqs: "queued_seqs (jm_set k ?new (lanes s)) + running_seqs ?runs = queued_seqs (lanes s)"
  proof -
    have "mset (map sequence (queue ls)) =
        mset (map sequence (take n (queue ls))) + mset (map sequence (drop n (queue ls)))"
      by (metis append_take_drop_id map_append mset_append)
    moreover have "running_seqs ?runs = mset (map sequence (take n (queue ls)))"
      using n by (intro mset_zip_runs) simp
    ultimately show ?thesis using queued_set [of k ?new "lanes s"] k by simp
  qed
  have wf: "jm_wf (inflight s @ ?runs)"
    using core n by (auto simp: cq_core_def)
  have okn: "lane_ok k ?new"
    using ok active_old by (fastforce simp: lane_ok_def sorted_wrt_drop)
  have others: "lane_ok k' l' \<and> fits_runs (pump s ls) k' l'"
    if "k' \<noteq> k" "jm_get (lanes s) k' = Some l'" for k' l'
  proof -
    have "lane_ok k' l'" using core that(2) by (simp add: cq_core_def)
    moreover have "fits_runs s k' l'" by (rule core_fits [OF core that(2)])
    ultimately show ?thesis
      using that(1) lane old trans_less_add1 [OF old, of _ _ n]
      by (auto simp: fits_runs_def p get runs start_run_def split: if_splits)
  qed
  have "jm_get (lanes (pump s ls)) (runLane r) \<noteq> None" if "jm_get (inflight (pump s ls)) i = Some r" for i r
    using that core lane by (auto simp: p get runs start_run_def cq_core_def split: if_splits)
  moreover have "jm_wf (lanes (pump s ls))" using core by (simp add: p cq_core_def)
  moreover have "\<forall>i \<in> set (map fst (inflight (pump s ls))). i < nextTaskId (pump s ls)"
    using core n by (auto simp: p cq_core_def dest!: set_zip_leftD)
  moreover have "lane_ok k' l' \<and> fits_runs (pump s ls) k' l'"
    if "jm_get (lanes (pump s ls)) k' = Some l'" for k' l'
    using that okn fits others [of k' l'] by (cases "k' = k") (simp_all add: p lane)
  moreover have "queued_seqs (lanes (pump s ls)) + running_seqs (inflight (pump s ls)) +
      mset (map fst (settled (pump s ls))) = mset [1 ..< nextQueueSequence (pump s ls)]"
    using core seqs by (simp add: p lane running_append cq_core_def ac_simps)
  moreover have "jm_wf (inflight (pump s ls))" "1 \<le> nextQueueSequence (pump s ls)"
    using wf core by (simp_all add: p cq_core_def)
  ultimately have "cq_core (pump s ls)" unfolding cq_core_def by blast
  moreover have "busy_at (pump s ls) k"
    using n by (auto simp: busy_at_def lane_busy_def p lane)
  ultimately show ?thesis using lane by (auto simp: p)
qed

text \<open>Starting tasks: what a drain of any number of lanes keeps.\<close>

definition keeps_active :: "queue_state \<Rightarrow> queue_state \<Rightarrow> bool" where
  "keeps_active s t \<longleftrightarrow> (\<forall>k ls. jm_get (lanes s) k = Some ls \<longrightarrow>
     (\<exists>ls'. jm_get (lanes t) k = Some ls' \<and> set (activeTaskIds ls) \<subseteq> set (activeTaskIds ls')))"

definition drained :: "queue_state \<Rightarrow> queue_state \<Rightarrow> bool" where
  "drained s t \<longleftrightarrow> cq_core t \<and> settled t = settled s \<and> activeTaskWaiters t = activeTaskWaiters s \<and>
     nextQueueSequence t = nextQueueSequence s \<and> (\<forall>k. busy_at s k \<longrightarrow> busy_at t k) \<and> keeps_active s t"

lemma drained_refl: "cq_core s \<Longrightarrow> drained s s"
  by (simp add: drained_def keeps_active_def)

lemma drained_trans: "drained s t \<Longrightarrow> drained t u \<Longrightarrow> drained s u"
  unfolding drained_def keeps_active_def by (intro conjI; (fastforce)?)

lemma keeps_active_waiters:
  assumes "keeps_active s t" "cq_core s" "cq_core t" "activeTaskWaiters t = activeTaskWaiters s" "waiters_ok s"
  shows "waiters_ok t"
proof -
  have "hasPendingActiveTasks t ids" if "hasPendingActiveTasks s ids" for ids
  proof -
    from that assms(2) obtain k ls i where
      "jm_get (lanes s) k = Some ls" "i \<in> set (activeTaskIds ls)" "i \<in> set ids"
      by (auto simp: hasPending_iff cq_core_def)
    with assms(1,3) show ?thesis by (fastforce simp: keeps_active_def hasPending_iff cq_core_def)
  qed
  with assms(4,5) show ?thesis by (simp add: waiters_ok_def)
qed

lemma pump_drained:
  assumes "cq_core s" and k: "jm_get (lanes s) k = Some ls"
  shows "drained s (pump s ls) \<and> busy_at (pump s ls) k"
proof -
  note p = pump_core [OF assms]
  have "busy_at (pump s ls) k'" if "busy_at s k'" for k'
    using that p by (cases "k' = k") (auto simp: busy_at_def)
  moreover have "keeps_active s (pump s ls)"
    unfolding keeps_active_def
  proof (intro allI impI)
    fix k' l' assume l': "jm_get (lanes s) k' = Some l'"
    show "\<exists>ls'. jm_get (lanes (pump s ls)) k' = Some ls' \<and> set (activeTaskIds l') \<subseteq> set (activeTaskIds ls')"
      using p l' k by (cases "k' = k") auto
  qed
  ultimately show ?thesis using p by (simp add: drained_def)
qed

lemma getLaneState_drained:
  assumes "cq_core s" and "getLaneState s k = (ls, s1)"
  shows "drained s s1 \<and> jm_get (lanes s1) k = Some ls"
proof (cases "jm_get (lanes s) k")
  case None
  with assms show ?thesis using getLaneState_core [OF assms]
    by (auto simp: getLaneState_def drained_def keeps_active_def busy_at_def fresh_lane_def lane_busy_def
        split: if_splits)
next
  case (Some a)
  with assms show ?thesis by (auto simp: getLaneState_def drained_refl)
qed

lemma drainLane_drained: "cq_core s \<Longrightarrow> drained s (drainLane s l) \<and> busy_at (drainLane s l) l"
proof -
  assume core: "cq_core s"
  obtain ls s1 where g: "getLaneState s l = (ls, s1)" by (cases "getLaneState s l")
  from getLaneState_drained [OF core g] have s1: "drained s s1" "jm_get (lanes s1) l = Some ls" by auto
  then have "\<not> draining ls" by (auto simp: drained_def cq_core_def lane_ok_def)
  then have "drainLane s l = pump s1 ls"
    by (simp add: drainLane_def g pump_draining_irrelevant)
  then show ?thesis
    using s1 pump_drained [of s1 l ls] drained_trans [OF s1(1)] by (auto simp: drained_def [of s s1])
qed

lemma drains_drained:
  "cq_core s \<Longrightarrow> drained s (foldl drainLane s ks) \<and> (\<forall>k \<in> set ks. busy_at (foldl drainLane s ks) k)"
proof (induction ks arbitrary: s)
  case (Cons k ks)
  note d = drainLane_drained [OF Cons.prems, of k]
  then have "cq_core (drainLane s k)" by (simp add: drained_def)
  from Cons.IH [OF this] d show ?case
    by (auto intro: drained_trans simp: drained_def [of "drainLane s k"])
qed (simp add: drained_refl)

lemma drained_inv:
  "drained s t \<Longrightarrow> cq_core s \<Longrightarrow> waiters_ok s \<Longrightarrow> \<forall>k. busy_at t k \<Longrightarrow> cq_inv t"
  by (auto simp: cq_inv_def drained_def intro: keeps_active_waiters)

subsection \<open>The waiters\<close>

lemma resolveWaiter_fields [simp]:
  "lanes (resolveActiveTaskWaiter s w b) = lanes s"
  "inflight (resolveActiveTaskWaiter s w b) = inflight s"
  "nextTaskId (resolveActiveTaskWaiter s w b) = nextTaskId s"
  "nextQueueSequence (resolveActiveTaskWaiter s w b) = nextQueueSequence s"
  "settled (resolveActiveTaskWaiter s w b) = settled s"
  "admission (resolveActiveTaskWaiter s w b) = admission s"
  "hasPendingActiveTasks (resolveActiveTaskWaiter s w b) = hasPendingActiveTasks s"
  by (simp_all add: resolveActiveTaskWaiter_def hasPendingActiveTasks_def fun_eq_iff)

lemma resolveWaiter_waiters:
  "set (activeTaskWaiters (resolveActiveTaskWaiter s w b)) = {x \<in> set (activeTaskWaiters s). waiterId x \<noteq> w}"
  by (auto simp: resolveActiveTaskWaiter_def)

lemma notify_fold:
  defines "f \<equiv> \<lambda>s w. if waitedTaskIds w = [] \<or> \<not> hasPendingActiveTasks s (waitedTaskIds w)
                  then resolveActiveTaskWaiter s (waiterId w) True else s"
  shows "let t = foldl f s ws in
    lanes t = lanes s \<and> inflight t = inflight s \<and> nextTaskId t = nextTaskId s \<and>
    nextQueueSequence t = nextQueueSequence s \<and> settled t = settled s \<and> admission t = admission s \<and>
    hasPendingActiveTasks t = hasPendingActiveTasks s \<and>
    set (activeTaskWaiters t) \<subseteq> set (activeTaskWaiters s) \<and>
    (\<forall>w \<in> set ws. w \<in> set (activeTaskWaiters t) \<longrightarrow> hasPendingActiveTasks s (waitedTaskIds w))"
proof (induction ws arbitrary: s)
  case (Cons w ws)
  have 1: "hasPendingActiveTasks (f s w) = hasPendingActiveTasks s"
    "set (activeTaskWaiters (f s w)) \<subseteq> set (activeTaskWaiters s)"
    "w \<in> set (activeTaskWaiters (f s w)) \<longrightarrow> hasPendingActiveTasks s (waitedTaskIds w)"
    by (auto simp: f_def resolveWaiter_waiters)
  have 2: "lanes (f s w) = lanes s" "inflight (f s w) = inflight s" "nextTaskId (f s w) = nextTaskId s"
    "nextQueueSequence (f s w) = nextQueueSequence s" "settled (f s w) = settled s"
    "admission (f s w) = admission s"
    by (simp_all add: f_def)
  define t where "t = foldl f (f s w) ws"
  note ih = Cons.IH [of "f s w", unfolded Let_def, folded t_def, unfolded 1 2]
  have "set (activeTaskWaiters t) \<subseteq> set (activeTaskWaiters s)" using ih 1(2) by blast
  moreover have "hasPendingActiveTasks s (waitedTaskIds x)"
    if "x \<in> set (w # ws)" "x \<in> set (activeTaskWaiters t)" for x
  proof (cases "x \<in> set ws")
    case True
    with that(2) ih show ?thesis by blast
  next
    case False
    with that have "x = w" by simp
    with that(2) ih 1(3) show ?thesis by blast
  qed
  ultimately show ?case using ih unfolding Let_def foldl_Cons t_def by blast
qed (simp add: Let_def)

lemma notify_fields [simp]:
  "lanes (notifyActiveTaskWaiters s) = lanes s" "inflight (notifyActiveTaskWaiters s) = inflight s"
  "nextTaskId (notifyActiveTaskWaiters s) = nextTaskId s"
  "nextQueueSequence (notifyActiveTaskWaiters s) = nextQueueSequence s"
  "settled (notifyActiveTaskWaiters s) = settled s"
  "admission (notifyActiveTaskWaiters s) = admission s"
  using notify_fold [of s "activeTaskWaiters s"] by (auto simp: notifyActiveTaskWaiters_def Let_def)

lemma notify_waiters: "waiters_ok (notifyActiveTaskWaiters s)"
proof -
  let ?t = "notifyActiveTaskWaiters s"
  have *: "hasPendingActiveTasks ?t = hasPendingActiveTasks s"
    "set (activeTaskWaiters ?t) \<subseteq> set (activeTaskWaiters s)"
    "\<forall>w \<in> set (activeTaskWaiters s). w \<in> set (activeTaskWaiters ?t) \<longrightarrow>
       hasPendingActiveTasks s (waitedTaskIds w)"
    using notify_fold [of s "activeTaskWaiters s", unfolded Let_def, folded notifyActiveTaskWaiters_def]
    by blast+
  show ?thesis unfolding waiters_ok_def *(1) using *(2,3) by blast
qed

lemma notify_inv: "cq_core s \<Longrightarrow> \<forall>k. busy_at s k \<Longrightarrow> cq_inv (notifyActiveTaskWaiters s)"
  by (simp add: cq_inv_def notify_waiters busy_at_def core_cong [of "notifyActiveTaskWaiters s" s])

subsection \<open>The operations keep the invariant\<close>

lemma fits_runs_cong:
  "fits_runs s k ls \<Longrightarrow> inflight t = inflight s \<Longrightarrow> activeTaskIds ls' = activeTaskIds ls \<Longrightarrow>
   generation ls' = generation ls \<Longrightarrow> fits_runs t k ls'"
  by (simp add: fits_runs_def)

lemma core_wf: "cq_core s \<Longrightarrow> 1 \<le> nextQueueSequence s"
  "cq_core s \<Longrightarrow> queued_seqs (lanes s) + running_seqs (inflight s) + mset (map fst (settled s))
       = mset [1 ..< nextQueueSequence s]"
  "cq_core s \<Longrightarrow> jm_get (lanes s) k = Some ls \<Longrightarrow> lane_ok k ls"
  by (simp_all add: cq_core_def)

lemma queued_replace:
  "jm_get (lanes s) k = Some ls \<Longrightarrow>
     queued_seqs (jm_set k v (lanes s)) + mset (map sequence (queue ls))
       = queued_seqs (lanes s) + mset (map sequence (queue v))"
  using queued_set [of k v "lanes s"] by simp

lemma below_mono: "below n q \<Longrightarrow> m \<le> n \<Longrightarrow> below m q"
  by (cases q) (auto intro: le_less_trans)

lemma mset_upt_Suc: "1 \<le> n \<Longrightarrow> mset [1 ..< n + 1] = add_mset n (mset [1 ..< n])"
  by simp

lemma enqueue_inv:
  assumes inv: "cq_inv s"
  shows "cq_inv (snd (enqueueCommandInLane s cur l opts now))"
proof (cases "isGatewaySubordinateWorkAdmissionClosed (admission s) cur")
  case True
  with inv show ?thesis by (simp add: enqueueCommandInLane_def getQueueState_id cq_inv_def)
next
  case False
  have core: "cq_core s" using inv by (simp add: cq_inv_def)
  let ?k = "normalizeLane l"
  obtain ls s1 where g: "getLaneState s ?k = (ls, s1)" by (cases "getLaneState s ?k")
  from getLaneState_drained [OF core g] have s1: "drained s s1" "jm_get (lanes s1) ?k = Some ls" by auto
  then have core1: "cq_core s1" by (simp add: drained_def)
  define e where "e = \<lparr>sequence = nextQueueSequence s1, priority = resolveQueuePriority (opt_priority opts),
      enqueuedAt = now,
      warnAfterMs = (case opt_warnAfterMs opts of Some w \<Rightarrow> w | None \<Rightarrow> 2000),
      queuedAheadAtEnqueue = 0, activeAheadAtEnqueue = 0,
      taskTimeoutMs = normalizeTaskTimeoutMs (opt_taskTimeoutMs opts),
      taskTimeoutAbortGraceMs = normalizeTaskTimeoutMs (opt_taskTimeoutAbortGraceMs opts)\<rparr>"
  define s2 where "s2 = s1\<lparr>nextQueueSequence := nextQueueSequence s1 + 1,
      lanes := jm_set ?k (enqueueLaneEntry ls e) (lanes s1)\<rparr>"
  have eq: "snd (enqueueCommandInLane s cur l opts now) = drainLane s2 ?k"
    using False by (simp add: enqueueCommandInLane_def Let_def getQueueState_id [OF core] g s2_def e_def)
  have seq: "sequence e = nextQueueSequence s1" by (simp add: e_def)
  have "sequence e \<notin> sequence ` set (queue ls)"
    using core_seq_bound [OF core1 s1(2)] by (fastforce simp: seq)
  then have ok: "lane_ok ?k (enqueueLaneEntry ls e)"
    using core_wf(3) [OF core1 s1(2)] by (simp add: lane_ok_def enqueue_sorted)
  have "queued_seqs (lanes s2) = add_mset (sequence e) (queued_seqs (lanes s1))"
    using queued_replace [OF s1(2), of "enqueueLaneEntry ls e"]
    by (simp add: s2_def enqueue_mset del: mset_map)
  then have seqs: "queued_seqs (lanes s2) + running_seqs (inflight s1) + mset (map fst (settled s2))
           = mset [1 ..< nextQueueSequence s2]"
    using core_wf(1,2) [OF core1] mset_upt_Suc [of "nextQueueSequence s1"]
    by (simp add: s2_def seq del: mset_upt upt_Suc)
  have core2: "cq_core s2"
    using seqs core1 ok fits_runs_cong [OF core_fits [OF core1 s1(2)]]
    by (intro core_set_lane [of s1 s2 ?k "enqueueLaneEntry ls e"]) (simp_all add: s2_def)
  note d = drainLane_drained [OF core2, of ?k]
  have "busy_at s2 k" if "k \<noteq> ?k" for k
    using that s1(1) inv by (simp add: s2_def busy_at_def drained_def cq_inv_def)
  then have "\<forall>k. busy_at (drainLane s2 ?k) k" using d by (metis drained_def)
  moreover have "waiters_ok s2"
  proof (rule keeps_active_waiters [of s1 s2])
    show "keeps_active s1 s2" using s1(2) by (auto simp: keeps_active_def s2_def)
    show "waiters_ok s1" using inv s1(1) by (auto simp: drained_def cq_inv_def intro: keeps_active_waiters)
    show "cq_core s2" by (rule core2)
  qed (simp_all add: core1 s2_def)
  ultimately show ?thesis unfolding eq using d core2 by (blast intro: drained_inv)
qed

lemma concurrency_inv:
  assumes inv: "cq_inv s"
  shows "cq_inv (setCommandLaneConcurrency s l m)"
proof -
  have core: "cq_core s" using inv by (simp add: cq_inv_def)
  let ?k = "normalizeLane l"
  obtain ls s1 where g: "getLaneState s ?k = (ls, s1)" by (cases "getLaneState s ?k")
  from getLaneState_drained [OF core g] have s1: "drained s s1" "jm_get (lanes s1) ?k = Some ls" by auto
  then have core1: "cq_core s1" by (simp add: drained_def)
  define ls1 where "ls1 = ls\<lparr>maxConcurrent := max_floor (if isQuietProbeLane ?k then 1 else 0) m\<rparr>"
  define s2 where "s2 = s1\<lparr>lanes := jm_set ?k ls1 (lanes s1)\<rparr>"
  have eq: "setCommandLaneConcurrency s l m =
      (if below 0 (maxConcurrent ls1) then drainLane s2 ?k else s2)"
    by (simp add: setCommandLaneConcurrency_def Let_def g s2_def ls1_def)
  have ok: "lane_ok ?k ls1" using core_wf(3) [OF core1 s1(2)] by (simp add: lane_ok_def ls1_def)
  have core2: "cq_core s2"
    using core1 ok fits_runs_cong [OF core_fits [OF core1 s1(2)]] core_wf(1,2) [OF core1]
      queued_replace [OF s1(2), of ls1]
    by (intro core_set_lane [of s1 s2 ?k ls1]) (simp_all add: s2_def ls1_def del: mset_upt)
  have others: "busy_at s2 k" if "k \<noteq> ?k" for k
    using that s1(1) inv by (simp add: s2_def busy_at_def drained_def cq_inv_def)
  have wt: "waiters_ok s2"
  proof (rule keeps_active_waiters [of s1 s2])
    show "keeps_active s1 s2" using s1(2) by (auto simp: keeps_active_def s2_def ls1_def)
    show "waiters_ok s1" using inv s1(1) by (auto simp: drained_def cq_inv_def intro: keeps_active_waiters)
    show "cq_core s2" by (rule core2)
  qed (simp_all add: core1 s2_def)
  show ?thesis
  proof (cases "below 0 (maxConcurrent ls1)")
    case True
    note d = drainLane_drained [OF core2, of ?k]
    have "\<forall>k. busy_at (drainLane s2 ?k) k" using d others by (metis drained_def)
    then show ?thesis using True d core2 wt eq by (auto intro: drained_inv)
  next
    case False
    then have "busy_at s2 ?k"
      using below_mono by (fastforce simp: busy_at_def lane_busy_def s2_def)
    then have "\<forall>k. busy_at s2 k" using others by metis
    then show ?thesis using False core2 wt eq by (simp add: cq_inv_def)
  qed
qed

lemma pump_settled:
  "pump (s\<lparr>settled := x\<rparr>) ls = (pump s ls)\<lparr>settled := x\<rparr>"
  "settled (pump s ls) = settled s"
  by (simp_all add: pump_def split: prod.splits)

lemma resolve_settled:
  "resolveActiveTaskWaiter (s\<lparr>settled := x\<rparr>) w b = (resolveActiveTaskWaiter s w b)\<lparr>settled := x\<rparr>"
  "hasPendingActiveTasks (s\<lparr>settled := x\<rparr>) = hasPendingActiveTasks s"
  by (simp_all add: resolveActiveTaskWaiter_def hasPendingActiveTasks_def fun_eq_iff)

lemma notify_settled:
  "notifyActiveTaskWaiters (s\<lparr>settled := x\<rparr>) = (notifyActiveTaskWaiters s)\<lparr>settled := x\<rparr>"
proof -
  have "foldl (\<lambda>s w. if waitedTaskIds w = [] \<or> \<not> hasPendingActiveTasks s (waitedTaskIds w)
                  then resolveActiveTaskWaiter s (waiterId w) True else s) (s\<lparr>settled := x\<rparr>) ws =
      (foldl (\<lambda>s w. if waitedTaskIds w = [] \<or> \<not> hasPendingActiveTasks s (waitedTaskIds w)
                  then resolveActiveTaskWaiter s (waiterId w) True else s) s ws)\<lparr>settled := x\<rparr>" for ws
    by (induction ws arbitrary: s) (simp_all add: resolve_settled)
  then show ?thesis by (simp add: notifyActiveTaskWaiters_def)
qed

lemma get_del_run:
  "cq_core s \<Longrightarrow> jm_get (inflight s) i = Some r \<Longrightarrow>
     running_seqs (inflight s) = add_mset (sequence (runEntry r)) (running_seqs (jm_del i (inflight s)))"
  by (rule running_del [symmetric]) (simp add: cq_core_def)

lemma settle_inv:
  assumes inv: "cq_inv s"
  shows "cq_inv (settleTask s i outcome)"
proof (cases "jm_get (inflight s) i")
  case None
  with inv show ?thesis by (simp add: settleTask_def)
next
  case (Some r)
  have core: "cq_core s" and wt: "waiters_ok s" and busy: "busy_at s k" for k
    using inv by (simp_all add: cq_inv_def)
  let ?k = "runLane r"
  from core Some obtain ls where ls: "jm_get (lanes s) ?k = Some ls"
    by (fastforce simp: cq_core_def)
  obtain cur ls1 where ct: "completeTask ls i (runGeneration r) = (cur, ls1)"
    by (cases "completeTask ls i (runGeneration r)")
  define s3 where "s3 = s\<lparr>inflight := jm_del i (inflight s), lanes := jm_set ?k ls1 (lanes s),
      settled := settled s @ [(sequence (runEntry r), outcome)]\<rparr>"
  have eq: "settleTask s i outcome = (if cur then pump (notifyActiveTaskWaiters s3) ls1 else s3)"
    using Some ls
    by (simp add: settleTask_def getLaneState_def ct s3_def Let_def pump_settled(2)
        flip: pump_settled(1) notify_settled)
  have same: "queue ls1 = queue ls" "lane ls1 = lane ls" "draining ls1 = draining ls"
    "maxConcurrent ls1 = maxConcurrent ls" "generation ls1 = generation ls"
    using ct by (auto simp: completeTask_def split: if_splits)
  have act: "set (activeTaskIds ls1) = set (activeTaskIds ls) - {i}" "distinct (activeTaskIds ls1)"
    using ct core_wf(3) [OF core ls] core_fits [OF core ls] Some
    by (auto simp: completeTask_def lane_ok_def fits_runs_def split: if_splits)
  have ok: "lane_ok ?k ls1" using core_wf(3) [OF core ls] act same by (simp add: lane_ok_def)
  have fits: "fits_runs s3 ?k ls1"
    using core_fits [OF core ls] by (simp add: fits_runs_def s3_def act same)
  have "lane_ok k l' \<and> fits_runs s3 k l'" if "jm_get (lanes s3) k = Some l'" for k l'
  proof (cases "k = ?k")
    case True
    with that ok fits show ?thesis by (simp add: s3_def)
  next
    case False
    with that have l': "jm_get (lanes s) k = Some l'" by (simp add: s3_def)
    from core_fits [OF core l'] core_wf(3) [OF core l'] Some False show ?thesis
      by (auto simp: fits_runs_def s3_def)
  qed
  moreover have "queued_seqs (jm_set ?k ls1 (lanes s)) = queued_seqs (lanes s)"
    using queued_replace [OF ls, of ls1] by (simp add: same)
  then have "queued_seqs (lanes s3) + running_seqs (inflight s3) + mset (map fst (settled s3))
      = mset [1 ..< nextQueueSequence s3]"
    using core_wf(2) [OF core] get_del_run [OF core Some] by (simp add: s3_def del: mset_upt)
  ultimately have core3: "cq_core s3"
    using core by (auto simp: cq_core_def s3_def set_jm_del keys_jm_del simp del: mset_upt)
  show ?thesis
  proof (cases cur)
    case True
    let ?t = "notifyActiveTaskWaiters s3"
    have coret: "cq_core ?t" using core3 by (simp add: core_cong [of ?t s3])
    have kt: "jm_get (lanes ?t) ?k = Some ls1" by (simp add: s3_def)
    note p = pump_drained [OF coret kt]
    have "busy_at ?t k" if "k \<noteq> ?k" for k using that busy [of k] by (simp add: busy_at_def s3_def)
    then have "\<forall>k. busy_at (pump ?t ls1) k" using p by (metis drained_def)
    then show ?thesis using True eq p coret notify_waiters by (auto intro: drained_inv)
  next
    case False
    then have "ls1 = ls" using ct by (auto simp: completeTask_def split: if_splits)
    then have l3: "jm_get (lanes s3) = jm_get (lanes s)" using ls by (auto simp: s3_def)
    have "keeps_active s s3" by (auto simp: keeps_active_def l3)
    moreover have "busy_at s3 k" for k using busy [of k] by (simp add: busy_at_def l3)
    ultimately show ?thesis
      using False eq core core3 wt keeps_active_waiters [of s s3] by (simp add: cq_inv_def s3_def)
  qed
qed

lemma clear_inv:
  assumes inv: "cq_inv s"
  shows "cq_inv (snd (clearCommandLane s l))"
proof (cases "jm_get (lanes s) (normalizeLane l)")
  case None
  with inv show ?thesis by (simp add: clearCommandLane_def Let_def)
next
  case (Some ls)
  have core: "cq_core s" using inv by (simp add: cq_inv_def)
  let ?k = "normalizeLane l" and ?t = "snd (clearCommandLane s l)" and ?ls = "ls\<lparr>queue := []\<rparr>"
  have t: "?t = s\<lparr>lanes := jm_set ?k ?ls (lanes s),
      settled := settled s @ map (\<lambda>e. (sequence e, Rejected CommandLaneCleared)) (queue ls)\<rparr>"
    by (simp add: clearCommandLane_def Let_def Some)
  have ok: "lane_ok ?k ?ls" using core_wf(3) [OF core Some] by (simp add: lane_ok_def)
  have q: "queued_seqs (jm_set ?k ?ls (lanes s)) + mset (map sequence (queue ls)) = queued_seqs (lanes s)"
    using queued_replace [OF Some, of ?ls] by simp
  have "queued_seqs (lanes ?t) + running_seqs (inflight s) + mset (map fst (settled ?t)) =
      (queued_seqs (jm_set ?k ?ls (lanes s)) + mset (map sequence (queue ls))) +
        running_seqs (inflight s) + mset (map fst (settled s))"
    by (simp add: t comp_def)
  also have "\<dots> = mset [1 ..< nextQueueSequence ?t]"
    using core_wf(2) [OF core] unfolding q by (simp add: t del: mset_upt)
  finally have "cq_core ?t"
    using core ok fits_runs_cong [OF core_fits [OF core Some]] core_wf(1) [OF core]
    by (intro core_set_lane [of s ?t ?k ?ls]) (simp_all add: t del: mset_upt)
  note coret = this
  have "keeps_active s ?t" using Some by (auto simp: t keeps_active_def)
  then have "waiters_ok ?t"
    using inv coret keeps_active_waiters [of s ?t] by (simp add: cq_inv_def t)
  moreover have "busy_at ?t k" for k
    using inv by (simp add: cq_inv_def busy_at_def lane_busy_def t)
  ultimately show ?thesis using coret by (simp add: cq_inv_def)
qed

lemma idle_ok: "lane_ok k ls \<Longrightarrow> lane_ok k (idle_lane ls)"
  by (simp add: lane_ok_def idle_lane_def)

lemma idle_fits: "fits_runs s k ls \<Longrightarrow> inflight t = inflight s \<Longrightarrow> fits_runs t k (idle_lane ls)"
  by (fastforce simp: fits_runs_def idle_lane_def)

lemma idle_fields [simp]:
  "queue (idle_lane ls) = queue ls" "activeTaskIds (idle_lane ls) = []"
  "maxConcurrent (idle_lane ls) = maxConcurrent ls" "generation (idle_lane ls) = Suc (generation ls)"
  by (simp_all add: idle_lane_def)

lemma resetLane_inv:
  assumes inv: "cq_inv s"
  shows "cq_inv (snd (resetCommandLane s l))"
proof (cases "jm_get (lanes s) (normalizeLane l)")
  case None
  with inv show ?thesis by (simp add: resetCommandLane_def Let_def)
next
  case (Some ls)
  have core: "cq_core s" using inv by (simp add: cq_inv_def)
  let ?k = "normalizeLane l"
  define s1 where "s1 = s\<lparr>lanes := jm_set ?k (idle_lane ls) (lanes s)\<rparr>"
  have core1: "cq_core s1"
    using core idle_ok core_wf(1,2) [OF core] core_wf(3) [OF core Some]
      idle_fits [OF core_fits [OF core Some]] queued_replace [OF Some, of "idle_lane ls"]
    by (intro core_set_lane [of s s1 ?k "idle_lane ls"]) (simp_all add: s1_def del: mset_upt)
  have others: "busy_at s1 k" if "k \<noteq> ?k" for k
    using that inv by (simp add: s1_def busy_at_def cq_inv_def)
  define s2 where "s2 = (if queue ls \<noteq> [] then drainLane s1 ?k else s1)"
  have eq: "snd (resetCommandLane s l) = notifyActiveTaskWaiters s2"
    by (simp add: resetCommandLane_def Let_def Some s1_def s2_def)
  have "cq_core s2 \<and> (\<forall>k. busy_at s2 k)"
  proof (cases "queue ls = []")
    case True
    then have "busy_at s1 ?k" by (simp add: busy_at_def s1_def lane_busy_def)
    then have "\<forall>k. busy_at s1 k" using others by metis
    with True core1 show ?thesis by (simp add: s2_def)
  next
    case False
    note d = drainLane_drained [OF core1, of ?k]
    have "\<forall>k. busy_at (drainLane s1 ?k) k" using d others by (metis drained_def)
    with False d show ?thesis by (simp add: s2_def drained_def)
  qed
  then show ?thesis unfolding eq by (blast intro: notify_inv)
qed

lemma get_map_lanes:
  "jm_get (map (\<lambda>(l, ls). (l, idle_lane ls)) m) k = map_option idle_lane (jm_get m k)"
  by (induction m) auto

lemma queued_map_idle: "queued_seqs (map (\<lambda>(l, ls). (l, idle_lane ls)) m) = queued_seqs m"
  by (induction m) (auto simp: queued_seqs_def)

lemma resetAll_inv:
  assumes inv: "cq_inv s"
  shows "cq_inv (resetAllLanes s)"
proof -
  have core: "cq_core s" using inv by (simp add: cq_inv_def)
  define s1 where "s1 = s\<lparr>admission := resetGatewayWorkAdmission (admission s),
                 lanes := map (\<lambda>(l, ls). (l, idle_lane ls)) (lanes s)\<rparr>"
  define ks where "ks = map fst (filter (\<lambda>(_, ls). queue ls \<noteq> []) (lanes s))"
  have eq: "resetAllLanes s = notifyActiveTaskWaiters (foldl drainLane s1 ks)"
    by (simp add: resetAllLanes_def Let_def s1_def ks_def)
  have get1: "jm_get (lanes s1) k = map_option idle_lane (jm_get (lanes s) k)" for k
    by (simp add: s1_def get_map_lanes)
  have "lane_ok k l1 \<and> fits_runs s1 k l1" if "jm_get (lanes s1) k = Some l1" for k l1
  proof -
    from that get1 obtain l0 where l0: "jm_get (lanes s) k = Some l0" "l1 = idle_lane l0" by auto
    with core_wf(3) [OF core l0(1)] idle_ok idle_fits [OF core_fits [OF core l0(1)], of s1]
    show ?thesis by (simp add: s1_def)
  qed
  moreover have "jm_wf (lanes s1)" using core by (simp add: s1_def cq_core_def comp_def case_prod_beta)
  moreover have "inflight s1 = inflight s" "nextTaskId s1 = nextTaskId s" "settled s1 = settled s"
    "nextQueueSequence s1 = nextQueueSequence s" "queued_seqs (lanes s1) = queued_seqs (lanes s)"
    by (simp_all add: s1_def queued_map_idle)
  ultimately have core1: "cq_core s1"
    using core by (auto simp: cq_core_def get1 simp del: mset_upt)
  note d = drains_drained [OF core1, of ks]
  have "busy_at (foldl drainLane s1 ks) k" for k
  proof (cases "k \<in> set ks")
    case True
    with d show ?thesis by blast
  next
    case False
    then have "queue l0 = []" if "jm_get (lanes s) k = Some l0" for l0
      using jm_get_mem [OF that] by (force simp: ks_def)
    then have "busy_at s1 k" by (auto simp: busy_at_def lane_busy_def get1)
    with d show ?thesis by (simp add: drained_def)
  qed
  with d show ?thesis unfolding eq by (simp add: notify_inv drained_def)
qed

lemma wait_inv: "cq_inv s \<Longrightarrow> cq_inv (snd (waitForActiveTasks s t))"
proof -
  assume inv: "cq_inv s"
  let ?s = "s\<lparr>nextWaiterId := nextWaiterId s + 1, activeTaskWaiters := activeTaskWaiters s @
      [\<lparr>waiterId = nextWaiterId s,
        waitedTaskIds = remdups (concat (map (\<lambda>(_, ls). activeTaskIds ls) (lanes s)))\<rparr>]\<rparr>"
  have "cq_core ?s" using inv core_cong [of ?s s] by (simp add: cq_inv_def)
  moreover have "\<forall>k. busy_at ?s k" using inv by (simp add: cq_inv_def busy_at_def)
  ultimately have "cq_inv (notifyActiveTaskWaiters ?s)" by (rule notify_inv)
  with inv show ?thesis by (simp add: waitForActiveTasks_def Let_def)
qed

lemma timeout_inv: "cq_inv s \<Longrightarrow> cq_inv (waiterTimeout s w)"
  by (simp add: cq_inv_def waiterTimeout_def busy_at_def waiters_ok_def resolveWaiter_waiters
      core_cong [of "resolveActiveTaskWaiter s w False" s])

lemma admission_inv: "cq_inv s \<Longrightarrow> cq_inv (s\<lparr>admission := a\<rparr>)"
  by (simp add: cq_inv_def busy_at_def waiters_ok_def hasPendingActiveTasks_def
      core_cong [of "s\<lparr>admission := a\<rparr>" s])

lemmas cq_ops_inv = enqueue_inv concurrency_inv settle_inv clear_inv resetLane_inv resetAll_inv
  wait_inv timeout_inv admission_inv

interpretation cqm: machine cq_step initial_queue cq_inv
proof unfold_locales
  show "cq_inv initial_queue"
    by (simp add: cq_inv_def cq_core_def busy_at_def waiters_ok_def initial_queue_def
        queued_seqs_def running_seqs_def)
  show "cq_inv (cq_step s e)" if "cq_inv s" for s e
    using that by (cases e) (simp_all add: cq_ops_inv)
qed

section \<open>Concurrency\<close>

text \<open>A lane whose slots and whose active tasks stay within \<open>B\<close>.\<close>

definition slots_ok :: "nat \<Rightarrow> lane_state \<Rightarrow> bool" where
  "slots_ok B ls \<longleftrightarrow> length (activeTaskIds ls) \<le> B \<and> (\<forall>i. below i (maxConcurrent ls) \<longrightarrow> i < B)"

definition all_within :: "nat \<Rightarrow> queue_state \<Rightarrow> bool" where
  "all_within B s \<longleftrightarrow> (\<forall>e \<in> set (lanes s). slots_ok B (snd e))"

lemma within_set:
  "all_within B s \<Longrightarrow> slots_ok B ls \<Longrightarrow> \<forall>e \<in> set (jm_set k ls (lanes s)). slots_ok B (snd e)"
  unfolding all_within_def by (rule ball_jm_set [where P = "\<lambda>_. slots_ok B"]) auto

lemma within_set_lane:
  "all_within B s \<Longrightarrow> slots_ok B ls \<Longrightarrow> lanes t = jm_set k ls (lanes s) \<Longrightarrow> all_within B t"
  using within_set [of B s ls k] by (simp add: all_within_def)

lemma within_get: "all_within B s \<Longrightarrow> jm_get (lanes s) k = Some ls \<Longrightarrow> slots_ok B ls"
  by (drule jm_get_mem) (auto simp: all_within_def)

lemma pump_within:
  assumes "all_within B s" "slots_ok B ls"
  shows "all_within B (pump s ls)"
proof -
  obtain n where p: "lanes (pump s ls) =
      jm_set (lane ls) ((started_lane ls (nextTaskId s) n)\<lparr>draining := False\<rparr>) (lanes s)"
    and n: "\<forall>i < n. below (length (activeTaskIds ls) + i) (maxConcurrent ls)"
    by (rule pump_prefix [of s ls]) simp
  have "length (activeTaskIds ls) + n \<le> B"
  proof (cases n)
    case (Suc m)
    with n have "below (length (activeTaskIds ls) + m) (maxConcurrent ls)" by simp
    with assms(2) Suc show ?thesis by (simp add: slots_ok_def Suc_le_eq)
  qed (use assms(2) in \<open>simp add: slots_ok_def\<close>)
  then have "slots_ok B ((started_lane ls (nextTaskId s) n)\<lparr>draining := False\<rparr>)"
    using assms(2) by (simp add: slots_ok_def)
  then show ?thesis using within_set [OF assms(1)] by (simp add: all_within_def p)
qed

lemma getLaneState_within:
  "all_within B s \<Longrightarrow> 1 \<le> B \<Longrightarrow> getLaneState s l = (ls, s1) \<Longrightarrow> all_within B s1 \<and> slots_ok B ls"
proof -
  assume a: "all_within B s" "1 \<le> B" "getLaneState s l = (ls, s1)"
  have "slots_ok B (fresh_lane l)" using a(2) by (simp add: slots_ok_def fresh_lane_def)
  with a show ?thesis
    using within_set [OF a(1), of "fresh_lane l" l] within_get [OF a(1)]
    by (auto simp: getLaneState_def all_within_def split: option.splits)
qed

lemma drainLane_within:
  assumes "all_within B s" "1 \<le> B"
  shows "all_within B (drainLane s l)"
proof -
  obtain ls s1 where g: "getLaneState s l = (ls, s1)" by (cases "getLaneState s l")
  from getLaneState_within [OF assms g] show ?thesis
    by (simp add: drainLane_def g pump_draining_irrelevant pump_within)
qed

lemma drains_within: "all_within B s \<Longrightarrow> 1 \<le> B \<Longrightarrow> all_within B (foldl drainLane s ks)"
  by (induction ks arbitrary: s) (simp_all add: drainLane_within)

lemma all_within_lanes: "lanes t = lanes s \<Longrightarrow> all_within B t = all_within B s"
  by (simp add: all_within_def)

text \<open>The reconfigurations that stay within the bound.\<close>

fun op_within :: "nat \<Rightarrow> queue_op \<Rightarrow> bool" where
  "op_within B (SetConcurrency l m) =
     (case max_floor (if isQuietProbeLane (normalizeLane l) then 1 else 0) m of
        JFin q \<Rightarrow> q \<le> of_nat B | JPosInf \<Rightarrow> False | _ \<Rightarrow> True)"
| "op_within B _ = True"

lemma op_within_below:
  "op_within B (SetConcurrency l m) \<Longrightarrow>
   below i (max_floor (if isQuietProbeLane (normalizeLane l) then 1 else 0) m) \<Longrightarrow> i < B"
  by (auto split: jsnum.splits if_splits)

lemma enqueue_within:
  assumes "all_within B s" "1 \<le> B"
  shows "all_within B (snd (enqueueCommandInLane s cur l opts now))"
proof -
  have "all_within B (getQueueState s)" using assms by (simp add: getQueueState_def Let_def all_within_def)
  moreover obtain ls s1 where g: "getLaneState (getQueueState s) (normalizeLane l) = (ls, s1)"
    by (cases "getLaneState (getQueueState s) (normalizeLane l)")
  ultimately have w: "all_within B s1" "slots_ok B ls" "all_within B (getQueueState s)"
    using getLaneState_within [OF _ assms(2) g] by auto
  then have "slots_ok B (enqueueLaneEntry ls e)" for e by (simp add: slots_ok_def)
  from drainLane_within [OF within_set_lane [OF w(1) this] assms(2)] w(3) show ?thesis
    by (simp add: enqueueCommandInLane_def Let_def g)
qed

lemma concurrency_within:
  assumes "all_within B s" "1 \<le> B" "op_within B (SetConcurrency l m)"
  shows "all_within B (setCommandLaneConcurrency s l m)"
proof -
  obtain ls s1 where g: "getLaneState s (normalizeLane l) = (ls, s1)"
    by (cases "getLaneState s (normalizeLane l)")
  note w = getLaneState_within [OF assms(1,2) g]
  then have "slots_ok B (ls\<lparr>maxConcurrent := max_floor (if isQuietProbeLane (normalizeLane l) then 1 else 0) m\<rparr>)"
    using op_within_below [OF assms(3)] by (simp add: slots_ok_def)
  from within_set_lane [OF w [THEN conjunct1] this] show ?thesis
    by (auto simp: setCommandLaneConcurrency_def Let_def g intro!: drainLane_within [OF _ assms(2)])
qed

lemma settle_within:
  assumes "all_within B s" "1 \<le> B"
  shows "all_within B (settleTask s i outcome)"
proof (cases "jm_get (inflight s) i")
  case (Some r)
  let ?s1 = "s\<lparr>inflight := jm_del i (inflight s)\<rparr>"
  obtain ls s2 where g: "getLaneState ?s1 (runLane r) = (ls, s2)" by (cases "getLaneState ?s1 (runLane r)")
  have "all_within B ?s1" using assms(1) by (simp add: all_within_def)
  from getLaneState_within [OF this assms(2) g] have w: "all_within B s2" "slots_ok B ls" by auto
  obtain cur ls1 where ct: "completeTask ls i (runGeneration r) = (cur, ls1)"
    by (cases "completeTask ls i (runGeneration r)")
  have "slots_ok B ls1"
    using ct w(2) by (auto simp: completeTask_def slots_ok_def intro: le_trans [OF length_filter_le] split: if_splits)
  moreover from within_set [OF w(1) this]
  have "all_within B (s2\<lparr>lanes := jm_set (runLane r) ls1 (lanes s2)\<rparr>)" by (simp add: all_within_def)
  ultimately have "all_within B (if cur
      then pump (notifyActiveTaskWaiters (s2\<lparr>lanes := jm_set (runLane r) ls1 (lanes s2)\<rparr>)) ls1
      else s2\<lparr>lanes := jm_set (runLane r) ls1 (lanes s2)\<rparr>)"
    by (simp add: pump_within all_within_lanes [of "notifyActiveTaskWaiters s" s for s])
  then show ?thesis
    by (simp add: settleTask_def Some Let_def g ct all_within_lanes [of "s\<lparr>settled := x\<rparr>" s for s x])
qed (simp add: settleTask_def assms)

lemma step_within:
  assumes "all_within B s" "1 \<le> B" "op_within B e"
  shows "all_within B (cq_step s e)"
proof -
  have idle: "slots_ok B (idle_lane ls)" if "slots_ok B ls" for ls using that by (simp add: slots_ok_def)
  have reset: "all_within B (snd (resetCommandLane s l))" for l
    using assms(1,2) within_set [OF assms(1) idle [OF within_get [OF assms(1)]]]
    by (auto simp: resetCommandLane_def Let_def drainLane_within
        all_within_lanes [of "notifyActiveTaskWaiters s" s for s]
        all_within_def [of _ "s\<lparr>lanes := x\<rparr>" for x] split: option.splits)
  have clear: "all_within B (snd (clearCommandLane s l))" for l
  proof (cases "jm_get (lanes s) (normalizeLane l)")
    case (Some ls)
    then have "slots_ok B (ls\<lparr>queue := []\<rparr>)" using within_get [OF assms(1)] by (simp add: slots_ok_def)
    from within_set [OF assms(1) this] show ?thesis by (simp add: clearCommandLane_def Some all_within_def)
  qed (simp add: clearCommandLane_def assms)
  have "all_within B (s\<lparr>admission := x, lanes := map (\<lambda>(l, ls). (l, idle_lane ls)) (lanes s)\<rparr>)" for x
    using assms(1) idle by (auto simp: all_within_def)
  then have all: "all_within B (resetAllLanes s)"
    by (simp add: resetAllLanes_def Let_def drains_within [OF _ assms(2)]
        all_within_lanes [of "notifyActiveTaskWaiters s" s for s])
  have wait: "all_within B (snd (waitForActiveTasks s t))" for t
    using assms(1) by (simp add: waitForActiveTasks_def Let_def all_within_def)
  show ?thesis
    using assms reset clear all wait
    by (cases e) (simp_all add: enqueue_within concurrency_within settle_within waiterTimeout_def
        all_within_def [of _ "resolveActiveTaskWaiter _ _ _"] all_within_def [of _ "s\<lparr>admission := x\<rparr>" for x],
        simp_all add: all_within_def)
qed

lemma run_within:
  "all_within B s \<Longrightarrow> 1 \<le> B \<Longrightarrow> list_all (op_within B) es \<Longrightarrow> all_within B (foldl cq_step s es)"
  by (induction es arbitrary: s) (simp_all add: step_within)

section \<open>Properties\<close>

definition queued_commands :: "queue_state \<Rightarrow> nat list" where
  "queued_commands s = concat (map (\<lambda>e. map sequence (queue (snd e))) (lanes s))"

definition running_commands :: "queue_state \<Rightarrow> nat list" where
  "running_commands s = map (\<lambda>e. sequence (runEntry (snd e))) (inflight s)"

lemma queued_commands_mset: "mset (queued_commands s) = queued_seqs (lanes s)"
  by (simp add: queued_commands_def queued_seqs_def mset_concat comp_def)

text \<open>
  C1. Whatever sequence of enqueues, completions, clears, resets, reconfigurations and
  admission changes happens, every command ever accepted is in exactly one of three places: a lane
  queue, a run in flight, or the log of settled promises. In particular no command is lost, run
  twice, or answered twice.
\<close>

theorem commands_settle_exactly_once:
  "mset (queued_commands (foldl cq_step initial_queue es) @
         running_commands (foldl cq_step initial_queue es) @
         map fst (settled (foldl cq_step initial_queue es)))
     = mset [1 ..< nextQueueSequence (foldl cq_step initial_queue es)]"
proof -
  have "cq_core (foldl cq_step initial_queue es)" using cqm.run_inv by (simp add: cq_inv_def)
  from core_wf(2) [OF this] show ?thesis
    by (simp only: mset_append queued_commands_mset running_commands_def running_seqs_def union_assoc)
qed

text \<open>
  C18. In every reachable state every lane is quiescent: its pump is not marked as running, its
  queue is ordered by priority and then by arrival, and it holds queued work only when all its
  slots are taken.
\<close>

theorem no_idle_lane_with_work:
  "list_all (\<lambda>(k, ls). \<not> draining ls \<and> sorted_wrt precedes (queue ls) \<and> lane_busy ls)
     (lanes (foldl cq_step initial_queue es))"
proof -
  let ?s = "foldl cq_step initial_queue es"
  have inv: "cq_inv ?s" by (rule cqm.run_inv)
  have "\<not> draining ls \<and> sorted_wrt precedes (queue ls) \<and> lane_busy ls" if "(k, ls) \<in> set (lanes ?s)" for k ls
  proof -
    have g: "jm_get (lanes ?s) k = Some ls"
      using inv that by (simp add: cq_inv_def cq_core_def map_of_eq_Some_iff)
    then show ?thesis using inv core_wf(3) [OF _ g] by (auto simp: cq_inv_def busy_at_def lane_ok_def)
  qed
  then show ?thesis by (auto simp: list_all_iff)
qed

lemma sorted_prefix_split:
  assumes "sorted_wrt precedes qs" and "\<forall>q \<in> set qs. sequence q < sequence e"
  shows "takeWhile (\<lambda>q. \<not> goes_before e q) qs = filter (\<lambda>q. priority e \<le> priority q) qs"
    and "dropWhile (\<lambda>q. \<not> goes_before e q) qs = filter (\<lambda>q. priority q < priority e) qs"
proof -
  have "goes_before e q \<longleftrightarrow> priority q < priority e" if "q \<in> set qs" for q
    using assms(2) that by (fastforce simp: goes_before_def)
  then have tw: "takeWhile (\<lambda>q. \<not> goes_before e q) qs = takeWhile (\<lambda>q. priority e \<le> priority q) qs"
    and dw: "dropWhile (\<lambda>q. \<not> goes_before e q) qs = dropWhile (\<lambda>q. priority e \<le> priority q) qs"
    by (auto intro!: takeWhile_cong dropWhile_cong)
  have "takeWhile (\<lambda>q. priority e \<le> priority q) qs = filter (\<lambda>q. priority e \<le> priority q) qs \<and>
    dropWhile (\<lambda>q. priority e \<le> priority q) qs = filter (\<lambda>q. priority q < priority e) qs"
    using assms(1)
  proof (induction qs)
    case (Cons q qs)
    show ?case
    proof (cases "priority e \<le> priority q")
      case False
      with Cons.prems have "\<forall>x \<in> set qs. priority x < priority e"
        by (fastforce simp: precedes_def)
      then have "filter (\<lambda>q. priority e \<le> priority q) qs = []" "filter (\<lambda>q. priority q < priority e) qs = qs"
        by (simp_all add: filter_empty_conv not_le)
      with False show ?thesis by simp
    qed (use Cons in simp)
  qed simp
  then show "takeWhile (\<lambda>q. \<not> goes_before e q) qs = filter (\<lambda>q. priority e \<le> priority q) qs"
    and "dropWhile (\<lambda>q. \<not> goes_before e q) qs = filter (\<lambda>q. priority q < priority e) qs"
    by (simp_all add: tw dw)
qed

text \<open>
  C17. Where a new command goes: behind every queued command of its priority or a higher one
  and in front of every command of a lower priority, the order of the others unchanged; the
  number of commands ahead of it that is recorded with it is the number it waits for.
\<close>

theorem enqueue_position:
  assumes "jm_get (lanes (foldl cq_step initial_queue es)) k = Some ls"
    and "sequence e = nextQueueSequence (foldl cq_step initial_queue es)"
  shows "queue (enqueueLaneEntry ls e) =
    filter (\<lambda>q. priority e \<le> priority q) (queue ls) @
    e\<lparr>queuedAheadAtEnqueue := length (filter (\<lambda>q. priority e \<le> priority q) (queue ls)),
      activeAheadAtEnqueue := length (activeTaskIds ls)\<rparr> #
    filter (\<lambda>q. priority q < priority e) (queue ls)"
proof -
  have core: "cq_core (foldl cq_step initial_queue es)" using cqm.run_inv by (simp add: cq_inv_def)
  have "sorted_wrt precedes (queue ls)" using core_wf(3) [OF core assms(1)] by (simp add: lane_ok_def)
  moreover have "\<forall>q \<in> set (queue ls). sequence q < sequence e"
    using core_seq_bound [OF core assms(1)] assms(2) by simp
  ultimately show ?thesis by (simp add: enqueueLaneEntry_def Let_def sorted_prefix_split)
qed

text \<open>
  C18. As long as no lane is configured for more than \<open>B\<close> slots, no lane ever has more than \<open>B\<close>
  tasks of its current generation running; with the default configuration each lane runs its
  commands one at a time.
\<close>

theorem lane_concurrency_bound:
  assumes "1 \<le> B" and "list_all (op_within B) es"
  shows "list_all (\<lambda>(k, ls). length (activeTaskIds ls) \<le> B) (lanes (foldl cq_step initial_queue es))"
proof -
  have "all_within B initial_queue" by (simp add: all_within_def initial_queue_def)
  from run_within [OF this assms] show ?thesis by (auto simp: all_within_def slots_ok_def list_all_iff)
qed

text \<open>
  No wake-up is lost: in every reachable state every registered waiter is still waiting for
  a task that some lane counts as active. When the last such task completes or is reset away, the
  waiter is answered in the same step.
\<close>

theorem no_lost_task_waiter:
  "list_all (\<lambda>w. hasPendingActiveTasks (foldl cq_step initial_queue es) (waitedTaskIds w))
     (activeTaskWaiters (foldl cq_step initial_queue es))"
  using cqm.run_inv [of es] by (simp add: cq_inv_def waiters_ok_def list_all_iff)

text \<open>
  Resetting a lane whose tasks never finish unblocks it: the lane gets a new generation,
  its active set holds only tasks started by the reset itself, queued work is kept and its
  first commands start at once, and a late completion of an old task changes no lane.
\<close>

theorem reset_unblocks_lane:
  assumes ls: "jm_get (lanes (foldl cq_step initial_queue es)) (normalizeLane l) = Some ls"
    and free: "below 0 (maxConcurrent ls)"
    and t: "t = snd (resetCommandLane (foldl cq_step initial_queue es) l)"
  shows "\<exists>ls' n. jm_get (lanes t) (normalizeLane l) = Some ls' \<and> generation ls' = Suc (generation ls) \<and>
    activeTaskIds ls' = [nextTaskId (foldl cq_step initial_queue es) ..<
      nextTaskId (foldl cq_step initial_queue es) + n] \<and>
    queue ls' = drop n (queue ls) \<and> (queue ls \<noteq> [] \<longrightarrow> 0 < n) \<and>
    (\<forall>i \<in> set (activeTaskIds ls). \<forall>outcome k.
       jm_get (lanes (settleTask t i outcome)) k = jm_get (lanes t) k)"
proof -
  let ?s = "foldl cq_step initial_queue es" and ?k = "normalizeLane l"
  have core: "cq_core ?s" using cqm.run_inv by (simp add: cq_inv_def)
  define s1 where "s1 = ?s\<lparr>lanes := jm_set ?k (idle_lane ls) (lanes ?s)\<rparr>"
  have lane: "lane ls = ?k" "lane (idle_lane ls) = ?k"
    using core_wf(3) [OF core ls] by (simp_all add: lane_ok_def idle_lane_def)
  have old: "\<exists>r. jm_get (inflight ?s) i = Some r \<and> runLane r = ?k \<and> runGeneration r = generation ls"
    if "i \<in> set (activeTaskIds ls)" for i
    using core_fits [OF core ls] that by (auto simp: fits_runs_def)
  have stale: "jm_get (lanes (settleTask u i out)) k = jm_get (lanes u) k"
    if "jm_get (inflight u) i = Some r" "runLane r = ?k" "runGeneration r = generation ls"
      "jm_get (lanes u) ?k = Some ls'" "generation ls' = Suc (generation ls)" for u i r ls' out k
    using that by (simp add: settleTask_def getLaneState_def completeTask_def Let_def)
  show ?thesis
  proof (cases "queue ls = []")
    case True
    then have tt: "t = notifyActiveTaskWaiters s1"
      by (simp add: t resetCommandLane_def Let_def ls s1_def)
    then have "jm_get (lanes t) ?k = Some (idle_lane ls)" "inflight t = inflight ?s"
      by (simp_all add: s1_def)
    with old stale show ?thesis
      by (intro exI [of _ "idle_lane ls"] exI [of _ 0]) (fastforce simp: True)
  next
    case False
    have "drainLane s1 ?k = pump s1 (idle_lane ls)"
      by (simp add: drainLane_def getLaneState_def s1_def pump_draining_irrelevant idle_lane_def)
    then have tt: "t = notifyActiveTaskWaiters (pump s1 (idle_lane ls))"
      using False by (simp add: t resetCommandLane_def Let_def ls s1_def)
    obtain n where p: "pump s1 (idle_lane ls) = s1\<lparr>
        lanes := jm_set (lane (idle_lane ls))
          ((started_lane (idle_lane ls) (nextTaskId s1) n)\<lparr>draining := False\<rparr>) (lanes s1),
        nextTaskId := nextTaskId s1 + n,
        inflight := inflight s1 @ zip [nextTaskId s1 ..< nextTaskId s1 + n]
          (map (start_run (idle_lane ls)) (take n (queue (idle_lane ls))))\<rparr>"
      and n: "drop n (queue (idle_lane ls)) \<noteq> [] \<longrightarrow>
        \<not> below (length (activeTaskIds (idle_lane ls)) + n) (maxConcurrent (idle_lane ls))"
      by (rule pump_prefix [of s1 "idle_lane ls"])
    let ?ls = "(started_lane (idle_lane ls) (nextTaskId ?s) n)\<lparr>draining := False\<rparr>"
    have get: "jm_get (lanes t) ?k = Some ?ls" unfolding tt notify_fields p by (simp add: lane s1_def)
    have "jm_get (inflight t) i = Some r" if "jm_get (inflight ?s) i = Some r" for i r
      using that unfolding tt notify_fields p by (simp add: s1_def map_of_append map_add_Some_iff)
    then have "\<forall>i \<in> set (activeTaskIds ls). \<forall>outcome k.
        jm_get (lanes (settleTask t i outcome)) k = jm_get (lanes t) k"
      using old stale [OF _ _ _ get] by fastforce
    moreover have "0 < n" using n free False by (cases n) auto
    ultimately show ?thesis
      using get by (intro exI [of _ ?ls] exI [of _ n]) simp
  qed
qed

section \<open>The properties at a concrete history\<close>

definition sample_opts :: "queue_priority \<Rightarrow> enqueue_opts" where
  "sample_opts p = \<lparr>opt_warnAfterMs = None, opt_priority = p, opt_taskTimeoutMs = None,
     opt_taskTimeoutAbortGraceMs = None\<rparr>"

definition sample_ops :: "queue_op list" where
  "sample_ops = [Enqueue None ''main'' (sample_opts NormalPriority) 0,
     Enqueue None ''main'' (sample_opts Background) 5,
     Enqueue None '' main'' (sample_opts NormalPriority) 6]"

definition sample_entry :: "nat \<Rightarrow> int \<Rightarrow> int \<Rightarrow> nat \<Rightarrow> nat \<Rightarrow> queue_entry" where
  "sample_entry n p t ahead active = \<lparr>sequence = n, priority = p, enqueuedAt = t, warnAfterMs = 2000,
     queuedAheadAtEnqueue = ahead, activeAheadAtEnqueue = active, taskTimeoutMs = None,
     taskTimeoutAbortGraceMs = None\<rparr>"

definition sample_lane :: lane_state where
  "sample_lane = \<lparr>lane = ''main'', queue = [sample_entry 3 0 6 0 1, sample_entry 2 (-1) 5 0 1],
     activeTaskIds = [1], maxConcurrent = JFin 1, draining = False, generation = 0\<rparr>"

lemma sample_run:
  "jm_get (lanes (foldl cq_step initial_queue sample_ops)) ''main'' = Some sample_lane"
  "nextQueueSequence (foldl cq_step initial_queue sample_ops) = 4"
  "nextTaskId (foldl cq_step initial_queue sample_ops) = 2"
  "normalizeLane '' '' = ''main''"
  by code_simp+

theorem enqueue_position_witness:
  "map sequence (queue (enqueueLaneEntry sample_lane (sample_entry 4 0 9 0 0))) = [3, 4, 2]"
  using enqueue_position [OF sample_run(1), of "sample_entry 4 0 9 0 0"]
  by (simp add: sample_run sample_lane_def sample_entry_def)

theorem lane_concurrency_bound_witness:
  "list_all (\<lambda>(k, ls). length (activeTaskIds ls) \<le> 1) (lanes (foldl cq_step initial_queue sample_ops))"
  by (rule lane_concurrency_bound) (simp_all add: sample_ops_def)

theorem reset_unblocks_lane_witness:
  "\<exists>ls'. jm_get (lanes (snd (resetCommandLane (foldl cq_step initial_queue sample_ops) '' ''))) ''main''
     = Some ls' \<and> generation ls' = 1 \<and> 2 \<in> set (activeTaskIds ls') \<and> 1 \<notin> set (activeTaskIds ls')"
  using reset_unblocks_lane [of sample_ops "'' ''" sample_lane, OF _ _ refl]
  by (fastforce simp: sample_run sample_lane_def)

end
