(* ===== verification/TaskTimeout.thy ===== *)
theory TaskTimeout
  imports CommandQueue
begin

text \<open>
  \<^verbatim>\<open>runQueueEntryTask\<close> of \<^verbatim>\<open>src/process/command-queue.ts\<close>: the watchdog that races a running task
  against a progress-aware timeout, an abort signal with a grace period and a release signal. The
  two promises of the race are one field, \<open>raced\<close>: the first settlement wins and the \<^verbatim>\<open>finally\<close> block
  disarms the timer and removes the listeners. Instants are milliseconds of one clock; the value
  the progress callback returns (\<open>VOther\<close> when it throws) comes with the event that reads it.
\<close>

section \<open>State and events\<close>

datatype timer_callback = ArmProgressTimeout | RejectForTimeout

record watchdog =
  wdTimeoutMs :: int
  wdGraceMs :: int
  startedAtMs :: int
  timer :: "(int \<times> timer_callback) option"
  abortListening :: bool
  releaseListening :: bool
  raced :: "settlement option"

datatype task_event =
    TimerDue int jsval
  | AbortSignal int
  | ReleaseSignal
  | TaskSettles settlement

text \<open>An optional \<^verbatim>\<open>AbortSignal\<close>: absent, or present and already aborted or not.\<close>

type_synonym signal = "bool option"

section \<open>Operations\<close>

definition readLastProgressAtMs :: "int \<Rightarrow> jsval \<Rightarrow> int" where
  "readLastProgressAtMs started v =
     (case v of
        VNum (JFin q) \<Rightarrow> if q > 0 then max started \<lfloor>q\<rfloor> else started
      | _ \<Rightarrow> started)"

definition settleRace :: "watchdog \<Rightarrow> settlement \<Rightarrow> watchdog" where
  "settleRace w r =
     (if raced w = None
      then w\<lparr>raced := Some r, timer := None, abortListening := False, releaseListening := False\<rparr>
      else w)"

definition rejectForTimeout :: "watchdog \<Rightarrow> watchdog" where
  "rejectForTimeout w = settleRace w (Rejected TaskTimedOut)"

definition armTimer :: "watchdog \<Rightarrow> int \<Rightarrow> int \<Rightarrow> timer_callback \<Rightarrow> (watchdog \<Rightarrow> watchdog) \<Rightarrow> watchdog" where
  "armTimer w now delayMs cb onTimeout =
     (if delayMs \<le> 0 then onTimeout (w\<lparr>timer := None\<rparr>)
      else w\<lparr>timer := Some (now + delayMs, cb)\<rparr>)"

text \<open>
  \<^verbatim>\<open>armProgressTimeout\<close> passes itself to \<^verbatim>\<open>armTimer\<close>, but only with a positive delay, so it is never
  called back at once.
\<close>

definition armProgressTimeout :: "watchdog \<Rightarrow> int \<Rightarrow> jsval \<Rightarrow> watchdog" where
  "armProgressTimeout w now progress =
     (let elapsedMs = max 0 (now - readLastProgressAtMs (startedAtMs w) progress);
          remainingMs = wdTimeoutMs w - elapsedMs
      in if remainingMs \<le> 0 then rejectForTimeout w
         else armTimer w now remainingMs ArmProgressTimeout (\<lambda>w. w))"

definition armAbortTimeout :: "watchdog \<Rightarrow> int \<Rightarrow> watchdog" where
  "armAbortTimeout w now = armTimer w now (wdGraceMs w) RejectForTimeout rejectForTimeout"

text \<open>The executor of the timeout promise. A task without a timeout has no watchdog (\<open>None\<close>).\<close>

definition startWatchdog :: "queue_entry \<Rightarrow> signal \<Rightarrow> signal \<Rightarrow> int \<Rightarrow> jsval \<Rightarrow> watchdog option" where
  "startWatchdog entry abortSignal releaseSignal now progress =
     (case normalizeTaskTimeoutMs (map_option (JFin \<circ> of_int) (taskTimeoutMs entry)) of
        None \<Rightarrow> None
      | Some t \<Rightarrow>
          let grace = (case normalizeTaskTimeoutMs
                              (map_option (JFin \<circ> of_int) (taskTimeoutAbortGraceMs entry)) of
                         None \<Rightarrow> t | Some g \<Rightarrow> g);
              w = \<lparr>wdTimeoutMs = t, wdGraceMs = grace, startedAtMs = now, timer = None,
                   abortListening = False, releaseListening = False, raced = None\<rparr>
          in if releaseSignal = Some True then Some (rejectForTimeout w)
             else if abortSignal = Some True then Some (armAbortTimeout w now)
             else let w1 = armProgressTimeout w now progress
                  in Some (if raced w1 = None
                           then w1\<lparr>abortListening := abortSignal \<noteq> None,
                                   releaseListening := releaseSignal \<noteq> None\<rparr>
                           else w1))"

fun wd_step :: "watchdog \<Rightarrow> task_event \<Rightarrow> watchdog" where
  "wd_step w (TimerDue now progress) =
     (case timer w of
        None \<Rightarrow> w
      | Some (due, cb) \<Rightarrow>
          if now < due then w
          else (case cb of
                  ArmProgressTimeout \<Rightarrow> armProgressTimeout w now progress
                | RejectForTimeout \<Rightarrow> rejectForTimeout w))"
| "wd_step w (AbortSignal now) =
     (if abortListening w then armAbortTimeout (w\<lparr>abortListening := False\<rparr>) now else w)"
| "wd_step w ReleaseSignal = (if releaseListening w then rejectForTimeout w else w)"
| "wd_step w (TaskSettles r) = settleRace w r"

section \<open>The invariant\<close>

lemma normalizeTaskTimeoutMs_range:
  "normalizeTaskTimeoutMs v = Some t \<Longrightarrow> 1 \<le> t \<and> t \<le> MAX_TIMER_TIMEOUT_MS"
  by (auto simp: normalizeTaskTimeoutMs_def clampPositiveTimerTimeoutMs_def
      clampTimerTimeoutMs_def asFiniteNumber.simps MAX_TIMER_TIMEOUT_MS_def
      split: option.splits jsnum.splits if_splits)

text \<open>
  Both delays are positive; the race is open exactly while a timer is armed, and listeners exist
  only then.
\<close>

definition wd_inv :: "watchdog \<Rightarrow> bool" where
  "wd_inv w \<longleftrightarrow> 1 \<le> wdTimeoutMs w \<and> 1 \<le> wdGraceMs w \<and>
     (raced w = None \<longleftrightarrow> timer w \<noteq> None) \<and>
     (raced w \<noteq> None \<longrightarrow> \<not> abortListening w \<and> \<not> releaseListening w)"

lemmas wd_ops = settleRace_def rejectForTimeout_def armTimer_def armProgressTimeout_def
  armAbortTimeout_def Let_def

lemma wd_step_inv: "wd_inv w \<Longrightarrow> wd_inv (wd_step w e)"
  by (cases e) (auto simp: wd_inv_def wd_ops split: option.splits timer_callback.splits)

lemma wd_run_inv: "wd_inv w \<Longrightarrow> wd_inv (foldl wd_step w es)"
  by (induction es arbitrary: w) (simp_all add: wd_step_inv)

lemma wd_step_config [simp]:
  "wdTimeoutMs (wd_step w e) = wdTimeoutMs w" "wdGraceMs (wd_step w e) = wdGraceMs w"
  "startedAtMs (wd_step w e) = startedAtMs w"
  by (cases e; simp add: wd_ops split: option.split timer_callback.split)+

lemma start_inv: "startWatchdog entry a r now p = Some w \<Longrightarrow> wd_inv w"
proof -
  assume s: "startWatchdog entry a r now p = Some w"
  then obtain t where t: "normalizeTaskTimeoutMs (map_option (JFin \<circ> of_int) (taskTimeoutMs entry)) = Some t"
    by (auto simp: startWatchdog_def split: option.splits)
  note range = normalizeTaskTimeoutMs_range [OF t]
    normalizeTaskTimeoutMs_range [of "map_option (JFin \<circ> of_int) (taskTimeoutAbortGraceMs entry)"]
  show ?thesis
    using s t range by (auto simp: startWatchdog_def wd_inv_def wd_ops split: option.splits if_splits)
qed

section \<open>Properties\<close>

text \<open>
  C39. A guarded task cannot hold its lane for ever: whatever signals and timer firings have
  occurred, while the race is open a timer is armed, and once it is due it either times the task
  out or, only if progress was reported within the timeout, is armed again for one timeout
  after that progress.
\<close>

theorem watchdog_always_releases:
  assumes "startWatchdog entry a r t0 p0 = Some w0"
    and "w = foldl wd_step w0 es" and "raced w = None"
  shows "\<exists>due cb. timer w = Some (due, cb) \<and> (\<forall>now p. due \<le> now \<longrightarrow>
    raced (wd_step w (TimerDue now p)) = Some (Rejected TaskTimedOut) \<or>
    cb = ArmProgressTimeout \<and> now - readLastProgressAtMs (startedAtMs w) p < wdTimeoutMs w \<and>
    timer (wd_step w (TimerDue now p)) =
      Some (min now (readLastProgressAtMs (startedAtMs w) p) + wdTimeoutMs w, ArmProgressTimeout))"
proof -
  have inv: "wd_inv w" using assms(1,2) by (simp add: start_inv wd_run_inv)
  then obtain due cb where t: "timer w = Some (due, cb)" using assms(3) by (auto simp: wd_inv_def)
  have "raced (wd_step w (TimerDue now p)) = Some (Rejected TaskTimedOut) \<or>
    cb = ArmProgressTimeout \<and> now - readLastProgressAtMs (startedAtMs w) p < wdTimeoutMs w \<and>
    timer (wd_step w (TimerDue now p)) =
      Some (min now (readLastProgressAtMs (startedAtMs w) p) + wdTimeoutMs w, ArmProgressTimeout)"
    if "due \<le> now" for now p
    using that t assms(3) inv
    by (cases cb) (auto simp: wd_ops wd_inv_def min_def max_def)
  with t show ?thesis by blast
qed

text \<open>A reason for a timeout among the events of a history.\<close>

definition timeout_reason :: "watchdog \<Rightarrow> task_event list \<Rightarrow> bool" where
  "timeout_reason w es \<longleftrightarrow>
     ReleaseSignal \<in> set es \<or> TaskSettles (Rejected TaskTimedOut) \<in> set es \<or>
     (\<exists>now p. TimerDue now p \<in> set es \<and> wdTimeoutMs w \<le> now - readLastProgressAtMs (startedAtMs w) p) \<or>
     (\<exists>now p t. TimerDue now p \<in> set es \<and> AbortSignal t \<in> set es \<and> t + wdGraceMs w \<le> now)"

lemma timeout_reason_mono:
  "timeout_reason w es \<Longrightarrow> timeout_reason w (es @ fs)"
  by (auto simp: timeout_reason_def)

lemma watchdog_reasons:
  assumes "wd_inv w0" and "raced w0 = None" and "\<forall>d. timer w0 \<noteq> Some (d, RejectForTimeout)"
  shows "(raced (foldl wd_step w0 es) = Some (Rejected TaskTimedOut) \<longrightarrow> timeout_reason w0 es) \<and>
    (\<forall>d. timer (foldl wd_step w0 es) = Some (d, RejectForTimeout) \<longrightarrow>
       (\<exists>t. AbortSignal t \<in> set es \<and> d = t + wdGraceMs w0)) \<and>
    wdTimeoutMs (foldl wd_step w0 es) = wdTimeoutMs w0 \<and>
    wdGraceMs (foldl wd_step w0 es) = wdGraceMs w0 \<and>
    startedAtMs (foldl wd_step w0 es) = startedAtMs w0"
proof (induction es rule: rev_induct)
  case Nil
  with assms show ?case by simp
next
  case (snoc e es)
  let ?w = "foldl wd_step w0 es"
  have inv: "wd_inv ?w" using assms(1) by (rule wd_run_inv)
  note ih = snoc.IH
  have "timeout_reason w0 (es @ [e])" if "raced (wd_step ?w e) = Some (Rejected TaskTimedOut)"
  proof (cases "raced ?w")
    case (Some x)
    then have "timer ?w = None" "\<not> abortListening ?w" "\<not> releaseListening ?w"
      using inv unfolding wd_inv_def by (metis option.distinct(1))+
    with Some that have "raced ?w = Some (Rejected TaskTimedOut)"
      by (cases e) (auto simp: wd_ops)
    with ih show ?thesis by (auto intro: timeout_reason_mono)
  next
    case None
    with that ih inv show ?thesis
      by (cases e) (fastforce simp: timeout_reason_def wd_ops wd_inv_def max_def
          split: option.splits if_splits timer_callback.splits)+
  qed
  moreover have "\<exists>t. AbortSignal t \<in> set (es @ [e]) \<and> d = t + wdGraceMs w0"
    if "timer (wd_step ?w e) = Some (d, RejectForTimeout)" for d
    using that ih inv
    by (cases e) (auto simp: wd_ops wd_inv_def split: option.splits if_splits timer_callback.splits)
  ultimately show ?case using ih by simp
qed

text \<open>
  No task is timed out without a reason: if the race ends with a timeout, then the release
  signal was given, or a timer fired a full timeout after the last reported progress, or a timer
  fired a full grace period after an abort (or the task itself failed with that error).
\<close>

theorem timeout_has_a_reason:
  assumes "startWatchdog entry a r t0 p0 = Some w0"
    and "a \<noteq> Some True" and "r \<noteq> Some True"
    and "raced (foldl wd_step w0 es) = Some (Rejected TaskTimedOut)"
  shows "timeout_reason w0 es"
proof -
  have inv: "wd_inv w0" using assms(1) by (rule start_inv)
  from assms(1) obtain t where
    t: "normalizeTaskTimeoutMs (map_option (JFin \<circ> of_int) (taskTimeoutMs entry)) = Some t"
    by (auto simp: startWatchdog_def split: option.splits)
  have "t0 \<le> readLastProgressAtMs t0 p0"
    by (auto simp: readLastProgressAtMs_def split: jsval.split jsnum.split)
  then have "raced w0 = None \<and> (\<forall>d. timer w0 \<noteq> Some (d, RejectForTimeout))"
    using assms(1-3) t normalizeTaskTimeoutMs_range [OF t]
    by (auto simp: startWatchdog_def wd_ops max_def split: option.splits if_splits)
  then have w: "raced w0 = None" "\<forall>d. timer w0 \<noteq> Some (d, RejectForTimeout)" by simp_all
  show ?thesis using watchdog_reasons [OF inv w, of es] assms(4) by (simp only: simp_thms)
qed

definition guarded_entry :: queue_entry where
  "guarded_entry = (sample_entry 1 0 0 0 0)\<lparr>taskTimeoutMs := Some 1000, taskTimeoutAbortGraceMs := Some 50\<rparr>"

lemma guarded_start:
  "startWatchdog guarded_entry (Some False) None 100 VOther =
     Some \<lparr>wdTimeoutMs = 1000, wdGraceMs = 50, startedAtMs = 100,
           timer = Some (1100, ArmProgressTimeout), abortListening = True,
           releaseListening = False, raced = None\<rparr>"
  by code_simp

theorem watchdog_always_releases_witness:
  "\<exists>due cb. timer (foldl wd_step \<lparr>wdTimeoutMs = 1000, wdGraceMs = 50, startedAtMs = 100,
           timer = Some (1100, ArmProgressTimeout), abortListening = True,
           releaseListening = False, raced = None\<rparr> [TimerDue 1100 (VNum (JFin 900))]) = Some (due, cb)
     \<and> due = 1900"
  using watchdog_always_releases [OF guarded_start refl, of "[TimerDue 1100 (VNum (JFin 900))]"]
  by (simp add: wd_ops readLastProgressAtMs_def)

theorem timeout_has_a_reason_witness:
  "timeout_reason \<lparr>wdTimeoutMs = 1000, wdGraceMs = 50, startedAtMs = 100,
           timer = Some (1100, ArmProgressTimeout), abortListening = True,
           releaseListening = False, raced = None\<rparr> [AbortSignal 300, TimerDue 350 VOther]"
  by (rule timeout_has_a_reason [OF guarded_start]) (simp_all add: wd_ops)

end
