(* ===== verification/AuthRateLimit.thy ===== *)
theory AuthRateLimit
  imports NumberCoercion "HOL-Library.Sublist"
begin

text \<open>
  \<^verbatim>\<open>src/gateway/auth-rate-limit.ts\<close>: failed authentication attempts per scope and client
  address, in a sliding window, with a lockout and a capped table. The address parser
  (\<^verbatim>\<open>resolveClientIp\<close>, \<^verbatim>\<open>isLoopbackAddress\<close> of \<^verbatim>\<open>src/gateway/net.ts\<close>) is a pair of functions in
  the configuration. The periodic sweep of the timer is the operation \<open>ArPrune\<close>.
\<close>

section \<open>Configuration\<close>

definition DEFAULT_MAX_ATTEMPTS :: int where "DEFAULT_MAX_ATTEMPTS = 10"
definition DEFAULT_WINDOW_MS :: int where "DEFAULT_WINDOW_MS = 60000"
definition DEFAULT_LOCKOUT_MS :: int where "DEFAULT_LOCKOUT_MS = 300000"
definition PRUNE_INTERVAL_MS :: int where "PRUNE_INTERVAL_MS = 60000"
definition DEFAULT_MAX_ENTRIES :: int where "DEFAULT_MAX_ENTRIES = 10000"

record rate_limit_config =
  rc_maxAttempts :: "int option"
  rc_windowMs :: jsval
  rc_lockoutMs :: jsval
  rc_exemptLoopback :: "bool option"
  rc_pruneIntervalMs :: "jsnum option"
  rc_maxEntries :: jsval

record limiter_cfg =
  maxAttempts :: int
  windowMs :: int
  lockoutMs :: int
  exemptLoopback :: bool
  pruneIntervalMs :: int
  maxEntries :: int
  resolveClientIp :: "string option \<Rightarrow> string option"
  isLoopbackAddress :: "string \<Rightarrow> bool"

definition resolvePruneIntervalMs :: "jsnum option \<Rightarrow> int" where
  "resolvePruneIntervalMs v =
     (case v of
        None \<Rightarrow> PRUNE_INTERVAL_MS
      | Some n \<Rightarrow>
          if (case n of JFin q \<Rightarrow> q \<le> 0 | _ \<Rightarrow> False) then 0
          else resolveTimerTimeoutMs (VNum n) (JFin (of_int PRUNE_INTERVAL_MS)) 1)"

definition createAuthRateLimiter ::
    "rate_limit_config \<Rightarrow> (string option \<Rightarrow> string option) \<Rightarrow> (string \<Rightarrow> bool) \<Rightarrow> limiter_cfg" where
  "createAuthRateLimiter c resolveIp loopback =
     \<lparr>maxAttempts = (case rc_maxAttempts c of Some n \<Rightarrow> n | None \<Rightarrow> DEFAULT_MAX_ATTEMPTS),
      windowMs = resolveTimerTimeoutMs (rc_windowMs c) (JFin (of_int DEFAULT_WINDOW_MS)) 0,
      lockoutMs = resolveTimerTimeoutMs (rc_lockoutMs c) (JFin (of_int DEFAULT_LOCKOUT_MS)) 0,
      exemptLoopback = (case rc_exemptLoopback c of Some b \<Rightarrow> b | None \<Rightarrow> True),
      pruneIntervalMs = resolvePruneIntervalMs (rc_pruneIntervalMs c),
      maxEntries = resolveIntegerOption (rc_maxEntries c) (of_int DEFAULT_MAX_ENTRIES) (Some 1) None,
      resolveClientIp = resolveIp,
      isLoopbackAddress = loopback\<rparr>"

section \<open>State\<close>

record rate_entry =
  attempts :: "int list"
  lockedUntil :: "int option"

record limiter =
  entries :: "(string, rate_entry) jsmap"
  overflowLockedUntil :: "int option"

record rate_limit_check_result =
  rl_allowed :: bool
  rl_remaining :: int
  rl_retryAfterMs :: int

definition empty_limiter :: limiter where
  "empty_limiter = \<lparr>entries = [], overflowLockedUntil = None\<rparr>"

text \<open>A stored instant is tested for truthiness, so an instant of zero counts as absent.\<close>

definition set_instant :: "int option \<Rightarrow> int option" where
  "set_instant u = (if u = Some 0 then None else u)"

definition is_locked :: "rate_entry \<Rightarrow> int \<Rightarrow> bool" where
  "is_locked e now = (case set_instant (lockedUntil e) of None \<Rightarrow> False | Some u \<Rightarrow> now < u)"

section \<open>Keys\<close>

definition BROWSER_ORIGIN_PREFIX :: string where "BROWSER_ORIGIN_PREFIX = ''browser-origin:''"
definition IDENTITY_PREFIX :: string where "IDENTITY_PREFIX = ''identity:''"

definition normalizeRateLimitClientIp :: "limiter_cfg \<Rightarrow> string option \<Rightarrow> string" where
  "normalizeRateLimitClientIp cfg ip =
     (case ip of
        Some s \<Rightarrow>
          if prefix BROWSER_ORIGIN_PREFIX s \<or> prefix IDENTITY_PREFIX s then s
          else (case resolveClientIp cfg ip of Some r \<Rightarrow> r | None \<Rightarrow> ''unknown'')
      | None \<Rightarrow> (case resolveClientIp cfg ip of Some r \<Rightarrow> r | None \<Rightarrow> ''unknown''))"

definition buildRateLimitIdentityKey :: "string \<Rightarrow> string \<Rightarrow> string" where
  "buildRateLimitIdentityKey ns identity = IDENTITY_PREFIX @ ns @ '':'' @ identity"

definition normalizeScope :: "string option \<Rightarrow> string" where
  "normalizeScope scope =
     (let t = js_trim (case scope of Some s \<Rightarrow> s | None \<Rightarrow> ''default'')
      in if t = [] then ''default'' else t)"

definition resolveKey :: "limiter_cfg \<Rightarrow> string option \<Rightarrow> string option \<Rightarrow> string \<times> string" where
  "resolveKey cfg rawIp rawScope =
     (let ip = normalizeRateLimitClientIp cfg rawIp
      in (normalizeScope rawScope @ '':'' @ ip, ip))"

definition isExempt :: "limiter_cfg \<Rightarrow> string \<Rightarrow> bool" where
  "isExempt cfg ip \<longleftrightarrow> exemptLoopback cfg \<and> isLoopbackAddress cfg ip"

section \<open>Operations\<close>

definition slideWindow :: "limiter_cfg \<Rightarrow> rate_entry \<Rightarrow> int \<Rightarrow> rate_entry" where
  "slideWindow cfg e now = e\<lparr>attempts := filter (\<lambda>ts. ts > now - windowMs cfg) (attempts e)\<rparr>"

fun pruneExpiredEntries ::
    "limiter_cfg \<Rightarrow> int \<Rightarrow> (string, rate_entry) jsmap \<Rightarrow> (string, rate_entry) jsmap" where
  "pruneExpiredEntries cfg now [] = []"
| "pruneExpiredEntries cfg now ((k, e) # m) =
     (if is_locked e now then (k, e) # pruneExpiredEntries cfg now m
      else let e' = slideWindow cfg e now in
        if attempts e' = [] then pruneExpiredEntries cfg now m
        else (k, e') # pruneExpiredEntries cfg now m)"

definition checkOverflowLock ::
    "limiter_cfg \<Rightarrow> limiter \<Rightarrow> int \<Rightarrow> rate_limit_check_result option \<times> limiter" where
  "checkOverflowLock cfg s now =
     (case set_instant (overflowLockedUntil s) of
        None \<Rightarrow> (None, s)
      | Some u \<Rightarrow>
          if now \<ge> u then (None, s\<lparr>overflowLockedUntil := None\<rparr>)
          else
            let s1 = (if int (length (entries s)) \<ge> maxEntries cfg
                      then s\<lparr>entries := pruneExpiredEntries cfg now (entries s)\<rparr> else s)
            in if int (length (entries s1)) < maxEntries cfg
               then (None, s1\<lparr>overflowLockedUntil := None\<rparr>)
               else (Some \<lparr>rl_allowed = False, rl_remaining = 0, rl_retryAfterMs = u - now\<rparr>, s1))"

text \<open>The loop that evicts the first entry that is not locked.\<close>

fun evictFirstUnlocked ::
    "int \<Rightarrow> (string, rate_entry) jsmap \<Rightarrow> (string, rate_entry) jsmap option" where
  "evictFirstUnlocked now [] = None"
| "evictFirstUnlocked now ((k, e) # m) =
     (if \<not> is_locked e now then Some m
      else map_option (\<lambda>m'. (k, e) # m') (evictFirstUnlocked now m))"

definition enforceMaxEntries :: "limiter_cfg \<Rightarrow> limiter \<Rightarrow> int \<Rightarrow> bool \<times> limiter" where
  "enforceMaxEntries cfg s now =
     (if int (length (entries s)) < maxEntries cfg then (True, s)
      else
        let s1 = s\<lparr>entries := pruneExpiredEntries cfg now (entries s)\<rparr>
        in if int (length (entries s1)) < maxEntries cfg then (True, s1)
           else (case evictFirstUnlocked now (entries s1) of
                   Some m \<Rightarrow> (True, s1\<lparr>entries := m\<rparr>)
                 | None \<Rightarrow> (False, s1)))"

definition ar_check ::
    "limiter_cfg \<Rightarrow> limiter \<Rightarrow> string option \<Rightarrow> string option \<Rightarrow> int
     \<Rightarrow> rate_limit_check_result \<times> limiter" where
  "ar_check cfg s rawIp rawScope now =
     (let (key, ip) = resolveKey cfg rawIp rawScope in
      if isExempt cfg ip
      then (\<lparr>rl_allowed = True, rl_remaining = maxAttempts cfg, rl_retryAfterMs = 0\<rparr>, s)
      else
        (case jm_get (entries s) key of
           None \<Rightarrow>
             (case checkOverflowLock cfg s now of
                (Some r, s1) \<Rightarrow> (r, s1)
              | (None, s1) \<Rightarrow>
                  (\<lparr>rl_allowed = True, rl_remaining = maxAttempts cfg, rl_retryAfterMs = 0\<rparr>, s1))
         | Some e \<Rightarrow>
             if is_locked e now then
               (\<lparr>rl_allowed = False, rl_remaining = 0, rl_retryAfterMs = the (lockedUntil e) - now\<rparr>, s)
             else
               let e1 = (if set_instant (lockedUntil e) \<noteq> None
                         then e\<lparr>lockedUntil := None, attempts := []\<rparr> else e);
                   e2 = slideWindow cfg e1 now;
                   remaining = max 0 (maxAttempts cfg - int (length (attempts e2)))
               in (\<lparr>rl_allowed = (remaining > 0), rl_remaining = remaining, rl_retryAfterMs = 0\<rparr>,
                   s\<lparr>entries := jm_set key e2 (entries s)\<rparr>)))"

text \<open>The part of \<^verbatim>\<open>recordFailure\<close> after the entry is found or created.\<close>

definition recordAttempt :: "limiter_cfg \<Rightarrow> rate_entry \<Rightarrow> int \<Rightarrow> rate_entry" where
  "recordAttempt cfg e now =
     (if is_locked e now then e
      else
        let e1 = slideWindow cfg e now;
            e2 = e1\<lparr>attempts := attempts e1 @ [now]\<rparr>
        in if int (length (attempts e2)) \<ge> maxAttempts cfg
           then e2\<lparr>lockedUntil := Some (now + lockoutMs cfg)\<rparr> else e2)"

definition ar_recordFailure ::
    "limiter_cfg \<Rightarrow> limiter \<Rightarrow> string option \<Rightarrow> string option \<Rightarrow> int \<Rightarrow> limiter" where
  "ar_recordFailure cfg s rawIp rawScope now =
     (let (key, ip) = resolveKey cfg rawIp rawScope in
      if isExempt cfg ip then s
      else
        (case jm_get (entries s) key of
           Some e \<Rightarrow> s\<lparr>entries := jm_set key (recordAttempt cfg e now) (entries s)\<rparr>
         | None \<Rightarrow>
             (case enforceMaxEntries cfg s now of
                (False, s1) \<Rightarrow>
                  s1\<lparr>overflowLockedUntil :=
                       Some (max (case overflowLockedUntil s1 of Some u \<Rightarrow> u | None \<Rightarrow> 0)
                                 (now + lockoutMs cfg))\<rparr>
              | (True, s1) \<Rightarrow>
                  s1\<lparr>entries := jm_set key
                       (recordAttempt cfg \<lparr>attempts = [], lockedUntil = None\<rparr> now) (entries s1)\<rparr>)))"

definition ar_reset ::
    "limiter_cfg \<Rightarrow> limiter \<Rightarrow> string option \<Rightarrow> string option \<Rightarrow> limiter" where
  "ar_reset cfg s rawIp rawScope =
     s\<lparr>entries := jm_del (fst (resolveKey cfg rawIp rawScope)) (entries s)\<rparr>"

definition ar_prune :: "limiter_cfg \<Rightarrow> limiter \<Rightarrow> int \<Rightarrow> limiter" where
  "ar_prune cfg s now = s\<lparr>entries := pruneExpiredEntries cfg now (entries s)\<rparr>"

definition ar_size :: "limiter \<Rightarrow> nat" where
  "ar_size s = length (entries s)"

definition ar_dispose :: "limiter \<Rightarrow> limiter" where
  "ar_dispose s = \<lparr>entries = [], overflowLockedUntil = None\<rparr>"

datatype limiter_op =
    ArCheck "string option" "string option" int
  | ArFailure "string option" "string option" int
  | ArReset "string option" "string option"
  | ArPrune int
  | ArDispose

fun ar_step :: "limiter_cfg \<Rightarrow> limiter \<Rightarrow> limiter_op \<Rightarrow> limiter" where
  "ar_step cfg s (ArCheck ip sc now) = snd (ar_check cfg s ip sc now)"
| "ar_step cfg s (ArFailure ip sc now) = ar_recordFailure cfg s ip sc now"
| "ar_step cfg s (ArReset ip sc) = ar_reset cfg s ip sc"
| "ar_step cfg s (ArPrune now) = ar_prune cfg s now"
| "ar_step cfg s ArDispose = ar_dispose s"

section \<open>The table: bounded, one entry per key\<close>

definition limiter_inv :: "limiter_cfg \<Rightarrow> limiter \<Rightarrow> bool" where
  "limiter_inv cfg s \<longleftrightarrow> jm_wf (entries s) \<and> int (length (entries s)) \<le> maxEntries cfg"

lemma prune_keys: "set (map fst (pruneExpiredEntries cfg now m)) \<subseteq> set (map fst m)"
  by (induction cfg now m rule: pruneExpiredEntries.induct) (auto simp: Let_def)

lemma prune_wf: "jm_wf m \<Longrightarrow> jm_wf (pruneExpiredEntries cfg now m)"
proof (induction cfg now m rule: pruneExpiredEntries.induct)
  case (2 cfg now k e m)
  then show ?case using prune_keys [of cfg now m] by (auto simp: Let_def)
qed simp

lemma prune_length: "length (pruneExpiredEntries cfg now m) \<le> length m"
  by (induction cfg now m rule: pruneExpiredEntries.induct) (auto simp: Let_def)

lemma prune_keeps_locked:
  "jm_get m k = Some e \<Longrightarrow> is_locked e now \<Longrightarrow> jm_get (pruneExpiredEntries cfg now m) k = Some e"
  by (induction cfg now m rule: pruneExpiredEntries.induct) (auto simp: Let_def split: if_splits)

lemma evict_split:
  "evictFirstUnlocked now m = Some m' \<Longrightarrow> \<exists>l p r. m = l @ p # r \<and> m' = l @ r"
proof (induction now m arbitrary: m' rule: evictFirstUnlocked.induct)
  case (2 now k e m)
  show ?case
  proof (cases "is_locked e now")
    case True
    with 2 obtain l p r where "m = l @ p # r" "m' = (k, e) # l @ r" by fastforce
    then show ?thesis by (metis append_Cons)
  next
    case False
    with 2 show ?thesis by (intro exI [of _ "[]"]) simp
  qed
qed simp

lemma evict_wf: "evictFirstUnlocked now m = Some m' \<Longrightarrow> jm_wf m \<Longrightarrow> jm_wf m'"
  by (auto dest!: evict_split)

lemma evict_length: "evictFirstUnlocked now m = Some m' \<Longrightarrow> Suc (length m') = length m"
  by (auto dest!: evict_split)

lemma evict_keeps_locked:
  "evictFirstUnlocked now m = Some m' \<Longrightarrow> jm_get m k = Some e \<Longrightarrow> is_locked e now
    \<Longrightarrow> jm_get m' k = Some e"
  by (induction now m arbitrary: m' rule: evictFirstUnlocked.induct) (auto split: if_splits)

lemma enforce_room:
  assumes "enforceMaxEntries cfg s now = (True, s1)" and "limiter_inv cfg s"
  shows "int (length (entries s1)) < maxEntries cfg \<and> jm_wf (entries s1)"
  using assms prune_length [of cfg now "entries s"]
  by (auto simp: enforceMaxEntries_def limiter_inv_def Let_def prune_wf
      split: if_splits option.splits dest: evict_wf evict_length)

lemma enforce_inv:
  "limiter_inv cfg s \<Longrightarrow> limiter_inv cfg (snd (enforceMaxEntries cfg s now))"
  using prune_length [of cfg now "entries s"]
  by (auto simp: enforceMaxEntries_def limiter_inv_def Let_def prune_wf
      split: option.splits dest: evict_wf evict_length)

lemma set_entry_inv:
  "limiter_inv cfg s \<Longrightarrow> jm_get (entries s) k = Some e0
    \<Longrightarrow> limiter_inv cfg (s\<lparr>entries := jm_set k e (entries s)\<rparr>)"
  by (simp add: limiter_inv_def length_jm_set_present)

lemma overflow_entries_inv:
  "limiter_inv cfg s \<Longrightarrow> limiter_inv cfg (s\<lparr>overflowLockedUntil := u\<rparr>)"
  by (simp add: limiter_inv_def)

lemma ar_prune_inv [inv_intros]: "limiter_inv cfg s \<Longrightarrow> limiter_inv cfg (ar_prune cfg s now)"
  using prune_length [of cfg now "entries s"]
  by (simp add: ar_prune_def limiter_inv_def prune_wf)

lemma checkOverflow_inv:
  "limiter_inv cfg s \<Longrightarrow> limiter_inv cfg (snd (checkOverflowLock cfg s now))"
  using ar_prune_inv [of cfg s now]
  by (auto simp: checkOverflowLock_def Let_def ar_prune_def overflow_entries_inv split: option.splits)

lemma ar_check_inv [inv_intros]: "limiter_inv cfg s \<Longrightarrow> limiter_inv cfg (snd (ar_check cfg s ip sc now))"
  using checkOverflow_inv [of cfg s now]
  by (auto simp: ar_check_def Let_def set_entry_inv split: prod.splits option.splits)

lemma ar_failure_inv [inv_intros]:
  assumes "limiter_inv cfg s"
  shows "limiter_inv cfg (ar_recordFailure cfg s ip sc now)"
proof (cases "enforceMaxEntries cfg s now")
  case (Pair ok s1)
  have "limiter_inv cfg (s1\<lparr>entries := jm_set k e (entries s1)\<rparr>)" if ok for k e
    using enforce_room [of cfg s now s1] assms Pair that length_jm_set_le [of k e "entries s1"]
    by (auto simp: limiter_inv_def)
  moreover have "limiter_inv cfg s1" using enforce_inv [OF assms, of now] Pair by simp
  ultimately show ?thesis
    using assms Pair
    by (auto simp: ar_recordFailure_def set_entry_inv overflow_entries_inv
        split: prod.splits option.splits bool.splits)
qed

lemma ar_reset_inv [inv_intros]: "limiter_inv cfg s \<Longrightarrow> limiter_inv cfg (ar_reset cfg s ip sc)"
  using length_jm_del_le [of "fst (resolveKey cfg ip sc)" "entries s"]
  by (simp add: ar_reset_def limiter_inv_def)

lemma ar_step_inv:
  "1 \<le> maxEntries cfg \<Longrightarrow> limiter_inv cfg s \<Longrightarrow> limiter_inv cfg (ar_step cfg s e)"
  by (cases e) (simp_all add: inv_intros ar_dispose_def, simp add: limiter_inv_def)

lemma created_maxEntries: "1 \<le> maxEntries (createAuthRateLimiter c f g)"
  by (simp add: createAuthRateLimiter_def resolveIntegerOption_ge)

interpretation arm: machine "ar_step (createAuthRateLimiter c f g)" empty_limiter
    "limiter_inv (createAuthRateLimiter c f g)" for c f g
proof unfold_locales
  show "limiter_inv (createAuthRateLimiter c f g) empty_limiter"
    using created_maxEntries [of c f g] by (simp add: limiter_inv_def empty_limiter_def)
qed (rule ar_step_inv [OF created_maxEntries])

section \<open>Lockouts\<close>

definition holds_lock :: "limiter \<Rightarrow> string \<Rightarrow> rate_entry \<Rightarrow> bool" where
  "holds_lock s key e \<longleftrightarrow> jm_wf (entries s) \<and> jm_get (entries s) key = Some e"

text \<open>The operations a lockout of \<open>key\<close> until \<open>u\<close> must survive.\<close>

fun before :: "limiter_cfg \<Rightarrow> string \<Rightarrow> int \<Rightarrow> limiter_op \<Rightarrow> bool" where
  "before cfg key u (ArCheck ip sc now) = (now < u)"
| "before cfg key u (ArFailure ip sc now) = (now < u)"
| "before cfg key u (ArReset ip sc) = (fst (resolveKey cfg ip sc) \<noteq> key)"
| "before cfg key u (ArPrune now) = (now < u)"
| "before cfg key u ArDispose = False"

lemma is_locked_until: "lockedUntil e = Some u \<Longrightarrow> u \<noteq> 0 \<Longrightarrow> is_locked e now \<longleftrightarrow> now < u"
  by (simp add: is_locked_def set_instant_def)

lemma enforce_keeps_lock:
  "holds_lock s key e \<Longrightarrow> is_locked e now \<Longrightarrow> enforceMaxEntries cfg s now = (b, s1) \<Longrightarrow> holds_lock s1 key e"
  by (auto simp: enforceMaxEntries_def holds_lock_def Let_def prune_wf prune_keeps_locked
      split: if_splits option.splits intro: evict_wf evict_keeps_locked)

lemma overflow_keeps_lock:
  "holds_lock s key e \<Longrightarrow> is_locked e now \<Longrightarrow> checkOverflowLock cfg s now = (r, s1) \<Longrightarrow> holds_lock s1 key e"
  by (auto simp: checkOverflowLock_def holds_lock_def Let_def prune_wf prune_keeps_locked
      split: if_splits option.splits)

lemma step_keeps_lock:
  assumes h: "holds_lock s key e" and u: "lockedUntil e = Some u" "u \<noteq> 0" and b: "before cfg key u op"
  shows "holds_lock (ar_step cfg s op) key e"
proof (cases op)
  case (ArCheck ip sc now)
  then have l: "is_locked e now" using u b by (simp add: is_locked_until)
  then show ?thesis
    using h ArCheck overflow_keeps_lock [OF h l]
    by (auto simp: ar_check_def Let_def split: prod.splits option.splits)
      (auto simp: holds_lock_def)
next
  case (ArFailure ip sc now)
  then have l: "is_locked e now" using u b by (simp add: is_locked_until)
  then show ?thesis
    using h ArFailure enforce_keeps_lock [OF h l]
    by (auto simp: ar_recordFailure_def recordAttempt_def Let_def
        split: prod.splits option.splits bool.splits)
      (auto simp: holds_lock_def)
next
  case (ArReset ip sc)
  then show ?thesis using h b by (simp add: ar_reset_def holds_lock_def)
next
  case (ArPrune now)
  then have "is_locked e now" using u b by (simp add: is_locked_until)
  then show ?thesis
    using h ArPrune by (simp add: ar_prune_def holds_lock_def prune_wf prune_keeps_locked)
qed (use b in simp)

lemma run_keeps_lock:
  "holds_lock s key e \<Longrightarrow> lockedUntil e = Some u \<Longrightarrow> u \<noteq> 0 \<Longrightarrow> list_all (before cfg key u) ops
    \<Longrightarrow> holds_lock (foldl (ar_step cfg) s ops) key e"
  by (induction ops arbitrary: s) (auto intro: step_keeps_lock)

section \<open>Properties\<close>

text \<open>
  The limiter built from any configuration keeps one entry per scope and client and never
  more entries than its cap, over every history of checks, failures, resets, sweeps and disposal.
\<close>

theorem auth_limiter_bounded:
  "let cfg = createAuthRateLimiter c f g; s = foldl (ar_step cfg) empty_limiter ops in
     jm_wf (entries s) \<and> int (ar_size s) \<le> maxEntries cfg"
  using arm.run_inv [of c f g ops] by (simp add: limiter_inv_def ar_size_def Let_def)

text \<open>
  C15. A lockout cannot be evicted: once a client is locked until \<open>u\<close>, no flood of checks,
  failures, sweeps and resets by anyone else shortens it, and every check of that client before
  \<open>u\<close> is refused with exactly the remaining time.
\<close>

theorem auth_lockout_survives:
  assumes "jm_wf (entries s)" and "resolveKey cfg rawIp rawScope = (key, ip)"
    and "\<not> isExempt cfg ip"
    and "jm_get (entries s) key = Some e" and "lockedUntil e = Some u" and "u \<noteq> 0"
    and "list_all (before cfg key u) ops" and "t < u"
  shows "fst (ar_check cfg (foldl (ar_step cfg) s ops) rawIp rawScope t) =
           \<lparr>rl_allowed = False, rl_remaining = 0, rl_retryAfterMs = u - t\<rparr>"
proof -
  have "holds_lock (foldl (ar_step cfg) s ops) key e"
    using assms by (intro run_keeps_lock) (auto simp: holds_lock_def)
  then show ?thesis
    using assms by (simp add: ar_check_def holds_lock_def is_locked_until)
qed

definition test_cfg :: limiter_cfg where
  "test_cfg = createAuthRateLimiter
     \<lparr>rc_maxAttempts = Some 2, rc_windowMs = VOther, rc_lockoutMs = int_val 100,
      rc_exemptLoopback = None, rc_pruneIntervalMs = None, rc_maxEntries = int_val 1\<rparr>
     (\<lambda>ip. ip) (\<lambda>ip. ip = ''127.0.0.1'')"

definition locked_state :: limiter where
  "locked_state = \<lparr>entries = [(''default:9.9.9.9'', \<lparr>attempts = [5, 6], lockedUntil = Some 106\<rparr>)],
                   overflowLockedUntil = None\<rparr>"

lemma test_cfg_fields:
  "maxAttempts test_cfg = 2" "windowMs test_cfg = 60000" "lockoutMs test_cfg = 100"
  "maxEntries test_cfg = 1" "resolveClientIp test_cfg = (\<lambda>ip. ip)"
  "isLoopbackAddress test_cfg = (\<lambda>ip. ip = ''127.0.0.1'')" "exemptLoopback test_cfg = True"
  by (simp_all add: test_cfg_def createAuthRateLimiter_def resolveTimerTimeoutMs_def
      resolveIntegerOption_def MAX_TIMER_TIMEOUT_MS_def DEFAULT_WINDOW_MS_def)

lemma test_key:
  "resolveKey test_cfg (Some ''9.9.9.9'') None = (''default:9.9.9.9'', ''9.9.9.9'')"
  by (simp add: resolveKey_def Let_def normalizeRateLimitClientIp_def normalizeScope_def js_trim_def
      is_js_space_def test_cfg_fields BROWSER_ORIGIN_PREFIX_def IDENTITY_PREFIX_def)

theorem auth_lockout_survives_witness:
  "fst (ar_check test_cfg (foldl (ar_step test_cfg) locked_state
      [ArFailure (Some ''1.2.3.4'') None 50, ArPrune 60]) (Some ''9.9.9.9'') None 70) =
     \<lparr>rl_allowed = False, rl_remaining = 0, rl_retryAfterMs = 36\<rparr>"
proof -
  have a: "jm_wf (entries locked_state)"
    and b: "jm_get (entries locked_state) ''default:9.9.9.9'' =
       Some \<lparr>attempts = [5, 6], lockedUntil = Some 106\<rparr>"
    by (simp_all add: locked_state_def)
  have c: "\<not> isExempt test_cfg ''9.9.9.9''" by (simp add: isExempt_def test_cfg_fields)
  show ?thesis
    using auth_lockout_survives [OF a test_key c b, of 106
        "[ArFailure (Some ''1.2.3.4'') None 50, ArPrune 60]" 70] by simp
qed

text \<open>
  Failures count up to the threshold: with the client's recent failures all inside the
  window and no lockout, a further failure locks the client exactly when it is the last allowed
  one, and otherwise leaves precisely the remaining attempts a check then reports.
\<close>

theorem auth_failure_threshold:
  assumes "jm_wf (entries s)" and "resolveKey cfg rawIp rawScope = (key, ip)"
    and "\<not> isExempt cfg ip"
    and "jm_get (entries s) key = Some \<lparr>attempts = ts, lockedUntil = None\<rparr>"
    and "\<forall>t \<in> set ts. now - windowMs cfg < t" and "0 < windowMs cfg"
    and "0 < now + lockoutMs cfg" and "0 < lockoutMs cfg"
  shows "let s' = ar_recordFailure cfg s rawIp rawScope now;
             r = fst (ar_check cfg s' rawIp rawScope now)
         in (if int (length ts) + 1 < maxAttempts cfg
             then r = \<lparr>rl_allowed = True, rl_remaining = maxAttempts cfg - int (length ts) - 1,
                        rl_retryAfterMs = 0\<rparr>
             else r = \<lparr>rl_allowed = False, rl_remaining = 0, rl_retryAfterMs = lockoutMs cfg\<rparr>)"
proof -
  have "filter (\<lambda>t. t > now - windowMs cfg) ts = ts" using assms(5) by (simp add: filter_id_conv)
  then show ?thesis
    using assms
    by (simp add: ar_recordFailure_def ar_check_def recordAttempt_def slideWindow_def Let_def
        is_locked_def set_instant_def)
qed

theorem auth_failure_threshold_witness:
  "fst (ar_check test_cfg (ar_recordFailure test_cfg
      \<lparr>entries = [(''default:9.9.9.9'', \<lparr>attempts = [5], lockedUntil = None\<rparr>)],
       overflowLockedUntil = None\<rparr> (Some ''9.9.9.9'') None 6) (Some ''9.9.9.9'') None 6) =
     \<lparr>rl_allowed = False, rl_remaining = 0, rl_retryAfterMs = 100\<rparr>"
  (is "fst (ar_check _ (ar_recordFailure _ ?s _ _ _) _ _ _) = _")
proof -
  have c: "\<not> isExempt test_cfg ''9.9.9.9''" by (simp add: isExempt_def test_cfg_fields)
  have g: "jm_get (entries ?s) ''default:9.9.9.9'' = Some \<lparr>attempts = [5], lockedUntil = None\<rparr>"
    and w: "jm_wf (entries ?s)" by simp_all
  show ?thesis
    using auth_failure_threshold [OF w test_key c g, of 6] by (simp add: test_cfg_fields)
qed

end
