(* ===== verification/DedupeCache.thy ===== *)
theory DedupeCache
  imports NumberCoercion
begin

text \<open>
  \<^verbatim>\<open>src/infra/dedupe.ts\<close> and \<^verbatim>\<open>src/infra/map-size.ts\<close>: the process-local cache that
  suppresses replayed messages. The cache is a JavaScript map from keys to the time of their
  last touch, oldest first; every operation takes the clock reading it uses.
\<close>

section \<open>Pruning a map to a size\<close>

text \<open>The loop of \<^verbatim>\<open>pruneMapToMaxSize\<close>: drop the oldest key while the map is over the limit.\<close>

fun drop_oldest_until :: "nat \<Rightarrow> ('k, 'v) jsmap \<Rightarrow> ('k, 'v) jsmap" where
  "drop_oldest_until limit [] = []"
| "drop_oldest_until limit (p # m) =
     (if length (p # m) > limit then drop_oldest_until limit m else p # m)"

definition pruneMapToMaxSize :: "('k, 'v) jsmap \<Rightarrow> jsnum \<Rightarrow> ('k, 'v) jsmap" where
  "pruneMapToMaxSize m maxSize =
     (case maxSize of
        JNaN \<Rightarrow> m
      | JPosInf \<Rightarrow> m
      | JNegInf \<Rightarrow> []
      | JFin q \<Rightarrow>
          (let limit = max 0 \<lfloor>q\<rfloor>
           in if limit \<le> 0 then [] else drop_oldest_until (nat limit) m))"

lemma drop_oldest_until_drop: "drop_oldest_until n m = drop (length m - n) m"
  by (induction m) (auto simp: Suc_diff_le not_less)

lemma length_drop_oldest: "length (drop_oldest_until n m) = min n (length m)"
  by (simp add: drop_oldest_until_drop)

lemma wf_drop_oldest: "jm_wf m \<Longrightarrow> jm_wf (drop_oldest_until n m)"
  by (simp add: drop_oldest_until_drop distinct_drop flip: drop_map)

lemma drop_oldest_keeps_last:
  "0 < n \<Longrightarrow> drop_oldest_until n (m @ [p]) = drop_oldest_until (n - 1) m @ [p]"
  by (auto simp: drop_oldest_until_drop Suc_diff_le)

lemma drop_oldest_cases:
  "0 < n \<Longrightarrow> length post < n \<Longrightarrow>
     \<exists>pre'. drop_oldest_until n (pre @ p # post) = pre' @ p # post"
  by (induction pre) auto

section \<open>The cache\<close>

record dedupe_cache =
  dc_ttlMs :: int
  dc_maxSize :: int
  dc_cache :: "(string, int) jsmap"

definition createDedupeCache :: "jsval \<Rightarrow> jsval \<Rightarrow> dedupe_cache" where
  "createDedupeCache ttlMs maxSize =
     \<lparr>dc_ttlMs = resolveNonNegativeIntegerOption ttlMs 0,
      dc_maxSize = resolveNonNegativeIntegerOption maxSize 0,
      dc_cache = []\<rparr>"

definition dc_touch :: "dedupe_cache \<Rightarrow> string \<Rightarrow> int \<Rightarrow> dedupe_cache" where
  "dc_touch c key now = c\<lparr>dc_cache := jm_set key now (jm_del key (dc_cache c))\<rparr>"

definition dc_prune :: "dedupe_cache \<Rightarrow> int \<Rightarrow> dedupe_cache" where
  "dc_prune c now =
     (let kept = (if dc_ttlMs c > 0
                  then filter (\<lambda>e. \<not> snd e < now - dc_ttlMs c) (dc_cache c)
                  else dc_cache c)
      in if dc_maxSize c \<le> 0 then c\<lparr>dc_cache := []\<rparr>
         else c\<lparr>dc_cache := pruneMapToMaxSize kept (JFin (of_int (dc_maxSize c)))\<rparr>)"

definition dc_hasUnexpired :: "dedupe_cache \<Rightarrow> string \<Rightarrow> int \<Rightarrow> bool \<Rightarrow> bool \<times> dedupe_cache" where
  "dc_hasUnexpired c key now touchOnRead =
     (case jm_get (dc_cache c) key of
        None \<Rightarrow> (False, c)
      | Some existing \<Rightarrow>
          if dc_ttlMs c > 0 \<and> now - existing \<ge> dc_ttlMs c
          then (False, c\<lparr>dc_cache := jm_del key (dc_cache c)\<rparr>)
          else (True, if touchOnRead then dc_touch c key now else c))"

text \<open>An absent key (\<^verbatim>\<open>undefined\<close>, \<^verbatim>\<open>null\<close>) is \<open>None\<close>; the empty string is falsy as well.\<close>

definition dc_check :: "dedupe_cache \<Rightarrow> string option \<Rightarrow> int \<Rightarrow> bool \<times> dedupe_cache" where
  "dc_check c key now =
     (case key of
        None \<Rightarrow> (False, c)
      | Some k \<Rightarrow>
          if k = [] then (False, c)
          else (case dc_hasUnexpired c k now True of
                  (True, c') \<Rightarrow> (True, c')
                | (False, c') \<Rightarrow> (False, dc_prune (dc_touch c' k now) now)))"

definition dc_peek :: "dedupe_cache \<Rightarrow> string option \<Rightarrow> int \<Rightarrow> bool \<times> dedupe_cache" where
  "dc_peek c key now =
     (case key of
        None \<Rightarrow> (False, c)
      | Some k \<Rightarrow> if k = [] then (False, c) else dc_hasUnexpired c k now False)"

definition dc_delete :: "dedupe_cache \<Rightarrow> string option \<Rightarrow> dedupe_cache" where
  "dc_delete c key =
     (case key of
        None \<Rightarrow> c
      | Some k \<Rightarrow> if k = [] then c else c\<lparr>dc_cache := jm_del k (dc_cache c)\<rparr>)"

definition dc_clear :: "dedupe_cache \<Rightarrow> dedupe_cache" where
  "dc_clear c = c\<lparr>dc_cache := []\<rparr>"

definition dc_size :: "dedupe_cache \<Rightarrow> nat" where
  "dc_size c = length (dc_cache c)"

datatype dedupe_op =
    OpCheck "string option" int
  | OpPeek "string option" int
  | OpDelete "string option"
  | OpClear

fun dc_step :: "dedupe_cache \<Rightarrow> dedupe_op \<Rightarrow> dedupe_cache" where
  "dc_step c (OpCheck k t) = snd (dc_check c k t)"
| "dc_step c (OpPeek k t) = snd (dc_peek c k t)"
| "dc_step c (OpDelete k) = dc_delete c k"
| "dc_step c OpClear = dc_clear c"

section \<open>The size bound\<close>

definition dc_inv :: "int \<Rightarrow> int \<Rightarrow> dedupe_cache \<Rightarrow> bool" where
  "dc_inv ttl maxSize c \<longleftrightarrow>
     dc_ttlMs c = ttl \<and> dc_maxSize c = maxSize \<and>
     jm_wf (dc_cache c) \<and> length (dc_cache c) \<le> nat maxSize"

lemma pruneMapToMaxSize_int:
  "pruneMapToMaxSize m (JFin (of_int n)) = (if n \<le> 0 then [] else drop_oldest_until (nat n) m)"
  by (simp add: pruneMapToMaxSize_def max_def)

lemma dc_prune_inv:
  "dc_ttlMs c = ttl \<Longrightarrow> dc_maxSize c = mx \<Longrightarrow> jm_wf (dc_cache c) \<Longrightarrow> dc_inv ttl mx (dc_prune c now)"
  by (auto simp: dc_prune_def dc_inv_def Let_def pruneMapToMaxSize_int length_drop_oldest wf_drop_oldest)

lemma dc_touch_wf: "jm_wf (dc_cache c) \<Longrightarrow> jm_wf (dc_cache (dc_touch c k t))"
  by (simp add: dc_touch_def)

lemma dc_touch_length:
  assumes "jm_wf (dc_cache c)" and "jm_get (dc_cache c) k = Some t0"
  shows "length (dc_cache (dc_touch c k t)) = length (dc_cache c)"
proof -
  have "k \<in> set (map fst (dc_cache c))"
    using assms(2) by (force dest: map_of_SomeD)
  then show ?thesis
    using length_jm_del_present [OF assms(1)] by (simp add: dc_touch_def jm_set_new')
qed

lemma dc_touch_config [simp]:
  "dc_ttlMs (dc_touch c k t) = dc_ttlMs c" "dc_maxSize (dc_touch c k t) = dc_maxSize c"
  by (simp_all add: dc_touch_def)

lemma dc_delete_inv: "dc_inv ttl mx c \<Longrightarrow> dc_inv ttl mx (c\<lparr>dc_cache := jm_del k (dc_cache c)\<rparr>)"
  using length_jm_del_le [of k "dc_cache c"] by (auto simp: dc_inv_def)

lemma dc_hasUnexpired_inv: "dc_inv ttl mx c \<Longrightarrow> dc_inv ttl mx (snd (dc_hasUnexpired c k now touch))"
  using dc_delete_inv [of ttl mx c k]
  by (auto simp: dc_hasUnexpired_def dc_inv_def dc_touch_wf dc_touch_length split: option.splits)

text \<open>Both branches of a miss leave the same map before pruning, so a check is a touch and a prune.\<close>

lemma dc_check_key:
  "k \<noteq> [] \<Longrightarrow> dc_check c (Some k) now =
     (if fst (dc_hasUnexpired c k now False) then (True, dc_touch c k now)
      else (False, dc_prune (dc_touch c k now) now))"
  by (auto simp: dc_check_def dc_hasUnexpired_def dc_touch_def AList.delete_eq split: option.splits)

lemma dc_check_nokey: "key = None \<or> key = Some [] \<Longrightarrow> dc_check c key now = (False, c)"
  by (auto simp: dc_check_def)

lemma dc_check_inv [inv_intros]:
  assumes "dc_inv ttl mx c"
  shows "dc_inv ttl mx (snd (dc_check c key now))"
proof (cases "key = None \<or> key = Some []")
  case True
  then show ?thesis using assms by (simp add: dc_check_nokey)
next
  case False
  then obtain k where k: "key = Some k" "k \<noteq> []" by (cases key) auto
  have "dc_inv ttl mx (dc_prune (dc_touch c k now) now)"
    using assms by (intro dc_prune_inv) (auto simp: dc_inv_def dc_touch_wf)
  moreover have "fst (dc_hasUnexpired c k now False) \<Longrightarrow> dc_inv ttl mx (dc_touch c k now)"
    using assms
    by (auto simp: dc_hasUnexpired_def dc_inv_def dc_touch_wf dc_touch_length
        split: option.splits if_splits)
  ultimately show ?thesis using k by (simp add: dc_check_key)
qed

lemma dc_step_inv: "dc_inv ttl mx c \<Longrightarrow> dc_inv ttl mx (dc_step c e)"
proof (cases e)
  case (OpPeek key t)
  then show "dc_inv ttl mx c \<Longrightarrow> ?thesis"
    using dc_hasUnexpired_inv by (auto simp: dc_peek_def split: option.splits)
next
  case (OpDelete key)
  then show "dc_inv ttl mx c \<Longrightarrow> ?thesis"
    using dc_delete_inv by (auto simp: dc_delete_def split: option.splits)
next
  case (OpCheck key t)
  then show "dc_inv ttl mx c \<Longrightarrow> ?thesis" by (simp add: dc_check_inv)
qed (simp add: dc_clear_def dc_inv_def)

lemma createDedupeCache_inv:
  "dc_inv (resolveNonNegativeIntegerOption ttl 0) (resolveNonNegativeIntegerOption mx 0)
     (createDedupeCache ttl mx)"
  by (simp add: dc_inv_def createDedupeCache_def)

interpretation dcm: machine dc_step "createDedupeCache ttl mx"
    "dc_inv (resolveNonNegativeIntegerOption ttl 0) (resolveNonNegativeIntegerOption mx 0)"
  for ttl mx
  by unfold_locales (auto intro: createDedupeCache_inv dc_step_inv)

section \<open>What the cache remembers\<close>

definition remembers :: "dedupe_cache \<Rightarrow> string \<Rightarrow> int \<Rightarrow> nat \<Rightarrow> bool" where
  "remembers c k t n \<longleftrightarrow>
     (\<exists>pre post. dc_cache c = pre @ (k, t) # post \<and> length post \<le> n)"

lemma jm_touch_list: "dc_cache (dc_touch c k now) = jm_del k (dc_cache c) @ [(k, now)]"
  by (simp add: dc_touch_def jm_set_new')

lemma remembers_touch_self: "remembers (dc_touch c k t) k t 0"
  by (auto simp: remembers_def jm_touch_list)

lemma remembers_touch_other:
  assumes "remembers c k t n" and "k' \<noteq> k"
  shows "remembers (dc_touch c k' now) k t (Suc n)"
proof -
  from assms(1) obtain pre post where c: "dc_cache c = pre @ (k, t) # post" "length post \<le> n"
    unfolding remembers_def by blast
  have "dc_cache (dc_touch c k' now) = jm_del k' pre @ (k, t) # (jm_del k' post @ [(k', now)])"
    using c assms(2) by (simp add: jm_touch_list AList.delete_eq)
  moreover have "length (jm_del k' post @ [(k', now)]) \<le> Suc n"
    using c length_jm_del_le [of k' post] by simp
  ultimately show ?thesis unfolding remembers_def by blast
qed

lemma remembers_prune:
  assumes "remembers c k t n" and "n < nat (dc_maxSize c)"
    and fresh: "dc_ttlMs c > 0 \<Longrightarrow> now - t \<le> dc_ttlMs c"
  shows "remembers (dc_prune c now) k t n"
proof -
  from assms(1) obtain pre post where c: "dc_cache c = pre @ (k, t) # post" "length post \<le> n"
    unfolding remembers_def by blast
  let ?keep = "\<lambda>e :: string \<times> int. \<not> snd e < now - dc_ttlMs c"
  define l where "l = (if dc_ttlMs c > 0 then filter ?keep (dc_cache c) else dc_cache c)"
  have "\<exists>pre' post'. l = pre' @ (k, t) # post' \<and> length post' \<le> n"
  proof (cases "dc_ttlMs c > 0")
    case True
    with fresh c have "l = filter ?keep pre @ (k, t) # filter ?keep post"
      by (simp add: l_def)
    moreover have "length (filter ?keep post) \<le> n"
      using c length_filter_le [of ?keep post] by linarith
    ultimately show ?thesis by blast
  qed (use c in \<open>auto simp: l_def\<close>)
  then obtain pre' post' where l: "l = pre' @ (k, t) # post'" "length post' \<le> n" by blast
  moreover obtain pre'' where
    "drop_oldest_until (nat (dc_maxSize c)) l = pre'' @ (k, t) # post'"
    using drop_oldest_cases [of "nat (dc_maxSize c)" post' pre' "(k, t)"] l assms(2)
    by (metis gr0I less_zeroE order_le_less_trans)
  moreover have "dc_cache (dc_prune c now) = drop_oldest_until (nat (dc_maxSize c)) l"
  proof -
    have "\<not> dc_maxSize c \<le> 0" using assms(2) by auto
    then show ?thesis by (simp add: dc_prune_def l_def pruneMapToMaxSize_int Let_def)
  qed
  ultimately show ?thesis unfolding remembers_def by metis
qed

lemma dc_prune_config [simp]:
  "dc_ttlMs (dc_prune c now) = dc_ttlMs c" "dc_maxSize (dc_prune c now) = dc_maxSize c"
  by (simp_all add: dc_prune_def Let_def)

lemma dc_check_config [simp]:
  "dc_ttlMs (snd (dc_check c key now)) = dc_ttlMs c"
  "dc_maxSize (snd (dc_check c key now)) = dc_maxSize c"
proof -
  have "dc_ttlMs (snd (dc_check c key now)) = dc_ttlMs c \<and>
      dc_maxSize (snd (dc_check c key now)) = dc_maxSize c"
  proof (cases "key = None \<or> key = Some []")
    case True
    then show ?thesis by (simp add: dc_check_nokey)
  next
    case False
    then obtain k where "key = Some k" "k \<noteq> []" by (cases key) auto
    then show ?thesis by (simp add: dc_check_key)
  qed
  then show "dc_ttlMs (snd (dc_check c key now)) = dc_ttlMs c"
    "dc_maxSize (snd (dc_check c key now)) = dc_maxSize c" by auto
qed

lemma remembers_check_other:
  assumes "remembers c k t n" and "key \<noteq> Some k" and "Suc n < nat (dc_maxSize c)"
    and "dc_ttlMs c > 0 \<Longrightarrow> now - t \<le> dc_ttlMs c"
  shows "remembers (snd (dc_check c key now)) k t (Suc n)"
proof (cases "key = None \<or> key = Some []")
  case True
  with assms(1) show ?thesis
    by (simp add: dc_check_nokey) (auto simp: remembers_def intro: le_SucI)
next
  case False
  then obtain k' where k': "key = Some k'" "k' \<noteq> []" by (cases key) auto
  with assms(2) have "remembers (dc_touch c k' now) k t (Suc n)"
    by (intro remembers_touch_other [OF assms(1)]) auto
  with remembers_prune [OF this] assms(3,4) k' show ?thesis by (auto simp: dc_check_key)
qed

lemma remembers_run:
  assumes "remembers c k t n" and "n + length ops < nat (dc_maxSize c)"
    and "\<And>key now. (key, now) \<in> set ops \<Longrightarrow>
           key \<noteq> Some k \<and> (dc_ttlMs c > 0 \<longrightarrow> now - t \<le> dc_ttlMs c)"
  shows "remembers (foldl (\<lambda>c (key, now). snd (dc_check c key now)) c ops) k t (n + length ops)"
  using assms
proof (induction ops arbitrary: c n)
  case (Cons op ops)
  obtain key now where op: "op = (key, now)" by (cases op)
  have "remembers (snd (dc_check c key now)) k t (Suc n)"
    using Cons.prems op by (intro remembers_check_other) auto
  then have "remembers (foldl (\<lambda>c (key, now). snd (dc_check c key now))
      (snd (dc_check c key now)) ops) k t (Suc n + length ops)"
    using Cons.prems op by (intro Cons.IH) auto
  with op show ?case by simp
qed simp

lemma remembers_get: "jm_wf (dc_cache c) \<Longrightarrow> remembers c k t n \<Longrightarrow> jm_get (dc_cache c) k = Some t"
  by (auto simp: remembers_def map_of_eq_Some_iff)

lemma remembers_hit:
  assumes "jm_wf (dc_cache c)" "remembers c k t n" "k \<noteq> []" "dc_ttlMs c > 0 \<longrightarrow> now - t < dc_ttlMs c"
  shows "fst (dc_check c (Some k) now)" "fst (dc_peek c (Some k) now)"
  using remembers_get [OF assms(1,2)] assms(3,4)
  by (auto simp: dc_check_key dc_peek_def dc_hasUnexpired_def)

lemma dc_check_remembers:
  assumes "k \<noteq> []" and "0 < dc_maxSize c"
  shows "remembers (snd (dc_check c (Some k) t)) k t 0"
proof -
  have "remembers (dc_prune (dc_touch c k t) t) k t 0"
    using assms by (intro remembers_prune remembers_touch_self) auto
  then show ?thesis using assms(1) remembers_touch_self [of c k t] by (simp add: dc_check_key)
qed

section \<open>The interface clients rely on\<close>

text \<open>
  A replay guard: recording a key makes the guard report it until the time to live has passed.
  The follow-up queue relies on this and on nothing else of the cache.
\<close>

locale replay_guard =
  fixes record_key :: "'c \<Rightarrow> 'k \<Rightarrow> int \<Rightarrow> 'c"
    and seen :: "'c \<Rightarrow> 'k \<Rightarrow> int \<Rightarrow> bool"
    and ok :: "'c \<Rightarrow> bool"
    and window :: "'c \<Rightarrow> int"
    and valid_key :: "'k \<Rightarrow> bool"
  assumes record_ok: "ok c \<Longrightarrow> ok (record_key c k t)"
    and record_window: "window (record_key c k t) = window c"
    and record_seen: "ok c \<Longrightarrow> valid_key k \<Longrightarrow> t' - t < window c \<Longrightarrow> seen (record_key c k t) k t'"
begin

lemma no_double_admission:
  "ok c \<Longrightarrow> valid_key k \<Longrightarrow> t' - t < window c \<Longrightarrow>
     ok (record_key c k t) \<and> seen (record_key c k t) k t' \<and> window (record_key c k t) = window c"
  by (simp add: record_seen record_ok record_window)

lemma record_twice_ok: "ok c \<Longrightarrow> ok (record_key (record_key c k t) k' t')"
  by (intro record_ok)

end

definition dc_ready :: "dedupe_cache \<Rightarrow> bool" where
  "dc_ready c \<longleftrightarrow> jm_wf (dc_cache c) \<and> 0 < dc_ttlMs c \<and> 0 < dc_maxSize c"

lemma dc_check_wf: "jm_wf (dc_cache c) \<Longrightarrow> jm_wf (dc_cache (snd (dc_check c key t)))"
proof (cases "key = None \<or> key = Some []")
  case False
  then obtain k where "key = Some k" "k \<noteq> []" by (cases key) auto
  moreover assume "jm_wf (dc_cache c)"
  moreover from this have "jm_wf (dc_cache (dc_prune (dc_touch c k t) t))"
    using dc_prune_inv [of "dc_touch c k t" "dc_ttlMs c" "dc_maxSize c" t]
    by (simp add: dc_inv_def dc_touch_wf)
  ultimately show ?thesis by (simp add: dc_check_key dc_touch_wf)
qed (simp add: dc_check_nokey)

interpretation dcg: replay_guard
    "\<lambda>c k t. snd (dc_check c (Some k) t)" "\<lambda>c k t. fst (dc_peek c (Some k) t)"
    dc_ready dc_ttlMs "\<lambda>k. k \<noteq> []"
proof unfold_locales
  fix c :: dedupe_cache and k :: string and t t' :: int
  assume c: "dc_ready c" "k \<noteq> []" "t' - t < dc_ttlMs c"
  then show "fst (dc_peek (snd (dc_check c (Some k) t)) (Some k) t')"
    by (intro remembers_hit(2) [OF _ dc_check_remembers]) (auto simp: dc_ready_def dc_check_wf)
qed (auto simp: dc_ready_def dc_check_wf)

section \<open>Properties\<close>

text \<open>
  However the cache is used (checks, peeks, deletes, clears, at any clock readings) it
  never holds a key twice and never more keys than its configured capacity; a capacity that is
  not a positive number stores nothing.
\<close>

theorem dedupe_cache_bounded:
  "let c = foldl dc_step (createDedupeCache ttl mx) ops in
     jm_wf (dc_cache c) \<and> dc_size c \<le> nat (resolveNonNegativeIntegerOption mx 0)"
  using dcm.run_inv [of ttl mx ops] by (simp add: dc_inv_def dc_size_def Let_def)

text \<open>
  C16. A key checked at time \<open>t\<close> is reported as a duplicate at any later check inside the
  time to live, as long as fewer than capacity many other checks came in between: pruning evicts
  least recently touched keys first and never an unexpired recent one.
\<close>

theorem dedupe_cache_detects_replay:
  assumes "jm_wf (dc_cache c)" and "k \<noteq> []"
    and "length ops < nat (dc_maxSize c)"
    and "\<And>key now. (key, now) \<in> set ops \<Longrightarrow>
           key \<noteq> Some k \<and> (dc_ttlMs c > 0 \<longrightarrow> now - t \<le> dc_ttlMs c)"
    and "dc_ttlMs c > 0 \<longrightarrow> t' - t < dc_ttlMs c"
  shows "fst (dc_check (foldl (\<lambda>c (key, now). snd (dc_check c key now))
                          (snd (dc_check c (Some k) t)) ops) (Some k) t')"
proof -
  let ?c1 = "snd (dc_check c (Some k) t)"
  let ?run = "foldl (\<lambda>c (key, now). snd (dc_check c key now))"
  have cfg: "dc_ttlMs (?run d os) = dc_ttlMs d \<and>
      (jm_wf (dc_cache d) \<longrightarrow> jm_wf (dc_cache (?run d os)))" for d os
    by (induction os arbitrary: d) (auto simp: dc_check_wf split: prod.splits)
  have "remembers ?c1 k t 0"
    using assms(2,3) by (intro dc_check_remembers) auto
  then have "remembers (?run ?c1 ops) k t (0 + length ops)"
    using assms by (intro remembers_run) auto
  then show ?thesis
    using assms cfg by (intro remembers_hit(1)) (auto simp: dc_check_wf)
qed

theorem dedupe_cache_detects_replay_witness:
  "fst (dc_check (snd (dc_check (snd (dc_check (createDedupeCache (int_val 100) (int_val 2))
     (Some ''a'') 5)) (Some ''b'') 50)) (Some ''a'') 104)"
proof -
  let ?c = "createDedupeCache (int_val 100) (int_val 2)"
  have "jm_wf (dc_cache ?c)" "''a'' \<noteq> []" "length [(Some ''b'', 50::int)] < nat (dc_maxSize ?c)"
    "dc_ttlMs ?c > 0 \<longrightarrow> 104 - 5 < dc_ttlMs ?c"
    "\<And>key now. (key, now) \<in> set [(Some ''b'', 50::int)] \<Longrightarrow>
       key \<noteq> Some ''a'' \<and> (dc_ttlMs ?c > 0 \<longrightarrow> now - 5 \<le> dc_ttlMs ?c)"
    by (auto simp: createDedupeCache_def resolveNonNegativeIntegerOption_def resolveIntegerOption_def)
  from dedupe_cache_detects_replay [OF this(1,2,3,5,4)] show ?thesis by simp
qed

end
