(* ===== verification/Utf16Slice.thy ===== *)
theory Utf16Slice
  imports Prelude
begin

text \<open>
  \<^verbatim>\<open>packages/normalization-core/src/utf16-slice.ts\<close>: slicing and truncation that never leave half of
  a surrogate pair. A JavaScript string is the list of its UTF-16 code units; an index is an
  integer, and \<^verbatim>\<open>charCodeAt\<close> outside the string is \<open>None\<close> (the code compares \<^verbatim>\<open>NaN\<close>, which fails
  every test).
\<close>

type_synonym utf16 = "nat list"

section \<open>Operations\<close>

definition isHighSurrogate :: "nat \<Rightarrow> bool" where
  "isHighSurrogate c \<longleftrightarrow> 0xd800 \<le> c \<and> c \<le> 0xdbff"

definition isLowSurrogate :: "nat \<Rightarrow> bool" where
  "isLowSurrogate c \<longleftrightarrow> 0xdc00 \<le> c \<and> c \<le> 0xdfff"

definition charCodeAt :: "utf16 \<Rightarrow> int \<Rightarrow> nat option" where
  "charCodeAt s i = (if 0 \<le> i \<and> i < int (length s) then Some (s ! nat i) else None)"

definition test_at :: "(nat \<Rightarrow> bool) \<Rightarrow> utf16 \<Rightarrow> int \<Rightarrow> bool" where
  "test_at P s i = (case charCodeAt s i of None \<Rightarrow> False | Some c \<Rightarrow> P c)"

definition avoidTrailingHighSurrogateBreak :: "utf16 \<Rightarrow> int \<Rightarrow> int \<Rightarrow> int" where
  "avoidTrailingHighSurrogateBreak s start fin =
     (if fin \<le> start \<or> fin \<ge> int (length s) \<or> \<not> test_at isHighSurrogate s (fin - 1) \<or>
         \<not> test_at isLowSurrogate s fin
      then fin
      else if fin - 1 > start then fin - 1 else fin + 1)"

definition sliceUtf16Safe :: "utf16 \<Rightarrow> int \<Rightarrow> int option \<Rightarrow> utf16" where
  "sliceUtf16Safe s start fin =
     (let len = int (length s);
          from0 = (if start < 0 then max (len + start) 0 else min start len);
          to0 = (case fin of
                   None \<Rightarrow> len
                 | Some e \<Rightarrow> if e < 0 then max (len + e) 0 else min e len)
      in if to0 \<le> from0 then []
         else
           let from1 = (if from0 > 0 \<and> from0 < len \<and> test_at isLowSurrogate s from0 \<and>
                           test_at isHighSurrogate s (from0 - 1)
                        then from0 + 1 else from0);
               to1 = (if to0 > 0 \<and> to0 < len \<and> test_at isHighSurrogate s (to0 - 1) \<and>
                         test_at isLowSurrogate s to0
                      then to0 - 1 else to0)
           in take (nat to1 - nat from1) (drop (nat from1) s))"

definition truncateUtf16Safe :: "utf16 \<Rightarrow> int \<Rightarrow> utf16" where
  "truncateUtf16Safe s maxLen =
     (let limit = max 0 maxLen
      in if int (length s) \<le> limit then s else sliceUtf16Safe s 0 (Some limit))"

lemmas slice_defs = truncateUtf16Safe_def sliceUtf16Safe_def test_at_def charCodeAt_def
  isHighSurrogate_def isLowSurrogate_def Let_def

section \<open>Well-formed strings\<close>

text \<open>Every surrogate belongs to a pair.\<close>

fun wf16 :: "utf16 \<Rightarrow> bool" where
  "wf16 [] = True"
| "wf16 [c] = (\<not> isHighSurrogate c \<and> \<not> isLowSurrogate c)"
| "wf16 (c # d # s) =
     (if isHighSurrogate c then isLowSurrogate d \<and> wf16 s
      else \<not> isLowSurrogate c \<and> wf16 (d # s))"

text \<open>A position that does not separate the halves of a pair.\<close>

definition cut_ok :: "utf16 \<Rightarrow> nat \<Rightarrow> bool" where
  "cut_ok s i \<longleftrightarrow> (0 < i \<and> i < length s \<longrightarrow> \<not> (isHighSurrogate (s ! (i - 1)) \<and> isLowSurrogate (s ! i)))"

lemma high_not_low: "isHighSurrogate c \<Longrightarrow> \<not> isLowSurrogate c"
  by (auto simp: isHighSurrogate_def isLowSurrogate_def)

lemma wf16_cut: "wf16 s \<Longrightarrow> cut_ok s i \<Longrightarrow> wf16 (take i s) \<and> wf16 (drop i s)"
proof (induction s arbitrary: i rule: wf16.induct)
  case (2 c)
  then show ?case by (cases i) auto
next
  case (3 c d s)
  show ?case
  proof (cases i)
    case 0
    with 3 show ?thesis by simp
  next
    case (Suc j)
    show ?thesis
    proof (cases "isHighSurrogate c")
      case True
      with 3 Suc have "j \<noteq> 0" by (cases j) (auto simp: cut_ok_def)
      then obtain k where j: "j = Suc k" by (cases j) auto
      have "cut_ok s k" using 3(4) Suc j by (auto simp: cut_ok_def nth_Cons split: nat.splits)
      with 3 True Suc j show ?thesis by simp
    next
      case False
      then have "cut_ok (d # s) j" using 3(4) Suc by (auto simp: cut_ok_def nth_Cons split: nat.splits)
      with 3 False Suc have "wf16 (take j (d # s)) \<and> wf16 (drop j (d # s))" by simp
      then show ?thesis using 3 False Suc by (cases j) auto
    qed
  qed
qed simp

lemma wf16_slice:
  assumes "wf16 s" "cut_ok s i" "cut_ok s j"
  shows "wf16 (take (j - i) (drop i s))"
proof (cases "i < j")
  case True
  have "wf16 (take j s)" using wf16_cut [OF assms(1,3)] by simp
  moreover have "cut_ok (take j s) i" using assms(2) True by (auto simp: cut_ok_def)
  ultimately have "wf16 (drop i (take j s))" using wf16_cut by blast
  then show ?thesis by (simp add: drop_take)
qed simp

lemma test_at_nat [simp]:
  "test_at P s (int n) = (n < length s \<and> P (s ! n))"
  "0 < n \<Longrightarrow> test_at P s (int n - 1) = (n - 1 < length s \<and> P (s ! (n - 1)))"
proof -
  show t: "test_at P s (int n) = (n < length s \<and> P (s ! n))" for n
    by (simp add: test_at_def charCodeAt_def)
  show "0 < n \<Longrightarrow> test_at P s (int n - 1) = (n - 1 < length s \<and> P (s ! (n - 1)))"
    using t [of "n - 1"] by (simp add: of_nat_diff)
qed

text \<open>Both adjustments of the slice land on such positions.\<close>

definition from_adjusted :: "utf16 \<Rightarrow> int \<Rightarrow> int" where
  "from_adjusted s i = (if i > 0 \<and> i < int (length s) \<and> test_at isLowSurrogate s i \<and>
      test_at isHighSurrogate s (i - 1) then i + 1 else i)"

definition to_adjusted :: "utf16 \<Rightarrow> int \<Rightarrow> int" where
  "to_adjusted s i = (if i > 0 \<and> i < int (length s) \<and> test_at isHighSurrogate s (i - 1) \<and>
      test_at isLowSurrogate s i then i - 1 else i)"

lemma from_adjusted_ok:
  assumes "0 \<le> i"
  shows "cut_ok s (nat (from_adjusted s i))"
proof -
  obtain n where n: "i = int n" using assms nonneg_int_cases by blast
  show ?thesis
  proof (cases "0 < n \<and> n < length s \<and> isLowSurrogate (s ! n) \<and> isHighSurrogate (s ! (n - 1))")
    case True
    then have "from_adjusted s i = int (Suc n)" by (auto simp: from_adjusted_def n)
    with True show ?thesis by (auto simp: cut_ok_def simp del: of_nat_Suc dest: high_not_low)
  next
    case False
    then have "from_adjusted s i = int n" by (auto simp: from_adjusted_def n)
    with False show ?thesis by (auto simp: cut_ok_def)
  qed
qed

lemma to_adjusted_ok:
  assumes "0 \<le> i"
  shows "cut_ok s (nat (to_adjusted s i))"
proof -
  obtain n where n: "i = int n" using assms nonneg_int_cases by blast
  show ?thesis
  proof (cases "0 < n \<and> n < length s \<and> isHighSurrogate (s ! (n - 1)) \<and> isLowSurrogate (s ! n)")
    case True
    then have "to_adjusted s i = int (n - 1)" by (auto simp: to_adjusted_def n of_nat_diff)
    moreover have "nat (int n - 1) = n - 1" by (simp add: nat_diff_distrib)
    ultimately show ?thesis using True by (auto simp: cut_ok_def dest: high_not_low)
  next
    case False
    then have "to_adjusted s i = int n" by (auto simp: to_adjusted_def n)
    with False show ?thesis by (auto simp: cut_ok_def)
  qed
qed

lemma slice_shape:
  obtains i j where "sliceUtf16Safe s a b = take (nat (to_adjusted s j) - nat (from_adjusted s i))
      (drop (nat (from_adjusted s i)) s)" "0 \<le> i" "0 \<le> j"
  | "sliceUtf16Safe s a b = []"
proof -
  let ?i = "if a < 0 then max (int (length s) + a) 0 else min a (int (length s))"
  let ?j = "case b of None \<Rightarrow> int (length s)
    | Some e \<Rightarrow> if e < 0 then max (int (length s) + e) 0 else min e (int (length s))"
  have nn: "0 \<le> ?i" "0 \<le> ?j" by (auto split: option.split)
  show thesis
  proof (cases "?j \<le> ?i")
    case True
    then have "sliceUtf16Safe s a b = []" by (simp add: sliceUtf16Safe_def Let_def)
    then show ?thesis by (rule that(2))
  next
    case False
    then have "sliceUtf16Safe s a b = take (nat (to_adjusted s ?j) - nat (from_adjusted s ?i))
        (drop (nat (from_adjusted s ?i)) s)"
      unfolding sliceUtf16Safe_def Let_def from_adjusted_def to_adjusted_def by (simp only: if_False)
    from that(1) [OF this nn] show ?thesis .
  qed
qed

lemma slice_wf16: "wf16 s \<Longrightarrow> wf16 (sliceUtf16Safe s a b)"
  by (rule slice_shape [of s a b]) (simp_all add: wf16_slice from_adjusted_ok to_adjusted_ok)

text \<open>
  Slicing a string in which every surrogate is paired, at any start and end (negative and
  out of range included), gives a string in which every surrogate is paired.
\<close>

theorem sliceUtf16Safe_keeps_pairs: "wf16 s \<Longrightarrow> wf16 (sliceUtf16Safe s a b)"
  by (rule slice_wf16)

theorem sliceUtf16Safe_keeps_pairs_witness:
  "wf16 (sliceUtf16Safe [97, 0xd83d, 0xde00, 98] 2 (Some 4)) \<and>
   sliceUtf16Safe [97, 0xd83d, 0xde00, 98] 2 (Some 4) = [98]"
proof
  have "wf16 [97, 0xd83d, 0xde00, 98]" by (simp add: isHighSurrogate_def isLowSurrogate_def)
  then show "wf16 (sliceUtf16Safe [97, 0xd83d, 0xde00, 98] 2 (Some 4))"
    by (rule sliceUtf16Safe_keeps_pairs)
  show "sliceUtf16Safe [97, 0xd83d, 0xde00, 98] 2 (Some 4) = [98]" by (simp add: slice_defs)
qed

lemma truncate_cases:
  "truncateUtf16Safe s m = take (nat m) s \<or>
   truncateUtf16Safe s m = take (nat m - 1) s \<and> 0 < nat m \<and> nat m < length s \<and>
     isHighSurrogate (s ! (nat m - 1)) \<and> isLowSurrogate (s ! nat m)"
proof (cases "int (length s) \<le> max 0 m")
  case True
  then show ?thesis by (simp add: truncateUtf16Safe_def)
next
  case False
  show ?thesis
  proof (cases "m \<le> 0")
    case True
    with False show ?thesis by (simp add: truncateUtf16Safe_def sliceUtf16Safe_def Let_def)
  next
    case m: False
    then obtain n where n: "m = int n" "0 < n" by (cases m) auto
    with False have len: "n < length s" "n - 1 < length s" by auto
    have adj: "to_adjusted s (int n) = (if isHighSurrogate (s ! (n - 1)) \<and> isLowSurrogate (s ! n)
        then int (n - 1) else int n)"
      using n(2) len by (auto simp: to_adjusted_def of_nat_diff)
    have "truncateUtf16Safe s m = take (nat (to_adjusted s (int n))) s"
      using n len unfolding truncateUtf16Safe_def sliceUtf16Safe_def Let_def to_adjusted_def
      by (simp del: test_at_nat)
    moreover have "nat (int n - 1) = n - 1" by (simp add: nat_diff_distrib)
    ultimately show ?thesis using adj n len by (auto split: if_splits)
  qed
qed

text \<open>
  Truncation gives a prefix no longer than the limit that keeps pairs together, and it
  gives up at most one code unit for that: what it returns is the longest such prefix.
\<close>

theorem truncateUtf16Safe_spec:
  assumes "wf16 s"
  shows "\<exists>n. truncateUtf16Safe s m = take n s \<and> wf16 (take n s) \<and> int n \<le> max 0 m \<and>
    (\<forall>k. k \<le> length s \<longrightarrow> int k \<le> max 0 m \<longrightarrow> wf16 (take k s) \<longrightarrow> k \<le> n)"
proof -
  have wf: "wf16 (truncateUtf16Safe s m)"
    using assms by (simp add: truncateUtf16Safe_def slice_wf16 Let_def)
  from truncate_cases [of s m] show ?thesis
  proof
    assume "truncateUtf16Safe s m = take (nat m) s"
    with wf show ?thesis by (intro exI [of _ "nat m"]) auto
  next
    assume t: "truncateUtf16Safe s m = take (nat m - 1) s \<and> 0 < nat m \<and> nat m < length s \<and>
      isHighSurrogate (s ! (nat m - 1)) \<and> isLowSurrogate (s ! nat m)"
    have "\<not> wf16 (xs @ [c])" if "isHighSurrogate c" for c xs
      using that by (induction xs rule: wf16.induct) (auto dest: high_not_low)
    moreover have "take (nat m) s = take (nat m - 1) s @ [s ! (nat m - 1)]"
    proof -
      have "nat m - 1 < length s" "Suc (nat m - 1) = nat m" using t by auto
      with take_Suc_conv_app_nth [of "nat m - 1" s] show ?thesis by simp
    qed
    ultimately have "\<not> wf16 (take (nat m) s)" using t by simp
    then have "k \<le> nat m - 1" if "int k \<le> max 0 m" "wf16 (take k s)" for k
      using that by (cases "k = nat m") auto
    with wf t show ?thesis by (intro exI [of _ "nat m - 1"]) auto
  qed
qed

theorem truncateUtf16Safe_spec_witness:
  "truncateUtf16Safe [97, 0xd83d, 0xde00, 98] 2 = [97] \<and>
   (\<exists>n. truncateUtf16Safe [97, 0xd83d, 0xde00, 98] 2 = take n [97, 0xd83d, 0xde00, 98])"
proof
  have "wf16 [97, 0xd83d, 0xde00, 98]" by (simp add: isHighSurrogate_def isLowSurrogate_def)
  from truncateUtf16Safe_spec [OF this, of 2]
  show "\<exists>n. truncateUtf16Safe [97, 0xd83d, 0xde00, 98] 2 = take n [97, 0xd83d, 0xde00, 98]" by blast
  show "truncateUtf16Safe [97, 0xd83d, 0xde00, 98] 2 = [97]" by (simp add: slice_defs)
qed

end
