(* ===== verification/QueueHelpers.thy ===== *)
theory QueueHelpers
  imports NumberCoercion Utf16Slice "HOL-Library.Sublist" "HOL-Library.Multiset"
begin

text \<open>
  \<^verbatim>\<open>src/utils/queue-helpers.ts\<close>: overflow policy, summaries, debounce and one-by-one draining, shared
  by the queues of the program. Items are compared by identity in the code; here they are the
  elements of a type variable. An asynchronous helper is split where it awaits: what runs before,
  and what runs with the outcome. A cap is a whole number, or \<open>None\<close> for \<^verbatim>\<open>Infinity\<close>.
\<close>

section \<open>State\<close>

datatype drop_policy = DropSummarize | DropOld | DropNew

record 'a capped_queue =
  dropPolicy :: drop_policy
  droppedCount :: nat
  summaryLines :: "utf16 list"
  items :: "'a list"
  cap :: "int option"

record 'm queue_settings =
  set_mode :: 'm
  set_debounceMs :: "jsnum option"
  set_cap :: "jsnum option"
  set_dropPolicy :: "drop_policy option"

section \<open>Runtime settings\<close>

text \<open>\<^verbatim>\<open>Math.max(0, x)\<close>; \<^verbatim>\<open>NaN\<close> stays.\<close>

fun max_zero :: "jsnum \<Rightarrow> jsnum" where
  "max_zero (JFin q) = JFin (max 0 q)"
| "max_zero JNegInf = JFin 0"
| "max_zero JPosInf = JPosInf"
| "max_zero JNaN = JNaN"

definition resolveCap :: "jsnum option \<Rightarrow> int option \<Rightarrow> int option" where
  "resolveCap c fallback =
     (case c of
        Some (JFin q) \<Rightarrow> if q > 0 then Some \<lfloor>q\<rfloor> else fallback
      | Some JPosInf \<Rightarrow> None
      | _ \<Rightarrow> fallback)"

definition applyQueueRuntimeSettings ::
    "'m \<times> jsnum \<times> int option \<times> drop_policy \<Rightarrow> 'm queue_settings \<Rightarrow>
     'm \<times> jsnum \<times> int option \<times> drop_policy" where
  "applyQueueRuntimeSettings target settings =
     (case target of (mode, debounceMs, c, policy) \<Rightarrow>
        (set_mode settings,
         (case set_debounceMs settings of Some d \<Rightarrow> max_zero d | None \<Rightarrow> debounceMs),
         resolveCap (set_cap settings) c,
         (case set_dropPolicy settings of Some p \<Rightarrow> p | None \<Rightarrow> policy)))"

section \<open>Summary lines\<close>

definition is_js_ws :: "nat \<Rightarrow> bool" where
  "is_js_ws c \<longleftrightarrow> 9 \<le> c \<and> c \<le> 13 \<or> c = 32 \<or> c = 160 \<or> c = 0x1680 \<or> 0x2000 \<le> c \<and> c \<le> 0x200a \<or>
     c = 0x2028 \<or> c = 0x2029 \<or> c = 0x202f \<or> c = 0x205f \<or> c = 0x3000 \<or> c = 0xfeff"

definition trimEnd16 :: "utf16 \<Rightarrow> utf16" where
  "trimEnd16 s = rev (dropWhile is_js_ws (rev s))"

definition trim16 :: "utf16 \<Rightarrow> utf16" where
  "trim16 s = trimEnd16 (dropWhile is_js_ws s)"

text \<open>\<^verbatim>\<open>text.replace\<close> of every run of white space by one space.\<close>

fun collapse_ws :: "utf16 \<Rightarrow> utf16" where
  "collapse_ws [] = []"
| "collapse_ws (c # s) =
     (if is_js_ws c
      then (case collapse_ws s of
              [] \<Rightarrow> [32]
            | d # r \<Rightarrow> if d = 32 then d # r else 32 # d # r)
      else c # collapse_ws s)"

definition elideQueueText :: "utf16 \<Rightarrow> int \<Rightarrow> utf16" where
  "elideQueueText text limit =
     (if int (length text) \<le> limit then text
      else trimEnd16 (truncateUtf16Safe text (max 0 (limit - 1))) @ [0x2026])"

definition buildQueueSummaryLine :: "utf16 \<Rightarrow> utf16" where
  "buildQueueSummaryLine text = elideQueueText (trim16 (collapse_ws text)) 160"

section \<open>Overflow\<close>

definition shouldSkipQueueItem :: "'a \<Rightarrow> 'a list \<Rightarrow> ('a \<Rightarrow> 'a list \<Rightarrow> bool) option \<Rightarrow> bool" where
  "shouldSkipQueueItem x xs dedupe = (case dedupe of None \<Rightarrow> False | Some d \<Rightarrow> d x xs)"

definition countPendingQueueItems :: "'a list \<Rightarrow> 'a list \<Rightarrow> nat" where
  "countPendingQueueItems xs inFlight =
     (if inFlight = [] then length xs
      else foldl (\<lambda>n x. n + (if x \<in> set inFlight then 0 else 1)) 0 xs)"

text \<open>Indices of the items to drop, the oldest first; the answer has the items dropped, in order.\<close>

definition victimIndices :: "('a \<Rightarrow> bool) \<Rightarrow> 'a list \<Rightarrow> nat \<Rightarrow> nat list" where
  "victimIndices blocked xs n = take n (filter (\<lambda>i. \<not> blocked (xs ! i)) [0 ..< length xs])"

definition applyQueueDropPolicy ::
    "'a capped_queue \<Rightarrow> ('a \<Rightarrow> utf16) \<Rightarrow> int option \<Rightarrow> 'a list \<Rightarrow> ('a \<Rightarrow> bool) \<Rightarrow>
     bool \<times> 'a list \<times> 'a capped_queue" where
  "applyQueueDropPolicy q summarize summaryLimit inFlight isProtected =
     (let pendingCount = countPendingQueueItems (items q) inFlight in
      case cap q of
        None \<Rightarrow> (True, [], q)
      | Some c \<Rightarrow>
          if c \<le> 0 \<or> int pendingCount < c then (True, [], q)
          else if dropPolicy q = DropNew then (False, [], q)
          else
            let dropCount = nat (int pendingCount - c + 1);
                vs = victimIndices (\<lambda>x. x \<in> set inFlight \<or> isProtected x) (items q) dropCount
            in if length vs < dropCount then (False, [], q)
               else
                 let dropped = map ((!) (items q)) vs;
                     q1 = q\<lparr>items := nths (items q) (- set vs)\<rparr>;
                     q2 = (if dropPolicy q = DropSummarize
                           then let lines = summaryLines q @ map (buildQueueSummaryLine \<circ> summarize) dropped;
                                    limit = nat (max 0 (case summaryLimit of Some l \<Rightarrow> l | None \<Rightarrow> c))
                                in q1\<lparr>droppedCount := droppedCount q + length dropped,
                                      summaryLines := drop (length lines - limit) lines\<rparr>
                           else q1)
                 in (True, dropped, q2))"

section \<open>Debounce\<close>

text \<open>
  One check of \<^verbatim>\<open>waitForQueueDebounce\<close>: settled (\<open>None\<close>) or the instant of the next check. The wait
  starts with a check unless the window is empty.
\<close>

definition debounceCheck :: "rat \<Rightarrow> rat \<Rightarrow> bool \<Rightarrow> rat \<Rightarrow> rat option" where
  "debounceCheck debounceMs lastEnqueuedAt aborted now =
     (if aborted then None
      else let since = now - lastEnqueuedAt
           in if since \<ge> debounceMs then None else Some (now + (debounceMs - since)))"

definition waitForQueueDebounce :: "rat \<Rightarrow> rat \<Rightarrow> bool \<Rightarrow> rat \<Rightarrow> rat option" where
  "waitForQueueDebounce debounce lastEnqueuedAt aborted now =
     (let debounceMs = max 0 debounce
      in if debounceMs \<le> 0 then None
         else if aborted then None
         else debounceCheck debounceMs lastEnqueuedAt aborted now)"

section \<open>Draining\<close>

text \<open>Removal of the first occurrence of each processed item.\<close>

definition removeQueuedItemsByRef :: "'a list \<Rightarrow> 'a list \<Rightarrow> 'a list" where
  "removeQueuedItemsByRef xs processed = foldl (\<lambda>xs x. remove1 x xs) xs processed"

text \<open>\<^verbatim>\<open>drainNextQueueItem\<close> up to \<^verbatim>\<open>await run(next)\<close>: the item taken and the in-flight set.\<close>

definition drainNextBegin :: "'a list \<Rightarrow> 'a list \<Rightarrow> 'a option \<times> 'a list" where
  "drainNextBegin xs inFlight =
     (case xs of
        [] \<Rightarrow> (None, inFlight)
      | x # _ \<Rightarrow> (Some x, if x \<in> set inFlight then inFlight else inFlight @ [x]))"

datatype run_outcome = RunOk | RunFailed

text \<open>Its continuation: the queue as it is by then, the in-flight set and the item discarded.\<close>

definition drainNextFinish ::
    "'a list \<Rightarrow> 'a list \<Rightarrow> 'a \<Rightarrow> run_outcome \<Rightarrow> ('a \<Rightarrow> bool) \<Rightarrow> 'a list \<times> 'a list \<times> 'a option" where
  "drainNextFinish xs inFlight x outcome shouldRestoreOnError =
     (let inFlight' = filter (\<lambda>y. y \<noteq> x) inFlight in
      case outcome of
        RunOk \<Rightarrow> (removeQueuedItemsByRef xs [x], inFlight', None)
      | RunFailed \<Rightarrow>
          if \<not> shouldRestoreOnError x then (removeQueuedItemsByRef xs [x], inFlight', Some x)
          else (xs, inFlight', None))"

datatype collect_step = Skipped | Individual bool

text \<open>The decision of \<^verbatim>\<open>drainCollectItemIfNeeded\<close>, with the next value of the collect state.\<close>

definition drainCollectQueueStep :: "bool \<Rightarrow> bool \<Rightarrow> 'a list \<Rightarrow> collect_step \<times> bool" where
  "drainCollectQueueStep forceIndividualCollect isCrossChannel xs =
     (if \<not> forceIndividualCollect \<and> \<not> isCrossChannel then (Skipped, forceIndividualCollect)
      else (Individual (xs \<noteq> []), forceIndividualCollect \<or> isCrossChannel))"

fun crossScan :: "('a \<Rightarrow> string option \<times> bool) \<Rightarrow> 'a list \<Rightarrow> string set \<Rightarrow> bool" where
  "crossScan resolveKey [] ks = (card ks > 1)"
| "crossScan resolveKey (x # xs) ks =
     (case resolveKey x of (key, cross) \<Rightarrow>
        if cross then True
        else case key of
               None \<Rightarrow> crossScan resolveKey xs ks
             | Some k \<Rightarrow> if k = [] then crossScan resolveKey xs ks
                         else crossScan resolveKey xs (insert k ks))"

definition hasCrossChannelItems :: "'a list \<Rightarrow> ('a \<Rightarrow> string option \<times> bool) \<Rightarrow> bool" where
  "hasCrossChannelItems xs resolveKey = crossScan resolveKey xs {}"

section \<open>Prompts\<close>

definition ascii :: "string \<Rightarrow> utf16" where
  "ascii s = map of_char s"

definition joined :: "utf16 \<Rightarrow> utf16 list \<Rightarrow> utf16" where
  "joined sep xs = (case xs of [] \<Rightarrow> [] | x # r \<Rightarrow> x @ concat (map (\<lambda>y. sep @ y) r))"

definition buildQueueSummaryPrompt :: "'a capped_queue \<Rightarrow> utf16 \<Rightarrow> utf16 option \<Rightarrow> utf16 option" where
  "buildQueueSummaryPrompt q noun title =
     (if dropPolicy q \<noteq> DropSummarize \<or> droppedCount q = 0 then None
      else
        let t = (case title of Some t \<Rightarrow> t
                 | None \<Rightarrow> ascii ''[Queue overflow] Dropped '' @ ascii (show_int (int (droppedCount q))) @
                     ascii '' '' @ noun @ (if droppedCount q = 1 then [] else ascii ''s'') @
                     ascii '' due to cap.'')
        in Some (joined [10]
             ([t] @ (if summaryLines q \<noteq> []
                     then ascii ''Summary:'' # map (\<lambda>l. ascii ''- '' @ l) (summaryLines q) else []))))"

definition buildCollectPrompt ::
    "utf16 \<Rightarrow> 'a list \<Rightarrow> utf16 option \<Rightarrow> ('a \<Rightarrow> nat \<Rightarrow> utf16) \<Rightarrow> utf16" where
  "buildCollectPrompt title xs summary renderItem =
     joined [10, 10]
       ([title] @ (case summary of Some s \<Rightarrow> if s = [] then [] else [s] | None \<Rightarrow> []) @
        map (\<lambda>(x, i). renderItem x i) (zip xs [0 ..< length xs]))"

section \<open>Summary lines\<close>

lemma collapse_ws_chars: "c \<in> set (collapse_ws s) \<Longrightarrow> is_js_ws c \<Longrightarrow> c = 32"
  by (induction s) (auto split: if_splits list.splits)

lemma trimEnd16_le: "length (trimEnd16 s) \<le> length s"
  using length_dropWhile_le [of is_js_ws "rev s"] by (simp add: trimEnd16_def)

lemma trimEnd16_set: "set (trimEnd16 s) \<subseteq> set s"
  by (auto simp: trimEnd16_def dest: set_dropWhileD)

lemma truncate_set: "set (truncateUtf16Safe s m) \<subseteq> set s"
  using truncate_cases [of s m] by (auto dest: in_set_takeD)

lemma truncate_length: "length (truncateUtf16Safe s m) \<le> nat m"
  using truncate_cases [of s m] by auto

text \<open>
  The line kept for a dropped item is a bounded preview on a single line: at most 160 code
  units, and no white space in it but plain spaces.
\<close>

theorem summary_line_bounded:
  "length (buildQueueSummaryLine text) \<le> 160 \<and>
   set (filter is_js_ws (buildQueueSummaryLine text)) \<subseteq> {32}"
proof -
  let ?c = "trim16 (collapse_ws text)"
  have ws: "c = 32 \<or> \<not> is_js_ws c" if "c \<in> set ?c" for c
    using that collapse_ws_chars [of c "text"] trimEnd16_set [of "dropWhile is_js_ws (collapse_ws text)"]
    by (auto simp: trim16_def dest: set_dropWhileD)
  show ?thesis
  proof (cases "length ?c \<le> 160")
    case True
    with ws show ?thesis by (auto simp: buildQueueSummaryLine_def elideQueueText_def)
  next
    case False
    have "length (trimEnd16 (truncateUtf16Safe ?c 159)) \<le> 159"
      using trimEnd16_le [of "truncateUtf16Safe ?c 159"] truncate_length [of ?c 159] by simp
    moreover have "c = 32 \<or> \<not> is_js_ws c" if "c \<in> set (trimEnd16 (truncateUtf16Safe ?c 159))" for c
      using that ws trimEnd16_set truncate_set by blast
    moreover have "\<not> is_js_ws 0x2026" by (simp add: is_js_ws_def)
    ultimately show ?thesis
      using False by (auto simp: buildQueueSummaryLine_def elideQueueText_def)
  qed
qed

section \<open>Overflow\<close>

lemma count_pending: "countPendingQueueItems xs fl = length (filter (\<lambda>x. x \<notin> set fl) xs)"
proof -
  have "foldl (\<lambda>n x. n + (if x \<in> set fl then 0 else 1)) n xs = n + length (filter (\<lambda>x. x \<notin> set fl) xs)" for n
    by (induction xs arbitrary: n) auto
  then show ?thesis by (simp add: countPendingQueueItems_def)
qed

text \<open>The victims by value: the first items that may be dropped.\<close>

fun split_victims :: "('a \<Rightarrow> bool) \<Rightarrow> nat \<Rightarrow> 'a list \<Rightarrow> 'a list \<times> 'a list" where
  "split_victims P n [] = ([], [])"
| "split_victims P n (x # xs) =
     (if n = 0 then ([], x # xs)
      else if P x then (case split_victims P (n - 1) xs of (d, k) \<Rightarrow> (x # d, k))
      else (case split_victims P n xs of (d, k) \<Rightarrow> (d, x # k)))"

lemma split_victims_0 [simp]: "split_victims P 0 xs = ([], xs)"
  by (cases xs) simp_all

lemma victims_shift:
  "filter (\<lambda>i. P ((x # xs) ! i)) [0 ..< length (x # xs)] =
     (if P x then [0] else []) @ map Suc (filter (\<lambda>i. P (xs ! i)) [0 ..< length xs])"
  by (simp add: upt_conv_Cons map_Suc_upt [symmetric] filter_map comp_def del: upt_Suc)

lemma victims_split:
  "map ((!) xs) (victimIndices blocked xs n) = fst (split_victims (\<lambda>x. \<not> blocked x) n xs) \<and>
   nths xs (- set (victimIndices blocked xs n)) = snd (split_victims (\<lambda>x. \<not> blocked x) n xs)"
proof (induction xs arbitrary: n)
  case Nil
  then show ?case by (simp add: victimIndices_def)
next
  case (Cons x xs)
  show ?case
  proof (cases n)
    case 0
    then show ?thesis by (simp add: victimIndices_def nths_all)
  next
    case (Suc m)
    have v: "victimIndices blocked (x # xs) n =
        (if blocked x then map Suc (victimIndices blocked xs n)
         else 0 # map Suc (victimIndices blocked xs m))"
      using victims_shift [of "\<lambda>x. \<not> blocked x" x xs]
      by (simp add: victimIndices_def Suc take_map del: upt_Suc)
    have e: "{j. Suc j \<in> - insert 0 (Suc ` A)} = - A" "{j. Suc j \<in> - (Suc ` A)} = - A"
      "{j. Suc j \<notin> Suc ` A} = - A" for A :: "nat set"
      by auto
    show ?thesis
    proof (cases "blocked x")
      case True
      then show ?thesis
        using Cons.IH [of "Suc m"] by (simp add: v [unfolded Suc] Suc nths_Cons e comp_def split: prod.splits)
    next
      case False
      then show ?thesis
        using Cons.IH [of m] by (simp add: v [unfolded Suc] Suc nths_Cons e comp_def split: prod.splits)
    qed
  qed
qed

lemma split_victims_props:
  "split_victims P n xs = (d, k) \<Longrightarrow>
     d = take n (filter P xs) \<and> filter P k = drop n (filter P xs) \<and>
     mset d + mset k = mset xs \<and> subseq k xs \<and> (\<forall>x \<in> set d. P x) \<and>
     filter (\<lambda>x. \<not> P x) k = filter (\<lambda>x. \<not> P x) xs"
proof (induction xs arbitrary: n d k)
  case (Cons x xs)
  show ?case
  proof (cases "n = 0")
    case True
    with Cons.prems show ?thesis by auto
  next
    case False
    then obtain m where n: "n = Suc m" by (cases n) auto
    show ?thesis
    proof (cases "P x")
      case True
      obtain d' k' where s: "split_victims P m xs = (d', k')" by (cases "split_victims P m xs")
      with Cons.prems True n have dk: "d = x # d'" "k = k'" by auto
      note ih = Cons.IH [OF s]
      have 1: "mset d' + mset k' = mset xs" using ih by blast
      have 2: "subseq k' (x # xs)" using ih by (blast intro: list_emb_Cons)
      have 3: "d' = take m (filter P xs)" "filter P k' = drop m (filter P xs)" "\<forall>x \<in> set d'. P x"
        "filter (\<lambda>x. \<not> P x) k' = filter (\<lambda>x. \<not> P x) xs"
        using ih by blast+
      have "x # d' = take n (filter P (x # xs))" using True n by (simp add: 3(1))
      moreover have "filter P k' = drop n (filter P (x # xs))" using True n 3(2) by simp
      moreover have "mset (x # d') + mset k' = mset (x # xs)" using 1 by simp
      moreover have "filter (\<lambda>x. \<not> P x) k' = filter (\<lambda>x. \<not> P x) (x # xs)" using True 3(4) by simp
      moreover have "\<forall>y \<in> set (x # d'). P y" using True 3(3) by simp
      ultimately show ?thesis unfolding dk using 2 by blast
    next
      case f: False
      obtain d' k' where s: "split_victims P n xs = (d', k')" by (cases "split_victims P n xs")
      with Cons.prems f n have dk: "d = d'" "k = x # k'" by auto
      note ih = Cons.IH [OF s]
      have 1: "mset d' + mset k' = mset xs" "subseq k' xs" "\<forall>y \<in> set d'. P y"
        "d' = take n (filter P xs)" "filter P k' = drop n (filter P xs)"
        "filter (\<lambda>x. \<not> P x) k' = filter (\<lambda>x. \<not> P x) xs"
        using ih by blast+
      have "mset d' + mset (x # k') = mset (x # xs)" using 1(1) by simp
      moreover have "subseq (x # k') (x # xs)" using 1(2) by simp
      moreover have "d' = take n (filter P (x # xs))" using f 1(4) by simp
      moreover have "filter P (x # k') = drop n (filter P (x # xs))" using f 1(5) by simp
      moreover have "filter (\<lambda>x. \<not> P x) (x # k') = filter (\<lambda>x. \<not> P x) (x # xs)" using f 1(6) by simp
      ultimately show ?thesis unfolding dk using 1(3) by blast
    qed
  qed
qed auto

text \<open>
  The overflow policy, whatever the queue, the cap and the set of deliveries in flight:
  refusing leaves the queue alone; admitting leaves room for one more item under the cap; only
  items that are neither in flight nor protected are dropped, the oldest first; and every other
  item keeps its place.
\<close>

theorem drop_policy_correct:
  assumes "applyQueueDropPolicy q summarize limit inFlight isProtected = (ok, dropped, q')"
  shows "(\<not> ok \<longrightarrow> q' = q \<and> dropped = []) \<and>
    (ok \<longrightarrow> (\<forall>c. cap q = Some c \<longrightarrow> 0 < c \<longrightarrow> int (countPendingQueueItems (items q') inFlight) < c)) \<and>
    mset dropped + mset (items q') = mset (items q) \<and> subseq (items q') (items q) \<and>
    (\<exists>n. dropped = take n (filter (\<lambda>x. x \<notin> set inFlight \<and> \<not> isProtected x) (items q)) \<and>
         filter (\<lambda>x. x \<notin> set inFlight \<and> \<not> isProtected x) (items q') =
           drop n (filter (\<lambda>x. x \<notin> set inFlight \<and> \<not> isProtected x) (items q)))"
proof (cases "dropped = [] \<and> items q' = items q")
  case True
  with assms show ?thesis
    by (auto simp: applyQueueDropPolicy_def Let_def split: option.splits if_splits intro!: exI [of _ 0])
next
  case False
  let ?P = "\<lambda>x. \<not> (x \<in> set inFlight \<or> isProtected x)"
  from False assms obtain c where c: "cap q = Some c" "0 < c" "c \<le> int (countPendingQueueItems (items q) inFlight)"
    by (auto simp: applyQueueDropPolicy_def Let_def split: option.splits if_splits)
  define n where "n = nat (int (countPendingQueueItems (items q) inFlight) - c + 1)"
  define vs where "vs = victimIndices (\<lambda>x. x \<in> set inFlight \<or> isProtected x) (items q) n"
  have r: "ok" "n \<le> length vs" "dropped = map ((!) (items q)) vs" "items q' = nths (items q) (- set vs)"
    using False assms c by (auto simp: applyQueueDropPolicy_def Let_def n_def vs_def split: if_splits)
  obtain d k where sp: "split_victims ?P n (items q) = (d, k)" by (cases "split_victims ?P n (items q)")
  note vs = victims_split [of "items q" "\<lambda>x. x \<in> set inFlight \<or> isProtected x" n, folded vs_def, unfolded sp]
  then have dk: "dropped = d" "items q' = k" using r by auto
  note props = split_victims_props [OF sp]
  have p: "d = take n (filter ?P (items q))" "filter ?P k = drop n (filter ?P (items q))"
    "mset d + mset k = mset (items q)" "subseq k (items q)" "\<forall>x \<in> set d. ?P x"
    using props by blast+
  have "length d \<le> n" unfolding p(1) by simp
  moreover have "n \<le> length d" using r(2,3) dk(1) by (metis length_map)
  ultimately have len: "length d = n" by simp
  have "countPendingQueueItems (items q) inFlight = length (filter (\<lambda>x. x \<notin> set inFlight) d) +
      countPendingQueueItems k inFlight"
  proof -
    have "filter_mset (\<lambda>x. x \<notin> set inFlight) (mset (items q)) =
        filter_mset (\<lambda>x. x \<notin> set inFlight) (mset d) + filter_mset (\<lambda>x. x \<notin> set inFlight) (mset k)"
      unfolding p(3) [symmetric] by (rule filter_union_mset)
    then have "size (mset (filter (\<lambda>x. x \<notin> set inFlight) (items q))) =
        size (mset (filter (\<lambda>x. x \<notin> set inFlight) d)) + size (mset (filter (\<lambda>x. x \<notin> set inFlight) k))"
      by (simp only: mset_filter size_union)
    then show ?thesis by (simp only: count_pending size_mset)
  qed
  moreover have "filter (\<lambda>x. x \<notin> set inFlight) d = d" using p(5) by (intro filter_True) blast
  ultimately have "int (countPendingQueueItems k inFlight) < c"
    using len c by (simp add: n_def)
  then have "\<forall>c. cap q = Some c \<longrightarrow> 0 < c \<longrightarrow> int (countPendingQueueItems (items q') inFlight) < c"
    using c dk by simp
  moreover have "\<exists>n. dropped = take n (filter (\<lambda>x. x \<notin> set inFlight \<and> \<not> isProtected x) (items q)) \<and>
      filter (\<lambda>x. x \<notin> set inFlight \<and> \<not> isProtected x) (items q') =
        drop n (filter (\<lambda>x. x \<notin> set inFlight \<and> \<not> isProtected x) (items q))"
    using p(1,2) unfolding dk de_Morgan_disj by blast
  ultimately show ?thesis using p(3,4) r(1) unfolding dk by blast
qed

definition sample_queue :: "nat capped_queue" where
  "sample_queue = \<lparr>dropPolicy = DropOld, droppedCount = 0, summaryLines = [], items = [1, 2, 3, 4],
     cap = Some 3\<rparr>"

lemma sample_drop:
  "applyQueueDropPolicy sample_queue (\<lambda>_. []) None [1] (\<lambda>x. x = 2) =
     (True, [3], sample_queue\<lparr>items := [1, 2, 4]\<rparr>)"
  by code_simp

theorem drop_policy_correct_witness:
  "int (countPendingQueueItems [1, 2, 4 :: nat] [1]) < 3 \<and> subseq [1, 2, 4 :: nat] [1, 2, 3, 4]"
  using drop_policy_correct [OF sample_drop] by (simp add: sample_queue_def)

end
