(* ===== verification/CronActiveJobs.thy ===== *)
theory CronActiveJobs
  imports Prelude
begin

text \<open>
  \<^verbatim>\<open>src/cron/active-jobs.ts\<close>: the process-global registry of cron runs in flight. A run holds a marker
  with a token and the process generation it started in; generations advance when the process
  goes through a restart in place. The set \<open>activeJobIds\<close> is shared with other copies of the
  module, which know only job ids: their writes are the operations \<open>LegacyAdd\<close> and \<open>LegacyRemove\<close>,
  and every access first reconciles the two (\<open>getCronActiveJobState\<close>). Waiters are numbered.
\<close>

section \<open>State\<close>

record marker =
  jobId :: string
  markerGeneration :: nat
  token :: nat
  legacy :: bool
  preserveAcrossGenerationAdvance :: bool

record active_jobs =
  activeJobs :: "(string, marker) jsmap"
  jobGeneration :: nat
  nextToken :: nat
  emptyWaiters :: "nat list"
  activeJobIds :: "string list"
  nextEmptyWaiter :: nat
  wokenWaiters :: "nat list"

definition initial_jobs :: active_jobs where
  "initial_jobs = \<lparr>activeJobs = [], jobGeneration = 0, nextToken = 1, emptyWaiters = [],
     activeJobIds = [], nextEmptyWaiter = 0, wokenWaiters = []\<rparr>"

section \<open>Operations\<close>

definition legacy_marker :: "active_jobs \<Rightarrow> string \<Rightarrow> marker" where
  "legacy_marker s j = \<lparr>jobId = j, markerGeneration = jobGeneration s, token = nextToken s,
     legacy = True, preserveAcrossGenerationAdvance = False\<rparr>"

definition adoptJobId :: "active_jobs \<Rightarrow> string \<Rightarrow> active_jobs" where
  "adoptJobId s j =
     (if jm_get (activeJobs s) j \<noteq> None then s
      else s\<lparr>activeJobs := jm_set j (legacy_marker s j) (activeJobs s), nextToken := nextToken s + 1\<rparr>)"

definition getCronActiveJobState :: "active_jobs \<Rightarrow> active_jobs" where
  "getCronActiveJobState s =
     foldl adoptJobId
       (s\<lparr>activeJobs := filter (\<lambda>e. \<not> (legacy (snd e) \<and> fst e \<notin> set (activeJobIds s))) (activeJobs s)\<rparr>)
       (activeJobIds s)"

definition isMarkerActiveInGeneration :: "marker \<Rightarrow> nat \<Rightarrow> bool" where
  "isMarkerActiveInGeneration m g \<longleftrightarrow> markerGeneration m = g \<or> preserveAcrossGenerationAdvance m"

definition getActiveCronJobCountForGeneration :: "active_jobs \<Rightarrow> nat" where
  "getActiveCronJobCountForGeneration s =
     foldl (\<lambda>n e. if isMarkerActiveInGeneration (snd e) (jobGeneration s) then n + 1 else n) 0 (activeJobs s)"

definition notifyActiveCronJobWaitersIfEmpty :: "active_jobs \<Rightarrow> active_jobs" where
  "notifyActiveCronJobWaitersIfEmpty s =
     (if getActiveCronJobCountForGeneration s > 0 then s
      else s\<lparr>wokenWaiters := wokenWaiters s @ emptyWaiters s, emptyWaiters := []\<rparr>)"

definition add_id :: "string \<Rightarrow> string list \<Rightarrow> string list" where
  "add_id j ids = (if j \<in> set ids then ids else ids @ [j])"

definition del_id :: "string \<Rightarrow> string list \<Rightarrow> string list" where
  "del_id j ids = filter (\<lambda>i. i \<noteq> j) ids"

definition markCronJobActive :: "active_jobs \<Rightarrow> string \<Rightarrow> bool \<Rightarrow> marker option \<times> active_jobs" where
  "markCronJobActive s0 j preserve =
     (if j = [] then (None, s0)
      else
        let s = getCronActiveJobState s0;
            m = \<lparr>jobId = j, markerGeneration = jobGeneration s, token = nextToken s,
                 legacy = False, preserveAcrossGenerationAdvance = preserve\<rparr>
        in (Some m, s\<lparr>nextToken := nextToken s + 1, activeJobs := jm_set j m (activeJobs s),
                      activeJobIds := add_id j (activeJobIds s)\<rparr>))"

definition clearCronJobActive :: "active_jobs \<Rightarrow> string \<Rightarrow> marker option \<Rightarrow> active_jobs" where
  "clearCronJobActive s0 j mk =
     (if j = [] then s0
      else
        let s = getCronActiveJobState s0;
            s1 = (case jm_get (activeJobs s) j of
                    None \<Rightarrow> s
                  | Some active \<Rightarrow>
                      if (case mk of None \<Rightarrow> True | Some m \<Rightarrow> jobId m = j \<and> token m = token active)
                      then s\<lparr>activeJobs := jm_del j (activeJobs s),
                             activeJobIds := del_id j (activeJobIds s)\<rparr>
                      else s)
        in notifyActiveCronJobWaitersIfEmpty s1)"

definition isCronJobActive :: "active_jobs \<Rightarrow> string \<Rightarrow> bool" where
  "isCronJobActive s0 j =
     (if j = [] then False
      else let s = getCronActiveJobState s0 in
        case jm_get (activeJobs s) j of
          None \<Rightarrow> False
        | Some m \<Rightarrow> isMarkerActiveInGeneration m (jobGeneration s))"

definition isCronActiveJobMarkerCurrent :: "active_jobs \<Rightarrow> marker option \<Rightarrow> bool" where
  "isCronActiveJobMarkerCurrent s0 mk =
     (case mk of
        None \<Rightarrow> True
      | Some m \<Rightarrow>
          let s = getCronActiveJobState s0 in
          (case jm_get (activeJobs s) (jobId m) of
             None \<Rightarrow> False
           | Some active \<Rightarrow> token active = token m \<and> isMarkerActiveInGeneration m (jobGeneration s)))"

definition hasActiveCronJobs :: "active_jobs \<Rightarrow> bool" where
  "hasActiveCronJobs s = (getActiveCronJobCountForGeneration (getCronActiveJobState s) > 0)"

definition getActiveCronJobCount :: "active_jobs \<Rightarrow> nat" where
  "getActiveCronJobCount s = getActiveCronJobCountForGeneration (getCronActiveJobState s)"

text \<open>
  \<^verbatim>\<open>waitForActiveCronJobs\<close> up to its suspension, its timer, and the answer after it resumes.
\<close>

definition waitForActiveCronJobs :: "active_jobs \<Rightarrow> ((bool \<times> nat) + nat) \<times> active_jobs" where
  "waitForActiveCronJobs s0 =
     (let s = getCronActiveJobState s0 in
      if getActiveCronJobCountForGeneration s = 0 then (Inl (True, 0), s)
      else (Inr (nextEmptyWaiter s),
            s\<lparr>emptyWaiters := emptyWaiters s @ [nextEmptyWaiter s],
              nextEmptyWaiter := nextEmptyWaiter s + 1\<rparr>))"

definition emptyWaiterTimeout :: "active_jobs \<Rightarrow> nat \<Rightarrow> active_jobs" where
  "emptyWaiterTimeout s w = s\<lparr>emptyWaiters := filter (\<lambda>x. x \<noteq> w) (emptyWaiters s)\<rparr>"

definition finishWaitForActiveCronJobs :: "active_jobs \<Rightarrow> bool \<times> nat" where
  "finishWaitForActiveCronJobs s =
     (let active = getActiveCronJobCountForGeneration s in (active = 0, active))"

definition outdated :: "nat \<Rightarrow> marker \<Rightarrow> bool" where
  "outdated g m \<longleftrightarrow> \<not> preserveAcrossGenerationAdvance m \<and> markerGeneration m + 1 < g"

definition advanceCronActiveJobGeneration :: "active_jobs \<Rightarrow> active_jobs" where
  "advanceCronActiveJobGeneration s0 =
     (let s = getCronActiveJobState s0;
          g = jobGeneration s + 1;
          gone = map fst (filter (\<lambda>e. outdated g (snd e)) (activeJobs s))
      in notifyActiveCronJobWaitersIfEmpty
           (s\<lparr>jobGeneration := g,
              activeJobs := filter (\<lambda>e. \<not> outdated g (snd e)) (activeJobs s),
              activeJobIds := filter (\<lambda>j. j \<notin> set gone) (activeJobIds s)\<rparr>))"

definition resetCronActiveJobs :: "active_jobs \<Rightarrow> active_jobs" where
  "resetCronActiveJobs s0 =
     (let s = getCronActiveJobState s0
      in notifyActiveCronJobWaitersIfEmpty
           (s\<lparr>jobGeneration := jobGeneration s + 1, activeJobs := [], activeJobIds := []\<rparr>))"

datatype jobs_op =
    MarkActive string bool
  | ClearActive string "marker option"
  | ReadState
  | WaitEmpty
  | WaitTimeout nat
  | AdvanceGeneration
  | ResetJobs
  | LegacyAdd string
  | LegacyRemove string

fun jobs_step :: "active_jobs \<Rightarrow> jobs_op \<Rightarrow> active_jobs" where
  "jobs_step s (MarkActive j p) = snd (markCronJobActive s j p)"
| "jobs_step s (ClearActive j mk) = clearCronJobActive s j mk"
| "jobs_step s ReadState = getCronActiveJobState s"
| "jobs_step s WaitEmpty = snd (waitForActiveCronJobs s)"
| "jobs_step s (WaitTimeout w) = emptyWaiterTimeout s w"
| "jobs_step s AdvanceGeneration = advanceCronActiveJobGeneration s"
| "jobs_step s ResetJobs = resetCronActiveJobs s"
| "jobs_step s (LegacyAdd j) = s\<lparr>activeJobIds := add_id j (activeJobIds s)\<rparr>"
| "jobs_step s (LegacyRemove j) = s\<lparr>activeJobIds := del_id j (activeJobIds s)\<rparr>"

section \<open>Reconciliation\<close>

declare map_of_eq_Some_iff [simp del] Some_eq_map_of_iff [simp del]

lemma count_pos:
  "getActiveCronJobCountForGeneration s > 0 \<longleftrightarrow>
     (\<exists>e \<in> set (activeJobs s). isMarkerActiveInGeneration (snd e) (jobGeneration s))"
proof -
  have "foldl (\<lambda>n e. if P e then n + 1 else n) n m = n + length (filter P m)" for P :: "string \<times> marker \<Rightarrow> bool" and n m
    by (induction m arbitrary: n) auto
  then show ?thesis by (simp add: getActiveCronJobCountForGeneration_def filter_empty_conv)
qed

lemma adopt_fields [simp]:
  "jobGeneration (adoptJobId s j) = jobGeneration s" "emptyWaiters (adoptJobId s j) = emptyWaiters s"
  "activeJobIds (adoptJobId s j) = activeJobIds s" "nextEmptyWaiter (adoptJobId s j) = nextEmptyWaiter s"
  "wokenWaiters (adoptJobId s j) = wokenWaiters s" "nextToken s \<le> nextToken (adoptJobId s j)"
  by (simp_all add: adoptJobId_def)

lemma adopt_get:
  "jm_get (activeJobs (adoptJobId s j)) k =
     (if k = j \<and> jm_get (activeJobs s) k = None then Some (legacy_marker s j)
      else jm_get (activeJobs s) k)"
  by (auto simp: adoptJobId_def)

lemma adopts_fields [simp]:
  "jobGeneration (foldl adoptJobId s js) = jobGeneration s"
  "emptyWaiters (foldl adoptJobId s js) = emptyWaiters s"
  "activeJobIds (foldl adoptJobId s js) = activeJobIds s"
  "nextEmptyWaiter (foldl adoptJobId s js) = nextEmptyWaiter s"
  "wokenWaiters (foldl adoptJobId s js) = wokenWaiters s"
  by (induction js arbitrary: s) simp_all

lemma sync_fields [simp]:
  "jobGeneration (getCronActiveJobState s) = jobGeneration s"
  "emptyWaiters (getCronActiveJobState s) = emptyWaiters s"
  "activeJobIds (getCronActiveJobState s) = activeJobIds s"
  "nextEmptyWaiter (getCronActiveJobState s) = nextEmptyWaiter s"
  "wokenWaiters (getCronActiveJobState s) = wokenWaiters s"
  by (simp_all add: getCronActiveJobState_def)

text \<open>A predicate that reconciliation, legacy writes and waiter changes keep.\<close>

lemma sync_induct:
  assumes "P s"
    and "\<And>s'. P s' \<Longrightarrow> P (s'\<lparr>activeJobs := filter
          (\<lambda>e. \<not> (legacy (snd e) \<and> fst e \<notin> set (activeJobIds s'))) (activeJobs s')\<rparr>)"
    and "\<And>s' j. P s' \<Longrightarrow> P (adoptJobId s' j)"
  shows "P (getCronActiveJobState s)"
proof -
  have "P s' \<Longrightarrow> P (foldl adoptJobId s' js)" for s' js
    by (induction js arbitrary: s') (auto intro: assms(3))
  with assms(1,2) show ?thesis by (simp add: getCronActiveJobState_def)
qed

section \<open>A run keeps its marker\<close>

text \<open>Operations by other parties: they do not touch the marker \<open>m\<close>.\<close>

fun leaves_alone :: "marker \<Rightarrow> jobs_op \<Rightarrow> bool" where
  "leaves_alone m (MarkActive j p) = (j \<noteq> jobId m)"
| "leaves_alone m (ClearActive j mk) =
     (j = jobId m \<longrightarrow> (case mk of None \<Rightarrow> False | Some x \<Rightarrow> token x \<noteq> token m))"
| "leaves_alone m AdvanceGeneration = preserveAcrossGenerationAdvance m"
| "leaves_alone m ResetJobs = False"
| "leaves_alone m _ = True"

definition holds_marker :: "marker \<Rightarrow> active_jobs \<Rightarrow> bool" where
  "holds_marker m s \<longleftrightarrow> jm_wf (activeJobs s) \<and> \<not> legacy m \<and>
     jm_get (activeJobs s) (jobId m) = Some m \<and> isMarkerActiveInGeneration m (jobGeneration s)"

lemma holds_sync: "holds_marker m s \<Longrightarrow> holds_marker m (getCronActiveJobState s)"
  by (rule sync_induct [where P = "holds_marker m"])
     (auto simp: holds_marker_def jm_get_filter adoptJobId_def)

lemma cron_notify_fields [simp]:
  "activeJobs (notifyActiveCronJobWaitersIfEmpty s) = activeJobs s"
  "jobGeneration (notifyActiveCronJobWaitersIfEmpty s) = jobGeneration s"
  "nextToken (notifyActiveCronJobWaitersIfEmpty s) = nextToken s"
  "activeJobIds (notifyActiveCronJobWaitersIfEmpty s) = activeJobIds s"
  by (simp_all add: notifyActiveCronJobWaitersIfEmpty_def)

lemma holds_notify [simp]: "holds_marker m (notifyActiveCronJobWaitersIfEmpty s) = holds_marker m s"
  by (simp add: holds_marker_def)

lemma holds_step:
  assumes h: "holds_marker m s" and e: "leaves_alone m e"
  shows "holds_marker m (jobs_step s e)"
proof (cases e)
  case (MarkActive j p)
  with holds_sync [OF h] h e show ?thesis
    by (auto simp: markCronJobActive_def Let_def holds_marker_def)
next
  case (ClearActive j mk)
  with holds_sync [OF h] h e show ?thesis
    by (auto simp: clearCronJobActive_def Let_def holds_marker_def split: option.splits)
next
  case AdvanceGeneration
  with holds_sync [OF h] e show ?thesis
    by (auto simp: advanceCronActiveJobGeneration_def Let_def holds_marker_def jm_get_filter
        outdated_def isMarkerActiveInGeneration_def)
next
  case WaitEmpty
  with holds_sync [OF h] show ?thesis
    by (auto simp: waitForActiveCronJobs_def Let_def holds_marker_def)
qed (use h e holds_sync [OF h] in \<open>auto simp: holds_marker_def emptyWaiterTimeout_def\<close>)

lemma holds_run:
  "holds_marker m s \<Longrightarrow> list_all (leaves_alone m) es \<Longrightarrow> holds_marker m (foldl jobs_step s es)"
  by (induction es arbitrary: s) (simp_all add: holds_step)

lemma holds_current:
  assumes "holds_marker m s" and "jobId m \<noteq> []"
  shows "isCronActiveJobMarkerCurrent s (Some m) \<and> isCronJobActive s (jobId m)"
  using holds_sync [OF assms(1)] assms(2)
  by (simp add: holds_marker_def isCronActiveJobMarkerCurrent_def isCronJobActive_def Let_def)

section \<open>A marker of an earlier generation stays dead\<close>

text \<open>Tokens are never handed out twice, so whoever holds the token of \<open>m\<close> is \<open>m\<close>.\<close>

definition token_taken :: "marker \<Rightarrow> active_jobs \<Rightarrow> bool" where
  "token_taken m s \<longleftrightarrow> jm_wf (activeJobs s) \<and> token m < nextToken s \<and>
     (\<forall>j m'. jm_get (activeJobs s) j = Some m' \<longrightarrow> token m' = token m \<longrightarrow> m' = m)"

lemma taken_sync: "token_taken m s \<Longrightarrow> token_taken m (getCronActiveJobState s)"
  by (rule sync_induct [where P = "token_taken m"])
     (auto simp: token_taken_def jm_get_filter adoptJobId_def legacy_marker_def split: option.splits if_splits)

lemma taken_notify [simp]: "token_taken m (notifyActiveCronJobWaitersIfEmpty s) = token_taken m s"
  by (simp add: token_taken_def)

lemma taken_step: "token_taken m s \<Longrightarrow> token_taken m (jobs_step s e)"
proof -
  assume t: "token_taken m s"
  note u = taken_sync [OF t]
  show ?thesis
  proof (cases e)
    case (MarkActive j p)
    with u t show ?thesis by (auto simp: markCronJobActive_def Let_def token_taken_def)
  next
    case (ClearActive j mk)
    with u t show ?thesis
      by (auto simp: clearCronJobActive_def Let_def token_taken_def split: option.splits if_splits)
  next
    case AdvanceGeneration
    with u show ?thesis
      by (auto simp: advanceCronActiveJobGeneration_def Let_def token_taken_def jm_get_filter
          split: option.splits if_splits)
  next
    case ResetJobs
    with u show ?thesis by (simp add: resetCronActiveJobs_def Let_def token_taken_def)
  next
    case WaitEmpty
    with u show ?thesis by (auto simp: waitForActiveCronJobs_def Let_def token_taken_def)
  qed (use t u in \<open>auto simp: token_taken_def emptyWaiterTimeout_def\<close>)
qed

lemma taken_run: "token_taken m s \<Longrightarrow> token_taken m (foldl jobs_step s es)"
  by (induction es arbitrary: s) (simp_all add: taken_step)

interpretation crg: monotone_machine jobs_step jobGeneration
proof unfold_locales
  show "jobGeneration s \<le> jobGeneration (jobs_step s e)" for s e
    by (cases e) (auto simp: markCronJobActive_def clearCronJobActive_def waitForActiveCronJobs_def
        emptyWaiterTimeout_def advanceCronActiveJobGeneration_def resetCronActiveJobs_def Let_def
        split: option.splits)
qed

section \<open>Waiters\<close>

definition jobs_base :: "active_jobs \<Rightarrow> bool" where
  "jobs_base s \<longleftrightarrow> jm_wf (activeJobs s) \<and>
     (\<forall>k m. jm_get (activeJobs s) k = Some m \<longrightarrow> k \<in> set (activeJobIds s) \<and> token m < nextToken s)"

definition some_active :: "active_jobs \<Rightarrow> bool" where
  "some_active s \<longleftrightarrow> (\<exists>k m. jm_get (activeJobs s) k = Some m \<and> isMarkerActiveInGeneration m (jobGeneration s))"

definition jobs_inv :: "active_jobs \<Rightarrow> bool" where
  "jobs_inv s \<longleftrightarrow> jobs_base s \<and> (emptyWaiters s \<noteq> [] \<longrightarrow> some_active s)"

lemma count_active: "jm_wf (activeJobs s) \<Longrightarrow> getActiveCronJobCountForGeneration s > 0 \<longleftrightarrow> some_active s"
  unfolding count_pos some_active_def by (simp add: map_of_eq_Some_iff Bex_def)

text \<open>Without removals behind the registry's back.\<close>

fun no_legacy_removal :: "jobs_op \<Rightarrow> bool" where
  "no_legacy_removal (LegacyRemove j) = False"
| "no_legacy_removal _ = True"

lemma set_add_id [simp]: "set (add_id j ids) = insert j (set ids)"
  by (auto simp: add_id_def)

lemma set_del_id [simp]: "set (del_id j ids) = set ids - {j}"
  by (auto simp: del_id_def)

lemma adopt_inv:
  assumes "jobs_inv s" and "j \<in> set (activeJobIds s)"
  shows "jobs_inv (adoptJobId s j)"
proof (cases "jm_get (activeJobs s) j")
  case None
  let ?t = "s\<lparr>activeJobs := jm_set j (legacy_marker s j) (activeJobs s), nextToken := nextToken s + 1\<rparr>"
  have "jobs_base ?t"
    using assms by (simp add: jobs_inv_def jobs_base_def legacy_marker_def less_SucI)
  moreover have "some_active ?t" if active: "some_active s"
  proof -
    from active obtain k m where
      km: "jm_get (activeJobs s) k = Some m" "isMarkerActiveInGeneration m (jobGeneration s)"
      unfolding some_active_def by blast
    then have "k \<noteq> j" using None by auto
    with km show ?thesis unfolding some_active_def by (intro exI [of _ k] exI [of _ m]) simp
  qed
  ultimately show ?thesis using None assms by (simp add: adoptJobId_def jobs_inv_def)
next
  case (Some a)
  with assms show ?thesis by (simp add: adoptJobId_def)
qed

lemma adopts_inv: "jobs_inv s \<Longrightarrow> set js \<subseteq> set (activeJobIds s) \<Longrightarrow> jobs_inv (foldl adoptJobId s js)"
  by (induction js arbitrary: s) (simp_all add: adopt_inv)

lemma sync_inv: "jobs_inv s \<Longrightarrow> jobs_inv (getCronActiveJobState s)"
proof -
  assume inv: "jobs_inv s"
  then have "fst e \<in> set (activeJobIds s)" if "e \<in> set (activeJobs s)" for e
    using that by (cases e) (auto simp: jobs_inv_def jobs_base_def map_of_eq_Some_iff)
  then have "filter (\<lambda>e. \<not> (legacy (snd e) \<and> fst e \<notin> set (activeJobIds s))) (activeJobs s) = activeJobs s"
    by (intro filter_True) blast
  then have "getCronActiveJobState s = foldl adoptJobId s (activeJobIds s)"
    by (simp add: getCronActiveJobState_def)
  then show ?thesis using inv by (simp add: adopts_inv)
qed

lemma notify_jobs_inv: "jobs_base s \<Longrightarrow> jobs_inv (notifyActiveCronJobWaitersIfEmpty s)"
proof -
  assume b: "jobs_base s"
  then have "jobs_base (notifyActiveCronJobWaitersIfEmpty s)" by (simp add: jobs_base_def)
  moreover have "some_active s" if "emptyWaiters (notifyActiveCronJobWaitersIfEmpty s) \<noteq> []"
    using that b count_active [of s]
    by (auto simp: notifyActiveCronJobWaitersIfEmpty_def jobs_base_def split: if_splits)
  ultimately show ?thesis by (auto simp: jobs_inv_def some_active_def)
qed

lemma mark_jobs_inv: "jobs_inv s \<Longrightarrow> jobs_inv (snd (markCronJobActive s j p))"
proof (cases "j = []")
  case False
  assume "jobs_inv s"
  then have "jobs_base (getCronActiveJobState s)" using sync_inv by (simp add: jobs_inv_def)
  with False have "jobs_base (snd (markCronJobActive s j p))"
    by (auto simp: markCronJobActive_def Let_def jobs_base_def less_SucI split: if_splits)
  moreover have "some_active (snd (markCronJobActive s j p))"
    using False unfolding some_active_def
    by (intro exI [of _ j]) (simp add: markCronJobActive_def Let_def isMarkerActiveInGeneration_def)
  ultimately show ?thesis by (simp add: jobs_inv_def)
qed (simp add: markCronJobActive_def)

lemma clear_jobs_inv: "jobs_inv s \<Longrightarrow> jobs_inv (clearCronJobActive s j mk)"
proof (cases "j = []")
  case False
  assume "jobs_inv s"
  then have b: "jobs_base (getCronActiveJobState s)" using sync_inv by (simp add: jobs_inv_def)
  show ?thesis
  proof (cases "jm_get (activeJobs (getCronActiveJobState s)) j")
    case None
    with False b show ?thesis by (simp add: clearCronJobActive_def Let_def notify_jobs_inv)
  next
    case (Some a)
    let ?t = "getCronActiveJobState s"
    have "jobs_base (?t\<lparr>activeJobs := jm_del j (activeJobs ?t), activeJobIds := del_id j (activeJobIds ?t)\<rparr>)"
      using b by (auto simp: jobs_base_def split: if_splits)
    with False Some b show ?thesis by (simp add: clearCronJobActive_def Let_def notify_jobs_inv)
  qed
qed (simp add: clearCronJobActive_def)

lemma advance_jobs_inv: "jobs_inv s \<Longrightarrow> jobs_inv (advanceCronActiveJobGeneration s)"
proof -
  assume "jobs_inv s"
  then have b: "jobs_base (getCronActiveJobState s)" using sync_inv by (simp add: jobs_inv_def)
  let ?t = "getCronActiveJobState s"
  let ?g = "jobGeneration ?t + 1"
  let ?gone = "map fst (filter (\<lambda>e. outdated ?g (snd e)) (activeJobs ?t))"
  have wf: "jm_wf (activeJobs ?t)" using b by (simp add: jobs_base_def)
  have "k \<notin> set ?gone" if "jm_get (activeJobs ?t) k = Some m" "\<not> outdated ?g m" for k m
    using that eq_key_imp_eq_value [OF wf jm_get_mem [OF that(1)]] by auto
  then have "jobs_base (?t\<lparr>jobGeneration := ?g,
      activeJobs := filter (\<lambda>e. \<not> outdated ?g (snd e)) (activeJobs ?t),
      activeJobIds := filter (\<lambda>j. j \<notin> set ?gone) (activeJobIds ?t)\<rparr>)"
    using b by (simp add: jobs_base_def jm_get_filter [OF wf] split: option.splits)
  from notify_jobs_inv [OF this] show ?thesis by (simp add: advanceCronActiveJobGeneration_def Let_def)
qed

lemma wait_jobs_inv: "jobs_inv s \<Longrightarrow> jobs_inv (snd (waitForActiveCronJobs s))"
proof -
  assume "jobs_inv s"
  then have i: "jobs_inv (getCronActiveJobState s)" by (rule sync_inv)
  moreover have "some_active (getCronActiveJobState s)"
    if "getActiveCronJobCountForGeneration (getCronActiveJobState s) \<noteq> 0"
    using that i count_active [of "getCronActiveJobState s"] by (simp add: jobs_inv_def jobs_base_def)
  ultimately show ?thesis
    by (auto simp: waitForActiveCronJobs_def Let_def jobs_inv_def jobs_base_def some_active_def)
qed

lemma waiters_only: "jobs_inv s \<Longrightarrow> activeJobs t = activeJobs s \<Longrightarrow> jobGeneration t = jobGeneration s \<Longrightarrow>
    nextToken t = nextToken s \<Longrightarrow> set (activeJobIds s) \<subseteq> set (activeJobIds t) \<Longrightarrow>
    (emptyWaiters t \<noteq> [] \<longrightarrow> emptyWaiters s \<noteq> []) \<Longrightarrow> jobs_inv t"
  by (auto simp: jobs_inv_def jobs_base_def some_active_def)

lemma jobs_step_inv: "jobs_inv s \<Longrightarrow> no_legacy_removal e \<Longrightarrow> jobs_inv (jobs_step s e)"
proof (cases e)
  case ResetJobs
  then show ?thesis by (simp add: resetCronActiveJobs_def Let_def notify_jobs_inv jobs_base_def)
next
  case (WaitTimeout w)
  then show "jobs_inv s \<Longrightarrow> ?thesis" by (auto simp: emptyWaiterTimeout_def intro: waiters_only)
next
  case (LegacyAdd j)
  then show "jobs_inv s \<Longrightarrow> ?thesis" by (auto intro: waiters_only)
qed (auto simp: mark_jobs_inv clear_jobs_inv advance_jobs_inv wait_jobs_inv sync_inv)

lemma jobs_run_inv: "jobs_inv s \<Longrightarrow> list_all no_legacy_removal es \<Longrightarrow> jobs_inv (foldl jobs_step s es)"
  by (induction es arbitrary: s) (simp_all add: jobs_step_inv)

section \<open>Properties\<close>

lemma reachable_wf: "jm_wf (activeJobs (foldl jobs_step initial_jobs es))"
proof -
  have "token_taken (legacy_marker initial_jobs []\<lparr>token := 0\<rparr>) initial_jobs"
    by (simp add: token_taken_def initial_jobs_def)
  from taken_run [OF this] show ?thesis by (simp add: token_taken_def)
qed

lemma mark_result:
  assumes "markCronJobActive s j p = (Some m, s1)" and "jm_wf (activeJobs s)"
  shows "jobId m = j" "j \<noteq> []" "preserveAcrossGenerationAdvance m = p" "holds_marker m s1"
    and "token m = nextToken (getCronActiveJobState s)" "token m < nextToken s1"
proof -
  have wf: "jm_wf (activeJobs (getCronActiveJobState s))"
    by (rule sync_induct [where P = "\<lambda>s. jm_wf (activeJobs s)"]) (auto simp: assms(2) adoptJobId_def)
  have j: "j \<noteq> []" using assms(1) by (auto simp: markCronJobActive_def)
  show "jobId m = j" "j \<noteq> []" "preserveAcrossGenerationAdvance m = p"
    "token m = nextToken (getCronActiveJobState s)" "token m < nextToken s1"
    using assms(1) j by (auto simp: markCronJobActive_def Let_def)
  show "holds_marker m s1"
    using assms(1) j wf
    by (auto simp: markCronJobActive_def Let_def holds_marker_def isMarkerActiveInGeneration_def)
qed

text \<open>
  The duplicate-run guard holds for the whole run: from the moment a job is marked, whatever
  other jobs, waiters, module copies and late finishers with other tokens do (and across restarts
  for runs marked to be preserved), its marker stays current and the job counts as active.
\<close>

theorem marked_run_stays_active:
  assumes "markCronJobActive (foldl jobs_step initial_jobs before) j p = (Some m, s1)"
    and "list_all (leaves_alone m) es"
  shows "isCronActiveJobMarkerCurrent (foldl jobs_step s1 es) (Some m) \<and>
         isCronJobActive (foldl jobs_step s1 es) j"
proof -
  note r = mark_result [OF assms(1) reachable_wf]
  have "holds_marker m (foldl jobs_step s1 es)" by (rule holds_run [OF r(4) assms(2)])
  from holds_current [OF this] r(1,2) show ?thesis by simp
qed

text \<open>
  A run that was superseded cannot disturb its successor: once a job is marked again, after
  any history, the old marker is no longer current and clearing with it leaves the new run active
  and current.
\<close>

theorem late_finisher_is_harmless:
  assumes m1: "markCronJobActive (foldl jobs_step initial_jobs before) j p = (Some m1, s1)"
    and m2: "markCronJobActive (foldl jobs_step s1 es) j q = (Some m2, s2)"
  shows "\<not> isCronActiveJobMarkerCurrent s2 (Some m1) \<and>
    isCronActiveJobMarkerCurrent (clearCronJobActive s2 j (Some m1)) (Some m2) \<and>
    isCronJobActive (clearCronJobActive s2 j (Some m1)) j"
proof -
  note r1 = mark_result [OF m1 reachable_wf]
  let ?s = "foldl jobs_step s1 es"
  have "s1 = jobs_step (foldl jobs_step initial_jobs before) (MarkActive j p)" using m1 by simp
  then have "?s = foldl jobs_step initial_jobs (before @ MarkActive j p # es)" by simp
  then have wf: "jm_wf (activeJobs ?s)" by (simp only: reachable_wf)
  note r2 = mark_result [OF m2 wf]
  have lt: "token m1 < nextToken ?s"
  proof -
    have "nextToken s \<le> nextToken (getCronActiveJobState s)" for s
      by (rule sync_induct [where P = "\<lambda>t. nextToken s \<le> nextToken t"]) (auto intro: le_trans)
    then have "nextToken s \<le> nextToken (jobs_step s e)" for s e
      by (cases e) (auto simp: markCronJobActive_def clearCronJobActive_def waitForActiveCronJobs_def
          emptyWaiterTimeout_def advanceCronActiveJobGeneration_def resetCronActiveJobs_def Let_def
          le_SucI split: option.splits)
    then have "nextToken s1 \<le> nextToken ?s"
      by (induction es arbitrary: s1) (auto intro: le_trans)
    with r1(6) show ?thesis by simp
  qed
  have "nextToken ?s \<le> nextToken (getCronActiveJobState ?s)"
    by (rule sync_induct [where P = "\<lambda>t. nextToken ?s \<le> nextToken t"]) (auto intro: le_trans)
  then have ne: "token m1 \<noteq> token m2" using lt r2(5) by simp
  have "jm_get (activeJobs (getCronActiveJobState s2)) j = Some m2"
    using holds_sync [OF r2(4)] r2(1) by (simp add: holds_marker_def)
  then have "\<not> isCronActiveJobMarkerCurrent s2 (Some m1)"
    using ne r1(1) by (simp add: isCronActiveJobMarkerCurrent_def Let_def)
  moreover have "holds_marker m2 (jobs_step s2 (ClearActive j (Some m1)))"
    using r2(4) ne by (intro holds_step) simp_all
  then have "holds_marker m2 (clearCronJobActive s2 j (Some m1))" by simp
  from holds_current [OF this] r2(1,2) have
    "isCronActiveJobMarkerCurrent (clearCronJobActive s2 j (Some m1)) (Some m2)"
    "isCronJobActive (clearCronJobActive s2 j (Some m1)) j" by simp_all
  ultimately show ?thesis by simp
qed

text \<open>
  Nobody waits for an empty registry: in every history without removals by other module
  copies, a waiter is registered only while some run of the current generation is active; the
  step that retires the last one wakes all waiters.
\<close>

theorem cron_waiters_imply_active_jobs:
  assumes "list_all no_legacy_removal es"
  shows "emptyWaiters (foldl jobs_step initial_jobs es) = [] \<or>
    0 < getActiveCronJobCountForGeneration (foldl jobs_step initial_jobs es)"
proof -
  have "jobs_inv initial_jobs" by (simp add: jobs_inv_def jobs_base_def initial_jobs_def)
  from jobs_run_inv [OF this assms] show ?thesis
    using count_active reachable_wf by (auto simp: jobs_inv_def)
qed

section \<open>The properties at concrete histories\<close>

definition sample_marker :: "nat \<Rightarrow> bool \<Rightarrow> marker" where
  "sample_marker t p = \<lparr>jobId = ''nightly'', markerGeneration = 0, token = t, legacy = False,
     preserveAcrossGenerationAdvance = p\<rparr>"

lemma sample_mark:
  "markCronJobActive (foldl jobs_step initial_jobs []) ''nightly'' True =
     (Some (sample_marker 1 True), snd (markCronJobActive initial_jobs ''nightly'' True))"
  "markCronJobActive (foldl jobs_step (snd (markCronJobActive initial_jobs ''nightly'' True))
       [LegacyAdd ''mail'', WaitEmpty]) ''nightly'' False =
     (Some (sample_marker 3 False),
      snd (markCronJobActive (foldl jobs_step (snd (markCronJobActive initial_jobs ''nightly'' True))
        [LegacyAdd ''mail'', WaitEmpty]) ''nightly'' False))"
  by code_simp+

theorem marked_run_stays_active_witness:
  "isCronJobActive (foldl jobs_step (snd (markCronJobActive initial_jobs ''nightly'' True))
     [AdvanceGeneration, LegacyAdd ''mail'', ClearActive ''nightly'' (Some (sample_marker 7 False))])
     ''nightly''"
  using marked_run_stays_active [OF sample_mark(1), of "[AdvanceGeneration, LegacyAdd ''mail'',
      ClearActive ''nightly'' (Some (sample_marker 7 False))]"]
  by (simp add: sample_marker_def)

theorem late_finisher_is_harmless_witness:
  "\<not> isCronActiveJobMarkerCurrent
       (snd (markCronJobActive (foldl jobs_step (snd (markCronJobActive initial_jobs ''nightly'' True))
          [LegacyAdd ''mail'', WaitEmpty]) ''nightly'' False)) (Some (sample_marker 1 True))"
  using late_finisher_is_harmless [OF sample_mark] by (rule conjunct1)

theorem cron_waiters_imply_active_jobs_witness:
  "emptyWaiters (foldl jobs_step initial_jobs [MarkActive ''nightly'' False, WaitEmpty]) = [] \<or>
    0 < getActiveCronJobCountForGeneration
          (foldl jobs_step initial_jobs [MarkActive ''nightly'' False, WaitEmpty])"
  by (rule cron_waiters_imply_active_jobs) simp

end
