(* ===== verification/HeartbeatCooldown.thy ===== *)
theory HeartbeatCooldown
  imports Prelude
begin

text \<open>
  \<^verbatim>\<open>src/infra/heartbeat-cooldown.ts\<close>: the single decision whether a heartbeat wake runs now or is
  deferred, and the bounded buffer of recent run starts its flood guard reads. Instants and
  durations are whole milliseconds.
\<close>

section \<open>The decision\<close>

datatype wake_intent = WakeManual | WakeImmediate | WakeScheduled | WakeEvent

datatype defer_reason = NotDue | MinSpacing | Flood

datatype defer_decision = RunNow | Defer defer_reason

record wake_input =
  intent :: wake_intent
  wakeNow :: int
  nextDueMs :: int
  lastRunStartedAtMs :: "int option"
  recentRunStarts :: "int list option"
  minSpacingMs :: "int option"
  floodWindowMs :: "int option"
  floodThreshold :: "int option"

definition DEFAULT_MIN_WAKE_SPACING_MS :: int where "DEFAULT_MIN_WAKE_SPACING_MS = 30000"
definition DEFAULT_FLOOD_WINDOW_MS :: int where "DEFAULT_FLOOD_WINDOW_MS = 60000"
definition DEFAULT_FLOOD_THRESHOLD :: int where "DEFAULT_FLOOD_THRESHOLD = 5"

definition or_default :: "'a option \<Rightarrow> 'a \<Rightarrow> 'a" where
  "or_default v d = (case v of Some x \<Rightarrow> x | None \<Rightarrow> d)"

text \<open>The scan from the newest start backwards, up to the first one outside the window.\<close>

definition inWindow :: "int list \<Rightarrow> int \<Rightarrow> nat" where
  "inWindow starts windowStart = length (takeWhile (\<lambda>ts. \<not> ts < windowStart) (rev starts))"

definition checkFloodGuard :: "wake_input \<Rightarrow> defer_decision option" where
  "checkFloodGuard i =
     (let floodWindow = or_default (floodWindowMs i) DEFAULT_FLOOD_WINDOW_MS;
          threshold = or_default (floodThreshold i) DEFAULT_FLOOD_THRESHOLD
      in case recentRunStarts i of
           None \<Rightarrow> None
         | Some starts \<Rightarrow>
             if int (length starts) < threshold \<or> floodWindow \<le> 0 then None
             else if int (inWindow starts (wakeNow i - floodWindow)) \<ge> threshold
             then Some (Defer Flood) else None)"

definition shouldDeferWake :: "wake_input \<Rightarrow> defer_decision" where
  "shouldDeferWake i =
     (if intent i = WakeManual then RunNow
      else if intent i = WakeImmediate then or_default (checkFloodGuard i) RunNow
      else
        case checkFloodGuard i of
          Some d \<Rightarrow> d
        | None \<Rightarrow>
            if intent i = WakeScheduled
            then (if wakeNow i < nextDueMs i then Defer NotDue else RunNow)
            else
              (case lastRunStartedAtMs i of
                None \<Rightarrow> RunNow
              | Some prev \<Rightarrow>
                  if wakeNow i < nextDueMs i then Defer NotDue
                  else let minSpacing = or_default (minSpacingMs i) DEFAULT_MIN_WAKE_SPACING_MS
                       in if minSpacing > 0 \<and> wakeNow i - prev < minSpacing then Defer MinSpacing
                          else RunNow))"

definition recordRunStart :: "int list \<Rightarrow> int \<Rightarrow> int \<Rightarrow> int list" where
  "recordRunStart buffer ts threshold =
     (let b = buffer @ [ts] in drop (nat (int (length b) - max 0 (threshold + 1))) b)"

section \<open>A sequence of wakes\<close>

text \<open>
  The dispatcher decides each wake on the buffer as it is and records the start of those that run.
  How many of a sequence of wakes run:
\<close>

fun wakes_run :: "int \<Rightarrow> int list \<Rightarrow> wake_input list \<Rightarrow> nat" where
  "wakes_run threshold buffer [] = 0"
| "wakes_run threshold buffer (w # ws) =
     (if shouldDeferWake (w\<lparr>recentRunStarts := Some buffer, floodThreshold := Some threshold\<rparr>) = RunNow
      then Suc (wakes_run threshold (recordRunStart buffer (wakeNow w) threshold) ws)
      else wakes_run threshold buffer ws)"

lemma takeWhile_ge: "\<forall>x \<in> set (take n xs). P x \<Longrightarrow> n \<le> length xs \<Longrightarrow> n \<le> length (takeWhile P xs)"
proof (induction xs arbitrary: n)
  case (Cons x xs)
  then show ?case by (cases n) auto
qed simp

text \<open>In an ordered buffer the recent starts are a suffix, and the scan counts them all.\<close>

lemma sorted_recent: "sorted b \<Longrightarrow> filter (\<lambda>x. t \<le> x) b = dropWhile (\<lambda>x. x < t) (b :: int list)"
proof (induction b)
  case (Cons x b)
  then show ?case
  proof (cases "t \<le> x")
    case True
    with Cons.prems have "\<forall>y \<in> set b. t \<le> y" by auto
    with True show ?thesis by simp
  qed simp
qed simp

lemma inWindow_counts:
  assumes "sorted b" and "w \<le> t"
  shows "length (filter (\<lambda>x. t \<le> x) b) \<le> inWindow b w"
proof -
  let ?f = "filter (\<lambda>x. t \<le> x) b"
  have "b = takeWhile (\<lambda>x. x < t) b @ ?f" by (simp add: sorted_recent [OF assms(1)])
  then have "rev b = rev ?f @ rev (takeWhile (\<lambda>x. x < t) b)" by (metis rev_append)
  then have "take (length ?f) (rev b) = rev ?f" by simp
  then have "\<forall>x \<in> set (take (length ?f) (rev b)). \<not> x < w" using assms(2) by auto
  from takeWhile_ge [OF this] show ?thesis by (simp add: inWindow_def)
qed

lemma record_recent:
  assumes "length (filter (\<lambda>x. t \<le> x) b) < n" and "t \<le> now" and "sorted b" and "\<forall>x \<in> set b. x \<le> now"
  shows "filter (\<lambda>x. t \<le> x) (recordRunStart b now (int n)) = filter (\<lambda>x. t \<le> x) b @ [now]"
    and "sorted (recordRunStart b now (int n))" and "\<forall>x \<in> set (recordRunStart b now (int n)). x \<le> now"
proof -
  let ?b = "b @ [now]" and ?f = "filter (\<lambda>x. t \<le> x) b" and ?l = "takeWhile (\<lambda>x. x < t) b"
  have srt: "sorted ?b" using assms(3,4) by (simp add: sorted_append)
  define k where "k = length b - n"
  have "nat (int (length ?b) - max 0 (int n + 1)) = k" by (simp add: k_def)
  then have k: "recordRunStart b now (int n) = drop k ?b" by (simp only: recordRunStart_def Let_def)
  have b: "?b = ?l @ (?f @ [now])" by (simp add: sorted_recent [OF assms(3)])
  have "length b = length ?l + length ?f" by (metis b append_assoc append_same_eq length_append)
  then have "k \<le> length ?l" using k_def assms(1) by simp
  then have "drop k ?b = drop k ?l @ ?f @ [now]" by (subst b) simp
  moreover have "filter (\<lambda>x. t \<le> x) (drop k ?l) = []"
    by (auto simp: filter_empty_conv dest!: in_set_dropD set_takeWhileD)
  ultimately show "filter (\<lambda>x. t \<le> x) (recordRunStart b now (int n)) = ?f @ [now]"
    using assms(2) by (simp add: k)
  show "sorted (recordRunStart b now (int n))" unfolding k using srt by (rule sorted_wrt_drop)
  show "\<forall>x \<in> set (recordRunStart b now (int n)). x \<le> now"
    unfolding k using assms(4) by (auto dest: in_set_dropD)
qed

definition guarded_wake :: "int \<Rightarrow> int \<Rightarrow> wake_input \<Rightarrow> bool" where
  "guarded_wake t0 window w \<longleftrightarrow> intent w \<noteq> WakeManual \<and>
     or_default (floodWindowMs w) DEFAULT_FLOOD_WINDOW_MS = window \<and> t0 \<le> wakeNow w \<and> wakeNow w \<le> t0 + window"

lemma flood_defers:
  assumes "guarded_wake t0 window w" and "sorted b" and "0 < window" and "n \<le> length (filter (\<lambda>x. t0 \<le> x) b)"
  shows "shouldDeferWake (w\<lparr>recentRunStarts := Some b, floodThreshold := Some (int n)\<rparr>) = Defer Flood"
proof -
  have "n \<le> inWindow b (wakeNow w - window)"
    using inWindow_counts [OF assms(2), of "wakeNow w - window" t0] assms(1,4) by (simp add: guarded_wake_def)
  moreover have "n \<le> length b" using assms(4) length_filter_le le_trans by blast
  ultimately have "checkFloodGuard (w\<lparr>recentRunStarts := Some b, floodThreshold := Some (int n)\<rparr>) = Some (Defer Flood)"
    using assms(1,3) by (simp add: checkFloodGuard_def guarded_wake_def or_default_def [of "Some _"] Let_def)
  then show ?thesis using assms(1) by (simp add: shouldDeferWake_def guarded_wake_def or_default_def)
qed

lemma wakes_run_bound:
  "\<forall>w \<in> set ws. guarded_wake t0 window w \<Longrightarrow> sorted (map wakeNow ws) \<Longrightarrow> sorted b \<Longrightarrow>
   \<forall>w \<in> set ws. \<forall>x \<in> set b. x \<le> wakeNow w \<Longrightarrow> 0 < window \<Longrightarrow>
   wakes_run (int n) b ws \<le> n - length (filter (\<lambda>x. t0 \<le> x) b)"
proof (induction ws arbitrary: b)
  case (Cons w ws)
  let ?c = "length (filter (\<lambda>x. t0 \<le> x) b)"
  have w: "guarded_wake t0 window w" using Cons.prems(1) by simp
  show ?case
  proof (cases "n \<le> ?c")
    case True
    then have "wakes_run (int n) b (w # ws) = wakes_run (int n) b ws"
      using flood_defers [OF w Cons.prems(3,5)] by simp
    moreover have "wakes_run (int n) b ws \<le> n - ?c" using Cons.prems by (intro Cons.IH) simp_all
    ultimately show ?thesis by simp
  next
    case False
    let ?b = "recordRunStart b (wakeNow w) (int n)"
    have pre: "?c < n" "t0 \<le> wakeNow w" "\<forall>x \<in> set b. x \<le> wakeNow w"
      using False w Cons.prems(4) by (simp_all add: guarded_wake_def)
    note r = record_recent [OF pre(1,2) Cons.prems(3) pre(3)]
    have "\<forall>v \<in> set ws. \<forall>x \<in> set ?b. x \<le> wakeNow v"
      using r(3) Cons.prems(2) by fastforce
    then have "wakes_run (int n) ?b ws \<le> n - length (filter (\<lambda>x. t0 \<le> x) ?b)"
      using Cons.prems(1,2,5) r(2) by (intro Cons.IH) simp_all
    moreover have "wakes_run (int n) b ws \<le> n - ?c" using Cons.prems by (intro Cons.IH) simp_all
    ultimately show ?thesis using False r(1) by (simp add: Suc_le_eq less_diff_conv) linarith
  qed
qed simp

section \<open>Properties\<close>

text \<open>
  The flood guard is a backstop against feedback loops: whatever mix of scheduled, immediate
  and event wakes arrives in order, and whatever the schedule says, at most the threshold number
  of runs starts within any span as long as the flood window.
\<close>

theorem heartbeat_flood_bound:
  assumes "\<forall>w \<in> set ws. guarded_wake t0 window w" and "sorted (map wakeNow ws)" and "sorted b"
    and "\<forall>w \<in> set ws. \<forall>x \<in> set b. x \<le> wakeNow w" and "0 < window"
  shows "wakes_run (int n) b ws \<le> n"
  using wakes_run_bound [OF assms, of n] by simp

definition sample_wake :: "wake_intent \<Rightarrow> int \<Rightarrow> wake_input" where
  "sample_wake i t = \<lparr>intent = i, wakeNow = t, nextDueMs = 0, lastRunStartedAtMs = None,
     recentRunStarts = None, minSpacingMs = None, floodWindowMs = None, floodThreshold = None\<rparr>"

theorem heartbeat_flood_bound_witness:
  "wakes_run (int 2) [900] [sample_wake WakeEvent 1000, sample_wake WakeImmediate 1000,
      sample_wake WakeScheduled 1500, sample_wake WakeEvent 2000] \<le> 2"
  by (rule heartbeat_flood_bound [of _ 1000 60000])
     (simp_all add: guarded_wake_def sample_wake_def or_default_def DEFAULT_FLOOD_WINDOW_MS_def)

text \<open>
  The decision matrix: a manual wake always runs; an immediate one unless there is a flood;
  a scheduled one exactly when it is due and there is no flood; an event wake runs without a
  flood if the agent never ran, and else only when due and after the minimum spacing.
\<close>

theorem heartbeat_decision_matrix:
  "shouldDeferWake i = RunNow \<longleftrightarrow>
     (case intent i of
        WakeManual \<Rightarrow> True
      | WakeImmediate \<Rightarrow> checkFloodGuard i = None
      | WakeScheduled \<Rightarrow> checkFloodGuard i = None \<and> nextDueMs i \<le> wakeNow i
      | WakeEvent \<Rightarrow> checkFloodGuard i = None \<and>
          (case lastRunStartedAtMs i of
             None \<Rightarrow> True
           | Some prev \<Rightarrow> max (nextDueMs i) (prev + max 0 (or_default (minSpacingMs i) DEFAULT_MIN_WAKE_SPACING_MS))
               \<le> wakeNow i \<or> nextDueMs i \<le> wakeNow i \<and> or_default (minSpacingMs i) DEFAULT_MIN_WAKE_SPACING_MS \<le> 0))"
proof -
  have "checkFloodGuard i = None \<or> checkFloodGuard i = Some (Defer Flood)"
    by (auto simp: checkFloodGuard_def Let_def split: option.split)
  then show ?thesis
    by (auto simp: shouldDeferWake_def or_default_def [of "checkFloodGuard i"] Let_def max_def
        split: wake_intent.split option.split)
qed

end
