(* ===== verification/NodePendingWork.thy ===== *)
theory NodePendingWork
  imports NumberCoercion "HOL-Library.Multiset"
begin

text \<open>
  \<^verbatim>\<open>src/gateway/node-pending-work.ts\<close>: the per-node queue of prompts a gateway keeps until the node
  connects and drains it. The clock and the id drawn by \<^verbatim>\<open>randomUUID\<close> are arguments of the
  operations; \<^verbatim>\<open>localeCompare\<close>, which depends on the host's locale, is an argument of the order; a
  payload is an opaque string.
\<close>

section \<open>State\<close>

datatype work_type = StatusRequest | LocationRequest

datatype work_priority = PriorityDefault | PriorityNormal | PriorityHigh

record work_item =
  itemId :: string
  itemType :: work_type
  itemPriority :: work_priority
  createdAtMs :: rat
  expiresAtMs :: "rat option"
  payload :: "string option"

record node_work =
  revision :: nat
  itemsById :: "(string, work_item) jsmap"

type_synonym pending_work = "(string, node_work) jsmap"

definition DEFAULT_STATUS_ITEM_ID :: string where "DEFAULT_STATUS_ITEM_ID = ''baseline-status''"
definition DEFAULT_PENDING_WORK_TTL_MS :: int where "DEFAULT_PENDING_WORK_TTL_MS = 24 * 60 * 60000"
definition DEFAULT_MAX_ITEMS :: int where "DEFAULT_MAX_ITEMS = 4"
definition MAX_ITEMS :: int where "MAX_ITEMS = 10"

fun PRIORITY_RANK :: "work_priority \<Rightarrow> int" where
  "PRIORITY_RANK PriorityHigh = 3"
| "PRIORITY_RANK PriorityNormal = 2"
| "PRIORITY_RANK PriorityDefault = 1"

section \<open>Operations on one node\<close>

definition getOrCreateState :: "pending_work \<Rightarrow> string \<Rightarrow> node_work" where
  "getOrCreateState m nodeId =
     (case jm_get m nodeId of Some s \<Rightarrow> s | None \<Rightarrow> \<lparr>revision = 0, itemsById = []\<rparr>)"

definition expired :: "rat \<Rightarrow> work_item \<Rightarrow> bool" where
  "expired now it =
     (case expiresAtMs it of
        None \<Rightarrow> False
      | Some e \<Rightarrow> \<not> isFutureDateTimestampMs (VNum (JFin e)) (Some (VNum (JFin now))) 0)"

definition pruneExpired :: "node_work \<Rightarrow> rat \<Rightarrow> node_work" where
  "pruneExpired s nowMs =
     (case asDateTimestampMs (VNum (JFin nowMs)) of
        None \<Rightarrow> s
      | Some validNowMs \<Rightarrow>
          let live = filter (\<lambda>e. \<not> expired validNowMs (snd e)) (itemsById s);
              changed = (length live < length (itemsById s))
          in s\<lparr>itemsById := live, revision := (if changed then revision s + 1 else revision s)\<rparr>)"

definition storeState :: "pending_work \<Rightarrow> string \<Rightarrow> node_work \<Rightarrow> pending_work" where
  "storeState m nodeId s = (if itemsById s = [] then jm_del nodeId m else jm_set nodeId s m)"

definition compareItems :: "(string \<Rightarrow> string \<Rightarrow> int) \<Rightarrow> work_item \<Rightarrow> work_item \<Rightarrow> rat" where
  "compareItems localeCompare a b =
     (let priorityDelta = PRIORITY_RANK (itemPriority b) - PRIORITY_RANK (itemPriority a) in
      if priorityDelta \<noteq> 0 then of_int priorityDelta
      else if createdAtMs a \<noteq> createdAtMs b then createdAtMs a - createdAtMs b
      else of_int (localeCompare (itemId a) (itemId b)))"

definition sortedItems :: "(string \<Rightarrow> string \<Rightarrow> int) \<Rightarrow> node_work \<Rightarrow> work_item list" where
  "sortedItems localeCompare s = toSorted (compareItems localeCompare) (jm_vals (itemsById s))"

definition makeBaselineStatusItem :: "rat \<Rightarrow> int \<Rightarrow> work_item" where
  "makeBaselineStatusItem nowMs clock =
     \<lparr>itemId = DEFAULT_STATUS_ITEM_ID, itemType = StatusRequest, itemPriority = PriorityDefault,
      createdAtMs = resolveDateTimestampMs (VNum (JFin nowMs)) None clock, expiresAtMs = None,
      payload = None\<rparr>"

definition resolvePendingWorkExpiresAtMs :: "jsval \<Rightarrow> int \<Rightarrow> rat" where
  "resolvePendingWorkExpiresAtMs expiresInMs nowMs =
     (let ttlMs = (case asFiniteNumber expiresInMs of
                     Some q \<Rightarrow> max 1000 (js_trunc q)
                   | None \<Rightarrow> DEFAULT_PENDING_WORK_TTL_MS)
      in case resolveExpiresAtMsFromDurationMs (int_val ttlMs)
                \<lparr>eo_nowMs = Some (JFin (of_int nowMs)), eo_bufferMs = None, eo_minRemainingMs = None\<rparr>
                nowMs of
           Some e \<Rightarrow> e
         | None \<Rightarrow> 0)"

section \<open>Enqueue and drain\<close>

record enqueue_result =
  er_revision :: nat
  er_item :: work_item
  er_deduped :: bool

text \<open>\<open>None\<close> stands for the error \<^verbatim>\<open>nodeId required\<close>.\<close>

definition enqueueNodePendingWork ::
    "pending_work \<Rightarrow> string \<Rightarrow> work_type \<Rightarrow> work_priority option \<Rightarrow> jsval \<Rightarrow> string option \<Rightarrow>
     string \<Rightarrow> int \<Rightarrow> enqueue_result option \<times> pending_work" where
  "enqueueNodePendingWork m rawNodeId ty prio expiresInMs pl uuid rawNowMs =
     (let nodeId = js_trim rawNodeId in
      if nodeId = [] then (None, m)
      else
        let nowMs = resolveDateTimestampMs (int_val rawNowMs) None rawNowMs;
            s = pruneExpired (getOrCreateState m nodeId) nowMs
        in case find (\<lambda>it. itemType it = ty) (jm_vals (itemsById s)) of
             Some existing \<Rightarrow>
               (Some \<lparr>er_revision = revision s, er_item = existing, er_deduped = True\<rparr>, jm_set nodeId s m)
           | None \<Rightarrow>
               let it = \<lparr>itemId = uuid, itemType = ty,
                         itemPriority = (case prio of Some p \<Rightarrow> p | None \<Rightarrow> PriorityNormal),
                         createdAtMs = nowMs,
                         expiresAtMs = Some (resolvePendingWorkExpiresAtMs expiresInMs rawNowMs),
                         payload = pl\<rparr>;
                   s1 = s\<lparr>itemsById := jm_set uuid it (itemsById s), revision := revision s + 1\<rparr>
               in (Some \<lparr>er_revision = revision s1, er_item = it, er_deduped = False\<rparr>, jm_set nodeId s1 m))"

record drain_options =
  do_maxItems :: "jsnum option"
  do_includeDefaultStatus :: "bool option"
  do_nowMs :: "jsnum option"

record drain_result =
  dr_revision :: nat
  dr_items :: "work_item list"
  dr_hasMore :: bool

text \<open>The number of items asked for, \<open>None\<close> for \<^verbatim>\<open>NaN\<close>.\<close>

fun resolveMaxItems :: "jsnum option \<Rightarrow> nat option" where
  "resolveMaxItems None = Some (nat DEFAULT_MAX_ITEMS)"
| "resolveMaxItems (Some (JFin q)) = Some (nat (min MAX_ITEMS (max 1 (js_trunc q))))"
| "resolveMaxItems (Some JPosInf) = Some (nat MAX_ITEMS)"
| "resolveMaxItems (Some JNegInf) = Some 1"
| "resolveMaxItems (Some JNaN) = None"

text \<open>The items returned, and whether there are more.\<close>

definition drainSelect :: "work_item list \<Rightarrow> nat option \<Rightarrow> bool option \<Rightarrow> work_item \<Rightarrow> work_item list \<times> bool" where
  "drainSelect explicitItems maxItems includeDefaultStatus baseline =
     (let items0 = take (case maxItems of Some n \<Rightarrow> n | None \<Rightarrow> 0) explicitItems;
          hasExplicitStatus = list_ex (\<lambda>it. itemType it = StatusRequest) explicitItems;
          includeBaseline = (includeDefaultStatus \<noteq> Some False \<and> \<not> hasExplicitStatus);
          items = (if includeBaseline \<and> (case maxItems of Some n \<Rightarrow> length items0 < n | None \<Rightarrow> False)
                   then items0 @ [baseline] else items0);
          explicitReturnedCount = length (filter (\<lambda>it. itemId it \<noteq> DEFAULT_STATUS_ITEM_ID) items);
          baselineIncluded = list_ex (\<lambda>it. itemId it = DEFAULT_STATUS_ITEM_ID) items
      in (items, length explicitItems > explicitReturnedCount \<or> (includeBaseline \<and> \<not> baselineIncluded)))"

text \<open>Removal of the explicit items among those returned.\<close>

definition takeReturned :: "node_work \<Rightarrow> work_item list \<Rightarrow> node_work" where
  "takeReturned s items =
     s\<lparr>itemsById := foldl (\<lambda>b it. if itemId it \<noteq> DEFAULT_STATUS_ITEM_ID then jm_del (itemId it) b else b)
                    (itemsById s) items,
       revision := revision s + 1\<rparr>"

definition drainNodePendingWork ::
    "(string \<Rightarrow> string \<Rightarrow> int) \<Rightarrow> pending_work \<Rightarrow> string \<Rightarrow> drain_options \<Rightarrow> int \<Rightarrow>
     drain_result \<times> pending_work" where
  "drainNodePendingWork localeCompare m rawNodeId opts clock =
     (let nodeId = js_trim rawNodeId in
      if nodeId = [] then (\<lparr>dr_revision = 0, dr_items = [], dr_hasMore = False\<rparr>, m)
      else
        let nowMs = resolveDateTimestampMs
                      (case do_nowMs opts of Some n \<Rightarrow> VNum n | None \<Rightarrow> int_val clock) None clock;
            baseline = makeBaselineStatusItem nowMs clock;
            maxItems = resolveMaxItems (do_maxItems opts)
        in case jm_get m nodeId of
             None \<Rightarrow>
               (case drainSelect [] maxItems (do_includeDefaultStatus opts) baseline of
                  (items, hasMore) \<Rightarrow> (\<lparr>dr_revision = 0, dr_items = items, dr_hasMore = hasMore\<rparr>, m))
           | Some s0 \<Rightarrow>
               let s = pruneExpired s0 nowMs;
                   m1 = storeState m nodeId s
               in (case drainSelect (sortedItems localeCompare s) maxItems
                          (do_includeDefaultStatus opts) baseline of
                     (items, hasMore) \<Rightarrow>
                       if length (filter (\<lambda>it. itemId it \<noteq> DEFAULT_STATUS_ITEM_ID) items) > 0
                       then let s1 = takeReturned s items
                            in (\<lparr>dr_revision = revision s1, dr_items = items, dr_hasMore = hasMore\<rparr>,
                                storeState m1 nodeId s1)
                       else (\<lparr>dr_revision = revision s, dr_items = items, dr_hasMore = hasMore\<rparr>, m1)))"

datatype work_op =
    EnqueueWork string work_type "work_priority option" jsval "string option" string int
  | DrainWork string drain_options int

fun work_step :: "(string \<Rightarrow> string \<Rightarrow> int) \<Rightarrow> pending_work \<Rightarrow> work_op \<Rightarrow> pending_work" where
  "work_step lc m (EnqueueWork n ty p ex pl uuid now) = snd (enqueueNodePendingWork m n ty p ex pl uuid now)"
| "work_step lc m (DrainWork n opts clock) = snd (drainNodePendingWork lc m n opts clock)"

section \<open>The invariant\<close>

declare map_of_eq_Some_iff [simp del] Some_eq_map_of_iff [simp del]

definition node_ok :: "node_work \<Rightarrow> bool" where
  "node_ok s \<longleftrightarrow> jm_wf (itemsById s) \<and> (\<forall>e \<in> set (itemsById s). itemId (snd e) = fst e) \<and>
     distinct (map (\<lambda>e. itemType (snd e)) (itemsById s))"

definition work_inv :: "pending_work \<Rightarrow> bool" where
  "work_inv m \<longleftrightarrow> jm_wf m \<and> (\<forall>k s. jm_get m k = Some s \<longrightarrow> node_ok s \<and> itemsById s \<noteq> [])"

lemma node_ok_filter: "node_ok s \<Longrightarrow> itemsById t = filter P (itemsById s) \<Longrightarrow> node_ok t"
  by (auto simp: node_ok_def intro: distinct_map_filter)

lemma prune_items: "\<exists>P. itemsById (pruneExpired s now) = filter P (itemsById s)"
proof (cases "asDateTimestampMs (VNum (JFin now))")
  case None
  then show ?thesis by (intro exI [of _ "\<lambda>_. True"]) (simp add: pruneExpired_def)
qed (auto simp: pruneExpired_def Let_def)

lemma prune_ok: "node_ok s \<Longrightarrow> node_ok (pruneExpired s now)"
  using prune_items [of s now] node_ok_filter by blast

lemma getOrCreate_ok: "work_inv m \<Longrightarrow> node_ok (getOrCreateState m k)"
  by (auto simp: getOrCreateState_def work_inv_def node_ok_def split: option.split)

lemma store_inv: "work_inv m \<Longrightarrow> node_ok s \<Longrightarrow> work_inv (storeState m k s)"
  by (auto simp: work_inv_def storeState_def)

lemma jm_del_filter: "jm_del k m = filter (\<lambda>e. fst e \<noteq> k) m"
  by (auto simp: AList.delete_eq intro!: filter_cong)

lemma takeReturned_items:
  "itemsById (takeReturned s its) =
     filter (\<lambda>e. fst e \<notin> itemId ` {it \<in> set its. itemId it \<noteq> DEFAULT_STATUS_ITEM_ID}) (itemsById s)"
proof -
  have "foldl (\<lambda>b it. if itemId it \<noteq> DEFAULT_STATUS_ITEM_ID then jm_del (itemId it) b else b) b its =
      filter (\<lambda>e. fst e \<notin> itemId ` {it \<in> set its. itemId it \<noteq> DEFAULT_STATUS_ITEM_ID}) b" for b
  proof (induction its arbitrary: b)
    case (Cons it its)
    show ?case
    proof (cases "itemId it = DEFAULT_STATUS_ITEM_ID")
      case True
      then have "{x \<in> set (it # its). itemId x \<noteq> DEFAULT_STATUS_ITEM_ID} =
          {x \<in> set its. itemId x \<noteq> DEFAULT_STATUS_ITEM_ID}" by auto
      with True Cons.IH [of b] show ?thesis by simp
    next
      case False
      then have e: "{x \<in> set (it # its). itemId x \<noteq> DEFAULT_STATUS_ITEM_ID} =
          insert it {x \<in> set its. itemId x \<noteq> DEFAULT_STATUS_ITEM_ID}" by auto
      have "filter P (jm_del (itemId it) b) = filter (\<lambda>e. fst e \<noteq> itemId it \<and> P e) b" for P
        by (simp add: jm_del_filter conj_commute)
      with False Cons.IH [of "jm_del (itemId it) b"] show ?thesis unfolding e by simp
    qed
  qed simp
  then show ?thesis by (simp add: takeReturned_def)
qed

lemma node_ok_add:
  assumes "node_ok s" and "\<forall>e \<in> set (itemsById s). itemType (snd e) \<noteq> itemType it" and "itemId it = k"
  shows "node_ok (s\<lparr>itemsById := jm_set k it (itemsById s), revision := r\<rparr>)"
proof -
  have "distinct (map (\<lambda>e. itemType (snd e)) (jm_set k it b)) \<and>
      set (map (\<lambda>e. itemType (snd e)) (jm_set k it b)) \<subseteq> insert (itemType it) (set (map (\<lambda>e. itemType (snd e)) b))"
    if "distinct (map (\<lambda>e. itemType (snd e)) b)" "\<forall>e \<in> set b. itemType (snd e) \<noteq> itemType it" for b
    using that by (induction b) auto
  with assms show ?thesis
    by (auto simp: node_ok_def jm_set_mem)
qed

lemma enqueue_work_inv: "work_inv m \<Longrightarrow> work_inv (snd (enqueueNodePendingWork m n ty p ex pl uuid now))"
proof (cases "js_trim n = []")
  case False
  assume inv: "work_inv m"
  let ?k = "js_trim n"
  define s where "s = pruneExpired (getOrCreateState m ?k) (resolveDateTimestampMs (int_val now) None now)"
  have ok: "node_ok s" unfolding s_def by (intro prune_ok getOrCreate_ok inv)
  have set_inv: "work_inv (jm_set ?k t m)" if "node_ok t" "itemsById t \<noteq> []" for t
    using inv that by (auto simp: work_inv_def)
  show ?thesis
  proof (cases "find (\<lambda>it. itemType it = ty) (jm_vals (itemsById s))")
    case None
    then have "\<forall>e \<in> set (itemsById s). itemType (snd e) \<noteq> ty" by (auto simp: find_None_iff)
    then have "node_ok (s\<lparr>itemsById := jm_set uuid it (itemsById s), revision := r\<rparr>)"
      if "itemType it = ty" "itemId it = uuid" for it r
      using that by (intro node_ok_add [OF ok]) auto
    moreover have "jm_set uuid it (itemsById s) \<noteq> []" for it by (cases "itemsById s") auto
    ultimately show ?thesis
      using False None by (auto simp: enqueueNodePendingWork_def Let_def s_def [symmetric] intro!: set_inv)
  next
    case (Some existing)
    then have "itemsById s \<noteq> []" by auto
    with False Some ok show ?thesis
      by (auto simp: enqueueNodePendingWork_def Let_def s_def [symmetric] intro!: set_inv)
  qed
qed (simp add: enqueueNodePendingWork_def Let_def)

lemma take_ok: "node_ok s \<Longrightarrow> node_ok (takeReturned s its)"
  by (erule node_ok_filter) (rule takeReturned_items)

lemma drain_inv: "work_inv m \<Longrightarrow> work_inv (snd (drainNodePendingWork lc m n opts clock))"
proof -
  assume inv: "work_inv m"
  have ok: "node_ok (pruneExpired s now)" if "jm_get m k = Some s" for s now k
    using inv that by (auto simp: work_inv_def intro: prune_ok)
  show ?thesis
    unfolding drainNodePendingWork_def Let_def
    using inv ok by (auto split: option.split prod.split intro!: store_inv take_ok)
qed

interpretation npw: machine "work_step lc" "[]" work_inv for lc
proof unfold_locales
  show "work_inv []" by (simp add: work_inv_def)
  show "work_inv (work_step lc s e)" if "work_inv s" for s e
    using that by (cases e) (simp_all add: enqueue_work_inv drain_inv)
qed

section \<open>Ids and order\<close>

text \<open>\<^verbatim>\<open>randomUUID\<close> never draws the reserved id.\<close>

fun uuid_ok :: "work_op \<Rightarrow> bool" where
  "uuid_ok (EnqueueWork n ty p ex pl uuid now) = (uuid \<noteq> DEFAULT_STATUS_ITEM_ID)"
| "uuid_ok (DrainWork n opts clock) = True"

definition no_reserved :: "node_work \<Rightarrow> bool" where
  "no_reserved s \<longleftrightarrow> (\<forall>e \<in> set (itemsById s). fst e \<noteq> DEFAULT_STATUS_ITEM_ID)"

definition ids_ok :: "pending_work \<Rightarrow> bool" where
  "ids_ok m \<longleftrightarrow> (\<forall>k s. jm_get m k = Some s \<longrightarrow> no_reserved s)"

lemma no_reserved_prune: "no_reserved s \<Longrightarrow> no_reserved (pruneExpired s now)"
  using prune_items [of s now] by (auto simp: no_reserved_def)

lemma no_reserved_take: "no_reserved s \<Longrightarrow> no_reserved (takeReturned s its)"
  by (auto simp: no_reserved_def takeReturned_items)

lemma ids_store: "ids_ok m \<Longrightarrow> no_reserved s \<Longrightarrow> ids_ok (storeState m k s)"
  by (auto simp: ids_ok_def storeState_def)

lemma ids_step:
  assumes "ids_ok m" and "uuid_ok e"
  shows "ids_ok (work_step lc m e)"
proof (cases e)
  case (EnqueueWork n ty p ex pl uuid now)
  have base: "no_reserved (pruneExpired (getOrCreateState m k) t)" for k t
    using assms(1)
    by (auto simp: getOrCreateState_def ids_ok_def no_reserved_def [of "\<lparr>revision = 0, itemsById = []\<rparr>"]
        intro!: no_reserved_prune split: option.split)
  have "no_reserved (s\<lparr>itemsById := jm_set uuid it (itemsById s), revision := r\<rparr>)"
    if "no_reserved s" for s it r
    using that assms(2) EnqueueWork ball_jm_set [of "itemsById s" "\<lambda>k _. k \<noteq> DEFAULT_STATUS_ITEM_ID" uuid it]
    by (simp add: no_reserved_def)
  then have "no_reserved ((pruneExpired (getOrCreateState m k) t)
      \<lparr>itemsById := jm_set uuid it (itemsById (pruneExpired (getOrCreateState m k) t)), revision := r\<rparr>)" for k t it r
    using base by blast
  then show ?thesis
    using assms(1) base EnqueueWork
    by (auto simp: enqueueNodePendingWork_def Let_def ids_ok_def split: option.split)
next
  case (DrainWork n opts clock)
  have "no_reserved (pruneExpired s t)" if "jm_get m k = Some s" for k s t
    using assms(1) that by (auto simp: ids_ok_def intro: no_reserved_prune)
  then show ?thesis
    unfolding DrainWork work_step.simps drainNodePendingWork_def Let_def
    using assms(1) by (auto split: option.split prod.split intro!: ids_store no_reserved_take)
qed

lemma ids_run: "ids_ok m \<Longrightarrow> list_all uuid_ok ops \<Longrightarrow> ids_ok (foldl (work_step lc) m ops)"
  by (induction ops arbitrary: m) (simp_all add: ids_step)

definition served_before :: "work_item \<Rightarrow> work_item \<Rightarrow> bool" where
  "served_before a b \<longleftrightarrow> PRIORITY_RANK (itemPriority a) > PRIORITY_RANK (itemPriority b) \<or>
     PRIORITY_RANK (itemPriority a) = PRIORITY_RANK (itemPriority b) \<and> createdAtMs a \<le> createdAtMs b"

lemma compare_served:
  "compareItems lc a b \<le> 0 \<Longrightarrow> served_before a b"
  "\<not> compareItems lc a b \<le> 0 \<Longrightarrow> served_before b a"
  by (auto simp: compareItems_def served_before_def Let_def split: if_splits)

lemma served_trans: "served_before a b \<Longrightarrow> served_before b c \<Longrightarrow> served_before a c"
  by (auto simp: served_before_def)

lemma insertItem_mset: "mset (insertItem cmp x xs) = add_mset x (mset xs)"
  by (induction xs) auto

lemma toSorted_mset: "mset (toSorted cmp xs) = mset xs"
  by (induction xs) (simp_all add: toSorted_def insertItem_mset)

lemma insertItem_sorted:
  "sorted_wrt served_before xs \<Longrightarrow> sorted_wrt served_before (insertItem (compareItems lc) x xs)"
  by (induction xs) (auto simp: insertItem_set compare_served intro: served_trans dest: compare_served)

lemma sortedItems_sorted: "sorted_wrt served_before (sortedItems lc s)"
proof -
  have "sorted_wrt served_before (foldr (insertItem (compareItems lc)) xs [])" for xs
    by (induction xs) (simp_all add: insertItem_sorted)
  then show ?thesis by (simp add: sortedItems_def toSorted_def)
qed

lemma drainSelect_items:
  assumes "drainSelect xs mx inc b = (its, hm)" and "\<forall>it \<in> set xs. itemId it \<noteq> DEFAULT_STATUS_ITEM_ID"
    and "itemId b = DEFAULT_STATUS_ITEM_ID"
  shows "filter (\<lambda>it. itemId it \<noteq> DEFAULT_STATUS_ITEM_ID) its = take (case mx of Some n \<Rightarrow> n | None \<Rightarrow> 0) xs"
proof -
  have "filter (\<lambda>it. itemId it \<noteq> DEFAULT_STATUS_ITEM_ID) (take n xs) = take n xs" for n
    using assms(2) by (intro filter_True) (auto dest: in_set_takeD)
  moreover have "filter (\<lambda>it. itemId it \<noteq> DEFAULT_STATUS_ITEM_ID) xs = xs"
    using assms(2) by (intro filter_True) auto
  ultimately show ?thesis using assms(1,3) by (auto simp: drainSelect_def Let_def split: if_splits)
qed

text \<open>What is left after the returned items are taken.\<close>

lemma take_returned_rest:
  assumes "node_ok s" "no_reserved s" "drainSelect (sortedItems lc s) mx inc b = (its, hm)"
    and "itemId b = DEFAULT_STATUS_ITEM_ID"
  shows "mset (filter (\<lambda>it. itemId it \<noteq> DEFAULT_STATUS_ITEM_ID) its) + mset (jm_vals (itemsById (takeReturned s its)))
    = mset (jm_vals (itemsById s))"
proof -
  let ?exp = "sortedItems lc s" and ?n = "case mx of Some n \<Rightarrow> n | None \<Rightarrow> 0"
  have m: "mset ?exp = mset (jm_vals (itemsById s))" by (simp add: sortedItems_def toSorted_mset)
  have ids: "map itemId (jm_vals (itemsById s)) = map fst (itemsById s)" using assms(1) by (simp add: node_ok_def)
  have "distinct (map itemId (jm_vals (itemsById s)))" unfolding ids using assms(1) by (simp add: node_ok_def)
  moreover have "mset (map itemId ?exp) = mset (map itemId (jm_vals (itemsById s)))"
    unfolding mset_map [of itemId] m ..
  ultimately have dist: "distinct (map itemId ?exp)" by (metis mset_eq_imp_distinct_iff)
  have "\<forall>it \<in> set (jm_vals (itemsById s)). itemId it \<noteq> DEFAULT_STATUS_ITEM_ID"
    using assms(1,2) by (auto simp: node_ok_def no_reserved_def)
  then have exp: "\<forall>it \<in> set ?exp. itemId it \<noteq> DEFAULT_STATUS_ITEM_ID" using mset_eq_setD [OF m] by simp
  note sel = drainSelect_items [OF assms(3) exp assms(4)]
  let ?T = "itemId ` set (take ?n ?exp)"
  have T: "itemId ` {it \<in> set its. itemId it \<noteq> DEFAULT_STATUS_ITEM_ID} = ?T"
    unfolding sel [symmetric] by auto
  have "jm_vals (filter (\<lambda>e. fst e \<notin> ?T) (itemsById s)) = filter (\<lambda>it. itemId it \<notin> ?T) (jm_vals (itemsById s))"
    using assms(1) by (simp add: filter_map comp_def node_ok_def cong: filter_cong)
  then have "mset (jm_vals (itemsById (takeReturned s its))) = mset (filter (\<lambda>it. itemId it \<notin> ?T) ?exp)"
    unfolding takeReturned_items T by (simp add: m)
  also have "filter (\<lambda>it. itemId it \<notin> ?T) ?exp = drop ?n ?exp"
  proof -
    have "distinct (map itemId (take ?n ?exp) @ map itemId (drop ?n ?exp))"
      using dist by (metis append_take_drop_id map_append)
    then have d: "\<forall>it \<in> set (drop ?n ?exp). itemId it \<notin> ?T" by auto
    have "filter (\<lambda>it. itemId it \<notin> ?T) (take ?n ?exp @ drop ?n ?exp) = drop ?n ?exp"
      unfolding filter_append using d by (simp add: filter_empty_conv)
    then show ?thesis by (simp only: append_take_drop_id)
  qed
  finally show ?thesis unfolding sel using m by (metis append_take_drop_id mset_append)
qed

section \<open>Properties\<close>

text \<open>
  However nodes are asked for work and drained, the gateway keeps state only for nodes with
  pending work, and at most one item of each type for each of them.
\<close>

theorem pending_work_one_per_type:
  "list_all (\<lambda>(node, s). itemsById s \<noteq> [] \<and> distinct (map (\<lambda>e. itemType (snd e)) (itemsById s)))
     (foldl (work_step lc) [] ops)"
proof -
  have inv: "work_inv (foldl (work_step lc) [] ops)" by (rule npw.run_inv)
  have "node_ok s \<and> itemsById s \<noteq> []" if "(k, s) \<in> set (foldl (work_step lc) [] ops)" for k s
    using inv that by (auto simp: work_inv_def map_of_eq_Some_iff)
  then show ?thesis by (auto simp: list_all_iff node_ok_def)
qed

text \<open>
  A drain neither loses nor repeats work: the items it hands out (the baseline status apart)
  together with the items it leaves are exactly the unexpired ones the node had, the handed out
  ones are ordered by priority and age, and no other node is touched.
\<close>

theorem drain_hands_out_exactly:
  assumes "list_all uuid_ok ops" and m: "m = foldl (work_step lc) [] ops"
    and s0: "jm_get m (js_trim n) = Some s0" and "js_trim n \<noteq> []"
    and r: "drainNodePendingWork lc m n opts clock = (r, m')"
  shows "mset (filter (\<lambda>it. itemId it \<noteq> DEFAULT_STATUS_ITEM_ID) (dr_items r)) +
      mset (case jm_get m' (js_trim n) of None \<Rightarrow> [] | Some s \<Rightarrow> jm_vals (itemsById s)) =
      mset (jm_vals (itemsById (pruneExpired s0
        (resolveDateTimestampMs (case do_nowMs opts of Some n \<Rightarrow> VNum n | None \<Rightarrow> int_val clock) None clock)))) \<and>
    sorted_wrt served_before (filter (\<lambda>it. itemId it \<noteq> DEFAULT_STATUS_ITEM_ID) (dr_items r)) \<and>
    (\<forall>k. k \<noteq> js_trim n \<longrightarrow> jm_get m' k = jm_get m k)"
proof -
  let ?now = "resolveDateTimestampMs (case do_nowMs opts of Some n \<Rightarrow> VNum n | None \<Rightarrow> int_val clock) None clock"
  let ?s = "pruneExpired s0 ?now" and ?b = "makeBaselineStatusItem ?now clock" and ?k = "js_trim n"
  have inv: "work_inv m" unfolding m by (rule npw.run_inv)
  have "ids_ok m" unfolding m by (rule ids_run [OF _ assms(1)]) (simp add: ids_ok_def)
  then have nr: "no_reserved ?s" using s0 by (auto simp: ids_ok_def intro: no_reserved_prune)
  have ok: "node_ok ?s" using inv s0 by (auto simp: work_inv_def intro: prune_ok)
  obtain its hm where sel: "drainSelect (sortedItems lc ?s) (resolveMaxItems (do_maxItems opts))
      (do_includeDefaultStatus opts) ?b = (its, hm)" by fastforce
  have b: "itemId ?b = DEFAULT_STATUS_ITEM_ID" by (simp add: makeBaselineStatusItem_def)
  note rest = take_returned_rest [OF ok nr sel b]
  have "\<forall>it \<in> set (sortedItems lc ?s). itemId it \<noteq> DEFAULT_STATUS_ITEM_ID"
  proof -
    have "set (sortedItems lc ?s) = set (jm_vals (itemsById ?s))"
      by (rule mset_eq_setD) (simp add: sortedItems_def toSorted_mset)
    then show ?thesis using ok nr by (auto simp: node_ok_def no_reserved_def)
  qed
  from drainSelect_items [OF sel this b] sortedItems_sorted [of lc ?s]
  have srt: "sorted_wrt served_before (filter (\<lambda>it. itemId it \<noteq> DEFAULT_STATUS_ITEM_ID) its)"
    by (simp add: sorted_wrt_take)
  have store: "jm_get (storeState m k t) k' = (if k' = k then (if itemsById t = [] then None else Some t)
      else jm_get m k')" for m k t k'
    by (simp add: storeState_def)
  show ?thesis
  proof (cases "filter (\<lambda>it. itemId it \<noteq> DEFAULT_STATUS_ITEM_ID) its = []")
    case True
    then have "r = \<lparr>dr_revision = revision ?s, dr_items = its, dr_hasMore = hm\<rparr>" "m' = storeState m ?k ?s"
      using r s0 assms(4) by (auto simp: drainNodePendingWork_def Let_def sel)
    then show ?thesis using srt True by (simp add: store)
  next
    case False
    then have "r = \<lparr>dr_revision = revision (takeReturned ?s its), dr_items = its, dr_hasMore = hm\<rparr>"
      "m' = storeState (storeState m ?k ?s) ?k (takeReturned ?s its)"
      using r s0 assms(4) by (auto simp: drainNodePendingWork_def Let_def sel)
    then show ?thesis using srt rest by (auto simp: store)
  qed
qed

definition sample_work :: "work_op list" where
  "sample_work = [EnqueueWork ''n1'' LocationRequest None VOther None ''id-1'' 1000,
     EnqueueWork ''n1 '' StatusRequest (Some PriorityHigh) (int_val 5000) None ''id-2'' 2000]"

definition sample_node :: node_work where
  "sample_node = \<lparr>revision = 2, itemsById =
     [(''id-1'', \<lparr>itemId = ''id-1'', itemType = LocationRequest, itemPriority = PriorityNormal,
        createdAtMs = 1000, expiresAtMs = Some 86401000, payload = None\<rparr>),
      (''id-2'', \<lparr>itemId = ''id-2'', itemType = StatusRequest, itemPriority = PriorityHigh,
        createdAtMs = 2000, expiresAtMs = Some 7000, payload = None\<rparr>)]\<rparr>"

definition sample_drain :: drain_options where
  "sample_drain = \<lparr>do_maxItems = Some (JFin 1), do_includeDefaultStatus = None, do_nowMs = None\<rparr>"

lemma sample_work_state:
  "jm_get (foldl (work_step (\<lambda>_ _. 0)) [] sample_work) (js_trim ''n1'') = Some sample_node"
  "js_trim ''n1'' \<noteq> []"
  by code_simp+

theorem drain_hands_out_exactly_witness:
  "sorted_wrt served_before (filter (\<lambda>it. itemId it \<noteq> DEFAULT_STATUS_ITEM_ID)
     (dr_items (fst (drainNodePendingWork (\<lambda>_ _. 0) (foldl (work_step (\<lambda>_ _. 0)) [] sample_work) ''n1''
        sample_drain 3000))))"
proof -
  have "list_all uuid_ok sample_work" by (simp add: sample_work_def DEFAULT_STATUS_ITEM_ID_def)
  from drain_hands_out_exactly [OF this refl sample_work_state, of sample_drain 3000] show ?thesis
    by (cases "drainNodePendingWork (\<lambda>_ _. 0) (foldl (work_step (\<lambda>_ _. 0)) [] sample_work) ''n1''
        sample_drain 3000") simp
qed

end
