(* ===== verification/QueuedChatTurns.thy ===== *)
theory QueuedChatTurns
  imports StringCoerce
begin

text \<open>
  \<^verbatim>\<open>src/gateway/chat-queued-turns.ts\<close>: the registry of turns that wait in the follow-up queue and must
  stay abortable. An \<^verbatim>\<open>AbortController\<close> is a number and the set of aborted ones is part of the
  state, with the abort listeners registered on them; aborting a controller runs its listeners at
  once. An entry has a number of its own, because the code compares entries by reference.
\<close>

section \<open>State\<close>

record turn_entry =
  entryRef :: nat
  controller :: nat
  sessionId :: string
  sessionKey :: string
  abortable :: bool
  agentId :: "string option"
  ownerConnId :: "string option"
  ownerDeviceId :: "string option"

record turns_state =
  turns :: "(string, turn_entry) jsmap"
  abortedControllers :: "nat list"
  abortListeners :: "(nat \<times> string \<times> nat) list"
  nextEntryRef :: nat

definition initial_turns :: turns_state where
  "initial_turns = \<lparr>turns = [], abortedControllers = [], abortListeners = [], nextEntryRef = 0\<rparr>"

record register_params =
  rp_runId :: string
  rp_controller :: nat
  rp_sessionId :: string
  rp_sessionKey :: string
  rp_agentId :: "string option"
  rp_ownerConnId :: "string option"
  rp_ownerDeviceId :: "string option"

section \<open>Operations\<close>

definition resolveExactRunId :: "string \<Rightarrow> string option" where
  "resolveExactRunId r = (if length r > 0 then Some r else None)"

definition signalAborted :: "turns_state \<Rightarrow> nat \<Rightarrow> bool" where
  "signalAborted s c \<longleftrightarrow> c \<in> set (abortedControllers s)"

definition deleteQueuedChatTurnEntry :: "turns_state \<Rightarrow> string \<Rightarrow> nat \<Rightarrow> bool \<times> turns_state" where
  "deleteQueuedChatTurnEntry s r ref =
     (case jm_get (turns s) r of
        None \<Rightarrow> (False, s)
      | Some e \<Rightarrow> if entryRef e \<noteq> ref then (False, s) else (True, s\<lparr>turns := jm_del r (turns s)\<rparr>))"

text \<open>
  The abort listener of an entry. The flag it reads matters only while the entry is the one in the
  map, since a replaced entry is not deleted.
\<close>

definition onAbort :: "turns_state \<Rightarrow> string \<Rightarrow> nat \<Rightarrow> turns_state" where
  "onAbort s r ref =
     (case jm_get (turns s) r of
        Some e \<Rightarrow> if entryRef e = ref \<and> abortable e then snd (deleteQueuedChatTurnEntry s r ref) else s
      | None \<Rightarrow> s)"

text \<open>\<^verbatim>\<open>controller.abort()\<close>: the first call fires the listeners in order, once.\<close>

definition abortController :: "turns_state \<Rightarrow> nat \<Rightarrow> turns_state" where
  "abortController s c =
     (if signalAborted s c then s
      else foldl (\<lambda>s (_, r, ref). onAbort s r ref)
             (s\<lparr>abortedControllers := abortedControllers s @ [c],
                abortListeners := filter (\<lambda>l. fst l \<noteq> c) (abortListeners s)\<rparr>)
             (filter (\<lambda>l. fst l = c) (abortListeners s)))"

definition registerQueuedChatTurn :: "turns_state \<Rightarrow> register_params \<Rightarrow> bool \<times> turns_state" where
  "registerQueuedChatTurn s p =
     (case (resolveExactRunId (rp_runId p), normalizeOptionalString (VStr (rp_sessionKey p))) of
        (Some runId, Some key) \<Rightarrow>
          if signalAborted s (rp_controller p) then (False, s)
          else
            (case jm_get (turns s) runId of
               Some existing \<Rightarrow> (controller existing = rp_controller p, s)
             | None \<Rightarrow>
                 let entry = \<lparr>entryRef = nextEntryRef s, controller = rp_controller p,
                              sessionId = rp_sessionId p, sessionKey = key, abortable = True,
                              agentId = normalizeOptionalLowercaseString (opt_string (rp_agentId p)),
                              ownerConnId = normalizeOptionalString (opt_string (rp_ownerConnId p)),
                              ownerDeviceId = normalizeOptionalString (opt_string (rp_ownerDeviceId p))\<rparr>
                 in (True, s\<lparr>turns := jm_set runId entry (turns s), nextEntryRef := nextEntryRef s + 1,
                             abortListeners := abortListeners s @
                               [(rp_controller p, runId, nextEntryRef s)]\<rparr>))
      | _ \<Rightarrow> (False, s))"

definition getQueuedChatTurn :: "turns_state \<Rightarrow> string \<Rightarrow> turn_entry option" where
  "getQueuedChatTurn s runId =
     (case resolveExactRunId runId of None \<Rightarrow> None | Some k \<Rightarrow> jm_get (turns s) k)"

definition completeQueuedChatTurn :: "turns_state \<Rightarrow> string \<Rightarrow> nat \<Rightarrow> bool \<times> turns_state" where
  "completeQueuedChatTurn s runId c =
     (case resolveExactRunId runId of
        None \<Rightarrow> (False, s)
      | Some key \<Rightarrow>
          (case jm_get (turns s) key of
             Some e \<Rightarrow> if controller e = c then deleteQueuedChatTurnEntry s key (entryRef e) else (False, s)
           | None \<Rightarrow> (False, s)))"

definition retireQueuedChatTurnCancellation :: "turns_state \<Rightarrow> string \<Rightarrow> nat \<Rightarrow> bool \<times> turns_state" where
  "retireQueuedChatTurnCancellation s runId c =
     (case getQueuedChatTurn s runId of
        None \<Rightarrow> (False, s)
      | Some e \<Rightarrow>
          if controller e \<noteq> c then (False, s)
          else (True, s\<lparr>turns := jm_set runId (e\<lparr>abortable := False\<rparr>) (turns s)\<rparr>))"

definition abortQueuedChatTurnById :: "turns_state \<Rightarrow> string \<Rightarrow> string \<Rightarrow> bool \<Rightarrow> bool \<times> turns_state" where
  "abortQueuedChatTurnById s rawRunId rawSessionKey allowSessionMismatch =
     (case (resolveExactRunId rawRunId, normalizeOptionalString (VStr rawSessionKey)) of
        (Some runId, Some key) \<Rightarrow>
          (case jm_get (turns s) runId of
             None \<Rightarrow> (False, s)
           | Some e \<Rightarrow>
               if \<not> abortable e then (False, s)
               else if \<not> allowSessionMismatch \<and> sessionKey e \<noteq> key then (False, s)
               else (True, snd (deleteQueuedChatTurnEntry (abortController s (controller e)) runId (entryRef e))))
      | _ \<Rightarrow> (False, s))"

type_synonym turn_match = "string \<times> turn_entry"

definition normalizedSet :: "string option list \<Rightarrow> string set" where
  "normalizedSet xs = set (concat (map (\<lambda>x. case normalizeOptionalString (opt_string x) of
                                          Some t \<Rightarrow> [t] | None \<Rightarrow> []) xs))"

definition listQueuedChatTurnsForSession ::
    "turns_state \<Rightarrow> string list \<Rightarrow> string option list \<Rightarrow> string option \<Rightarrow> string option \<Rightarrow> turn_match list" where
  "listQueuedChatTurnsForSession s keys ids rawAgentId rawDefaultAgentId =
     (let sessionKeys = normalizedSet (map Some keys);
          sessionIds = normalizedSet ids;
          agent = normalizeOptionalLowercaseString (opt_string rawAgentId);
          defaultAgent = normalizeOptionalLowercaseString (opt_string rawDefaultAgentId)
      in filter (\<lambda>(r, e).
           abortable e \<and> (sessionKey e \<in> sessionKeys \<or> sessionId e \<in> sessionIds) \<and>
           (agent \<noteq> None \<and> sessionKey e = ''global'' \<longrightarrow>
              map_option toLowerCase (case agentId e of Some a \<Rightarrow> Some a | None \<Rightarrow> defaultAgent) = agent))
         (turns s))"

fun abortQueuedChatTurns :: "turns_state \<Rightarrow> turn_match list \<Rightarrow> string list \<times> turns_state" where
  "abortQueuedChatTurns s [] = ([], s)"
| "abortQueuedChatTurns s ((runId, e) # ms) =
     (case jm_get (turns s) runId of
        None \<Rightarrow> abortQueuedChatTurns s ms
      | Some e' \<Rightarrow>
          if entryRef e' \<noteq> entryRef e then abortQueuedChatTurns s ms
          else
            let s1 = snd (deleteQueuedChatTurnEntry (abortController s (controller e)) runId (entryRef e))
            in (case abortQueuedChatTurns s1 ms of (runIds, s2) \<Rightarrow> (runId # runIds, s2)))"

datatype turns_op =
    RegisterTurn register_params
  | CompleteTurn string nat
  | RetireTurn string nat
  | AbortTurn string string bool
  | AbortSession "string list" "string option list" "string option" "string option"
  | ExternalAbort nat

fun turns_step :: "turns_state \<Rightarrow> turns_op \<Rightarrow> turns_state" where
  "turns_step s (RegisterTurn p) = snd (registerQueuedChatTurn s p)"
| "turns_step s (CompleteTurn r c) = snd (completeQueuedChatTurn s r c)"
| "turns_step s (RetireTurn r c) = snd (retireQueuedChatTurnCancellation s r c)"
| "turns_step s (AbortTurn r k m) = snd (abortQueuedChatTurnById s r k m)"
| "turns_step s (AbortSession ks is a d) =
     snd (abortQueuedChatTurns s (listQueuedChatTurnsForSession s ks is a d))"
| "turns_step s (ExternalAbort c) = abortController s c"

section \<open>The invariant\<close>

declare map_of_eq_Some_iff [simp del] Some_eq_map_of_iff [simp del]

text \<open>
  An abortable turn has a controller that is not aborted and a listener on it and on no other;
  entry numbers are not reused.
\<close>

definition turns_inv :: "turns_state \<Rightarrow> bool" where
  "turns_inv s \<longleftrightarrow> jm_wf (turns s) \<and>
     (\<forall>r e. jm_get (turns s) r = Some e \<longrightarrow> r \<noteq> [] \<and> entryRef e < nextEntryRef s \<and>
        (abortable e \<longrightarrow> controller e \<notin> set (abortedControllers s) \<and>
           (controller e, r, entryRef e) \<in> set (abortListeners s)) \<and>
        (\<forall>c. (c, r, entryRef e) \<in> set (abortListeners s) \<longrightarrow> controller e = c)) \<and>
     (\<forall>l \<in> set (abortListeners s). snd (snd l) < nextEntryRef s)"

lemma delete_get:
  "jm_get (turns (snd (deleteQueuedChatTurnEntry s r ref))) r' =
     (case jm_get (turns s) r' of
        Some e \<Rightarrow> if r' = r \<and> entryRef e = ref then None else Some e | None \<Rightarrow> None)"
  by (auto simp: deleteQueuedChatTurnEntry_def split: option.splits)

lemma delete_fields [simp]:
  "abortedControllers (snd (deleteQueuedChatTurnEntry s r ref)) = abortedControllers s"
  "abortListeners (snd (deleteQueuedChatTurnEntry s r ref)) = abortListeners s"
  "nextEntryRef (snd (deleteQueuedChatTurnEntry s r ref)) = nextEntryRef s"
  "jm_wf (turns s) \<Longrightarrow> jm_wf (turns (snd (deleteQueuedChatTurnEntry s r ref)))"
  by (auto simp: deleteQueuedChatTurnEntry_def split: option.splits)

lemma onAbort_get:
  "jm_get (turns (onAbort s r ref)) r' =
     (case jm_get (turns s) r' of
        Some e \<Rightarrow> if r' = r \<and> entryRef e = ref \<and> abortable e then None else Some e | None \<Rightarrow> None)"
  by (auto simp: onAbort_def delete_get split: option.splits)

lemma onAbort_fields [simp]:
  "abortedControllers (onAbort s r ref) = abortedControllers s"
  "abortListeners (onAbort s r ref) = abortListeners s"
  "nextEntryRef (onAbort s r ref) = nextEntryRef s"
  "jm_wf (turns s) \<Longrightarrow> jm_wf (turns (onAbort s r ref))"
  by (auto simp: onAbort_def split: option.splits)

lemma listeners_run:
  "jm_get (turns (foldl (\<lambda>s (_, r, ref). onAbort s r ref) s ls)) r' =
     (case jm_get (turns s) r' of
        Some e \<Rightarrow> if abortable e \<and> (\<exists>c. (c, r', entryRef e) \<in> set ls) then None else Some e
      | None \<Rightarrow> None) \<and>
   abortedControllers (foldl (\<lambda>s (_, r, ref). onAbort s r ref) s ls) = abortedControllers s \<and>
   abortListeners (foldl (\<lambda>s (_, r, ref). onAbort s r ref) s ls) = abortListeners s \<and>
   nextEntryRef (foldl (\<lambda>s (_, r, ref). onAbort s r ref) s ls) = nextEntryRef s \<and>
   (jm_wf (turns s) \<longrightarrow> jm_wf (turns (foldl (\<lambda>s (_, r, ref). onAbort s r ref) s ls)))"
proof (induction ls arbitrary: s)
  case Nil
  show ?case by (simp split: option.split)
next
  case (Cons l ls)
  obtain c r ref where l: "l = (c, r, ref)" by (cases l)
  show ?case using Cons.IH [of "onAbort s r ref"]
    by (auto simp: l onAbort_get split: option.splits)
qed

lemma abort_get:
  "jm_get (turns (abortController s c)) r =
     (case jm_get (turns s) r of
        Some e \<Rightarrow> if \<not> signalAborted s c \<and> abortable e \<and> (c, r, entryRef e) \<in> set (abortListeners s)
                  then None else Some e
      | None \<Rightarrow> None)"
  using listeners_run [of "s\<lparr>abortedControllers := abortedControllers s @ [c],
      abortListeners := filter (\<lambda>l. fst l \<noteq> c) (abortListeners s)\<rparr>"
      "filter (\<lambda>l. fst l = c) (abortListeners s)"]
  by (auto simp: abortController_def split: option.splits)

lemma abort_fields:
  "set (abortedControllers (abortController s c)) = insert c (set (abortedControllers s))"
  "nextEntryRef (abortController s c) = nextEntryRef s"
  "jm_wf (turns s) \<Longrightarrow> jm_wf (turns (abortController s c))"
  "set (abortListeners (abortController s c)) =
     (if signalAborted s c then set (abortListeners s) else {l \<in> set (abortListeners s). fst l \<noteq> c})"
  using listeners_run [of "s\<lparr>abortedControllers := abortedControllers s @ [c],
      abortListeners := filter (\<lambda>l. fst l \<noteq> c) (abortListeners s)\<rparr>"
      "filter (\<lambda>l. fst l = c) (abortListeners s)"]
  by (auto simp: abortController_def signalAborted_def)

lemma turns_inv_get:
  "turns_inv s \<Longrightarrow> jm_get (turns s) r = Some e \<Longrightarrow> abortable e \<Longrightarrow>
     controller e \<notin> set (abortedControllers s) \<and> (controller e, r, entryRef e) \<in> set (abortListeners s)"
  by (auto simp: turns_inv_def)

text \<open>Aborting a controller removes exactly the abortable turns it owns.\<close>

lemma abort_removes:
  "turns_inv s \<Longrightarrow> jm_get (turns s) r = Some e \<Longrightarrow> abortable e \<Longrightarrow> controller e = c \<Longrightarrow>
     jm_get (turns (abortController s c)) r = None"
  by (frule (2) turns_inv_get) (simp add: abort_get signalAborted_def)

lemma abort_inv: "turns_inv s \<Longrightarrow> turns_inv (abortController s c)"
  unfolding turns_inv_def
  by (auto simp: abort_fields abort_get signalAborted_def split: option.splits if_splits)

lemma delete_inv: "turns_inv s \<Longrightarrow> turns_inv (snd (deleteQueuedChatTurnEntry s r ref))"
  unfolding turns_inv_def by (auto simp: delete_get split: option.splits if_splits)

lemma register_inv: "turns_inv s \<Longrightarrow> turns_inv (snd (registerQueuedChatTurn s p))"
  by (auto simp: registerQueuedChatTurn_def turns_inv_def resolveExactRunId_def signalAborted_def Let_def
      less_SucI split: option.splits if_splits)

lemma complete_inv: "turns_inv s \<Longrightarrow> turns_inv (snd (completeQueuedChatTurn s r c))"
  by (auto simp: completeQueuedChatTurn_def intro: delete_inv split: option.splits)

lemma retire_inv: "turns_inv s \<Longrightarrow> turns_inv (snd (retireQueuedChatTurnCancellation s r c))"
  by (auto simp: retireQueuedChatTurnCancellation_def getQueuedChatTurn_def turns_inv_def
      resolveExactRunId_def split: option.splits if_splits)

lemma abortById_inv: "turns_inv s \<Longrightarrow> turns_inv (snd (abortQueuedChatTurnById s r k m))"
  by (auto simp: abortQueuedChatTurnById_def intro: delete_inv abort_inv split: option.splits)

lemma abortAll_inv: "turns_inv s \<Longrightarrow> turns_inv (snd (abortQueuedChatTurns s ms))"
proof (induction ms arbitrary: s)
  case (Cons m ms)
  obtain runId e where m: "m = (runId, e)" by (cases m)
  let ?s1 = "snd (deleteQueuedChatTurnEntry (abortController s (controller e)) runId (entryRef e))"
  have "turns_inv ?s1" using Cons.prems by (intro delete_inv abort_inv)
  from Cons.IH [OF this] Cons.IH [OF Cons.prems] Cons.prems show ?case
    by (simp add: m Let_def split: option.split prod.split)
       (metis snd_conv)
qed simp

interpretation qtm: machine turns_step initial_turns turns_inv
proof unfold_locales
  show "turns_inv initial_turns" by (simp add: turns_inv_def initial_turns_def)
  show "turns_inv (turns_step s e)" if "turns_inv s" for s e
    using that
    by (cases e) (simp_all add: register_inv complete_inv retire_inv abortById_inv abortAll_inv abort_inv)
qed

section \<open>Aborting a session\<close>

text \<open>The aborts only remove turns.\<close>

lemma abortAll_shrinks:
  "jm_get (turns (snd (abortQueuedChatTurns s ms))) r = Some e \<Longrightarrow> jm_get (turns s) r = Some e"
proof (induction s ms rule: abortQueuedChatTurns.induct)
  case (2 s runId e0 ms)
  show ?case
  proof (cases "jm_get (turns s) runId")
    case None
    with 2 show ?thesis by simp
  next
    case (Some e')
    show ?thesis
    proof (cases "entryRef e' = entryRef e0")
      case True
      with 2(3) [OF Some _ refl] Some 2(4) show ?thesis
        by (auto simp: Let_def delete_get abort_get split: prod.splits option.splits if_splits)
    next
      case False
      with 2(2) [OF Some] Some 2(4) show ?thesis by simp
    qed
  qed
qed simp

lemma abortAll_aborted:
  "set (abortedControllers s) \<subseteq> set (abortedControllers (snd (abortQueuedChatTurns s ms)))"
proof (induction s ms rule: abortQueuedChatTurns.induct)
  case (2 s runId e0 ms)
  then show ?case
    by (fastforce simp: Let_def abort_fields split: prod.splits option.splits)
qed simp

text \<open>A match is still pending, or dealt with.\<close>

definition handled :: "turns_state \<Rightarrow> string \<Rightarrow> turn_entry \<Rightarrow> bool" where
  "handled s r e \<longleftrightarrow> jm_get (turns s) r = Some e \<and> abortable e \<or>
     controller e \<in> set (abortedControllers s) \<and>
       (\<forall>e'. jm_get (turns s) r = Some e' \<longrightarrow> entryRef e' \<noteq> entryRef e)"

lemma handled_step:
  assumes inv: "turns_inv s" and g: "jm_get (turns s) runId = Some e0"
    and s1: "s1 = snd (deleteQueuedChatTurnEntry (abortController s (controller e0)) runId (entryRef e0))"
    and ok: "handled s r e"
  shows "handled s1 r e"
proof (cases "jm_get (turns s1) r = Some e \<and> abortable e")
  case False
  have sub: "jm_get (turns s) r' = Some x" if "jm_get (turns s1) r' = Some x" for r' x
    using that by (auto simp: s1 delete_get abort_get split: option.splits if_splits)
  have ab: "set (abortedControllers s) \<subseteq> set (abortedControllers s1)" "controller e0 \<in> set (abortedControllers s1)"
    by (auto simp: s1 abort_fields)
  show ?thesis
  proof (cases "jm_get (turns s) r = Some e \<and> abortable e")
    case True
    then have none: "jm_get (turns s1) r = None" using False sub by (cases "jm_get (turns s1) r") fastforce+
    moreover have "controller e = controller e0"
    proof (rule ccontr)
      assume ne: "controller e \<noteq> controller e0"
      then have "(controller e0, r, entryRef e) \<notin> set (abortListeners s)"
        using inv True by (auto simp: turns_inv_def)
      moreover have "\<not> (r = runId \<and> entryRef e = entryRef e0)" using True g ne by auto
      ultimately have "jm_get (turns s1) r = Some e" using True by (auto simp: s1 delete_get abort_get)
      with none show False by simp
    qed
    ultimately show ?thesis using ab by (simp add: handled_def)
  next
    case f: False
    with ok ab sub show ?thesis unfolding handled_def by blast
  qed
qed (simp add: handled_def)

lemma abortAll_done:
  "turns_inv s \<Longrightarrow> \<forall>(r, e) \<in> set ms. handled s r e \<Longrightarrow> (r, e) \<in> set ms \<or> handled s r e \<Longrightarrow>
     handled (snd (abortQueuedChatTurns s ms)) r e \<and>
     ((r, e) \<in> set ms \<longrightarrow> controller e \<in> set (abortedControllers (snd (abortQueuedChatTurns s ms))) \<and>
        (\<forall>e'. jm_get (turns (snd (abortQueuedChatTurns s ms))) r = Some e' \<longrightarrow> entryRef e' \<noteq> entryRef e))"
proof (induction ms arbitrary: s)
  case (Cons m ms)
  obtain runId e0 where m: "m = (runId, e0)" by (cases m)
  have h: "handled s r e" using Cons.prems(2,3) by (auto simp: m)
  show ?case
  proof (cases "jm_get (turns s) runId = Some e0")
    case g: True
    let ?s1 = "snd (deleteQueuedChatTurnEntry (abortController s (controller e0)) runId (entryRef e0))"
    have run: "snd (abortQueuedChatTurns s (m # ms)) = snd (abortQueuedChatTurns ?s1 ms)"
      using g by (simp add: m Let_def split: prod.split)
    have inv1: "turns_inv ?s1" using Cons.prems(1) by (intro delete_inv abort_inv)
    have ok1: "\<forall>(r, e) \<in> set ms. handled ?s1 r e"
      using Cons.prems(2) handled_step [OF Cons.prems(1) g refl] by auto
    have h1: "handled ?s1 r e" by (rule handled_step [OF Cons.prems(1) g refl h])
    note ih = Cons.IH [OF inv1 ok1]
    have finished: "controller e \<in> set (abortedControllers (snd (abortQueuedChatTurns ?s1 ms))) \<and>
        (\<forall>e'. jm_get (turns (snd (abortQueuedChatTurns ?s1 ms))) r = Some e' \<longrightarrow> entryRef e' \<noteq> entryRef e)"
      if "r = runId" "e = e0"
    proof
      show "controller e \<in> set (abortedControllers (snd (abortQueuedChatTurns ?s1 ms)))"
        using that abortAll_aborted [of ?s1 ms] by (auto simp: abort_fields)
      show "\<forall>e'. jm_get (turns (snd (abortQueuedChatTurns ?s1 ms))) r = Some e' \<longrightarrow> entryRef e' \<noteq> entryRef e"
        using that by (auto dest!: abortAll_shrinks simp: delete_get abort_get split: option.splits if_splits)
    qed
    show ?thesis unfolding run using ih h1 finished by (auto simp: m)
  next
    case False
    then have e0: "\<forall>e'. jm_get (turns s) runId = Some e' \<longrightarrow> entryRef e' \<noteq> entryRef e0"
      "controller e0 \<in> set (abortedControllers s)"
      using Cons.prems(2) by (auto simp: m handled_def)
    then have run: "snd (abortQueuedChatTurns s (m # ms)) = snd (abortQueuedChatTurns s ms)"
      by (auto simp: m split: option.split)
    have ok: "\<forall>(r, e) \<in> set ms. handled s r e" using Cons.prems(2) by simp
    have "controller e \<in> set (abortedControllers (snd (abortQueuedChatTurns s ms))) \<and>
        (\<forall>e'. jm_get (turns (snd (abortQueuedChatTurns s ms))) r = Some e' \<longrightarrow> entryRef e' \<noteq> entryRef e)"
      if "r = runId" "e = e0"
      using that e0 abortAll_aborted [of s ms] abortAll_shrinks [of s ms] by blast
    with Cons.IH [OF Cons.prems(1) ok] h show ?thesis unfolding run by (auto simp: m)
  qed
qed simp

section \<open>Properties\<close>

text \<open>
  No cancelled turn lingers: in every reachable state each registered turn has a run id, and
  a turn that can still be aborted has a controller nobody has aborted yet, with exactly its own
  listener to remove it. Aborting a controller, by whomever, removes the turns it owns in the
  same step; only turns handed over to a collect batch stay.
\<close>

theorem abortable_turns_are_live:
  "list_all (\<lambda>(r, e). r \<noteq> [] \<and> (abortable e \<longrightarrow> \<not> signalAborted (foldl turns_step initial_turns ops) (controller e) \<and>
      (controller e, r, entryRef e) \<in> set (abortListeners (foldl turns_step initial_turns ops))))
     (turns (foldl turns_step initial_turns ops))"
proof -
  let ?s = "foldl turns_step initial_turns ops"
  have inv: "turns_inv ?s" by (rule qtm.run_inv)
  have "r \<noteq> [] \<and> (abortable e \<longrightarrow> \<not> signalAborted ?s (controller e) \<and>
      (controller e, r, entryRef e) \<in> set (abortListeners ?s))" if "(r, e) \<in> set (turns ?s)" for r e
  proof -
    have "jm_get (turns ?s) r = Some e" using inv that by (simp add: turns_inv_def map_of_eq_Some_iff)
    with inv show ?thesis by (simp add: turns_inv_def signalAborted_def)
  qed
  then show ?thesis by (auto simp: list_all_iff)
qed

theorem abortable_turns_are_live_witness:
  "list_all (\<lambda>(r, e). r \<noteq> [] \<and> (abortable e \<longrightarrow>
      \<not> signalAborted (foldl turns_step initial_turns [RegisterTurn
          \<lparr>rp_runId = ''run'', rp_controller = 4, rp_sessionId = ''s'', rp_sessionKey = '' main '',
           rp_agentId = None, rp_ownerConnId = None, rp_ownerDeviceId = None\<rparr>, ExternalAbort 9]) (controller e) \<and>
      (controller e, r, entryRef e) \<in> set (abortListeners (foldl turns_step initial_turns [RegisterTurn
          \<lparr>rp_runId = ''run'', rp_controller = 4, rp_sessionId = ''s'', rp_sessionKey = '' main '',
           rp_agentId = None, rp_ownerConnId = None, rp_ownerDeviceId = None\<rparr>, ExternalAbort 9]))))
     (turns (foldl turns_step initial_turns [RegisterTurn
          \<lparr>rp_runId = ''run'', rp_controller = 4, rp_sessionId = ''s'', rp_sessionKey = '' main '',
           rp_agentId = None, rp_ownerConnId = None, rp_ownerDeviceId = None\<rparr>, ExternalAbort 9]))"
  by (rule abortable_turns_are_live)

text \<open>
  Aborting a session is complete: every turn the listing finds is removed and its
  controller aborted, even when several turns share a controller, and listing the same session
  again finds nothing. No turn is added or changed by it.
\<close>

theorem session_abort_is_complete:
  "let s = foldl turns_step initial_turns ops;
       ms = listQueuedChatTurnsForSession s ks is a d;
       t = snd (abortQueuedChatTurns s ms)
   in list_all (\<lambda>(r, e). jm_get (turns t) r = None \<and> signalAborted t (controller e)) ms \<and>
      listQueuedChatTurnsForSession t ks is a d = [] \<and>
      list_all (\<lambda>(r, e). jm_get (turns s) r = Some e) (turns t)"
proof -
  let ?s = "foldl turns_step initial_turns ops"
  let ?ms = "listQueuedChatTurnsForSession ?s ks is a d"
  let ?t = "snd (abortQueuedChatTurns ?s ?ms)"
  have inv: "turns_inv ?s" by (rule qtm.run_inv)
  have invt: "turns_inv ?t" by (rule abortAll_inv [OF inv])
  have get: "jm_get (turns u) r = Some e" if "(r, e) \<in> set (turns u)" "turns_inv u" for u r e
    using that by (simp add: turns_inv_def map_of_eq_Some_iff)
  have ms: "jm_get (turns ?s) r = Some e \<and> abortable e" if "(r, e) \<in> set ?ms" for r e
    using that get [OF _ inv] by (auto simp: listQueuedChatTurnsForSession_def Let_def)
  then have h: "\<forall>(r, e) \<in> set ?ms. handled ?s r e" by (auto simp: handled_def)
  have sub: "jm_get (turns ?s) r = Some e" if "jm_get (turns ?t) r = Some e" for r e
    using that by (rule abortAll_shrinks)
  have gone: "jm_get (turns ?t) r = None \<and> signalAborted ?t (controller e)" if "(r, e) \<in> set ?ms" for r e
  proof -
    have d: "controller e \<in> set (abortedControllers ?t) \<and>
        (\<forall>e'. jm_get (turns ?t) r = Some e' \<longrightarrow> entryRef e' \<noteq> entryRef e)"
      using abortAll_done [OF inv h, of r e] that by blast
    then have "jm_get (turns ?t) r = None"
      using ms [OF that] sub [of r] by (cases "jm_get (turns ?t) r") auto
    with d show ?thesis by (simp add: signalAborted_def)
  qed
  have none: "(r, e) \<notin> set (listQueuedChatTurnsForSession ?t ks is a d)" for r e
  proof
    assume m: "(r, e) \<in> set (listQueuedChatTurnsForSession ?t ks is a d)"
    then have "(r, e) \<in> set (turns ?t)" by (simp add: listQueuedChatTurnsForSession_def Let_def)
    then have t: "jm_get (turns ?t) r = Some e" by (rule get [OF _ invt])
    from jm_get_mem [OF sub [OF t]] m have "(r, e) \<in> set ?ms"
      by (simp add: listQueuedChatTurnsForSession_def Let_def)
    with gone t show False by fastforce
  qed
  have "listQueuedChatTurnsForSession ?t ks is a d = []"
  proof (cases "listQueuedChatTurnsForSession ?t ks is a d")
    case (Cons x xs)
    then show ?thesis using none [of "fst x" "snd x"] by simp
  qed
  moreover have "list_all (\<lambda>(r, e). jm_get (turns ?t) r = None \<and> signalAborted ?t (controller e)) ?ms"
    using gone by (auto simp: list_all_iff)
  moreover have "list_all (\<lambda>(r, e). jm_get (turns ?s) r = Some e) (turns ?t)"
    using sub get [OF _ invt] by (auto simp: list_all_iff)
  ultimately show ?thesis by (simp add: Let_def)
qed

end
