(* ===== verification/TaskSuggestions.thy ===== *)
theory TaskSuggestions
  imports NumberCoercion
begin

text \<open>
  \<^verbatim>\<open>src/gateway/task-suggestion-registry.ts\<close>: the bounded registry of follow-up tasks a model
  proposed, each accepted at most once. The id \<^verbatim>\<open>randomUUID\<close> draws and the clock are arguments. The
  size of a record is the length of its JSON text in UTF-8, computed here for strings over
  \<open>char\<close>.
\<close>

section \<open>State\<close>

record suggestion =
  sugId :: string
  title :: string
  prompt :: string
  tldr :: string
  cwd :: string
  sugSessionKey :: string
  sugAgentId :: "string option"
  createdAt :: int

datatype suggestion_status = Pending | Accepting | Dismissed | Accepted string

record suggestion_record =
  status :: suggestion_status
  suggestion_of :: suggestion

record registry =
  suggestions :: "(string, suggestion_record) jsmap"
  retainedSuggestionBytes :: int

definition empty_registry :: registry where
  "empty_registry = \<lparr>suggestions = [], retainedSuggestionBytes = 0\<rparr>"

definition MAX_TASK_SUGGESTIONS :: nat where "MAX_TASK_SUGGESTIONS = 100"
definition MAX_TASK_SUGGESTION_RETAINED_BYTES :: int where
  "MAX_TASK_SUGGESTION_RETAINED_BYTES = 2 * 1024 * 1024"

section \<open>Sizes\<close>

text \<open>Bytes of one character inside a JSON string, and of a string, a member and an object.\<close>

definition json_char_bytes :: "char \<Rightarrow> int" where
  "json_char_bytes c =
     (let n = of_char c :: nat in
      if n = 34 \<or> n = 92 \<or> n = 8 \<or> n = 9 \<or> n = 10 \<or> n = 12 \<or> n = 13 then 2
      else if n < 32 then 6
      else if n < 128 then 1 else 2)"

definition json_string_bytes :: "string \<Rightarrow> int" where
  "json_string_bytes s = 2 + sum_list (map json_char_bytes s)"

definition json_member_bytes :: "string \<Rightarrow> int \<Rightarrow> int" where
  "json_member_bytes key value = json_string_bytes key + 1 + value"

definition json_object_bytes :: "int list \<Rightarrow> int" where
  "json_object_bytes members = 2 + sum_list members + int (length members - 1)"

definition retainedBytesForSuggestion :: "suggestion \<Rightarrow> int" where
  "retainedBytesForSuggestion s =
     json_object_bytes
       ([json_member_bytes ''id'' (json_string_bytes (sugId s)),
         json_member_bytes ''title'' (json_string_bytes (title s)),
         json_member_bytes ''prompt'' (json_string_bytes (prompt s)),
         json_member_bytes ''tldr'' (json_string_bytes (tldr s)),
         json_member_bytes ''cwd'' (json_string_bytes (cwd s)),
         json_member_bytes ''sessionKey'' (json_string_bytes (sugSessionKey s))] @
        (case sugAgentId s of None \<Rightarrow> []
         | Some a \<Rightarrow> [json_member_bytes ''agentId'' (json_string_bytes a)]) @
        [json_member_bytes ''createdAt'' (int (length (show_int (createdAt s))))]) + 1"

section \<open>Operations\<close>

text \<open>\<^verbatim>\<open>undefined\<close> is \<open>NothingToEvict\<close>, \<^verbatim>\<open>null\<close> is \<open>EvictedFinished\<close>.\<close>

datatype eviction = NothingToEvict | EvictedFinished | EvictedPending string

fun finished :: "suggestion_status \<Rightarrow> bool" where
  "finished (Accepted k) = True"
| "finished Dismissed = True"
| "finished _ = False"

definition evictRecord :: "registry \<Rightarrow> string \<Rightarrow> suggestion_record \<Rightarrow> registry" where
  "evictRecord r taskId rec =
     r\<lparr>retainedSuggestionBytes := retainedSuggestionBytes r - retainedBytesForSuggestion (suggestion_of rec),
       suggestions := jm_del taskId (suggestions r)\<rparr>"

definition evictTaskSuggestion :: "registry \<Rightarrow> eviction \<times> registry" where
  "evictTaskSuggestion r =
     (case find (\<lambda>(k, rec). finished (status rec)) (suggestions r) of
        Some (taskId, rec) \<Rightarrow> (EvictedFinished, evictRecord r taskId rec)
      | None \<Rightarrow>
          (case find (\<lambda>(k, rec). status rec = Pending) (suggestions r) of
             Some (taskId, rec) \<Rightarrow> (EvictedPending taskId, evictRecord r taskId rec)
           | None \<Rightarrow> (NothingToEvict, r)))"

definition needs_room :: "registry \<Rightarrow> int \<Rightarrow> bool" where
  "needs_room r suggestionBytes \<longleftrightarrow>
     MAX_TASK_SUGGESTIONS \<le> length (suggestions r) \<or>
     MAX_TASK_SUGGESTION_RETAINED_BYTES < retainedSuggestionBytes r + suggestionBytes + 1"

text \<open>What an eviction does: nothing, or it removes one record that is finished or pending.\<close>

lemma evict_cases:
  obtains "evictTaskSuggestion r = (NothingToEvict, r)"
      "\<forall>(k, rec) \<in> set (suggestions r). status rec = Accepting"
  | k rec e where "evictTaskSuggestion r = (e, evictRecord r k rec)" "e \<noteq> NothingToEvict"
      "(k, rec) \<in> set (suggestions r)" "status rec \<noteq> Accepting"
proof (cases "find (\<lambda>(k, rec). finished (status rec)) (suggestions r)")
  case (Some x)
  obtain k rec where x: "x = (k, rec)" by (cases x)
  have "st \<noteq> Accepting" if "finished st" for st using that by auto
  with x find_mem [OF Some] Some that(2) [of EvictedFinished k rec] show ?thesis
    by (auto simp: evictTaskSuggestion_def)
next
  case fin: None
  show ?thesis
  proof (cases "find (\<lambda>(k, rec). status rec = Pending) (suggestions r)")
    case (Some x)
    obtain k rec where x: "x = (k, rec)" by (cases x)
    with find_mem [OF Some] Some fin that(2) [of "EvictedPending k" k rec] show ?thesis
      by (auto simp: evictTaskSuggestion_def)
  next
    case None
    have "status rec = Accepting" if "(k, rec) \<in> set (suggestions r)" for k rec
      using that fin None by (cases "status rec") (fastforce simp: find_None_iff)+
    with fin None that(1) show ?thesis by (auto simp: evictTaskSuggestion_def)
  qed
qed

lemma evict_shrinks:
  assumes "evictTaskSuggestion r = (e, r')" and "e \<noteq> NothingToEvict"
  shows "length (suggestions r') < length (suggestions r)"
proof -
  have del: "length (jm_del k m) < length m" if "(k, v) \<in> set m" for k and v :: suggestion_record and m
    using that by (induction m) (auto intro: le_less_trans [OF length_jm_del_le])
  show ?thesis using assms
    by (cases r rule: evict_cases) (auto simp: evictRecord_def intro: del)
qed

text \<open>The eviction loop: \<open>None\<close> when nothing more can be evicted, with what is left.\<close>

function evictLoop :: "registry \<Rightarrow> int \<Rightarrow> string list \<Rightarrow> string list option \<times> registry" where
  "evictLoop r suggestionBytes evicted =
     (if needs_room r suggestionBytes
      then (case evictTaskSuggestion r of
              (NothingToEvict, r') \<Rightarrow> (None, r')
            | (EvictedFinished, r') \<Rightarrow> evictLoop r' suggestionBytes evicted
            | (EvictedPending taskId, r') \<Rightarrow>
                evictLoop r' suggestionBytes (if taskId \<noteq> [] then evicted @ [taskId] else evicted))
      else (Some evicted, r))"
  by pat_completeness auto
termination
  by (relation "measure (\<lambda>(r, _, _). length (suggestions r))") (auto dest: sym intro: evict_shrinks)

declare evictLoop.simps [simp del]

record create_params =
  cp_title :: string
  cp_prompt :: string
  cp_tldr :: string
  cp_cwd :: string
  cp_sessionKey :: string
  cp_agentId :: "string option"

datatype create_result = Created suggestion "string list" | RegistryFull

definition newSuggestion :: "create_params \<Rightarrow> string \<Rightarrow> int \<Rightarrow> suggestion" where
  "newSuggestion p uuid now =
     \<lparr>sugId = ''task_'' @ uuid, title = cp_title p, prompt = cp_prompt p, tldr = cp_tldr p,
      cwd = cp_cwd p, sugSessionKey = cp_sessionKey p,
      sugAgentId = (if cp_agentId p = Some [] then None else cp_agentId p), createdAt = now\<rparr>"

definition createTaskSuggestion :: "registry \<Rightarrow> create_params \<Rightarrow> string \<Rightarrow> int \<Rightarrow> create_result \<times> registry" where
  "createTaskSuggestion r p uuid now =
     (let sug = newSuggestion p uuid now; suggestionBytes = retainedBytesForSuggestion sug
      in case evictLoop r suggestionBytes [] of
           (None, r') \<Rightarrow> (RegistryFull, r')
         | (Some evicted, r') \<Rightarrow>
             (Created sug evicted,
              r'\<lparr>suggestions := jm_set (sugId sug) \<lparr>status = Pending, suggestion_of = sug\<rparr> (suggestions r'),
                 retainedSuggestionBytes := retainedSuggestionBytes r' + suggestionBytes\<rparr>))"

definition listTaskSuggestions :: "registry \<Rightarrow> string option \<Rightarrow> string option \<Rightarrow> suggestion list" where
  "listTaskSuggestions r key agent =
     rev (filter (\<lambda>s. (key \<in> {None, Some []} \<or> Some (sugSessionKey s) = key) \<and>
                      (agent \<in> {None, Some []} \<or> sugAgentId s = agent))
       (map suggestion_of (filter (\<lambda>rec. status rec = Pending) (jm_vals (suggestions r)))))"

datatype acceptance = Claimed suggestion | AlreadyAccepted string | StillAccepting | WasDismissed | Missing

definition setStatus :: "registry \<Rightarrow> string \<Rightarrow> suggestion_record \<Rightarrow> suggestion_status \<Rightarrow> registry" where
  "setStatus r taskId rec st = r\<lparr>suggestions := jm_set taskId (rec\<lparr>status := st\<rparr>) (suggestions r)\<rparr>"

definition beginTaskSuggestionAcceptance :: "registry \<Rightarrow> string \<Rightarrow> acceptance \<times> registry" where
  "beginTaskSuggestionAcceptance r taskId =
     (case jm_get (suggestions r) taskId of
        None \<Rightarrow> (Missing, r)
      | Some rec \<Rightarrow>
          (case status rec of
             Accepted k \<Rightarrow> (AlreadyAccepted k, r)
           | Accepting \<Rightarrow> (StillAccepting, r)
           | Dismissed \<Rightarrow> (WasDismissed, r)
           | Pending \<Rightarrow> (Claimed (suggestion_of rec), setStatus r taskId rec Accepting)))"

definition cancelTaskSuggestionAcceptance :: "registry \<Rightarrow> string \<Rightarrow> suggestion option \<times> registry" where
  "cancelTaskSuggestionAcceptance r taskId =
     (case jm_get (suggestions r) taskId of
        Some rec \<Rightarrow> if status rec = Accepting then (Some (suggestion_of rec), setStatus r taskId rec Pending)
                    else (None, r)
      | None \<Rightarrow> (None, r))"

definition abandonTaskSuggestionAcceptance :: "registry \<Rightarrow> string \<Rightarrow> bool \<times> registry" where
  "abandonTaskSuggestionAcceptance r taskId =
     (case jm_get (suggestions r) taskId of
        Some rec \<Rightarrow> if status rec = Accepting then (True, setStatus r taskId rec Dismissed) else (False, r)
      | None \<Rightarrow> (False, r))"

definition completeTaskSuggestionAcceptance :: "registry \<Rightarrow> string \<Rightarrow> string \<Rightarrow> registry" where
  "completeTaskSuggestionAcceptance r taskId key =
     (case jm_get (suggestions r) taskId of
        Some rec \<Rightarrow> if status rec = Accepting then setStatus r taskId rec (Accepted key) else r
      | None \<Rightarrow> r)"

definition dismissTaskSuggestion :: "registry \<Rightarrow> string \<Rightarrow> bool \<times> registry" where
  "dismissTaskSuggestion r taskId =
     (case jm_get (suggestions r) taskId of
        Some rec \<Rightarrow> if status rec = Pending then (True, setStatus r taskId rec Dismissed) else (False, r)
      | None \<Rightarrow> (False, r))"

datatype registry_op =
    CreateTask create_params string int
  | BeginAccept string
  | CancelAccept string
  | AbandonAccept string
  | CompleteAccept string string
  | DismissTask string

fun registry_step :: "registry \<Rightarrow> registry_op \<Rightarrow> registry" where
  "registry_step r (CreateTask p uuid now) = snd (createTaskSuggestion r p uuid now)"
| "registry_step r (BeginAccept t) = snd (beginTaskSuggestionAcceptance r t)"
| "registry_step r (CancelAccept t) = snd (cancelTaskSuggestionAcceptance r t)"
| "registry_step r (AbandonAccept t) = snd (abandonTaskSuggestionAcceptance r t)"
| "registry_step r (CompleteAccept t k) = completeTaskSuggestionAcceptance r t k"
| "registry_step r (DismissTask t) = snd (dismissTaskSuggestion r t)"

section \<open>The invariant\<close>

declare map_of_eq_Some_iff [simp del] Some_eq_map_of_iff [simp del]

definition total_bytes :: "(string, suggestion_record) jsmap \<Rightarrow> int" where
  "total_bytes m = sum_list (map (\<lambda>e. retainedBytesForSuggestion (suggestion_of (snd e))) m)"

definition reg_inv :: "registry \<Rightarrow> bool" where
  "reg_inv r \<longleftrightarrow> jm_wf (suggestions r) \<and> length (suggestions r) \<le> MAX_TASK_SUGGESTIONS \<and>
     retainedSuggestionBytes r = total_bytes (suggestions r) \<and>
     retainedSuggestionBytes r + 1 \<le> MAX_TASK_SUGGESTION_RETAINED_BYTES"

lemma json_nonneg: "0 \<le> json_string_bytes s" "0 \<le> v \<Longrightarrow> 0 \<le> json_member_bytes s v"
proof -
  have "0 \<le> sum_list (map json_char_bytes x)" for x
    by (induction x) (auto simp: json_char_bytes_def Let_def)
  then show b: "0 \<le> json_string_bytes s" for s by (simp add: json_string_bytes_def)
  show "0 \<le> v \<Longrightarrow> 0 \<le> json_member_bytes s v" using b [of s] by (simp add: json_member_bytes_def)
qed

lemma bytes_nonneg: "0 \<le> retainedBytesForSuggestion s"
proof -
  have "0 \<le> json_object_bytes ms" if "\<forall>m \<in> set ms. 0 \<le> m" for ms
    using sum_list_nonneg [of ms] that by (simp add: json_object_bytes_def)
  then show ?thesis
    unfolding retainedBytesForSuggestion_def
    by (intro add_nonneg_nonneg) (auto simp: json_nonneg split: option.split)
qed

lemma total_del:
  "jm_wf m \<Longrightarrow> (k, rec) \<in> set m \<Longrightarrow>
     total_bytes (jm_del k m) = total_bytes m - retainedBytesForSuggestion (suggestion_of rec)"
proof (induction m)
  case (Cons e m)
  show ?case
  proof (cases "fst e = k")
    case True
    with Cons.prems have "jm_del k m = m" "e = (k, rec)"
      by (auto intro!: delete_idem simp: image_iff)
    then show ?thesis by (simp add: total_bytes_def)
  next
    case False
    with Cons show ?thesis by (cases e) (auto simp: total_bytes_def)
  qed
qed simp

lemma total_set:
  "jm_get m k = Some rec \<Longrightarrow> suggestion_of rec' = suggestion_of rec \<Longrightarrow> total_bytes (jm_set k rec' m) = total_bytes m"
  "jm_get m k = None \<Longrightarrow> total_bytes (jm_set k rec' m) = total_bytes m + retainedBytesForSuggestion (suggestion_of rec')"
  by (induction m) (auto simp: total_bytes_def split: if_splits)

lemma evictRecord_inv:
  "reg_inv r \<Longrightarrow> (k, rec) \<in> set (suggestions r) \<Longrightarrow> reg_inv (evictRecord r k rec)"
  using bytes_nonneg [of "suggestion_of rec"] length_jm_del_le [of k "suggestions r"]
  by (auto simp: reg_inv_def evictRecord_def total_del)

text \<open>
  An induction principle for the loop: a relation between registries that is reflexive and closed
  under one eviction in front relates where the loop starts and where it stops.
\<close>

lemma evictLoop_rel:
  assumes refl: "\<And>r. R r r"
    and step: "\<And>r k rec r'. (k, rec) \<in> set (suggestions r) \<Longrightarrow> status rec \<noteq> Accepting \<Longrightarrow>
      R (evictRecord r k rec) r' \<Longrightarrow> R r r'"
  shows "R r (snd (evictLoop r n ev))"
proof (induction r n ev rule: evictLoop.induct)
  case (1 r n ev)
  show ?case
  proof (cases r rule: evict_cases)
    case 1
    then show ?thesis using refl by (simp add: evictLoop.simps [of r n ev])
  next
    case (2 k rec e)
    have "R (evictRecord r k rec) (snd (evictLoop r n ev))" if "needs_room r n"
      using that 2(1,2) "1.IH" by (cases e) (simp_all add: evictLoop.simps [of r n ev])
    then show ?thesis using 2(3,4) refl step by (cases "needs_room r n") (auto simp: evictLoop.simps [of r n ev])
  qed
qed

lemma evictLoop_exit:
  "case evictLoop r n ev of
     (None, r') \<Rightarrow> needs_room r' n \<and> (\<forall>(k, rec) \<in> set (suggestions r'). status rec = Accepting)
   | (Some _, r') \<Rightarrow> \<not> needs_room r' n"
proof (induction r n ev rule: evictLoop.induct)
  case (1 r n ev)
  show ?case
  proof (cases r rule: evict_cases)
    case 1
    then show ?thesis by (simp add: evictLoop.simps [of r n ev])
  next
    case (2 k rec e)
    then show ?thesis using "1.IH"
      by (cases e) (simp_all add: evictLoop.simps [of r n ev])
  qed
qed

lemma evictLoop_inv: "reg_inv r \<Longrightarrow> reg_inv (snd (evictLoop r n ev))"
  by (rule evictLoop_rel [of "\<lambda>r r'. reg_inv r \<longrightarrow> reg_inv r'", rule_format]) (auto dest: evictRecord_inv)

lemma evictLoop_sub:
  "jm_get (suggestions (snd (evictLoop r n ev))) k = Some rec \<Longrightarrow> jm_get (suggestions r) k = Some rec"
  by (rule evictLoop_rel [of "\<lambda>r r'. jm_get (suggestions r') k = Some rec \<longrightarrow> jm_get (suggestions r) k = Some rec",
        rule_format]) (auto simp: evictRecord_def split: if_splits)

lemma evictLoop_keeps_accepting:
  assumes "reg_inv r" and "jm_get (suggestions r) k = Some rec" and "status rec = Accepting"
  shows "jm_get (suggestions (snd (evictLoop r n ev))) k = Some rec"
proof -
  have "reg_inv r \<longrightarrow> jm_get (suggestions r) k = Some rec \<longrightarrow>
      jm_get (suggestions (snd (evictLoop r n ev))) k = Some rec"
  proof (rule evictLoop_rel, goal_cases)
    case (2 r k' rec' r')
    have "jm_get (suggestions r) k' = Some rec'" if "reg_inv r"
      using that 2(1) by (simp add: reg_inv_def map_of_eq_Some_iff)
    with 2 assms(3) show ?case by (auto simp: evictRecord_inv) (auto simp: evictRecord_def split: if_splits)
  qed simp
  with assms show ?thesis by blast
qed

section \<open>Bounds\<close>

text \<open>A history in which every drawn UUID is one the registry does not hold.\<close>

fun fresh_run :: "registry \<Rightarrow> registry_op list \<Rightarrow> bool" where
  "fresh_run r [] = True"
| "fresh_run r (CreateTask p uuid now # es) \<longleftrightarrow>
     jm_get (suggestions r) (''task_'' @ uuid) = None \<and> fresh_run (registry_step r (CreateTask p uuid now)) es"
| "fresh_run r (e # es) = fresh_run (registry_step r e) es"

lemma fresh_run_Cons: "fresh_run r (e # es) \<Longrightarrow> fresh_run (registry_step r e) es"
  by (cases e) auto

lemma setStatus_inv:
  "reg_inv r \<Longrightarrow> jm_get (suggestions r) t = Some rec \<Longrightarrow> reg_inv (setStatus r t rec st)"
  by (simp add: reg_inv_def setStatus_def total_set length_jm_set_present)

lemma create_cases:
  obtains r' where "evictLoop r (retainedBytesForSuggestion sug) [] = (None, r')"
  | ev r' where "evictLoop r (retainedBytesForSuggestion sug) [] = (Some ev, r')"
      "\<not> needs_room r' (retainedBytesForSuggestion sug)"
  using evictLoop_exit [where r = r and n = "retainedBytesForSuggestion sug" and ev = "[]"]
  by (cases "evictLoop r (retainedBytesForSuggestion sug) []") (auto split: option.splits)

lemma create_eq:
  "createTaskSuggestion r p uuid now =
     (case evictLoop r (retainedBytesForSuggestion (newSuggestion p uuid now)) [] of
        (None, r') \<Rightarrow> (RegistryFull, r')
      | (Some evicted, r') \<Rightarrow>
          (Created (newSuggestion p uuid now) evicted,
           r'\<lparr>suggestions := jm_set (''task_'' @ uuid) \<lparr>status = Pending, suggestion_of = newSuggestion p uuid now\<rparr> (suggestions r'),
              retainedSuggestionBytes := retainedSuggestionBytes r' + retainedBytesForSuggestion (newSuggestion p uuid now)\<rparr>))"
  by (simp add: createTaskSuggestion_def newSuggestion_def Let_def cong: option.case_cong)

lemma create_inv:
  assumes "reg_inv r" and "jm_get (suggestions r) (''task_'' @ uuid) = None"
  shows "reg_inv (snd (createTaskSuggestion r p uuid now))"
proof (rule create_cases [where r = r and sug = "newSuggestion p uuid now"], goal_cases)
  case (1 r')
  with evictLoop_inv [OF assms(1), of "retainedBytesForSuggestion (newSuggestion p uuid now)" "[]"]
  show ?thesis by (simp add: create_eq)
next
  case (2 ev r')
  have inv: "reg_inv r'" using evictLoop_inv [OF assms(1), of "retainedBytesForSuggestion (newSuggestion p uuid now)" "[]"] 2
    by simp
  have new: "jm_get (suggestions r') (''task_'' @ uuid) = None"
  proof (rule ccontr)
    assume "\<not> ?thesis"
    then obtain rec where "jm_get (suggestions r') (''task_'' @ uuid) = Some rec" by auto
    with 2(1) evictLoop_sub [of r "retainedBytesForSuggestion (newSuggestion p uuid now)" "[]"] assms(2) show False by simp
  qed
  let ?v = "\<lparr>status = Pending, suggestion_of = newSuggestion p uuid now\<rparr>"
  have "length (jm_set (''task_'' @ uuid) ?v (suggestions r')) = Suc (length (suggestions r'))"
    using new by (simp add: length_jm_set_new map_of_eq_None_iff)
  with inv 2 total_set(2) [OF new, of ?v] show ?thesis
    by (simp add: create_eq reg_inv_def needs_room_def)
qed

lemma registry_step_inv:
  "reg_inv r \<Longrightarrow> fresh_run r [e] \<Longrightarrow> reg_inv (registry_step r e)"
proof (cases e)
  case (CreateTask p uuid now)
  assume "reg_inv r" "fresh_run r [e]"
  with create_inv CreateTask show ?thesis by simp
qed (auto simp: beginTaskSuggestionAcceptance_def cancelTaskSuggestionAcceptance_def
       abandonTaskSuggestionAcceptance_def completeTaskSuggestionAcceptance_def dismissTaskSuggestion_def
     intro: setStatus_inv split: option.splits suggestion_status.splits)

lemma registry_run_inv:
  "reg_inv r \<Longrightarrow> fresh_run r es \<Longrightarrow> reg_inv (foldl registry_step r es)"
proof (induction es arbitrary: r)
  case (Cons e es)
  have "fresh_run r [e]" using Cons.prems(2) by (cases e) auto
  with Cons registry_step_inv fresh_run_Cons show ?case by simp
qed simp

text \<open>The JSON text of a listing: an array of the records' texts.\<close>

definition list_response_bytes :: "suggestion list \<Rightarrow> int" where
  "list_response_bytes ss = json_object_bytes (map (\<lambda>s. retainedBytesForSuggestion s - 1) ss)"

lemma list_bytes_le_total:
  "sum_list (map retainedBytesForSuggestion (filter Q (map suggestion_of (filter P (jm_vals m))))) \<le> total_bytes m"
  by (induction m) (auto simp: total_bytes_def bytes_nonneg intro: add_increasing)

lemma list_response_bound:
  assumes "reg_inv r"
  shows "list_response_bytes (listTaskSuggestions r k a) \<le> MAX_TASK_SUGGESTION_RETAINED_BYTES"
proof -
  let ?ss = "listTaskSuggestions r k a"
  have sum: "sum_list (map retainedBytesForSuggestion ?ss) \<le> retainedSuggestionBytes r"
    using assms list_bytes_le_total unfolding listTaskSuggestions_def reg_inv_def
    by (simp add: rev_map [symmetric] sum_list_rev)
  have sub: "sum_list (map (\<lambda>s. retainedBytesForSuggestion s - 1) ss) =
      sum_list (map retainedBytesForSuggestion ss) - int (length ss)" for ss
    by (induction ss) auto
  show ?thesis
    using sum assms unfolding list_response_bytes_def json_object_bytes_def sub
    by (cases ?ss) (auto simp: reg_inv_def MAX_TASK_SUGGESTION_RETAINED_BYTES_def)
qed

text \<open>
  Whatever tasks are proposed, claimed, cancelled, abandoned, completed or dismissed, and
  in whatever order, the registry holds at most 100 records, its byte counter is exactly the size of
  what it holds, and the JSON text of any listing (brackets and commas included) stays within 2 MiB.
\<close>

theorem suggestions_bounded:
  assumes "fresh_run empty_registry es"
  defines "r \<equiv> foldl registry_step empty_registry es"
  shows "length (suggestions r) \<le> MAX_TASK_SUGGESTIONS \<and>
    retainedSuggestionBytes r = total_bytes (suggestions r) \<and>
    list_response_bytes (listTaskSuggestions r k a) \<le> MAX_TASK_SUGGESTION_RETAINED_BYTES"
proof -
  have "reg_inv empty_registry"
    by (simp add: reg_inv_def empty_registry_def total_bytes_def MAX_TASK_SUGGESTION_RETAINED_BYTES_def)
  then have "reg_inv r" unfolding r_def using assms(1) by (rule registry_run_inv)
  with list_response_bound show ?thesis by (auto simp: reg_inv_def)
qed

definition sample_params :: create_params where
  "sample_params = \<lparr>cp_title = ''t'', cp_prompt = ''p'', cp_tldr = ''s'', cp_cwd = ''/'',
     cp_sessionKey = ''main'', cp_agentId = None\<rparr>"

lemma suggestions_bounded_witness:
  "retainedSuggestionBytes (foldl registry_step empty_registry [CreateTask sample_params ''u1'' 5, DismissTask ''task_u1'']) =
   total_bytes (suggestions (foldl registry_step empty_registry [CreateTask sample_params ''u1'' 5, DismissTask ''task_u1'']))"
  using suggestions_bounded [of "[CreateTask sample_params ''u1'' 5, DismissTask ''task_u1'']"]
  by (simp add: empty_registry_def)

section \<open>A full registry\<close>

text \<open>What is left when everything that may be evicted is: the records being accepted.\<close>

definition accepting_only :: "registry \<Rightarrow> registry" where
  "accepting_only r =
     (let kept = filter (\<lambda>(k, rec). status rec = Accepting) (suggestions r)
      in \<lparr>suggestions = kept, retainedSuggestionBytes = total_bytes kept\<rparr>)"

lemma filter_del:
  "jm_wf m \<Longrightarrow> (k, rec) \<in> set m \<Longrightarrow> \<not> P (k, rec) \<Longrightarrow> filter P (jm_del k m) = filter P m"
proof (induction m)
  case (Cons e m)
  show ?case
  proof (cases "fst e = k")
    case True
    with Cons.prems have "jm_del k m = m" "e = (k, rec)" by (auto intro!: delete_idem simp: image_iff)
    with Cons.prems(3) show ?thesis by simp
  next
    case False
    with Cons show ?thesis by (cases e) auto
  qed
qed simp

lemma evictLoop_accepting:
  assumes "reg_inv r"
  shows "accepting_only (snd (evictLoop r n ev)) = accepting_only r"
proof -
  have "reg_inv r \<longrightarrow> accepting_only (snd (evictLoop r n ev)) = accepting_only r"
  proof (rule evictLoop_rel [of "\<lambda>r r'. reg_inv r \<longrightarrow> accepting_only r' = accepting_only r"], goal_cases)
    case (2 r k rec r')
    have "accepting_only (evictRecord r k rec) = accepting_only r" if "reg_inv r"
      using that 2(1,2) by (simp add: accepting_only_def evictRecord_def reg_inv_def filter_del)
    with 2 show ?case by (simp add: evictRecord_inv)
  qed simp
  with assms show ?thesis by blast
qed

lemma accepting_only_all:
  "reg_inv r \<Longrightarrow> \<forall>(k, rec) \<in> set (suggestions r). status rec = Accepting \<Longrightarrow> accepting_only r = r"
  by (auto simp: accepting_only_def reg_inv_def Let_def intro!: registry.equality filter_True)

lemma accepting_only_smaller:
  assumes "reg_inv r" and "needs_room (accepting_only r) n"
  shows "needs_room r n"
proof -
  let ?P = "\<lambda>(k, rec). status rec = Accepting"
  have "total_bytes (filter P m) \<le> total_bytes m" for P m
    by (induction m) (auto simp: total_bytes_def bytes_nonneg intro: add_increasing)
  then have "retainedSuggestionBytes (accepting_only r) \<le> retainedSuggestionBytes r"
    "length (suggestions (accepting_only r)) \<le> length (suggestions r)"
    using assms(1) by (simp_all add: accepting_only_def Let_def reg_inv_def)
  with assms(2) show ?thesis unfolding needs_room_def by linarith
qed

text \<open>
  C40. A creation is refused exactly when the acceptances in flight leave no room for the new
  suggestion, by count or by bytes; a refused creation has then already evicted everything else, and
  what it leaves is exactly the records being accepted, unchanged and in their order.
\<close>

theorem create_full_iff:
  assumes "reg_inv r" and "createTaskSuggestion r p uuid now = (result, r')"
  shows "(result = RegistryFull \<longleftrightarrow>
      needs_room (accepting_only r) (retainedBytesForSuggestion (newSuggestion p uuid now))) \<and>
    (result = RegistryFull \<longrightarrow> r' = accepting_only r)"
proof -
  let ?n = "retainedBytesForSuggestion (newSuggestion p uuid now)"
  note ex = evictLoop_exit [where r = r and n = ?n and ev = "[]"]
  note inv = evictLoop_inv [OF assms(1), of ?n "[]"]
  note acc = evictLoop_accepting [OF assms(1), of ?n "[]"]
  show ?thesis
  proof (cases "evictLoop r ?n []")
    case (Pair res r1)
    show ?thesis
    proof (cases res)
      case None
      have "r1 = accepting_only r" using Pair None ex inv acc accepting_only_all [of r1] by auto
      moreover have "needs_room r1 ?n"
        using Pair None ex by simp
      ultimately show ?thesis using Pair None assms(2) by (auto simp: create_eq)
    next
      case (Some ev)
      have "\<not> needs_room r1 ?n" using Pair Some ex by simp
      then have "\<not> needs_room (accepting_only r) ?n"
        using accepting_only_smaller [of r1 ?n] inv acc Pair by auto
      then show ?thesis using Pair Some assms(2) by (auto simp: create_eq)
    qed
  qed
qed

definition huge_params :: create_params where
  "huge_params = sample_params\<lparr>cp_prompt := replicate (2 * 1024 * 1024) CHR ''a''\<rparr>"

lemma json_string_bytes_replicate:
  "json_string_bytes (replicate n c) = 2 + int n * json_char_bytes c"
  by (simp add: json_string_bytes_def sum_list_replicate)

lemma prompt_le_bytes: "json_string_bytes (prompt s) \<le> retainedBytesForSuggestion s"
proof -
  have m: "0 \<le> json_member_bytes k (json_string_bytes x)" for k x
    by (intro json_nonneg)
  have n: "0 \<le> json_member_bytes k (int x)" for k x
    by (rule json_nonneg(2)) simp
  have p: "json_string_bytes (prompt s) \<le> json_member_bytes ''prompt'' (json_string_bytes (prompt s))"
    using json_nonneg(1) [of "''prompt''"] by (simp add: json_member_bytes_def)
  show ?thesis
    unfolding retainedBytesForSuggestion_def json_object_bytes_def
    using p m [of "''id''" "sugId s"] m [of "''title''" "title s"] m [of "''tldr''" "tldr s"] m [of "''cwd''" "cwd s"]
      m [of "''sessionKey''" "sugSessionKey s"] m [of "''agentId''" "the (sugAgentId s)"]
      n [of "''createdAt''" "length (show_int (createdAt s))"]
    by (cases "sugAgentId s") simp_all
qed

lemma huge_needs_room: "needs_room (accepting_only r) (retainedBytesForSuggestion (newSuggestion huge_params uuid now))"
proof -
  have "0 \<le> total_bytes m" for m
    by (induction m) (auto simp: total_bytes_def bytes_nonneg)
  then have nn: "0 \<le> retainedSuggestionBytes (accepting_only r)" by (simp add: accepting_only_def Let_def)
  have "json_string_bytes (prompt (newSuggestion huge_params uuid now)) = 2 + 2 * 1024 * 1024"
    by (simp add: newSuggestion_def huge_params_def json_string_bytes_replicate json_char_bytes_def)
  with nn prompt_le_bytes [of "newSuggestion huge_params uuid now"] show ?thesis
    by (simp add: needs_room_def MAX_TASK_SUGGESTION_RETAINED_BYTES_def)
qed

text \<open>
  The refused creation below has evicted a pending suggestion, and its result does not say so.
\<close>

definition one_pending :: registry where
  "one_pending = registry_step empty_registry (CreateTask sample_params ''u1'' 5)"

lemma one_pending_eq:
  "one_pending = \<lparr>suggestions = [(''task_u1'', \<lparr>status = Pending, suggestion_of = newSuggestion sample_params ''u1'' 5\<rparr>)],
     retainedSuggestionBytes = retainedBytesForSuggestion (newSuggestion sample_params ''u1'' 5)\<rparr>"
proof -
  have "retainedBytesForSuggestion (newSuggestion sample_params ''u1'' 5) < 1000"
    by (simp add: retainedBytesForSuggestion_def newSuggestion_def sample_params_def json_object_bytes_def
        json_member_bytes_def json_string_bytes_def json_char_bytes_def show_int_def show_nat.simps)
  then have "\<not> needs_room empty_registry (retainedBytesForSuggestion (newSuggestion sample_params ''u1'' 5))"
    by (simp add: needs_room_def empty_registry_def MAX_TASK_SUGGESTIONS_def MAX_TASK_SUGGESTION_RETAINED_BYTES_def)
  then show ?thesis
    by (simp add: one_pending_def create_eq evictLoop.simps empty_registry_def)
qed

lemma create_full_iff_witness:
  "length (listTaskSuggestions one_pending None None) = 1 \<and>
   createTaskSuggestion one_pending huge_params ''u2'' 6 = (RegistryFull, empty_registry)"
proof -
  obtain result r' where run: "createTaskSuggestion one_pending huge_params ''u2'' 6 = (result, r')"
    by (cases "createTaskSuggestion one_pending huge_params ''u2'' 6")
  have inv: "reg_inv one_pending"
    unfolding one_pending_def
    by (rule registry_step_inv) (simp_all add: reg_inv_def empty_registry_def total_bytes_def MAX_TASK_SUGGESTION_RETAINED_BYTES_def)
  have "result = RegistryFull" "r' = accepting_only one_pending"
    using create_full_iff [OF inv run] huge_needs_room by simp_all
  with run show ?thesis
    by (simp add: one_pending_eq accepting_only_def empty_registry_def total_bytes_def listTaskSuggestions_def)
qed

section \<open>A claim is made once\<close>

definition touches :: "string \<Rightarrow> registry_op \<Rightarrow> bool" where
  "touches t e = (case e of CancelAccept t' \<Rightarrow> t' = t | CreateTask p uuid now \<Rightarrow> ''task_'' @ uuid = t | _ \<Rightarrow> False)"

definition not_pending :: "string \<Rightarrow> registry \<Rightarrow> bool" where
  "not_pending t r \<longleftrightarrow> (\<forall>rec. jm_get (suggestions r) t = Some rec \<longrightarrow> status rec \<noteq> Pending)"

lemma registry_step_not_pending:
  assumes "\<not> touches t e" and "not_pending t r"
  shows "not_pending t (registry_step r e)"
proof (cases e)
  case (CreateTask p uuid now)
  show ?thesis
  proof (cases rule: create_cases [where r = r and sug = "newSuggestion p uuid now"])
    case (1 r')
    with evictLoop_sub [where r = r and n = "retainedBytesForSuggestion (newSuggestion p uuid now)" and ev = "[]"] assms(2)
    show ?thesis by (simp add: CreateTask create_eq not_pending_def)
  next
    case (2 ev r')
    with evictLoop_sub [where r = r and n = "retainedBytesForSuggestion (newSuggestion p uuid now)" and ev = "[]"] assms
    show ?thesis by (auto simp: CreateTask create_eq not_pending_def touches_def)
  qed
qed (use assms in \<open>auto simp: not_pending_def touches_def setStatus_def beginTaskSuggestionAcceptance_def
       cancelTaskSuggestionAcceptance_def abandonTaskSuggestionAcceptance_def
       completeTaskSuggestionAcceptance_def dismissTaskSuggestion_def
     split: option.splits suggestion_status.splits if_splits\<close>)

lemma registry_run_not_pending:
  "\<forall>e \<in> set es. \<not> touches t e \<Longrightarrow> not_pending t r \<Longrightarrow> not_pending t (foldl registry_step r es)"
  by (induction es arbitrary: r) (auto intro: registry_step_not_pending)

text \<open>
  Once a suggestion has been claimed, no further claim of it succeeds, whatever happens in
  between (creations of other tasks, evictions, completions, abandonments, dismissals), as long as
  the claim is not cancelled: the side effects behind a claim start at most once.
\<close>

theorem claimed_once:
  assumes "beginTaskSuggestionAcceptance r t = (Claimed s, r')" and "\<forall>e \<in> set es. \<not> touches t e"
  shows "fst (beginTaskSuggestionAcceptance (foldl registry_step r' es) t) \<noteq> Claimed s'"
proof -
  have "not_pending t r'" using assms(1)
    by (auto simp: beginTaskSuggestionAcceptance_def not_pending_def setStatus_def
        split: option.splits suggestion_status.splits)
  from registry_run_not_pending [OF assms(2) this] show ?thesis
    by (auto simp: beginTaskSuggestionAcceptance_def not_pending_def split: option.splits suggestion_status.splits)
qed

lemma claimed_once_witness:
  "\<exists>s r'. beginTaskSuggestionAcceptance one_pending ''task_u1'' = (Claimed s, r') \<and>
     fst (beginTaskSuggestionAcceptance (foldl registry_step r' [AbandonAccept ''task_u1'']) ''task_u1'') \<noteq> Claimed s"
proof -
  obtain s r' where run: "beginTaskSuggestionAcceptance one_pending ''task_u1'' = (Claimed s, r')"
    by (simp add: one_pending_eq beginTaskSuggestionAcceptance_def)
  moreover have "fst (beginTaskSuggestionAcceptance (foldl registry_step r' [AbandonAccept ''task_u1'']) ''task_u1'') \<noteq> Claimed s"
    by (rule claimed_once [OF run]) (simp add: touches_def)
  ultimately show ?thesis by blast
qed

end
