(* ===== verification/ConfigPaths.thy ===== *)
theory ConfigPaths
  imports MergePatch StringCoerce "HOL-Library.Sublist"
begin

text \<open>
  \<^verbatim>\<open>src/config/config-paths.ts\<close>: dotted configuration paths and the reads, writes and removals at
  them. The code edits the tree in place through a cursor; the model returns the edited map. The
  recursion over the path does on its way back what the removal's stack of parents is for.
\<close>

section \<open>Operations\<close>

datatype path_error = InvalidPath | InvalidPathSegment

fun splitDot :: "string \<Rightarrow> string list" where
  "splitDot [] = [[]]"
| "splitDot (c # s) = (if c = CHR ''.'' then [] # splitDot s
                       else (case splitDot s of p # ps \<Rightarrow> (c # p) # ps | [] \<Rightarrow> [[c]]))"

definition parseConfigPath :: "string \<Rightarrow> path_error + string list" where
  "parseConfigPath raw =
     (let trimmed = js_trim raw in
      if trimmed = [] then Inl InvalidPath
      else let parts = map js_trim (splitDot trimmed) in
        if [] \<in> set parts then Inl InvalidPath
        else if list_ex isBlockedObjectKey parts then Inl InvalidPathSegment
        else Inr parts)"

fun setConfigValueAtPath :: "(string \<times> json) list \<Rightarrow> string list \<Rightarrow> json \<Rightarrow> (string \<times> json) list option" where
  "setConfigValueAtPath node [] v = None"
| "setConfigValueAtPath node [leaf] v = Some (jm_set leaf v node)"
| "setConfigValueAtPath node (key # k # ks) v =
     map_option (\<lambda>child. jm_set key (JObj child) node)
       (setConfigValueAtPath (case jm_get node key of Some (JObj m) \<Rightarrow> m | _ \<Rightarrow> []) (k # ks) v)"

text \<open>\<open>None\<close> where the code answers false and leaves the tree alone.\<close>

fun unsetConfigValueAtPath :: "(string \<times> json) list \<Rightarrow> string list \<Rightarrow> (string \<times> json) list option" where
  "unsetConfigValueAtPath node [] = None"
| "unsetConfigValueAtPath node [leaf] = (if jm_get node leaf = None then None else Some (jm_del leaf node))"
| "unsetConfigValueAtPath node (key # k # ks) =
     (case jm_get node key of
        Some (JObj m) \<Rightarrow>
          map_option (\<lambda>child. if child = [] then jm_del key node else jm_set key (JObj child) node)
            (unsetConfigValueAtPath m (k # ks))
      | _ \<Rightarrow> None)"

fun getConfigValueAtPath :: "json \<Rightarrow> string list \<Rightarrow> json option" where
  "getConfigValueAtPath cursor [] = Some cursor"
| "getConfigValueAtPath cursor (key # ks) =
     (case cursor of
        JObj m \<Rightarrow> (case jm_get m key of Some v \<Rightarrow> getConfigValueAtPath v ks | None \<Rightarrow> None)
      | _ \<Rightarrow> None)"

section \<open>Reading what was written\<close>

lemma set_total: "path \<noteq> [] \<Longrightarrow> \<exists>node'. setConfigValueAtPath node path v = Some node'"
  by (induction node path v rule: setConfigValueAtPath.induct) auto

lemma get_set:
  "setConfigValueAtPath node path v = Some node' \<Longrightarrow> getConfigValueAtPath (JObj node') path = Some v"
  by (induction node path v arbitrary: node' rule: setConfigValueAtPath.induct) auto

lemma get_set_other:
  "setConfigValueAtPath node path v = Some node' \<Longrightarrow> \<not> prefix path q \<Longrightarrow> \<not> prefix q path \<Longrightarrow>
     getConfigValueAtPath (JObj node') q = getConfigValueAtPath (JObj node) q"
proof (induction node path v arbitrary: node' q rule: setConfigValueAtPath.induct)
  case (2 node leaf v)
  then show ?case by (cases q) (auto split: option.split)
next
  case (3 node key k ks v)
  obtain a as where q: "q = a # as" using 3(4) by (cases q) auto
  obtain child where child: "setConfigValueAtPath (case jm_get node key of Some (JObj m) \<Rightarrow> m | _ \<Rightarrow> []) (k # ks) v = Some child"
      "node' = jm_set key (JObj child) node"
    using 3(2) by auto
  show ?case
  proof (cases "a = key")
    case False
    with q child show ?thesis by simp
  next
    case True
    have as: "\<not> prefix (k # ks) as" "\<not> prefix as (k # ks)" using 3(3,4) True q by auto
    from 3(1) [OF child(1) as] have
      "getConfigValueAtPath (JObj child) as =
         getConfigValueAtPath (JObj (case jm_get node key of Some (JObj m) \<Rightarrow> m | _ \<Rightarrow> [])) as" .
    moreover have "as \<noteq> []" using as by auto
    ultimately show ?thesis using True q child(2)
      by (cases as) (auto split: option.splits json.splits)
  qed
qed auto

text \<open>A path at which nothing is set and none of whose present parents is an empty object.\<close>

fun vacant :: "(string \<times> json) list \<Rightarrow> string list \<Rightarrow> bool" where
  "vacant node [] = False"
| "vacant node [leaf] \<longleftrightarrow> jm_get node leaf = None"
| "vacant node (key # k # ks) \<longleftrightarrow>
     (case jm_get node key of
        None \<Rightarrow> True
      | Some (JObj m) \<Rightarrow> m \<noteq> [] \<and> vacant m (k # ks)
      | Some _ \<Rightarrow> False)"

lemma vacant_empty: "ks \<noteq> [] \<Longrightarrow> vacant [] ks"
  by (cases ks rule: list.exhaust; cases "tl ks") auto

lemma set_nonempty: "setConfigValueAtPath node path v = Some node' \<Longrightarrow> node' \<noteq> []"
proof -
  have "jm_set k x m \<noteq> []" for k and x :: json and m by (cases m) auto
  then show "setConfigValueAtPath node path v = Some node' \<Longrightarrow> node' \<noteq> []"
    by (induction node path v arbitrary: node' rule: setConfigValueAtPath.induct) auto
qed

lemma del_set_new: "jm_get m k = None \<Longrightarrow> jm_del k (jm_set k v m) = m"
  by (induction m) (auto split: if_splits)

lemma unset_set:
  "vacant node path \<Longrightarrow> setConfigValueAtPath node path v = Some node' \<Longrightarrow>
     unsetConfigValueAtPath node' path = Some node"
proof (induction node path v arbitrary: node' rule: setConfigValueAtPath.induct)
  case (2 node leaf v)
  then show ?case by (auto simp: del_set_new)
next
  case (3 node key k ks v)
  let ?m = "case jm_get node key of Some (JObj m) \<Rightarrow> m | _ \<Rightarrow> []"
  obtain child where child: "setConfigValueAtPath ?m (k # ks) v = Some child" "node' = jm_set key (JObj child) node"
    using 3(3) by auto
  have "vacant ?m (k # ks)"
    using 3(2) by (auto simp: vacant_empty split: option.splits json.splits)
  then have un: "unsetConfigValueAtPath child (k # ks) = Some ?m" using 3(1) child(1) by blast
  show ?case
  proof (cases "jm_get node key")
    case None
    then show ?thesis using un child(2) by (simp add: del_set_new)
  next
    case (Some w)
    then obtain m where w: "w = JObj m" "m \<noteq> []" using 3(2) by (cases w) auto
    then show ?thesis using un child(2) Some by (simp add: jm_set_same)
  qed
qed auto

text \<open>
  Writing at a configuration path always succeeds; reading the path then gives the value
  written, no path that branches off elsewhere changes, and removing the value prunes exactly the
  parents the write created, so the configuration is again what it was.
\<close>

theorem config_path_edit:
  assumes "path \<noteq> []"
  shows "\<exists>node'. setConfigValueAtPath node path v = Some node' \<and>
    getConfigValueAtPath (JObj node') path = Some v \<and>
    (\<forall>q. \<not> prefix path q \<and> \<not> prefix q path \<longrightarrow>
      getConfigValueAtPath (JObj node') q = getConfigValueAtPath (JObj node) q) \<and>
    (vacant node path \<longrightarrow> unsetConfigValueAtPath node' path = Some node)"
proof -
  obtain node' where "setConfigValueAtPath node path v = Some node'" using set_total assms by blast
  with get_set get_set_other unset_set show ?thesis by blast
qed

lemma config_path_edit_witness:
  "\<exists>node'. setConfigValueAtPath [(''b'', JNull)] [''a'', ''c''] (JBool True) = Some node' \<and>
     unsetConfigValueAtPath node' [''a'', ''c''] = Some [(''b'', JNull)]"
proof -
  have "[''a'', ''c''] \<noteq> []" "vacant [(''b'', JNull)] [''a'', ''c'']" by simp_all
  with config_path_edit [OF this(1), of "[(''b'', JNull)]" "JBool True"] show ?thesis by blast
qed

section \<open>Parsing\<close>

definition valid_path :: "string list \<Rightarrow> bool" where
  "valid_path path \<longleftrightarrow> path \<noteq> [] \<and>
     list_all (\<lambda>p. p \<noteq> [] \<and> js_trim p = p \<and> CHR ''.'' \<notin> set p \<and> \<not> isBlockedObjectKey p) path"

fun formatConfigPath :: "string list \<Rightarrow> string" where
  "formatConfigPath [] = []"
| "formatConfigPath [p] = p"
| "formatConfigPath (p # ps) = p @ CHR ''.'' # formatConfigPath ps"

lemma splitDot_nonempty: "splitDot s \<noteq> []"
  by (induction s) (auto split: list.split)

lemma splitDot_parts: "p \<in> set (splitDot s) \<Longrightarrow> CHR ''.'' \<notin> set p"
  by (induction s arbitrary: p) (auto split: list.splits if_splits)

lemma splitDot_plain: "CHR ''.'' \<notin> set p \<Longrightarrow> splitDot p = [p]"
  by (induction p) auto

lemma splitDot_append: "CHR ''.'' \<notin> set p \<Longrightarrow> splitDot (p @ CHR ''.'' # s) = p # splitDot s"
  by (induction p) auto

lemma splitDot_format: "valid_path path \<Longrightarrow> splitDot (formatConfigPath path) = path"
  by (induction path rule: formatConfigPath.induct) (auto simp: valid_path_def splitDot_plain splitDot_append)

lemma set_trim: "set (js_trim s) \<subseteq> set s"
proof -
  have "set (dropWhile P xs) \<subseteq> set xs" for P and xs :: string
    using set_dropWhileD by fast
  from this [of is_js_space "rev (dropWhile is_js_space s)"] this [of is_js_space s] show ?thesis
    by (simp add: js_trim_def)
qed

lemma format_ends:
  "valid_path path \<Longrightarrow> formatConfigPath path \<noteq> [] \<and> hd (formatConfigPath path) = hd (hd path) \<and>
     List.last (formatConfigPath path) = List.last (List.last path)"
  by (induction path rule: formatConfigPath.induct) (auto simp: valid_path_def)

lemma parse_valid: "parseConfigPath raw = Inr path \<Longrightarrow> valid_path path"
  using splitDot_nonempty [of "js_trim raw"] splitDot_parts [of _ "js_trim raw"] set_trim
  by (fastforce simp: parseConfigPath_def valid_path_def Let_def list_all_iff list_ex_iff js_trim_idem
      split: if_splits)

text \<open>
  C38. Parsing is normalising: a path it accepts has at least one segment and every segment is
  non-empty, trimmed, free of dots and not a prototype key, and the dotted text of such a path
  parses to the path again. Every other text gives one of the two errors.
\<close>

theorem parseConfigPath_format:
  "((\<exists>raw. parseConfigPath raw = Inr path) = valid_path path) \<and>
   (valid_path path = (parseConfigPath (formatConfigPath path) = Inr path))"
proof -
  have "parseConfigPath (formatConfigPath path) = Inr path" if v: "valid_path path"
  proof -
    have "\<not> is_js_space (hd p) \<and> \<not> is_js_space (List.last p)" if "p \<in> set path" for p
      using that v js_trim_ends [of p] by (auto simp: valid_path_def list_all_iff)
    with v format_ends [OF v] have "js_trim (formatConfigPath path) = formatConfigPath path"
      using js_trim_pad [of "[]" "[]" "formatConfigPath path"] by (simp add: valid_path_def)
    with v splitDot_format [OF v] format_ends [OF v] show ?thesis
      by (auto simp: parseConfigPath_def valid_path_def list_all_iff list_ex_iff map_idI)
  qed
  with parse_valid show ?thesis by blast
qed

end
