(* ===== verification/StoreWriterQueue.thy ===== *)
theory StoreWriterQueue
  imports Prelude "HOL-Library.Sublist"
begin

text \<open>
  \<^verbatim>\<open>src/shared/store-writer-queue.ts\<close>: the per-path FIFO queue that serialises the writes of one
  process. A queue is an object the running drain loop keeps a reference to, beside the map from
  paths to queues, so objects have references here. A drain loop is the asynchronous function of
  \<^verbatim>\<open>drainStoreWriterQueue\<close> suspended in \<^verbatim>\<open>await task.fn()\<close>; it starts its first task before
  \<^verbatim>\<open>queue.drainPromise\<close> is assigned, which happens when the synchronous prefix of that task
  returns (\<open>starting\<close>). A context is what \<^verbatim>\<open>AsyncLocalStorage\<close> holds: the chain of writers, each
  named by its task. The branch that restarts a queue left non-empty by the loop is dead, because
  the loop leaves it empty, and is not modelled.
\<close>

section \<open>State\<close>

record store_queue =
  running :: bool
  pending :: "nat list"
  drainPromise :: bool

record drain_loop =
  loopPath :: string
  loopQueue :: nat
  loopContext :: "nat list"
  current :: nat
  starting :: bool

record writers =
  queueOf :: "(string, nat) jsmap"
  objects :: "(nat, store_queue) jsmap"
  nextRef :: nat
  loops :: "drain_loop list"
  activeWriters :: "(nat \<times> string) list"
  outcomes :: "(nat \<times> bool) list"

definition no_writers :: writers where
  "no_writers = \<lparr>queueOf = [], objects = [], nextRef = 0, loops = [], activeWriters = [], outcomes = []\<rparr>"

section \<open>Operations\<close>

definition isActiveStoreWriter :: "writers \<Rightarrow> nat list \<Rightarrow> string \<Rightarrow> bool" where
  "isActiveStoreWriter s context path \<longleftrightarrow> list_ex (\<lambda>w. (w, path) \<in> set (activeWriters s)) context"

definition getOrCreateStoreWriterQueue :: "writers \<Rightarrow> string \<Rightarrow> nat \<times> writers" where
  "getOrCreateStoreWriterQueue s path =
     (case jm_get (queueOf s) path of
        Some ref \<Rightarrow> (ref, s)
      | None \<Rightarrow>
          (nextRef s,
           s\<lparr>queueOf := jm_set path (nextRef s) (queueOf s),
             objects := jm_set (nextRef s) \<lparr>running = False, pending = [], drainPromise = False\<rparr> (objects s),
             nextRef := nextRef s + 1\<rparr>))"

definition queueAt :: "writers \<Rightarrow> nat \<Rightarrow> store_queue" where
  "queueAt s ref = (case jm_get (objects s) ref of Some q \<Rightarrow> q | None \<Rightarrow> \<lparr>running = False, pending = [], drainPromise = False\<rparr>)"

definition setQueue :: "writers \<Rightarrow> nat \<Rightarrow> store_queue \<Rightarrow> writers" where
  "setQueue s ref q = s\<lparr>objects := jm_set ref q (objects s)\<rparr>"

text \<open>The \<^verbatim>\<open>finally\<close> block of the loop, on an empty queue.\<close>

definition finishDrain :: "writers \<Rightarrow> string \<Rightarrow> nat \<Rightarrow> writers" where
  "finishDrain s path ref =
     (setQueue s ref ((queueAt s ref)\<lparr>running := False, drainPromise := False\<rparr>))
       \<lparr>queueOf := jm_del path (queueOf s)\<rparr>"

text \<open>A call of \<^verbatim>\<open>drainStoreWriterQueue\<close> up to the first \<^verbatim>\<open>await\<close>.\<close>

definition drainStoreWriterQueue :: "writers \<Rightarrow> nat list \<Rightarrow> string \<Rightarrow> writers" where
  "drainStoreWriterQueue s context path =
     (case jm_get (queueOf s) path of
        None \<Rightarrow> s
      | Some ref \<Rightarrow>
          let q = queueAt s ref in
          if drainPromise q then s
          else
            (case pending q of
               [] \<Rightarrow>
                 (let s1 = finishDrain s path ref
                  in setQueue s1 ref ((queueAt s1 ref)\<lparr>drainPromise := True\<rparr>))
             | t # ts \<Rightarrow>
                 (setQueue s ref (q\<lparr>running := True, pending := ts\<rparr>))
                   \<lparr>loops := loops s @ [\<lparr>loopPath = path, loopQueue = ref, loopContext = context, current = t, starting = True\<rparr>],
                    activeWriters := activeWriters s @ [(t, path)]\<rparr>))"

datatype write_start = PathRefused | RunsInline | WaitsInQueue

definition runQueuedStoreWrite :: "writers \<Rightarrow> nat list \<Rightarrow> string \<Rightarrow> bool \<Rightarrow> nat \<Rightarrow> write_start \<times> writers" where
  "runQueuedStoreWrite s context path reentrant t =
     (if path = [] then (PathRefused, s)
      else if reentrant \<and> isActiveStoreWriter s context path then (RunsInline, s)
      else
        case getOrCreateStoreWriterQueue s path of (ref, s1) \<Rightarrow>
          (let q = queueAt s1 ref in
           (WaitsInQueue,
            drainStoreWriterQueue (setQueue s1 ref (q\<lparr>pending := pending q @ [t]\<rparr>)) context path)))"

text \<open>The synchronous prefix of a loop's first task returns: the loop's promise is assigned.\<close>

definition prefixReturns :: "writers \<Rightarrow> nat \<Rightarrow> writers" where
  "prefixReturns s t =
     (case find (\<lambda>l. current l = t \<and> starting l) (loops s) of
        None \<Rightarrow> s
      | Some l \<Rightarrow>
          (setQueue s (loopQueue l) ((queueAt s (loopQueue l))\<lparr>drainPromise := True\<rparr>))
            \<lparr>loops := map (\<lambda>k. if current k = t then k\<lparr>starting := False\<rparr> else k) (loops s)\<rparr>)"

text \<open>A task settles: its writer ends, its caller is answered, and the loop goes on or ends.\<close>

definition taskSettles :: "writers \<Rightarrow> nat \<Rightarrow> bool \<Rightarrow> writers" where
  "taskSettles s t ok =
     (case find (\<lambda>l. current l = t \<and> \<not> starting l) (loops s) of
        None \<Rightarrow> s
      | Some l \<Rightarrow>
          let s1 = s\<lparr>activeWriters := filter (\<lambda>w. fst w \<noteq> t) (activeWriters s), outcomes := outcomes s @ [(t, ok)]\<rparr>;
              q = queueAt s (loopQueue l)
          in case pending q of
               [] \<Rightarrow> finishDrain (s1\<lparr>loops := filter (\<lambda>k. current k \<noteq> t) (loops s)\<rparr>) (loopPath l) (loopQueue l)
             | n # ts \<Rightarrow>
                 (setQueue s1 (loopQueue l) (q\<lparr>pending := ts\<rparr>))
                   \<lparr>loops := map (\<lambda>k. if current k = t then k\<lparr>current := n\<rparr> else k) (loops s),
                    activeWriters := activeWriters s1 @ [(n, loopPath l)]\<rparr>)"

text \<open>What a running task has as its context: its own writer and that of the loop running it.\<close>

definition taskContext :: "writers \<Rightarrow> nat \<Rightarrow> nat list" where
  "taskContext s t = (case find (\<lambda>l. current l = t) (loops s) of Some l \<Rightarrow> t # loopContext l | None \<Rightarrow> [])"

datatype writer_event =
    WriteRequested "nat list" string bool nat
  | PrefixReturned nat
  | TaskSettled nat bool

fun writer_step :: "writers \<Rightarrow> writer_event \<Rightarrow> writers" where
  "writer_step s (WriteRequested context path reentrant t) = snd (runQueuedStoreWrite s context path reentrant t)"
| "writer_step s (PrefixReturned t) = prefixReturns s t"
| "writer_step s (TaskSettled t ok) = taskSettles s t ok"

text \<open>
  Two ways in which writes of one path overlap. A task that requests a write of its own path before
  its first \<^verbatim>\<open>await\<close> starts a second loop, since \<^verbatim>\<open>drainPromise\<close> is not assigned yet:
\<close>

lemma nested_prefix_write_overlaps:
  "map (\<lambda>l. (loopPath l, current l))
     (loops (foldl writer_step no_writers [WriteRequested [] ''p'' False 1, WriteRequested [1] ''p'' False 2])) =
   [(''p'', 1), (''p'', 2)]"
  by code_simp

text \<open>
  And a task queued by an unrelated caller behind a nested write runs in the context of the writer
  that nested it, so that its reentrant write of that writer's path is not queued.
\<close>

lemma foreign_context_runs_inline:
  "let s = foldl writer_step no_writers
         [WriteRequested [] ''a'' False 1, PrefixReturned 1, WriteRequested [1] ''b'' False 2, PrefixReturned 2,
          WriteRequested [] ''b'' False 3, TaskSettled 2 True]
   in map current (loops s) = [1, 3] \<and> fst (runQueuedStoreWrite s (taskContext s 3) ''a'' True 4) = RunsInline"
  by code_simp

section \<open>The specification\<close>

text \<open>
  What a path's queue promises: a FIFO of tasks whose head is the one running. A write is appended,
  unless it is reentrant and its caller runs inside the head; a task that settles leaves.
\<close>

type_synonym serial_queues = "string \<Rightarrow> nat list"

fun spec_step :: "serial_queues \<Rightarrow> writer_event \<Rightarrow> serial_queues" where
  "spec_step q (WriteRequested context path reentrant t) =
     (if path = [] \<or> reentrant \<and> q path \<noteq> [] \<and> hd (q path) \<in> set context then q
      else q(path := q path @ [t]))"
| "spec_step q (PrefixReturned t) = q"
| "spec_step q (TaskSettled t ok) = (\<lambda>p. if q p \<noteq> [] \<and> hd (q p) = t then tl (q p) else q p)"

text \<open>The queues of a state: the task of a path's loop and those waiting behind it.\<close>

definition tasksOf :: "writers \<Rightarrow> drain_loop \<Rightarrow> nat list" where
  "tasksOf s l = current l # pending (queueAt s (loopQueue l))"

definition serial_of :: "writers \<Rightarrow> serial_queues" where
  "serial_of s p = (case find (\<lambda>l. loopPath l = p) (loops s) of Some l \<Rightarrow> tasksOf s l | None \<Rightarrow> [])"

text \<open>
  Events that can happen: a queued write has a task of its own and is not requested from the
  synchronous prefix of a task of the same path; a prefix returns once, and then the task settles.
\<close>

definition possible_event :: "writers \<Rightarrow> writer_event \<Rightarrow> bool" where
  "possible_event s e =
     (case e of
        WriteRequested context path reentrant t \<Rightarrow>
          fst (runQueuedStoreWrite s context path reentrant t) \<noteq> WaitsInQueue \<or>
          list_all (\<lambda>l. t \<notin> set (tasksOf s l) \<and> \<not> (loopPath l = path \<and> starting l)) (loops s)
      | PrefixReturned t \<Rightarrow> list_ex (\<lambda>l. current l = t \<and> starting l) (loops s)
      | TaskSettled t ok \<Rightarrow> list_ex (\<lambda>l. current l = t \<and> \<not> starting l) (loops s))"

fun possible_run :: "writers \<Rightarrow> writer_event list \<Rightarrow> bool" where
  "possible_run s [] = True"
| "possible_run s (e # es) \<longleftrightarrow> possible_event s e \<and> possible_run (writer_step s e) es"

section \<open>Refinement\<close>

declare map_of_eq_Some_iff [simp del] Some_eq_map_of_iff [simp del]

definition writers_inv :: "writers \<Rightarrow> bool" where
  "writers_inv s \<longleftrightarrow>
     distinct (map loopPath (loops s)) \<and> distinct (map loopQueue (loops s)) \<and>
     (\<forall>p ref. jm_get (queueOf s) p = Some ref \<longleftrightarrow> (\<exists>l \<in> set (loops s). loopPath l = p \<and> loopQueue l = ref)) \<and>
     (\<forall>l \<in> set (loops s). loopQueue l < nextRef s \<and> drainPromise (queueAt s (loopQueue l)) = (\<not> starting l)) \<and>
     (\<forall>w p. (w, p) \<in> set (activeWriters s) \<longleftrightarrow> (\<exists>l \<in> set (loops s). current l = w \<and> loopPath l = p)) \<and>
     (\<forall>l \<in> set (loops s). distinct (tasksOf s l)) \<and>
     (\<forall>l \<in> set (loops s). \<forall>k \<in> set (loops s). l \<noteq> k \<longrightarrow> set (tasksOf s l) \<inter> set (tasksOf s k) = {})"

lemma writers_invD:
  assumes "writers_inv s"
  shows "distinct (map loopPath (loops s))" and "distinct (map loopQueue (loops s))"
    and "\<forall>p ref. jm_get (queueOf s) p = Some ref \<longleftrightarrow> (\<exists>l \<in> set (loops s). loopPath l = p \<and> loopQueue l = ref)"
    and "\<forall>l \<in> set (loops s). loopQueue l < nextRef s \<and> drainPromise (queueAt s (loopQueue l)) = (\<not> starting l)"
    and "\<forall>w p. (w, p) \<in> set (activeWriters s) \<longleftrightarrow> (\<exists>l \<in> set (loops s). current l = w \<and> loopPath l = p)"
    and "\<forall>l \<in> set (loops s). distinct (tasksOf s l)"
    and "\<forall>l \<in> set (loops s). \<forall>k \<in> set (loops s). l \<noteq> k \<longrightarrow> set (tasksOf s l) \<inter> set (tasksOf s k) = {}"
  using assms unfolding writers_inv_def by - (elim conjE, assumption)+

lemma one_loop:
  assumes "writers_inv s" and "l \<in> set (loops s)" and "k \<in> set (loops s)"
  shows "loopPath l = loopPath k \<Longrightarrow> l = k" and "loopQueue l = loopQueue k \<Longrightarrow> l = k"
  using writers_invD(1,2) [OF assms(1)] assms(2,3) by (auto simp: distinct_map dest: inj_onD)

lemma queue_of_loop:
  assumes "writers_inv s" and "l \<in> set (loops s)"
  shows "jm_get (queueOf s) (loopPath l) = Some (loopQueue l)"
    and "drainPromise (queueAt s (loopQueue l)) = (\<not> starting l)" and "loopQueue l < nextRef s"
  using writers_invD(3,4) [OF assms(1)] assms(2) by blast+

lemma queueAt_set [simp]: "queueAt (setQueue s ref q) ref' = (if ref' = ref then q else queueAt s ref')"
  by (simp add: queueAt_def setQueue_def)

lemma setQueue_fields [simp]:
  "queueOf (setQueue s ref q) = queueOf s" "nextRef (setQueue s ref q) = nextRef s"
  "loops (setQueue s ref q) = loops s" "activeWriters (setQueue s ref q) = activeWriters s"
  by (simp_all add: setQueue_def)

lemma queueAt_update [simp]:
  "queueAt (s\<lparr>queueOf := a\<rparr>) ref = queueAt s ref" "queueAt (s\<lparr>loops := b\<rparr>) ref = queueAt s ref"
  "queueAt (s\<lparr>activeWriters := c\<rparr>) ref = queueAt s ref" "queueAt (s\<lparr>outcomes := d\<rparr>) ref = queueAt s ref"
  "queueAt (s\<lparr>nextRef := e\<rparr>) ref = queueAt s ref"
  by (simp_all add: queueAt_def)

lemma find_loop:
  "distinct (map loopPath ls) \<Longrightarrow> l \<in> set ls \<Longrightarrow> find (\<lambda>k. loopPath k = loopPath l) ls = Some l"
  by (induction ls) (auto simp: image_iff)

lemma serial_loop: "writers_inv s \<Longrightarrow> l \<in> set (loops s) \<Longrightarrow> serial_of s (loopPath l) = tasksOf s l"
  by (simp add: serial_of_def writers_inv_def find_loop)

lemma serial_none: "serial_of s p = [] \<longleftrightarrow> (\<forall>l \<in> set (loops s). loopPath l \<noteq> p)"
  by (auto simp: serial_of_def tasksOf_def find_None_iff split: option.split dest: find_mem)

lemma serial_cases:
  obtains "serial_of s p = []" "\<forall>l \<in> set (loops s). loopPath l \<noteq> p"
  | l where "l \<in> set (loops s)" "loopPath l = p" "serial_of s p = tasksOf s l"
proof (cases "find (\<lambda>l. loopPath l = p) (loops s)")
  case (Some l)
  then have "l \<in> set (loops s) \<and> loopPath l = p" by (rule find_mem)
  with Some that(2) [of l] show ?thesis by (simp add: serial_of_def)
next
  case None
  then have "\<forall>l \<in> set (loops s). loopPath l \<noteq> p" by (auto simp: find_None_iff)
  with that(1) serial_none [of s p] show ?thesis by blast
qed

text \<open>What a write finds.\<close>

lemma writer_active:
  "writers_inv s \<Longrightarrow> isActiveStoreWriter s context p \<longleftrightarrow> serial_of s p \<noteq> [] \<and> hd (serial_of s p) \<in> set context"
proof -
  assume inv: "writers_inv s"
  note act = writers_invD(5) [OF inv]
  have "(\<exists>w \<in> set context. (w, p) \<in> set (activeWriters s)) \<longleftrightarrow>
      (\<exists>l \<in> set (loops s). loopPath l = p \<and> current l \<in> set context)"
    by (simp only: act) blast
  also have "\<dots> \<longleftrightarrow> serial_of s p \<noteq> [] \<and> hd (serial_of s p) \<in> set context"
  proof (cases rule: serial_cases [of s p])
    case 1
    then show ?thesis by auto
  next
    case (2 l)
    have "k = l" if "k \<in> set (loops s)" "loopPath k = p" for k
      using one_loop(1) [OF inv that(1) 2(1)] that(2) 2(2) by simp
    then have "(\<exists>k \<in> set (loops s). loopPath k = p \<and> current k \<in> set context) \<longleftrightarrow> current l \<in> set context"
      using 2(1,2) by blast
    then show ?thesis using 2(3) by (simp add: tasksOf_def)
  qed
  finally show ?thesis by (simp add: isActiveStoreWriter_def list_ex_iff)
qed

text \<open>The state after a queued write, behind a running loop and on an idle path.\<close>

lemma write_behind:
  assumes "writers_inv s" and "l \<in> set (loops s)" and "\<not> starting l" and "loopPath l \<noteq> []"
    and "\<not> (reentrant \<and> isActiveStoreWriter s context (loopPath l))"
  shows "runQueuedStoreWrite s context (loopPath l) reentrant t =
    (WaitsInQueue, setQueue s (loopQueue l)
       ((queueAt s (loopQueue l))\<lparr>pending := pending (queueAt s (loopQueue l)) @ [t]\<rparr>))"
proof -
  from queue_of_loop [OF assms(1,2)] assms(3-5) show ?thesis
    by (simp add: runQueuedStoreWrite_def getOrCreateStoreWriterQueue_def drainStoreWriterQueue_def Let_def)
qed

lemma write_idle:
  assumes "writers_inv s" and "\<forall>l \<in> set (loops s). loopPath l \<noteq> p" and "p \<noteq> []"
    and "\<not> (reentrant \<and> isActiveStoreWriter s context p)"
  shows "runQueuedStoreWrite s context p reentrant t =
    (WaitsInQueue,
     (setQueue (s\<lparr>queueOf := jm_set p (nextRef s) (queueOf s), nextRef := nextRef s + 1\<rparr>) (nextRef s)
        \<lparr>running = True, pending = [], drainPromise = False\<rparr>)
       \<lparr>loops := loops s @ [\<lparr>loopPath = p, loopQueue = nextRef s, loopContext = context, current = t, starting = True\<rparr>],
        activeWriters := activeWriters s @ [(t, p)]\<rparr>)"
proof -
  have "jm_get (queueOf s) p = None"
    using writers_invD(3) [OF assms(1)] assms(2) by (metis not_None_eq)
  with assms(3,4) show ?thesis
    by (simp add: runQueuedStoreWrite_def getOrCreateStoreWriterQueue_def drainStoreWriterQueue_def Let_def
        queueAt_def setQueue_def)
qed

lemma serial_eqI:
  assumes "distinct (map loopPath (loops s))"
    and "\<And>l. l \<in> set (loops s) \<Longrightarrow> q (loopPath l) = tasksOf s l"
    and "\<And>p. \<forall>l \<in> set (loops s). loopPath l \<noteq> p \<Longrightarrow> q p = []"
  shows "serial_of s = q"
proof
  fix p
  show "serial_of s p = q p"
  proof (cases rule: serial_cases [of s p])
    case 1
    then show ?thesis using assms(3) by simp
  next
    case (2 l)
    then show ?thesis using assms(2) [of l] by simp
  qed
qed

text \<open>A queued write refines the append.\<close>

lemma tasksOf_push:
  "tasksOf (setQueue s ref q) l = (if loopQueue l = ref then current l # pending q else tasksOf s l)"
  by (simp add: tasksOf_def)

lemma write_behind_refines:
  assumes inv: "writers_inv s" and l: "l \<in> set (loops s)" and fresh: "\<forall>k \<in> set (loops s). t \<notin> set (tasksOf s k)"
  defines "s' \<equiv> setQueue s (loopQueue l) ((queueAt s (loopQueue l))\<lparr>pending := pending (queueAt s (loopQueue l)) @ [t]\<rparr>)"
  shows "writers_inv s'" and "serial_of s' = (serial_of s)(loopPath l := serial_of s (loopPath l) @ [t])"
proof -
  have tasks: "tasksOf s' k = (if k = l then tasksOf s l @ [t] else tasksOf s k)" if "k \<in> set (loops s)" for k
    using one_loop(2) [OF inv that l] by (auto simp: s'_def tasksOf_push tasksOf_def)
  have loops: "loops s' = loops s" by (simp add: s'_def)
  show "writers_inv s'"
    unfolding writers_inv_def loops
  proof (intro conjI ballI impI)
    fix k assume k: "k \<in> set (loops s)"
    show "loopQueue k < nextRef s'" "drainPromise (queueAt s' (loopQueue k)) = (\<not> starting k)"
      using queue_of_loop [OF inv k] queue_of_loop [OF inv l] by (auto simp: s'_def)
    show "distinct (tasksOf s' k)"
      using k l fresh writers_invD(6) [OF inv] by (simp add: tasks)
    fix j assume j: "j \<in> set (loops s)" "k \<noteq> j"
    have "set (tasksOf s k) \<inter> set (tasksOf s j) = {}"
      using writers_invD(7) [OF inv] k j by blast
    then show "set (tasksOf s' k) \<inter> set (tasksOf s' j) = {}"
      using k j fresh by (auto simp: tasks)
  next
    show "\<forall>p ref. jm_get (queueOf s') p = Some ref \<longleftrightarrow> (\<exists>l \<in> set (loops s). loopPath l = p \<and> loopQueue l = ref)"
      using writers_invD(3) [OF inv] by (simp add: s'_def)
    show "\<forall>w p. (w, p) \<in> set (activeWriters s') \<longleftrightarrow> (\<exists>l \<in> set (loops s). current l = w \<and> loopPath l = p)"
      using writers_invD(5) [OF inv] by (simp add: s'_def)
  qed (use writers_invD(1,2) [OF inv] in simp_all)
  show "serial_of s' = (serial_of s)(loopPath l := serial_of s (loopPath l) @ [t])"
  proof (rule serial_eqI)
    fix k assume "k \<in> set (loops s')"
    then have k: "k \<in> set (loops s)" by (simp add: loops)
    then show "((serial_of s)(loopPath l := serial_of s (loopPath l) @ [t])) (loopPath k) = tasksOf s' k"
      using one_loop(1) [OF inv k l] by (auto simp: serial_loop [OF inv] l tasks)
  next
    fix p assume "\<forall>k \<in> set (loops s'). loopPath k \<noteq> p"
    then show "((serial_of s)(loopPath l := serial_of s (loopPath l) @ [t])) p = []"
      using l by (auto simp: loops serial_none)
  qed (use writers_invD(1) [OF inv] in \<open>simp add: loops\<close>)
qed

lemma write_idle_refines:
  assumes inv: "writers_inv s" and idle: "\<forall>l \<in> set (loops s). loopPath l \<noteq> p"
    and fresh: "\<forall>k \<in> set (loops s). t \<notin> set (tasksOf s k)"
    and n_def: "n = \<lparr>loopPath = p, loopQueue = nextRef s, loopContext = context, current = t, starting = True\<rparr>"
  defines "s' \<equiv> (setQueue (s\<lparr>queueOf := jm_set p (nextRef s) (queueOf s), nextRef := nextRef s + 1\<rparr>) (nextRef s)
        \<lparr>running = True, pending = [], drainPromise = False\<rparr>)
       \<lparr>loops := loops s @ [n], activeWriters := activeWriters s @ [(t, p)]\<rparr>"
  shows "writers_inv s'" and "serial_of s' = (serial_of s)(p := serial_of s p @ [t])"
proof -
  have tasks: "tasksOf s' k = tasksOf s k" if "k \<in> set (loops s)" for k
    using queue_of_loop(3) [OF inv that] by (simp add: s'_def tasksOf_def)
  have new: "tasksOf s' n = [t]" by (simp add: s'_def tasksOf_def n_def)
  have fields: "loops s' = loops s @ [n]" "nextRef s' = nextRef s + 1" by (simp_all add: s'_def)
  show "writers_inv s'"
    unfolding writers_inv_def
  proof (intro conjI ballI impI)
    show "distinct (map loopPath (loops s'))"
      using writers_invD(1) [OF inv] idle by (auto simp: fields n_def)
    show "distinct (map loopQueue (loops s'))"
      using writers_invD(2) [OF inv] queue_of_loop(3) [OF inv] by (fastforce simp: fields n_def)
    show "\<forall>p' ref. jm_get (queueOf s') p' = Some ref \<longleftrightarrow> (\<exists>l \<in> set (loops s'). loopPath l = p' \<and> loopQueue l = ref)"
      using writers_invD(3) [OF inv] idle by (auto simp: s'_def n_def)
    show "\<forall>w p'. (w, p') \<in> set (activeWriters s') \<longleftrightarrow> (\<exists>l \<in> set (loops s'). current l = w \<and> loopPath l = p')"
      using writers_invD(5) [OF inv] by (auto simp: s'_def n_def)
  next
    fix k assume "k \<in> set (loops s')"
    then consider "k = n" | "k \<in> set (loops s)" by (auto simp: fields)
    note k = this
    show "loopQueue k < nextRef s'" "drainPromise (queueAt s' (loopQueue k)) = (\<not> starting k)"
    proof (atomize (full), use k in cases)
      case 1
      then show "loopQueue k < nextRef s' \<and> drainPromise (queueAt s' (loopQueue k)) = (\<not> starting k)"
        by (simp add: s'_def n_def)
    next
      case 2
      with queue_of_loop(2,3) [OF inv 2] show "loopQueue k < nextRef s' \<and> drainPromise (queueAt s' (loopQueue k)) = (\<not> starting k)"
        by (simp add: s'_def)
    qed
    show "distinct (tasksOf s' k)"
      using k by cases (use writers_invD(6) [OF inv] in \<open>simp_all add: new tasks\<close>)
    fix j assume j: "j \<in> set (loops s')" "k \<noteq> j"
    then consider "k = n" "j \<in> set (loops s)" | "k \<in> set (loops s)" "j = n" | "k \<in> set (loops s)" "j \<in> set (loops s)"
      using k by (auto simp: fields)
    then show "set (tasksOf s' k) \<inter> set (tasksOf s' j) = {}"
    proof cases
      case 3
      then have "set (tasksOf s k) \<inter> set (tasksOf s j) = {}" using writers_invD(7) [OF inv] j by blast
      with 3 show ?thesis by (simp add: tasks)
    qed (use fresh in \<open>simp_all add: new tasks\<close>)
  qed
  then have dist: "distinct (map loopPath (loops s'))" by (rule writers_invD(1))
  have "serial_of s p = []" using idle by (simp add: serial_none)
  show "serial_of s' = (serial_of s)(p := serial_of s p @ [t])"
  proof (rule serial_eqI [OF dist])
    fix k assume "k \<in> set (loops s')"
    then show "((serial_of s)(p := serial_of s p @ [t])) (loopPath k) = tasksOf s' k"
      using idle \<open>serial_of s p = []\<close> new by (auto simp: fields tasks serial_loop [OF inv]) (simp_all add: n_def)
  next
    fix p' assume "\<forall>k \<in> set (loops s'). loopPath k \<noteq> p'"
    then show "((serial_of s)(p := serial_of s p @ [t])) p' = []"
      by (auto simp: fields serial_none) (simp add: n_def)
  qed
qed

text \<open>A step that only rewrites loops in place, each keeping a suffix of its tasks.\<close>

lemma mapped_loops_refine:
  assumes inv: "writers_inv s" and ls: "loops s' = map f (loops s)"
    and same: "\<And>k. k \<in> set (loops s) \<Longrightarrow> loopPath (f k) = loopPath k \<and> loopQueue (f k) = loopQueue k"
    and fields: "queueOf s' = queueOf s" "nextRef s' = nextRef s"
    and promise: "\<And>k. k \<in> set (loops s) \<Longrightarrow> drainPromise (queueAt s' (loopQueue k)) = (\<not> starting (f k))"
    and active: "\<forall>w p. (w, p) \<in> set (activeWriters s') \<longleftrightarrow> (\<exists>k \<in> set (loops s). current (f k) = w \<and> loopPath k = p)"
    and tasks: "\<And>k. k \<in> set (loops s) \<Longrightarrow> tasksOf s' (f k) = r k" "\<And>k. k \<in> set (loops s) \<Longrightarrow> suffix (r k) (tasksOf s k)"
    and q: "\<And>k. k \<in> set (loops s) \<Longrightarrow> q (loopPath k) = r k"
      "\<And>p. \<forall>k \<in> set (loops s). loopPath k \<noteq> p \<Longrightarrow> q p = []"
  shows "writers_inv s' \<and> serial_of s' = q"
proof -
  have paths: "map loopPath (loops s') = map loopPath (loops s)" "map loopQueue (loops s') = map loopQueue (loops s)"
    using same by (simp_all add: ls)
  have sub: "set (r k) \<subseteq> set (tasksOf s k)" "distinct (tasksOf s k) \<Longrightarrow> distinct (r k)" if "k \<in> set (loops s)" for k
    using tasks(2) [OF that] by (auto simp: suffix_def)
  have "writers_inv s'"
    unfolding writers_inv_def paths
  proof (intro conjI ballI impI)
    show "\<forall>p ref. jm_get (queueOf s') p = Some ref \<longleftrightarrow> (\<exists>l \<in> set (loops s'). loopPath l = p \<and> loopQueue l = ref)"
      using writers_invD(3) [OF inv] same by (simp add: fields ls)
    show "\<forall>w p. (w, p) \<in> set (activeWriters s') \<longleftrightarrow> (\<exists>l \<in> set (loops s'). current l = w \<and> loopPath l = p)"
      using active same by (simp add: ls)
  next
    fix k' assume "k' \<in> set (loops s')"
    then obtain k where k: "k \<in> set (loops s)" "k' = f k" by (auto simp: ls)
    show "loopQueue k' < nextRef s'" "drainPromise (queueAt s' (loopQueue k')) = (\<not> starting k')"
      using k same promise queue_of_loop(3) [OF inv k(1)] by (simp_all add: fields)
    show "distinct (tasksOf s' k')"
      using k sub(2) writers_invD(6) [OF inv] by (simp add: tasks)
    fix j' assume "j' \<in> set (loops s')" "k' \<noteq> j'"
    then obtain j where j: "j \<in> set (loops s)" "j' = f j" "k \<noteq> j" using k(2) by (auto simp: ls)
    have "set (tasksOf s k) \<inter> set (tasksOf s j) = {}"
      using writers_invD(7) [OF inv] k(1) j(1,3) by blast
    with sub(1) [OF k(1)] sub(1) [OF j(1)] show "set (tasksOf s' k') \<inter> set (tasksOf s' j') = {}"
      using k j by (simp add: tasks) blast
  qed (use writers_invD(1,2) [OF inv] in simp_all)
  moreover from this have "serial_of s' = q"
  proof (rule serial_eqI [OF writers_invD(1)])
    show "q (loopPath l) = tasksOf s' l" if "l \<in> set (loops s')" for l
      using that same q(1) tasks(1) by (auto simp: ls)
    show "q p = []" if "\<forall>l \<in> set (loops s'). loopPath l \<noteq> p" for p
      using that same by (intro q(2)) (auto simp: ls)
  qed
  ultimately show ?thesis ..
qed

lemma one_current:
  assumes "writers_inv s" and "l \<in> set (loops s)" and "k \<in> set (loops s)" and "current k = current l"
  shows "k = l"
proof (rule ccontr)
  assume "k \<noteq> l"
  then have "set (tasksOf s k) \<inter> set (tasksOf s l) = {}" using writers_invD(7) [OF assms(1)] assms(2,3) by blast
  then show False using assms(4) by (auto simp: tasksOf_def)
qed

lemma prefix_refines:
  assumes inv: "writers_inv s" and l: "l \<in> set (loops s)" "current l = t" "starting l"
  shows "writers_inv (prefixReturns s t) \<and> serial_of (prefixReturns s t) = serial_of s"
proof -
  let ?f = "\<lambda>k. if current k = t then k\<lparr>starting := False\<rparr> else k"
  have one: "current k = t \<longleftrightarrow> k = l" if "k \<in> set (loops s)" for k
    using one_current [OF inv l(1) that] l(2) by auto
  have "find (\<lambda>l. current l = t \<and> starting l) (loops s) = Some l"
  proof (cases "find (\<lambda>l. current l = t \<and> starting l) (loops s)")
    case None
    then show ?thesis using l by (auto simp: find_None_iff)
  next
    case (Some k)
    then show ?thesis using find_mem [OF Some] one by auto
  qed
  then have eq: "prefixReturns s t = (setQueue s (loopQueue l) ((queueAt s (loopQueue l))\<lparr>drainPromise := True\<rparr>))\<lparr>loops := map ?f (loops s)\<rparr>"
    by (simp add: prefixReturns_def)
  show ?thesis
  proof (rule mapped_loops_refine [OF inv, where f = ?f and r = "tasksOf s"], goal_cases)
    case (5 k)
    have "loopQueue k = loopQueue l \<longleftrightarrow> k = l" using one_loop(2) [OF inv 5 l(1)] by blast
    with queue_of_loop(2) [OF inv 5] one [OF 5] show ?case by (simp add: eq)
  next
    case 6
    have f: "current (?f k) = current k" for k by simp
    have a: "activeWriters (prefixReturns s t) = activeWriters s" by (simp add: eq)
    show ?case unfolding f a by (rule writers_invD(5) [OF inv])
  next
    case (7 k)
    then show ?case by (simp add: eq tasksOf_def)
  next
    case (9 k)
    then show ?case by (simp add: serial_loop [OF inv])
  next
    case (10 p)
    then show ?case by (simp add: serial_none)
  qed (simp_all add: eq)
qed

lemma settle_refines:
  assumes inv: "writers_inv s" and l: "l \<in> set (loops s)" "current l = t" "\<not> starting l"
  shows "writers_inv (taskSettles s t ok) \<and> serial_of (taskSettles s t ok) = spec_step (serial_of s) (TaskSettled t ok)"
proof -
  let ?q = "queueAt s (loopQueue l)"
  have one: "current k = t \<longleftrightarrow> k = l" if "k \<in> set (loops s)" for k
    using one_current [OF inv l(1) that] l(2) by auto
  have found: "find (\<lambda>l. current l = t \<and> \<not> starting l) (loops s) = Some l"
  proof (cases "find (\<lambda>l. current l = t \<and> \<not> starting l) (loops s)")
    case None
    then show ?thesis using l by (auto simp: find_None_iff)
  next
    case (Some k)
    then show ?thesis using find_mem [OF Some] one by auto
  qed
  have spec: "spec_step (serial_of s) (TaskSettled t ok) (loopPath k) =
      (if k = l then pending ?q else tasksOf s k)" if "k \<in> set (loops s)" for k
    using one [OF that] that by (auto simp: serial_loop [OF inv] tasksOf_def)
  have spec0: "spec_step (serial_of s) (TaskSettled t ok) p = []" if "\<forall>k \<in> set (loops s). loopPath k \<noteq> p" for p
    using that by (simp add: serial_none)
  show ?thesis
  proof (cases "pending ?q")
    case (Cons n ts)
    let ?f = "\<lambda>k. if current k = t then k\<lparr>current := n\<rparr> else k"
    have eq: "taskSettles s t ok =
        (setQueue (s\<lparr>activeWriters := filter (\<lambda>w. fst w \<noteq> t) (activeWriters s), outcomes := outcomes s @ [(t, ok)]\<rparr>)
           (loopQueue l) (?q\<lparr>pending := ts\<rparr>))
          \<lparr>loops := map ?f (loops s),
           activeWriters := filter (\<lambda>w. fst w \<noteq> t) (activeWriters s) @ [(n, loopPath l)]\<rparr>"
      using found Cons by (simp add: taskSettles_def Let_def)
    show ?thesis
    proof (rule mapped_loops_refine [OF inv, where f = ?f and r = "\<lambda>k. if k = l then pending ?q else tasksOf s k"], goal_cases)
      case (5 k)
      have "loopQueue k = loopQueue l \<longleftrightarrow> k = l" using one_loop(2) [OF inv 5 l(1)] by blast
      with queue_of_loop(2) [OF inv 5] queue_of_loop(2) [OF inv l(1)] one [OF 5] l(3) show ?case by (simp add: eq)
    next
      case 6
      have "(w, p) \<in> set (activeWriters (taskSettles s t ok)) \<longleftrightarrow>
          (w, p) \<in> set (activeWriters s) \<and> w \<noteq> t \<or> (w, p) = (n, loopPath l)" for w p
        by (auto simp: eq)
      moreover have "(\<exists>k \<in> set (loops s). current (?f k) = w \<and> loopPath k = p) \<longleftrightarrow>
          (\<exists>k \<in> set (loops s). current k = w \<and> loopPath k = p) \<and> w \<noteq> t \<or> (w, p) = (n, loopPath l)" for w p
        using one l(1) by (auto split: if_splits)
      ultimately show ?case using writers_invD(5) [OF inv] by simp
    next
      case (7 k)
      have "loopQueue k = loopQueue l \<longleftrightarrow> k = l" using one_loop(2) [OF inv 7 l(1)] by blast
      with one [OF 7] Cons show ?case by (auto simp: eq tasksOf_def)
    next
      case (8 k)
      then show ?case by (simp add: tasksOf_def suffix_def)
    qed (use spec spec0 in \<open>simp_all add: eq\<close>)
  next
    case Nil
    let ?s = "taskSettles s t ok"
    have eq: "?s = finishDrain (s\<lparr>activeWriters := filter (\<lambda>w. fst w \<noteq> t) (activeWriters s),
          outcomes := outcomes s @ [(t, ok)], loops := filter (\<lambda>k. current k \<noteq> t) (loops s)\<rparr>) (loopPath l) (loopQueue l)"
      using found Nil by (simp add: taskSettles_def Let_def)
    have ls: "k \<in> set (loops ?s) \<longleftrightarrow> k \<in> set (loops s) \<and> k \<noteq> l" for k
      using one by (auto simp: eq finishDrain_def)
    have other: "loopQueue k \<noteq> loopQueue l" "loopPath k \<noteq> loopPath l" if "k \<in> set (loops ?s)" for k
      using one_loop [OF inv _ l(1), of k] that ls by auto
    have queue: "queueAt ?s (loopQueue k) = queueAt s (loopQueue k)" if "k \<in> set (loops ?s)" for k
      using other [OF that] by (simp add: eq finishDrain_def)
    have tasks: "tasksOf ?s k = tasksOf s k" if "k \<in> set (loops ?s)" for k
      using queue [OF that] by (simp add: tasksOf_def)
    have "writers_inv ?s"
      unfolding writers_inv_def
    proof (intro conjI ballI impI)
      show "distinct (map loopPath (loops ?s))" "distinct (map loopQueue (loops ?s))"
        using writers_invD(1,2) [OF inv] by (simp_all add: eq finishDrain_def distinct_map_filter)
      have "jm_get (queueOf ?s) p = Some ref \<longleftrightarrow> p \<noteq> loopPath l \<and> jm_get (queueOf s) p = Some ref" for p ref
        by (simp add: eq finishDrain_def)
      moreover have "(\<exists>k \<in> set (loops ?s). loopPath k = p \<and> loopQueue k = ref) \<longleftrightarrow>
          p \<noteq> loopPath l \<and> (\<exists>k \<in> set (loops s). loopPath k = p \<and> loopQueue k = ref)" for p ref
        using ls other by blast
      ultimately show "\<forall>p ref. jm_get (queueOf ?s) p = Some ref \<longleftrightarrow> (\<exists>k \<in> set (loops ?s). loopPath k = p \<and> loopQueue k = ref)"
        using writers_invD(3) [OF inv] by simp
      have "(w, p) \<in> set (activeWriters ?s) \<longleftrightarrow> (w, p) \<in> set (activeWriters s) \<and> w \<noteq> t" for w p
        by (auto simp: eq finishDrain_def)
      moreover have "(\<exists>k \<in> set (loops ?s). current k = w \<and> loopPath k = p) \<longleftrightarrow>
          (\<exists>k \<in> set (loops s). current k = w \<and> loopPath k = p) \<and> w \<noteq> t" for w p
        using ls one l by blast
      ultimately show "\<forall>w p. (w, p) \<in> set (activeWriters ?s) \<longleftrightarrow> (\<exists>k \<in> set (loops ?s). current k = w \<and> loopPath k = p)"
        using writers_invD(5) [OF inv] by simp
    next
      fix k assume k: "k \<in> set (loops ?s)"
      then have k': "k \<in> set (loops s)" by (simp add: ls)
      have "nextRef ?s = nextRef s" by (simp add: eq finishDrain_def)
      with queue [OF k] queue_of_loop(2,3) [OF inv k']
      show "loopQueue k < nextRef ?s" "drainPromise (queueAt ?s (loopQueue k)) = (\<not> starting k)" by simp_all
      show "distinct (tasksOf ?s k)" using writers_invD(6) [OF inv] k k' by (simp add: tasks)
      fix j assume j: "j \<in> set (loops ?s)" "k \<noteq> j"
      then show "set (tasksOf ?s k) \<inter> set (tasksOf ?s j) = {}"
        using writers_invD(7) [OF inv] k k' ls by (simp add: tasks)
    qed
    moreover from this have "serial_of ?s = spec_step (serial_of s) (TaskSettled t ok)"
    proof (rule serial_eqI [OF writers_invD(1)])
      fix k assume "k \<in> set (loops ?s)"
      then show "spec_step (serial_of s) (TaskSettled t ok) (loopPath k) = tasksOf ?s k"
        using spec ls tasks by simp
    next
      fix p assume none: "\<forall>k \<in> set (loops ?s). loopPath k \<noteq> p"
      show "spec_step (serial_of s) (TaskSettled t ok) p = []"
      proof (cases "p = loopPath l")
        case True
        then show ?thesis using spec [OF l(1)] Nil by simp
      next
        case False
        then show ?thesis using none ls spec0 by blast
      qed
    qed
    ultimately show ?thesis ..
  qed
qed

lemma step_refines:
  assumes inv: "writers_inv s" and ok: "possible_event s e"
  shows "writers_inv (writer_step s e) \<and> serial_of (writer_step s e) = spec_step (serial_of s) e"
proof (cases e)
  case (WriteRequested ctx p reentrant t)
  show ?thesis
  proof (cases "p = [] \<or> reentrant \<and> isActiveStoreWriter s ctx p")
    case True
    then show ?thesis using inv
      by (auto simp: WriteRequested runQueuedStoreWrite_def writer_active [OF inv])
  next
    case False
    then have waits: "fst (runQueuedStoreWrite s ctx p reentrant t) = WaitsInQueue"
      by (auto simp: runQueuedStoreWrite_def Let_def split: prod.split)
    with ok have fresh: "\<forall>k \<in> set (loops s). t \<notin> set (tasksOf s k)"
      and quiet: "\<forall>l \<in> set (loops s). loopPath l = p \<longrightarrow> \<not> starting l"
      by (auto simp: WriteRequested possible_event_def list_all_iff)
    have spec: "spec_step (serial_of s) e = (serial_of s)(p := serial_of s p @ [t])"
      using False by (auto simp: WriteRequested writer_active [OF inv])
    show ?thesis
    proof (cases rule: serial_cases [of s p])
      case 1
      from write_idle_refines [OF inv 1(2) fresh refl] write_idle [OF inv 1(2)] False show ?thesis
        by (simp add: spec) (simp add: WriteRequested)
    next
      case (2 l)
      from write_behind_refines [OF inv 2(1) fresh] write_behind [OF inv 2(1)] quiet 2(1,2) False show ?thesis
        by (simp add: spec) (simp add: WriteRequested)
    qed
  qed
next
  case (PrefixReturned t)
  with ok obtain l where "l \<in> set (loops s)" "current l = t" "starting l"
    by (auto simp: possible_event_def list_ex_iff)
  from prefix_refines [OF inv this] show ?thesis by (simp add: PrefixReturned)
next
  case (TaskSettled t ok')
  with ok obtain l where "l \<in> set (loops s)" "current l = t" "\<not> starting l"
    by (auto simp: possible_event_def list_ex_iff)
  from settle_refines [OF inv this] show ?thesis by (simp add: TaskSettled)
qed

lemma run_refines:
  "writers_inv s \<Longrightarrow> possible_run s es \<Longrightarrow>
     writers_inv (foldl writer_step s es) \<and> serial_of (foldl writer_step s es) = foldl spec_step (serial_of s) es"
proof (induction es arbitrary: s)
  case (Cons e es)
  then have "possible_event s e" "possible_run (writer_step s e) es" by simp_all
  with step_refines [OF Cons.prems(1)] Cons.IH [of "writer_step s e"] show ?case by simp
qed simp

text \<open>
  C31. The writer queues implement one FIFO per path: over every possible history of write
  requests from any callers, of tasks starting and of tasks succeeding or failing, the loops and
  pending lists are at each moment exactly the queues of the specification, whose only running task
  of a path is its oldest. So writes of one path never overlap, run in the order of their requests
  and none is lost, provided no task requests a queued write of its own path before its first
  suspension.
\<close>

theorem store_writers_refine_fifo:
  assumes "possible_run no_writers es"
  shows "serial_of (foldl writer_step no_writers es) = foldl spec_step (\<lambda>_. []) es \<and>
    distinct (map loopPath (loops (foldl writer_step no_writers es)))"
proof -
  have "writers_inv no_writers" by (simp add: writers_inv_def no_writers_def)
  moreover have "serial_of no_writers = (\<lambda>_. [])" by (simp add: serial_of_def no_writers_def fun_eq_iff)
  ultimately show ?thesis using run_refines [OF _ assms] writers_invD(1) by auto
qed

definition sample_writes :: "writer_event list" where
  "sample_writes = [WriteRequested [] ''p'' False 1, PrefixReturned 1, WriteRequested [1] ''q'' False 2,
     WriteRequested [] ''p'' True 3, PrefixReturned 2, WriteRequested [1] ''p'' True 4, TaskSettled 2 False,
     TaskSettled 1 True]"

lemma store_writers_refine_fifo_witness:
  "serial_of (foldl writer_step no_writers sample_writes) ''p'' = [3]"
proof -
  have "possible_run no_writers sample_writes" by code_simp
  from store_writers_refine_fifo [OF this] show ?thesis by (simp add: sample_writes_def)
qed

end
