(* ===== verification/AuthProfileUsage.thy ===== *)
theory AuthProfileUsage
  imports StringCoerce
begin

text \<open>
  \<^verbatim>\<open>src/agents/auth-profiles/usage-state.ts\<close> and the state transitions of \<^verbatim>\<open>usage.ts\<close>: cooldown,
  block and disable windows of the credentials the agents rotate through. A recorded number is a
  finite one (it comes from JSON) and an exact rational; \<open>None\<close> is \<^verbatim>\<open>undefined\<close>. An updater
  is the function the store lock runs on a fresh store; the HTTP answer of the WHAM usage probe is
  an argument. The reference fields of a credential, whose shapes another module parses, are
  represented by whether they hold a reference.
\<close>

section \<open>State\<close>

datatype failure_reason =
    AuthFailure | AuthPermanent | Format | Overloaded | RateLimit | Billing | TimeoutFailure | ModelNotFound
  | SessionExpired | EmptyResponse | NoErrorDetails | Unclassified | UnknownFailure

record usage_stats =
  lastUsed :: "rat option"
  blockedUntil :: "rat option"
  blockedReason :: "string option"
  blockedSource :: "string option"
  blockedModel :: "string option"
  cooldownUntil :: "rat option"
  cooldownReason :: "failure_reason option"
  cooldownModel :: "string option"
  disabledUntil :: "rat option"
  disabledReason :: "failure_reason option"
  errorCount :: "int option"
  failureCounts :: "(failure_reason, int) jsmap option"
  lastFailureAt :: "rat option"

definition no_stats :: usage_stats where
  "no_stats = \<lparr>lastUsed = None, blockedUntil = None, blockedReason = None, blockedSource = None, blockedModel = None,
     cooldownUntil = None, cooldownReason = None, cooldownModel = None, disabledUntil = None,
     disabledReason = None, errorCount = None, failureCounts = None, lastFailureAt = None\<rparr>"

datatype credential =
    ApiKey (credProvider: string) (credKey: "string option") (credKeyRef: bool)
  | Token (credProvider: string) (credToken: "string option") (credTokenRef: bool) (credExpires: "jsval option")
  | OAuth (credProvider: string) (credAccess: "string option") (credRefresh: "string option") (credOauthRef: bool)
      (credExpires: "jsval option") (credAccountId: "string option")

record auth_store =
  profiles :: "(string, credential) jsmap"
  order :: "(string, string list) jsmap option"
  lastGood :: "(string, string) jsmap option"
  usageStats :: "(string, usage_stats) jsmap option"

definition opt_num :: "rat option \<Rightarrow> jsval" where
  "opt_num v = (case v of Some q \<Rightarrow> VNum (JFin q) | None \<Rightarrow> VOther)"

definition statsOf :: "auth_store \<Rightarrow> string \<Rightarrow> usage_stats option" where
  "statsOf store profileId = (case usageStats store of Some m \<Rightarrow> jm_get m profileId | None \<Rightarrow> None)"

section \<open>Windows\<close>

definition normalizeProviderId :: "string \<Rightarrow> string" where
  "normalizeProviderId provider = normalizeLowercaseStringOrEmpty (VStr provider)"

definition isAuthCooldownBypassedForProvider :: "string option \<Rightarrow> bool" where
  "isAuthCooldownBypassedForProvider provider \<longleftrightarrow>
     normalizeProviderId (case provider of Some p \<Rightarrow> p | None \<Rightarrow> []) \<in> {''openrouter'', ''kilocode''}"

definition isModelScopedCooldownReason :: "failure_reason option \<Rightarrow> bool" where
  "isModelScopedCooldownReason reason \<longleftrightarrow> reason = Some RateLimit \<or> reason = Some TimeoutFailure"

definition resolveProfileUnusableUntil :: "usage_stats \<Rightarrow> rat option" where
  "resolveProfileUnusableUntil stats =
     (let vs = filter (\<lambda>v. v > 0)
            (concat (map (\<lambda>v. case asDateTimestampMs (opt_num v) of Some t \<Rightarrow> [t] | None \<Rightarrow> [])
               [blockedUntil stats, cooldownUntil stats, disabledUntil stats]))
      in case vs of [] \<Rightarrow> None | t # ts \<Rightarrow> Some (foldl max t ts))"

definition isActiveUnusableWindow :: "rat option \<Rightarrow> rat \<Rightarrow> bool" where
  "isActiveUnusableWindow until now =
     (case asDateTimestampMs (opt_num until) of Some t \<Rightarrow> t > 0 \<and> now < t | None \<Rightarrow> False)"

definition truthy :: "string option \<Rightarrow> bool" where
  "truthy s \<longleftrightarrow> s \<noteq> None \<and> s \<noteq> Some []"

definition shouldBypassModelScopedCooldown :: "usage_stats \<Rightarrow> rat \<Rightarrow> string option \<Rightarrow> bool" where
  "shouldBypassModelScopedCooldown stats now forModel \<longleftrightarrow>
     truthy forModel \<and> isModelScopedCooldownReason (cooldownReason stats) \<and>
     truthy (cooldownModel stats) \<and> cooldownModel stats \<noteq> forModel \<and>
     \<not> isActiveUnusableWindow (blockedUntil stats) now \<and> \<not> isActiveUnusableWindow (disabledUntil stats) now"

definition statsInCooldown :: "usage_stats \<Rightarrow> rat \<Rightarrow> string option \<Rightarrow> bool" where
  "statsInCooldown stats ts forModel =
     (if shouldBypassModelScopedCooldown stats ts forModel then False
      else case resolveProfileUnusableUntil stats of Some u \<Rightarrow> ts < u | None \<Rightarrow> False)"

definition isProfileInCooldown :: "auth_store \<Rightarrow> string \<Rightarrow> rat \<Rightarrow> string option \<Rightarrow> bool" where
  "isProfileInCooldown store profileId ts forModel =
     (if isAuthCooldownBypassedForProvider (map_option credProvider (jm_get (profiles store) profileId)) then False
      else case statsOf store profileId of None \<Rightarrow> False | Some stats \<Rightarrow> statsInCooldown stats ts forModel)"

text \<open>The scan for the soonest expiry: its two running minima and maxima.\<close>

definition soonestStep ::
    "auth_store \<Rightarrow> rat \<Rightarrow> string option \<Rightarrow> rat option \<times> rat option \<Rightarrow> string \<Rightarrow> rat option \<times> rat option" where
  "soonestStep store ts forModel acc profileId =
     (case (acc, statsOf store profileId) of
        ((soonest, matching), Some stats) \<Rightarrow>
          if shouldBypassModelScopedCooldown stats ts forModel then acc
          else
            (case resolveProfileUnusableUntil stats of
               None \<Rightarrow> acc
             | Some until \<Rightarrow>
                 if truthy forModel \<and> cooldownReason stats = Some RateLimit \<and> cooldownModel stats = forModel \<and>
                    \<not> isActiveUnusableWindow (blockedUntil stats) ts \<and> \<not> isActiveUnusableWindow (disabledUntil stats) ts
                 then (soonest, Some (case matching of None \<Rightarrow> until | Some m \<Rightarrow> max m until))
                 else (Some (case soonest of None \<Rightarrow> until | Some s \<Rightarrow> min s until), matching))
      | (_, None) \<Rightarrow> acc)"

definition getSoonestCooldownExpiry :: "auth_store \<Rightarrow> string list \<Rightarrow> rat \<Rightarrow> string option \<Rightarrow> rat option" where
  "getSoonestCooldownExpiry store ids ts forModel =
     (case foldl (soonestStep store ts forModel) (None, None) ids of
        (None, matching) \<Rightarrow> matching
      | (Some s, None) \<Rightarrow> Some s
      | (Some s, Some m) \<Rightarrow> Some (min s m))"

section \<open>Clearing expired windows\<close>

definition window_expired :: "rat option \<Rightarrow> rat \<Rightarrow> bool" where
  "window_expired until ts = (case until of Some u \<Rightarrow> u > 0 \<and> ts \<ge> u | None \<Rightarrow> False)"

definition clearExpiredStats :: "usage_stats \<Rightarrow> rat \<Rightarrow> bool \<times> usage_stats" where
  "clearExpiredStats stats ts =
     (let cooldownExpired = window_expired (cooldownUntil stats) ts;
          blockedExpired = window_expired (blockedUntil stats) ts;
          disabledExpired = window_expired (disabledUntil stats) ts;
          s1 = (if cooldownExpired
                then stats\<lparr>cooldownUntil := None, cooldownReason := None, cooldownModel := None\<rparr> else stats);
          s2 = (if blockedExpired
                then s1\<lparr>blockedUntil := None, blockedReason := None, blockedSource := None, blockedModel := None\<rparr> else s1);
          s3 = (if disabledExpired then s2\<lparr>disabledUntil := None, disabledReason := None\<rparr> else s2);
          mutated = (cooldownExpired \<or> blockedExpired \<or> disabledExpired);
          s4 = (if mutated \<and> resolveProfileUnusableUntil s3 = None
                then s3\<lparr>errorCount := Some 0, failureCounts := None\<rparr> else s3)
      in (mutated, s4))"

definition clearExpiredCooldowns :: "auth_store \<Rightarrow> rat \<Rightarrow> bool \<times> auth_store" where
  "clearExpiredCooldowns store ts =
     (case usageStats store of
        None \<Rightarrow> (False, store)
      | Some m \<Rightarrow>
          (list_ex (\<lambda>(k, stats). fst (clearExpiredStats stats ts)) m,
           store\<lparr>usageStats := Some (map (\<lambda>(k, stats). (k, snd (clearExpiredStats stats ts))) m)\<rparr>))"

section \<open>Backoff\<close>

definition calculateAuthProfileCooldownMs :: "int \<Rightarrow> int" where
  "calculateAuthProfileCooldownMs errors =
     (let normalized = max 1 errors in
      if normalized \<le> 1 then 30000 else if normalized \<le> 2 then 60000 else 5 * 60000)"

record cooldown_settings =
  cs_billingBackoffHoursByProvider :: "(string, jsval) jsmap option"
  cs_billingBackoffHours :: "jsval option"
  cs_billingMaxHours :: "jsval option"
  cs_authPermanentBackoffMinutes :: "jsval option"
  cs_authPermanentMaxMinutes :: "jsval option"
  cs_failureWindowHours :: "jsval option"

record resolved_cooldowns =
  billingBackoffMs :: rat
  billingMaxMs :: rat
  authPermanentBackoffMs :: rat
  authPermanentMaxMs :: rat
  failureWindowMs :: rat

definition resolvePositiveNumber :: "jsval option \<Rightarrow> rat \<Rightarrow> rat" where
  "resolvePositiveNumber v fallback =
     (case v of Some (VNum (JFin q)) \<Rightarrow> if q > 0 then q else fallback | _ \<Rightarrow> fallback)"

definition resolveAuthCooldownConfig :: "cooldown_settings \<Rightarrow> string \<Rightarrow> resolved_cooldowns" where
  "resolveAuthCooldownConfig c providerId =
     (let override = (case cs_billingBackoffHoursByProvider c of
            None \<Rightarrow> None
          | Some m \<Rightarrow> map_option snd (find (\<lambda>(k, v). normalizeProviderId k = providerId) m));
          hours = 60 * 60 * 1000; minutes = 60 * 1000
      in \<lparr>billingBackoffMs =
            resolvePositiveNumber (case override of Some v \<Rightarrow> Some v | None \<Rightarrow> cs_billingBackoffHours c) 5 * hours,
          billingMaxMs = resolvePositiveNumber (cs_billingMaxHours c) 24 * hours,
          authPermanentBackoffMs = resolvePositiveNumber (cs_authPermanentBackoffMinutes c) 10 * minutes,
          authPermanentMaxMs = resolvePositiveNumber (cs_authPermanentMaxMinutes c) 60 * minutes,
          failureWindowMs = resolvePositiveNumber (cs_failureWindowHours c) 24 * hours\<rparr>)"

definition calculateDisabledLaneBackoffMs :: "int \<Rightarrow> rat \<Rightarrow> rat \<Rightarrow> rat" where
  "calculateDisabledLaneBackoffMs errors base0 max0 =
     (let normalized = max 1 errors; baseMs = max 60000 base0; maxMs = max baseMs max0;
          exponent = min (normalized - 1) 10
      in min maxMs (baseMs * 2 ^ nat exponent))"

definition resolveDisabledFailureBackoffMs :: "failure_reason \<Rightarrow> int \<Rightarrow> resolved_cooldowns \<Rightarrow> rat" where
  "resolveDisabledFailureBackoffMs reason errors cfg =
     (if reason = Billing then calculateDisabledLaneBackoffMs errors (billingBackoffMs cfg) (billingMaxMs cfg)
      else calculateDisabledLaneBackoffMs errors (authPermanentBackoffMs cfg) (authPermanentMaxMs cfg))"

definition resolveUsageWindowUntil :: "rat \<Rightarrow> rat \<Rightarrow> rat" where
  "resolveUsageWindowUntil now durationMs =
     (if durationMs \<le> 0 then now
      else case resolveExpiresAtMsFromDurationMs (int_val (max 1 \<lfloor>durationMs\<rfloor>))
             \<lparr>eo_nowMs = Some (JFin now), eo_bufferMs = None, eo_minRemainingMs = None\<rparr> 0 of
             Some e \<Rightarrow> e | None \<Rightarrow> now)"

definition keepActiveWindowOrRecompute :: "rat option \<Rightarrow> rat \<Rightarrow> rat \<Rightarrow> rat" where
  "keepActiveWindowOrRecompute existing now recomputed =
     (case existing of Some u \<Rightarrow> if u > now then u else recomputed | None \<Rightarrow> recomputed)"

section \<open>Recording failures\<close>

definition counts_of :: "usage_stats \<Rightarrow> (failure_reason, int) jsmap" where
  "counts_of s = (case failureCounts s of Some m \<Rightarrow> m | None \<Rightarrow> [])"

definition count_of :: "(failure_reason, int) jsmap \<Rightarrow> failure_reason \<Rightarrow> int" where
  "count_of m r = (case jm_get m r of Some n \<Rightarrow> n | None \<Rightarrow> 0)"

definition shouldResetCounters :: "usage_stats \<Rightarrow> rat \<Rightarrow> resolved_cooldowns \<Rightarrow> bool" where
  "shouldResetCounters existing now cfg \<longleftrightarrow>
     (case lastFailureAt existing of Some t \<Rightarrow> t > 0 \<and> now - t > failureWindowMs cfg | None \<Rightarrow> False) \<or>
     (case resolveProfileUnusableUntil existing of Some u \<Rightarrow> now \<ge> u | None \<Rightarrow> False)"

text \<open>The model a cooldown is scoped to after one more failure.\<close>

definition nextCooldownModel :: "usage_stats \<Rightarrow> rat \<Rightarrow> failure_reason \<Rightarrow> string option \<Rightarrow> string option" where
  "nextCooldownModel existing now reason modelId =
     (if (case cooldownUntil existing of Some u \<Rightarrow> u > now | None \<Rightarrow> False)
      then (if truthy (cooldownModel existing) \<and> truthy modelId \<and> cooldownModel existing \<noteq> modelId then None
            else if isModelScopedCooldownReason (Some reason) \<and> \<not> truthy modelId \<and> truthy (cooldownModel existing) then None
            else if \<not> isModelScopedCooldownReason (Some reason) then None
            else cooldownModel existing)
      else if isModelScopedCooldownReason (Some reason) then modelId else None)"

definition computeNextProfileUsageStats ::
    "usage_stats \<Rightarrow> rat \<Rightarrow> failure_reason \<Rightarrow> resolved_cooldowns \<Rightarrow> string option \<Rightarrow> usage_stats" where
  "computeNextProfileUsageStats existing now reason cfg modelId =
     (let reset = shouldResetCounters existing now cfg;
          nextErrorCount = (if reset then 0 else case errorCount existing of Some n \<Rightarrow> n | None \<Rightarrow> 0) + 1;
          base = (if reset then [] else counts_of existing);
          counts = jm_set reason (count_of base reason + 1) base;
          updated = existing\<lparr>errorCount := Some nextErrorCount, failureCounts := Some counts, lastFailureAt := Some now\<rparr>
      in if reason = Billing \<or> reason = AuthPermanent
         then updated\<lparr>
                disabledUntil := Some (keepActiveWindowOrRecompute (disabledUntil existing) now
                  (resolveUsageWindowUntil now (resolveDisabledFailureBackoffMs reason (count_of counts reason) cfg))),
                disabledReason := Some reason\<rparr>
         else updated\<lparr>
                cooldownUntil := Some (keepActiveWindowOrRecompute (cooldownUntil existing) now
                  (resolveUsageWindowUntil now (of_int (calculateAuthProfileCooldownMs nextErrorCount)))),
                cooldownReason := Some reason,
                cooldownModel := nextCooldownModel existing now reason modelId\<rparr>)"

section \<open>The WHAM usage probe\<close>

record wham_window =
  reset_after_seconds :: jsval
  reset_at :: jsval
  used_percent :: jsval

record wham_limits =
  limit_reached :: "bool option"
  primary_window :: "wham_window option"
  secondary_window :: "wham_window option"

datatype wham_answer = WhamUnreachable | WhamStatus nat | WhamBody "wham_limits option"

definition positive_num :: "jsval \<Rightarrow> bool" where
  "positive_num v = (case asFiniteNumber v of Some q \<Rightarrow> q > 0 | None \<Rightarrow> False)"

definition resolveWhamResetMs :: "wham_window option \<Rightarrow> rat \<Rightarrow> rat option" where
  "resolveWhamResetMs window now =
     (case window of
        None \<Rightarrow> None
      | Some w \<Rightarrow>
          if positive_num (reset_after_seconds w)
          then map_option of_int (positiveSecondsToSafeMilliseconds (reset_after_seconds w))
          else if positive_num (reset_at w)
          then map_option (\<lambda>r. max 0 (r - now)) (resolveExpiresAtMsFromEpochSeconds (reset_at w) None None)
          else None)"

definition isWhamWindowExhausted :: "wham_window option \<Rightarrow> bool" where
  "isWhamWindowExhausted window =
     (case window of
        None \<Rightarrow> False
      | Some w \<Rightarrow> (case asFiniteNumber (used_percent w) of Some q \<Rightarrow> q \<ge> 100 | None \<Rightarrow> False))"

definition shouldProbeWhamForFailure :: "credential \<Rightarrow> failure_reason \<Rightarrow> rat \<Rightarrow> bool" where
  "shouldProbeWhamForFailure profile reason clock \<longleftrightarrow>
     (case profile of
        OAuth provider access _ _ expires _ \<Rightarrow>
          access \<noteq> None \<and> access \<noteq> Some [] \<and>
          isFutureDateTimestampMs (case expires of Some e \<Rightarrow> e | None \<Rightarrow> VOther) (Some (VNum (JFin clock))) 0 \<and>
          normalizeProviderId provider = ''openai'' \<and>
          reason \<in> {RateLimit, EmptyResponse, NoErrorDetails, Unclassified, UnknownFailure}
      | _ \<Rightarrow> False)"

definition isSameWhamCredential :: "credential \<Rightarrow> credential \<Rightarrow> bool" where
  "isSameWhamCredential expected profile \<longleftrightarrow>
     (case (expected, profile) of
        (OAuth p a _ _ _ i, OAuth p' a' _ _ _ i') \<Rightarrow>
          normalizeProviderId p = normalizeProviderId p' \<and> a = a' \<and> i = i'
      | _ \<Rightarrow> False)"

record wham_result =
  whamCooldownMs :: rat
  whamBlockedUntil :: "rat option"
  whamBlockedSource :: "string option"

definition whamCooldown :: "rat \<Rightarrow> wham_result" where
  "whamCooldown ms = \<lparr>whamCooldownMs = ms, whamBlockedUntil = None, whamBlockedSource = None\<rparr>"

definition whamBlock :: "rat \<Rightarrow> rat option \<Rightarrow> wham_result" where
  "whamBlock now resetMs =
     (case resetMs of
        None \<Rightarrow> whamCooldown 30000
      | Some r \<Rightarrow> \<lparr>whamCooldownMs = 15000, whamBlockedUntil = Some (resolveUsageWindowUntil now r), whamBlockedSource = Some ''wham''\<rparr>)"

definition probeWhamForCooldown :: "wham_answer \<Rightarrow> rat \<Rightarrow> wham_result" where
  "probeWhamForCooldown ans now =
     (case ans of
        WhamUnreachable \<Rightarrow> whamCooldown 30000
      | WhamStatus status \<Rightarrow>
          whamCooldown (if status = 401 then 12 * 60 * 60 * 1000 else if status = 403 then 24 * 60 * 60 * 1000 else 5 * 60 * 1000)
      | WhamBody None \<Rightarrow> whamCooldown 30000
      | WhamBody (Some limits) \<Rightarrow>
          if limit_reached limits = Some False then whamCooldown 15000
          else if secondary_window limits = None then whamBlock now (resolveWhamResetMs (primary_window limits) now)
          else if isWhamWindowExhausted (secondary_window limits)
          then whamBlock now (resolveWhamResetMs (secondary_window limits) now)
          else if isWhamWindowExhausted (primary_window limits)
          then whamBlock now (resolveWhamResetMs (primary_window limits) now)
          else whamCooldown 30000)"

definition active_or_zero :: "rat option \<Rightarrow> rat \<Rightarrow> rat" where
  "active_or_zero until now = (case until of Some u \<Rightarrow> if u > now then u else 0 | None \<Rightarrow> 0)"

definition applyWhamCooldownResult :: "usage_stats \<Rightarrow> usage_stats \<Rightarrow> rat \<Rightarrow> wham_result \<Rightarrow> usage_stats" where
  "applyWhamCooldownResult existing computed now w =
     (case whamBlockedUntil w of
        Some b \<Rightarrow>
          if b \<noteq> 0
          then computed\<lparr>blockedUntil := Some (max (active_or_zero (blockedUntil existing) now) b),
                 blockedReason := Some ''subscription_limit'',
                 blockedSource := Some (case whamBlockedSource w of Some x \<Rightarrow> x | None \<Rightarrow> ''wham''),
                 blockedModel := None, cooldownUntil := None, cooldownReason := None, cooldownModel := None\<rparr>
          else computed\<lparr>cooldownUntil := Some (max (active_or_zero (cooldownUntil existing) now)
                  (resolveUsageWindowUntil now (whamCooldownMs w)))\<rparr>
      | None \<Rightarrow> computed\<lparr>cooldownUntil := Some (max (active_or_zero (cooldownUntil existing) now)
                  (resolveUsageWindowUntil now (whamCooldownMs w)))\<rparr>)"

definition updateUsageStatsEntry :: "auth_store \<Rightarrow> string \<Rightarrow> usage_stats \<Rightarrow> auth_store" where
  "updateUsageStatsEntry store profileId stats =
     store\<lparr>usageStats := Some (jm_set profileId stats (case usageStats store of Some m \<Rightarrow> m | None \<Rightarrow> []))\<rparr>"

definition previousStats :: "auth_store \<Rightarrow> string \<Rightarrow> usage_stats" where
  "previousStats store profileId = (case statsOf store profileId of Some s \<Rightarrow> s | None \<Rightarrow> no_stats)"

text \<open>
  \<^verbatim>\<open>markAuthProfileFailure\<close>: \<open>snapshot\<close> is the caller's store at time \<open>asked\<close>, \<open>store\<close> the fresh one the
  lock hands to the updater at time \<open>now\<close>, and \<open>probe\<close> what the usage probe would answer.
\<close>

definition markAuthProfileFailure ::
    "auth_store \<Rightarrow> auth_store \<Rightarrow> string \<Rightarrow> failure_reason \<Rightarrow> cooldown_settings \<Rightarrow> string option \<Rightarrow> wham_result option \<Rightarrow>
     rat \<Rightarrow> rat \<Rightarrow> auth_store option" where
  "markAuthProfileFailure snapshot store profileId reason cfg modelId probe asked now =
     (case (jm_get (profiles snapshot) profileId, jm_get (profiles store) profileId) of
        (Some expected, Some profile) \<Rightarrow>
          let shouldProbe = shouldProbeWhamForFailure expected reason asked;
              current = (if shouldProbe \<and> shouldProbeWhamForFailure profile reason now \<and> isSameWhamCredential expected profile
                         then probe else None)
          in if isAuthCooldownBypassedForProvider (Some (credProvider expected)) then None
             else if reason = NoErrorDetails \<and> \<not> shouldProbe then None
             else if isAuthCooldownBypassedForProvider (Some (credProvider profile)) then None
             else if reason = NoErrorDetails \<and> current = None then None
             else
               let existing = previousStats store profileId;
                   computed = computeNextProfileUsageStats existing now reason
                                (resolveAuthCooldownConfig cfg (normalizeProviderId (credProvider profile))) modelId
               in Some (updateUsageStatsEntry store profileId
                    (case current of Some w \<Rightarrow> applyWhamCooldownResult existing computed now w | None \<Rightarrow> computed))
      | _ \<Rightarrow> None)"

definition buildBlockedProfileUsageStats ::
    "usage_stats \<Rightarrow> rat \<Rightarrow> string \<Rightarrow> string option \<Rightarrow> rat \<Rightarrow> usage_stats" where
  "buildBlockedProfileUsageStats prev until source modelId now =
     prev\<lparr>blockedUntil := Some (max (case asDateTimestampMs (opt_num (blockedUntil prev)) of
                                      Some t \<Rightarrow> if t > now then t else 0 | None \<Rightarrow> 0) until),
          blockedReason := Some ''subscription_limit'', blockedSource := Some source, blockedModel := modelId,
          cooldownUntil := None, cooldownReason := None, cooldownModel := None, lastFailureAt := Some now,
          failureCounts := Some (jm_set RateLimit (count_of (counts_of prev) RateLimit + 1) (counts_of prev))\<rparr>"

definition markAuthProfileBlockedUntil ::
    "auth_store \<Rightarrow> auth_store \<Rightarrow> string \<Rightarrow> rat \<Rightarrow> string \<Rightarrow> string option \<Rightarrow> rat \<Rightarrow> rat \<Rightarrow> auth_store option" where
  "markAuthProfileBlockedUntil snapshot store profileId until source modelId asked now =
     (case (jm_get (profiles snapshot) profileId, jm_get (profiles store) profileId) of
        (Some expected, Some profile) \<Rightarrow>
          if isAuthCooldownBypassedForProvider (Some (credProvider expected)) \<or>
             \<not> isFutureDateTimestampMs (VNum (JFin until)) (Some (VNum (JFin asked))) 0 then None
          else if isAuthCooldownBypassedForProvider (Some (credProvider profile)) then None
          else if asDateTimestampMs (VNum (JFin now)) = None then None
          else Some (updateUsageStatsEntry store profileId
                 (buildBlockedProfileUsageStats (previousStats store profileId) until source modelId now))
      | _ \<Rightarrow> None)"

definition resetUsageStats :: "usage_stats \<Rightarrow> usage_stats" where
  "resetUsageStats existing =
     existing\<lparr>errorCount := Some 0, blockedUntil := None, blockedReason := None, blockedSource := None,
       blockedModel := None, cooldownUntil := None, cooldownReason := None, cooldownModel := None,
       disabledUntil := None, disabledReason := None, failureCounts := None\<rparr>"

definition clearAuthProfileCooldown :: "auth_store \<Rightarrow> string \<Rightarrow> auth_store option" where
  "clearAuthProfileCooldown store profileId =
     map_option (\<lambda>stats. updateUsageStatsEntry store profileId (resetUsageStats stats)) (statsOf store profileId)"

section \<open>Why no profile is available\<close>

definition FAILURE_REASON_PRIORITY :: "failure_reason list" where
  "FAILURE_REASON_PRIORITY =
     [AuthPermanent, AuthFailure, Billing, Format, ModelNotFound, Overloaded, TimeoutFailure, RateLimit, EmptyResponse,
      NoErrorDetails, Unclassified, UnknownFailure]"

definition addScore :: "(failure_reason, int) jsmap \<Rightarrow> failure_reason \<Rightarrow> int \<Rightarrow> (failure_reason, int) jsmap" where
  "addScore scores reason v =
     (if reason \<notin> set FAILURE_REASON_PRIORITY \<or> v \<le> 0 then scores
      else jm_set reason (count_of scores reason + v) scores)"

definition scoreProfile :: "rat \<Rightarrow> (failure_reason, int) jsmap \<Rightarrow> usage_stats option \<Rightarrow> (failure_reason, int) jsmap" where
  "scoreProfile now scores st =
     (case st of
        None \<Rightarrow> scores
      | Some stats \<Rightarrow>
          if isActiveUnusableWindow (disabledUntil stats) now \<and> disabledReason stats \<in> Some ` set FAILURE_REASON_PRIORITY
          then addScore scores (the (disabledReason stats)) 1000
          else if isActiveUnusableWindow (blockedUntil stats) now then addScore scores RateLimit 1000
          else if \<not> isActiveUnusableWindow (cooldownUntil stats) now then scores
          else
            let known = filter (\<lambda>(r, n). r \<in> set FAILURE_REASON_PRIORITY \<and> n > 0) (counts_of stats)
            in if known = [] then addScore scores UnknownFailure 1
               else foldl (\<lambda>m (r, n). addScore m r n) scores known)"

definition resolveProfilesUnavailableReason :: "auth_store \<Rightarrow> string list \<Rightarrow> rat \<Rightarrow> failure_reason option" where
  "resolveProfilesUnavailableReason store ids now =
     (let scores = foldl (scoreProfile now) [] (map (statsOf store) ids) in
      if scores = [] then None
      else fst (foldl (\<lambda>(best, top) reason.
             case jm_get scores reason of
               None \<Rightarrow> (best, top)
             | Some n \<Rightarrow> if n > top then (Some reason, n) else (best, top)) (None, - 1) FAILURE_REASON_PRIORITY))"

section \<open>Clearing is invisible\<close>

lemma opt_num_timestamp:
  "asDateTimestampMs (opt_num v) = Some t \<longleftrightarrow> v = Some t \<and> \<bar>t\<bar> \<le> of_int MAX_DATE_TIMESTAMP_MS"
  by (cases v) (auto simp: opt_num_def asDateTimestampMs_Some)

text \<open>The windows that count: recorded, in the range of dates, positive.\<close>

definition windows :: "usage_stats \<Rightarrow> rat set" where
  "windows s = {t. t > 0 \<and> t \<le> of_int MAX_DATE_TIMESTAMP_MS \<and>
     (blockedUntil s = Some t \<or> cooldownUntil s = Some t \<or> disabledUntil s = Some t)}"

lemma foldl_max: "foldl max (t :: rat) ts = Max (insert t (set ts))"
proof (induction ts arbitrary: t)
  case (Cons x ts)
  show ?case
  proof (cases "ts = []")
    case False
    then show ?thesis using Cons by (simp add: insert_commute Max_insert max.assoc max.left_commute)
  qed simp
qed simp

lemma unusable_until:
  "resolveProfileUnusableUntil s = (if windows s = {} then None else Some (Max (windows s)))"
proof -
  let ?l = "\<lambda>v. case asDateTimestampMs (opt_num v) of Some t \<Rightarrow> [t] | None \<Rightarrow> []"
  let ?vs = "filter (\<lambda>v. v > 0) (concat (map ?l [blockedUntil s, cooldownUntil s, disabledUntil s]))"
  have l: "x \<in> set (?l v) \<longleftrightarrow> v = Some x \<and> \<bar>x\<bar> \<le> of_int MAX_DATE_TIMESTAMP_MS" for x v
    using opt_num_timestamp [of v x] by (auto split: option.splits)
  have set: "set ?vs = windows s"
    using l by (auto simp: windows_def)
  obtain vs where vs: "vs = ?vs" by simp
  have "resolveProfileUnusableUntil s = (case vs of [] \<Rightarrow> None | t # ts \<Rightarrow> Some (foldl max t ts))"
    by (simp only: resolveProfileUnusableUntil_def Let_def vs)
  moreover have "set vs = windows s" using set vs by simp
  ultimately show ?thesis by (cases vs) (auto simp: foldl_max)
qed

lemma active_window: "isActiveUnusableWindow u now \<longleftrightarrow> (\<exists>t. u = Some t \<and> t > 0 \<and> t \<le> of_int MAX_DATE_TIMESTAMP_MS \<and> now < t)"
  using opt_num_timestamp [of u] by (force simp: isActiveUnusableWindow_def split: option.split)

lemma finite_windows [simp]: "finite (windows s)"
  by (rule finite_subset [of _ "set_option (blockedUntil s) \<union> set_option (cooldownUntil s) \<union> set_option (disabledUntil s)"])
    (auto simp: windows_def)

lemma unusable_at:
  "(case resolveProfileUnusableUntil s of Some u \<Rightarrow> ts < u | None \<Rightarrow> False) \<longleftrightarrow> (\<exists>t \<in> windows s. ts < t)"
  by (simp add: unusable_until Max_gr_iff)

lemma in_cooldown:
  "statsInCooldown s ts m \<longleftrightarrow> \<not> shouldBypassModelScopedCooldown s ts m \<and> (\<exists>t \<in> windows s. ts < t)"
  by (simp add: statsInCooldown_def unusable_at)

text \<open>What clearing does to the windows and to the scope of a cooldown.\<close>

lemma clear_windows: "windows (snd (clearExpiredStats s ts)) = {t \<in> windows s. ts < t}"
  by (auto simp: clearExpiredStats_def Let_def windows_def window_expired_def split: option.splits if_splits)

lemma clear_active:
  "ts \<le> now \<Longrightarrow> isActiveUnusableWindow (blockedUntil (snd (clearExpiredStats s ts))) now = isActiveUnusableWindow (blockedUntil s) now"
  "ts \<le> now \<Longrightarrow> isActiveUnusableWindow (disabledUntil (snd (clearExpiredStats s ts))) now = isActiveUnusableWindow (disabledUntil s) now"
  by (auto simp: clearExpiredStats_def Let_def window_expired_def active_window split: option.splits if_splits)

lemma clear_scope:
  "(cooldownReason (snd (clearExpiredStats s ts)), cooldownModel (snd (clearExpiredStats s ts))) =
     (if window_expired (cooldownUntil s) ts then (None, None) else (cooldownReason s, cooldownModel s))"
  by (simp add: clearExpiredStats_def Let_def)

lemma clear_in_cooldown:
  assumes "ts \<le> now"
  shows "statsInCooldown (snd (clearExpiredStats s ts)) now m = statsInCooldown s now m"
proof -
  let ?s = "snd (clearExpiredStats s ts)"
  have w: "(\<exists>t \<in> windows ?s. now < t) \<longleftrightarrow> (\<exists>t \<in> windows s. now < t)"
    using assms by (auto simp: clear_windows)
  show ?thesis
  proof (cases "window_expired (cooldownUntil s) ts")
    case False
    with clear_scope [of s ts] clear_active [OF assms, of s] w show ?thesis
      by (simp add: in_cooldown shouldBypassModelScopedCooldown_def)
  next
    case True
    then have "\<not> isActiveUnusableWindow (cooldownUntil s) now"
      using assms by (auto simp: window_expired_def active_window split: option.splits)
    then have "(\<exists>t \<in> windows s. now < t) \<longleftrightarrow>
        isActiveUnusableWindow (blockedUntil s) now \<or> isActiveUnusableWindow (disabledUntil s) now"
      by (auto simp: windows_def active_window)
    moreover have "\<not> shouldBypassModelScopedCooldown ?s now m"
      using True clear_scope [of s ts] by (simp add: shouldBypassModelScopedCooldown_def truthy_def)
    ultimately show ?thesis
      using w by (auto simp: in_cooldown shouldBypassModelScopedCooldown_def)
  qed
qed

lemma clear_not_observable:
  assumes "ts \<le> now"
  shows "isProfileInCooldown (snd (clearExpiredCooldowns store ts)) profileId now forModel =
    isProfileInCooldown store profileId now forModel"
proof -
  have "statsOf (snd (clearExpiredCooldowns store ts)) profileId =
      map_option (\<lambda>s. snd (clearExpiredStats s ts)) (statsOf store profileId)"
  proof (cases "usageStats store")
    case (Some m)
    have "map_of (map (\<lambda>(k, stats). (k, snd (clearExpiredStats stats ts))) m) profileId =
        map_option (\<lambda>s. snd (clearExpiredStats s ts)) (map_of m profileId)"
      by (induction m) auto
    with Some show ?thesis by (simp add: statsOf_def clearExpiredCooldowns_def)
  qed (simp add: statsOf_def clearExpiredCooldowns_def)
  moreover have "profiles (snd (clearExpiredCooldowns store ts)) = profiles store"
    by (simp add: clearExpiredCooldowns_def split: option.split)
  ultimately show ?thesis
    using clear_in_cooldown [OF assms] by (simp add: isProfileInCooldown_def split: option.split)
qed

text \<open>
  Clearing the expired windows is an optimisation nobody can observe: from then on, every
  profile is in cooldown for every model exactly when it would have been without it, whatever
  combination of block, cooldown and disable windows it has.
\<close>

theorem clearing_expired_is_invisible:
  assumes "ts \<le> now"
  shows "isProfileInCooldown (snd (clearExpiredCooldowns store ts)) profileId now forModel =
    isProfileInCooldown store profileId now forModel"
  using assms by (rule clear_not_observable)

section \<open>A failing model cools down, and recovers\<close>

text \<open>The longest window a failure can open under a configuration.\<close>

definition longestBackoffMs :: "resolved_cooldowns \<Rightarrow> rat" where
  "longestBackoffMs cfg =
     max 300000 (max (max (max 60000 (billingBackoffMs cfg)) (billingMaxMs cfg))
                     (max (max 60000 (authPermanentBackoffMs cfg)) (authPermanentMaxMs cfg)))"

definition nextErrorCount :: "usage_stats \<Rightarrow> rat \<Rightarrow> resolved_cooldowns \<Rightarrow> int" where
  "nextErrorCount s now cfg =
     (if shouldResetCounters s now cfg then 0 else case errorCount s of Some n \<Rightarrow> n | None \<Rightarrow> 0) + 1"

text \<open>A clock reading after which the longest window still ends within the range of dates.\<close>

definition good_clock :: "resolved_cooldowns \<Rightarrow> rat \<Rightarrow> bool" where
  "good_clock cfg now \<longleftrightarrow> 0 \<le> now \<and> of_int \<lfloor>now\<rfloor> = now \<and> now + longestBackoffMs cfg \<le> of_int MAX_DATE_TIMESTAMP_MS"

lemma usage_window:
  assumes "0 \<le> now" and "of_int \<lfloor>now\<rfloor> = now" and "1 \<le> d" and "now + d \<le> of_int MAX_DATE_TIMESTAMP_MS"
  shows "resolveUsageWindowUntil now d = now + of_int \<lfloor>d\<rfloor>"
proof -
  have d: "1 \<le> \<lfloor>d\<rfloor>" "of_int \<lfloor>d\<rfloor> \<le> d" using assms(3) by (simp_all add: le_floor_iff)
  obtain n where n: "now = of_int n" using assms(2) by metis
  have "of_int (n + \<lfloor>d\<rfloor>) \<le> (of_int MAX_DATE_TIMESTAMP_MS :: rat)" using assms(4) d(2) unfolding n of_int_add by linarith
  then have le: "0 \<le> n" "n + \<lfloor>d\<rfloor> \<le> MAX_DATE_TIMESTAMP_MS" using assms(1) n by (simp_all only: of_int_le_iff of_int_0_le_iff)
  have "asPositiveSafeInteger (int_val e) = Some e" if "1 \<le> e" "e \<le> MAX_DATE_TIMESTAMP_MS" for e
    using that by (simp add: is_safe_integer_def MAX_SAFE_def MAX_DATE_TIMESTAMP_MS_def)
  from this [of "\<lfloor>d\<rfloor>"] have "asPositiveSafeInteger (int_val (max 1 \<lfloor>d\<rfloor>)) = Some \<lfloor>d\<rfloor>"
    using d(1) le by (simp add: max_absorb2)
  moreover have "asDateTimestampMs (VNum (JFin now)) = Some now"
  proof -
    have "\<bar>n\<bar> \<le> MAX_DATE_TIMESTAMP_MS" using le d(1) by linarith
    with n show ?thesis by (simp add: asDateTimestampMs_Some flip: of_int_abs)
  qed
  moreover have "is_safe_integer (of_int (n + \<lfloor>d\<rfloor>))" "has_iso (of_int (n + \<lfloor>d\<rfloor>))"
    using le d by (simp_all only: is_safe_integer_int has_iso_iff) (simp_all add: MAX_SAFE_def MAX_DATE_TIMESTAMP_MS_def flip: of_int_abs)
  ultimately show ?thesis
    using assms(3) n by (simp add: resolveUsageWindowUntil_def resolveExpiresAtMsFromDurationMs_def Let_def)
qed

lemma disabled_backoff:
  "60000 \<le> calculateDisabledLaneBackoffMs n b m" "calculateDisabledLaneBackoffMs n b m \<le> max (max 60000 b) m"
proof -
  have "60000 \<le> max 60000 b * 2 ^ k" for k :: nat
  proof -
    have b: "60000 \<le> max 60000 b" by simp
    also have "\<dots> \<le> max 60000 b * 2 ^ k" using b mult_left_mono [of 1 "2 ^ k" "max 60000 b"] by simp
    finally show ?thesis .
  qed
  then show "60000 \<le> calculateDisabledLaneBackoffMs n b m"
    unfolding calculateDisabledLaneBackoffMs_def Let_def
    by (intro min.boundedI) (simp_all add: le_max_iff_disj)
  show "calculateDisabledLaneBackoffMs n b m \<le> max (max 60000 b) m"
    unfolding calculateDisabledLaneBackoffMs_def Let_def by (rule min.cobounded1)
qed

text \<open>The backoff of a failure, and the window it opens.\<close>

definition backoffMs :: "usage_stats \<Rightarrow> rat \<Rightarrow> failure_reason \<Rightarrow> resolved_cooldowns \<Rightarrow> rat" where
  "backoffMs s now reason cfg =
     (if reason = Billing \<or> reason = AuthPermanent
      then resolveDisabledFailureBackoffMs reason
             (count_of (if shouldResetCounters s now cfg then [] else counts_of s) reason + 1) cfg
      else of_int (calculateAuthProfileCooldownMs (nextErrorCount s now cfg)))"

lemma backoff_range: "30000 \<le> backoffMs s now reason cfg" "backoffMs s now reason cfg \<le> longestBackoffMs cfg"
proof -
  have "30000 \<le> calculateAuthProfileCooldownMs n \<and> calculateAuthProfileCooldownMs n \<le> 300000" for n
    by (simp add: calculateAuthProfileCooldownMs_def Let_def)
  then have c: "(30000 :: rat) \<le> of_int (calculateAuthProfileCooldownMs n) \<and> of_int (calculateAuthProfileCooldownMs n) \<le> (300000 :: rat)" for n
    by (metis of_int_le_iff of_int_numeral)
  have d: "30000 \<le> resolveDisabledFailureBackoffMs r n cfg" for r n
  proof -
    have "(30000 :: rat) \<le> 60000" by simp
    also have "60000 \<le> resolveDisabledFailureBackoffMs r n cfg"
      using disabled_backoff(1) [of n] by (simp add: resolveDisabledFailureBackoffMs_def)
    finally show ?thesis .
  qed
  have e: "resolveDisabledFailureBackoffMs r n cfg \<le> longestBackoffMs cfg" for r n
    using disabled_backoff(2) [of n "billingBackoffMs cfg" "billingMaxMs cfg"]
      disabled_backoff(2) [of n "authPermanentBackoffMs cfg" "authPermanentMaxMs cfg"]
    by (auto simp: resolveDisabledFailureBackoffMs_def longestBackoffMs_def le_max_iff_disj)
  show "30000 \<le> backoffMs s now reason cfg"
    using c [of "nextErrorCount s now cfg"] d by (auto simp: backoffMs_def intro: order_trans)
  show "backoffMs s now reason cfg \<le> longestBackoffMs cfg"
    using c [of "nextErrorCount s now cfg"] e by (auto simp: backoffMs_def longestBackoffMs_def intro: max.coboundedI1)
qed

lemma next_windows:
  "cooldownUntil (computeNextProfileUsageStats s now reason cfg m) =
     (if reason = Billing \<or> reason = AuthPermanent then cooldownUntil s
      else Some (keepActiveWindowOrRecompute (cooldownUntil s) now (resolveUsageWindowUntil now (backoffMs s now reason cfg))))"
  "disabledUntil (computeNextProfileUsageStats s now reason cfg m) =
     (if reason = Billing \<or> reason = AuthPermanent
      then Some (keepActiveWindowOrRecompute (disabledUntil s) now (resolveUsageWindowUntil now (backoffMs s now reason cfg)))
      else disabledUntil s)"
  "blockedUntil (computeNextProfileUsageStats s now reason cfg m) = blockedUntil s"
  by (auto simp: computeNextProfileUsageStats_def Let_def backoffMs_def nextErrorCount_def count_of_def)

lemma opened_window:
  assumes "good_clock cfg now"
  shows "now < resolveUsageWindowUntil now (backoffMs s now reason cfg)"
    and "resolveUsageWindowUntil now (backoffMs s now reason cfg) \<le> now + longestBackoffMs cfg"
proof -
  note b = backoff_range [where s = s and now = now and reason = reason and cfg = cfg]
  have "resolveUsageWindowUntil now (backoffMs s now reason cfg) = now + of_int \<lfloor>backoffMs s now reason cfg\<rfloor>"
    using assms b by (intro usage_window) (auto simp: good_clock_def)
  moreover have "1 \<le> \<lfloor>backoffMs s now reason cfg\<rfloor>" using b(1) by (simp add: le_floor_iff)
  moreover have "of_int \<lfloor>backoffMs s now reason cfg\<rfloor> \<le> longestBackoffMs cfg" using b(2) by (meson of_int_floor_le order_trans)
  ultimately show "now < resolveUsageWindowUntil now (backoffMs s now reason cfg)"
    "resolveUsageWindowUntil now (backoffMs s now reason cfg) \<le> now + longestBackoffMs cfg"
    by simp_all
qed





definition default_cooldowns :: resolved_cooldowns where
  "default_cooldowns = resolveAuthCooldownConfig
     \<lparr>cs_billingBackoffHoursByProvider = None, cs_billingBackoffHours = None, cs_billingMaxHours = None,
      cs_authPermanentBackoffMinutes = None, cs_authPermanentMaxMinutes = None, cs_failureWindowHours = None\<rparr> ''anthropic''"

lemma default_clock: "good_clock default_cooldowns 1000" "good_clock default_cooldowns 2000" "longestBackoffMs default_cooldowns = 86400000"
  by (simp_all add: good_clock_def longestBackoffMs_def default_cooldowns_def resolveAuthCooldownConfig_def Let_def
      resolvePositiveNumber_def MAX_DATE_TIMESTAMP_MS_def)


lemma clearing_expired_is_invisible_witness:
  "let store = \<lparr>profiles = [(''p'', ApiKey ''anthropic'' (Some ''key'') False)], order = None, lastGood = None, usageStats = Some [(''p'', no_stats\<lparr>cooldownUntil := Some 4, disabledUntil := Some 9\<rparr>)]\<rparr>
   in isProfileInCooldown (snd (clearExpiredCooldowns store 5)) ''p'' 7 None = isProfileInCooldown store ''p'' 7 None"
  unfolding Let_def by (rule clearing_expired_is_invisible) simp

definition record_failures ::
    "resolved_cooldowns \<Rightarrow> (rat \<times> failure_reason \<times> string option) list \<Rightarrow> usage_stats" where
  "record_failures cfg fs =
     foldl (\<lambda>s (now, reason, m). computeNextProfileUsageStats s now reason cfg m) no_stats fs"

lemma recorded_windows:
  assumes "\<forall>(now, reason, m) \<in> set fs. good_clock cfg now \<and> now \<le> t"
    and "t' \<in> windows (record_failures cfg fs)"
  shows "t' \<le> t + longestBackoffMs cfg"
proof -
  let ?P = "\<lambda>s. \<forall>u. u \<in> {blockedUntil s, cooldownUntil s, disabledUntil s} \<longrightarrow> (\<forall>x. u = Some x \<longrightarrow> x \<le> t + longestBackoffMs cfg)"
  have step: "?P (computeNextProfileUsageStats s now reason cfg m)" if "?P s" "good_clock cfg now" "now \<le> t" for s now reason m
  proof -
    let ?u = "resolveUsageWindowUntil now (backoffMs s now reason cfg)"
    have "?u \<le> t + longestBackoffMs cfg" using opened_window(2) [OF that(2), of s reason] that(3) by linarith
    then have "keepActiveWindowOrRecompute w now ?u \<le> t + longestBackoffMs cfg" if "\<forall>x. w = Some x \<longrightarrow> x \<le> t + longestBackoffMs cfg" for w
      using that by (auto simp: keepActiveWindowOrRecompute_def split: option.split)
    with that(1) show ?thesis by (auto simp: next_windows)
  qed
  have "?P (foldl (\<lambda>s (now, reason, m). computeNextProfileUsageStats s now reason cfg m) s fs)"
    if "?P s" "\<forall>(now, reason, m) \<in> set fs. good_clock cfg now \<and> now \<le> t" for s fs
    using that
  proof (induction fs arbitrary: s)
    case (Cons f fs)
    obtain now reason m where f: "f = (now, reason, m)" by (cases f)
    with Cons.prems have "good_clock cfg now" "now \<le> t" by auto
    with Cons.IH [OF step [OF Cons.prems(1)]] Cons.prems(2) f show ?case by simp
  qed simp
  from this [of no_stats fs] assms show ?thesis
    by (auto simp: record_failures_def windows_def no_stats_def)
qed

text \<open>
  No sequence of failures, of whatever reasons and models, takes a profile out of the
  rotation for good: once no failure has been recorded for as long as the longest configured
  backoff (a day by default), the profile is out of cooldown for every model.
\<close>

theorem profile_recovers:
  assumes "\<forall>(clock, reason, m) \<in> set fs. good_clock cfg clock \<and> clock \<le> t"
    and "t + longestBackoffMs cfg \<le> now"
  shows "\<not> statsInCooldown (record_failures cfg fs) now forModel"
proof -
  have "u \<le> now" if "u \<in> windows (record_failures cfg fs)" for u
    using recorded_windows [OF assms(1) that] assms(2) by linarith
  then show ?thesis by (auto simp: in_cooldown dest: leD)
qed

lemma profile_recovers_witness:
  "\<not> statsInCooldown (record_failures default_cooldowns [(1000, RateLimit, Some ''opus''), (2000, Billing, None)]) 86402000 None"
  by (rule profile_recovers [of _ _ 2000]) (simp_all add: default_clock)

text \<open>
  A profile in cooldown after an expired session is reported as unavailable for an unknown reason:
  that reason is not in the list of known ones.
\<close>

lemma expired_session_reported_unknown:
  assumes "usageStats store = Some [(p, no_stats\<lparr>cooldownUntil := Some 3000, cooldownReason := Some SessionExpired,
     errorCount := Some 1, failureCounts := Some [(SessionExpired, 1)]\<rparr>)]"
  shows "resolveProfilesUnavailableReason store [p] 2000 = Some UnknownFailure"
proof -
  have act: "isActiveUnusableWindow (Some 3000) 2000" "\<not> isActiveUnusableWindow None 2000"
    by (simp_all add: isActiveUnusableWindow_def opt_num_timestamp opt_num_def asDateTimestampMs_Some MAX_DATE_TIMESTAMP_MS_def
        split: option.split)
  have "scoreProfile 2000 [] (statsOf store p) = [(UnknownFailure, 1)]"
    using act by (simp add: assms statsOf_def scoreProfile_def no_stats_def counts_of_def FAILURE_REASON_PRIORITY_def
        addScore_def count_of_def)
  then show ?thesis by (simp add: resolveProfilesUnavailableReason_def FAILURE_REASON_PRIORITY_def)
qed

end
