(* ===== verification/HeartbeatWake.thy ===== *)
theory HeartbeatWake
  imports HeartbeatCooldown StringCoerce
begin

text \<open>
  \<^verbatim>\<open>src/infra/heartbeat-wake.ts\<close>: the queue that coalesces heartbeat wakes per target, its one timer and
  the batches the timer starts. A batch is the asynchronous function a timer callback runs, waiting
  for the handler's answer to the first of its remaining wakes; several can be in progress, because
  registering a handler resets \<^verbatim>\<open>running\<close>. A handler and a delivery override are opaque numbers.
  Every event carries the clock reading of its calls of \<^verbatim>\<open>Date.now()\<close>.
\<close>

section \<open>State\<close>

datatype wake_source =
    FromInterval | FromManual | FromExecEvent | FromNotifications | FromCron | FromHook | FromBackgroundTask
  | FromBlockedTask | FromAcpSpawn | FromSessionState | FromCliWatchdog | FromRestartSentinel | FromRetry | FromOther

record wake_request =
  rq_source :: wake_source
  rq_intent :: wake_intent
  rq_reason :: "string option"
  rq_agentId :: "string option"
  rq_sessionKey :: "string option"
  rq_heartbeat :: "nat option"

record pending_wake =
  pw_source :: wake_source
  pw_intent :: wake_intent
  pw_reason :: string
  pw_priority :: nat
  pw_requestedAt :: int
  pw_agentId :: "string option"
  pw_sessionKey :: "string option"
  pw_heartbeat :: "nat option"

datatype timer_kind = NormalTimer | RetryTimer

record wake_timer =
  dueAt :: int
  delayMs :: int
  kind :: timer_kind

record wake_batch =
  batchWakes :: "pending_wake list"
  remaining :: "pending_wake list"
  batchDelay :: int

record wake_state =
  wakeHandler :: "nat option"
  handlerGeneration :: nat
  pendingWakes :: "(string, pending_wake) jsmap"
  scheduled :: bool
  wakesRunning :: bool
  wakeTimer :: "wake_timer option"
  batches :: "wake_batch list"

definition initial_wakes :: wake_state where
  "initial_wakes = \<lparr>wakeHandler = None, handlerGeneration = 0, pendingWakes = [], scheduled = False,
     wakesRunning = False, wakeTimer = None, batches = []\<rparr>"

definition DEFAULT_COALESCE_MS :: int where "DEFAULT_COALESCE_MS = 250"
definition DEFAULT_RETRY_MS :: int where "DEFAULT_RETRY_MS = 1000"

section \<open>Operations\<close>

definition isRetryableHeartbeatBusySkipReason :: "string \<Rightarrow> bool" where
  "isRetryableHeartbeatBusySkipReason reason \<longleftrightarrow>
     reason \<in> {''requests-in-flight'', ''cron-in-progress'', ''lanes-busy''}"

definition resolveWakePriority :: "wake_source \<Rightarrow> wake_intent \<Rightarrow> string \<Rightarrow> nat" where
  "resolveWakePriority source want reason =
     (if want = WakeManual \<or> want = WakeImmediate then 3
      else if source = FromRetry \<or> reason = ''retry'' then 0
      else if want = WakeScheduled \<or> source = FromInterval \<or> reason = ''interval'' then 1
      else 2)"

definition normalizeHeartbeatWakeReason :: "string option \<Rightarrow> string" where
  "normalizeHeartbeatWakeReason reason =
     (case normalizeOptionalString (opt_string reason) of Some r \<Rightarrow> r | None \<Rightarrow> ''requested'')"

definition normalizeWakeTarget :: "string option \<Rightarrow> string option" where
  "normalizeWakeTarget value = normalizeOptionalString (opt_string value)"

definition getWakeTargetKey :: "string option \<Rightarrow> string option \<Rightarrow> string" where
  "getWakeTargetKey agent session =
     (case normalizeWakeTarget agent of Some a \<Rightarrow> a | None \<Rightarrow> []) @ ''::'' @
     (case normalizeWakeTarget session of Some k \<Rightarrow> k | None \<Rightarrow> [])"

definition pendingOf :: "wake_request \<Rightarrow> int \<Rightarrow> pending_wake" where
  "pendingOf r now =
     (let reason = normalizeHeartbeatWakeReason (rq_reason r) in
      \<lparr>pw_source = rq_source r, pw_intent = rq_intent r, pw_reason = reason,
       pw_priority = resolveWakePriority (rq_source r) (rq_intent r) reason, pw_requestedAt = now,
       pw_agentId = normalizeWakeTarget (rq_agentId r), pw_sessionKey = normalizeWakeTarget (rq_sessionKey r),
       pw_heartbeat = rq_heartbeat r\<rparr>)"

definition requestKey :: "wake_request \<Rightarrow> string" where
  "requestKey r = getWakeTargetKey (normalizeWakeTarget (rq_agentId r)) (normalizeWakeTarget (rq_sessionKey r))"

definition queuePendingWakeReason ::
    "(string, pending_wake) jsmap \<Rightarrow> wake_request \<Rightarrow> int \<Rightarrow> (string, pending_wake) jsmap" where
  "queuePendingWakeReason m r now =
     (let next = pendingOf r now; key = requestKey r in
      case jm_get m key of
        None \<Rightarrow> jm_set key next m
      | Some previous \<Rightarrow>
          let merged = next\<lparr>pw_heartbeat := (case pw_heartbeat next of Some h \<Rightarrow> Some h | None \<Rightarrow> pw_heartbeat previous)\<rparr>
          in if pw_priority next > pw_priority previous then jm_set key merged m
             else if pw_priority next = pw_priority previous \<and> pw_requestedAt next \<ge> pw_requestedAt previous
             then jm_set key merged m
             else m)"

definition schedule :: "wake_state \<Rightarrow> int \<Rightarrow> timer_kind \<Rightarrow> int \<Rightarrow> wake_state" where
  "schedule s coalesceMs k now =
     (let delay = resolveTimerTimeoutMs (int_val coalesceMs) (JFin 250) 0;
          due = now + delay;
          armed = s\<lparr>wakeTimer := Some \<lparr>dueAt = due, delayMs = delay, kind = k\<rparr>\<rparr>
      in case wakeTimer s of
           None \<Rightarrow> armed
         | Some t \<Rightarrow> if kind t = RetryTimer \<or> dueAt t \<le> due then s else armed)"

definition requeued :: "pending_wake \<Rightarrow> wake_request" where
  "requeued w = \<lparr>rq_source = pw_source w, rq_intent = pw_intent w, rq_reason = Some (pw_reason w),
     rq_agentId = pw_agentId w, rq_sessionKey = pw_sessionKey w, rq_heartbeat = pw_heartbeat w\<rparr>"

text \<open>The \<^verbatim>\<open>finally\<close> block of a batch.\<close>

definition finishBatch :: "wake_state \<Rightarrow> int \<Rightarrow> int \<Rightarrow> wake_state" where
  "finishBatch s delay now =
     (let s1 = s\<lparr>wakesRunning := False\<rparr> in
      if pendingWakes s1 \<noteq> [] \<or> scheduled s1 then schedule s1 delay NormalTimer now else s1)"

definition timerFires :: "wake_state \<Rightarrow> int \<Rightarrow> wake_state" where
  "timerFires s now =
     (case wakeTimer s of
        None \<Rightarrow> s
      | Some t \<Rightarrow>
          let s1 = s\<lparr>wakeTimer := None, scheduled := False\<rparr> in
          if wakeHandler s1 = None then s1
          else if wakesRunning s1 then schedule (s1\<lparr>scheduled := True\<rparr>) (delayMs t) (kind t) now
          else
            let batch = jm_vals (pendingWakes s1); s2 = s1\<lparr>pendingWakes := [], wakesRunning := True\<rparr> in
            if batch = [] then finishBatch s2 (delayMs t) now
            else s2\<lparr>batches := batches s2 @ [\<lparr>batchWakes = batch, remaining = batch, batchDelay = delayMs t\<rparr>]\<rparr>)"

datatype run_result = WakeRan | WakeSkipped string | WakeFailed

text \<open>The handler answers batch \<open>i\<close> for its first remaining wake.\<close>

definition wakeHandled :: "wake_state \<Rightarrow> nat \<Rightarrow> run_result \<Rightarrow> int \<Rightarrow> wake_state" where
  "wakeHandled s i res now =
     (if length (batches s) \<le> i then s
      else
        case remaining (batches s ! i) of
          [] \<Rightarrow> s
        | w # rest \<Rightarrow>
            let s1 = (if (case res of WakeSkipped reason \<Rightarrow> isRetryableHeartbeatBusySkipReason reason | _ \<Rightarrow> False)
                      then schedule (s\<lparr>pendingWakes := queuePendingWakeReason (pendingWakes s) (requeued w) now\<rparr>)
                             DEFAULT_RETRY_MS RetryTimer now
                      else s)
            in if rest = []
               then finishBatch (s1\<lparr>batches := take i (batches s) @ drop (Suc i) (batches s)\<rparr>) (batchDelay (batches s ! i)) now
               else s1\<lparr>batches := (batches s)[i := (batches s ! i)\<lparr>remaining := rest\<rparr>]\<rparr>)"

text \<open>The handler, or its admission, throws: the whole batch is queued again.\<close>

definition batchThrows :: "wake_state \<Rightarrow> nat \<Rightarrow> int \<Rightarrow> wake_state" where
  "batchThrows s i now =
     (if length (batches s) \<le> i then s
      else
        let b = batches s ! i;
            m = foldl (\<lambda>m w. queuePendingWakeReason m (requeued w) now) (pendingWakes s) (batchWakes b);
            s1 = schedule (s\<lparr>pendingWakes := m\<rparr>) DEFAULT_RETRY_MS RetryTimer now
        in finishBatch (s1\<lparr>batches := take i (batches s) @ drop (Suc i) (batches s)\<rparr>) (batchDelay b) now)"

definition setHeartbeatWakeHandler :: "wake_state \<Rightarrow> nat option \<Rightarrow> int \<Rightarrow> nat \<times> wake_state" where
  "setHeartbeatWakeHandler s next now =
     (let s1 = s\<lparr>handlerGeneration := handlerGeneration s + 1, wakeHandler := next\<rparr>;
          s2 = (if next \<noteq> None then s1\<lparr>wakeTimer := None, wakesRunning := False, scheduled := False\<rparr> else s1);
          s3 = (if next \<noteq> None \<and> pendingWakes s2 \<noteq> [] then schedule s2 DEFAULT_COALESCE_MS NormalTimer now else s2)
      in (handlerGeneration s1, s3))"

text \<open>The disposer a registration returned, with the generation and handler it closed over.\<close>

definition disposeHandler :: "wake_state \<Rightarrow> nat \<Rightarrow> nat option \<Rightarrow> wake_state" where
  "disposeHandler s generation next =
     (if handlerGeneration s \<noteq> generation then s
      else if wakeHandler s \<noteq> next then s
      else s\<lparr>handlerGeneration := handlerGeneration s + 1, wakeHandler := None\<rparr>)"

definition requestHeartbeat :: "wake_state \<Rightarrow> wake_request \<Rightarrow> int option \<Rightarrow> int \<Rightarrow> wake_state" where
  "requestHeartbeat s r coalesceMs now =
     schedule (s\<lparr>pendingWakes := queuePendingWakeReason (pendingWakes s) r now\<rparr>)
       (or_default coalesceMs DEFAULT_COALESCE_MS) NormalTimer now"

definition hasPendingHeartbeatWake :: "wake_state \<Rightarrow> bool" where
  "hasPendingHeartbeatWake s \<longleftrightarrow> pendingWakes s \<noteq> [] \<or> wakeTimer s \<noteq> None \<or> scheduled s"

datatype wake_event =
    RequestWake wake_request "int option" int
  | TimerFires int
  | WakeHandled nat run_result int
  | BatchThrows nat int
  | SetHandler "nat option" int
  | DisposeHandler nat "nat option"

fun wake_step :: "wake_state \<Rightarrow> wake_event \<Rightarrow> wake_state" where
  "wake_step s (RequestWake r c now) = requestHeartbeat s r c now"
| "wake_step s (TimerFires now) = timerFires s now"
| "wake_step s (WakeHandled i res now) = wakeHandled s i res now"
| "wake_step s (BatchThrows i now) = batchThrows s i now"
| "wake_step s (SetHandler h now) = snd (setHeartbeatWakeHandler s h now)"
| "wake_step s (DisposeHandler g h) = disposeHandler s g h"

section \<open>No pending wake is stranded\<close>

definition wakes_inv :: "wake_state \<Rightarrow> bool" where
  "wakes_inv s \<longleftrightarrow>
     (wakeHandler s \<noteq> None \<and> pendingWakes s \<noteq> [] \<longrightarrow> wakeTimer s \<noteq> None) \<and>
     (wakesRunning s \<longrightarrow> batches s \<noteq> []) \<and> list_all (\<lambda>b. remaining b \<noteq> []) (batches s)"

lemma schedule_fields [simp]:
  "wakeHandler (schedule s c k now) = wakeHandler s" "pendingWakes (schedule s c k now) = pendingWakes s"
  "wakesRunning (schedule s c k now) = wakesRunning s" "batches (schedule s c k now) = batches s"
  "scheduled (schedule s c k now) = scheduled s" "handlerGeneration (schedule s c k now) = handlerGeneration s"
  by (simp_all add: schedule_def Let_def split: option.split)

lemma schedule_armed [simp]: "wakeTimer (schedule s c k now) \<noteq> None" "\<exists>t. wakeTimer (schedule s c k now) = Some t"
  by (simp_all add: schedule_def Let_def split: option.split)

lemma finishBatch_fields [simp]:
  "wakeHandler (finishBatch s d now) = wakeHandler s" "pendingWakes (finishBatch s d now) = pendingWakes s"
  "batches (finishBatch s d now) = batches s" "\<not> wakesRunning (finishBatch s d now)"
  by (simp_all add: finishBatch_def Let_def)

lemma finishBatch_armed: "pendingWakes s \<noteq> [] \<Longrightarrow> wakeTimer (finishBatch s d now) \<noteq> None"
  by (simp add: finishBatch_def Let_def)

lemma finishBatch_keeps_armed: "wakeTimer s \<noteq> None \<Longrightarrow> wakeTimer (finishBatch s d now) \<noteq> None"
  by (simp add: finishBatch_def Let_def)

lemma armed_record [simp]:
  "wakeTimer (s\<lparr>pendingWakes := m\<rparr>) = wakeTimer s" "wakeTimer (s\<lparr>batches := bs\<rparr>) = wakeTimer s"
  by simp_all

lemma list_all_remove: "list_all P xs \<Longrightarrow> list_all P (take i xs)" "list_all P xs \<Longrightarrow> list_all P (drop j xs)"
  by (auto simp: list_all_iff dest: in_set_takeD in_set_dropD)

lemma wake_step_inv: "wakes_inv s \<Longrightarrow> wakes_inv (wake_step s e)"
proof (cases e)
  case (TimerFires now)
  assume inv: "wakes_inv s"
  show ?thesis
  proof (cases "wakeTimer s")
    case None
    then show ?thesis using inv by (simp add: TimerFires timerFires_def)
  next
    case (Some t)
    then show ?thesis using inv
      by (simp add: TimerFires timerFires_def Let_def wakes_inv_def finishBatch_armed)
  qed
next
  case (WakeHandled i res now)
  assume inv: "wakes_inv s"
  show ?thesis
  proof (cases "length (batches s) \<le> i \<or> remaining (batches s ! i) = []")
    case True
    then show ?thesis using inv by (auto simp: WakeHandled wakeHandled_def)
  next
    case False
    then obtain w rest where r: "remaining (batches s ! i) = w # rest" "i < length (batches s)"
      by (cases "remaining (batches s ! i)") auto
    show ?thesis
    proof (cases "rest = []")
      case True
      then show ?thesis using inv r
        by (simp add: WakeHandled wakeHandled_def Let_def wakes_inv_def finishBatch_armed list_all_remove split: run_result.split)
    next
      case more: False
      have "list_all (\<lambda>b. remaining b \<noteq> []) ((batches s)[i := (batches s ! i)\<lparr>remaining := rest\<rparr>])"
        using inv more by (auto simp: wakes_inv_def list_all_iff dest!: set_update_subset_insert [THEN subsetD])
      then show ?thesis using inv r more
        by (auto simp: WakeHandled wakeHandled_def Let_def wakes_inv_def split: run_result.split)
    qed
  qed
next
  case (BatchThrows i now)
  assume "wakes_inv s"
  then show ?thesis
    using finishBatch_keeps_armed by (simp add: BatchThrows batchThrows_def Let_def wakes_inv_def list_all_remove)
next
  case (SetHandler h now)
  assume "wakes_inv s"
  then show ?thesis by (simp add: SetHandler setHeartbeatWakeHandler_def Let_def wakes_inv_def)
qed (auto simp: wakes_inv_def requestHeartbeat_def disposeHandler_def)

interpretation hbw: machine wake_step initial_wakes wakes_inv
  by unfold_locales (simp_all add: wake_step_inv, simp add: wakes_inv_def initial_wakes_def)

text \<open>
  C36. No pending wake is stranded: in every reachable state with a handler and pending wakes a
  timer is armed. When it fires, either all pending wakes start as a batch in their order, or a
  batch is still in progress and a timer is armed again.
\<close>

theorem pending_wakes_are_served:
  assumes "s = foldl wake_step initial_wakes es" and "wakeHandler s \<noteq> None" and "pendingWakes s \<noteq> []"
  shows "\<exists>t. wakeTimer s = Some t \<and>
    (if wakesRunning s then batches s \<noteq> [] \<and> wakeTimer (timerFires s now) \<noteq> None
     else pendingWakes (timerFires s now) = [] \<and>
       batches (timerFires s now) = batches s @
         [\<lparr>batchWakes = jm_vals (pendingWakes s), remaining = jm_vals (pendingWakes s), batchDelay = delayMs t\<rparr>])"
proof -
  have inv: "wakes_inv s" unfolding assms(1) by (rule hbw.run_inv)
  then obtain t where t: "wakeTimer s = Some t" using assms(2,3) by (auto simp: wakes_inv_def)
  with inv assms(2,3) show ?thesis by (simp add: timerFires_def Let_def wakes_inv_def)
qed

definition sample_request :: "wake_intent \<Rightarrow> wake_request" where
  "sample_request i = \<lparr>rq_source = FromCron, rq_intent = i, rq_reason = Some ''cron'', rq_agentId = Some ''main'',
     rq_sessionKey = None, rq_heartbeat = None\<rparr>"

lemma pending_wakes_are_served_witness:
  "\<exists>t. wakeTimer (foldl wake_step initial_wakes [RequestWake (sample_request WakeEvent) None 1000, SetHandler (Some 1) 1100]) = Some t"
proof -
  let ?s = "foldl wake_step initial_wakes [RequestWake (sample_request WakeEvent) None 1000, SetHandler (Some 1) 1100]"
  have "wakeHandler ?s \<noteq> None" "pendingWakes ?s \<noteq> []"
    by (simp_all add: initial_wakes_def requestHeartbeat_def setHeartbeatWakeHandler_def Let_def queuePendingWakeReason_def)
  from pending_wakes_are_served [OF refl this, of 2000] show ?thesis by blast
qed

section \<open>The retry cooldown\<close>

definition keeps_timer :: "wake_event \<Rightarrow> bool" where
  "keeps_timer e = (case e of TimerFires now \<Rightarrow> False | SetHandler h now \<Rightarrow> h = None | _ \<Rightarrow> True)"

lemma schedule_keeps_retry:
  "wakeTimer s = Some t \<Longrightarrow> kind t = RetryTimer \<Longrightarrow> wakeTimer (schedule s c k now) = Some t"
  by (simp add: schedule_def Let_def)

lemma finish_keeps_retry:
  "wakeTimer s = Some t \<Longrightarrow> kind t = RetryTimer \<Longrightarrow> wakeTimer (finishBatch s d now) = Some t"
  by (simp add: finishBatch_def Let_def schedule_keeps_retry)

lemma step_keeps_retry:
  assumes "wakeTimer s = Some t" and "kind t = RetryTimer" and "keeps_timer e"
  shows "wakeTimer (wake_step s e) = Some t"
  using assms
  by (cases e) (auto simp: keeps_timer_def requestHeartbeat_def wakeHandled_def batchThrows_def setHeartbeatWakeHandler_def
      disposeHandler_def Let_def schedule_keeps_retry finish_keeps_retry split: list.split run_result.split)

text \<open>
  C37. The retry cooldown is a hard minimum: once a busy or failed wake has armed the retry
  timer, no later request, however urgent, and no end of a batch can make the next attempt earlier;
  only registering a new handler clears it.
\<close>

theorem retry_cooldown_is_kept:
  assumes "wakeTimer s = Some t" and "kind t = RetryTimer" and "list_all keeps_timer es"
  shows "wakeTimer (foldl wake_step s es) = Some t"
  using assms(1,3) by (induction es arbitrary: s) (auto simp: step_keeps_retry [OF _ assms(2)])

lemma retry_cooldown_is_kept_witness:
  "wakeTimer (foldl wake_step (initial_wakes\<lparr>wakeTimer := Some \<lparr>dueAt = 2000, delayMs = 1000, kind = RetryTimer\<rparr>\<rparr>)
     [RequestWake (sample_request WakeManual) (Some 0) 1000]) = Some \<lparr>dueAt = 2000, delayMs = 1000, kind = RetryTimer\<rparr>"
  by (rule retry_cooldown_is_kept) (simp_all add: keeps_timer_def)

section \<open>Coalescing\<close>

definition queueAll :: "(wake_request \<times> int) list \<Rightarrow> (string, pending_wake) jsmap" where
  "queueAll rs = foldl (\<lambda>m (r, now). queuePendingWakeReason m r now) [] rs"

lemma pendingOf_heartbeat [simp]: "(pendingOf r t)\<lparr>pw_heartbeat := rq_heartbeat r\<rparr> = pendingOf r t" "pw_heartbeat (pendingOf r t) = rq_heartbeat r"
  by (simp_all add: pendingOf_def Let_def)

definition coalesced_at :: "pending_wake option \<Rightarrow> (wake_request \<times> int) list \<Rightarrow> string \<Rightarrow> bool" where
  "coalesced_at p rs k \<longleftrightarrow>
     (case p of
        None \<Rightarrow> \<forall>(r, t) \<in> set rs. requestKey r \<noteq> k
      | Some w \<Rightarrow>
          (\<exists>(r, t) \<in> set rs. requestKey r = k \<and> w\<lparr>pw_heartbeat := rq_heartbeat r\<rparr> = pendingOf r t) \<and>
          (\<forall>(r, t) \<in> set rs. requestKey r = k \<longrightarrow> pw_priority (pendingOf r t) \<le> pw_priority w))"

lemma coalesced_at_other:
  "coalesced_at p rs k \<Longrightarrow> requestKey r \<noteq> k \<Longrightarrow> coalesced_at p (rs @ [(r, t)]) k"
  by (auto simp: coalesced_at_def split: option.splits)

lemma coalesced_at_first:
  "coalesced_at None rs (requestKey r) \<Longrightarrow> coalesced_at (Some (pendingOf r t)) (rs @ [(r, t)]) (requestKey r)"
  by (auto simp: coalesced_at_def)

lemma coalesced_at_replaced:
  assumes "coalesced_at (Some w) rs (requestKey r)" and "pw_priority w \<le> pw_priority (pendingOf r t)"
  shows "coalesced_at (Some ((pendingOf r t)\<lparr>pw_heartbeat := h\<rparr>)) (rs @ [(r, t)]) (requestKey r)"
  using assms by (fastforce simp: coalesced_at_def)

lemma coalesced_at_kept:
  assumes "coalesced_at (Some w) rs (requestKey r)" and "pw_priority (pendingOf r t) \<le> pw_priority w"
  shows "coalesced_at (Some w) (rs @ [(r, t)]) (requestKey r)"
  using assms by (fastforce simp: coalesced_at_def)

lemma queueAll_coalesced: "coalesced_at (jm_get (queueAll rs) k) rs k"
proof (induction rs rule: rev_induct)
  case Nil
  show ?case by (simp add: coalesced_at_def queueAll_def)
next
  case (snoc x rs)
  obtain r t where x: "x = (r, t)" by (cases x)
  let ?m = "queueAll rs"
  have q: "queueAll (rs @ [(r, t)]) = queuePendingWakeReason ?m r t" by (simp add: queueAll_def x)
  show ?case
  proof (cases "requestKey r = k")
    case False
    then have "jm_get (queuePendingWakeReason ?m r t) k = jm_get ?m k"
      by (simp add: queuePendingWakeReason_def Let_def split: option.split)
    then show ?thesis using snoc.IH False by (simp add: q x coalesced_at_other)
  next
    case True
    then show ?thesis using snoc.IH
      by (cases "jm_get ?m k")
        (auto simp: q x queuePendingWakeReason_def Let_def coalesced_at_first
          intro: coalesced_at_replaced coalesced_at_kept)
  qed
qed

text \<open>
  Coalescing keeps the most urgent wake of each target: after any sequence of requests the
  queue has an entry exactly for the requested targets, and each is one of the requests of its
  target (only the delivery override may come from an earlier one) whose priority no request of that
  target exceeds.
\<close>

theorem coalescing_keeps_most_urgent:
  "case jm_get (queueAll rs) k of
     None \<Rightarrow> k \<notin> requestKey ` fst ` set rs
   | Some w \<Rightarrow>
       (\<exists>(r, t) \<in> set rs. requestKey r = k \<and> w\<lparr>pw_heartbeat := rq_heartbeat r\<rparr> = pendingOf r t) \<and>
       {(r, t) \<in> set rs. requestKey r = k \<and> pw_priority w < pw_priority (pendingOf r t)} = {}"
  using queueAll_coalesced [of rs k] by (fastforce simp: coalesced_at_def split: option.splits)

end
