(* ===== verification/RetryPolicy.thy ===== *)
theory RetryPolicy
  imports NumberCoercion
begin

text \<open>
  \<^verbatim>\<open>packages/retry/src/index.ts\<close>: backoff, the retry runner every outbound call goes through, the
  supervisor of reconnect loops and the abortable sleep. Numbers are exact rationals. The runner's
  operation is given by the answer of its \<open>n\<close>-th call, the random source by its \<open>n\<close>-th draw; the
  callbacks are functions, and the retry hook and the sleep may reject, which ends the run.
\<close>

section \<open>Configuration\<close>

datatype jitter_mode = FullJitter | Fraction rat

record retry_config =
  attempts :: int
  minDelayMs :: int
  maxDelayMs :: int
  jitter :: jitter_mode

definition DEFAULT_RETRY_CONFIG :: retry_config where
  "DEFAULT_RETRY_CONFIG = \<lparr>attempts = 3, minDelayMs = 300, maxDelayMs = 30000, jitter = Fraction 0\<rparr>"

record retry_overrides =
  o_attempts :: "jsnum option"
  o_minDelayMs :: "jsnum option"
  o_maxDelayMs :: "jsnum option"
  o_jitter :: "(jsnum + unit) option"

definition js_round :: "rat \<Rightarrow> int" where
  "js_round q = \<lfloor>q + 1 / 2\<rfloor>"

fun finite_num :: "jsnum option \<Rightarrow> rat option" where
  "finite_num (Some (JFin q)) = Some q"
| "finite_num _ = None"

definition clampNumber :: "jsnum option \<Rightarrow> jsnum \<Rightarrow> jsnum" where
  "clampNumber v fallback = (case finite_num v of None \<Rightarrow> fallback | Some q \<Rightarrow> JFin (max q 0))"

definition resolveAttemptCount :: "jsnum option \<Rightarrow> int \<Rightarrow> int" where
  "resolveAttemptCount v fallback =
     max 1 (js_round (case finite_num v of Some q \<Rightarrow> q | None \<Rightarrow> of_int fallback))"

definition resolveRetryDelayMs :: "jsnum \<Rightarrow> int" where
  "resolveRetryDelayMs v =
     min (max (js_round (case v of JPosInf \<Rightarrow> of_int MAX_TIMER_TIMEOUT_MS | JFin q \<Rightarrow> q | _ \<Rightarrow> 0)) 0)
       MAX_TIMER_TIMEOUT_MS"

definition resolveJitterConfig :: "(jsnum + unit) option \<Rightarrow> jitter_mode \<Rightarrow> jitter_mode" where
  "resolveJitterConfig v fallback =
     (case v of
        Some (Inr _) \<Rightarrow> FullJitter
      | Some (Inl x) \<Rightarrow> (case finite_num (Some x) of None \<Rightarrow> fallback | Some q \<Rightarrow> Fraction (min (max q 0) 1))
      | None \<Rightarrow> fallback)"

definition resolveRetryConfig :: "retry_config \<Rightarrow> retry_overrides \<Rightarrow> retry_config" where
  "resolveRetryConfig defaults overrides =
     (let low = resolveRetryDelayMs (clampNumber (o_minDelayMs overrides) (JFin (of_int (minDelayMs defaults)))) in
      \<lparr>attempts = resolveAttemptCount (o_attempts overrides) (attempts defaults),
       minDelayMs = low,
       maxDelayMs = max low (resolveRetryDelayMs (clampNumber (o_maxDelayMs overrides) (JFin (of_int (maxDelayMs defaults))))),
       jitter = resolveJitterConfig (o_jitter overrides) (jitter defaults)\<rparr>)"

section \<open>Delays\<close>

datatype draw_mode = Symmetric | Positive

definition applyJitter :: "rat \<Rightarrow> jitter_mode \<Rightarrow> draw_mode \<Rightarrow> rat \<Rightarrow> rat" where
  "applyJitter delayMs j mode draw =
     (case j of
        FullJitter \<Rightarrow>
          (if mode = Symmetric then of_int (max 0 (js_round (delayMs * (1 / 2 + draw * (1 / 2)))))
           else of_int (max 0 \<lceil>delayMs * (1 + draw)\<rceil>))
      | Fraction f \<Rightarrow>
          if f \<le> 0 then (if mode = Positive then of_int \<lceil>delayMs\<rceil> else delayMs)
          else
            let offset = (if mode = Positive then draw * f else (draw * 2 - 1) * f);
                raw = delayMs * (1 + offset)
            in of_int (max 0 (if mode = Positive then \<lceil>raw\<rceil> else js_round raw)))"

text \<open>A cap of \<open>None\<close> is infinite.\<close>

definition capped :: "rat \<Rightarrow> rat option \<Rightarrow> rat" where
  "capped d cap = (case cap of None \<Rightarrow> d | Some c \<Rightarrow> min d c)"

record 'e retry_options =
  overrides :: retry_overrides
  shouldRetry :: "'e \<Rightarrow> int \<Rightarrow> bool"
  retryAfterMs :: "'e \<Rightarrow> jsnum option"
  retryAfterMaxDelayMs :: "jsnum option"
  delayOf :: "'e \<Rightarrow> int \<Rightarrow> jsnum option"

definition configOf :: "'e retry_options \<Rightarrow> retry_config" where
  "configOf opts = resolveRetryConfig DEFAULT_RETRY_CONFIG (overrides opts)"

definition maxDelayCap :: "'e retry_options \<Rightarrow> rat option" where
  "maxDelayCap opts = (let m = maxDelayMs (configOf opts) in if m > 0 then Some (of_int m) else None)"

definition retryAfterCap :: "'e retry_options \<Rightarrow> rat option" where
  "retryAfterCap opts =
     (case retryAfterMaxDelayMs opts of
        None \<Rightarrow> maxDelayCap opts
      | Some v \<Rightarrow>
          Some (of_int (max (minDelayMs (configOf opts))
            (resolveRetryDelayMs (clampNumber (Some v)
              (case maxDelayCap opts of None \<Rightarrow> JPosInf | Some c \<Rightarrow> JFin c))))))"

text \<open>The pause after the failed attempt \<open>n\<close>.\<close>

definition retryDelay :: "'e retry_options \<Rightarrow> int \<Rightarrow> 'e \<Rightarrow> rat \<Rightarrow> rat" where
  "retryDelay opts n err draw =
     (let cfg = configOf opts; low = of_int (minDelayMs cfg);
          hint = finite_num (retryAfterMs opts err);
          baseDelay = (case hint of
              Some h \<Rightarrow> max h low
            | None \<Rightarrow>
                (case delayOf opts err n of
                   None \<Rightarrow> low * 2 ^ nat (n - 1)
                 | Some v \<Rightarrow> max (of_int (resolveRetryDelayMs v)) low));
          cap = (if hint \<noteq> None then retryAfterCap opts else maxDelayCap opts);
          canHonor = (case hint of Some h \<Rightarrow> (case cap of None \<Rightarrow> True | Some c \<Rightarrow> h \<le> c) | None \<Rightarrow> False);
          positive = (if jitter cfg = FullJitter then hint = None \<or> canHonor else canHonor);
          d = applyJitter (capped baseDelay cap) (jitter cfg) (if positive then Positive else Symmetric) draw
      in capped (max d low) cap)"

section \<open>The runner\<close>

record ('e, 'a) retry_run =
  answer :: "int \<Rightarrow> 'e + 'a"
  hookRejects :: "int \<Rightarrow> 'e option"
  sleepRejects :: "int \<Rightarrow> 'e option"
  draws :: "int \<Rightarrow> rat"

datatype ('e, 'a) retry_outcome = Returned 'a | AttemptsFailed "'e list" | Interrupted 'e

text \<open>The loop from attempt \<open>n\<close> on, with the errors collected and the pauses slept so far.\<close>

function retryLoop ::
    "'e retry_options \<Rightarrow> ('e, 'a) retry_run \<Rightarrow> int \<Rightarrow> 'e list \<Rightarrow> rat list \<Rightarrow> ('e, 'a) retry_outcome \<times> int \<times> rat list" where
  "retryLoop opts run n errors slept =
     (if attempts (configOf opts) < n then (AttemptsFailed errors, n - 1, slept)
      else
        case answer run n of
          Inr v \<Rightarrow> (Returned v, n, slept)
        | Inl err \<Rightarrow>
            if attempts (configOf opts) \<le> n \<or> \<not> shouldRetry opts err n then (AttemptsFailed (errors @ [err]), n, slept)
            else
              let d = retryDelay opts n err (draws run n) in
              (case hookRejects run n of
                Some e \<Rightarrow> (Interrupted e, n, slept)
              | None \<Rightarrow>
                  if d > 0
                  then (case sleepRejects run n of
                          Some e \<Rightarrow> (Interrupted e, n, slept @ [d])
                        | None \<Rightarrow> retryLoop opts run (n + 1) (errors @ [err]) (slept @ [d]))
                  else retryLoop opts run (n + 1) (errors @ [err]) slept))"
  by pat_completeness auto
termination
  by (relation "measure (\<lambda>(opts, _, n, _). nat (attempts (configOf opts) - n + 1))") auto

declare retryLoop.simps [simp del]

definition retryAsync :: "'e retry_options \<Rightarrow> ('e, 'a) retry_run \<Rightarrow> ('e, 'a) retry_outcome \<times> int \<times> rat list" where
  "retryAsync opts run = retryLoop opts run 1 [] []"

definition doubled :: "jsnum \<Rightarrow> int \<Rightarrow> jsnum" where
  "doubled v i = (case v of JFin q \<Rightarrow> JFin (q * 2 ^ nat i) | _ \<Rightarrow> v)"

text \<open>The short form, with a number of attempts and an initial delay; its indices start at 0.\<close>

function retryCount ::
    "int \<Rightarrow> jsnum \<Rightarrow> ('e, 'a) retry_run \<Rightarrow> int \<Rightarrow> 'e list \<Rightarrow> int list \<Rightarrow> ('e, 'a) retry_outcome \<times> int \<times> int list" where
  "retryCount limit initial run i errors slept =
     (if limit \<le> i then (AttemptsFailed errors, i, slept)
      else
        case answer run (i + 1) of
          Inr v \<Rightarrow> (Returned v, i + 1, slept)
        | Inl err \<Rightarrow>
            if i = limit - 1 then (AttemptsFailed (errors @ [err]), i + 1, slept)
            else
              let d = resolveRetryDelayMs (doubled initial i) in
              (case sleepRejects run (i + 1) of
                Some e \<Rightarrow> (Interrupted e, i + 1, slept @ [d])
              | None \<Rightarrow> retryCount limit initial run (i + 1) (errors @ [err]) (slept @ [d])))"
  by pat_completeness auto
termination
  by (relation "measure (\<lambda>(limit, _, _, i, _). nat (limit - i))") auto

declare retryCount.simps [simp del]

definition retryAttempts :: "jsnum \<Rightarrow> jsnum \<Rightarrow> ('e, 'a) retry_run \<Rightarrow> ('e, 'a) retry_outcome \<times> int \<times> int list" where
  "retryAttempts limit initial run =
     retryCount (resolveAttemptCount (Some limit) (attempts DEFAULT_RETRY_CONFIG)) initial run 0 [] []"

section \<open>Backoff and the supervisor\<close>

record backoff_policy =
  initialMs :: rat
  maxMs :: rat
  factor :: rat
  jitterFraction :: rat

definition computeBackoff :: "backoff_policy \<Rightarrow> int \<Rightarrow> rat \<Rightarrow> rat" where
  "computeBackoff policy attempt draw =
     (let base = min (maxMs policy) (initialMs policy * factor policy ^ nat (max (attempt - 1) 0))
      in min (maxMs policy) (of_int (js_round (base + base * jitterFraction policy * draw))))"

definition computeBackoffSchedule :: "rat list \<Rightarrow> int \<Rightarrow> rat" where
  "computeBackoffSchedule scheduleMs attempt =
     (if attempt \<le> 0 \<or> scheduleMs = [] then 0
      else scheduleMs ! nat (min (attempt - 1) (int (length scheduleMs) - 1)))"

text \<open>Abort controllers are numbers; \<open>abortedControllers\<close> lists the aborted ones.\<close>

record supervisor =
  sv_policy :: backoff_policy
  sv_maxAttempts :: "rat option"
  sv_attempts :: int
  nextDelayOverrideMs :: "rat option"
  sv_initialMs :: rat
  pendingAbort :: "nat option"
  controllers :: nat
  abortedControllers :: "nat list"

definition newSupervisor :: "backoff_policy \<Rightarrow> rat option \<Rightarrow> supervisor" where
  "newSupervisor policy maxAttempts =
     \<lparr>sv_policy = policy, sv_maxAttempts = maxAttempts, sv_attempts = 0, nextDelayOverrideMs = None,
      sv_initialMs = initialMs policy, pendingAbort = None, controllers = 0, abortedControllers = []\<rparr>"

definition sv_cancel :: "supervisor \<Rightarrow> supervisor" where
  "sv_cancel s =
     s\<lparr>pendingAbort := None,
       abortedControllers := (case pendingAbort s of Some c \<Rightarrow> c # abortedControllers s | None \<Rightarrow> abortedControllers s)\<rparr>"

definition sv_reset :: "supervisor \<Rightarrow> rat option \<Rightarrow> supervisor" where
  "sv_reset s initial =
     (sv_cancel s)\<lparr>sv_attempts := 0,
       sv_initialMs := (case initial of Some i \<Rightarrow> i | None \<Rightarrow> initialMs (sv_policy s)), nextDelayOverrideMs := None\<rparr>"

record retry_ticket =
  tk_attempt :: int
  tk_delayMs :: rat
  tk_controller :: nat

definition sv_next :: "supervisor \<Rightarrow> rat \<Rightarrow> retry_ticket option \<times> supervisor" where
  "sv_next s draw =
     (let override = nextDelayOverrideMs s; s1 = s\<lparr>nextDelayOverrideMs := None\<rparr>;
          s2 = (if override = None then s1\<lparr>sv_attempts := sv_attempts s + 1\<rparr> else s1)
      in if override = None \<and> (case sv_maxAttempts s of Some m \<Rightarrow> \<lceil>m\<rceil> < sv_attempts s2 | None \<Rightarrow> False)
         then (None, s2)
         else
           let attempt = max (sv_attempts s2) 1;
               d = (case override of Some o' \<Rightarrow> o'
                    | None \<Rightarrow> computeBackoff ((sv_policy s2)\<lparr>initialMs := sv_initialMs s2\<rparr>) attempt draw);
               s3 = sv_cancel s2
           in (Some \<lparr>tk_attempt = attempt, tk_delayMs = d, tk_controller = controllers s3\<rparr>,
               s3\<lparr>pendingAbort := Some (controllers s3), controllers := controllers s3 + 1\<rparr>))"

datatype sv_event = SvNext rat | SvReset "rat option" | SvCancel | SvOverride "rat option"

fun sv_step :: "supervisor \<Rightarrow> sv_event \<Rightarrow> supervisor" where
  "sv_step s (SvNext draw) = snd (sv_next s draw)"
| "sv_step s (SvReset i) = sv_reset s i"
| "sv_step s SvCancel = sv_cancel s"
| "sv_step s (SvOverride d) = s\<lparr>nextDelayOverrideMs := d\<rparr>"

section \<open>The abortable sleep\<close>

datatype sleep_end = SleptFully | SleepAborted

record sleep_state =
  sl_settled :: "sleep_end option"
  sl_timer :: "int option"
  sl_listening :: bool

definition startSleep :: "jsnum \<Rightarrow> bool \<Rightarrow> sleep_state" where
  "startSleep ms aborted =
     (case ms of
        JFin q \<Rightarrow>
          if q \<le> 0 then \<lparr>sl_settled = Some SleptFully, sl_timer = None, sl_listening = False\<rparr>
          else if aborted then \<lparr>sl_settled = Some SleepAborted, sl_timer = None, sl_listening = False\<rparr>
          else \<lparr>sl_settled = None, sl_timer = Some (min (max \<lfloor>q\<rfloor> 1) MAX_TIMER_TIMEOUT_MS), sl_listening = True\<rparr>
      | _ \<Rightarrow> \<lparr>sl_settled = Some SleptFully, sl_timer = None, sl_listening = False\<rparr>)"

datatype sleep_event = SleepTimerFires | SleepAbort

fun sleep_step :: "sleep_state \<Rightarrow> sleep_event \<Rightarrow> sleep_state" where
  "sleep_step s SleepTimerFires =
     (if sl_timer s = None then s else \<lparr>sl_settled = Some SleptFully, sl_timer = None, sl_listening = False\<rparr>)"
| "sleep_step s SleepAbort =
     (if \<not> sl_listening s \<or> sl_settled s \<noteq> None then s
      else \<lparr>sl_settled = Some SleepAborted, sl_timer = None, sl_listening = False\<rparr>)"

lemma sleep_cleans_up:
  "sl_settled (foldl sleep_step (startSleep ms aborted) es) = None \<longleftrightarrow>
     sl_timer (foldl sleep_step (startSleep ms aborted) es) \<noteq> None"
  "sl_listening (foldl sleep_step (startSleep ms aborted) es) \<longleftrightarrow>
     sl_timer (foldl sleep_step (startSleep ms aborted) es) \<noteq> None"
proof -
  define P where "P s \<longleftrightarrow> (sl_settled s = None \<longleftrightarrow> sl_timer s \<noteq> None) \<and> (sl_listening s \<longleftrightarrow> sl_timer s \<noteq> None)" for s :: sleep_state
  have "P (startSleep ms aborted)" by (simp add: P_def startSleep_def split: jsnum.split)
  moreover have "P (sleep_step s e)" if "P s" for s e using that by (cases e) (auto simp: P_def)
  ultimately have "P (foldl sleep_step (startSleep ms aborted) es)" by (induction es rule: rev_induct) simp_all
  then show "sl_settled (foldl sleep_step (startSleep ms aborted) es) = None \<longleftrightarrow>
     sl_timer (foldl sleep_step (startSleep ms aborted) es) \<noteq> None"
    "sl_listening (foldl sleep_step (startSleep ms aborted) es) \<longleftrightarrow>
     sl_timer (foldl sleep_step (startSleep ms aborted) es) \<noteq> None"
    by (simp_all add: P_def)
qed

section \<open>The runner settles\<close>

lemma attempts_pos: "1 \<le> attempts (configOf opts)"
  by (simp add: configOf_def resolveRetryConfig_def resolveAttemptCount_def Let_def)

definition settled_at :: "'e retry_options \<Rightarrow> ('e, 'a) retry_run \<Rightarrow> int \<Rightarrow> ('e, 'a) retry_outcome \<Rightarrow> bool" where
  "settled_at opts run n outcome \<longleftrightarrow>
     (case outcome of
        Returned v \<Rightarrow> answer run n = Inr v
      | AttemptsFailed errors \<Rightarrow>
          map Inl errors = map (answer run) [1..n] \<and>
          (n = attempts (configOf opts) \<or> \<not> shouldRetry opts (List.last errors) n)
      | Interrupted e \<Rightarrow>
          n < attempts (configOf opts) \<and> isl (answer run n) \<and>
          (hookRejects run n = Some e \<or> sleepRejects run n = Some e))"

lemma upto_snoc: "1 \<le> n \<Longrightarrow> [1..n] = [1..n - 1] @ [n::int]"
  by (rule upto_rec2)

lemma retryLoop_settles:
  assumes "1 \<le> n" and "n \<le> attempts (configOf opts)" and "map Inl errors = map (answer run) [1..n - 1]"
    and "\<forall>i \<in> {1..<n}. \<exists>e. answer run i = Inl e \<and> shouldRetry opts e i"
  shows "case retryLoop opts run n errors slept of (outcome, m, pauses) \<Rightarrow>
    n \<le> m \<and> m \<le> attempts (configOf opts) \<and> settled_at opts run m outcome \<and>
    (\<forall>i \<in> {1..<m}. \<exists>e. answer run i = Inl e \<and> shouldRetry opts e i)"
  using assms
proof (induction opts run n errors slept rule: retryLoop.induct)
  case (1 opts run n errors slept)
  show ?case
  proof (cases "answer run n")
    case (Inr v)
    then show ?thesis using 1(3-6) by (simp add: retryLoop.simps [of opts run n] settled_at_def)
  next
    case (Inl err)
    have all: "map Inl (errors @ [err]) = map (answer run) [1..n]"
      using 1(3,5) Inl by (simp add: upto_snoc [of n])
    show ?thesis
    proof (cases "attempts (configOf opts) \<le> n \<or> \<not> shouldRetry opts err n")
      case True
      then show ?thesis using 1(3-6) Inl all by (auto simp: retryLoop.simps [of opts run n] settled_at_def)
    next
      case False
      then have more: "\<forall>i \<in> {1..<n + 1}. \<exists>e. answer run i = Inl e \<and> shouldRetry opts e i"
        using 1(6) Inl by (metis atLeastLessThan_iff zless_add1_eq)
      show ?thesis
      proof (cases "hookRejects run n")
        case (Some e)
        then show ?thesis using 1(3-6) Inl False by (simp add: retryLoop.simps [of opts run n] settled_at_def)
      next
        case None
        have next1: "1 \<le> n + 1" "n + 1 \<le> attempts (configOf opts)" "map Inl (errors @ [err]) = map (answer run) [1..n + 1 - 1]"
          using 1(3) False all by simp_all
        show ?thesis
        proof (cases "0 < retryDelay opts n err (draws run n) \<and> sleepRejects run n \<noteq> None")
          case True
          then show ?thesis using 1(3-6) Inl False None
            by (auto simp: retryLoop.simps [of opts run n] settled_at_def Let_def)
        next
          case awake: False
          define pauses where "pauses = (if 0 < retryDelay opts n err (draws run n) then slept @ [retryDelay opts n err (draws run n)] else slept)"
          have "retryLoop opts run n errors slept = retryLoop opts run (n + 1) (errors @ [err]) pauses"
            using awake Inl False None by (auto simp: retryLoop.simps [of opts run n] Let_def pauses_def)
          moreover have "case retryLoop opts run (n + 1) (errors @ [err]) pauses of (outcome, m, pauses) \<Rightarrow>
            n + 1 \<le> m \<and> m \<le> attempts (configOf opts) \<and> settled_at opts run m outcome \<and>
            (\<forall>i \<in> {1..<m}. \<exists>e. answer run i = Inl e \<and> shouldRetry opts e i)"
            using awake 1(1) [OF _ Inl False refl None _ _ next1 more] 1(2) [OF _ Inl False refl None _ next1 more] False
            by (cases "0 < retryDelay opts n err (draws run n)") (auto simp: pauses_def)
          ultimately show ?thesis by (auto split: prod.splits)
        qed
      qed
    qed
  qed
qed

text \<open>
  C20. The retry runner always settles, after at least one and at most the configured number
  of calls of the operation: with the first success; with the errors of all attempts, in order,
  when the attempts are used up or the policy refuses the last error; or with the rejection of the
  retry hook or of the sleep. Every earlier attempt failed with an error the policy retries.
\<close>

theorem retry_settles:
  "\<exists>outcome n slept. retryAsync opts run = (outcome, n, slept) \<and>
     1 \<le> n \<and> n \<le> attempts (configOf opts) \<and>
     (case outcome of
        Returned v \<Rightarrow> answer run n = Inr v
      | AttemptsFailed errors \<Rightarrow>
          map Inl errors = map (answer run) [1..n] \<and>
          (n = attempts (configOf opts) \<or> shouldRetry opts (List.last errors) n = False)
      | Interrupted e \<Rightarrow>
          n < attempts (configOf opts) \<and> isl (answer run n) \<and> Some e \<in> {hookRejects run n, sleepRejects run n}) \<and>
     {1..<n} \<subseteq> {i. \<exists>e. answer run i = Inl e \<and> shouldRetry opts e i}"
proof -
  obtain outcome n slept where r: "retryAsync opts run = (outcome, n, slept)" by (cases "retryAsync opts run")
  with retryLoop_settles [of 1 opts "[]" run "[]"] attempts_pos [of opts]
  have "1 \<le> n \<and> n \<le> attempts (configOf opts) \<and> settled_at opts run n outcome \<and>
    (\<forall>i \<in> {1..<n}. \<exists>e. answer run i = Inl e \<and> shouldRetry opts e i)"
    by (simp add: retryAsync_def)
  then have "settled_at opts run n outcome" "1 \<le> n \<and> n \<le> attempts (configOf opts)"
    "{1..<n} \<subseteq> {i. \<exists>e. answer run i = Inl e \<and> shouldRetry opts e i}" by auto
  with r show ?thesis by (auto simp: settled_at_def split: retry_outcome.splits)
qed

section \<open>The delays\<close>

lemma js_round_ge: "of_int z \<le> q \<Longrightarrow> z \<le> js_round q"
  by (simp add: js_round_def le_floor_iff) 

lemma resolveRetryDelayMs_range: "0 \<le> resolveRetryDelayMs v" "resolveRetryDelayMs v \<le> MAX_TIMER_TIMEOUT_MS"
  by (simp_all add: resolveRetryDelayMs_def MAX_TIMER_TIMEOUT_MS_def)

lemma config_range:
  "0 \<le> minDelayMs (configOf opts)" "minDelayMs (configOf opts) \<le> maxDelayMs (configOf opts)"
  by (simp_all add: configOf_def resolveRetryConfig_def Let_def resolveRetryDelayMs_range)

lemma caps_above_min:
  "maxDelayCap opts = Some c \<Longrightarrow> of_int (minDelayMs (configOf opts)) \<le> c"
  "retryAfterCap opts = Some c \<Longrightarrow> of_int (minDelayMs (configOf opts)) \<le> c"
  using config_range [of opts]
  by (auto simp: maxDelayCap_def retryAfterCap_def Let_def split: if_splits option.splits)

lemma positive_jitter_ge:
  assumes "0 \<le> d" and "0 \<le> draw" and "j = FullJitter \<or> (\<exists>f. j = Fraction f)"
  shows "d \<le> applyJitter d j Positive draw"
proof (cases j)
  case FullJitter
  have "d \<le> d * (1 + draw)" using assms(1,2) by (simp add: distrib_left)
  also have "\<dots> \<le> of_int (max 0 \<lceil>d * (1 + draw)\<rceil>)" by linarith
  finally show ?thesis by (simp add: FullJitter applyJitter_def)
next
  case (Fraction f)
  show ?thesis
  proof (cases "f \<le> 0")
    case False
    then have "d \<le> d * (1 + draw * f)" using assms(1,2) by (simp add: distrib_left)
    also have "\<dots> \<le> of_int (max 0 \<lceil>d * (1 + draw * f)\<rceil>)" by linarith
    finally show ?thesis using False by (simp add: Fraction applyJitter_def)
  qed (simp add: Fraction applyJitter_def)
qed

text \<open>
  C21. Every pause lies between the configured minimum and the cap that applies, whatever the
  jitter and the draw, and a server's Retry-After hint that fits under the cap is a lower bound:
  no jitter makes the runner come back before the server asked it to.
\<close>

theorem retry_delay_honours_hint:
  assumes "0 \<le> draw"
  shows "of_int (minDelayMs (configOf opts)) \<le> retryDelay opts n err draw \<and>
    (case finite_num (retryAfterMs opts err) of
       Some h \<Rightarrow>
         (case retryAfterCap opts of
            None \<Rightarrow> h \<le> retryDelay opts n err draw
          | Some c \<Rightarrow> retryDelay opts n err draw \<le> c \<and> \<not> (retryDelay opts n err draw < h \<and> h \<le> c))
     | None \<Rightarrow> (case maxDelayCap opts of None \<Rightarrow> True | Some c \<Rightarrow> retryDelay opts n err draw \<le> c))"
proof -
  let ?low = "of_int (minDelayMs (configOf opts)) :: rat"
  let ?d = "retryDelay opts n err draw"
  have low: "0 \<le> ?low" using config_range(1) [of opts] by simp
  have cap_ok: "?low \<le> capped (max x ?low) cap \<and> (case cap of None \<Rightarrow> True | Some c \<Rightarrow> capped (max x ?low) cap \<le> c)"
    if "case cap of None \<Rightarrow> True | Some c \<Rightarrow> ?low \<le> c" for x cap
    using that by (simp add: capped_def split: option.splits)
  have caps: "case maxDelayCap opts of None \<Rightarrow> True | Some c \<Rightarrow> ?low \<le> c"
    "case retryAfterCap opts of None \<Rightarrow> True | Some c \<Rightarrow> ?low \<le> c"
    by (auto simp: caps_above_min split: option.split)
  show ?thesis
  proof (cases "finite_num (retryAfterMs opts err)")
    case None
    then obtain x where "?d = capped (max x ?low) (maxDelayCap opts)"
      unfolding retryDelay_def Let_def by simp
    with None cap_ok [OF caps(1), of x] show ?thesis by (simp split: option.splits)
  next
    case (Some h)
    let ?cap = "retryAfterCap opts"
    let ?honour = "case ?cap of None \<Rightarrow> True | Some c \<Rightarrow> h \<le> c"
    define x where "x = applyJitter (capped (max h ?low) ?cap) (jitter (configOf opts)) (if ?honour then Positive else Symmetric) draw"
    have d: "?d = capped (max x ?low) ?cap"
      unfolding retryDelay_def Let_def x_def using Some by simp
    have "h \<le> x" if ?honour
    proof -
      have "0 \<le> capped (max h ?low) ?cap" "h \<le> capped (max h ?low) ?cap"
        using low caps(2) that by (simp_all add: capped_def split: option.splits)
      moreover have "capped (max h ?low) ?cap \<le> x"
        unfolding x_def using that calculation(1) assms
        by (simp add: positive_jitter_ge jitter_mode.nchotomy)
      ultimately show ?thesis by linarith
    qed
    then have "h \<le> ?d" if ?honour
      using that unfolding d by (auto simp: capped_def split: option.splits)
    with Some cap_ok [OF caps(2), of x] show ?thesis unfolding d by (auto split: option.splits)
  qed
qed

definition sample_retry :: "string retry_options" where
  "sample_retry = \<lparr>overrides = \<lparr>o_attempts = Some (JFin 2), o_minDelayMs = Some (JFin 0), o_maxDelayMs = Some (JFin 10),
     o_jitter = Some (Inl (JFin (1 / 2)))\<rparr>, shouldRetry = (\<lambda>_ _. True), retryAfterMs = (\<lambda>_. Some (JFin (7 / 5))),
     retryAfterMaxDelayMs = None, delayOf = (\<lambda>_ _. None)\<rparr>"

lemma retry_delay_honours_hint_witness:
  "\<not> (retryDelay sample_retry 1 ''busy'' 0 < 7 / 5) \<and> of_int (minDelayMs (configOf sample_retry)) \<le> retryDelay sample_retry 1 ''busy'' 0"
proof -
  have halves: "\<lfloor>1 / 2 :: rat\<rfloor> = 0" "\<lfloor>21 / 2 :: rat\<rfloor> = 10"
    by (rule floor_unique; simp)+
  have cap: "retryAfterCap sample_retry = Some 10" "finite_num (retryAfterMs sample_retry ''busy'') = Some (7 / 5)"
    by (simp_all add: halves sample_retry_def retryAfterCap_def maxDelayCap_def configOf_def resolveRetryConfig_def Let_def
        clampNumber_def resolveRetryDelayMs_def js_round_def MAX_TIMER_TIMEOUT_MS_def)
  from retry_delay_honours_hint [of 0 sample_retry 1 "''busy''"] show ?thesis by (simp add: cap)
qed

section \<open>One pending retry\<close>

definition sv_inv :: "supervisor \<Rightarrow> bool" where
  "sv_inv s \<longleftrightarrow> (\<forall>c < controllers s. c \<in> set (abortedControllers s) \<or> pendingAbort s = Some c)"

lemma sv_cancel_inv: "sv_inv s \<Longrightarrow> sv_inv (sv_cancel s)"
  by (cases "pendingAbort s") (auto simp: sv_inv_def sv_cancel_def)

lemma sv_inv_fields:
  "sv_inv (s\<lparr>nextDelayOverrideMs := d\<rparr>) = sv_inv s" "sv_inv (s\<lparr>sv_attempts := a\<rparr>) = sv_inv s"
  "sv_inv (s\<lparr>sv_initialMs := i\<rparr>) = sv_inv s"
  by (simp_all add: sv_inv_def)

lemma sv_inv_new_controller:
  assumes "sv_inv s" and "pendingAbort s = None"
  shows "sv_inv (s\<lparr>pendingAbort := Some (controllers s), controllers := controllers s + 1\<rparr>)"
  using assms by (auto simp: sv_inv_def less_Suc_eq)

lemma sv_next_inv: "sv_inv s \<Longrightarrow> sv_inv (snd (sv_next s draw))"
proof -
  assume inv: "sv_inv s"
  have "sv_inv ((sv_cancel t)\<lparr>pendingAbort := Some (controllers (sv_cancel t)), controllers := controllers (sv_cancel t) + 1\<rparr>)"
    if "sv_inv t" for t
    by (rule sv_inv_new_controller [OF sv_cancel_inv [OF that]]) (simp add: sv_cancel_def)
  with inv show ?thesis
    unfolding sv_next_def Let_def by (simp add: sv_inv_fields)
qed

lemma sv_step_inv: "sv_inv s \<Longrightarrow> sv_inv (sv_step s e)"
  by (cases e) (simp_all add: sv_next_inv sv_cancel_inv sv_reset_def sv_inv_fields)

lemma supervisor_keeps_one_pending:
  assumes "s = foldl sv_step (newSupervisor policy limit) es" and "c < controllers s" and "c \<notin> set (abortedControllers s)"
  shows "pendingAbort s = Some c"
proof -
  have "sv_inv (foldl sv_step (newSupervisor policy limit) es)"
    by (induction es rule: rev_induct) (simp_all add: sv_step_inv, simp add: sv_inv_def newSupervisor_def)
  with assms show ?thesis by (cases "pendingAbort s") (auto simp: sv_inv_def)
qed

end
