(* ===== verification/AuthProfileOrder.thy ===== *)
theory AuthProfileOrder
  imports AuthProfileUsage "HOL-Library.Product_Lexorder" "HOL-Library.Option_ord"
begin

text \<open>
  \<^verbatim>\<open>src/agents/auth-profiles/order.ts\<close>, with \<^verbatim>\<open>credential-state.ts\<close> and \<^verbatim>\<open>profile-list.ts\<close>: which credentials
  of a provider may be used, and in which order they are tried. The alias maps of
  \<^verbatim>\<open>provider-auth-aliases.ts\<close> come from the manifests of the installed plugins and are data here, one
  computed with the configuration and one without. Array sorting is stable in the language.
\<close>

section \<open>Credential eligibility\<close>

datatype expiry_state = ExpiryMissing | ExpiryValid | ExpiryExpiring | ExpiryExpired | ExpiryInvalid

definition resolveTokenExpiryState :: "jsval option \<Rightarrow> rat \<Rightarrow> rat \<Rightarrow> expiry_state" where
  "resolveTokenExpiryState expires now expiringWithinMs =
     (case expires of
        None \<Rightarrow> ExpiryMissing
      | Some (VNum (JFin e)) \<Rightarrow>
          if e \<le> 0 \<or> e > of_int MAX_DATE_TIMESTAMP_MS then ExpiryInvalid
          else if e - now \<le> 0 then ExpiryExpired
          else if max 0 expiringWithinMs > 0 \<and> e - now \<le> max 0 expiringWithinMs then ExpiryExpiring
          else ExpiryValid
      | Some _ \<Rightarrow> ExpiryInvalid)"

definition normalizeSecretInputString :: "string option \<Rightarrow> string option" where
  "normalizeSecretInputString v =
     (case v of Some s \<Rightarrow> (if js_trim s = [] then None else Some (js_trim s)) | None \<Rightarrow> None)"

definition hasUsableOAuthCredential :: "credential option \<Rightarrow> rat \<Rightarrow> rat option \<Rightarrow> bool" where
  "hasUsableOAuthCredential cred now marginMs \<longleftrightarrow>
     (case cred of
        Some (OAuth _ access _ _ expires _) \<Rightarrow>
          normalizeSecretInputString access \<noteq> None \<and>
          resolveTokenExpiryState expires now (max 0 (case marginMs of Some m \<Rightarrow> m | None \<Rightarrow> 5 * 60 * 1000)) = ExpiryValid
      | _ \<Rightarrow> False)"

text \<open>
  The pattern \<^verbatim>\<open>/^openclaw\s+onboard(?:\s+.*)?\s+--auth-choice(?:\s|=|$)/i\<close>: what follows the command
  is split before the option at some position; a dot matches no line terminator.
\<close>

definition is_line_end :: "char \<Rightarrow> bool" where
  "is_line_end c \<longleftrightarrow> c = CHR 0x0A \<or> c = CHR 0x0D"

definition option_follows :: "string \<Rightarrow> bool" where
  "option_follows rest \<longleftrightarrow>
     list_ex (\<lambda>i.
       let before = take i rest; after = drop i rest; gap = takeWhile is_js_space (rev before);
           middle = rev (dropWhile is_js_space (rev before))
       in take 13 after = ''--auth-choice'' \<and> gap \<noteq> [] \<and>
          (drop 13 after = [] \<or> is_js_space (hd (drop 13 after)) \<or> hd (drop 13 after) = CHR ''='') \<and>
          (middle = [] \<or> is_js_space (hd middle) \<and> \<not> list_ex is_line_end (dropWhile is_js_space middle)))
       [0 ..< Suc (length rest)]"

definition isMalformedApiKeyInput :: "string option \<Rightarrow> bool" where
  "isMalformedApiKeyInput v \<longleftrightarrow>
     (case normalizeSecretInputString v of
        None \<Rightarrow> False
      | Some s \<Rightarrow>
          let t = normalizeLowercaseStringOrEmpty (VStr s); r = drop 8 t; q = dropWhile is_js_space r
          in take 8 t = ''openclaw'' \<and> q \<noteq> r \<and> take 7 q = ''onboard'' \<and> option_follows (drop 7 q))"

datatype eligibility =
    Ok | MissingCredential | InvalidExpires | ExpiredCredential | UnresolvedRef | MalformedApiKey
  | ProfileMissing | ProviderMismatch | ModeMismatch

definition evaluateStoredCredentialEligibility :: "credential \<Rightarrow> rat \<Rightarrow> eligibility" where
  "evaluateStoredCredentialEligibility cred now =
     (case cred of
        ApiKey _ key keyRef \<Rightarrow>
          if isMalformedApiKeyInput key then MalformedApiKey
          else if normalizeSecretInputString key = None \<and> \<not> keyRef then MissingCredential
          else Ok
      | Token _ token tokenRef expires \<Rightarrow>
          if normalizeSecretInputString token = None \<and> \<not> tokenRef then MissingCredential
          else (case resolveTokenExpiryState expires now 0 of
                  ExpiryInvalid \<Rightarrow> InvalidExpires
                | ExpiryExpired \<Rightarrow> ExpiredCredential
                | _ \<Rightarrow> Ok)
      | OAuth _ access refresh oauthRef _ _ \<Rightarrow>
          if normalizeSecretInputString access = None \<and> normalizeSecretInputString refresh = None
          then (if oauthRef then UnresolvedRef else MissingCredential)
          else Ok)"

section \<open>Compatibility with a provider\<close>

record auth_env =
  aliases :: "(string, string) jsmap"
  plainAliases :: "(string, string) jsmap"

record auth_config =
  cfgProfiles :: "(string, string \<times> string) jsmap option"
  cfgOrder :: "(string, string list) jsmap option"
  cfgProviderAuth :: "(string, string option) jsmap option"

definition resolveProviderIdForAuth :: "(string, string) jsmap \<Rightarrow> string \<Rightarrow> string" where
  "resolveProviderIdForAuth aliasMap provider =
     (let normalized = normalizeProviderId provider in
      if normalized = [] then normalized
      else case jm_get aliasMap normalized of Some t \<Rightarrow> t | None \<Rightarrow> normalized)"

definition findNormalizedProviderValue :: "(string, 'v) jsmap option \<Rightarrow> string \<Rightarrow> 'v option" where
  "findNormalizedProviderValue entries provider =
     (case entries of
        None \<Rightarrow> None
      | Some m \<Rightarrow> map_option snd (find (\<lambda>(k, v). normalizeProviderId k = normalizeProviderId provider) m))"

fun credType :: "credential \<Rightarrow> string" where
  "credType (ApiKey _ _ _) = ''api_key''"
| "credType (Token _ _ _ _) = ''token''"
| "credType (OAuth _ _ _ _ _ _) = ''oauth''"

definition isOpenAIApiKeyCompatibleWithCodexAuth ::
    "auth_env \<Rightarrow> string \<Rightarrow> credential option \<Rightarrow> string \<Rightarrow> string option \<Rightarrow> bool" where
  "isOpenAIApiKeyCompatibleWithCodexAuth env providerAuthKey cred profileProvider profileMode \<longleftrightarrow>
     providerAuthKey = ''openai'' \<and>
     resolveProviderIdForAuth (aliases env) profileProvider = ''openai'' \<and>
     (case cred of Some c \<Rightarrow> Some (credType c) | None \<Rightarrow> profileMode) = Some ''api_key''"

definition isCredentialProviderCompatibleWithAuthProvider :: "auth_env \<Rightarrow> string \<Rightarrow> credential \<Rightarrow> bool" where
  "isCredentialProviderCompatibleWithAuthProvider env providerAuthKey cred \<longleftrightarrow>
     resolveProviderIdForAuth (aliases env) (credProvider cred) = providerAuthKey \<or>
     isOpenAIApiKeyCompatibleWithCodexAuth env providerAuthKey (Some cred) (credProvider cred) None"

definition isStoredCredentialCompatibleWithAuthProvider :: "auth_env \<Rightarrow> string \<Rightarrow> credential \<Rightarrow> bool" where
  "isStoredCredentialCompatibleWithAuthProvider env provider cred =
     isCredentialProviderCompatibleWithAuthProvider env (resolveProviderIdForAuth (aliases env) provider) cred"

definition isConfiguredProfileCompatibleWithAuthProvider ::
    "auth_env \<Rightarrow> string \<Rightarrow> string \<Rightarrow> string option \<Rightarrow> credential option \<Rightarrow> bool" where
  "isConfiguredProfileCompatibleWithAuthProvider env providerAuthKey provider mode cred \<longleftrightarrow>
     resolveProviderIdForAuth (aliases env) provider = providerAuthKey \<or>
     isOpenAIApiKeyCompatibleWithCodexAuth env providerAuthKey cred provider mode"

definition listProfilesForProvider :: "auth_env \<Rightarrow> auth_store \<Rightarrow> string \<Rightarrow> string list" where
  "listProfilesForProvider env store provider =
     map fst (filter (\<lambda>(pid, cred).
       resolveProviderIdForAuth (plainAliases env) (credProvider cred) = resolveProviderIdForAuth (plainAliases env) provider)
       (profiles store))"

definition listProfilesCompatibleWithAuthProvider :: "auth_env \<Rightarrow> auth_store \<Rightarrow> string \<Rightarrow> string \<Rightarrow> string list" where
  "listProfilesCompatibleWithAuthProvider env store provider providerAuthKey =
     (if providerAuthKey \<noteq> ''openai'' then listProfilesForProvider env store provider
      else map fst (filter (\<lambda>(pid, cred). isCredentialProviderCompatibleWithAuthProvider env providerAuthKey cred) (profiles store)))"

definition providerAllowsAwsSdkAuth :: "auth_config \<Rightarrow> string \<Rightarrow> bool" where
  "providerAllowsAwsSdkAuth cfg provider \<longleftrightarrow>
     (case findNormalizedProviderValue (cfgProviderAuth cfg) provider of Some a \<Rightarrow> a = Some ''aws-sdk'' | None \<Rightarrow> False)"

definition cfgProfile :: "auth_config \<Rightarrow> string \<Rightarrow> (string \<times> string) option" where
  "cfgProfile cfg profileId = (case cfgProfiles cfg of None \<Rightarrow> None | Some m \<Rightarrow> jm_get m profileId)"

definition isConfiguredAwsSdkAuthProfileForProvider :: "auth_env \<Rightarrow> auth_config \<Rightarrow> string \<Rightarrow> string \<Rightarrow> bool" where
  "isConfiguredAwsSdkAuthProfileForProvider env cfg provider profileId \<longleftrightarrow>
     (case cfgProfile cfg profileId of
        None \<Rightarrow> False
      | Some (p, mode) \<Rightarrow>
          mode = ''aws-sdk'' \<and>
          resolveProviderIdForAuth (aliases env) p = resolveProviderIdForAuth (aliases env) provider \<and>
          providerAllowsAwsSdkAuth cfg provider)"

definition resolveAuthProfileEligibility ::
    "auth_env \<Rightarrow> auth_config \<Rightarrow> auth_store \<Rightarrow> string \<Rightarrow> string \<Rightarrow> rat \<Rightarrow> eligibility" where
  "resolveAuthProfileEligibility env cfg store provider profileId now =
     (let key = resolveProviderIdForAuth (aliases env) provider in
      case jm_get (profiles store) profileId of
        None \<Rightarrow> if isConfiguredAwsSdkAuthProfileForProvider env cfg provider profileId then Ok else ProfileMissing
      | Some cred \<Rightarrow>
          if \<not> isCredentialProviderCompatibleWithAuthProvider env key cred then ProviderMismatch
          else
            (case cfgProfile cfg profileId of
               None \<Rightarrow> evaluateStoredCredentialEligibility cred now
             | Some (p, mode) \<Rightarrow>
                 if \<not> isConfiguredProfileCompatibleWithAuthProvider env key p (Some mode) (Some cred) then ProviderMismatch
                 else if mode \<noteq> credType cred \<and> \<not> (mode = ''oauth'' \<and> credType cred = ''token'') then ModeMismatch
                 else evaluateStoredCredentialEligibility cred now))"

section \<open>The order\<close>

definition dedupeProfileIds :: "string list \<Rightarrow> string list" where
  "dedupeProfileIds ids = foldl (\<lambda>seen i. if i \<in> set seen then seen else seen @ [i]) [] ids"

definition mergeAliasOrderWithNativeProfiles :: "string list \<Rightarrow> string list \<Rightarrow> string list" where
  "mergeAliasOrderWithNativeProfiles aliasOrder native =
     dedupeProfileIds (if list_ex (\<lambda>i. i \<in> set native) aliasOrder then aliasOrder @ native else native @ aliasOrder)"

definition typeScore :: "credential option \<Rightarrow> nat" where
  "typeScore cred =
     (case cred of Some (OAuth _ _ _ _ _ _) \<Rightarrow> 0 | Some (Token _ _ _ _) \<Rightarrow> 1 | Some (ApiKey _ _ _) \<Rightarrow> 2 | None \<Rightarrow> 3)"

definition lastUsedOf :: "auth_store \<Rightarrow> string \<Rightarrow> rat" where
  "lastUsedOf store i =
     (case statsOf store i of Some st \<Rightarrow> (case lastUsed st of Some t \<Rightarrow> t | None \<Rightarrow> 0) | None \<Rightarrow> 0)"

definition cooldownUntilOf :: "auth_store \<Rightarrow> rat \<Rightarrow> string \<Rightarrow> rat" where
  "cooldownUntilOf store now i =
     (case resolveProfileUnusableUntil (previousStats store i) of Some u \<Rightarrow> u | None \<Rightarrow> now)"

definition orderProfilesByMode :: "string list \<Rightarrow> auth_store \<Rightarrow> rat \<Rightarrow> string option \<Rightarrow> string list" where
  "orderProfilesByMode ids store now forModel =
     sort_key (\<lambda>i. (typeScore (jm_get (profiles store) i), lastUsedOf store i))
       (filter (\<lambda>i. \<not> isProfileInCooldown store i now forModel) ids) @
     sort_key (cooldownUntilOf store now) (filter (\<lambda>i. isProfileInCooldown store i now forModel) ids)"

definition preferredFirst :: "string option \<Rightarrow> string list \<Rightarrow> string list" where
  "preferredFirst preferred ordered =
     (case preferred of
        Some p \<Rightarrow> if p \<noteq> [] \<and> p \<in> set ordered then p # filter (\<lambda>i. i \<noteq> p) ordered else ordered
      | None \<Rightarrow> ordered)"

definition orElse :: "'a option \<Rightarrow> 'a option \<Rightarrow> 'a option" where
  "orElse a b = (case a of Some x \<Rightarrow> Some x | None \<Rightarrow> b)"

record order_params =
  op_provider :: string
  op_preferred :: "string option"
  op_forModel :: "string option"
  op_readOnly :: bool

text \<open>Where the candidates come from: the explicit order, whether the store wrote it, the fallbacks.\<close>

record order_sources =
  explicitOrder :: "string list option"
  explicitFromStore :: bool
  explicitProfiles :: "string list"
  storeProfiles :: "string list"

definition orderSources :: "auth_env \<Rightarrow> auth_config \<Rightarrow> auth_store \<Rightarrow> string \<Rightarrow> order_sources" where
  "orderSources env cfg store provider =
     (let providerKey = normalizeProviderId provider;
          authKey = resolveProviderIdForAuth (aliases env) provider;
          alias = (authKey = ''openai'' \<or> providerKey = ''openai'');
          directStored = orElse (findNormalizedProviderValue (order store) authKey) (findNormalizedProviderValue (order store) providerKey);
          aliasStored = (if alias then findNormalizedProviderValue (order store) ''openai'' else None);
          directConfigured = orElse (findNormalizedProviderValue (cfgOrder cfg) authKey) (findNormalizedProviderValue (cfgOrder cfg) providerKey);
          aliasConfigured = (if alias then findNormalizedProviderValue (cfgOrder cfg) ''openai'' else None);
          directExplicit = orElse directStored directConfigured;
          aliasExplicit = orElse aliasStored aliasConfigured;
          stored = listProfilesCompatibleWithAuthProvider env store provider authKey;
          native = (if alias \<and> authKey = ''openai''
                    then filter (\<lambda>i. case jm_get (profiles store) i of
                                      Some cred \<Rightarrow> resolveProviderIdForAuth (aliases env) (credProvider cred) = authKey
                                    | None \<Rightarrow> False) stored
                    else [])
      in \<lparr>explicitOrder = orElse directExplicit (map_option (\<lambda>o'. mergeAliasOrderWithNativeProfiles o' native) aliasExplicit),
          explicitFromStore = (directStored \<noteq> None \<or> directExplicit = None \<and> aliasStored \<noteq> None),
          explicitProfiles =
            (case cfgProfiles cfg of
               None \<Rightarrow> []
             | Some m \<Rightarrow> map fst (filter (\<lambda>(i, p, mode).
                 isConfiguredProfileCompatibleWithAuthProvider env authKey p (Some mode) (jm_get (profiles store) i)) m)),
          storeProfiles = stored\<rparr>)"

definition isValidProfile :: "auth_env \<Rightarrow> auth_config \<Rightarrow> auth_store \<Rightarrow> order_params \<Rightarrow> rat \<Rightarrow> string \<Rightarrow> bool" where
  "isValidProfile env cfg store ps now i \<longleftrightarrow>
     (let e = resolveAuthProfileEligibility env cfg store (op_provider ps) i now in e = Ok \<or> op_readOnly ps \<and> e = UnresolvedRef)"

text \<open>The candidates that remain, and whether they are the repaired fallback.\<close>

definition orderCandidates :: "auth_env \<Rightarrow> auth_config \<Rightarrow> auth_store \<Rightarrow> order_params \<Rightarrow> rat \<Rightarrow> order_sources \<Rightarrow> string list \<times> bool" where
  "orderCandidates env cfg store ps now src =
     (let baseOrder = (case explicitOrder src of
            Some o' \<Rightarrow> o' | None \<Rightarrow> if explicitProfiles src \<noteq> [] then explicitProfiles src else storeProfiles src);
          valid = filter (isValidProfile env cfg store ps now) baseOrder
      in if valid = [] \<and> list_all (\<lambda>i. jm_get (profiles store) i = None) baseOrder \<and> baseOrder \<noteq> [] \<and>
            (explicitFromStore src \<or> explicitProfiles src \<noteq> [])
         then (dedupeProfileIds (filter (isValidProfile env cfg store ps now) (storeProfiles src)), True)
         else (dedupeProfileIds valid, False))"

definition resolveAuthProfileOrderWithMetadata ::
    "auth_env \<Rightarrow> auth_config \<Rightarrow> auth_store \<Rightarrow> order_params \<Rightarrow> rat \<Rightarrow> string list \<times> bool \<times> auth_store" where
  "resolveAuthProfileOrderWithMetadata env cfg store0 ps now =
     (let store = snd (clearExpiredCooldowns store0 now);
          src = orderSources env cfg store (op_provider ps);
          explicit = explicitOrder src;
          (candidates, repaired) = orderCandidates env cfg store ps now src;
          ordered =
            (if explicit \<noteq> None \<and> explicit \<noteq> Some [] \<and> \<not> repaired
             then filter (\<lambda>i. \<not> isProfileInCooldown store i now (op_forModel ps)) candidates @
                  sort_key (cooldownUntilOf store now)
                    (filter (\<lambda>i. isProfileInCooldown store i now (op_forModel ps)) candidates)
             else orderProfilesByMode candidates store now (op_forModel ps))
      in (preferredFirst (op_preferred ps) ordered, explicit \<noteq> None, store))"

section \<open>Successful use\<close>

definition markAuthProfileSuccess :: "auth_env \<Rightarrow> auth_store \<Rightarrow> string \<Rightarrow> string \<Rightarrow> rat \<Rightarrow> auth_store option" where
  "markAuthProfileSuccess env store provider profileId now =
     (let key = resolveProviderIdForAuth (plainAliases env) provider in
      case jm_get (profiles store) profileId of
        None \<Rightarrow> None
      | Some cred \<Rightarrow>
          if resolveProviderIdForAuth (plainAliases env) (credProvider cred) \<noteq> key then None
          else Some (updateUsageStatsEntry
            (store\<lparr>lastGood := Some (jm_set key profileId (case lastGood store of Some m \<Rightarrow> m | None \<Rightarrow> []))\<rparr>)
            profileId ((resetUsageStats (previousStats store profileId))\<lparr>lastUsed := Some now\<rparr>)))"

section \<open>What the order promises\<close>

lemma dedupe_step:
  "distinct (foldl (\<lambda>seen i. if i \<in> set seen then seen else seen @ [i]) acc ids) = distinct acc"
  "set (foldl (\<lambda>seen i. if i \<in> set seen then seen else seen @ [i]) acc ids) = set acc \<union> set ids"
  by (induction ids arbitrary: acc) auto

lemma dedupe [simp]: "distinct (dedupeProfileIds ids)" "set (dedupeProfileIds ids) = set ids"
  by (simp_all add: dedupeProfileIds_def dedupe_step)

lemma preferredFirst_set [simp]: "set (preferredFirst p ids) = set ids"
  by (auto simp: preferredFirst_def split: option.split)

lemma preferredFirst_distinct [simp]: "distinct ids \<Longrightarrow> distinct (preferredFirst p ids)"
  by (auto simp: preferredFirst_def split: option.split)

lemma candidates_valid:
  "distinct (fst (orderCandidates env cfg store ps now src))"
  "set (fst (orderCandidates env cfg store ps now src)) \<subseteq> Collect (isValidProfile env cfg store ps now)"
  by (auto simp: orderCandidates_def Let_def)

text \<open>The order before the preferred profile is moved to the front.\<close>

definition rotation :: "auth_store \<Rightarrow> rat \<Rightarrow> string option \<Rightarrow> string list \<Rightarrow> string list \<Rightarrow> string list \<Rightarrow> bool" where
  "rotation store now forModel candidates av cool \<longleftrightarrow>
     distinct (av @ cool) \<and> set av = {i \<in> set candidates. \<not> isProfileInCooldown store i now forModel} \<and>
     set cool = {i \<in> set candidates. isProfileInCooldown store i now forModel} \<and>
     sorted (map (cooldownUntilOf store now) cool)"

lemma rotation_intro:
  assumes "distinct candidates"
  shows "rotation store now m candidates (filter (\<lambda>i. \<not> isProfileInCooldown store i now m) candidates)
      (sort_key (cooldownUntilOf store now) (filter (\<lambda>i. isProfileInCooldown store i now m) candidates))"
    and "rotation store now m candidates (sort_key f (filter (\<lambda>i. \<not> isProfileInCooldown store i now m) candidates))
      (sort_key (cooldownUntilOf store now) (filter (\<lambda>i. isProfileInCooldown store i now m) candidates))"
  using assms by (auto simp: rotation_def)

lemma order_shape:
  fixes store0 now
  defines "store \<equiv> snd (clearExpiredCooldowns store0 now)"
  shows "\<exists>candidates av cool. fst (resolveAuthProfileOrderWithMetadata env cfg store0 ps now) = preferredFirst (op_preferred ps) (av @ cool) \<and>
    rotation store now (op_forModel ps) candidates av cool \<and> set candidates \<subseteq> Collect (isValidProfile env cfg store ps now)"
proof -
  define src where "src = orderSources env cfg store (op_provider ps)"
  obtain candidates repaired where c: "orderCandidates env cfg store ps now src = (candidates, repaired)"
    by (cases "orderCandidates env cfg store ps now src")
  have v: "distinct candidates" "set candidates \<subseteq> Collect (isValidProfile env cfg store ps now)"
    using candidates_valid [where env = env and cfg = cfg and store = store and ps = ps and now = now and src = src]
    by (simp_all add: c)
  note rotations = rotation_intro [OF v(1), of store now "op_forModel ps"]
  have r: "fst (resolveAuthProfileOrderWithMetadata env cfg store0 ps now) = preferredFirst (op_preferred ps)
      (if explicitOrder src \<noteq> None \<and> explicitOrder src \<noteq> Some [] \<and> \<not> repaired
       then filter (\<lambda>i. \<not> isProfileInCooldown store i now (op_forModel ps)) candidates @
         sort_key (cooldownUntilOf store now) (filter (\<lambda>i. isProfileInCooldown store i now (op_forModel ps)) candidates)
       else orderProfilesByMode candidates store now (op_forModel ps))"
    by (simp add: resolveAuthProfileOrderWithMetadata_def store_def [symmetric] Let_def src_def [symmetric] c)
  show ?thesis
  proof (cases "explicitOrder src \<noteq> None \<and> explicitOrder src \<noteq> Some [] \<and> \<not> repaired")
    case True
    with r rotations(1) v(2) show ?thesis by auto
  next
    case False
    with r rotations(2) v(2) show ?thesis by (auto simp: orderProfilesByMode_def)
  qed
qed

lemma rotation_filters:
  assumes "rotation store now m candidates av cool"
  shows "filter (\<lambda>i. \<not> isProfileInCooldown store i now m) (av @ cool) = av"
    and "filter (\<lambda>i. isProfileInCooldown store i now m) (av @ cool) = cool"
  using assms by (auto simp: rotation_def filter_id_conv filter_empty_conv)

text \<open>
  C29. The rotation is sound: the ids returned are distinct and each of them is eligible at
  that moment, and unless a profile is preferred every profile out of cooldown comes before every
  profile in cooldown, those sorted by the end of their windows, whatever explicit orders, aliases,
  fallbacks and repairs apply. Clearing the expired windows on the way does not change who counts as
  cooling down.
\<close>

theorem profile_order_sound:
  assumes "ids = fst (resolveAuthProfileOrderWithMetadata env cfg store ps now)"
    and "cools = (\<lambda>i. isProfileInCooldown store i now (op_forModel ps))"
  shows "distinct ids \<and> list_all (isValidProfile env cfg (snd (clearExpiredCooldowns store now)) ps now) ids \<and>
    (op_preferred ps = None \<longrightarrow>
       ids = filter (\<lambda>i. \<not> cools i) ids @ filter cools ids \<and>
       sorted (map (cooldownUntilOf (snd (clearExpiredCooldowns store now)) now) (filter cools ids)))"
proof -
  obtain candidates av cool where ids: "ids = preferredFirst (op_preferred ps) (av @ cool)"
    and rot: "rotation (snd (clearExpiredCooldowns store now)) now (op_forModel ps) candidates av cool"
    and valid: "set candidates \<subseteq> Collect (isValidProfile env cfg (snd (clearExpiredCooldowns store now)) ps now)"
    using order_shape [of env cfg store ps now] assms(1) by auto
  have "distinct (av @ cool)" using rot unfolding rotation_def by (elim conjE)
  then have "distinct ids" by (simp only: ids preferredFirst_distinct)
  moreover have "set ids \<subseteq> set candidates" using rot by (auto simp: ids rotation_def)
  moreover have "ids = filter (\<lambda>i. \<not> cools i) ids @ filter cools ids \<and>
      sorted (map (cooldownUntilOf (snd (clearExpiredCooldowns store now)) now) (filter cools ids))" if "op_preferred ps = None"
    using rotation_filters [OF rot] rot that
    by (simp add: ids preferredFirst_def assms(2) clear_not_observable rotation_def)
  ultimately show ?thesis using valid by (auto simp: list_all_iff)
qed

text \<open>Two stored OAuth credentials, one of them cooling down.\<close>

definition sample_env :: auth_env where "sample_env = \<lparr>aliases = [], plainAliases = []\<rparr>"

definition sample_config :: auth_config where
  "sample_config = \<lparr>cfgProfiles = None, cfgOrder = None, cfgProviderAuth = None\<rparr>"

definition sample_store :: auth_store where
  "sample_store = \<lparr>profiles = [(''a'', ApiKey ''anthropic'' (Some ''k1'') False), (''b'', ApiKey ''anthropic'' (Some ''k2'') False)],
     order = None, lastGood = None, usageStats = Some [(''a'', no_stats\<lparr>cooldownUntil := Some 3000\<rparr>)]\<rparr>"

definition sample_params :: order_params where
  "sample_params = \<lparr>op_provider = ''anthropic'', op_preferred = None, op_forModel = None, op_readOnly = False\<rparr>"

lemma profile_order_sound_witness:
  "distinct (fst (resolveAuthProfileOrderWithMetadata sample_env sample_config sample_store sample_params 2000)) \<and>
   op_preferred sample_params = None"
  using profile_order_sound [OF refl refl, of sample_env sample_config sample_store sample_params 2000]
  by (simp add: sample_params_def)

section \<open>Round robin\<close>

lemma sorted_precedes:
  fixes f :: "'a \<Rightarrow> 'b::linorder"
  assumes "sorted (map f l)" and "p \<in> set l" and "q \<in> set l" and "f q < f p"
  shows "\<exists>xs ys. l = xs @ p # ys \<and> q \<in> set xs"
proof -
  obtain xs ys where l: "l = xs @ p # ys" using split_list [OF assms(2)] by blast
  with assms(1) have "\<forall>y \<in> set ys. f p \<le> f y" by (simp add: sorted_append)
  with assms(3,4) l show ?thesis by (auto dest!: leD)
qed

lemma success_stats:
  assumes "markAuthProfileSuccess env store provider p now = Some store'"
  shows "\<exists>g. store' = updateUsageStatsEntry (store\<lparr>lastGood := g\<rparr>) p ((resetUsageStats (previousStats store p))\<lparr>lastUsed := Some now\<rparr>)"
  using assms by (auto simp: markAuthProfileSuccess_def Let_def split: option.splits if_splits)

lemma stats_updated [simp]:
  "statsOf (updateUsageStatsEntry store p st) q = (if q = p then Some st else statsOf store q)"
  "profiles (updateUsageStatsEntry store p st) = profiles store"
  "statsOf (store\<lparr>lastGood := g\<rparr>) q = statsOf store q"
  by (simp_all add: statsOf_def updateUsageStatsEntry_def split: option.split)

lemma success_effect:
  assumes "markAuthProfileSuccess env store provider p now = Some store'"
  shows "profiles store' = profiles store" "lastUsedOf store' p = now" "q \<noteq> p \<Longrightarrow> lastUsedOf store' q = lastUsedOf store q"
  using success_stats [OF assms] by (auto simp: lastUsedOf_def)

text \<open>
  The rotation starves nobody: a profile that was just used goes behind every other
  available profile with the same kind of credential that was last used earlier, so the ones waiting
  longest are tried first.
\<close>

theorem used_profile_goes_last:
  assumes "markAuthProfileSuccess env store provider p now = Some store'"
    and "q \<noteq> p" and "lastUsedOf store q < now"
    and "typeScore (jm_get (profiles store) q) = typeScore (jm_get (profiles store) p)"
    and "{p, q} \<subseteq> {i \<in> set ids. \<not> isProfileInCooldown store' i t m}"
  shows "\<exists>xs ys. orderProfilesByMode ids store' t m = xs @ p # ys \<and> q \<in> set xs"
proof -
  let ?f = "\<lambda>i. (typeScore (jm_get (profiles store') i), lastUsedOf store' i)"
  let ?l = "sort_key ?f (filter (\<lambda>i. \<not> isProfileInCooldown store' i t m) ids)"
  have "?f q < ?f p" using success_effect [OF assms(1)] assms(2-4) by simp
  moreover have "p \<in> set ?l" "q \<in> set ?l" using assms(5) by simp_all
  moreover have "sorted (map ?f ?l)" by (rule sorted_sort_key)
  ultimately have "\<exists>xs ys. ?l = xs @ p # ys \<and> q \<in> set xs" by (intro sorted_precedes)
  then obtain xs ys where "?l = xs @ p # ys" "q \<in> set xs" by (elim exE conjE)
  then have "orderProfilesByMode ids store' t m = xs @ p # (ys @ sort_key (cooldownUntilOf store' t) (filter (\<lambda>i. isProfileInCooldown store' i t m) ids))"
    by (simp add: orderProfilesByMode_def)
  with \<open>q \<in> set xs\<close> show ?thesis by blast
qed

lemma success_available:
  assumes "markAuthProfileSuccess env store provider p now = Some store'"
  shows "\<not> isProfileInCooldown store' p t m"
proof -
  have "\<not> statsInCooldown ((resetUsageStats st)\<lparr>lastUsed := u\<rparr>) t m" for st u
    by (simp add: in_cooldown windows_def resetUsageStats_def)
  then show ?thesis using success_stats [OF assms] by (auto simp: isProfileInCooldown_def)
qed

lemma used_profile_goes_last_witness:
  "\<exists>store' xs ys. markAuthProfileSuccess sample_env (sample_store\<lparr>usageStats := None\<rparr>) ''anthropic'' ''a'' 5000 = Some store' \<and>
     orderProfilesByMode [''a'', ''b''] store' 6000 None = xs @ ''a'' # ys \<and> ''b'' \<in> set xs"
proof -
  let ?s = "sample_store\<lparr>usageStats := None\<rparr>"
  obtain store' where r: "markAuthProfileSuccess sample_env ?s ''anthropic'' ''a'' 5000 = Some store'"
    by (simp add: markAuthProfileSuccess_def sample_store_def sample_env_def Let_def)
  moreover have "\<not> isProfileInCooldown store' ''b'' 6000 None"
    using success_stats [OF r] by (elim exE) (simp add: isProfileInCooldown_def, simp add: sample_store_def statsOf_def)
  moreover have "lastUsedOf ?s ''b'' < 5000" "typeScore (jm_get (profiles ?s) ''b'') = typeScore (jm_get (profiles ?s) ''a'')"
    by (simp_all add: lastUsedOf_def statsOf_def sample_store_def typeScore_def)
  ultimately show ?thesis
    using used_profile_goes_last [OF r, of "''b''" "[''a'', ''b'']" 6000 None] success_available [OF r] by auto
qed

end
