(* ===== verification/SessionAuthOverride.thy ===== *)
theory SessionAuthOverride
  imports AuthProfileOrder
begin

text \<open>
  \<^verbatim>\<open>src/agents/auth-profiles/session-override.ts\<close>: which profile a session sticks to, and when it
  rotates. The entry of the session is updated in memory; its write to the session store is the
  accessor's. A profile id is not empty, so that an empty text stands for no profile.
\<close>

datatype override_source = UserPick | AutoPick

record session_auth =
  authProfileOverride :: "string option"
  authProfileOverrideSource :: "override_source option"
  authProfileOverrideCompactionCount :: "int option"
  compactionCount :: "int option"
  updatedAt :: "rat option"

definition applySessionAuthProfileOverrideState ::
    "session_auth \<Rightarrow> string option \<Rightarrow> override_source option \<Rightarrow> int option \<Rightarrow> rat \<Rightarrow> session_auth" where
  "applySessionAuthProfileOverrideState entry profile source count now =
     entry\<lparr>authProfileOverride := profile, authProfileOverrideSource := source,
       authProfileOverrideCompactionCount := count,
       updatedAt := Some (max (case updatedAt entry of Some u \<Rightarrow> u | None \<Rightarrow> 0) now)\<rparr>"

definition clearSessionAuthProfileOverride :: "session_auth \<Rightarrow> rat \<Rightarrow> session_auth" where
  "clearSessionAuthProfileOverride entry now = applySessionAuthProfileOverrideState entry None None None now"

definition isProfileForProvider :: "auth_env \<Rightarrow> auth_config \<Rightarrow> auth_store \<Rightarrow> string list \<Rightarrow> string \<Rightarrow> bool" where
  "isProfileForProvider env cfg store providers profileId =
     (case jm_get (profiles store) profileId of
        Some cred \<Rightarrow>
          credProvider cred \<noteq> [] \<and> list_ex (\<lambda>p. isStoredCredentialCompatibleWithAuthProvider env p cred) providers
      | None \<Rightarrow> list_ex (\<lambda>p. isConfiguredAwsSdkAuthProfileForProvider env cfg p profileId) providers)"

definition uniqueProviders :: "string \<Rightarrow> string list option \<Rightarrow> string list" where
  "uniqueProviders provider accepted =
     (let candidates = (case accepted of Some (a # as) \<Rightarrow> a # as | _ \<Rightarrow> [provider])
      in dedupeProfileIds (filter (\<lambda>p. p \<noteq> []) (map js_trim candidates)))"

text \<open>The rotation of all accepted providers; resolving an order clears expired windows of the store.\<close>

definition sessionOrder :: "auth_env \<Rightarrow> auth_config \<Rightarrow> auth_store \<Rightarrow> string list \<Rightarrow> rat \<Rightarrow> string list \<times> auth_store" where
  "sessionOrder env cfg store providers now =
     (let (ids, store') = foldl (\<lambda>(ids, st) p.
            case resolveAuthProfileOrderWithMetadata env cfg st
                   \<lparr>op_provider = p, op_preferred = None, op_forModel = None, op_readOnly = False\<rparr> now of
              (found, _, st') \<Rightarrow> (ids @ found, st')) ([], store) providers
      in (dedupeProfileIds ids, store'))"

definition trimmedOverride :: "session_auth \<Rightarrow> string option" where
  "trimmedOverride entry =
     (case authProfileOverride entry of Some p \<Rightarrow> (if js_trim p = [] then None else Some (js_trim p)) | None \<Rightarrow> None)"

definition overrideSource :: "session_auth \<Rightarrow> override_source option" where
  "overrideSource entry =
     (case authProfileOverrideSource entry of
        Some s \<Rightarrow> Some s
      | None \<Rightarrow>
          if authProfileOverrideCompactionCount entry \<noteq> None then Some AutoPick
          else if trimmedOverride entry \<noteq> None then Some UserPick else None)"

text \<open>The override that is still usable at all: stored or configured, of the provider, in the order.\<close>

definition keptOverride :: "auth_env \<Rightarrow> auth_config \<Rightarrow> auth_store \<Rightarrow> string list \<Rightarrow> string list \<Rightarrow> session_auth \<Rightarrow> string option" where
  "keptOverride env cfg store providers ids entry =
     (case trimmedOverride entry of
        None \<Rightarrow> None
      | Some p \<Rightarrow>
          if jm_get (profiles store) p = None \<and>
             \<not> list_ex (\<lambda>q. isConfiguredAwsSdkAuthProfileForProvider env cfg q p) providers then None
          else if \<not> isProfileForProvider env cfg store providers p then None
          else if ids \<noteq> [] \<and> p \<notin> set ids \<and> overrideSource entry \<noteq> Some UserPick then None
          else Some p)"

definition pickFirstAvailable :: "string list \<Rightarrow> (string \<Rightarrow> bool) \<Rightarrow> string" where
  "pickFirstAvailable ids cool = (case find (\<lambda>p. \<not> cool p) ids of Some p \<Rightarrow> p | None \<Rightarrow> hd ids)"

definition indexOf :: "'a \<Rightarrow> 'a list \<Rightarrow> nat option" where
  "indexOf x xs = (if x \<in> set xs then Some (length (takeWhile (\<lambda>y. y \<noteq> x) xs)) else None)"

definition pickNextAvailable :: "string list \<Rightarrow> (string \<Rightarrow> bool) \<Rightarrow> string \<Rightarrow> string" where
  "pickNextAvailable ids cool active =
     (case indexOf active ids of
        None \<Rightarrow> pickFirstAvailable ids cool
      | Some start \<Rightarrow>
          (case find (\<lambda>p. p \<noteq> [] \<and> \<not> cool p) (map (\<lambda>offset. ids ! ((start + offset) mod length ids)) [1 ..< Suc (length ids)]) of
             Some p \<Rightarrow> p
           | None \<Rightarrow> ids ! start))"

text \<open>
  What takes the place of an override in cooldown (an empty id counts as none), and the profile to
  use next, given the override kept so far.
\<close>

definition replacementForUnusableCurrent :: "string list \<Rightarrow> (string \<Rightarrow> bool) \<Rightarrow> string option \<Rightarrow> string option" where
  "replacementForUnusableCurrent ids cool current =
     (case current of
        Some c \<Rightarrow>
          if cool c then (case find (\<lambda>p. p \<noteq> c \<and> \<not> cool p) ids of Some p \<Rightarrow> if p = [] then None else Some p | None \<Rightarrow> None)
          else None
      | None \<Rightarrow> None)"

definition nextProfile ::
    "string list \<Rightarrow> (string \<Rightarrow> bool) \<Rightarrow> string option \<Rightarrow> bool \<Rightarrow> bool \<Rightarrow> string" where
  "nextProfile ids cool current isNewSession compacted =
     (case replacementForUnusableCurrent ids cool current of
        Some replacement \<Rightarrow> replacement
      | None \<Rightarrow>
          (case current of
             None \<Rightarrow> pickFirstAvailable ids cool
           | Some c \<Rightarrow>
               if isNewSession \<or> compacted then pickNextAvailable ids cool c
               else if cool c then pickFirstAvailable ids cool
               else c))"

definition resolveSessionAuthProfileOverride ::
    "auth_env \<Rightarrow> auth_config \<Rightarrow> auth_store \<Rightarrow> string \<Rightarrow> string list option \<Rightarrow> bool \<Rightarrow> session_auth \<Rightarrow> bool \<Rightarrow> rat \<Rightarrow>
     string option \<times> session_auth" where
  "resolveSessionAuthProfileOverride env cfg store0 provider accepted hasSource entry isNewSession now =
     (if trimmedOverride entry = None \<and> (cfgProfiles cfg = None \<or> cfgProfiles cfg = Some []) \<and>
         (cfgOrder cfg = None \<or> cfgOrder cfg = Some []) \<and> \<not> hasSource then (None, entry)
      else
        let providers = uniqueProviders provider accepted;
            (ids, store) = sessionOrder env cfg store0 providers now;
            kept = keptOverride env cfg store providers ids entry;
            entry1 = (if trimmedOverride entry \<noteq> None \<and> kept = None then clearSessionAuthProfileOverride entry now else entry);
            cool = (\<lambda>p. isProfileInCooldown store p now None)
        in if ids = [] then (None, entry1)
           else
             let count = (case compactionCount entry1 of Some n \<Rightarrow> n | None \<Rightarrow> 0);
                 stored = (case authProfileOverrideCompactionCount entry1 of Some n \<Rightarrow> n | None \<Rightarrow> count);
                 replaced = (replacementForUnusableCurrent ids cool kept \<noteq> None)
             in if overrideSource entry = Some UserPick \<and> kept \<noteq> None \<and> \<not> replaced \<and> \<not> isNewSession then (kept, entry1)
                else
                  let next = nextProfile ids cool kept isNewSession (count > stored);
                      persist = (Some next \<noteq> authProfileOverride entry1 \<or> authProfileOverrideSource entry1 \<noteq> Some AutoPick \<or>
                                 authProfileOverrideCompactionCount entry1 \<noteq> Some count)
                  in if next = [] then (kept, entry1)
                     else (Some next,
                           if persist then applySessionAuthProfileOverrideState entry1 (Some next) (Some AutoPick) (Some count) now
                           else entry1))"

section \<open>The chosen profile\<close>

lemma find_available:
  assumes "p \<in> set ids" and "P p"
  shows "\<exists>q. find P ids = Some q \<and> P q \<and> q \<in> set ids"
  using assms by (cases "find P ids") (auto simp: find_None_iff find_Some_iff)

lemma pickFirst_available: "p \<in> set ids \<Longrightarrow> \<not> cool p \<Longrightarrow> \<not> cool (pickFirstAvailable ids cool)"
  using find_available [of p ids "\<lambda>p. \<not> cool p"] by (auto simp: pickFirstAvailable_def)

text \<open>The circular scan visits every position.\<close>

lemma circular_scan_complete:
  assumes "start < length xs"
  shows "set (map (\<lambda>offset. xs ! ((start + offset) mod length xs)) [1 ..< Suc (length xs)]) = set xs"
proof (intro set_eqI iffI)
  fix x assume "x \<in> set xs"
  then obtain j where j: "j < length xs" "x = xs ! j" by (auto simp: in_set_conv_nth)
  have "\<exists>k \<in> {1 ..< Suc (length xs)}. (start + k) mod length xs = j"
  proof (cases "start < j")
    case True
    then show ?thesis using j by (intro bexI [of _ "j - start"]) auto
  next
    case False
    then have "(start + (length xs + j - start)) mod length xs = j" using j assms by simp
    then show ?thesis using False j assms by (intro bexI [of _ "length xs + j - start"]) auto
  qed
  then show "x \<in> set (map (\<lambda>offset. xs ! ((start + offset) mod length xs)) [1 ..< Suc (length xs)])"
    using j(2) by (auto simp del: upt_Suc)
next
  fix x assume "x \<in> set (map (\<lambda>offset. xs ! ((start + offset) mod length xs)) [1 ..< Suc (length xs)])"
  moreover have "m mod length xs < length xs" for m using assms by (intro mod_less_divisor) auto
  ultimately show "x \<in> set xs" by (auto simp del: upt_Suc)
qed

lemma indexOf_less: "indexOf x xs = Some i \<Longrightarrow> i < length xs \<and> xs ! i = x"
proof -
  assume "indexOf x xs = Some i"
  then have i: "x \<in> set xs" "i = length (takeWhile (\<lambda>y. y \<noteq> x) xs)" by (auto simp: indexOf_def split: if_splits)
  then obtain ys zs where xs: "xs = ys @ x # zs" "x \<notin> set ys" by (meson split_list_first)
  then have "takeWhile (\<lambda>y. y \<noteq> x) xs = ys" by (auto intro: takeWhile_eq_all_conv [THEN iffD2] simp: takeWhile_append)
  with i(2) xs show ?thesis by simp
qed

lemma pickNext_available:
  assumes "p \<in> set ids" and "\<not> cool p" and "p \<noteq> []"
  shows "\<not> cool (pickNextAvailable ids cool c)"
proof (cases "indexOf c ids")
  case None
  then show ?thesis using pickFirst_available assms(1,2) by (simp add: pickNextAvailable_def)
next
  case (Some i)
  let ?scan = "map (\<lambda>offset. ids ! ((i + offset) mod length ids)) [1 ..< Suc (length ids)]"
  have "p \<in> set ?scan" using assms(1) circular_scan_complete indexOf_less [OF Some] by blast
  then obtain q where "find (\<lambda>p. p \<noteq> [] \<and> \<not> cool p) ?scan = Some q" "\<not> cool q"
    using find_available [of p ?scan "\<lambda>p. p \<noteq> [] \<and> \<not> cool p"] assms(2,3) by blast
  with Some show ?thesis by (simp add: pickNextAvailable_def del: upt_Suc)
qed

lemma replacement_available:
  assumes "p \<in> set ids" and "\<not> cool p" and "[] \<notin> set ids" and "cool c"
  shows "\<exists>q. replacementForUnusableCurrent ids cool (Some c) = Some q \<and> \<not> cool q \<and> q \<in> set ids"
proof -
  have "p \<noteq> c" using assms(2,4) by auto
  with find_available [of p ids "\<lambda>p. p \<noteq> c \<and> \<not> cool p"] assms(1,2)
  obtain q where "find (\<lambda>p. p \<noteq> c \<and> \<not> cool p) ids = Some q" "\<not> cool q" "q \<in> set ids" by auto
  with assms(3,4) show ?thesis by (auto simp: replacementForUnusableCurrent_def)
qed

lemma nextProfile_available:
  assumes "p \<in> set ids" and "\<not> cool p" and "[] \<notin> set ids"
  shows "\<not> cool (nextProfile ids cool current isNew compacted)"
proof (cases current)
  case None
  then show ?thesis using pickFirst_available assms(1,2)
    by (simp add: nextProfile_def replacementForUnusableCurrent_def)
next
  case (Some c)
  have "p \<noteq> []" using assms(1,3) by auto
  then show ?thesis using Some replacement_available [of p ids cool c] pickNext_available [of p ids cool] assms
    by (cases "cool c") (auto simp: nextProfile_def replacementForUnusableCurrent_def)
qed

lemma pickFirst_mem: "ids \<noteq> [] \<Longrightarrow> pickFirstAvailable ids cool \<in> set ids"
  by (auto simp: pickFirstAvailable_def find_Some_iff split: option.split)

lemma pickNext_mem: "ids \<noteq> [] \<Longrightarrow> pickNextAvailable ids cool c \<in> set ids"
proof (cases "indexOf c ids")
  case None
  then show "pickNextAvailable ids cool c \<in> set ids" if "ids \<noteq> []" using that
    by (simp add: pickNextAvailable_def pickFirst_mem)
next
  case (Some i)
  let ?scan = "map (\<lambda>offset. ids ! ((i + offset) mod length ids)) [1 ..< Suc (length ids)]"
  have "q \<in> set ids" if "find P ?scan = Some q" for P q
    using that circular_scan_complete indexOf_less [OF Some] by (metis find_Some_iff nth_mem)
  with Some indexOf_less [OF Some] show "pickNextAvailable ids cool c \<in> set ids"
    by (auto simp: pickNextAvailable_def simp del: upt_Suc split: option.split)
qed

lemma nextProfile_nonempty:
  assumes "ids \<noteq> []" and "[] \<notin> set ids" and "current \<noteq> Some []"
  shows "nextProfile ids cool current isNew compacted \<noteq> []"
proof -
  have "pickFirstAvailable ids cool \<noteq> []" "pickNextAvailable ids cool c \<noteq> []" for c
    using pickFirst_mem [OF assms(1), of cool] pickNext_mem [OF assms(1), of cool c] assms(2) by auto
  with assms(3) show ?thesis
    by (auto simp: nextProfile_def replacementForUnusableCurrent_def split: option.splits if_splits)
qed

lemma kept_nonempty: "keptOverride env cfg store providers ids entry \<noteq> Some []"
  by (auto simp: keptOverride_def trimmedOverride_def split: option.splits if_splits)

lemma sessionOrder_cooldowns:
  assumes "sessionOrder env cfg store providers now = (ids, store')"
  shows "isProfileInCooldown store' p now m = isProfileInCooldown store p now m"
proof -
  let ?f = "\<lambda>(ids, st) q. case resolveAuthProfileOrderWithMetadata env cfg st
                   \<lparr>op_provider = q, op_preferred = None, op_forModel = None, op_readOnly = False\<rparr> now of
              (found, _, st') \<Rightarrow> (ids @ found, st')"
  have "isProfileInCooldown (snd (foldl ?f acc qs)) p now m = isProfileInCooldown (snd acc) p now m" for acc qs
  proof (induction qs arbitrary: acc)
    case (Cons q qs)
    have "snd (?f acc q) = snd (clearExpiredCooldowns (snd acc) now)"
      by (cases acc) (simp add: resolveAuthProfileOrderWithMetadata_def Let_def split: prod.split)
    with Cons.IH [of "?f acc q"] show ?case by (simp add: clear_not_observable)
  qed simp
  from this [of "([], store)" providers] assms show ?thesis
    by (auto simp: sessionOrder_def Let_def split: prod.splits)
qed

text \<open>A pin that may be kept stays; otherwise the next profile is chosen and recorded as automatic.\<close>

lemma resolved:
  assumes "sessionOrder env cfg store (uniqueProviders provider accepted) now = (ids, store')"
    and "ids \<noteq> []" and "[] \<notin> set ids" and "cool = (\<lambda>p. isProfileInCooldown store p now None)"
    and "kept = keptOverride env cfg store' (uniqueProviders provider accepted) ids entry"
    and "resolveSessionAuthProfileOverride env cfg store provider accepted True entry isNew now = (chosen, entry')"
    and "entry1 = (if trimmedOverride entry \<noteq> None \<and> kept = None then clearSessionAuthProfileOverride entry now else entry)"
    and "count = (case compactionCount entry1 of Some n \<Rightarrow> n | None \<Rightarrow> 0)"
    and "stored = (case authProfileOverrideCompactionCount entry1 of Some n \<Rightarrow> n | None \<Rightarrow> count)"
  shows "if overrideSource entry = Some UserPick \<and> kept \<noteq> None \<and> replacementForUnusableCurrent ids cool kept = None \<and> \<not> isNew
    then chosen = kept
    else chosen = Some (nextProfile ids cool kept isNew (count > stored)) \<and>
      authProfileOverride entry' = chosen \<and> authProfileOverrideSource entry' = Some AutoPick"
proof -
  have c: "isProfileInCooldown store' x now None = cool x" for x
    by (simp add: assms(4) sessionOrder_cooldowns [OF assms(1)])
  have n: "nextProfile ids cool kept isNew (count > stored) \<noteq> []"
    using assms(2,3) by (rule nextProfile_nonempty) (simp add: assms(5) kept_nonempty)
  show ?thesis
    using assms(6) n assms(2)
    unfolding resolveSessionAuthProfileOverride_def Let_def assms(1) prod.case c
      assms(5) [symmetric] assms(7) [symmetric] assms(8) [symmetric] assms(9) [symmetric]
    by (auto simp: applySessionAuthProfileOverrideState_def split: if_splits)
qed

text \<open>
  C22. Whenever some profile of the rotation is not cooling down (and no profile has an empty id),
  the profile chosen for a session is not cooling down either. This holds whatever the session was pinned to, and of a
  profile the user picked as well, inside a running session too: a user's pin in cooldown is switched, and
  the session goes on with the replacement as an automatic choice. The code says so in a comment
  (user-pinned profiles persist unless unusable), but docs/concepts/model-failover.md promises that a
  user's pin stays locked until a new session starts.
\<close>

theorem chosen_profile_is_available:
  assumes "sessionOrder env cfg store (uniqueProviders provider accepted) now = (ids, store')"
    and "p \<in> set ids" and "[] \<notin> set ids" and "\<not> isProfileInCooldown store p now None"
    and "resolveSessionAuthProfileOverride env cfg store provider accepted True entry isNew now = (chosen, entry')"
  shows "\<exists>q. chosen = Some q \<and> \<not> isProfileInCooldown store q now None \<and>
    (trimmedOverride entry = Some c \<and> isProfileInCooldown store c now None \<longrightarrow>
       q \<noteq> c \<and> authProfileOverride entry' = Some q \<and> authProfileOverrideSource entry' = Some AutoPick)"
proof -
  let ?cool = "\<lambda>p. isProfileInCooldown store p now None"
  let ?kept = "keptOverride env cfg store' (uniqueProviders provider accepted) ids entry"
  have ne: "ids \<noteq> []" using assms(2) by auto
  note res = resolved [OF assms(1) ne assms(3) refl refl assms(5) refl refl refl]
  show ?thesis
  proof (cases "overrideSource entry = Some UserPick \<and> ?kept \<noteq> None \<and>
      replacementForUnusableCurrent ids ?cool ?kept = None \<and> \<not> isNew")
    case True
    then obtain c' where c': "?kept = Some c'" by auto
    then have "\<not> ?cool c'" "trimmedOverride entry = Some c'"
      using True replacement_available [of p ids ?cool c'] assms(2-4)
      by (auto simp: keptOverride_def split: option.splits if_splits)
    with res True c' show ?thesis by auto
  next
    case False
    with res obtain b where q: "chosen = Some (nextProfile ids ?cool ?kept isNew b)"
      "authProfileOverride entry' = chosen \<and> authProfileOverrideSource entry' = Some AutoPick"
      by auto
    moreover have "\<not> ?cool (nextProfile ids ?cool ?kept isNew b)"
      using assms(2,4,3) by (rule nextProfile_available)
    ultimately show ?thesis by auto
  qed
qed

text \<open>
  And it does not rotate for nothing: within a session and without a new compaction, an
  override that is still valid and not cooling down stays, whoever picked it.
\<close>

theorem override_is_sticky:
  assumes "sessionOrder env cfg store (uniqueProviders provider accepted) now = (ids, store')" and "ids \<noteq> []" and "[] \<notin> set ids"
    and "keptOverride env cfg store' (uniqueProviders provider accepted) ids entry = Some c"
    and "\<not> isProfileInCooldown store c now None"
    and "authProfileOverrideCompactionCount entry = Some n" and "compactionCount entry = Some n"
  shows "fst (resolveSessionAuthProfileOverride env cfg store provider accepted True entry False now) = Some c"
proof -
  obtain chosen entry' where r: "resolveSessionAuthProfileOverride env cfg store provider accepted True entry False now = (chosen, entry')"
    by (cases "resolveSessionAuthProfileOverride env cfg store provider accepted True entry False now") auto
  from resolved [OF assms(1-3) refl refl r refl refl refl] assms(4-7) r show ?thesis
    by (auto simp: nextProfile_def replacementForUnusableCurrent_def split: if_splits)
qed

text \<open>One stored token, chosen automatically.\<close>

definition token_store :: auth_store where
  "token_store = \<lparr>profiles = [(''a'', Token ''anthropic'' None True None)], order = None, lastGood = None, usageStats = None\<rparr>"

definition token_entry :: session_auth where
  "token_entry = \<lparr>authProfileOverride = Some ''a'', authProfileOverrideSource = Some AutoPick,
     authProfileOverrideCompactionCount = Some 0, compactionCount = Some 0, updatedAt = None\<rparr>"

lemma token_provider:
  "uniqueProviders ''anthropic'' None = [''anthropic'']" "normalizeProviderId ''anthropic'' = ''anthropic''"
  by code_simp+

lemma token_order:
  "sessionOrder sample_env sample_config token_store (uniqueProviders ''anthropic'' None) 2000 = ([''a''], token_store)"
  by (simp add: token_provider sessionOrder_def resolveAuthProfileOrderWithMetadata_def clearExpiredCooldowns_def token_store_def
      sample_config_def sample_env_def orderSources_def Let_def orElse_def findNormalizedProviderValue_def resolveProviderIdForAuth_def
      listProfilesCompatibleWithAuthProvider_def listProfilesForProvider_def orderCandidates_def isValidProfile_def
      resolveAuthProfileEligibility_def isCredentialProviderCompatibleWithAuthProvider_def cfgProfile_def
      evaluateStoredCredentialEligibility_def resolveTokenExpiryState_def dedupeProfileIds_def orderProfilesByMode_def
      isProfileInCooldown_def statsOf_def preferredFirst_def)

lemma token_available: "\<not> isProfileInCooldown token_store ''a'' 2000 None"
  by (simp add: token_store_def isProfileInCooldown_def statsOf_def)

text \<open>Two stored tokens, the one the user picked cooling down.\<close>

definition two_tokens :: auth_store where
  "two_tokens = \<lparr>profiles = [(''a'', Token ''anthropic'' None True None), (''b'', Token ''anthropic'' None True None)],
     order = None, lastGood = None, usageStats = Some [(''a'', no_stats\<lparr>cooldownUntil := Some 9000\<rparr>)]\<rparr>"

definition pinned_entry :: session_auth where
  "pinned_entry = token_entry\<lparr>authProfileOverrideSource := Some UserPick\<rparr>"

lemma cooling_stats:
  "clearExpiredStats (no_stats\<lparr>cooldownUntil := Some 9000\<rparr>) 2000 = (False, no_stats\<lparr>cooldownUntil := Some 9000\<rparr>)"
  "statsInCooldown (no_stats\<lparr>cooldownUntil := Some 9000\<rparr>) 2000 None"
  "\<not> isAuthCooldownBypassedForProvider (Some ''anthropic'')"
  by code_simp+

lemma two_tokens_order:
  "sessionOrder sample_env sample_config two_tokens (uniqueProviders ''anthropic'' None) 2000 = ([''b'', ''a''], two_tokens)"
  by (simp add: token_provider sessionOrder_def resolveAuthProfileOrderWithMetadata_def clearExpiredCooldowns_def two_tokens_def cooling_stats
      sample_config_def sample_env_def orderSources_def Let_def orElse_def findNormalizedProviderValue_def resolveProviderIdForAuth_def
      listProfilesCompatibleWithAuthProvider_def listProfilesForProvider_def orderCandidates_def isValidProfile_def
      resolveAuthProfileEligibility_def isCredentialProviderCompatibleWithAuthProvider_def cfgProfile_def
      evaluateStoredCredentialEligibility_def resolveTokenExpiryState_def dedupeProfileIds_def orderProfilesByMode_def
      isProfileInCooldown_def statsOf_def preferredFirst_def lastUsedOf_def typeScore_def)

lemma two_tokens_cooldowns:
  "\<not> isProfileInCooldown two_tokens ''b'' 2000 None" "isProfileInCooldown two_tokens ''a'' 2000 None"
  by code_simp+

lemma chosen_profile_is_available_witness:
  "authProfileOverride (snd (resolveSessionAuthProfileOverride sample_env sample_config two_tokens ''anthropic'' None True
     pinned_entry False 2000)) \<noteq> Some ''a''"
proof -
  obtain chosen entry' where r: "resolveSessionAuthProfileOverride sample_env sample_config two_tokens ''anthropic'' None True
      pinned_entry False 2000 = (chosen, entry')"
    by (cases "resolveSessionAuthProfileOverride sample_env sample_config two_tokens ''anthropic'' None True pinned_entry False 2000") auto
  have "trimmedOverride pinned_entry = Some ''a''"
    by (simp add: trimmedOverride_def pinned_entry_def token_entry_def js_trim_def is_js_space_def)
  with chosen_profile_is_available [OF two_tokens_order _ _ two_tokens_cooldowns(1) r, of "''a''"] r two_tokens_cooldowns(2)
  show ?thesis by auto
qed

lemma override_is_sticky_witness:
  "fst (resolveSessionAuthProfileOverride sample_env sample_config token_store ''anthropic'' None True token_entry False 2000) = Some ''a''"
proof (rule override_is_sticky [OF token_order _ _ _ token_available])
  show "keptOverride sample_env sample_config token_store (uniqueProviders ''anthropic'' None) [''a''] token_entry = Some ''a''"
    by (simp add: token_provider keptOverride_def trimmedOverride_def token_entry_def js_trim_def is_js_space_def token_store_def
        isProfileForProvider_def isStoredCredentialCompatibleWithAuthProvider_def isCredentialProviderCompatibleWithAuthProvider_def)
qed (simp_all add: token_entry_def)

text \<open>A user's pin does not survive a new session: it is rotated away and forgotten.\<close>

lemma user_pin_rotates_in_new_session:
  assumes "sessionOrder env cfg store (uniqueProviders provider accepted) now = ([a, b], store')" and "a \<noteq> b" and "b \<noteq> []"
    and "keptOverride env cfg store' (uniqueProviders provider accepted) [a, b] entry = Some a"
    and "overrideSource entry = Some UserPick"
    and "\<not> isProfileInCooldown store a now None" and "\<not> isProfileInCooldown store b now None"
  shows "fst (resolveSessionAuthProfileOverride env cfg store provider accepted True entry True now) = Some b"
proof -
  obtain chosen entry' where r: "resolveSessionAuthProfileOverride env cfg store provider accepted True entry True now = (chosen, entry')"
    by (cases "resolveSessionAuthProfileOverride env cfg store provider accepted True entry True now") auto
  have "a \<noteq> []" using assms(4) kept_nonempty by metis
  with resolved [OF assms(1) list.distinct(2) _ refl refl r refl refl refl] assms(2-7) r show ?thesis
    by (simp add: nextProfile_def replacementForUnusableCurrent_def pickNextAvailable_def indexOf_def upt_conv_Cons)
qed

end
