(* ===== verification/FollowupLifecycle.thy ===== *)
theory FollowupLifecycle
  imports Prelude "HOL-Library.Multiset"
begin

text \<open>
  The lifecycle of queued replies in \<^verbatim>\<open>src/auto-reply/reply/queue/types.ts\<close>: a turn is announced as
  enqueued, admitted, retired from cancellation and completed, each at most once, and a completion
  that arrives while an admission is in progress waits for it. A lifecycle is a number; the weak sets
  of the module are lists; the calls of the owner's callbacks are logged. An admission is the promise
  chain that calls \<^verbatim>\<open>onAdmitted\<close> in a later turn of the event loop and settles later still.
\<close>

section \<open>State and operations\<close>

datatype lifecycle_call = OnEnqueued | OnAdmitted | OnCancellationRetired | OnComplete

text \<open>An admission in progress: whether the callback has been called, and whether a completion waits.\<close>

record admission_run =
  admCalled :: bool
  admCompletionWaits :: bool

record lifecycles =
  enqueuedSet :: "nat list"
  admittedSet :: "nat list"
  admitting :: "(nat, admission_run) jsmap"
  retiredSet :: "nat list"
  completedSet :: "nat list"
  completedCallbacks :: "nat list"
  callLog :: "(nat \<times> lifecycle_call) list"

definition no_lifecycles :: lifecycles where
  "no_lifecycles = \<lparr>enqueuedSet = [], admittedSet = [], admitting = [], retiredSet = [], completedSet = [],
     completedCallbacks = [], callLog = []\<rparr>"

definition isFollowupRunAborted :: "bool option \<Rightarrow> bool option \<Rightarrow> bool" where
  "isFollowupRunAborted abortSignal queueAbortSignal \<longleftrightarrow> abortSignal = Some True \<or> queueAbortSignal = Some True"

text \<open>\<open>accepts\<close> is false when the callback answers false.\<close>

definition markFollowupRunEnqueued :: "lifecycles \<Rightarrow> nat option \<Rightarrow> bool \<Rightarrow> bool \<times> lifecycles" where
  "markFollowupRunEnqueued s run accepts =
     (case run of
        None \<Rightarrow> (True, s)
      | Some l \<Rightarrow>
          if l \<in> set (enqueuedSet s) then (True, s)
          else
            let s1 = s\<lparr>callLog := callLog s @ [(l, OnEnqueued)]\<rparr> in
            if \<not> accepts then (False, s1) else (True, s1\<lparr>enqueuedSet := l # enqueuedSet s1\<rparr>))"

definition retireFollowupRunCancellation :: "lifecycles \<Rightarrow> nat option \<Rightarrow> lifecycles" where
  "retireFollowupRunCancellation s run =
     (case run of
        None \<Rightarrow> s
      | Some l \<Rightarrow>
          if l \<in> set (retiredSet s) then s
          else s\<lparr>retiredSet := l # retiredSet s, callLog := callLog s @ [(l, OnCancellationRetired)]\<rparr>)"

datatype admit_answer = AlreadyAdmitted | JoinsAdmission | CompletedBeforeAdmission | StartsAdmission

definition admitFollowupRunLifecycle :: "lifecycles \<Rightarrow> nat option \<Rightarrow> admit_answer \<times> lifecycles" where
  "admitFollowupRunLifecycle s run =
     (case run of
        None \<Rightarrow> (AlreadyAdmitted, s)
      | Some l \<Rightarrow>
          if l \<in> set (admittedSet s) then (AlreadyAdmitted, s)
          else if jm_get (admitting s) l \<noteq> None then (JoinsAdmission, s)
          else if l \<in> set (completedSet s) then (CompletedBeforeAdmission, s)
          else (StartsAdmission, s\<lparr>admitting := jm_set l \<lparr>admCalled = False, admCompletionWaits = False\<rparr> (admitting s)\<rparr>))"

definition finishCompletion :: "lifecycles \<Rightarrow> nat \<Rightarrow> lifecycles" where
  "finishCompletion s l =
     (if l \<in> set (completedCallbacks s) then s
      else s\<lparr>completedCallbacks := l # completedCallbacks s, callLog := callLog s @ [(l, OnComplete)]\<rparr>)"

definition completeFollowupRunLifecycle :: "lifecycles \<Rightarrow> nat option \<Rightarrow> lifecycles" where
  "completeFollowupRunLifecycle s run =
     (case run of
        None \<Rightarrow> s
      | Some l \<Rightarrow>
          if l \<in> set (completedSet s) then s
          else
            let s1 = s\<lparr>completedSet := l # completedSet s\<rparr> in
            case jm_get (admitting s1) l of
              None \<Rightarrow> finishCompletion s1 l
            | Some a \<Rightarrow> s1\<lparr>admitting := jm_set l (a\<lparr>admCompletionWaits := True\<rparr>) (admitting s1)\<rparr>)"

text \<open>The admission's own turns: it calls the callback, and it settles.\<close>

definition admissionCalls :: "lifecycles \<Rightarrow> nat \<Rightarrow> lifecycles" where
  "admissionCalls s l =
     (case jm_get (admitting s) l of
        Some a \<Rightarrow>
          if admCalled a then s
          else s\<lparr>admitting := jm_set l (a\<lparr>admCalled := True\<rparr>) (admitting s), callLog := callLog s @ [(l, OnAdmitted)]\<rparr>
      | None \<Rightarrow> s)"

definition admissionSettles :: "lifecycles \<Rightarrow> nat \<Rightarrow> bool \<Rightarrow> lifecycles" where
  "admissionSettles s l ok =
     (case jm_get (admitting s) l of
        Some a \<Rightarrow>
          if \<not> admCalled a then s
          else
            let s1 = s\<lparr>admitting := jm_del l (admitting s), admittedSet := (if ok then l # admittedSet s else admittedSet s)\<rparr>
            in if admCompletionWaits a then finishCompletion s1 l else s1
      | None \<Rightarrow> s)"

datatype lifecycle_event =
    MarkEnqueued "nat option" bool
  | Retire "nat option"
  | Admit "nat option"
  | Complete "nat option"
  | AdmissionCalls nat
  | AdmissionSettles nat bool

fun lifecycle_step :: "lifecycles \<Rightarrow> lifecycle_event \<Rightarrow> lifecycles" where
  "lifecycle_step s (MarkEnqueued r a) = snd (markFollowupRunEnqueued s r a)"
| "lifecycle_step s (Retire r) = retireFollowupRunCancellation s r"
| "lifecycle_step s (Admit r) = snd (admitFollowupRunLifecycle s r)"
| "lifecycle_step s (Complete r) = completeFollowupRunLifecycle s r"
| "lifecycle_step s (AdmissionCalls l) = admissionCalls s l"
| "lifecycle_step s (AdmissionSettles l ok) = admissionSettles s l ok"

section \<open>Completion\<close>

definition calls_of :: "(nat \<times> lifecycle_call) list \<Rightarrow> nat \<Rightarrow> lifecycle_call list" where
  "calls_of entries l = map snd (filter (\<lambda>c. fst c = l) entries)"

lemma calls_of_snoc [simp]: "calls_of (entries @ [(k, c)]) l = (if k = l then calls_of entries l @ [c] else calls_of entries l)"
  by (simp add: calls_of_def)

definition after_completion :: "lifecycle_call list \<Rightarrow> lifecycle_call list" where
  "after_completion cs = dropWhile (\<lambda>c. c \<noteq> OnComplete) cs"

lemma after_completion_snoc:
  "after_completion (cs @ [c]) =
     (if OnComplete \<in> set cs then after_completion cs @ [c] else if c = OnComplete then [c] else [])"
  by (induction cs) (auto simp: after_completion_def)

lemma after_completion_none: "OnComplete \<notin> set cs \<Longrightarrow> after_completion cs = []"
  by (induction cs) (auto simp: after_completion_def)

text \<open>What the module knows of one lifecycle.\<close>

definition lifecycle_ok :: "lifecycles \<Rightarrow> nat \<Rightarrow> bool" where
  "lifecycle_ok s l \<longleftrightarrow>
     (l \<in> set (completedCallbacks s) \<longleftrightarrow> OnComplete \<in> set (calls_of (callLog s) l)) \<and>
     count (mset (calls_of (callLog s) l)) OnComplete \<le> 1 \<and>
     (l \<in> set (retiredSet s) \<longleftrightarrow> OnCancellationRetired \<in> set (calls_of (callLog s) l)) \<and>
     count (mset (calls_of (callLog s) l)) OnCancellationRetired \<le> 1 \<and>
     (l \<in> set (completedCallbacks s) \<longrightarrow> l \<in> set (completedSet s) \<and> jm_get (admitting s) l = None) \<and>
     (jm_get (admitting s) l = None \<and> l \<in> set (completedSet s) \<longrightarrow> l \<in> set (completedCallbacks s)) \<and>
     (\<forall>a. jm_get (admitting s) l = Some a \<longrightarrow> (admCompletionWaits a \<longleftrightarrow> l \<in> set (completedSet s))) \<and>
     OnAdmitted \<notin> set (after_completion (calls_of (callLog s) l))"

lemma count_absent: "c \<notin> set cs \<Longrightarrow> count (mset cs) c = 0"
  by (simp add: count_eq_zero_iff)

lemma lifecycle_step_ok:
  assumes ok: "lifecycle_ok s l"
  shows "lifecycle_ok (lifecycle_step s e) l"
proof (cases e)
  case (MarkEnqueued r a)
  with ok show ?thesis
    by (cases r) (auto simp: markFollowupRunEnqueued_def Let_def lifecycle_ok_def after_completion_snoc)
next
  case (Retire r)
  with ok show ?thesis
    by (cases r) (auto simp: retireFollowupRunCancellation_def lifecycle_ok_def after_completion_snoc count_absent)
next
  case (Admit r)
  with ok show ?thesis
    by (cases r) (auto simp: admitFollowupRunLifecycle_def lifecycle_ok_def)
next
  case (Complete r)
  with ok show ?thesis
    by (cases r) (auto simp: completeFollowupRunLifecycle_def finishCompletion_def Let_def lifecycle_ok_def
        after_completion_snoc count_absent split: option.split)
next
  case (AdmissionCalls k)
  with ok show ?thesis
    by (cases "jm_get (admitting s) k") (auto simp: admissionCalls_def lifecycle_ok_def after_completion_snoc)
next
  case (AdmissionSettles k b)
  with ok show ?thesis
    by (cases "jm_get (admitting s) k") (auto simp: admissionSettles_def finishCompletion_def Let_def lifecycle_ok_def after_completion_snoc count_absent)
qed

interpretation flc: machine lifecycle_step no_lifecycles "\<lambda>s. \<forall>l. lifecycle_ok s l"
  by unfold_locales (simp add: lifecycle_ok_def no_lifecycles_def calls_of_def after_completion_def, blast intro: lifecycle_step_ok)

text \<open>
  C19. A queued turn is closed exactly once: in every history its owner's completion callback has
  been called once if the turn is completed and no admission of it is in progress, and not at all
  otherwise; the admission callback is never called after it; and cancellation is retired at most once.
\<close>

theorem turn_completes_exactly_once:
  "count (mset (calls_of (callLog (foldl lifecycle_step no_lifecycles es)) l)) OnComplete =
     (if l \<in> set (completedSet (foldl lifecycle_step no_lifecycles es)) \<and>
         jm_get (admitting (foldl lifecycle_step no_lifecycles es)) l = None then 1 else 0) \<and>
   OnAdmitted \<notin> set (after_completion (calls_of (callLog (foldl lifecycle_step no_lifecycles es)) l)) \<and>
   count (mset (calls_of (callLog (foldl lifecycle_step no_lifecycles es)) l)) OnCancellationRetired \<le> 1"
proof -
  define s where "s = foldl lifecycle_step no_lifecycles es"
  have ok: "lifecycle_ok s l" using flc.run_inv [of es] by (simp add: s_def)
  have "count (mset (calls_of (callLog s) l)) OnComplete = (if OnComplete \<in> set (calls_of (callLog s) l) then 1 else 0)"
    using ok count_absent [of OnComplete "calls_of (callLog s) l"] count_eq_zero_iff [of "mset (calls_of (callLog s) l)" OnComplete]
    unfolding lifecycle_ok_def by (auto simp: le_Suc_eq)
  moreover have "OnComplete \<in> set (calls_of (callLog s) l) \<longleftrightarrow> l \<in> set (completedSet s) \<and> jm_get (admitting s) l = None"
    using ok unfolding lifecycle_ok_def by blast
  moreover have "OnAdmitted \<notin> set (after_completion (calls_of (callLog s) l))" "count (mset (calls_of (callLog s) l)) OnCancellationRetired \<le> 1"
    using ok by (simp_all add: lifecycle_ok_def)
  ultimately show ?thesis unfolding s_def by auto
qed

end
