(* ===== verification/QueueDrain.thy ===== *)
theory QueueDrain
  imports CommandQueue
begin

text \<open>
  How a gateway that restarts empties its command queue: \<^verbatim>\<open>markGatewayDraining\<close> of
  \<^verbatim>\<open>src/process/command-queue.ts\<close> closes the admission of \<^verbatim>\<open>src/process/gateway-work-admission.ts\<close>,
  new commands are refused with \<^verbatim>\<open>GatewayDrainingError\<close>, and the shutdown waits for the lanes through
  \<^verbatim>\<open>waitForActiveTasks\<close>. The operations are those of the two components; this theory composes them.
\<close>

section \<open>Operations that accept no command\<close>

definition same_intake :: "queue_state \<Rightarrow> queue_state \<Rightarrow> bool" where
  "same_intake s t \<longleftrightarrow> admission t = admission s \<and> nextQueueSequence t = nextQueueSequence s"

lemma same_intake_refl [simp]: "same_intake s s"
  by (simp add: same_intake_def)

lemma same_intake_trans: "same_intake s t \<Longrightarrow> same_intake t u \<Longrightarrow> same_intake s u"
  by (simp add: same_intake_def)

lemma pump_intake [simp]: "admission (pump s ls) = admission s" "nextQueueSequence (pump s ls) = nextQueueSequence s"
  by (simp_all add: pump_def split: prod.split)

lemma getLaneState_intake:
  "getLaneState s l = (ls, t) \<Longrightarrow> admission t = admission s \<and> nextQueueSequence t = nextQueueSequence s"
  by (auto simp: getLaneState_def split: option.splits)

lemma drainLane_intake [simp]:
  "admission (drainLane s l) = admission s" "nextQueueSequence (drainLane s l) = nextQueueSequence s"
  by (auto simp: drainLane_def Let_def dest: getLaneState_intake split: prod.split)

lemma resolve_intake [simp]:
  "admission (resolveActiveTaskWaiter s w b) = admission s"
  "nextQueueSequence (resolveActiveTaskWaiter s w b) = nextQueueSequence s"
  by simp_all

lemma concurrency_intake: "same_intake s (setCommandLaneConcurrency s l n)"
  by (auto simp: setCommandLaneConcurrency_def same_intake_def Let_def dest: getLaneState_intake split: prod.split)

lemma settle_intake: "same_intake s (settleTask s i r)"
proof (cases "jm_get (inflight s) i")
  case None
  then show ?thesis by (simp add: settleTask_def)
next
  case (Some run)
  then show ?thesis
    by (auto simp: settleTask_def same_intake_def Let_def dest: getLaneState_intake split: prod.split)
qed

lemma clear_intake: "same_intake s (snd (clearCommandLane s l))"
  by (simp add: clearCommandLane_def same_intake_def Let_def split: option.split)

lemma resetLane_intake: "same_intake s (snd (resetCommandLane s l))"
  by (simp add: resetCommandLane_def same_intake_def Let_def split: option.split)

lemma wait_intake: "same_intake s (snd (waitForActiveTasks s t))"
  by (simp add: waitForActiveTasks_def same_intake_def Let_def)

lemma timeout_intake: "same_intake s (waiterTimeout s w)"
  by (simp add: waiterTimeout_def same_intake_def)

lemmas intake_ops = concurrency_intake settle_intake clear_intake resetLane_intake wait_intake timeout_intake

lemma enqueue_refused:
  "cq_inv s \<Longrightarrow> restartDraining (admission s) \<Longrightarrow> enqueueCommandInLane s cur l opts now = (None, s)"
  by (simp add: enqueueCommandInLane_def getQueueState_id cq_inv_def isGatewaySubordinateWorkAdmissionClosed_def)

section \<open>Histories of a draining gateway\<close>

text \<open>No reset of the lanes and none of the admission: the process is on its way out.\<close>

fun drain_op :: "queue_op \<Rightarrow> bool" where
  "drain_op ResetAll = False"
| "drain_op (Admission a) = (a \<noteq> Reset)"
| "drain_op _ = True"

lemma ga_keeps_draining: "restartDraining s \<Longrightarrow> a \<noteq> Reset \<Longrightarrow> restartDraining (ga_step s a)"
  by (cases a) (auto simp: ga_ops Let_def split: option.splits if_splits)

lemma drain_step:
  assumes "cq_inv s" "restartDraining (admission s)" "drain_op e"
  shows "restartDraining (admission (cq_step s e)) \<and> nextQueueSequence (cq_step s e) = nextQueueSequence s"
  using assms intake_ops [unfolded same_intake_def]
  by (cases e) (simp_all add: enqueue_refused ga_keeps_draining)

lemma drain_run:
  "cq_inv s \<Longrightarrow> restartDraining (admission s) \<Longrightarrow> list_all drain_op es \<Longrightarrow>
     cq_inv (foldl cq_step s es) \<and> restartDraining (admission (foldl cq_step s es)) \<and>
     nextQueueSequence (foldl cq_step s es) = nextQueueSequence s"
proof (induction es arbitrary: s)
  case (Cons e es)
  then have "cq_inv (cq_step s e)" by (simp add: cqm.step_inv)
  with Cons drain_step [of s e] show ?case by simp
qed simp

lemma mark_draining:
  "restartDraining (admission (markGatewayDraining s))" "nextQueueSequence (markGatewayDraining s) = nextQueueSequence s"
  "cq_inv s \<Longrightarrow> cq_inv (markGatewayDraining s)"
  by (simp_all add: markGatewayDraining_def admission_inv)
    (simp add: markGatewayRestartDraining_def invalidateSuspendAdmission_def resolveSuspendOpenWaiters_def Let_def
      split: option.split)

section \<open>The lanes run empty\<close>

text \<open>
  The runs in flight finish, in any order: each element picks one of them and its outcome. A pick is
  taken modulo the number of runs, so that every list of picks is a possible order.
\<close>

fun finishRuns :: "queue_state \<Rightarrow> (nat \<times> settlement) list \<Rightarrow> queue_state" where
  "finishRuns s [] = s"
| "finishRuns s ((j, outcome) # rest) =
     finishRuns (if inflight s = [] then s
                 else settleTask s (fst (inflight s ! (j mod length (inflight s)))) outcome) rest"

definition pending :: "queue_state \<Rightarrow> nat" where
  "pending s = length (queued_commands s) + length (running_commands s)"

definition open_lanes :: "queue_state \<Rightarrow> bool" where
  "open_lanes s \<longleftrightarrow> (\<forall>k ls. jm_get (lanes s) k = Some ls \<longrightarrow> below 0 (maxConcurrent ls))"

lemma pending_settled:
  assumes "cq_inv s"
  shows "pending s + length (settled s) = nextQueueSequence s - 1"
proof -
  have "cq_core s" using assms by (simp add: cq_inv_def)
  from arg_cong [OF core_wf(2) [OF this], of size] show ?thesis
    by (simp add: pending_def running_commands_def running_seqs_def flip: queued_commands_mset)
qed

lemma settle_progress:
  assumes inv: "cq_inv s" and run: "jm_get (inflight s) i = Some r" and lanes_open: "open_lanes s"
  shows "length (settled (settleTask s i out)) = Suc (length (settled s)) \<and> open_lanes (settleTask s i out)"
proof -
  let ?k = "runLane r"
  from inv have core: "cq_core s" by (simp add: cq_inv_def)
  with run obtain ls where ls: "jm_get (lanes s) ?k = Some ls" by (fastforce simp: cq_core_def)
  have lane: "lane ls = ?k" using core_wf(3) [OF core ls] by (simp add: lane_ok_def)
  obtain cur ls1 where ct: "completeTask ls i (runGeneration r) = (cur, ls1)" by fastforce
  then have same: "lane ls1 = ?k" "maxConcurrent ls1 = maxConcurrent ls"
    using lane by (auto simp: completeTask_def split: if_splits)
  define u where "u = s\<lparr>inflight := jm_del i (inflight s), lanes := jm_set ?k ls1 (lanes s)\<rparr>"
  have eq: "settleTask s i out = (let v = (if cur then pump (notifyActiveTaskWaiters u) ls1 else u)
      in v\<lparr>settled := settled v @ [(sequence (runEntry r), out)]\<rparr>)"
    using run ls by (simp add: settleTask_def getLaneState_def ct u_def Let_def)
  have u: "settled u = settled s" "open_lanes u"
    using lanes_open ls same by (simp_all add: u_def open_lanes_def)
  obtain n where p: "pump (notifyActiveTaskWaiters u) ls1 = (notifyActiveTaskWaiters u)\<lparr>
      lanes := jm_set (lane ls1) ((started_lane ls1 (nextTaskId (notifyActiveTaskWaiters u)) n)\<lparr>draining := False\<rparr>)
                 (lanes (notifyActiveTaskWaiters u)),
      nextTaskId := nextTaskId (notifyActiveTaskWaiters u) + n,
      inflight := inflight (notifyActiveTaskWaiters u) @
        zip [nextTaskId (notifyActiveTaskWaiters u) ..< nextTaskId (notifyActiveTaskWaiters u) + n]
          (map (start_run ls1) (take n (queue ls1)))\<rparr>"
    by (rule pump_prefix)
  have "settled (pump (notifyActiveTaskWaiters u) ls1) = settled s" "open_lanes (pump (notifyActiveTaskWaiters u) ls1)"
    using u lanes_open ls same by (simp_all add: p open_lanes_def)
  with u show ?thesis by (simp add: eq Let_def open_lanes_def)
qed

lemma nothing_runs:
  assumes inv: "cq_inv s" and lanes_open: "open_lanes s" and idle: "inflight s = []"
  shows "pending s = 0" "activeTaskWaiters s = []"
proof -
  from inv have core: "cq_core s" and busy: "busy_at s k" and wt: "waiters_ok s" for k by (simp_all add: cq_inv_def)
  have lane: "queue ls = [] \<and> activeTaskIds ls = []" if "(k, ls) \<in> set (lanes s)" for k ls
  proof -
    have g: "jm_get (lanes s) k = Some ls"
      using core that by (simp add: cq_core_def map_of_eq_Some_iff)
    then have a: "activeTaskIds ls = []"
      using core_fits [OF core g] idle by (cases "activeTaskIds ls") (auto simp: fits_runs_def)
    with g lanes_open busy [of k] show ?thesis by (auto simp: busy_at_def lane_busy_def open_lanes_def)
  qed
  then have "queued_commands s = []" by (auto simp: queued_commands_def)
  then show "pending s = 0" by (simp add: pending_def running_commands_def idle)
  have "\<not> hasPendingActiveTasks s ids" for ids using lane by (auto simp: hasPendingActiveTasks_def list_ex_iff)
  with wt show "activeTaskWaiters s = []" by (cases "activeTaskWaiters s") (auto simp: waiters_ok_def)
qed

lemma finishRuns_empties:
  "cq_inv s \<Longrightarrow> open_lanes s \<Longrightarrow> pending s \<le> length fs \<Longrightarrow>
     cq_inv (finishRuns s fs) \<and> pending (finishRuns s fs) = 0 \<and> activeTaskWaiters (finishRuns s fs) = [] \<and>
     nextQueueSequence (finishRuns s fs) = nextQueueSequence s"
proof (induction fs arbitrary: s)
  case Nil
  then have "inflight s = []" by (simp add: pending_def running_commands_def)
  with Nil nothing_runs [of s] show ?case by simp
next
  case (Cons f fs)
  obtain j out where f: "f = (j, out)" by fastforce
  show ?case
  proof (cases "inflight s = []")
    case True
    with Cons.prems nothing_runs [of s] Cons.IH [of s] f show ?thesis by simp
  next
    case False
    define i where "i = fst (inflight s ! (j mod length (inflight s)))"
    have "inflight s ! (j mod length (inflight s)) \<in> set (inflight s)" using False by simp
    then obtain r where r: "jm_get (inflight s) i = Some r"
      unfolding i_def by (metis not_None_eq map_of_eq_None_iff image_eqI)
    have inv: "cq_inv (settleTask s i out)" using Cons.prems(1) by (rule settle_inv)
    note step = settle_progress [OF Cons.prems(1) r Cons.prems(2), of out]
    have nx: "nextQueueSequence (settleTask s i out) = nextQueueSequence s"
      using settle_intake by (simp add: same_intake_def)
    have "pending (settleTask s i out) \<le> length fs"
      using pending_settled [OF Cons.prems(1)] pending_settled [OF inv] step nx Cons.prems(3) by simp
    from Cons.IH [OF inv _ this] step nx False f show ?thesis by (simp add: i_def)
  qed
qed

lemma mark_open: "open_lanes (markGatewayDraining s) = open_lanes s" "pending (markGatewayDraining s) = pending s"
  by (simp_all add: markGatewayDraining_def open_lanes_def pending_def queued_commands_def running_commands_def)

text \<open>Every number handed out is queued, running or settled.\<close>

lemma accepted_split:
  "cq_inv s \<Longrightarrow> mset (queued_commands s) + mset (running_commands s) + mset (map fst (settled s))
     = mset [1 ..< nextQueueSequence s]"
  using core_wf(2) [of s] by (simp add: cq_inv_def queued_commands_mset running_commands_def running_seqs_def)

lemma accepted_range:
  assumes "cq_inv s" and "n \<in> set (queued_commands s @ running_commands s @ map fst (settled s))"
  shows "n < nextQueueSequence s"
proof -
  have "set_mset (mset (queued_commands s) + mset (running_commands s) + mset (map fst (settled s)))
      = {1 ..< nextQueueSequence s}"
    unfolding accepted_split [OF assms(1)] by simp
  with assms(2) show ?thesis by auto
qed

lemma sample_pending:
  "list_all (\<lambda>(k, ls). below 0 (maxConcurrent ls)) (lanes (foldl cq_step initial_queue sample_ops))"
  "length (queued_commands (foldl cq_step initial_queue sample_ops)) = 2"
  "length (running_commands (foldl cq_step initial_queue sample_ops)) = 1"
  by code_simp+

end
