(* ===== verification/HeartbeatDrain.thy ===== *)
theory HeartbeatDrain
  imports HeartbeatWake GatewayAdmission
begin

text \<open>
  The timer of \<^verbatim>\<open>src/infra/heartbeat-wake.ts\<close> meets the admission of
  \<^verbatim>\<open>src/process/gateway-work-admission.ts\<close>: each wake of a batch runs inside
  \<^verbatim>\<open>runWithGatewayIndependentRootWorkAdmission\<close>, which throws while the gateway drains, so the batch goes
  back to the queue through the timer's catch block.
\<close>

section \<open>The composition\<close>

text \<open>
  A timer callback up to the admission of its first wake. An admitted batch stays in progress until the
  handler answers; a batch that waits for a suspended gateway stays until its waiter \<open>w\<close> is resolved.
\<close>

definition fireWakes :: "admission_state \<Rightarrow> wake_state \<Rightarrow> nat \<Rightarrow> int \<Rightarrow> admission_state \<times> wake_state" where
  "fireWakes a s w now =
     (let s1 = timerFires s now in
      if length (batches s1) = length (batches s) then (a, s1)
      else case runWithGatewayIndependentRootWorkAdmission a w of
             (Draining, a1) \<Rightarrow> (a1, batchThrows s1 (length (batches s)) now)
           | (_, a1) \<Rightarrow> (a1, s1))"

section \<open>Queued wakes are in normal form\<close>

definition wake_ok :: "string \<Rightarrow> pending_wake \<Rightarrow> bool" where
  "wake_ok k w \<longleftrightarrow> (\<exists>r t. requestKey r = k \<and> w = pendingOf r t)"

definition entries_ok :: "(string, pending_wake) jsmap \<Rightarrow> bool" where
  "entries_ok m \<longleftrightarrow> jm_wf m \<and> (\<forall>e \<in> set m. wake_ok (fst e) (snd e))"

lemma entries_ok_Nil [simp]: "entries_ok []"
  by (simp add: entries_ok_def)

definition queue_ok :: "wake_state \<Rightarrow> bool" where
  "queue_ok s \<longleftrightarrow> entries_ok (pendingWakes s)"

lemma normalizeWakeTarget_idem [simp]: "normalizeWakeTarget (normalizeWakeTarget v) = normalizeWakeTarget v"
proof (cases "normalizeWakeTarget v")
  case None
  then show ?thesis by (simp add: normalizeWakeTarget_def opt_string_def normalizeOptionalString_def)
next
  case (Some x)
  then show ?thesis using normalized_fixed [of "opt_string v" x] by (simp add: normalizeWakeTarget_def opt_string_def)
qed

lemma normalizeReason_idem [simp]:
  "normalizeHeartbeatWakeReason (Some (normalizeHeartbeatWakeReason v)) = normalizeHeartbeatWakeReason v"
proof (cases "normalizeOptionalString (opt_string v)")
  case None
  have "normalizeOptionalString (VStr ''requested'') = Some ''requested''"
    by (simp add: normalizeOptionalString_def js_trim_def is_js_space_def Let_def)
  with None show ?thesis by (simp add: normalizeHeartbeatWakeReason_def opt_string_def)
next
  case (Some x)
  with normalized_fixed [OF Some] show ?thesis by (simp add: normalizeHeartbeatWakeReason_def opt_string_def)
qed

text \<open>Queueing a queued wake again restores it under its own key, with a new request time.\<close>

lemma requeue_same:
  "wake_ok k w \<Longrightarrow> requestKey (requeued w) = k \<and> pendingOf (requeued w) now = w\<lparr>pw_requestedAt := now\<rparr>"
  by (auto simp: wake_ok_def requeued_def pendingOf_def requestKey_def Let_def)

lemma entries_ok_set: "entries_ok m \<Longrightarrow> wake_ok k w \<Longrightarrow> entries_ok (jm_set k w m)"
  unfolding entries_ok_def by (intro conjI ball_jm_set) auto

lemma queue_entry_ok: "entries_ok m \<Longrightarrow> entries_ok (queuePendingWakeReason m r now)"
proof -
  assume m: "entries_ok m"
  have h: "wake_ok (requestKey r) ((pendingOf r now)\<lparr>pw_heartbeat := h\<rparr>)" for h
    unfolding wake_ok_def
    by (rule exI [of _ "r\<lparr>rq_heartbeat := h\<rparr>"], rule exI [of _ now])
      (simp add: requestKey_def pendingOf_def Let_def)
  have n: "wake_ok (requestKey r) (pendingOf r now)" by (auto simp: wake_ok_def)
  show ?thesis
    using m h n by (simp add: queuePendingWakeReason_def Let_def entries_ok_set split: option.split)
qed

lemma queue_fold_ok: "entries_ok m \<Longrightarrow> entries_ok (foldl (\<lambda>m w. queuePendingWakeReason m (requeued w) now) m ws)"
  by (induction ws arbitrary: m) (simp_all add: queue_entry_ok)

lemma queue_ok_step: "queue_ok s \<Longrightarrow> queue_ok (wake_step s e)"
proof (cases e)
  case (RequestWake r c now)
  assume "queue_ok s"
  then show ?thesis by (simp add: RequestWake queue_entry_ok requestHeartbeat_def queue_ok_def)
next
  case (BatchThrows i now)
  assume "queue_ok s"
  then show ?thesis
    by (simp add: BatchThrows batchThrows_def queue_fold_ok queue_ok_def Let_def)
next
  case (WakeHandled i res now)
  assume "queue_ok s"
  then show ?thesis
    by (simp add: WakeHandled queue_entry_ok wakeHandled_def queue_ok_def Let_def split: list.split run_result.split)
next
  case (TimerFires now)
  assume "queue_ok s"
  then show ?thesis by (simp add: TimerFires timerFires_def queue_ok_def entries_ok_def Let_def split: option.split)
qed (simp_all add: queue_ok_def setHeartbeatWakeHandler_def disposeHandler_def Let_def)

interpretation hbq: machine wake_step initial_wakes queue_ok
  by unfold_locales (simp_all add: queue_ok_step, simp add: queue_ok_def entries_ok_def initial_wakes_def)

section \<open>Draining sends the batch back\<close>

definition touched :: "int \<Rightarrow> (string, pending_wake) jsmap \<Rightarrow> (string, pending_wake) jsmap" where
  "touched now m = map (\<lambda>(k, w). (k, w\<lparr>pw_requestedAt := now\<rparr>)) m"

lemma touched_simps [simp]: "touched t (touched u m) = touched t m" "touched t m = [] \<longleftrightarrow> m = []"
  by (auto simp: touched_def)

lemma touched_keys [simp]: "map fst (touched t m) = map fst m"
  by (induction m) (auto simp: touched_def)

lemma touched_ok: "entries_ok m \<Longrightarrow> entries_ok (touched now m)"
proof -
  have "wake_ok k (w\<lparr>pw_requestedAt := now\<rparr>)" if "wake_ok k w" for k w
    using requeue_same [OF that, of now] unfolding wake_ok_def by metis
  then show "entries_ok m \<Longrightarrow> ?thesis" by (auto simp: entries_ok_def) (auto simp: touched_def)
qed

lemma requeue_batch:
  "jm_wf (m @ xs) \<Longrightarrow> \<forall>e \<in> set xs. wake_ok (fst e) (snd e) \<Longrightarrow>
     foldl (\<lambda>m w. queuePendingWakeReason m (requeued w) now) m (map snd xs) = m @ touched now xs"
proof (induction xs arbitrary: m)
  case (Cons x xs)
  obtain k w where x: "x = (k, w)" by fastforce
  with Cons.prems have ok: "wake_ok k w" and new: "map_of m k = None" by (auto simp: map_of_eq_None_iff)
  from requeue_same [OF ok] new
  have "queuePendingWakeReason m (requeued w) now = m @ [(k, w\<lparr>pw_requestedAt := now\<rparr>)]"
    by (simp add: queuePendingWakeReason_def Let_def jm_set_new')
  moreover have "jm_wf ((m @ [(k, w\<lparr>pw_requestedAt := now\<rparr>)]) @ xs)" using Cons.prems(1) by (auto simp: x)
  ultimately show ?case using Cons.IH Cons.prems(2) by (simp add: x touched_def)
qed (simp add: touched_def)

lemma retry_delay: "resolveTimerTimeoutMs (int_val DEFAULT_RETRY_MS) (JFin 250) 0 = 1000"
  by (simp add: DEFAULT_RETRY_MS_def) code_simp

lemma schedule_retry: "wakeTimer s = None \<Longrightarrow>
    schedule s DEFAULT_RETRY_MS RetryTimer now = s\<lparr>wakeTimer := Some \<lparr>dueAt = now + 1000, delayMs = 1000, kind = RetryTimer\<rparr>\<rparr>"
  by (simp add: schedule_def retry_delay Let_def)

lemma finish_retry: "wakeTimer s = Some t \<Longrightarrow> kind t = RetryTimer \<Longrightarrow> finishBatch s d now = s\<lparr>wakesRunning := False\<rparr>"
  by (simp add: finishBatch_def schedule_def Let_def)

lemma draining_round:
  assumes ok: "queue_ok s" and timer: "wakeTimer s = Some t" and handler: "wakeHandler s \<noteq> None"
    and idle: "\<not> wakesRunning s" and some: "pendingWakes s \<noteq> []" and drain: "restartDraining a"
  shows "fireWakes a s w now = (a, s\<lparr>pendingWakes := touched now (pendingWakes s), scheduled := False,
     wakesRunning := False, wakeTimer := Some \<lparr>dueAt = now + 1000, delayMs = 1000, kind = RetryTimer\<rparr>\<rparr>)"
proof -
  have "foldl (\<lambda>m w. queuePendingWakeReason m (requeued w) now) [] (jm_vals (pendingWakes s)) = touched now (pendingWakes s)"
    using requeue_batch [of "[]" "pendingWakes s" now] ok by (simp add: queue_ok_def entries_ok_def)
  with assms(2-6) show ?thesis
    by (auto simp: fireWakes_def timerFires_def runWithGatewayIndependentRootWorkAdmission_def batchThrows_def
        Let_def schedule_retry finish_retry)
qed

text \<open>Timer rounds at the given clock readings, the gateway draining all the time.\<close>

definition drainRounds :: "admission_state \<Rightarrow> wake_state \<Rightarrow> nat \<Rightarrow> int list \<Rightarrow> wake_state" where
  "drainRounds a s w clocks = foldl (\<lambda>s now. snd (fireWakes a s w now)) s clocks"

lemma draining_rounds:
  assumes "queue_ok s" "wakeTimer s \<noteq> None" "wakeHandler s \<noteq> None" "\<not> wakesRunning s" "pendingWakes s \<noteq> []"
    "restartDraining a" "clocks \<noteq> []"
  shows "drainRounds a s w clocks = s\<lparr>pendingWakes := touched (last clocks) (pendingWakes s), scheduled := False,
     wakesRunning := False, wakeTimer := Some \<lparr>dueAt = last clocks + 1000, delayMs = 1000, kind = RetryTimer\<rparr>\<rparr>"
  using assms
proof (induction clocks arbitrary: s)
  case (Cons now clocks)
  from Cons.prems(2) obtain t where t: "wakeTimer s = Some t" by blast
  note r = draining_round [OF Cons.prems(1) t Cons.prems(3-6), of w now]
  let ?s = "snd (fireWakes a s w now)"
  have ok: "queue_ok ?s" using Cons.prems(1) touched_ok by (simp add: r queue_ok_def)
  show ?case
  proof (cases "clocks = []")
    case True
    then show ?thesis by (simp add: drainRounds_def r)
  next
    case False
    with Cons.IH [OF ok _ _ _ _ Cons.prems(6) False] Cons.prems show ?thesis
      by (simp add: drainRounds_def r)
  qed
qed simp

end
