(* ===== verification/Spec2Isabelle.thy ===== *)
theory Spec2Isabelle
  imports
    RouteIds SessionKeyUtils SessionKeys SessionKeyProps RouteBindings ResolveRoute RouteMatching RouteCaching
    SessionIdentity SessionLifecycle SessionExclusion SessionHandoff
    StringLists AllowFrom IngressTypes IngressDecision IngressState IngressRuntime
    OperatorScopes GatewayMethods MethodAuth
    ActiveWork GatewaySuspend GatewayRequest
    CommandQueue TaskTimeout AuthRateLimit RateLimits DedupeCache GatewayAdmission QueueHelpers
    CronActiveJobs HeartbeatCooldown NodePendingWork QueuedChatTurns StringCoerce TaskSuggestions Utf16Slice
    ConfigPaths StoreWriterQueue AuthProfileUsage HeartbeatWake RetryPolicy SessionAuthOverride FollowupLifecycle
    QueueDrain HeartbeatDrain
begin

text \<open>
  The core of an assistant gateway (TypeScript, under \<^verbatim>\<open>src/\<close> and \<^verbatim>\<open>packages/\<close> of the repository). The gateway
  is one process: clients connect to it and call methods, channels bring messages of chat services into it, agents run
  turns on model providers under it, and timers wake it. This library models the parts of that process that
  decide, admit, order and count, and proves what makes them correct.

  The parts and how they interact:

  \<^item> Work. Commands run in lanes of the queue \<^verbatim>\<open>process/command-queue.ts\<close> (theory CommandQueue: the state of the
    queue, enqueue, pump, completion, clear, reset, waiters), each under the watchdog of
    \<^verbatim>\<open>process/command-queue.ts\<close> (TaskTimeout). Whether the process may start work at all is the gate
    \<^verbatim>\<open>process/gateway-work-admission.ts\<close> (GatewayAdmission: restart drain, suspension, root work with its
    leases and waiters). A host that suspends the machine goes through \<^verbatim>\<open>infra/gateway-suspend-coordinator.ts\<close>
    (GatewaySuspend over ActiveWork, the snapshot of \<^verbatim>\<open>infra/gateway-active-work.ts\<close>). QueueDrain and the
    first section below compose queue and gate: a gateway that drains takes no command and empties itself.
    Writes of one file are serialised by \<^verbatim>\<open>shared/store-writer-queue.ts\<close> (StoreWriterQueue).
  \<^item> Requests. \<^verbatim>\<open>gateway/server-methods.ts\<close> handles a client's call (GatewayRequest): it authorises the caller
    (MethodAuth: \<^verbatim>\<open>gateway/method-scopes.ts\<close>, \<^verbatim>\<open>gateway/role-policy.ts\<close>; OperatorScopes: the scopes and what a
    grant covers), looks the method up (GatewayMethods: the table of core methods and the registry of
    \<^verbatim>\<open>gateway/methods/\<close>), asks the gate for root work and charges the write budget (RateLimits:
    \<^verbatim>\<open>gateway/control-plane-rate-limit.ts\<close>, \<^verbatim>\<open>infra/fixed-window-rate-limit.ts\<close>). Failed logins are counted by
    \<^verbatim>\<open>gateway/auth-rate-limit.ts\<close> (AuthRateLimit), replays are dropped by \<^verbatim>\<open>infra/dedupe.ts\<close> (DedupeCache).
  \<^item> Messages. Every channel resolves an inbound event through \<^verbatim>\<open>channels/message-access/\<close>: IngressTypes (its
    data), AllowFrom (the allowlists and the gate of control commands), IngressState (identities, access
    groups, resolved allowlists and routes), IngressDecision (the gates and the decision), IngressRuntime (the
    resolver a channel calls, from its parameters to the result).
  \<^item> Turns. A message that meets a running turn is queued: \<^verbatim>\<open>utils/queue-helpers.ts\<close> (QueueHelpers), the
    lifecycle of \<^verbatim>\<open>auto-reply/reply/queue/types.ts\<close> (FollowupLifecycle), the turns that may be aborted
    (QueuedChatTurns: \<^verbatim>\<open>gateway/chat-queued-turns.ts\<close>), prompts for nodes (NodePendingWork), suggestions for
    tasks (TaskSuggestions).
  \<^item> Routes. An admitted message gets its agent and session from \<^verbatim>\<open>routing/resolve-route.ts\<close> (ResolveRoute, with
    its index and caches; RouteMatching and RouteCaching hold what they guarantee), over the bindings of the
    configuration (RouteBindings: \<^verbatim>\<open>routing/bindings.ts\<close>, \<^verbatim>\<open>routing/binding-scope.ts\<close>,
    \<^verbatim>\<open>routing/bound-account-read.ts\<close>, \<^verbatim>\<open>config/bindings.ts\<close>), account, agent and chat ids (RouteIds) and session
    keys, built by \<^verbatim>\<open>routing/session-key.ts\<close> (SessionKeys) and read by \<^verbatim>\<open>sessions/session-key-utils.ts\<close>
    (SessionKeyUtils; SessionKeyProps relates the two).
  \<^item> Sessions. A turn works under an admission of its session; a reset, a deletion or a compaction of the session
    is a mutation that excludes such work: \<^verbatim>\<open>sessions/session-lifecycle-admission.ts\<close> and
    \<^verbatim>\<open>sessions/session-work-admission-handoff.ts\<close> (SessionLifecycle; SessionExclusion and SessionHandoff hold
    what they guarantee), over the keys of \<^verbatim>\<open>sessions/session-lifecycle-identity.ts\<close> (SessionIdentity). A call is a
    task that waits for locks, callbacks and other tasks; its phases are the awaits of the code. Calls nested under
    locks their caller holds are left out.
  \<^item> Timers. Cron runs in flight (CronActiveJobs: \<^verbatim>\<open>cron/active-jobs.ts\<close>), the cooldown and the wake queue of
    heartbeats (HeartbeatCooldown, HeartbeatWake: \<^verbatim>\<open>infra/heartbeat-cooldown.ts\<close>, \<^verbatim>\<open>infra/heartbeat-wake.ts\<close>),
    and the wakes of a gateway that drains (HeartbeatDrain and the last section below).
  \<^item> Providers. The cooldowns and failures of credentials, their order, the profile a session sticks to
    (AuthProfileUsage, AuthProfileOrder, SessionAuthOverride: \<^verbatim>\<open>agents/auth-profiles/\<close>), retries with backoff
    (RetryPolicy: \<^verbatim>\<open>packages/retry/\<close>).
  \<^item> Configuration. Merge patches and dotted paths (MergePatch, ConfigPaths: \<^verbatim>\<open>config/merge-patch.ts\<close>,
    \<^verbatim>\<open>config/config-paths.ts\<close>); the sanitisers of numbers and strings everything else uses (NumberCoercion,
    StringCoerce, StringLists, Utf16Slice: \<^verbatim>\<open>packages/normalization-core/\<close>).

  How the code is modelled. An object is a record, a tagged union a datatype, a JavaScript \<^verbatim>\<open>Map\<close> or an object with
  computed keys an association list in insertion order (\<^verbatim>\<open>jsmap\<close> of Prelude, with \<^verbatim>\<open>jm_get\<close>, \<^verbatim>\<open>jm_set\<close>,
  \<^verbatim>\<open>jm_del\<close>), a thrown error or an early return a constructor of the result. A function with side effects returns the
  new state. Asynchronous code is cut at its awaits: each part is a definition, and a step function over an
  event type (one event per call, timer or settled promise) gives the histories the invariants speak of, so every
  interleaving of the parts is a list of events. What the process reads from elsewhere is an argument: the clock, drawn
  UUIDs, the environment, callbacks and handlers, the async-local store. Objects compared by reference have
  numbers. Numbers are exact rationals with NaN and the infinities where the code reads unvalidated input, integers
  elsewhere; strings are lists of characters below code point 256, except in Utf16Slice, whose strings are 16-bit
  words.

  The library. Prelude holds the maps, the stable sort and the locale \<^verbatim>\<open>machine\<close> of a step function with an
  invariant, which every stateful theory interprets; further locales state the contracts of a budget of grants
  per window (RateLimits), and of the components their clients rely on. Each theory has the definitions in the order of
  the code, then its invariant and the lemmas, then its properties with their witnesses.

  What the groups of lemmas show: the gate counts every lease once and never confuses two leases, and a suspension ends
  and answers its waiters as long as no resume callback ends it itself and then throws (GatewaySuspend shows that case
  too); a queue settles each command once, in priority order, and is never idle with work; a
  request reaches its handler exactly under the conjunction of its guards and leaves nothing behind; scopes never
  grow by delegation and no plugin opens a reserved namespace to other scopes; a message is dispatched exactly when the admission rule
  holds, the decision is its first refusing gate, and nothing is dispatched for a direct sender that no admitting list
  vouches for; limits hold under every history; patches follow RFC 7396 and keep prototype keys out of objects nested in
  objects (inside arrays only as far as the arrays of the patch are clean); a message is routed by the first binding at the most specific tier, no
  cache changes a route, and session keys keep plain conversations apart; mutations of a session exclude its work without deadlock, and a hand-off token is used at most once; retries end and honour their hints.

  Bounds and fuel. Loops over data are structural. The loops that the code bounds by its state (the eviction loops, the
  retry runner) recurse over that bound, with their termination proved; no definition takes fuel, and
  StoreWriterQueue runs its drain loops as steps, so a loop that has not ended is a state with work left.

  Not modelled: the texts of errors and logs; sockets, HTTP and files; schema validation and cron expressions, which
  third-party packages do; the handlers of the methods and the adapters of channels and providers, which are arguments
  where the model calls them; the user interfaces and native applications; databases, embeddings and media. Locale
  comparison and locale lower-casing of the runtime are arguments or left out.
\<close>

section \<open>A gateway that drains\<close>

text \<open>
  C3. Once the gateway drains, its command queue takes no work: after any history of commands, in
  any continuation without a reset, an enqueue is refused and changes nothing, whatever its lane, its options
  and the root work it runs under, and every command that is queued, running or settled was accepted
  before the drain began.
\<close>

theorem draining_queue_refuses:
  assumes "s = foldl cq_step initial_queue es" and "list_all drain_op ops"
    and "t = foldl cq_step (markGatewayDraining s) ops"
  shows "enqueueCommandInLane t cur l opts now = (None, t) \<and>
    list_all (\<lambda>n. n < nextQueueSequence s) (queued_commands t @ running_commands t @ map fst (settled t))"
proof -
  have "cq_inv s" unfolding assms(1) by (rule cqm.run_inv)
  then have t: "cq_inv t" "restartDraining (admission t)" "nextQueueSequence t = nextQueueSequence s"
    using drain_run [of "markGatewayDraining s" ops] assms(2,3) mark_draining by simp_all
  then show ?thesis
    using accepted_range [OF t(1)] by (simp only: enqueue_refused list_all_iff) simp
qed

lemma draining_queue_refuses_witness:
  "fst (enqueueCommandInLane (foldl cq_step (markGatewayDraining (foldl cq_step initial_queue [])) [Clear ''main'']) None ''main''
     (sample_opts Foreground) 7) = None"
  using draining_queue_refuses [of _ "[]" "[Clear ''main'']", OF refl _ refl] by simp

text \<open>
  C4. The drain completes: when every lane has a slot, then after the drain began it is enough
  that as many runs finish as commands are queued or running. In whatever order the runs finish and whatever
  their outcomes, no command is left queued or running, every command ever accepted has
  been answered exactly once, and every caller of \<^verbatim>\<open>waitForActiveTasks\<close> has its answer.
\<close>

theorem draining_queue_empties:
  assumes "s = foldl cq_step initial_queue es" and "list_all (\<lambda>(k, ls). below 0 (maxConcurrent ls)) (lanes s)"
    and "length (queued_commands s) + length (running_commands s) \<le> length finishes"
    and "t = finishRuns (markGatewayDraining s) finishes"
  shows "queued_commands t = [] \<and> running_commands t = [] \<and> activeTaskWaiters t = [] \<and>
    mset (map fst (settled t)) = mset [1 ..< nextQueueSequence s]"
proof -
  have inv: "cq_inv s" unfolding assms(1) by (rule cqm.run_inv)
  have "open_lanes s" using assms(2) by (auto simp: open_lanes_def list_all_iff dest!: jm_get_mem)
  then have "open_lanes (markGatewayDraining s)" by (simp only: mark_open)
  moreover have "pending (markGatewayDraining s) \<le> length finishes"
    using assms(3) by (simp add: mark_open) (simp add: pending_def)
  ultimately have t: "cq_inv t" "pending t = 0" "activeTaskWaiters t = []" "nextQueueSequence t = nextQueueSequence s"
    using finishRuns_empties [of "markGatewayDraining s" finishes] assms(4) mark_draining inv by simp_all
  then show ?thesis using accepted_split [OF t(1)] by (simp add: pending_def)
qed

lemma draining_queue_empties_witness:
  "queued_commands (finishRuns (markGatewayDraining (foldl cq_step initial_queue sample_ops))
     [(0, Resolved), (0, Rejected TaskFailed), (0, Resolved)]) = []"
  using draining_queue_empties [OF refl, of sample_ops "[(0, Resolved), (0, Rejected TaskFailed), (0, Resolved)]", OF _ _ refl]
  by (simp add: sample_pending)

text \<open>
  C30. A gateway that drains for a restart gives its heartbeat wakes back. Take the wake queue after
  any history, with a wake handler registered, its running flag down and at least one wake pending, and let
  its timer fire, one or more times, while the restart drain refuses new root work. Then every wake that was pending
  is pending again, under its key, in the same order and with the same contents but for its request time, which is that
  of the last round; nothing else in the queue changes but that the scheduled and running flags are down and a retry timer is
  armed a second after the last round. In particular the batches in progress are those of before: the batches the rounds
  started are over. No round changes the admission.
\<close>

theorem draining_gateway_keeps_wakes:
  assumes "s = foldl wake_step initial_wakes es" and "wakeHandler s \<noteq> None" and "pendingWakes s \<noteq> []"
    and "\<not> wakesRunning s" and "restartDraining a" and "clocks \<noteq> []"
  shows "drainRounds a s w clocks =
      s\<lparr>pendingWakes := map (\<lambda>(k, p). (k, p\<lparr>pw_requestedAt := last clocks\<rparr>)) (pendingWakes s), scheduled := False,
        wakesRunning := False, wakeTimer := Some \<lparr>dueAt = last clocks + 1000, delayMs = 1000, kind = RetryTimer\<rparr>\<rparr> \<and>
    batches (drainRounds a s w clocks) = batches s \<and> fst (fireWakes a s w now) = a"
proof -
  have ok: "queue_ok s" "wakes_inv s" unfolding assms(1) by (rule hbq.run_inv, rule hbw.run_inv)
  then obtain t where t: "wakeTimer s = Some t" using assms(2,3) by (auto simp: wakes_inv_def)
  then show ?thesis
    using draining_rounds [OF ok(1) _ assms(2,4,3,5,6)] draining_round [OF ok(1) t assms(2,4,3,5)]
    by (simp add: touched_def)
qed

lemma draining_gateway_keeps_wakes_witness:
  "map fst (pendingWakes (drainRounds (markGatewayRestartDraining initial_admission)
     (foldl wake_step initial_wakes [RequestWake (sample_request WakeEvent) None 1000, SetHandler (Some 1) 1100]) 0 [2000, 3000]))
   = [''main::'']"
proof -
  let ?s = "foldl wake_step initial_wakes [RequestWake (sample_request WakeEvent) None 1000, SetHandler (Some 1) 1100]"
  have s: "wakeHandler ?s \<noteq> None" "map fst (pendingWakes ?s) = [''main::'']" "\<not> wakesRunning ?s"
    by code_simp+
  have "restartDraining (markGatewayRestartDraining initial_admission)" by code_simp
  moreover have "pendingWakes ?s \<noteq> []" using s(2) by auto
  ultimately have "pendingWakes (drainRounds (markGatewayRestartDraining initial_admission) ?s 0 [2000, 3000]) =
      map (\<lambda>(k, p). (k, p\<lparr>pw_requestedAt := 3000\<rparr>)) (pendingWakes ?s)"
    using draining_gateway_keeps_wakes [OF refl s(1) _ s(3), of "markGatewayRestartDraining initial_admission" "[2000, 3000]" 0]
    by simp
  then show ?thesis using s(2) by (simp add: comp_def case_prod_beta)
qed

end
